(* ===== verification/MmsPrelude.thy ===== *)
theory MmsPrelude
  imports Main "HOL-Library.Word" "HOL-Library.Monad_Syntax"
begin

text \<open>
  Shared vocabulary of the development: C integer conversions, raw memory blocks, C strings
  and the handful of string-library functions (\<open>strlen\<close>, \<open>memcmp\<close>, \<open>tolower\<close>, \<dots>) the
  modelled sources call, with the generic lemmas the component theories rest on.

  A C computation whose behaviour may be undefined or that may abort (an access outside a
  block, a read of an indeterminate byte, a failed \<open>assert\<close>, an allocation the program exits
  on) is a function into \<^typ>\<open>'a option\<close>: \<^const>\<open>None\<close> is the fault. A theorem that such a
  function returns \<^const>\<open>Some\<close> is therefore a memory-safety statement.
\<close>

unbundle bit_operations_syntax

named_theorems c_arith \<open>conversions between C integer types on values in range\<close>
named_theorems mem_simps \<open>reads and writes of memory blocks in range\<close>

section \<open>C integer types\<close>

text \<open>
  Values of the C integer types are HOL integers; the conversion to a type of width \<open>w\<close> is
  written out at every assignment that narrows. Signed conversion is two's complement, as
  the compilers of the build files define it. \<open>int\<close> has 32 bits, \<open>long long\<close>, \<open>size_t\<close> 64.
\<close>

definition c_int :: "int \<Rightarrow> int" where
  "c_int x = signed_take_bit 31 x"

definition c_llong :: "int \<Rightarrow> int" where
  "c_llong x = signed_take_bit 63 x"

definition c_size_t :: "int \<Rightarrow> nat" where
  "c_size_t x = nat (take_bit 64 x)"

definition INT_MAX :: int where
  "INT_MAX = 2147483647"

lemma c_int_id [c_arith]: "- 2147483648 \<le> x \<Longrightarrow> x \<le> 2147483647 \<Longrightarrow> c_int x = x"
  unfolding c_int_def by (rule signed_take_bit_int_eq_self) simp_all

lemma c_int_range: "- 2147483648 \<le> c_int x \<and> c_int x \<le> 2147483647"
proof -
  have "- (2 ^ 31) \<le> signed_take_bit 31 x" and "signed_take_bit 31 x < 2 ^ 31"
    by (rule signed_take_bit_int_greater_eq_minus_exp, rule signed_take_bit_int_less_exp)
  then show ?thesis by (simp add: c_int_def)
qed

lemma c_llong_id [c_arith]:
  "- 9223372036854775808 \<le> x \<Longrightarrow> x \<le> 9223372036854775807 \<Longrightarrow> c_llong x = x"
  unfolding c_llong_def by (rule signed_take_bit_int_eq_self) simp_all

lemma c_size_t_id [c_arith]: "0 \<le> x \<Longrightarrow> x < 18446744073709551616 \<Longrightarrow> c_size_t x = nat x"
  unfolding c_size_t_def by (simp add: take_bit_int_eq_self)

lemma c_size_t_of_nat [c_arith]: "n < 18446744073709551616 \<Longrightarrow> c_size_t (int n) = n"
  by (simp add: c_size_t_id)

lemma c_size_t_dec [c_arith]: "0 < n \<Longrightarrow> n < 18446744073709551616 \<Longrightarrow> c_size_t (int n - 1) = n - 1"
  by (cases n) (simp_all add: c_size_t_of_nat)

lemma c_size_t_inc [c_arith]: "n < 18446744073709551615 \<Longrightarrow> c_size_t (int n + 1) = Suc n"
  using c_size_t_of_nat [of "Suc n"] by (simp add: add.commute)

section \<open>Memory blocks\<close>

text \<open>
  A block is the list of its bytes; a byte that was allocated and not yet written is
  indeterminate, \<^const>\<open>None\<close>. \<open>malloc\<close> fails exactly on requests above \<open>PTRDIFF_MAX\<close>.
\<close>

type_synonym mem = "char option list"

abbreviation NUL :: char where "NUL \<equiv> CHR 0x00"
abbreviation CR :: char where "CR \<equiv> CHR 0x0D"
abbreviation LF :: char where "LF \<equiv> CHR 0x0A"
abbreviation CRLF :: string where "CRLF \<equiv> [CR, LF]"

definition assert_c :: "bool \<Rightarrow> unit option" where
  "assert_c b = (if b then Some () else None)"

lemma assert_c_simps [simp]: "assert_c True = Some ()" "assert_c False = None"
  by (simp_all add: assert_c_def)

definition malloc :: "nat \<Rightarrow> mem option" where
  "malloc n = (if n < 2 ^ 63 then Some (replicate n None) else None)"

definition realloc :: "mem \<Rightarrow> nat \<Rightarrow> mem option" where
  "realloc m n = (if n < 2 ^ 63 then Some (take n m @ replicate (n - length m) None) else None)"

definition mem_store :: "mem \<Rightarrow> nat \<Rightarrow> mem \<Rightarrow> mem option" where
  "mem_store m i xs =
     (if i + length xs \<le> length m then Some (take i m @ xs @ drop (i + length xs) m) else None)"

definition mem_fetch :: "mem \<Rightarrow> nat \<Rightarrow> nat \<Rightarrow> mem option" where
  "mem_fetch m i n = (if i + n \<le> length m then Some (take n (drop i m)) else None)"

definition mem_get :: "mem \<Rightarrow> nat \<Rightarrow> char option" where
  "mem_get m i = (if i < length m then m ! i else None)"

text \<open>An array access: outside the array it is a fault.\<close>

definition slot_get :: "'a list \<Rightarrow> nat \<Rightarrow> 'a option" where
  "slot_get xs i = (if i < length xs then Some (xs ! i) else None)"

definition c_literal :: "string \<Rightarrow> mem" where
  "c_literal s = map Some s @ [Some NUL]"

lemma malloc_ok [mem_simps]: "n < 9223372036854775808 \<Longrightarrow> malloc n = Some (replicate n None)"
  by (simp add: malloc_def)

lemma realloc_ok [mem_simps]:
  "n < 9223372036854775808 \<Longrightarrow> realloc m n = Some (take n m @ replicate (n - length m) None)"
  by (simp add: realloc_def)

lemma mem_store_ok [mem_simps]:
  "i + length xs \<le> length m \<Longrightarrow> mem_store m i xs = Some (take i m @ xs @ drop (i + length xs) m)"
  by (simp add: mem_store_def)

lemma mem_fetch_ok [mem_simps]: "i + n \<le> length m \<Longrightarrow> mem_fetch m i n = Some (take n (drop i m))"
  by (simp add: mem_fetch_def)

lemma mem_store_length: "mem_store m i xs = Some m' \<Longrightarrow> length m' = length m"
  by (auto simp: mem_store_def split: if_splits)

lemma mem_get_ok [mem_simps]: "i < length m \<Longrightarrow> mem_get m i = m ! i"
  by (simp add: mem_get_def)

lemma mem_get_append [simp]:
  "mem_get (xs @ ys) i = (if i < length xs then mem_get xs i else mem_get ys (i - length xs))"
  by (auto simp: mem_get_def nth_append)

lemma mem_get_map_Some [simp]: "i < length s \<Longrightarrow> mem_get (map Some s) i = Some (s ! i)"
  by (simp add: mem_get_def)

lemma slot_get_ok [simp]: "i < length xs \<Longrightarrow> slot_get xs i = Some (xs ! i)"
  by (simp add: slot_get_def)

lemma length_c_literal [simp]: "length (c_literal s) = Suc (length s)"
  by (simp add: c_literal_def)

section \<open>The C string functions\<close>

text \<open>\<open>strlen\<close> reads up to the first NUL; running off the block or into an indeterminate byte
  is a fault.\<close>

fun strlen :: "mem \<Rightarrow> nat option" where
  "strlen [] = None"
| "strlen (None # m) = None"
| "strlen (Some c # m) = (if c = NUL then Some 0 else map_option Suc (strlen m))"

lemma strlen_literal [simp]: "NUL \<notin> set s \<Longrightarrow> strlen (map Some s @ Some NUL # m) = Some (length s)"
  by (induction s) auto

lemma strlen_c_literal [simp]: "NUL \<notin> set s \<Longrightarrow> strlen (c_literal s) = Some (length s)"
  unfolding c_literal_def by (rule strlen_literal)

lemma strlen_bound: "strlen m = Some n \<Longrightarrow> n < length m"
  by (induction m arbitrary: n rule: strlen.induct) (auto split: if_splits)

text \<open>\<open>memcmp\<close> compares as unsigned bytes and yields the sign of the first difference.\<close>

fun memcmp :: "mem \<Rightarrow> mem \<Rightarrow> nat \<Rightarrow> int option" where
  "memcmp a b 0 = Some 0"
| "memcmp (Some x # a) (Some y # b) (Suc n) =
     (if x = y then memcmp a b n else Some (if (of_char x :: nat) < of_char y then - 1 else 1))"
| "memcmp a b (Suc n) = None"

lemma memcmp_refl: "length a = n \<Longrightarrow> memcmp (map Some a @ x) (map Some a @ y) n = Some 0"
  by (induction a arbitrary: n) auto

lemma memcmp_eq_iff:
  assumes "length a = n" and "length b = n"
  shows "memcmp (map Some a @ x) (map Some b @ y) n = Some 0 \<longleftrightarrow> a = b"
  using assms
proof (induction n arbitrary: a b)
  case 0
  then show ?case by simp
next
  case (Suc n)
  then obtain c a' d b' where "a = c # a'" "b = d # b'" "length a' = n" "length b' = n"
    by (metis length_Suc_conv)
  with Suc.IH show ?case by (auto simp: of_char_eq_iff)
qed

text \<open>A \<open>char\<close> is signed.\<close>

definition c_char :: "char \<Rightarrow> int" where
  "c_char c = (if (of_char c :: nat) < 128 then int (of_char c) else int (of_char c) - 256)"

definition digit_char :: "nat \<Rightarrow> char" where
  "digit_char d = char_of (48 + d)"

definition is_digit :: "char \<Rightarrow> bool" where
  "is_digit c \<longleftrightarrow> 48 \<le> (of_char c :: nat) \<and> (of_char c :: nat) \<le> 57"

definition is_print :: "char \<Rightarrow> bool" where
  "is_print c \<longleftrightarrow> 32 \<le> (of_char c :: nat) \<and> (of_char c :: nat) \<le> 126"

definition is_space :: "char \<Rightarrow> bool" where
  "is_space c \<longleftrightarrow> c = CHR 0x20 \<or> 9 \<le> (of_char c :: nat) \<and> (of_char c :: nat) \<le> 13"

definition to_lower :: "char \<Rightarrow> char" where
  "to_lower c =
     (if 65 \<le> (of_char c :: nat) \<and> (of_char c :: nat) \<le> 90 then char_of (of_char c + 32 :: nat) else c)"

definition to_upper :: "char \<Rightarrow> char" where
  "to_upper c =
     (if 97 \<le> (of_char c :: nat) \<and> (of_char c :: nat) \<le> 122 then char_of (of_char c - 32 :: nat) else c)"

text \<open>\<open>printf("%d")\<close> / \<open>printf("%llu")\<close>: the decimal digits of a number.\<close>

fun show_nat :: "nat \<Rightarrow> string" where
  "show_nat n = (if n < 10 then [digit_char n] else show_nat (n div 10) @ [digit_char (n mod 10)])"

declare show_nat.simps [simp del]

definition show_int :: "int \<Rightarrow> string" where
  "show_int i = (if i < 0 then CHR ''-'' # show_nat (nat (- i)) else show_nat (nat i))"

lemma of_char_digit [simp]: "d < 10 \<Longrightarrow> of_char (digit_char d) = (48 + d :: nat)"
  by (simp add: digit_char_def of_char_of)

lemma is_digit_digit_char [simp]: "d < 10 \<Longrightarrow> is_digit (digit_char d)"
  by (simp add: is_digit_def)

lemma show_nat_digits: "c \<in> set (show_nat n) \<Longrightarrow> is_digit c"
proof (induction n rule: show_nat.induct)
  case (1 n)
  then show ?case by (auto simp: show_nat.simps [of n] split: if_splits)
qed

lemma show_nat_nonempty [simp]: "show_nat n \<noteq> []"
  by (simp add: show_nat.simps [of n])

lemma digit_not_special:
  "is_digit c \<Longrightarrow> c \<noteq> CR \<and> c \<noteq> LF \<and> c \<noteq> NUL \<and> c \<noteq> CHR ''-'' \<and> c \<noteq> CHR ''+'' \<and> c \<noteq> CHR ''$''"
  by (auto simp: is_digit_def)

text \<open>The number of decimal digits, as C code computes it by repeated division.\<close>

lemma show_nat_length_mono: "m \<le> n \<Longrightarrow> length (show_nat m) \<le> length (show_nat n)"
proof (induction n arbitrary: m rule: show_nat.induct)
  case (1 n)
  show ?case
  proof (cases "n < 10")
    case True
    with "1.prems" show ?thesis by (simp add: show_nat.simps [of n] show_nat.simps [of m])
  next
    case False
    have "length (show_nat (m div 10)) \<le> length (show_nat (n div 10))"
      using "1.IH" [OF False, of "m div 10"] "1.prems" by (simp add: div_le_mono)
    with False show ?thesis by (simp add: show_nat.simps [of n] show_nat.simps [of m])
  qed
qed

lemma show_nat_length_pow: "n < 10 ^ Suc k \<Longrightarrow> length (show_nat n) \<le> Suc k"
proof (induction k arbitrary: n)
  case 0
  then show ?case by (simp add: show_nat.simps [of n])
next
  case (Suc k)
  have "n div 10 < 10 ^ Suc k" using Suc.prems by (simp add: less_mult_imp_div_less)
  then have "length (show_nat (n div 10)) \<le> Suc k" by (rule Suc.IH)
  then show ?case by (simp add: show_nat.simps [of n])
qed

section \<open>Numbers and lists\<close>

lemma nat_one_plus_int [simp]: "nat (1 + int k) = Suc k"
  by simp

lemma of_char_less_256: "(of_char c :: nat) < 256"
  by simp

lemma take_append_exact [simp]: "length xs = n \<Longrightarrow> take n (xs @ ys) = xs"
  by simp

lemma drop_append_exact [simp]: "length xs = n \<Longrightarrow> drop n (xs @ ys) = ys"
  by simp

lemma map_the_map_Some [simp]: "map the (map Some xs) = xs"
  by (simp add: comp_def)

lemma length_takeWhile_eq_iff: "length (takeWhile P xs) = length xs \<longleftrightarrow> (\<forall>x\<in>set xs. P x)"
  by (induction xs) auto

lemma all_Some_map_the: "None \<notin> set m \<Longrightarrow> map Some (map the m) = m"
  by (induction m) auto

end
