(* ===== verification/Sds.thy ===== *)
theory Sds
  imports MmsPrelude "HOL-Library.Sublist"
begin

text \<open>
  The dynamic string library of hiredis (\<open>win32/hiredis/sds.c\<close>, \<open>include/hiredis/sds.h\<close>).
  A string is a header with two C \<open>int\<close>s and the block behind it; every operation reads and
  writes that block through the bounds-checked accesses of the prelude, so that a result
  \<^const>\<open>Some\<close> says that no access left the block. \<open>sds_wf\<close> is the representation invariant,
  \<open>sds_str\<close> the abstraction to the byte string; the laws of the library are stated over
  the two and collected in the locale \<open>dynamic_string\<close>, which the C functions interpret.
\<close>

named_theorems sds_laws \<open>effect of the sds operations on the byte string\<close>

section \<open>The header and the operations\<close>

record sdshdr =
  sds_len :: int
  sds_free :: int
  sds_buf :: mem

definition sdslen :: "sdshdr \<Rightarrow> nat" where
  "sdslen s = c_size_t (sds_len s)"

definition sdsavail :: "sdshdr \<Rightarrow> nat" where
  "sdsavail s = c_size_t (sds_free s)"

definition sdsnewlen :: "mem option \<Rightarrow> nat \<Rightarrow> sdshdr option" where
  "sdsnewlen init initlen = do {
     buf \<leftarrow> malloc (initlen + 1);
     buf \<leftarrow> (if initlen \<noteq> 0 then
               (case init of
                  Some src \<Rightarrow> mem_fetch src 0 initlen \<bind> mem_store buf 0
                | None \<Rightarrow> mem_store buf 0 (replicate initlen (Some NUL)))
             else Some buf);
     buf \<leftarrow> mem_store buf initlen [Some NUL];
     Some \<lparr>sds_len = c_int (int initlen), sds_free = 0, sds_buf = buf\<rparr> }"

definition sdsempty :: "sdshdr option" where
  "sdsempty = sdsnewlen (Some (c_literal [])) 0"

definition sdsnew :: "mem option \<Rightarrow> sdshdr option" where
  "sdsnew init = do {
     initlen \<leftarrow> (case init of None \<Rightarrow> Some 0 | Some m \<Rightarrow> strlen m);
     sdsnewlen init initlen }"

definition sdsdup :: "sdshdr \<Rightarrow> sdshdr option" where
  "sdsdup s = sdsnewlen (Some (sds_buf s)) (sdslen s)"

definition sdsupdatelen :: "sdshdr \<Rightarrow> sdshdr option" where
  "sdsupdatelen s = do {
     n \<leftarrow> strlen (sds_buf s);
     let reallen = c_int (int n);
     Some (s\<lparr>sds_free := c_int (sds_free s + (sds_len s - reallen)), sds_len := reallen\<rparr>) }"

definition sdsMakeRoomFor :: "sdshdr \<Rightarrow> nat \<Rightarrow> sdshdr option" where
  "sdsMakeRoomFor s addlen =
     (if addlen \<le> sdsavail s then Some s
      else do {
        let len = sdslen s;
        let newlen = c_size_t ((int len + int addlen) * 2);
        buf \<leftarrow> realloc (sds_buf s) (newlen + 1);
        Some (s\<lparr>sds_free := c_int (int newlen - int len), sds_buf := buf\<rparr>) })"

definition sdsgrowzero :: "sdshdr \<Rightarrow> nat \<Rightarrow> sdshdr option" where
  "sdsgrowzero s len =
     (let curlen = c_size_t (sds_len s)
      in if len \<le> curlen then Some s
         else do {
           s \<leftarrow> sdsMakeRoomFor s (len - curlen);
           buf \<leftarrow> mem_store (sds_buf s) curlen (replicate (len - curlen + 1) (Some NUL));
           let totlen = c_size_t (c_int (sds_len s + sds_free s));
           let len' = c_int (int len);
           Some (s\<lparr>sds_len := len', sds_free := c_int (int totlen - len'), sds_buf := buf\<rparr>) })"

definition sdscatlen :: "sdshdr \<Rightarrow> mem \<Rightarrow> nat \<Rightarrow> sdshdr option" where
  "sdscatlen s t len = do {
     let curlen = sdslen s;
     s \<leftarrow> sdsMakeRoomFor s len;
     src \<leftarrow> mem_fetch t 0 len;
     buf \<leftarrow> mem_store (sds_buf s) curlen src;
     let s = s\<lparr>sds_len := c_int (int curlen + int len), sds_free := c_int (sds_free s - int len)\<rparr>;
     buf \<leftarrow> mem_store buf (curlen + len) [Some NUL];
     Some (s\<lparr>sds_buf := buf\<rparr>) }"

definition sdscat :: "sdshdr \<Rightarrow> mem \<Rightarrow> sdshdr option" where
  "sdscat s t = strlen t \<bind> sdscatlen s t"

definition sdscpylen :: "sdshdr \<Rightarrow> mem \<Rightarrow> nat \<Rightarrow> sdshdr option" where
  "sdscpylen s t len = do {
     let totlen = c_size_t (c_int (sds_free s + sds_len s));
     s \<leftarrow> (if totlen < len then sdsMakeRoomFor s (c_size_t (int len - sds_len s)) else Some s);
     let totlen = c_size_t (c_int (sds_free s + sds_len s));
     src \<leftarrow> mem_fetch t 0 len;
     buf \<leftarrow> mem_store (sds_buf s) 0 src;
     buf \<leftarrow> mem_store buf len [Some NUL];
     Some (s\<lparr>sds_len := c_int (int len), sds_free := c_int (int totlen - int len), sds_buf := buf\<rparr>) }"

definition sdscpy :: "sdshdr \<Rightarrow> mem \<Rightarrow> sdshdr option" where
  "sdscpy s t = strlen t \<bind> sdscpylen s t"

text \<open>
  The expansion of the format is the C library's; \<open>out\<close> is the text it produces.
  \<open>vsnprintf(buf, n, \<dots>)\<close> writes as much of it as fits in \<open>n - 1\<close> bytes and a NUL. The loop
  doubles the buffer until the byte before its last one stays NUL.
\<close>

definition vsnprintf :: "mem \<Rightarrow> nat \<Rightarrow> string \<Rightarrow> mem option" where
  "vsnprintf buf n out = mem_store buf 0 (map Some (take (n - 1) out) @ [Some NUL])"

lemma vsnprintf_full:
  assumes "malloc n = Some b0" and "mem_store b0 (n - 2) [Some NUL] = Some b1"
    and "vsnprintf b1 n out = Some b2" and "mem_get b2 (n - 2) = Some c" and "c \<noteq> NUL"
  shows "n < length out + 2"
proof (rule ccontr)
  assume "\<not> n < length out + 2"
  then have n: "length out + 2 \<le> n" by simp
  have l: "length b1 = n" and b1: "b1 ! (n - 2) = Some NUL"
    using assms(1,2) n
    by (auto simp: malloc_def mem_store_def nth_append split: if_splits)
  have "take (n - 1) out = out" using n by simp
  then have b2: "b2 = map Some out @ Some NUL # drop (Suc (length out)) b1"
    using assms(3) by (auto simp: vsnprintf_def mem_store_def split: if_splits)
  have "n - 2 = length out \<or> Suc (n - 3) = n - 2" using n by arith
  then have "b2 ! (n - 2) = Some NUL"
    using n l b1 by (auto simp: b2 nth_append nth_Cons')
  with assms(4,5) show False by (auto simp: mem_get_def split: if_splits)
qed

function vprintf_loop :: "nat \<Rightarrow> string \<Rightarrow> mem option" where
  "vprintf_loop buflen out =
     (if buflen < 2 then None
      else do {
        buf \<leftarrow> malloc buflen;
        buf \<leftarrow> mem_store buf (buflen - 2) [Some NUL];
        buf \<leftarrow> vsnprintf buf buflen out;
        c \<leftarrow> mem_get buf (buflen - 2);
        if c \<noteq> NUL then vprintf_loop (buflen * 2) out else Some buf })"
  by pat_completeness auto
termination
proof (relation "measure (\<lambda>(buflen, out). length out + 2 - buflen)", goal_cases)
  case 1
  show ?case by simp
next
  case (2 buflen out b0 b1 b2 c)
  then have "buflen < length out + 2" by (intro vsnprintf_full [of buflen b0 b1 out b2 c])
  with 2 show ?case by simp
qed

declare vprintf_loop.simps [simp del]

definition sdscatvprintf :: "sdshdr \<Rightarrow> string \<Rightarrow> sdshdr option" where
  "sdscatvprintf s out = vprintf_loop 16 out \<bind> sdscat s"

definition sdscatprintf :: "sdshdr \<Rightarrow> string \<Rightarrow> sdshdr option" where
  "sdscatprintf s out = sdscatvprintf s out"

text \<open>\<open>strchr(cset, c)\<close> also finds the terminating NUL of \<open>cset\<close>.\<close>

definition strchr_hit :: "string \<Rightarrow> char \<Rightarrow> bool" where
  "strchr_hit cset c \<longleftrightarrow> c = NUL \<or> c \<in> set cset"

function trim_sp :: "mem \<Rightarrow> string \<Rightarrow> int \<Rightarrow> int \<Rightarrow> int option" where
  "trim_sp m cset sp fin =
     (if sp \<le> fin then do {
        c \<leftarrow> mem_get m (nat sp);
        if strchr_hit cset c then trim_sp m cset (sp + 1) fin else Some sp }
      else Some sp)"
  by pat_completeness auto
termination
  by (relation "measure (\<lambda>(m, cset, sp, fin). nat (fin + 1 - sp))") auto

function trim_ep :: "mem \<Rightarrow> string \<Rightarrow> int \<Rightarrow> int option" where
  "trim_ep m cset ep =
     (if ep > 0 then do {
        c \<leftarrow> mem_get m (nat ep);
        if strchr_hit cset c then trim_ep m cset (ep - 1) else Some ep }
      else Some ep)"
  by pat_completeness auto
termination
  by (relation "measure (\<lambda>(m, cset, ep). nat ep)") auto

declare trim_sp.simps [simp del]
declare trim_ep.simps [simp del]

definition sdstrim :: "sdshdr \<Rightarrow> string \<Rightarrow> sdshdr option" where
  "sdstrim s cset = do {
     let fin = int (sdslen s) - 1;
     sp \<leftarrow> trim_sp (sds_buf s) cset 0 fin;
     ep \<leftarrow> trim_ep (sds_buf s) cset fin;
     let len = (if sp > ep then 0 else nat ((ep - sp) + 1));
     buf \<leftarrow> (if sp \<noteq> 0 then mem_fetch (sds_buf s) (nat sp) len \<bind> mem_store (sds_buf s) 0
             else Some (sds_buf s));
     buf \<leftarrow> mem_store buf len [Some NUL];
     Some (s\<lparr>sds_free := c_int (sds_free s + (sds_len s - int len)), sds_len := c_int (int len),
             sds_buf := buf\<rparr>) }"

text \<open>The first half of \<open>sdsrange\<close>: the normalised \<open>start\<close> and the new length.\<close>

definition sdsrange_bounds :: "nat \<Rightarrow> int \<Rightarrow> int \<Rightarrow> int \<times> int" where
  "sdsrange_bounds len start stop =
     (let start = (if start < 0 then (let st = c_int (int len + start) in if st < 0 then 0 else st) else start);
          stop = (if stop < 0 then (let en = c_int (int len + stop) in if en < 0 then 0 else en) else stop);
          newlen = (if start > stop then 0 else (stop - start) + 1)
      in if newlen \<noteq> 0 then
           (if start \<ge> c_int (int len) then (start, 0)
            else if stop \<ge> c_int (int len) then
              (let stop = c_int (int len - 1)
               in (start, if start > stop then 0 else (stop - start) + 1))
            else (start, newlen))
         else (0, newlen))"

definition sdsrange :: "sdshdr \<Rightarrow> int \<Rightarrow> int \<Rightarrow> sdshdr option" where
  "sdsrange s start stop =
     (let len = sdslen s
      in if len = 0 then Some s
         else case sdsrange_bounds len start stop of (start, newlen) \<Rightarrow>
           do {
             buf \<leftarrow> (if start \<noteq> 0 \<and> newlen \<noteq> 0
                     then mem_fetch (sds_buf s) (nat start) (nat newlen) \<bind> mem_store (sds_buf s) 0
                     else Some (sds_buf s));
             buf \<leftarrow> mem_store buf (nat newlen) [Some NUL];
             Some (s\<lparr>sds_free := c_int (sds_free s + (sds_len s - newlen)), sds_len := c_int newlen,
                     sds_buf := buf\<rparr>) })"

function map_bytes :: "(char \<Rightarrow> char) \<Rightarrow> int \<Rightarrow> int \<Rightarrow> mem \<Rightarrow> mem option" where
  "map_bytes f j len m =
     (if j < len then do {
        c \<leftarrow> mem_get m (nat j);
        m \<leftarrow> mem_store m (nat j) [Some (f c)];
        map_bytes f (j + 1) len m }
      else Some m)"
  by pat_completeness auto
termination
  by (relation "measure (\<lambda>(f, j, len, m). nat (len - j))") auto

declare map_bytes.simps [simp del]

definition sdstolower :: "sdshdr \<Rightarrow> sdshdr option" where
  "sdstolower s = do {
     buf \<leftarrow> map_bytes to_lower 0 (c_int (int (sdslen s))) (sds_buf s);
     Some (s\<lparr>sds_buf := buf\<rparr>) }"

definition sdstoupper :: "sdshdr \<Rightarrow> sdshdr option" where
  "sdstoupper s = do {
     buf \<leftarrow> map_bytes to_upper 0 (c_int (int (sdslen s))) (sds_buf s);
     Some (s\<lparr>sds_buf := buf\<rparr>) }"

definition sdscmp :: "sdshdr \<Rightarrow> sdshdr \<Rightarrow> int option" where
  "sdscmp s1 s2 = do {
     let l1 = sdslen s1;
     let l2 = sdslen s2;
     let minlen = (if l1 < l2 then l1 else l2);
     cmp \<leftarrow> memcmp (sds_buf s1) (sds_buf s2) minlen;
     Some (if cmp = 0 then c_int (int l1 - int l2) else cmp) }"

section \<open>The representation invariant and the abstraction\<close>

definition sds_wf :: "sdshdr \<Rightarrow> bool" where
  "sds_wf s \<longleftrightarrow>
     0 \<le> sds_len s \<and> 0 \<le> sds_free s \<and> sds_len s + sds_free s \<le> INT_MAX \<and>
     length (sds_buf s) = nat (sds_len s + sds_free s) + 1 \<and>
     None \<notin> set (take (nat (sds_len s)) (sds_buf s)) \<and>
     sds_buf s ! nat (sds_len s) = Some NUL"

definition sds_str :: "sdshdr \<Rightarrow> string" where
  "sds_str s = map the (take (nat (sds_len s)) (sds_buf s))"

text \<open>Room for \<open>n\<close> more bytes: the doubled allocation still fits the \<open>int\<close> fields.\<close>

definition sds_room :: "sdshdr \<Rightarrow> nat \<Rightarrow> bool" where
  "sds_room s n \<longleftrightarrow> (length (sds_str s) + n) * 2 \<le> nat INT_MAX"

text \<open>A well-formed header is determined by its string, its slack and what lies in the slack.\<close>

definition sds_of :: "string \<Rightarrow> mem \<Rightarrow> sdshdr" where
  "sds_of str slack =
     \<lparr>sds_len = int (length str), sds_free = int (length slack),
      sds_buf = map Some str @ Some NUL # slack\<rparr>"

lemma sds_of_sel [simp]:
  "sds_len (sds_of str slack) = int (length str)"
  "sds_free (sds_of str slack) = int (length slack)"
  "sds_buf (sds_of str slack) = map Some str @ Some NUL # slack"
  "sds_str (sds_of str slack) = str"
  by (simp_all add: sds_of_def sds_str_def comp_def)

lemma sds_of_eq:
  "s = sds_of str slack \<longleftrightarrow>
     sds_len s = int (length str) \<and> sds_free s = int (length slack) \<and>
     sds_buf s = map Some str @ Some NUL # slack"
  by (auto simp: sds_of_def)

lemma sds_wf_of [simp]:
  "sds_wf (sds_of str slack) \<longleftrightarrow> length str + length slack \<le> nat INT_MAX"
  by (auto simp: sds_wf_def INT_MAX_def nth_append)

lemma sds_wf_repr:
  assumes "sds_wf s"
  obtains slack where "s = sds_of (sds_str s) slack"
    and "length (sds_str s) + length slack \<le> nat INT_MAX"
proof -
  let ?n = "nat (sds_len s)"
  have n: "?n < length (sds_buf s)" and len: "0 \<le> sds_len s" and free: "0 \<le> sds_free s"
    using assms by (auto simp: sds_wf_def)
  define slack where "slack = drop (Suc ?n) (sds_buf s)"
  have "sds_buf s = take ?n (sds_buf s) @ sds_buf s ! ?n # slack"
    unfolding slack_def using n by (rule id_take_nth_drop)
  moreover have "map Some (sds_str s) = take ?n (sds_buf s)"
    unfolding sds_str_def using assms all_Some_map_the by (auto simp: sds_wf_def)
  ultimately have buf: "sds_buf s = map Some (sds_str s) @ Some NUL # slack"
    using assms by (simp add: sds_wf_def)
  have l: "length (sds_str s) = ?n" using n by (simp add: sds_str_def)
  have sl: "length slack = nat (sds_free s)"
    unfolding slack_def using assms by (auto simp: sds_wf_def)
  have "s = sds_of (sds_str s) slack"
    using buf l sl len free by (simp add: sds_of_def)
  moreover have "length (sds_str s) + length slack \<le> nat INT_MAX"
    using l sl len free assms by (simp add: sds_wf_def INT_MAX_def nat_add_distrib [symmetric] nat_le_iff)
  ultimately show thesis by (rule that)
qed

lemma sdslen_of [simp]: "length str \<le> nat INT_MAX \<Longrightarrow> sdslen (sds_of str slack) = length str"
  by (simp add: sdslen_def c_size_t_of_nat INT_MAX_def)

lemma sdsavail_of [simp]: "length slack \<le> nat INT_MAX \<Longrightarrow> sdsavail (sds_of str slack) = length slack"
  by (simp add: sdsavail_def c_size_t_of_nat INT_MAX_def)

lemma sdslen_wf: "sds_wf s \<Longrightarrow> sdslen s = length (sds_str s)"
  by (erule sds_wf_repr) (metis add_leD1 sds_of_sel(4) sdslen_of)

section \<open>Laws of the library\<close>

lemma sdsnewlen_Some:
  assumes "length t \<le> nat INT_MAX"
  shows "sdsnewlen (Some (map Some t @ rest)) (length t) = Some (sds_of t [])"
proof (cases "t = []")
  case True
  then show ?thesis
    by (simp add: sdsnewlen_def malloc_def mem_store_def c_int_id sds_of_def)
next
  case False
  then show ?thesis
    using assms
    by (simp add: sdsnewlen_def malloc_def mem_store_def mem_fetch_def c_int_id INT_MAX_def sds_of_def)
qed

lemma sdsnewlen_None:
  assumes "n \<le> nat INT_MAX"
  shows "sdsnewlen None n = Some (sds_of (replicate n NUL) [])"
  using assms
  by (cases n) (simp_all add: sdsnewlen_def malloc_def mem_store_def c_int_id INT_MAX_def sds_of_def)

lemma sdsempty_eq: "sdsempty = Some (sds_of [] [])"
  using sdsnewlen_Some [of "[]" "[Some NUL]"] by (simp add: sdsempty_def c_literal_def)

lemma sdsnew_literal:
  assumes "NUL \<notin> set t" and "length t \<le> nat INT_MAX"
  shows "sdsnew (Some (c_literal t)) = Some (sds_of t [])"
  using assms sdsnewlen_Some [of t "[Some NUL]"] by (simp add: sdsnew_def c_literal_def)

lemma sdsMakeRoomFor_of:
  assumes "length str + length slack \<le> nat INT_MAX" and "(length str + n) * 2 \<le> nat INT_MAX"
  obtains slack' where "sdsMakeRoomFor (sds_of str slack) n = Some (sds_of str slack')"
    and "n \<le> length slack'" and "length str + length slack' \<le> nat INT_MAX"
proof (cases "n \<le> length slack")
  case True
  with assms show thesis by (intro that [of slack]) (simp_all add: sdsMakeRoomFor_def)
next
  case False
  let ?newlen = "(length str + n) * 2"
  let ?slack = "slack @ replicate (?newlen - length str - length slack) None"
  have new: "c_size_t ((int (length str) + int n) * 2) = ?newlen"
    using assms(2) c_size_t_of_nat [of ?newlen] by (simp add: INT_MAX_def)
  have len: "length ?slack = ?newlen - length str" using False by simp
  have "take (?newlen + 1) (map Some str @ Some NUL # slack) = map Some str @ Some NUL # slack"
    using False by simp
  then have "sdsMakeRoomFor (sds_of str slack) n = Some (sds_of str ?slack)"
    using assms False new len
    by (simp add: sdsMakeRoomFor_def Let_def realloc_def c_int_id INT_MAX_def sds_of_eq)
  moreover have "n \<le> length ?slack" using len False by simp
  moreover have "length str + length ?slack \<le> nat INT_MAX" using len assms(2) by simp
  ultimately show thesis by (rule that)
qed

lemma sdscatlen_of:
  assumes "length str + length slack \<le> nat INT_MAX"
    and "(length str + length t) * 2 \<le> nat INT_MAX"
  obtains slack' where
    "sdscatlen (sds_of str slack) (map Some t @ rest) (length t) = Some (sds_of (str @ t) slack')"
    and "length (str @ t) + length slack' \<le> nat INT_MAX"
proof -
  from sdsMakeRoomFor_of [OF assms] obtain sl where
    mk: "sdsMakeRoomFor (sds_of str slack) (length t) = Some (sds_of str sl)"
    and room: "length t \<le> length sl" and le: "length str + length sl \<le> nat INT_MAX" .
  let ?sl = "drop (length t) sl"
  have store: "mem_store (map Some str @ Some NUL # sl) (length str) (map Some t)
      = Some (map Some str @ map Some t @ drop (length t) (Some NUL # sl))"
    using room by (simp add: mem_store_def)
  have dr: "\<exists>x. drop (length t) (Some NUL # sl) = x # ?sl"
    using room by (cases t) (auto simp: Cons_nth_drop_Suc [symmetric])
  then obtain x where x: "drop (length t) (Some NUL # sl) = x # ?sl" ..
  have fin: "mem_store (map Some str @ map Some t @ x # ?sl) (length str + length t) [Some NUL]
      = Some (map Some (str @ t) @ Some NUL # ?sl)"
    by (simp add: mem_store_def)
  have "sdscatlen (sds_of str slack) (map Some t @ rest) (length t) = Some (sds_of (str @ t) ?sl)"
    using mk room le assms store x fin
    by (simp add: sdscatlen_def Let_def mem_fetch_def c_int_id INT_MAX_def sds_of_eq)
  moreover have "length (str @ t) + length ?sl \<le> nat INT_MAX" using room le by simp
  ultimately show thesis by (rule that)
qed

lemma sdsdup_of:
  assumes "length str \<le> nat INT_MAX"
  shows "sdsdup (sds_of str slack) = Some (sds_of str [])"
  using assms sdsnewlen_Some [of str "Some NUL # slack"] by (simp add: sdsdup_def)

lemma sdsupdatelen_of:
  assumes "length str + length slack \<le> nat INT_MAX" and "NUL \<notin> set pre"
    and "map Some str @ Some NUL # slack = map Some pre @ Some NUL # slack'"
    and "length pre \<le> length str"
  shows "sdsupdatelen (sds_of str slack) = Some (sds_of pre slack')"
proof -
  have len: "length str + length slack = length pre + length slack'"
    using arg_cong [OF assms(3), of length] by simp
  have "strlen (map Some str @ Some NUL # slack) = Some (length pre)"
    using assms(2,3) by simp
  with assms len show ?thesis
    by (simp add: sdsupdatelen_def Let_def c_int_id INT_MAX_def sds_of_eq)
qed

text \<open>Overwriting the front of the buffer with a string that fits, and terminating it.\<close>

lemma overwrite_front:
  fixes m :: mem
  assumes "length t < length m"
  shows "(mem_store m 0 (map Some t) \<bind> (\<lambda>b. mem_store b (length t) [Some NUL]))
      = Some (map Some t @ Some NUL # drop (Suc (length t)) m)"
proof -
  have "drop (length t) m = m ! length t # drop (Suc (length t)) m"
    using assms by (simp add: Cons_nth_drop_Suc)
  with assms show ?thesis by (simp add: mem_store_def)
qed

lemma terminate_prefix:
  fixes m :: mem
  assumes "length t < length m" and "take (length t) m = map Some t"
  shows "mem_store m (length t) [Some NUL] = Some (map Some t @ Some NUL # drop (Suc (length t)) m)"
  using assms by (simp add: mem_store_def)

lemma sdscpylen_of:
  assumes "length str + length slack \<le> nat INT_MAX" and "length t * 2 \<le> nat INT_MAX"
  obtains slack' where
    "sdscpylen (sds_of str slack) (map Some t @ rest) (length t) = Some (sds_of t slack')"
    and "length t + length slack' \<le> nat INT_MAX"
proof -
  have copy: "mem_store (map Some str @ Some NUL # sl) 0 (map Some t) \<bind>
      (\<lambda>b. mem_store b (length t) [Some NUL])
      = Some (map Some t @ Some NUL # drop (Suc (length t)) (map Some str @ Some NUL # sl))"
    if "length t \<le> length str + length sl" for sl
    using that by (intro overwrite_front) simp
  show thesis
  proof (cases "length str + length slack < length t")
    case False
    let ?s = "drop (Suc (length t)) (map Some str @ Some NUL # slack)"
    have "length ?s = length str + length slack - length t" by simp
    moreover have "sdscpylen (sds_of str slack) (map Some t @ rest) (length t) = Some (sds_of t ?s)"
      using assms False copy [of slack] calculation
      by (simp add: sdscpylen_def mem_fetch_def c_int_id c_size_t_id INT_MAX_def sds_of_eq
          bind_eq_Some_conv)
    ultimately show thesis using assms False by (intro that [of ?s]) auto
  next
    case True
    have "(length str + (length t - length str)) * 2 \<le> nat INT_MAX" using True assms(2) by simp
    from sdsMakeRoomFor_of [OF assms(1) this] obtain sl where
      mk: "sdsMakeRoomFor (sds_of str slack) (length t - length str) = Some (sds_of str sl)"
      and sl: "length t - length str \<le> length sl" "length str + length sl \<le> nat INT_MAX" .
    let ?s = "drop (Suc (length t)) (map Some str @ Some NUL # sl)"
    have "length ?s = length str + length sl - length t" by simp
    moreover have "c_size_t (int (length t) - int (length str)) = length t - length str"
      using True assms(2) by (simp add: c_size_t_id INT_MAX_def nat_diff_distrib)
    moreover have "length t \<le> length str + length sl" using sl(1) True by simp
    ultimately have "sdscpylen (sds_of str slack) (map Some t @ rest) (length t) = Some (sds_of t ?s)"
      using assms True copy [of sl] mk sl
      by (simp add: sdscpylen_def mem_fetch_def c_int_id c_size_t_id INT_MAX_def sds_of_eq
          bind_eq_Some_conv)
    then show thesis using sl True assms by (intro that [of ?s]) auto
  qed
qed

lemma sdsgrowzero_of:
  assumes "length str + length slack \<le> nat INT_MAX" and "n * 2 \<le> nat INT_MAX"
  obtains slack' where
    "sdsgrowzero (sds_of str slack) n = Some (sds_of (str @ replicate (n - length str) NUL) slack')"
    and "max n (length str) + length slack' \<le> nat INT_MAX"
proof (cases "n \<le> length str")
  case True
  with assms show thesis
    by (intro that [of slack]) (simp_all add: sdsgrowzero_def c_size_t_of_nat INT_MAX_def)
next
  case False
  let ?d = "n - length str"
  have cur: "c_size_t (int (length str)) = length str"
    using assms(1) by (simp add: c_size_t_of_nat INT_MAX_def)
  have "(length str + ?d) * 2 \<le> nat INT_MAX" using False assms(2) by simp
  from sdsMakeRoomFor_of [OF assms(1) this] obtain sl where
    mk: "sdsMakeRoomFor (sds_of str slack) ?d = Some (sds_of str sl)"
    and sl: "?d \<le> length sl" "length str + length sl \<le> nat INT_MAX" .
  have tot: "c_size_t (c_int (int (length str) + int (length sl))) = length str + length sl"
    using sl(2) c_size_t_of_nat [of "length str + length sl"] by (simp add: c_int_id INT_MAX_def)
  have rep: "replicate (Suc ?d) (Some NUL) = map Some (replicate ?d NUL) @ [Some NUL]"
    by (simp add: replicate_append_same)
  have "mem_store (map Some str @ Some NUL # sl) (length str) (replicate (Suc ?d) (Some NUL))
      = Some (map Some (str @ replicate ?d NUL) @ Some NUL # drop ?d sl)"
    using sl(1) unfolding rep by (simp add: mem_store_def)
  then have "sdsgrowzero (sds_of str slack) n
      = Some (sds_of (str @ replicate ?d NUL) (drop ?d sl))"
    using False assms cur mk sl tot
    by (simp add: sdsgrowzero_def Let_def c_int_id INT_MAX_def sds_of_eq)
  then show thesis using False sl assms by (intro that [of "drop ?d sl"]) auto
qed

lemma fetch_substring:
  assumes "t = take k (drop a str)" and "a < length str \<or> t = [] \<and> a \<le> length str"
  shows "mem_fetch (map Some str @ rest) a (length t) = Some (map Some t)"
proof -
  have "a + length t \<le> length str" using assms by auto
  moreover have "take (length t) (drop a str) = t"
    unfolding assms(1) by (cases "k \<le> length (drop a str)") simp_all
  ultimately show ?thesis by (simp add: mem_fetch_def take_map drop_map)
qed

text \<open>\<open>sdsrange\<close>: the inclusive range, negative positions counted from the end and clamped
  to the first byte.\<close>

definition range_bound :: "nat \<Rightarrow> int \<Rightarrow> nat" where
  "range_bound n i = nat (if i < 0 then int n + i else i)"

definition range_str :: "string \<Rightarrow> int \<Rightarrow> int \<Rightarrow> string" where
  "range_str str start stop =
     take (Suc (range_bound (length str) stop) - range_bound (length str) start)
       (drop (range_bound (length str) start) str)"

lemma sdsrange_bounds_eq:
  assumes "0 < n" "n \<le> nat INT_MAX"
    and "- INT_MAX \<le> start" "start \<le> INT_MAX" "- INT_MAX \<le> stop" "stop \<le> INT_MAX"
  shows "sdsrange_bounds n start stop =
    (let a = range_bound n start; b = range_bound n stop
     in (if b < a then 0 else int a, int (min (Suc b - a) (n - a))))"
proof -
  have st: "(if start < 0 then (let st = c_int (int n + start) in if st < 0 then 0 else st) else start)
      = int (range_bound n start)"
    using assms by (auto simp: range_bound_def c_int_id INT_MAX_def Let_def)
  have en: "(if stop < 0 then (let en = c_int (int n + stop) in if en < 0 then 0 else en) else stop)
      = int (range_bound n stop)"
    using assms by (auto simp: range_bound_def c_int_id INT_MAX_def Let_def)
  have c: "c_int (int n) = int n" "c_int (int n - 1) = int n - 1"
    using assms(1,2) by (simp_all add: c_int_id INT_MAX_def)
  show ?thesis
    unfolding sdsrange_bounds_def st en c using assms(1) by (auto simp: Let_def)
qed

lemma shorten_of:
  assumes "length str + length slack \<le> nat INT_MAX" and "length t \<le> length str"
    and "m = map Some t @ Some NUL # drop (Suc (length t)) (map Some str @ Some NUL # slack)"
  shows "(sds_of str slack)\<lparr>sds_free := c_int (int (length slack) + (int (length str) - int (length t))),
      sds_len := c_int (int (length t)), sds_buf := m\<rparr>
    = sds_of t (drop (Suc (length t)) (map Some str @ Some NUL # slack))"
  using assms by (simp add: sds_of_eq c_int_id INT_MAX_def)

text \<open>Moving a substring to the front and terminating it, as \<open>sdsrange\<close> and \<open>sdstrim\<close> do.\<close>

lemma move_front:
  assumes "t = take k (drop a str)" and "mv \<longrightarrow> a < length str" and "\<not> mv \<longrightarrow> a = 0 \<or> t = []"
  shows "(if mv then mem_fetch (map Some str @ Some NUL # slack) a (length t)
             \<bind> mem_store (map Some str @ Some NUL # slack) 0
          else Some (map Some str @ Some NUL # slack))
      \<bind> (\<lambda>b. mem_store b (length t) [Some NUL])
    = Some (map Some t @ Some NUL # drop (Suc (length t)) (map Some str @ Some NUL # slack))"
proof -
  let ?m = "map Some str @ Some NUL # slack"
  have "length t \<le> length str" unfolding assms(1) by simp
  then have lt: "length t < length ?m" by simp
  show ?thesis
  proof (cases mv)
    case True
    then have "mem_fetch ?m a (length t) = Some (map Some t)"
      using assms by (intro fetch_substring) auto
    with True overwrite_front [OF lt] show ?thesis by simp
  next
    case False
    have "take (length t) ?m = map Some t"
      using False assms by (auto simp: take_map min_def)
    with False terminate_prefix [OF lt] show ?thesis by simp
  qed
qed

lemma sdsrange_of:
  assumes "length str + length slack \<le> nat INT_MAX"
    and "- INT_MAX \<le> start" "start \<le> INT_MAX" "- INT_MAX \<le> stop" "stop \<le> INT_MAX"
  obtains slack' where
    "sdsrange (sds_of str slack) start stop = Some (sds_of (range_str str start stop) slack')"
    and "length (range_str str start stop) + length slack' \<le> nat INT_MAX"
proof (cases "str = []")
  case True
  with assms(1) show thesis by (intro that [of slack]) (simp_all add: sdsrange_def range_str_def)
next
  case False
  let ?n = "length str" and ?m = "map Some str @ Some NUL # slack"
  define a where "a = range_bound ?n start"
  define b where "b = range_bound ?n stop"
  define t where "t = take (Suc b - a) (drop a str)"
  have t: "range_str str start stop = t" by (simp add: t_def a_def b_def range_str_def)
  have n: "0 < ?n" "?n \<le> nat INT_MAX" using False assms(1) by auto
  have len: "length t = min (Suc b - a) (?n - a)" by (simp add: t_def)
  have lt: "length t \<le> ?n" by (simp add: t_def)
  have bounds: "sdsrange_bounds ?n start stop = (if b < a then 0 else int a, int (length t))"
    using sdsrange_bounds_eq [OF n assms(2-5)] by (simp add: Let_def a_def b_def len)
  let ?mv = "(if b < a then 0 else int a) \<noteq> 0 \<and> int (length t) \<noteq> 0"
  have mv: "(if ?mv then mem_fetch ?m (nat (if b < a then 0 else int a)) (nat (int (length t))) \<bind> mem_store ?m 0
      else Some ?m) \<bind> (\<lambda>b. mem_store b (nat (int (length t))) [Some NUL])
    = Some (map Some t @ Some NUL # drop (Suc (length t)) ?m)"
    using move_front [OF t_def, of ?mv slack] by (auto simp: t_def split: if_splits)
  have "sdsrange (sds_of str slack) start stop = Some (sds_of t (drop (Suc (length t)) ?m))"
    using n(1) n(2) unfolding sdsrange_def Let_def
    by (simp only: sdslen_of bounds sds_of_sel mv case_prod_conv bind_assoc [symmetric]
        shorten_of [OF assms(1) lt refl] bind.simps) simp
  moreover have "length t + length (drop (Suc (length t)) ?m) \<le> nat INT_MAX"
    using lt assms(1) by simp
  ultimately show thesis by (rule that [unfolded t])
qed

text \<open>\<open>sdstrim\<close>: drop the bytes of \<open>cset\<close> (and NULs) at both ends.\<close>

definition trim_str :: "string \<Rightarrow> string \<Rightarrow> string" where
  "trim_str cset str =
     rev (dropWhile (strchr_hit cset) (rev (dropWhile (strchr_hit cset) str)))"

lemma trim_sp_eq:
  assumes "k \<le> length str"
  shows "trim_sp (map Some str @ rest) cset (int k) (int (length str) - 1)
    = Some (int (k + length (takeWhile (strchr_hit cset) (drop k str))))"
  using assms
proof (induction "length str - k" arbitrary: k)
  case 0
  then show ?case by (simp add: trim_sp.simps)
next
  case (Suc d)
  then have k: "k < length str" by simp
  have IH: "trim_sp (map Some str @ rest) cset (int (Suc k)) (int (length str) - 1)
    = Some (int (Suc k + length (takeWhile (strchr_hit cset) (drop (Suc k) str))))"
    using Suc.hyps(1) [of "Suc k"] Suc.hyps(2) k by simp
  have "drop k str = str ! k # drop (Suc k) str" using k by (simp add: Cons_nth_drop_Suc)
  with k IH show ?case
    by (subst trim_sp.simps) (simp add: mem_get_def nth_append algebra_simps)
qed

lemma trim_ep_eq:
  assumes "k < length str"
  shows "trim_ep (map Some str @ rest) cset (int k)
    = Some (int (k - length (takeWhile (strchr_hit cset) (rev (take (Suc k) str)))))"
  using assms
proof (induction k)
  case 0
  then show ?case by (simp add: trim_ep.simps)
next
  case (Suc k)
  have "rev (take (Suc (Suc k)) str) = str ! Suc k # rev (take (Suc k) str)"
    using Suc.prems by (simp add: take_Suc_conv_app_nth)
  moreover have "nat (1 + int k) = Suc k" by simp
  ultimately show ?case using Suc
    by (subst trim_ep.simps) (simp add: mem_get_def nth_append)
qed

lemma trim_str_take_drop:
  fixes str cset
  defines "a \<equiv> length (takeWhile (strchr_hit cset) str)"
    and "z \<equiv> length (takeWhile (strchr_hit cset) (rev str))"
  shows "trim_str cset str = take (length str - z - a) (drop a str)"
proof (cases "\<forall>c\<in>set str. strchr_hit cset c")
  case True
  then have "a = length str" by (simp add: a_def length_takeWhile_eq_iff)
  with True show ?thesis by (auto simp: trim_str_def dest: set_dropWhileD)
next
  case False
  let ?d = "dropWhile (strchr_hit cset) str"
  have split: "str = takeWhile (strchr_hit cset) str @ ?d" by simp
  have "rev str = rev ?d @ rev (takeWhile (strchr_hit cset) str)"
    by (metis rev_append split)
  moreover have "\<exists>c\<in>set (rev ?d). \<not> strchr_hit cset c"
    using False by (metis hd_dropWhile hd_in_set dropWhile_eq_Nil_conv set_rev)
  ultimately have "takeWhile (strchr_hit cset) (rev str) = takeWhile (strchr_hit cset) (rev ?d)"
    by (metis takeWhile_append1)
  then have z: "z = length (takeWhile (strchr_hit cset) (rev ?d))" by (simp add: z_def)
  have "dropWhile (strchr_hit cset) (rev ?d) = drop z (rev ?d)"
    unfolding z by (rule dropWhile_eq_drop)
  then have "trim_str cset str = take (length ?d - z) ?d"
    by (simp add: trim_str_def rev_drop)
  moreover have "?d = drop a str" by (simp add: a_def dropWhile_eq_drop)
  ultimately show ?thesis by (simp add: add.commute)
qed

lemma sdstrim_of:
  assumes "length str + length slack \<le> nat INT_MAX"
  obtains slack' where "sdstrim (sds_of str slack) cset = Some (sds_of (trim_str cset str) slack')"
    and "length (trim_str cset str) + length slack' \<le> nat INT_MAX"
proof -
  let ?n = "length str" and ?m = "map Some str @ Some NUL # slack"
  define a where "a = length (takeWhile (strchr_hit cset) str)"
  define z where "z = length (takeWhile (strchr_hit cset) (rev str))"
  define t where "t = take (?n - z - a) (drop a str)"
  have t: "trim_str cset str = t" unfolding t_def a_def z_def by (rule trim_str_take_drop)
  have sp: "trim_sp ?m cset 0 (int ?n - 1) = Some (int a)"
    using trim_sp_eq [of 0 str "Some NUL # slack" cset] by (simp add: a_def)
  have az: "a \<le> ?n" "z \<le> ?n" "z = ?n \<longrightarrow> a = ?n"
    using length_takeWhile_le [of "strchr_hit cset" str]
      length_takeWhile_le [of "strchr_hit cset" "rev str"]
      length_takeWhile_eq_iff [of "strchr_hit cset" str]
      length_takeWhile_eq_iff [of "strchr_hit cset" "rev str"]
    by (simp_all add: a_def z_def)
  have ep: "trim_ep ?m cset (int ?n - 1) = Some (if ?n = 0 then - 1 else int (?n - 1 - z))"
  proof (cases "?n = 0")
    case True
    then show ?thesis by (simp add: trim_ep.simps)
  next
    case False
    then have "?n - 1 < ?n" and eq: "int ?n - 1 = int (?n - 1)" by linarith+
    then have "trim_ep ?m cset (int (?n - 1)) = Some (int (?n - 1 - z))"
      using trim_ep_eq [of "?n - 1" str "Some NUL # slack" cset] by (simp only: z_def) simp
    with False show ?thesis unfolding eq by simp
  qed
  have len: "(if int a > (if ?n = 0 then - 1 else int (?n - 1 - z)) then 0
      else nat ((if ?n = 0 then - 1 else int (?n - 1 - z)) - int a + 1)) = length t"
    using az by (auto simp: t_def)
  have lt: "length t \<le> ?n" by (simp add: t_def)
  have mv: "(if int a \<noteq> 0 then mem_fetch ?m (nat (int a)) (length t) \<bind> mem_store ?m 0 else Some ?m)
      \<bind> (\<lambda>b. mem_store b (length t) [Some NUL])
    = Some (map Some t @ Some NUL # drop (Suc (length t)) ?m)"
  proof (cases "a < ?n")
    case True
    then show ?thesis using move_front [OF t_def, of "a \<noteq> 0" slack] by (cases "a = 0") simp_all
  next
    case False
    then have "t = []" and "a = ?n" using az by (simp_all add: t_def)
    then show ?thesis by (simp add: mem_fetch_def mem_store_def)
  qed
  have "sdstrim (sds_of str slack) cset = Some (sds_of t (drop (Suc (length t)) ?m))"
    using assms lt unfolding sdstrim_def Let_def
    by (simp only: sdslen_of sds_of_sel sp ep bind.simps len mv bind_assoc [symmetric]
        shorten_of [OF assms lt refl])
  moreover have "length t + length (drop (Suc (length t)) ?m) \<le> nat INT_MAX"
    using lt assms by simp
  ultimately show thesis by (rule that [unfolded t])
qed

lemma map_bytes_eq:
  assumes "k \<le> length str"
  shows "map_bytes f (int k) (int (length str)) (map Some (map f (take k str)) @ map Some (drop k str) @ rest)
    = Some (map Some (map f str) @ rest)"
  using assms
proof (induction "length str - k" arbitrary: k)
  case 0
  then show ?case by (simp add: map_bytes.simps)
next
  case (Suc d)
  then have k: "k < length str" by simp
  have "drop k str = str ! k # drop (Suc k) str" using k by (simp add: Cons_nth_drop_Suc)
  moreover have "take (Suc k) str = take k str @ [str ! k]" using k by (simp add: take_Suc_conv_app_nth)
  ultimately show ?case
    using Suc.hyps(1) [of "Suc k"] Suc.hyps(2) k
    by (subst map_bytes.simps) (simp add: mem_get_def mem_store_def nth_append algebra_simps)
qed

lemma sdstolower_of:
  assumes "length str \<le> nat INT_MAX"
  shows "sdstolower (sds_of str slack) = Some (sds_of (map to_lower str) slack)"
  using assms map_bytes_eq [of 0 str to_lower "Some NUL # slack"]
  by (simp add: sdstolower_def c_int_id INT_MAX_def sds_of_eq)

lemma sdstoupper_of:
  assumes "length str \<le> nat INT_MAX"
  shows "sdstoupper (sds_of str slack) = Some (sds_of (map to_upper str) slack)"
  using assms map_bytes_eq [of 0 str to_upper "Some NUL # slack"]
  by (simp add: sdstoupper_def c_int_id INT_MAX_def sds_of_eq)

text \<open>\<open>sdscmp\<close> is the lexicographic order on unsigned bytes, shorter strings first.\<close>

definition byte_less :: "string \<Rightarrow> string \<Rightarrow> bool" where
  "byte_less a b \<longleftrightarrow> ord_class.lexordp (map (of_char :: char \<Rightarrow> nat) a) (map of_char b)"

lemma byte_less_simps [simp]:
  "byte_less [] b = (b \<noteq> [])" "byte_less a [] = False"
  "byte_less (c # a) (d # b) \<longleftrightarrow>
     (of_char c :: nat) < of_char d \<or> c = d \<and> byte_less a b"
  by (auto simp: byte_less_def neq_Nil_conv)

lemma memcmp_lexord:
  shows "\<exists>r. memcmp (map Some a @ x) (map Some b @ y) (min (length a) (length b)) = Some r \<and>
    - 1 \<le> r \<and> r \<le> 1 \<and>
    (if r = 0 then byte_less a b = (length a < length b) \<and> (length a = length b \<longrightarrow> a = b)
     else byte_less a b = (r < 0) \<and> a \<noteq> b)"
proof (induction a arbitrary: b)
  case Nil
  show ?case by (cases b) auto
next
  case (Cons c a)
  show ?case
  proof (cases b)
    case Nil
    then show ?thesis by simp
  next
    case (Cons d b')
    show ?thesis
    proof (cases "c = d")
      case True
      from Cons.IH [of b'] obtain r where
        "memcmp (map Some a @ x) (map Some b' @ y) (min (length a) (length b')) = Some r"
        "- 1 \<le> r" "r \<le> 1"
        "if r = 0 then byte_less a b' = (length a < length b') \<and> (length a = length b' \<longrightarrow> a = b')
         else byte_less a b' = (r < 0) \<and> a \<noteq> b'"
        by blast
      with True Cons show ?thesis by (intro exI [of _ r]) (auto split: if_splits)
    next
      case False
      then have "(of_char c :: nat) \<noteq> of_char d" by (simp add: of_char_eq_iff)
      with False Cons show ?thesis by auto
    qed
  qed
qed

lemma sdscmp_of:
  assumes "length a \<le> nat INT_MAX" and "length b \<le> nat INT_MAX"
  obtains r where "sdscmp (sds_of a x) (sds_of b y) = Some r"
    and "r < 0 \<longleftrightarrow> byte_less a b" and "r = 0 \<longleftrightarrow> a = b"
proof -
  obtain r where r: "memcmp (map Some a @ Some NUL # x) (map Some b @ Some NUL # y)
      (min (length a) (length b)) = Some r"
    "if r = 0 then byte_less a b = (length a < length b) \<and> (length a = length b \<longrightarrow> a = b)
     else byte_less a b = (r < 0) \<and> a \<noteq> b"
    using memcmp_lexord [of a "Some NUL # x" b "Some NUL # y"] by blast
  let ?r = "if r = 0 then int (length a) - int (length b) else r"
  have "(if length a < length b then length a else length b) = min (length a) (length b)" by auto
  then have "sdscmp (sds_of a x) (sds_of b y) = Some ?r"
    using assms r(1) by (simp add: sdscmp_def Let_def c_int_id INT_MAX_def)
  moreover have "?r < 0 \<longleftrightarrow> byte_less a b" and "?r = 0 \<longleftrightarrow> a = b"
    using r(2) by (auto split: if_splits)
  ultimately show thesis by (rule that)
qed

text \<open>The \<open>printf\<close> loop stops with the whole expansion in the buffer.\<close>

lemma vprintf_loop_eq:
  assumes "2 \<le> n" and "n < 2 ^ 62" and "length out < 2 ^ 60" and "NUL \<notin> set out"
  shows "\<exists>rest. vprintf_loop n out = Some (map Some out @ Some NUL # rest)"
  using assms
proof (induction n out rule: vprintf_loop.induct)
  case (1 n out)
  define b0 where "b0 = replicate n (None :: char option)"
  define b1 where "b1 = take (n - 2) b0 @ [Some NUL] @ drop (Suc (n - 2)) b0"
  define w where "w = map Some (take (n - 1) out) @ [Some NUL]"
  define b2 where "b2 = w @ drop (length w) b1"
  have l0: "length b0 = n" by (simp add: b0_def)
  have l1: "length b1 = n" using "1.prems"(1) l0 by (simp add: b1_def)
  have b1n: "b1 ! (n - 2) = Some NUL" using "1.prems"(1) l0 by (simp add: b1_def nth_append)
  have lw: "length w \<le> n" using "1.prems"(1) by (simp add: w_def)
  have l2: "length b2 = n" using l1 lw by (simp add: b2_def)
  have m: "malloc n = Some b0" using "1.prems" by (simp add: malloc_def b0_def)
  have s1: "mem_store b0 (n - 2) [Some NUL] = Some b1"
    using "1.prems"(1) l0 by (simp add: mem_store_def b1_def)
  have s2: "vsnprintf b1 n out = Some b2"
    using l1 lw unfolding vsnprintf_def w_def [symmetric] by (simp add: mem_store_def b2_def)
  show ?case
  proof (cases "length out + 2 \<le> n")
    case True
    then have b2: "b2 = map Some out @ Some NUL # drop (Suc (length out)) b1"
      by (simp add: b2_def w_def)
    have "n - 2 = length out \<or> Suc (n - 3) = n - 2 \<and> length out < n - 2" using True by arith
    then have "b2 ! (n - 2) = Some NUL"
      using l1 b1n by (auto simp: b2 nth_append nth_Cons')
    then have "mem_get b2 (n - 2) = Some NUL" using l2 "1.prems"(1) by (simp add: mem_get_def)
    then have "vprintf_loop n out = Some b2"
      using "1.prems"(1) by (subst vprintf_loop.simps) (simp add: m s1 s2)
    then show ?thesis unfolding b2 by blast
  next
    case False
    then have lt: "n - 2 < length out" "n - 2 < n - 1" using "1.prems"(1) by arith+
    then have "mem_get b2 (n - 2) = Some (out ! (n - 2))"
      using l2 "1.prems"(1) by (simp add: mem_get_def b2_def w_def nth_append)
    moreover have "out ! (n - 2) \<noteq> NUL"
      using nth_mem [OF lt(1)] "1.prems"(4) by metis
    moreover have "\<exists>rest. vprintf_loop (n * 2) out = Some (map Some out @ Some NUL # rest)"
      using "1.IH" [OF _ m s1 s2 calculation] "1.prems" False by simp
    ultimately show ?thesis
      using "1.prems"(1) by (subst vprintf_loop.simps) (simp add: m s1 s2)
  qed
qed

lemma sdscat_of:
  assumes "length str + length slack \<le> nat INT_MAX" and "(length str + length t) * 2 \<le> nat INT_MAX"
    and "NUL \<notin> set t"
  obtains slack' where "sdscat (sds_of str slack) (map Some t @ Some NUL # rest) = Some (sds_of (str @ t) slack')"
    and "length (str @ t) + length slack' \<le> nat INT_MAX"
  using sdscatlen_of [OF assms(1,2), of "Some NUL # rest"] assms(3) by (auto simp: sdscat_def)

lemma sdscatprintf_of:
  assumes "length str + length slack \<le> nat INT_MAX" and "(length str + length out) * 2 \<le> nat INT_MAX"
    and "NUL \<notin> set out"
  obtains slack' where "sdscatprintf (sds_of str slack) out = Some (sds_of (str @ out) slack')"
    and "length (str @ out) + length slack' \<le> nat INT_MAX"
proof -
  obtain rest where "vprintf_loop 16 out = Some (map Some out @ Some NUL # rest)"
    using vprintf_loop_eq [of 16 out] assms(2,3) by (auto simp: INT_MAX_def)
  then show thesis
    using sdscat_of [OF assms, of rest] that by (auto simp: sdscatprintf_def sdscatvprintf_def)
qed

section \<open>The interface\<close>

text \<open>
  What a client of the library relies on: the operations it calls keep the invariant and act
  on the byte string as append and as the suffix from a position, as long as there is room.
  The reply reader and the connection's output buffer use nothing else of the library.
\<close>

locale dynamic_string =
  fixes wf :: "'s \<Rightarrow> bool" and str :: "'s \<Rightarrow> string" and room :: "'s \<Rightarrow> nat \<Rightarrow> bool"
    and new_empty :: "'s option" and catlen :: "'s \<Rightarrow> mem \<Rightarrow> nat \<Rightarrow> 's option"
    and range :: "'s \<Rightarrow> int \<Rightarrow> int \<Rightarrow> 's option" and len :: "'s \<Rightarrow> nat"
  assumes empty_law: "\<exists>s. new_empty = Some s \<and> wf s \<and> str s = []"
    and catlen_law: "wf s \<Longrightarrow> room s (length t) \<Longrightarrow>
      \<exists>s'. catlen s (map Some t @ rest) (length t) = Some s' \<and> wf s' \<and> str s' = str s @ t"
    and range_law: "wf s \<Longrightarrow> n \<le> length (str s) \<Longrightarrow>
      \<exists>s'. range s (int n) (- 1) = Some s' \<and> wf s' \<and> str s' = drop n (str s)"
    and len_law: "wf s \<Longrightarrow> len s = length (str s)"
    and room_law: "room s n \<longleftrightarrow> (length (str s) + n) * 2 \<le> nat INT_MAX"
begin

lemma catlen_literal:
  assumes "wf s" and "room s (length t)"
  shows "\<exists>s'. catlen s (map Some t) (length t) = Some s' \<and> wf s' \<and> str s' = str s @ t"
  using catlen_law [OF assms, of "[]"] by simp

text \<open>A buffer used as a byte queue: bytes appended at the end, bytes consumed at the front.\<close>

lemma append_consume:
  assumes "wf s" and "room s (length t)" and "n \<le> length (str s @ t)"
  shows "\<exists>s' s''. catlen s (map Some t) (length t) = Some s' \<and> range s' (int n) (- 1) = Some s'' \<and>
    wf s'' \<and> str s'' = drop n (str s @ t) \<and> len s'' = length (str s) + length t - n"
proof -
  obtain s' where s': "catlen s (map Some t) (length t) = Some s'" "wf s'" "str s' = str s @ t"
    using catlen_literal [OF assms(1,2)] by blast
  then obtain s'' where "range s' (int n) (- 1) = Some s''" "wf s''" "str s'' = drop n (str s @ t)"
    using range_law [of s' n] assms(3) by auto
  with s' show ?thesis by (auto simp: len_law)
qed

lemma room_shrink: "room s n \<Longrightarrow> length (str s') + m \<le> length (str s) + n \<Longrightarrow> room s' m"
  by (simp add: room_law)

end

lemma sdscatlen_wf:
  assumes "sds_wf s" and "sds_room s (length t)"
  shows "\<exists>s'. sdscatlen s (map Some t @ rest) (length t) = Some s' \<and> sds_wf s' \<and> sds_str s' = sds_str s @ t"
proof -
  obtain slack where s: "s = sds_of (sds_str s) slack" and le: "length (sds_str s) + length slack \<le> nat INT_MAX"
    using assms(1) by (rule sds_wf_repr)
  from assms(2) have "(length (sds_str s) + length t) * 2 \<le> nat INT_MAX" by (simp add: sds_room_def)
  from sdscatlen_of [OF le this, of rest] show ?thesis using s by (metis sds_of_sel(4) sds_wf_of)
qed

lemma sdsrange_wf:
  assumes "sds_wf s" and "- INT_MAX \<le> start" "start \<le> INT_MAX" "- INT_MAX \<le> stop" "stop \<le> INT_MAX"
  shows "\<exists>s'. sdsrange s start stop = Some s' \<and> sds_wf s' \<and> sds_str s' = range_str (sds_str s) start stop"
proof -
  obtain slack where s: "s = sds_of (sds_str s) slack" and le: "length (sds_str s) + length slack \<le> nat INT_MAX"
    using assms(1) by (rule sds_wf_repr)
  from sdsrange_of [OF le assms(2-5)] show ?thesis using s by (metis sds_of_sel(4) sds_wf_of)
qed

lemma range_str_suffix: "n \<le> length str \<Longrightarrow> range_str str (int n) (- 1) = drop n str"
  by (cases str) (auto simp: range_str_def range_bound_def)

interpretation sds: dynamic_string sds_wf sds_str sds_room sdsempty sdscatlen sdsrange sdslen
proof unfold_locales
  show "\<exists>s. sdsempty = Some s \<and> sds_wf s \<and> sds_str s = []"
    by (simp add: sdsempty_eq)
  fix s t rest
  show "sds_wf s \<Longrightarrow> sds_room s (length t) \<Longrightarrow>
      \<exists>s'. sdscatlen s (map Some t @ rest) (length t) = Some s' \<and> sds_wf s' \<and> sds_str s' = sds_str s @ t"
    by (rule sdscatlen_wf)
next
  fix s n
  assume wf: "sds_wf s" and n: "n \<le> length (sds_str s)"
  have "length (sds_str s) \<le> nat INT_MAX" using wf by (metis add_leD1 sds_wf_repr)
  then have "int n \<le> INT_MAX" using n by (simp add: INT_MAX_def)
  then show "\<exists>s'. sdsrange s (int n) (- 1) = Some s' \<and> sds_wf s' \<and> sds_str s' = drop n (sds_str s)"
    using sdsrange_wf [OF wf, of "int n" "- 1"] range_str_suffix [OF n] by (simp add: INT_MAX_def)
qed (simp_all add: sdslen_wf sds_room_def)

end
