(* ===== verification/SdsText.thy ===== *)
theory SdsText
  imports Sds
begin

text \<open>
  The text utilities of \<open>win32/hiredis/sds.c\<close>: splitting on a separator, printing integers,
  quoting a byte string and splitting a command line into arguments.
\<close>

section \<open>Splitting on a separator\<close>

text \<open>
  The loop of \<open>sdssplitlen\<close>: \<open>slots\<close> is the capacity of the token array, doubled before a
  store could leave it. \<open>seplen\<close> is at least 1, the caller's guard.
\<close>

function split_loop ::
  "mem \<Rightarrow> nat \<Rightarrow> mem \<Rightarrow> nat \<Rightarrow> nat \<Rightarrow> nat \<Rightarrow> nat \<Rightarrow> sdshdr list \<Rightarrow> (nat \<times> nat \<times> sdshdr list) option" where
  "split_loop s len sep seplen j start slots tokens =
     (if seplen = 0 then None
      else if int j < int len - (int seplen - 1) then do {
        let slots = (if slots < length tokens + 2 then slots * 2 else slots);
        c \<leftarrow> mem_get s j;
        c0 \<leftarrow> mem_get sep 0;
        cmp \<leftarrow> memcmp (drop j s) sep seplen;
        if seplen = 1 \<and> c = c0 \<or> cmp = 0 then do {
          tok \<leftarrow> sdsnewlen (Some (drop start s)) (j - start);
          assert_c (length tokens < slots);
          split_loop s len sep seplen (j + seplen) (j + seplen) slots (tokens @ [tok]) }
        else split_loop s len sep seplen (j + 1) start slots tokens }
      else Some (start, slots, tokens))"
  by pat_completeness auto
termination
  by (relation "measure (\<lambda>(s, len, sep, seplen, j, start, slots, tokens). len - j)") auto

declare split_loop.simps [simp del]

text \<open>The result is NULL or the token array, whose length is \<open>*count\<close>.\<close>

definition sdssplitlen :: "mem \<Rightarrow> int \<Rightarrow> mem \<Rightarrow> int \<Rightarrow> sdshdr list option option" where
  "sdssplitlen s len sep seplen =
     (if seplen < 1 \<or> len < 0 then Some None
      else if len = 0 then Some (Some [])
      else do {
        (start, slots, tokens) \<leftarrow> split_loop s (nat len) sep (nat seplen) 0 0 5 [];
        assert_c (length tokens < slots);
        tok \<leftarrow> sdsnewlen (Some (drop start s)) (nat len - start);
        Some (Some (tokens @ [tok])) })"

section \<open>Printing integers\<close>

function digits_loop :: "nat \<Rightarrow> int \<Rightarrow> mem \<Rightarrow> (int \<times> mem) option" where
  "digits_loop v p buf = do {
     assert_c (0 \<le> p);
     buf \<leftarrow> mem_store buf (nat p) [Some (digit_char (v mod 10))];
     let v' = v div 10;
     if v' \<noteq> 0 then digits_loop v' (p - 1) buf else Some (p - 1, buf) }"
  by pat_completeness auto
termination
  by (relation "measure (\<lambda>(v, p, buf). v)") auto

declare digits_loop.simps [simp del]

definition sdsfromlonglong :: "int \<Rightarrow> sdshdr option" where
  "sdsfromlonglong value = do {
     let v = c_size_t (if value < 0 then - value else value);
     buf \<leftarrow> malloc 32;
     (p, buf) \<leftarrow> digits_loop v 31 buf;
     (p, buf) \<leftarrow> (if value < 0 then do {
                    assert_c (0 \<le> p);
                    buf \<leftarrow> mem_store buf (nat p) [Some (CHR ''-'')];
                    Some (p - 1, buf) }
                  else Some (p, buf));
     let p = p + 1;
     sdsnewlen (Some (drop (nat p) buf)) (nat (32 - p)) }"

section \<open>Quoting\<close>

definition hex_digit :: "nat \<Rightarrow> char" where
  "hex_digit d = (if d < 10 then char_of (48 + d) else char_of (87 + d))"

definition hex2 :: "char \<Rightarrow> string" where
  "hex2 c = [hex_digit (of_char c div 16), hex_digit (of_char c mod 16)]"

abbreviation BACKSLASH :: char where "BACKSLASH \<equiv> CHR 0x5C"
abbreviation DQUOTE :: char where "DQUOTE \<equiv> CHR 0x22"

definition catrepr_char :: "sdshdr \<Rightarrow> char \<Rightarrow> sdshdr option" where
  "catrepr_char s c =
     (if c = BACKSLASH \<or> c = DQUOTE then sdscatprintf s [BACKSLASH, c]
      else if c = CHR 0x0A then sdscatlen s (c_literal [BACKSLASH, CHR ''n'']) 1
      else if c = CHR 0x0D then sdscatlen s (c_literal [BACKSLASH, CHR ''r'']) 1
      else if c = CHR 0x09 then sdscatlen s (c_literal [BACKSLASH, CHR ''t'']) 1
      else if c = CHR 0x07 then sdscatlen s (c_literal [BACKSLASH, CHR ''a'']) 1
      else if c = CHR 0x08 then sdscatlen s (c_literal [BACKSLASH, CHR ''b'']) 1
      else if is_print c then sdscatprintf s [c]
      else sdscatprintf s (BACKSLASH # CHR ''x'' # hex2 c))"

fun catrepr_loop :: "sdshdr \<Rightarrow> mem \<Rightarrow> nat \<Rightarrow> sdshdr option" where
  "catrepr_loop s p 0 = Some s"
| "catrepr_loop s p (Suc len) = do {
     c \<leftarrow> mem_get p 0;
     s \<leftarrow> catrepr_char s c;
     catrepr_loop s (drop 1 p) len }"

definition sdscatrepr :: "sdshdr \<Rightarrow> mem \<Rightarrow> nat \<Rightarrow> sdshdr option" where
  "sdscatrepr s p len = do {
     s \<leftarrow> sdscatlen s (c_literal [DQUOTE]) 1;
     s \<leftarrow> catrepr_loop s p len;
     sdscatlen s (c_literal [DQUOTE]) 1 }"

section \<open>Splitting a command line\<close>

text \<open>
  The line is a C string; \<open>p\<close> is what is left of it, the empty list standing for the NUL.
  The inner result \<^const>\<open>None\<close> is the \<open>goto err\<close> of the source.
\<close>

definition unescape :: "char \<Rightarrow> char" where
  "unescape c =
     (if c = CHR ''n'' then CHR 0x0A else if c = CHR ''r'' then CHR 0x0D
      else if c = CHR ''t'' then CHR 0x09 else if c = CHR ''b'' then CHR 0x08
      else if c = CHR ''a'' then CHR 0x07 else c)"

function splitargs_token :: "bool \<Rightarrow> string \<Rightarrow> sdshdr \<Rightarrow> (string \<times> sdshdr) option option" where
  "splitargs_token inq p current =
     (if inq then
        (case p of
           [] \<Rightarrow> Some None
         | c # p' \<Rightarrow>
             if c = BACKSLASH \<and> p' \<noteq> [] then do {
               current \<leftarrow> sdscatlen current [Some (unescape (hd p'))] 1;
               splitargs_token True (tl p') current }
             else if c = DQUOTE then
               (if p' \<noteq> [] \<and> \<not> is_space (hd p') then Some None else Some (Some (p', current)))
             else do {
               current \<leftarrow> sdscatlen current [Some c] 1;
               splitargs_token True p' current })
      else
        (case p of
           [] \<Rightarrow> Some (Some ([], current))
         | c # p' \<Rightarrow>
             if c = CHR 0x20 \<or> c = CHR 0x0A \<or> c = CHR 0x0D \<or> c = CHR 0x09 then Some (Some (p', current))
             else if c = DQUOTE then splitargs_token True p' current
             else do {
               current \<leftarrow> sdscatlen current [Some c] 1;
               splitargs_token False p' current }))"
  by pat_completeness auto
termination
  by (relation "measure (\<lambda>(inq, p, current). length p)") auto

declare splitargs_token.simps [simp del]

lemma splitargs_token_consumes:
  "splitargs_token inq p current = Some (Some (p', current')) \<Longrightarrow>
     length p' < length p \<or> p = [] \<and> p' = []"
proof (induction "length p" arbitrary: inq p current rule: less_induct)
  case less
  show ?case
  proof (cases p)
    case Nil
    with less.prems show ?thesis by (subst (asm) splitargs_token.simps) (auto split: if_splits)
  next
    case (Cons c q)
    have IH: "length p' \<le> length r"
      if "splitargs_token i r cur = Some (Some (p', current'))" "length r \<le> length q" for i r cur
      using less.hyps [OF _ that(1)] that(2) Cons by auto
    have "length p' \<le> length q"
      using less.prems Cons
      by (subst (asm) splitargs_token.simps)
        (auto simp: bind_eq_Some_conv split: if_splits dest: IH elim!: order_trans [OF IH])
    with Cons show ?thesis by simp
  qed
qed

lemma splitargs_token_shorter:
  "splitargs_token inq p current = Some (Some (p', current')) \<Longrightarrow> p \<noteq> [] \<Longrightarrow> length p' < length p"
  by (drule splitargs_token_consumes) simp

lemma dropWhile_length_le: "length (dropWhile P xs) \<le> length xs"
  by (induction xs) auto

function splitargs_loop :: "string \<Rightarrow> sdshdr list \<Rightarrow> sdshdr list option option" where
  "splitargs_loop p vector =
     (let p = dropWhile is_space p
      in if p \<noteq> [] then do {
           current \<leftarrow> sdsempty;
           r \<leftarrow> splitargs_token False p current;
           (case r of
              None \<Rightarrow> Some None
            | Some (p, current) \<Rightarrow> splitargs_loop p (vector @ [current])) }
         else Some (Some vector))"
  by pat_completeness auto
termination
proof (relation "measure (\<lambda>(p, vector). length p)", goal_cases)
  case 1
  show ?case by simp
next
  case (2 p vector q current r pr p' current')
  then have "length p' < length (dropWhile is_space p)"
    by (intro splitargs_token_shorter [of False _ current p' current']) auto
  then show ?case using dropWhile_length_le [of is_space p] by simp
qed

declare splitargs_loop.simps [simp del]

text \<open>The vector (NULL when no token was found or on an error) and the final \<open>*argc\<close>.\<close>

definition sdssplitargs :: "string \<Rightarrow> (sdshdr list option \<times> int) option" where
  "sdssplitargs line = do {
     r \<leftarrow> splitargs_loop line [];
     Some (case r of
             None \<Rightarrow> (None, - 1)
           | Some vector \<Rightarrow> (if vector = [] then None else Some vector, c_int (int (length vector)))) }"

section \<open>Integers print as their decimal numeral\<close>

lemma digits_loop_eq:
  assumes "length pre = Suc p" and "length (show_nat v) \<le> Suc p"
  shows "digits_loop v (int p) (pre @ post)
    = Some (int p - int (length (show_nat v)),
        take (Suc p - length (show_nat v)) pre @ map Some (show_nat v) @ post)"
  using assms
proof (induction v arbitrary: p pre post rule: show_nat.induct)
  case (1 v)
  obtain pre' x where pre: "pre = pre' @ [x]" "length pre' = p"
    using "1.prems"(1) by (metis length_Suc_conv_rev)
  have store: "mem_store (pre @ post) p [Some (digit_char (v mod 10))]
      = Some (pre' @ Some (digit_char (v mod 10)) # post)"
    using pre by (simp add: mem_store_def)
  show ?case
  proof (cases "v < 10")
    case True
    then have "show_nat v = [digit_char (v mod 10)]" by (simp add: show_nat.simps [of v])
    with True store pre show ?thesis by (subst digits_loop.simps) simp
  next
    case False
    then have sh: "show_nat v = show_nat (v div 10) @ [digit_char (v mod 10)]"
      by (simp add: show_nat.simps [of v])
    have len: "length (show_nat (v div 10)) \<le> p" using "1.prems"(2) sh by simp
    then obtain q where q: "p = Suc q" using show_nat_nonempty [of "v div 10"] by (cases p) auto
    have "digits_loop (v div 10) (int q) (pre' @ Some (digit_char (v mod 10)) # post)
        = Some (int q - int (length (show_nat (v div 10))),
           take (Suc q - length (show_nat (v div 10))) pre' @ map Some (show_nat (v div 10))
             @ Some (digit_char (v mod 10)) # post)"
      using "1.IH" [OF False, of pre' q] pre(2) len q by simp
    moreover have "int p - 1 = int q" "v div 10 \<noteq> 0" using q False by simp_all
    ultimately show ?thesis
      using store sh pre q len by (subst digits_loop.simps) (simp add: Let_def)
  qed
qed

lemma sdsfromlonglong_eq:
  assumes "- 9223372036854775808 \<le> v" and "v \<le> 9223372036854775807"
  shows "sdsfromlonglong v = Some (sds_of (show_int v) [])"
proof -
  let ?d = "show_nat (nat \<bar>v\<bar>)"
  have "nat \<bar>v\<bar> < 10 ^ Suc 18" using assms by simp
  then have d: "length ?d \<le> 19" using show_nat_length_pow [of "nat \<bar>v\<bar>" 18] by simp
  have conv: "c_size_t (if v < 0 then - v else v) = nat \<bar>v\<bar>"
    using assms by (simp add: c_size_t_id abs_if)
  have dig: "digits_loop (nat \<bar>v\<bar>) 31 (replicate 32 None)
      = Some (31 - int (length ?d), replicate (32 - length ?d) None @ map Some ?d)"
    using digits_loop_eq [of "replicate 32 None" 31 "nat \<bar>v\<bar>" "[]"] d by (simp add: take_replicate)
  have new: "sdsnewlen (Some (map Some t)) (length t) = Some (sds_of t [])" if "length t \<le> 20" for t
    using sdsnewlen_Some [of t "[]"] that by (simp add: INT_MAX_def)
  show ?thesis
  proof (cases "v < 0")
    case False
    then have "nat (32 - (31 - int (length ?d) + 1)) = length ?d" "nat (31 - int (length ?d) + 1) = 32 - length ?d"
      using d by auto
    then show ?thesis
      using False conv dig new [of ?d] d
      by (simp add: sdsfromlonglong_def Let_def malloc_def show_int_def abs_if)
  next
    case True
    have e: "nat (31 - int (length ?d)) = 31 - length ?d" using d by auto
    have "replicate (32 - length ?d) None = replicate (31 - length ?d) None @ [None :: char option]"
      using d by (simp add: replicate_append_same Suc_diff_le [symmetric] flip: replicate_Suc)
    then have st: "mem_store (replicate (32 - length ?d) None @ map Some ?d) (31 - length ?d) [Some CHR ''-'']
        = Some (replicate (31 - length ?d) None @ map Some (CHR ''-'' # ?d))"
      by (simp add: mem_store_def)
    have "nat (32 - (31 - int (length ?d) - 1 + 1)) = Suc (length ?d)" using d by auto
    then show ?thesis
      using True conv dig new [of "CHR ''-'' # ?d"] d st e
      by (simp add: sdsfromlonglong_def Let_def malloc_def show_int_def abs_if)
  qed
qed

section \<open>Quoting and splitting back\<close>

text \<open>What \<open>sdscatrepr\<close> appends for one byte: the control characters with a letter escape come
  out as a lone backslash, because the length argument of their \<open>sdscatlen\<close> is 1.\<close>

definition repr_bytes :: "char \<Rightarrow> string" where
  "repr_bytes c =
     (if c = BACKSLASH \<or> c = DQUOTE then [BACKSLASH, c]
      else if c \<in> set [CHR 0x0A, CHR 0x0D, CHR 0x09, CHR 0x07, CHR 0x08] then [BACKSLASH]
      else if is_print c then [c]
      else BACKSLASH # CHR ''x'' # hex2 c)"

lemma repr_bytes_length: "length (repr_bytes c) \<le> 4"
  by (simp add: repr_bytes_def hex2_def)

lemma hex_digit_not_NUL: "d < 16 \<Longrightarrow> hex_digit d \<noteq> NUL"
proof -
  assume "d < 16"
  then have "(of_char (hex_digit d) :: nat) \<noteq> 0" by (simp add: hex_digit_def of_char_of)
  then show ?thesis by auto
qed

lemma NUL_notin_hex2: "NUL \<notin> set (hex2 c)"
proof -
  have "(of_char c :: nat) div 16 < 16" "(of_char c :: nat) mod 16 < 16"
    using of_char_less_256 [of c] by linarith+
  then have "hex_digit (of_char c div 16) \<noteq> NUL" "hex_digit (of_char c mod 16) \<noteq> NUL"
    by (simp_all add: hex_digit_not_NUL)
  then show ?thesis by (auto simp: hex2_def)
qed

lemma catrepr_char_wf:
  assumes "sds_wf s" and "(length (sds_str s) + 4) * 2 \<le> nat INT_MAX"
  shows "\<exists>s'. catrepr_char s c = Some s' \<and> sds_wf s' \<and> sds_str s' = sds_str s @ repr_bytes c"
proof -
  obtain slack where s: "s = sds_of (sds_str s) slack" and le: "length (sds_str s) + length slack \<le> nat INT_MAX"
    using assms(1) by (rule sds_wf_repr)
  have pr: "\<exists>s'. sdscatprintf s out = Some s' \<and> sds_wf s' \<and> sds_str s' = sds_str s @ out"
    if "length out \<le> 4" "NUL \<notin> set out" for out
    using sdscatprintf_of [OF le _ that(2)] that(1) assms(2) s by (metis (no_types, lifting)
        add_le_mono le_refl le_trans mult_le_mono1 sds_of_sel(4) sds_wf_of)
  have one: "\<exists>s'. sdscatlen s (c_literal [a, b]) 1 = Some s' \<and> sds_wf s' \<and> sds_str s' = sds_str s @ [a]" for a b
    using sdscatlen_wf [OF assms(1), of "[a]" "[Some b, Some NUL]"] assms(2)
    by (simp add: sds_room_def c_literal_def)
  consider (esc) "c = BACKSLASH \<or> c = DQUOTE"
    | (ctl) "c \<in> set [CHR 0x0A, CHR 0x0D, CHR 0x09, CHR 0x07, CHR 0x08]"
    | (prt) "c \<noteq> BACKSLASH" "c \<noteq> DQUOTE" "is_print c"
        "c \<notin> set [CHR 0x0A, CHR 0x0D, CHR 0x09, CHR 0x07, CHR 0x08]"
    | (hex) "c \<noteq> BACKSLASH" "c \<noteq> DQUOTE" "\<not> is_print c"
        "c \<notin> set [CHR 0x0A, CHR 0x0D, CHR 0x09, CHR 0x07, CHR 0x08]"
    by blast
  then show ?thesis
  proof cases
    case esc
    then show ?thesis using pr [of "[BACKSLASH, c]"] by (auto simp: catrepr_char_def repr_bytes_def)
  next
    case ctl
    then show ?thesis using one by (auto simp: catrepr_char_def repr_bytes_def)
  next
    case prt
    then have "c \<noteq> NUL" by (auto simp: is_print_def)
    with prt show ?thesis using pr [of "[c]"] by (simp add: catrepr_char_def repr_bytes_def)
  next
    case hex
    then show ?thesis
      using pr [of "BACKSLASH # CHR ''x'' # hex2 c"] NUL_notin_hex2 [of c]
      by (simp add: catrepr_char_def repr_bytes_def) (simp add: hex2_def)
  qed
qed

lemma catrepr_loop_wf:
  assumes "sds_wf s" and "(length (sds_str s) + 4 * length x) * 2 \<le> nat INT_MAX"
  shows "\<exists>s'. catrepr_loop s (map Some x @ rest) (length x) = Some s' \<and> sds_wf s' \<and>
    sds_str s' = sds_str s @ concat (map repr_bytes x)"
  using assms
proof (induction x arbitrary: s)
  case Nil
  then show ?case by simp
next
  case (Cons c x)
  then obtain s1 where s1: "catrepr_char s c = Some s1" "sds_wf s1" "sds_str s1 = sds_str s @ repr_bytes c"
    using catrepr_char_wf [of s c] by auto
  have "(length (sds_str s1) + 4 * length x) * 2 \<le> nat INT_MAX"
    using Cons.prems(2) s1(3) repr_bytes_length [of c] by simp
  from Cons.IH [OF s1(2) this] s1 show ?case by (simp add: mem_get_def)
qed

lemma sdscatrepr_wf:
  assumes "sds_wf s" and "(length (sds_str s) + 4 * length x + 2) * 2 \<le> nat INT_MAX"
  shows "\<exists>s'. sdscatrepr s (map Some x @ rest) (length x) = Some s' \<and> sds_wf s' \<and>
    sds_str s' = sds_str s @ DQUOTE # concat (map repr_bytes x) @ [DQUOTE]"
proof -
  have q: "\<exists>s'. sdscatlen r (c_literal [DQUOTE]) 1 = Some s' \<and> sds_wf s' \<and> sds_str s' = sds_str r @ [DQUOTE]"
    if "sds_wf r" "(length (sds_str r) + 1) * 2 \<le> nat INT_MAX" for r
    using sdscatlen_wf [OF that(1), of "[DQUOTE]" "[Some NUL]"] that(2)
    by (simp add: sds_room_def c_literal_def)
  obtain s1 where s1: "sdscatlen s (c_literal [DQUOTE]) 1 = Some s1" "sds_wf s1" "sds_str s1 = sds_str s @ [DQUOTE]"
    using q [OF assms(1)] assms(2) by auto
  have "(length (sds_str s1) + 4 * length x) * 2 \<le> nat INT_MAX" using s1(3) assms(2) by simp
  from catrepr_loop_wf [OF s1(2) this, of rest] obtain s2 where
    s2: "catrepr_loop s1 (map Some x @ rest) (length x) = Some s2" "sds_wf s2"
      "sds_str s2 = sds_str s @ DQUOTE # concat (map repr_bytes x)"
    using s1(3) by auto
  have "length (concat (map repr_bytes x)) \<le> 4 * length x"
    using repr_bytes_length by (induction x) (auto intro: add_le_mono [of _ 4, simplified])
  then have "(length (sds_str s2) + 1) * 2 \<le> nat INT_MAX" using s2(3) assms(2) by simp
  from q [OF s2(2) this] s1 s2 show ?thesis by (auto simp: sdscatrepr_def)
qed

text \<open>A printable string, quoted, is scanned back to itself.\<close>

lemma splitargs_quoted:
  assumes "sds_wf cur" and "(length (sds_str cur) + length x) * 2 \<le> nat INT_MAX"
    and "\<forall>c\<in>set x. is_print c"
  shows "\<exists>cur'. splitargs_token True (concat (map repr_bytes x) @ [DQUOTE]) cur = Some (Some ([], cur')) \<and>
    sds_wf cur' \<and> sds_str cur' = sds_str cur @ x"
  using assms
proof (induction x arbitrary: cur)
  case Nil
  then show ?case by (simp add: splitargs_token.simps)
next
  case (Cons c x)
  obtain cur1 where c1: "sdscatlen cur [Some c] 1 = Some cur1" "sds_wf cur1" "sds_str cur1 = sds_str cur @ [c]"
    using sdscatlen_wf [OF Cons.prems(1), of "[c]" "[]"] Cons.prems(2) by (auto simp: sds_room_def)
  have "(length (sds_str cur1) + length x) * 2 \<le> nat INT_MAX" using c1(3) Cons.prems(2) by simp
  with Cons.IH [OF c1(2)] Cons.prems(3) obtain cur' where IH:
    "splitargs_token True (concat (map repr_bytes x) @ [DQUOTE]) cur1 = Some (Some ([], cur'))"
    "sds_wf cur'" "sds_str cur' = sds_str cur1 @ x"
    by auto
  have "is_print c" using Cons.prems(3) by simp
  then have nc: "c \<notin> set [CHR 0x0A, CHR 0x0D, CHR 0x09, CHR 0x07, CHR 0x08]"
    by (auto simp: is_print_def)
  have "splitargs_token True (concat (map repr_bytes (c # x)) @ [DQUOTE]) cur
      = splitargs_token True (concat (map repr_bytes x) @ [DQUOTE]) cur1"
  proof (cases "c = BACKSLASH \<or> c = DQUOTE")
    case True
    then have "unescape c = c" by (auto simp: unescape_def)
    with True c1(1) show ?thesis
      by (subst splitargs_token.simps) (auto simp: repr_bytes_def)
  next
    case False
    then show ?thesis
      using c1(1) nc \<open>is_print c\<close> by (subst splitargs_token.simps) (auto simp: repr_bytes_def)
  qed
  with IH c1(3) show ?case by simp
qed

lemma splitargs_of_repr:
  assumes "\<forall>c\<in>set x. is_print c" and "length x * 2 \<le> nat INT_MAX"
  shows "\<exists>v. sdssplitargs (DQUOTE # concat (map repr_bytes x) @ [DQUOTE]) = Some (Some [v], 1) \<and>
    sds_wf v \<and> sds_str v = x"
proof -
  let ?line = "DQUOTE # concat (map repr_bytes x) @ [DQUOTE]"
  have e: "sds_wf (sds_of [] [])" by (simp add: INT_MAX_def)
  obtain v where v: "splitargs_token True (concat (map repr_bytes x) @ [DQUOTE]) (sds_of [] []) = Some (Some ([], v))"
    "sds_wf v" "sds_str v = x"
    using splitargs_quoted [OF e, of x] assms by auto
  have "splitargs_token False ?line (sds_of [] []) = Some (Some ([], v))"
    using v(1) by (subst splitargs_token.simps) simp
  moreover have "dropWhile is_space ?line = ?line" by (simp add: is_space_def)
  ultimately have "splitargs_loop ?line [] = Some (Some [v])"
    by (subst splitargs_loop.simps) (simp add: sdsempty_eq splitargs_loop.simps [of "[]"])
  then show ?thesis using v by (simp add: sdssplitargs_def c_int_id)
qed

section \<open>Splitting recovers the pieces between separators\<close>

fun sep_join :: "'a list \<Rightarrow> 'a list list \<Rightarrow> 'a list" where
  "sep_join sep [] = []"
| "sep_join sep [t] = t"
| "sep_join sep (t # u # ts) = t @ sep @ sep_join sep (u # ts)"

lemma sep_join_snoc: "sep_join sep (ts @ [t]) = concat (map (\<lambda>u. u @ sep) ts) @ t"
proof (induction ts)
  case (Cons a ts)
  then show ?case by (cases ts) simp_all
qed simp

lemma no_sublist_iff:
  "\<not> sublist sep t \<longleftrightarrow> (\<forall>i. i + length sep \<le> length t \<longrightarrow> take (length sep) (drop i t) \<noteq> sep)"
proof
  assume n: "\<not> sublist sep t"
  show "\<forall>i. i + length sep \<le> length t \<longrightarrow> take (length sep) (drop i t) \<noteq> sep"
  proof (intro allI impI notI)
    fix i assume "take (length sep) (drop i t) = sep"
    then have "t = take i t @ sep @ drop (length sep) (drop i t)" by (metis append_take_drop_id)
    with n show False unfolding sublist_def by blast
  qed
next
  assume *: "\<forall>i. i + length sep \<le> length t \<longrightarrow> take (length sep) (drop i t) \<noteq> sep"
  show "\<not> sublist sep t"
  proof
    assume "sublist sep t"
    then obtain ps ss where "t = ps @ sep @ ss" unfolding sublist_def by blast
    with * [rule_format, of "length ps"] show False by simp
  qed
qed

lemma memcmp_prefix:
  assumes "j + length sep \<le> length str"
  shows "\<exists>r. memcmp (drop j (map Some str @ r1)) (map Some sep @ r2) (length sep) = Some r \<and>
    (r = 0 \<longleftrightarrow> take (length sep) (drop j str) = sep)"
proof -
  let ?a = "take (length sep) (drop j str)"
  let ?x = "map Some (drop (j + length sep) str) @ r1"
  have l: "length ?a = length sep" using assms by simp
  have "drop j (map Some str @ r1) = map Some ?a @ ?x"
  proof -
    have "drop j str = ?a @ drop (j + length sep) str"
      using append_take_drop_id [of "length sep" "drop j str"] by (simp add: add.commute)
    then have "map Some (drop j str) = map Some ?a @ map Some (drop (j + length sep) str)"
      by (metis map_append)
    then show ?thesis using assms by (simp add: drop_map)
  qed
  moreover obtain r where r: "memcmp (map Some ?a @ ?x) (map Some sep @ r2) (length sep) = Some r"
    using memcmp_lexord [of ?a ?x sep r2] l by auto
  moreover have "r = 0 \<longleftrightarrow> ?a = sep"
    using memcmp_eq_iff [OF l refl, of ?x r2] r by simp
  ultimately show ?thesis by simp
qed

text \<open>
  The loop invariant: the text before \<open>start\<close> is the tokens found, each followed by the
  separator; no token contains the separator; the token array has a free slot.
\<close>

definition split_inv :: "string \<Rightarrow> string \<Rightarrow> nat \<Rightarrow> nat \<Rightarrow> sdshdr list \<Rightarrow> bool" where
  "split_inv str sep start slots tokens \<longleftrightarrow>
     start \<le> length str \<and> length tokens < slots \<and>
     take start str = concat (map (\<lambda>u. sds_str u @ sep) tokens) \<and>
     (\<forall>t\<in>set tokens. sds_wf t \<and> \<not> sublist sep (sds_str t))"

definition no_match :: "string \<Rightarrow> string \<Rightarrow> nat \<Rightarrow> nat \<Rightarrow> bool" where
  "no_match str sep start j \<longleftrightarrow>
     (\<forall>i. start \<le> i \<and> i < j \<and> i + length sep \<le> length str \<longrightarrow> take (length sep) (drop i str) \<noteq> sep)"

lemma no_match_sublist:
  assumes "no_match str sep start j" and "start \<le> j" and "j \<le> length str" and "sep \<noteq> []"
  shows "\<not> sublist sep (take (j - start) (drop start str))"
  unfolding no_sublist_iff
proof (intro allI impI)
  fix i assume i: "i + length sep \<le> length (take (j - start) (drop start str))"
  moreover from i assms have "i + length sep \<le> j - start" by simp
  ultimately have "start + i < j" "start + i + length sep \<le> length str"
    using assms(2,3,4) by (cases sep; simp)+
  then have "take (length sep) (drop (start + i) str) \<noteq> sep"
    using assms(1) [unfolded no_match_def, rule_format, of "start + i"] by simp
  moreover have "take (length sep) (drop i (take (j - start) (drop start str)))
      = take (length sep) (drop (start + i) str)"
    using \<open>i + length sep \<le> j - start\<close> by (simp add: drop_take add.commute min_def)
  ultimately show "take (length sep) (drop i (take (j - start) (drop start str))) \<noteq> sep" by simp
qed

lemma sdsnewlen_substring:
  assumes "start \<le> j" and "j \<le> length str" and "length str \<le> nat INT_MAX"
  shows "sdsnewlen (Some (drop start (map Some str @ r))) (j - start)
    = Some (sds_of (take (j - start) (drop start str)) [])"
proof -
  let ?t = "take (j - start) (drop start str)"
  have "drop start str = ?t @ drop (j - start) (drop start str)" by (rule append_take_drop_id [symmetric])
  then have "map Some (drop start str) = map Some ?t @ map Some (drop (j - start) (drop start str))"
    by (metis map_append)
  then have "drop start (map Some str @ r) = map Some ?t @ map Some (drop (j - start) (drop start str)) @ r"
    using assms by (simp add: drop_map)
  moreover have "length ?t = j - start" using assms by simp
  ultimately show ?thesis using sdsnewlen_Some [of ?t] assms(3) by (metis (no_types, lifting)
        assms(2) diff_le_self le_trans)
qed

lemma split_inv_snoc:
  assumes "split_inv str sep start slots tokens" and "start \<le> j" and "j + length sep \<le> length str"
    and "take (length sep) (drop j str) = sep" and "no_match str sep start j" and "sep \<noteq> []"
    and "length tokens + 1 < slots'" and "length str \<le> nat INT_MAX"
  shows "split_inv str sep (j + length sep) slots' (tokens @ [sds_of (take (j - start) (drop start str)) []])"
proof -
  have "take (j + length sep) str = take start str @ take (j - start) (drop start str) @ take (length sep) (drop j str)"
    using assms(2) by (metis append.assoc le_add_diff_inverse take_add)
  moreover have "\<not> sublist sep (take (j - start) (drop start str))"
    using no_match_sublist [OF assms(5,2)] assms(3,6) by simp
  ultimately show ?thesis
    using assms by (auto simp: split_inv_def)
qed

lemma split_loop_spec:
  assumes "split_inv str sep start slots tokens" and "start \<le> j" and "j \<le> length str"
    and "no_match str sep start j" and "sep \<noteq> []" and "length str \<le> nat INT_MAX"
  shows "\<exists>start' slots' tokens'.
    split_loop (map Some str @ r1) (length str) (map Some sep @ r2) (length sep) j start slots tokens
      = Some (start', slots', tokens') \<and>
    split_inv str sep start' slots' tokens' \<and> no_match str sep start' (length str)"
  using assms
proof (induction "length str - j" arbitrary: j start slots tokens rule: less_induct)
  case less
  let ?loop = "split_loop (map Some str @ r1) (length str) (map Some sep @ r2) (length sep)"
  let ?slots = "if slots < length tokens + 2 then slots * 2 else slots"
  have sl: "length tokens + 1 < ?slots" using less.prems(1) by (auto simp: split_inv_def)
  have sep0: "length sep \<noteq> 0" using less.prems(5) by simp
  show ?case
  proof (cases "j + length sep \<le> length str")
    case False
    then have "no_match str sep start (length str)"
      using less.prems(4) by (auto simp: no_match_def)
    moreover have "?loop j start slots tokens = Some (start, slots, tokens)"
      using False sep0 by (subst split_loop.simps) auto
    ultimately show ?thesis using less.prems(1) by auto
  next
    case True
    obtain r where r: "memcmp (drop j (map Some str @ r1)) (map Some sep @ r2) (length sep) = Some r"
      "r = 0 \<longleftrightarrow> take (length sep) (drop j str) = sep"
      using memcmp_prefix [OF True] by blast
    have one: "str ! j = sep ! 0 \<longleftrightarrow> take (length sep) (drop j str) = sep" if "length sep = 1"
      using that True by (cases sep) (auto simp: take_Suc_conv_app_nth hd_drop_conv_nth take_Suc)
    have jl: "j < length str" using True less.prems(5) by (cases sep) auto
    let ?hit = "take (length sep) (drop j str) = sep"
    have step: "?loop j start slots tokens =
      (if ?hit then ?loop (j + length sep) (j + length sep) ?slots
                (tokens @ [sds_of (take (j - start) (drop start str)) []])
       else ?loop (j + 1) start ?slots tokens)"
      using True sep0 sl r one jl sdsnewlen_substring [OF less.prems(2,3,6)]
      by (subst split_loop.simps) (auto simp: Let_def)
    show ?thesis
    proof (cases ?hit)
      case hit: True
      have "split_inv str sep (j + length sep) ?slots (tokens @ [sds_of (take (j - start) (drop start str)) []])"
        using split_inv_snoc [OF less.prems(1,2) True hit less.prems(4,5) sl less.prems(6)] .
      moreover have "length str - (j + length sep) < length str - j" using jl sep0 True by linarith
      moreover have "no_match str sep (j + length sep) (j + length sep)" by (auto simp: no_match_def)
      ultimately show ?thesis
        unfolding step if_P [OF hit] by (intro less.hyps) (use True less.prems(5,6) in simp_all)
    next
      case False
      have "split_inv str sep start ?slots tokens" using less.prems(1) sl by (simp add: split_inv_def)
      moreover have "no_match str sep start (j + 1)"
        using less.prems(4) False by (auto simp: no_match_def less_Suc_eq)
      ultimately show ?thesis
        unfolding step if_not_P [OF False] by (intro less.hyps) (use jl less.prems(2,5,6) in simp_all)
    qed
  qed
qed

section \<open>Properties of the string library\<close>

text \<open>
  The dynamic string used as a byte queue: appending \<open>t\<close> and then dropping
  the first \<open>n\<close> bytes never faults, keeps the header invariant, and leaves exactly the queued
  bytes that were not consumed.
\<close>

lemma sds_queue:
  assumes "sds_wf s" and "sds_room s (length t)" and "n \<le> length (sds_str s @ t)"
  shows "\<exists>s' s''. sdscatlen s (map Some t) (length t) = Some s' \<and> sdsrange s' (int n) (- 1) = Some s'' \<and>
    sds_wf s'' \<and> sds_str s'' = drop n (sds_str s @ t) \<and> sdslen s'' = length (sds_str s) + length t - n"
  using assms by (rule sds.append_consume)

text \<open>
  \<open>sdscmp\<close> decides the lexicographic order on unsigned bytes, a proper prefix
  being smaller, and is 0 exactly on equal strings.
\<close>

lemma sdscmp_order:
  assumes "sds_wf s1" and "sds_wf s2"
  shows "\<exists>r. sdscmp s1 s2 = Some r \<and> (r < 0 \<longleftrightarrow> byte_less (sds_str s1) (sds_str s2)) \<and>
    (r = 0 \<longleftrightarrow> sds_str s1 = sds_str s2)"
proof -
  obtain x where x: "s1 = sds_of (sds_str s1) x" "length (sds_str s1) + length x \<le> nat INT_MAX"
    using assms(1) by (rule sds_wf_repr)
  obtain y where y: "s2 = sds_of (sds_str s2) y" "length (sds_str s2) + length y \<le> nat INT_MAX"
    using assms(2) by (rule sds_wf_repr)
  from sdscmp_of [of "sds_str s1" "sds_str s2" x y] show ?thesis using x y by (metis add_leD1)
qed

text \<open>
  For every \<open>long long\<close>, \<open>LLONG_MIN\<close> included, \<open>sdsfromlonglong\<close> stays
  inside its 32-byte buffer and returns the decimal numeral.
\<close>

lemma sdsfromlonglong_decimal:
  assumes "- 9223372036854775808 \<le> v" and "v \<le> 9223372036854775807"
  shows "\<exists>s. sdsfromlonglong v = Some s \<and> sds_wf s \<and> sds_str s = show_int v"
proof -
  have "nat \<bar>v\<bar> < 10 ^ Suc 18" using assms by simp
  then have "length (show_int v) \<le> 20" using show_nat_length_pow [of "nat \<bar>v\<bar>" 18]
    by (auto simp: show_int_def)
  then show ?thesis using sdsfromlonglong_eq [OF assms] by (simp add: INT_MAX_def)
qed

text \<open>
  A string of printable characters, quoted by \<open>sdscatrepr\<close> onto an empty
  string and given back to \<open>sdssplitargs\<close>, is read as one argument equal to the original.
\<close>

lemma repr_splitargs_roundtrip:
  assumes "\<forall>c\<in>set x. is_print c" and "(4 * length x + 2) * 2 \<le> nat INT_MAX"
  shows "\<exists>e s v. sdsempty = Some e \<and> sdscatrepr e (map Some x) (length x) = Some s \<and>
    sdssplitargs (sds_str s) = Some (Some [v], 1) \<and> sds_wf v \<and> sds_str v = x"
proof -
  have "sds_wf (sds_of [] [])" by (simp add: INT_MAX_def)
  from sdscatrepr_wf [OF this, of x "[]"] assms(2) obtain s where
    s: "sdscatrepr (sds_of [] []) (map Some x) (length x) = Some s"
      "sds_str s = DQUOTE # concat (map repr_bytes x) @ [DQUOTE]"
    by auto
  have "length x * 2 \<le> nat INT_MAX" using assms(2) by simp
  from splitargs_of_repr [OF assms(1) this] s show ?thesis by (auto simp: sdsempty_eq)
qed

text \<open>
  The quoting of a line feed is cut to a lone backslash, which then escapes the
  closing quote: \<open>sdssplitargs\<close> rejects what \<open>sdscatrepr\<close> printed.
\<close>

lemma repr_newline_not_split:
  "\<exists>e s. sdsempty = Some e \<and> sdscatrepr e [Some LF] 1 = Some s \<and> sdssplitargs (sds_str s) = Some (None, - 1)"
proof -
  obtain s where s: "sdscatrepr (sds_of [] []) [Some LF] 1 = Some s" "sds_str s = [DQUOTE, BACKSLASH, DQUOTE]"
    using sdscatrepr_wf [of "sds_of [] []" "[LF]" "[]"] by (auto simp: INT_MAX_def repr_bytes_def)
  obtain c where "sdscatlen (sds_of [] []) [Some DQUOTE] 1 = Some c"
    using sdscatlen_wf [of "sds_of [] []" "[DQUOTE]" "[]"] by (auto simp: INT_MAX_def sds_room_def)
  then have "splitargs_token True [BACKSLASH, DQUOTE] (sds_of [] []) = Some None"
    by (simp add: splitargs_token.simps [of True] unescape_def)
  then have "splitargs_token False [DQUOTE, BACKSLASH, DQUOTE] (sds_of [] []) = Some None"
    by (subst splitargs_token.simps) simp
  then have "splitargs_loop [DQUOTE, BACKSLASH, DQUOTE] [] = Some None"
    by (subst splitargs_loop.simps) (simp add: is_space_def sdsempty_eq)
  then show ?thesis using s by (simp add: sdsempty_eq sdssplitargs_def)
qed

text \<open>
  \<open>sdssplitlen\<close> on a nonempty string and separator stays inside both blocks
  and its token array, and returns nonempty list of tokens none of which contains the
  separator and whose concatenation with the separator between them is the string.
\<close>

lemma sdssplitlen_spec:
  assumes "sep \<noteq> []" and "str \<noteq> []" and "length str \<le> nat INT_MAX"
  shows "\<exists>toks. sdssplitlen (map Some str @ r1) (int (length str)) (map Some sep @ r2) (int (length sep))
      = Some (Some toks) \<and> toks \<noteq> [] \<and>
    (\<forall>t\<in>set toks. sds_wf t \<and> \<not> sublist sep (sds_str t)) \<and> sep_join sep (map sds_str toks) = str"
proof -
  have "split_inv str sep 0 5 []" "no_match str sep 0 0" by (simp_all add: split_inv_def no_match_def)
  from split_loop_spec [OF this(1) _ _ this(2) assms(1,3)] obtain start slots toks where
    run: "split_loop (map Some str @ r1) (length str) (map Some sep @ r2) (length sep) 0 0 5 []
      = Some (start, slots, toks)"
    and inv: "split_inv str sep start slots toks" and nm: "no_match str sep start (length str)"
    by (metis le_numeral_extra(3) zero_le)
  have le: "start \<le> length str" "length toks < slots" using inv by (simp_all add: split_inv_def)
  let ?t = "sds_of (drop start str) []"
  have "sdsnewlen (Some (drop start (map Some str @ r1))) (length str - start) = Some ?t"
    using sdsnewlen_substring [OF le(1) _ assms(3)] by simp
  then have res: "sdssplitlen (map Some str @ r1) (int (length str)) (map Some sep @ r2) (int (length sep))
      = Some (Some (toks @ [?t]))"
    using assms run le by (simp add: sdssplitlen_def Suc_le_eq)
  have "\<not> sublist sep (drop start str)"
    using no_match_sublist [OF nm le(1) _ assms(1)] by simp
  moreover have "sep_join sep (map sds_str (toks @ [?t])) = str"
    using inv by (simp add: sep_join_snoc split_inv_def comp_def) (metis append_take_drop_id)
  ultimately show ?thesis
    using res inv assms(3) by (auto simp: split_inv_def)
qed

end
