(* ===== verification/Dict.thy ===== *)
theory Dict
  imports MmsPrelude "HOL-Library.Multiset"
begin

text \<open>
  The chained hash table of \<open>win32/hiredis/dict.c\<close> and \<open>include/hiredis/dict.h\<close>: a table
  whose size is a power of two, an entry with hash \<open>h\<close> in slot \<open>h & sizemask\<close>, doubled
  when it is full. A chain is the list of its entries from the head on. The type functions are
  those of the table's \<open>dictType\<close> at its \<open>privdata\<close>; hashing and comparing read memory
  and may fault. The calls of the two destructors are returned as a list of events, in order.
\<close>

section \<open>Data\<close>

record ('k, 'v) dictType =
  hashFunction :: "'k \<Rightarrow> 32 word option"
  keyDup :: "('k \<Rightarrow> 'k) option"
  valDup :: "('v \<Rightarrow> 'v) option"
  keyCompare :: "('k \<Rightarrow> 'k \<Rightarrow> bool option) option"
  keyDestructor :: bool
  valDestructor :: bool

type_synonym ('k, 'v) dictEntry = "'k \<times> 'v"

record ('k, 'v) dict =
  dict_table :: "('k, 'v) dictEntry list list"
  dict_type :: "('k, 'v) dictType"
  dict_size :: nat
  dict_sizemask :: nat
  dict_used :: nat

text \<open>An iterator: the chain from the current entry on and from the saved next entry on.\<close>

record ('k, 'v) dictIterator =
  it_index :: int
  it_entry :: "('k, 'v) dictEntry list"
  it_nextEntry :: "('k, 'v) dictEntry list"

datatype dict_status = DICT_OK | DICT_ERR

datatype ('k, 'v) dict_free = FreeKey 'k | FreeVal 'v

definition DICT_HT_INITIAL_SIZE :: nat where
  "DICT_HT_INITIAL_SIZE = 4"

text \<open>\<open>long\<close> has 32 bits on the platform of this port.\<close>

definition LONG_MAX :: nat where
  "LONG_MAX = 2147483647"

section \<open>The macros of dict.h\<close>

definition dictHashKey :: "('k, 'v) dict \<Rightarrow> 'k \<Rightarrow> 32 word option" where
  "dictHashKey ht key = hashFunction (dict_type ht) key"

definition dictCompareHashKeys :: "('k, 'v) dict \<Rightarrow> 'k \<Rightarrow> 'k \<Rightarrow> bool option" where
  "dictCompareHashKeys ht key1 key2 =
     (case keyCompare (dict_type ht) of Some f \<Rightarrow> f key1 key2 | None \<Rightarrow> Some (key1 = key2))"

definition dictSetHashKey :: "('k, 'v) dict \<Rightarrow> 'k \<Rightarrow> 'k" where
  "dictSetHashKey ht key = (case keyDup (dict_type ht) of Some f \<Rightarrow> f key | None \<Rightarrow> key)"

definition dictSetHashVal :: "('k, 'v) dict \<Rightarrow> 'v \<Rightarrow> 'v" where
  "dictSetHashVal ht val = (case valDup (dict_type ht) of Some f \<Rightarrow> f val | None \<Rightarrow> val)"

definition dictFreeEntryKey :: "('k, 'v) dict \<Rightarrow> ('k, 'v) dictEntry \<Rightarrow> ('k, 'v) dict_free list" where
  "dictFreeEntryKey ht e = (if keyDestructor (dict_type ht) then [FreeKey (fst e)] else [])"

definition dictFreeEntryVal :: "('k, 'v) dict \<Rightarrow> ('k, 'v) dictEntry \<Rightarrow> ('k, 'v) dict_free list" where
  "dictFreeEntryVal ht e = (if valDestructor (dict_type ht) then [FreeVal (snd e)] else [])"

section \<open>Operations\<close>

fun hash_loop :: "mem \<Rightarrow> nat \<Rightarrow> 32 word \<Rightarrow> 32 word option" where
  "hash_loop buf 0 hash = Some hash"
| "hash_loop buf (Suc len) hash = do {
     c \<leftarrow> mem_get buf 0;
     hash_loop (drop 1 buf) len ((push_bit 5 hash + hash) + word_of_nat (of_char c)) }"

definition dictGenHashFunction :: "mem \<Rightarrow> nat \<Rightarrow> 32 word option" where
  "dictGenHashFunction buf len = hash_loop buf len 5381"

definition dictReset :: "('k, 'v) dict \<Rightarrow> ('k, 'v) dict" where
  "dictReset ht = ht\<lparr>dict_table := [], dict_size := 0, dict_sizemask := 0, dict_used := 0\<rparr>"

definition dictInit :: "('k, 'v) dict \<Rightarrow> ('k, 'v) dictType \<Rightarrow> ('k, 'v) dict" where
  "dictInit ht type = (dictReset ht)\<lparr>dict_type := type\<rparr>"

text \<open>The fields \<open>malloc\<close> leaves indeterminate are all overwritten by \<open>_dictInit\<close>.\<close>

definition dictCreate :: "('k, 'v) dictType \<Rightarrow> ('k, 'v) dict" where
  "dictCreate type =
     dictInit \<lparr>dict_table = [], dict_type = type, dict_size = 0, dict_sizemask = 0, dict_used = 0\<rparr> type"

text \<open>The loop starts at 4, so the multiplier is never 0.\<close>

function next_power_loop :: "nat \<Rightarrow> nat \<Rightarrow> nat" where
  "next_power_loop sz i = (if sz \<le> i \<or> i = 0 then i else next_power_loop sz (i * 2))"
  by pat_completeness auto
termination by (relation "measure (\<lambda>(sz, i). sz - i)") auto

declare next_power_loop.simps [simp del]

definition dictNextPower :: "nat \<Rightarrow> nat" where
  "dictNextPower sz =
     (if LONG_MAX \<le> sz then LONG_MAX else next_power_loop sz DICT_HT_INITIAL_SIZE)"

fun expand_chain :: "('k, 'v) dict \<Rightarrow> nat \<Rightarrow> ('k, 'v) dictEntry list \<Rightarrow> nat \<Rightarrow> ('k, 'v) dictEntry list list
    \<Rightarrow> (nat \<times> ('k, 'v) dictEntry list list) option" where
  "expand_chain ht msk [] used t = Some (used, t)"
| "expand_chain ht msk (he # nextHe) used t = do {
     hv \<leftarrow> dictHashKey ht (fst he);
     let h = unat hv AND msk;
     chain \<leftarrow> slot_get t h;
     expand_chain ht msk nextHe (c_size_t (int used - 1)) (t[h := he # chain]) }"

function expand_loop :: "('k, 'v) dict \<Rightarrow> nat \<Rightarrow> nat \<Rightarrow> nat \<Rightarrow> ('k, 'v) dictEntry list list
    \<Rightarrow> (nat \<times> ('k, 'v) dictEntry list list) option" where
  "expand_loop ht msk i used t =
     (if i < dict_size ht \<and> 0 < used then do {
        he \<leftarrow> slot_get (dict_table ht) i;
        (used, t) \<leftarrow> expand_chain ht msk he used t;
        expand_loop ht msk (i + 1) used t }
      else Some (used, t))"
  by pat_completeness auto
termination by (relation "measure (\<lambda>(ht, msk, i, used, t). dict_size ht - i)") auto

declare expand_loop.simps [simp del]

definition dictExpand :: "('k, 'v) dict \<Rightarrow> nat \<Rightarrow> (dict_status \<times> ('k, 'v) dict) option" where
  "dictExpand ht sz =
     (let realsize = dictNextPower sz
      in if sz < dict_used ht then Some (DICT_ERR, ht)
         else do {
           let msk = c_size_t (int realsize - 1);
           (used, t) \<leftarrow> expand_loop ht msk 0 (dict_used ht) (replicate realsize []);
           assert_c (used = 0);
           Some (DICT_OK, (dictInit ht (dict_type ht))
             \<lparr>dict_table := t, dict_size := realsize, dict_sizemask := msk, dict_used := dict_used ht\<rparr>) })"

definition dictExpandIfNeeded :: "('k, 'v) dict \<Rightarrow> (dict_status \<times> ('k, 'v) dict) option" where
  "dictExpandIfNeeded ht =
     (if dict_size ht = 0 then dictExpand ht DICT_HT_INITIAL_SIZE
      else if dict_used ht = dict_size ht then dictExpand ht (c_size_t (int (dict_size ht) * 2))
      else Some (DICT_OK, ht))"

text \<open>The walk along a chain: the position of the first entry with an equal key.\<close>

fun chain_find :: "('k, 'v) dict \<Rightarrow> 'k \<Rightarrow> ('k, 'v) dictEntry list \<Rightarrow> nat option option" where
  "chain_find ht key [] = Some None"
| "chain_find ht key (he # next) = do {
     eq \<leftarrow> dictCompareHashKeys ht key (fst he);
     if eq then Some (Some 0) else map_option (map_option Suc) (chain_find ht key next) }"

definition dictKeyIndex :: "('k, 'v) dict \<Rightarrow> 'k \<Rightarrow> (int \<times> ('k, 'v) dict) option" where
  "dictKeyIndex ht key = do {
     (status, ht) \<leftarrow> dictExpandIfNeeded ht;
     if status = DICT_ERR then Some (- 1, ht)
     else do {
       hv \<leftarrow> dictHashKey ht key;
       let h = unat hv AND dict_sizemask ht;
       he \<leftarrow> slot_get (dict_table ht) h;
       hit \<leftarrow> chain_find ht key he;
       Some (if hit = None then c_int (int h) else - 1, ht) } }"

definition dictAdd :: "('k, 'v) dict \<Rightarrow> 'k \<Rightarrow> 'v \<Rightarrow> (dict_status \<times> ('k, 'v) dict) option" where
  "dictAdd ht key val = do {
     (index, ht) \<leftarrow> dictKeyIndex ht key;
     if index = - 1 then Some (DICT_ERR, ht)
     else do {
       assert_c (0 \<le> index);
       chain \<leftarrow> slot_get (dict_table ht) (nat index);
       let entry = (dictSetHashKey ht key, dictSetHashVal ht val);
       Some (DICT_OK, ht\<lparr>dict_table := (dict_table ht)[nat index := entry # chain],
                         dict_used := c_size_t (int (dict_used ht) + 1)\<rparr>) } }"

text \<open>A found entry is its place: the slot and the position in the chain.\<close>

definition dictFind :: "('k, 'v) dict \<Rightarrow> 'k \<Rightarrow> (nat \<times> nat) option option" where
  "dictFind ht key =
     (if dict_size ht = 0 then Some None
      else do {
        hv \<leftarrow> dictHashKey ht key;
        let h = unat hv AND dict_sizemask ht;
        he \<leftarrow> slot_get (dict_table ht) h;
        hit \<leftarrow> chain_find ht key he;
        Some (map_option (Pair h) hit) })"

definition dict_entry :: "('k, 'v) dict \<Rightarrow> nat \<times> nat \<Rightarrow> ('k, 'v) dictEntry option" where
  "dict_entry ht p = do { chain \<leftarrow> slot_get (dict_table ht) (fst p); slot_get chain (snd p) }"

definition dictReplace :: "('k, 'v) dict \<Rightarrow> 'k \<Rightarrow> 'v
    \<Rightarrow> (nat \<times> ('k, 'v) dict \<times> ('k, 'v) dict_free list) option" where
  "dictReplace ht key val = do {
     (status, ht) \<leftarrow> dictAdd ht key val;
     if status = DICT_OK then Some (1, ht, [])
     else do {
       found \<leftarrow> dictFind ht key;
       p \<leftarrow> found;
       auxentry \<leftarrow> dict_entry ht p;
       let entry = (fst auxentry, dictSetHashVal ht val);
       let ht' = ht\<lparr>dict_table := (dict_table ht)[fst p := (dict_table ht ! fst p)[snd p := entry]]\<rparr>;
       Some (0, ht', dictFreeEntryVal ht' auxentry) } }"

fun chain_delete :: "('k, 'v) dict \<Rightarrow> 'k \<Rightarrow> ('k, 'v) dictEntry list
    \<Rightarrow> (('k, 'v) dictEntry \<times> ('k, 'v) dictEntry list) option option" where
  "chain_delete ht key [] = Some None"
| "chain_delete ht key (de # next) = do {
     eq \<leftarrow> dictCompareHashKeys ht key (fst de);
     if eq then Some (Some (de, next))
     else map_option (map_option (\<lambda>(d, r). (d, de # r))) (chain_delete ht key next) }"

definition dictDelete :: "('k, 'v) dict \<Rightarrow> 'k
    \<Rightarrow> (dict_status \<times> ('k, 'v) dict \<times> ('k, 'v) dict_free list) option" where
  "dictDelete ht key =
     (if dict_size ht = 0 then Some (DICT_ERR, ht, [])
      else do {
        hv \<leftarrow> dictHashKey ht key;
        let h = unat hv AND dict_sizemask ht;
        chain \<leftarrow> slot_get (dict_table ht) h;
        r \<leftarrow> chain_delete ht key chain;
        Some (case r of
            None \<Rightarrow> (DICT_ERR, ht, [])
          | Some (de, rest) \<Rightarrow>
              (DICT_OK,
               ht\<lparr>dict_table := (dict_table ht)[h := rest],
                  dict_used := c_size_t (int (dict_used ht) - 1)\<rparr>,
               dictFreeEntryKey ht de @ dictFreeEntryVal ht de)) })"

fun clear_chain :: "('k, 'v) dict \<Rightarrow> ('k, 'v) dictEntry list \<Rightarrow> nat \<Rightarrow> nat \<times> ('k, 'v) dict_free list" where
  "clear_chain ht [] used = (used, [])"
| "clear_chain ht (he # nextHe) used =
     (let (used', ev) = clear_chain ht nextHe (c_size_t (int used - 1))
      in (used', dictFreeEntryKey ht he @ dictFreeEntryVal ht he @ ev))"

function clear_loop :: "('k, 'v) dict \<Rightarrow> nat \<Rightarrow> nat \<Rightarrow> ('k, 'v) dict_free list option" where
  "clear_loop ht i used =
     (if i < dict_size ht \<and> 0 < used then do {
        he \<leftarrow> slot_get (dict_table ht) i;
        let (used, ev) = clear_chain ht he used;
        ev' \<leftarrow> clear_loop ht (i + 1) used;
        Some (ev @ ev') }
      else Some [])"
  by pat_completeness auto
termination by (relation "measure (\<lambda>(ht, i, used). dict_size ht - i)") auto

declare clear_loop.simps [simp del]

definition dictClear :: "('k, 'v) dict \<Rightarrow> (('k, 'v) dict \<times> ('k, 'v) dict_free list) option" where
  "dictClear ht = do { ev \<leftarrow> clear_loop ht 0 (dict_used ht); Some (dictReset ht, ev) }"

text \<open>\<open>dictRelease\<close> frees the table object too; what is observable of it are the destructor calls.\<close>

definition dictRelease :: "('k, 'v) dict \<Rightarrow> ('k, 'v) dict_free list option" where
  "dictRelease ht = do { (ht, ev) \<leftarrow> dictClear ht; Some ev }"

definition dictGetIterator :: "('k, 'v) dictIterator" where
  "dictGetIterator = \<lparr>it_index = - 1, it_entry = [], it_nextEntry = []\<rparr>"

function dictNext :: "('k, 'v) dict \<Rightarrow> ('k, 'v) dictIterator
    \<Rightarrow> (('k, 'v) dictEntry option \<times> ('k, 'v) dictIterator) option" where
  "dictNext ht iter =
     (if it_entry iter = [] then
        (let index = it_index iter + 1; iter = iter\<lparr>it_index := index\<rparr>
         in if c_int (int (dict_size ht)) \<le> index then Some (None, iter)
            else do {
              assert_c (0 \<le> index);
              entry \<leftarrow> slot_get (dict_table ht) (nat index);
              case entry of
                [] \<Rightarrow> dictNext ht (iter\<lparr>it_entry := []\<rparr>)
              | e # next \<Rightarrow> Some (Some e, iter\<lparr>it_entry := entry, it_nextEntry := next\<rparr>) })
      else
        (case it_nextEntry iter of
           [] \<Rightarrow> dictNext ht (iter\<lparr>it_entry := []\<rparr>)
         | e # next \<Rightarrow> Some (Some e, iter\<lparr>it_entry := it_nextEntry iter, it_nextEntry := next\<rparr>)))"
  by pat_completeness auto
termination
  by (relation "measure (\<lambda>(ht, iter). 2 * nat (c_int (int (dict_size ht)) - it_index iter)
        + (if it_entry iter = [] then 0 else 1))") (auto simp: Let_def)

declare dictNext.simps [simp del]

section \<open>Invariant and abstraction\<close>

text \<open>
  The keys of one table are compared up to \<open>canon\<close> (for string keys, their bytes). The
  abstract value of a table is the finite map from canonical keys to values.
\<close>

definition slot_of :: "('k, 'v) dictType \<Rightarrow> nat \<Rightarrow> 'k \<Rightarrow> nat" where
  "slot_of T msk k = unat (the (hashFunction T k)) AND msk"

definition placed :: "('k, 'v) dictType \<Rightarrow> nat \<Rightarrow> ('k, 'v) dictEntry list list \<Rightarrow> bool" where
  "placed T msk t \<longleftrightarrow> (\<forall>i<length t. \<forall>e\<in>set (t ! i). slot_of T msk (fst e) = i)"

definition size_ok :: "nat \<Rightarrow> nat \<Rightarrow> bool" where
  "size_ok n msk \<longleftrightarrow> n = 0 \<and> msk = 0 \<or> (\<exists>k. 2 \<le> k \<and> k \<le> 30 \<and> n = 2 ^ k \<and> msk = 2 ^ k - 1)"

definition dict_wf :: "('k, 'v) dictType \<Rightarrow> ('k \<Rightarrow> bool) \<Rightarrow> ('k \<Rightarrow> 'c) \<Rightarrow> ('k, 'v) dict \<Rightarrow> bool" where
  "dict_wf T valid canon ht \<longleftrightarrow>
     dict_type ht = T \<and> length (dict_table ht) = dict_size ht \<and>
     size_ok (dict_size ht) (dict_sizemask ht) \<and>
     dict_used ht = length (concat (dict_table ht)) \<and> dict_used ht \<le> dict_size ht \<and>
     placed T (dict_sizemask ht) (dict_table ht) \<and>
     (\<forall>e\<in>set (concat (dict_table ht)). valid (fst e)) \<and>
     distinct (map (canon \<circ> fst) (concat (dict_table ht)))"

definition canon_entries :: "('k \<Rightarrow> 'c) \<Rightarrow> ('k, 'v) dictEntry list \<Rightarrow> ('c \<times> 'v) list" where
  "canon_entries canon es = map (\<lambda>e. (canon (fst e), snd e)) es"

definition dict_map :: "('k \<Rightarrow> 'c) \<Rightarrow> ('k, 'v) dict \<Rightarrow> ('c \<rightharpoonup> 'v)" where
  "dict_map canon ht = map_of (canon_entries canon (concat (dict_table ht)))"

section \<open>Powers of two and slots\<close>

lemma and_mask_nat: "(n :: nat) AND (2 ^ k - 1) = n mod 2 ^ k"
  by (metis take_bit_eq_mask take_bit_eq_mod mask_eq_exp_minus_1)

lemma slot_of_less: "slot_of T (2 ^ k - 1) key < 2 ^ k"
  unfolding slot_of_def and_mask_nat by simp

lemma next_power_loop_pow2:
  assumes "sz \<le> 2 ^ m" and "k \<le> m"
  shows "\<exists>j. k \<le> j \<and> j \<le> m \<and> next_power_loop sz (2 ^ k) = 2 ^ j \<and> sz \<le> 2 ^ j"
  using assms(2)
proof (induction "m - k" arbitrary: k)
  case 0
  then show ?case using assms(1) by (auto simp: next_power_loop.simps [of sz "2 ^ k"])
next
  case (Suc d)
  show ?case
  proof (cases "sz \<le> 2 ^ k")
    case True
    then show ?thesis using Suc.prems by (auto simp: next_power_loop.simps [of sz "2 ^ k"])
  next
    case False
    have "next_power_loop sz (2 ^ k) = next_power_loop sz (2 ^ Suc k)"
      using False by (subst next_power_loop.simps) (simp add: mult.commute)
    moreover have "d = m - Suc k" "Suc k \<le> m" using Suc.hyps(2) by auto
    ultimately show ?thesis using Suc.hyps(1) [of "Suc k"] by (auto dest: Suc_leD)
  qed
qed

lemma dictNextPower_pow2:
  assumes "sz \<le> 2 ^ 30"
  obtains k where "2 \<le> k" "k \<le> 30" "dictNextPower sz = 2 ^ k" "sz \<le> 2 ^ k"
proof -
  have "(2 :: nat) \<le> 30" by simp
  from next_power_loop_pow2 [OF assms this] obtain k where
    "2 \<le> k" "k \<le> 30" "next_power_loop sz (2 ^ 2) = 2 ^ k" "sz \<le> 2 ^ k" by blast
  with assms show ?thesis
    by (intro that [of k]) (simp_all add: dictNextPower_def LONG_MAX_def DICT_HT_INITIAL_SIZE_def)
qed

section \<open>Chains inside a table\<close>

lemma table_split: "i < length t \<Longrightarrow> concat t = concat (take i t) @ t ! i @ concat (drop (Suc i) t)"
  by (metis concat.simps(2) concat_append id_take_nth_drop)

lemma table_update_split:
  "i < length t \<Longrightarrow> concat (t[i := c]) = concat (take i t) @ c @ concat (drop (Suc i) t)"
  by (simp add: upd_conv_take_nth_drop)

lemma mset_table_push:
  "i < length t \<Longrightarrow> mset (concat (t[i := e # t ! i])) = add_mset e (mset (concat t))"
  by (simp add: table_update_split table_split [of i t])

lemma placed_push:
  "placed T msk t \<Longrightarrow> placed T msk (t[slot_of T msk (fst e) := e # t ! slot_of T msk (fst e)])"
  unfolding placed_def by (metis length_list_update list_update_beyond nth_list_update_eq
      nth_list_update_neq not_le set_ConsD)

lemma placed_other_slots:
  assumes "placed T msk t" and "i = slot_of T msk k" and "i < length t"
    and "e \<in> set (concat (take i t)) \<union> set (concat (drop (Suc i) t))"
  shows "slot_of T msk (fst e) \<noteq> slot_of T msk k"
proof -
  from assms(4) have "\<exists>j. j < length t \<and> j \<noteq> i \<and> e \<in> set (t ! j)"
  proof
    assume "e \<in> set (concat (take i t))"
    then obtain c where "c \<in> set (take i t)" "e \<in> set c" by auto
    then obtain j where "j < i" "e \<in> set (t ! j)"
      using assms(3) by (auto simp: in_set_conv_nth [of c])
    then show ?thesis using assms(3) by (intro exI [of _ j]) auto
  next
    assume "e \<in> set (concat (drop (Suc i) t))"
    then obtain c where "c \<in> set (drop (Suc i) t)" "e \<in> set c" by auto
    then obtain j where "j < length t - Suc i" "e \<in> set (t ! (Suc i + j))"
      by (auto simp: in_set_conv_nth [of c])
    then show ?thesis by (intro exI [of _ "Suc i + j"]) auto
  qed
  with assms show ?thesis by (auto simp: placed_def)
qed

lemma notin_comp_image: "\<forall>e\<in>X. f (g e) \<noteq> c \<Longrightarrow> c \<notin> (f \<circ> g) ` X"
  by auto

lemma disjoint_insert_sub: "c \<notin> Z \<Longrightarrow> X \<subseteq> insert c Y \<Longrightarrow> Y \<inter> Z = {} \<Longrightarrow> X \<inter> Z = {}"
  by blast

lemma distinct_middle:
  "distinct (map f (A @ b @ B)) \<longleftrightarrow>
     distinct (map f (A @ B)) \<and> distinct (map f b) \<and> f ` set b \<inter> f ` (set A \<union> set B) = {}"
  unfolding map_append distinct_append set_append set_map image_Un by blast

section \<open>Clearing and iterating\<close>

lemma clear_chain_eq:
  "length chain \<le> used \<Longrightarrow> used < 2 ^ 64 \<Longrightarrow> clear_chain ht chain used =
     (used - length chain, concat (map (\<lambda>e. dictFreeEntryKey ht e @ dictFreeEntryVal ht e) chain))"
  by (induction chain arbitrary: used) (simp_all add: c_size_t_dec)

lemma clear_loop_eq:
  assumes "length (dict_table ht) = dict_size ht" and "i \<le> dict_size ht"
    and "used = length (concat (drop i (dict_table ht)))" and "used < 2 ^ 64"
  shows "clear_loop ht i used
    = Some (concat (map (\<lambda>e. dictFreeEntryKey ht e @ dictFreeEntryVal ht e) (concat (drop i (dict_table ht)))))"
  using assms(2-)
proof (induction "dict_size ht - i" arbitrary: i used)
  case 0
  then show ?case using assms(1) by (simp add: clear_loop.simps)
next
  case (Suc d)
  then have i: "i < dict_size ht" by simp
  show ?case
  proof (cases "used = 0")
    case True
    then have "concat (drop i (dict_table ht)) = []" using Suc.prems(2) by (metis length_0_conv)
    then show ?thesis using True by (subst clear_loop.simps) (simp del: concat_eq_Nil_conv)
  next
    case False
    let ?c = "dict_table ht ! i" and ?r = "concat (drop (Suc i) (dict_table ht))"
    have d: "drop i (dict_table ht) = ?c # drop (Suc i) (dict_table ht)"
      using i assms(1) by (simp add: Cons_nth_drop_Suc)
    have used: "used = length ?c + length ?r" using Suc.prems(2) d by simp
    have IH: "clear_loop ht (Suc i) (length ?r)
        = Some (concat (map (\<lambda>e. dictFreeEntryKey ht e @ dictFreeEntryVal ht e) ?r))"
      using Suc.hyps(2) Suc.prems(3) used i by (intro Suc.hyps(1)) auto
    have "clear_chain ht ?c used = (length ?r, concat (map (\<lambda>e. dictFreeEntryKey ht e @ dictFreeEntryVal ht e) ?c))"
      using clear_chain_eq [of ?c used ht] used Suc.prems(3) by simp
    then show ?thesis
      using i False assms(1) IH d by (subst clear_loop.simps) (simp add: slot_get_def)
  qed
qed

text \<open>What an iterator has still to return.\<close>

definition it_rest :: "('k, 'v) dict \<Rightarrow> ('k, 'v) dictIterator \<Rightarrow> ('k, 'v) dictEntry list" where
  "it_rest ht iter =
     (if it_entry iter = [] then [] else it_nextEntry iter) @ concat (drop (nat (it_index iter + 1)) (dict_table ht))"

lemma dictNext_ok:
  assumes "length (dict_table ht) = dict_size ht" and "dict_size ht \<le> 2 ^ 30" and "- 1 \<le> it_index iter"
  shows "case it_rest ht iter of
      [] \<Rightarrow> \<exists>it'. dictNext ht iter = Some (None, it')
    | e # es \<Rightarrow> \<exists>it'. dictNext ht iter = Some (Some e, it') \<and> it_rest ht it' = es \<and> - 1 \<le> it_index it'"
  using assms
proof (induction ht iter rule: dictNext.induct)
  case (1 ht iter)
  have sz: "c_int (int (dict_size ht)) = int (dict_size ht)" using "1.prems"(2) by (intro c_int_id) simp_all
  show ?case
  proof (cases "it_entry iter = []")
    case False
    show ?thesis
    proof (cases "it_nextEntry iter")
      case Nil
      have "it_rest ht (iter\<lparr>it_entry := []\<rparr>) = it_rest ht iter" using False Nil by (simp add: it_rest_def)
      moreover have "dictNext ht iter = dictNext ht (iter\<lparr>it_entry := []\<rparr>)"
        using False Nil by (subst dictNext.simps) simp
      ultimately show ?thesis using "1.IH"(2) [OF False Nil] "1.prems" by (auto split: list.splits)
    next
      case (Cons e es)
      then show ?thesis using False "1.prems"(3)
        by (subst dictNext.simps) (simp add: it_rest_def)
    qed
  next
    case True
    let ?j = "it_index iter + 1"
    let ?it = "iter\<lparr>it_index := ?j\<rparr>"
    show ?thesis
    proof (cases "int (dict_size ht) \<le> ?j")
      case fin: True
      then show ?thesis using True sz "1.prems"(1) by (subst dictNext.simps) (simp add: it_rest_def)
    next
      case False
      then have j: "nat ?j < dict_size ht" "0 \<le> ?j" using "1.prems"(3) by auto
      let ?c = "dict_table ht ! nat ?j"
      have d: "drop (nat ?j) (dict_table ht) = ?c # drop (nat (?j + 1)) (dict_table ht)"
        using j "1.prems"(1) Cons_nth_drop_Suc [of "nat ?j" "dict_table ht"]
        by (simp add: Suc_nat_eq_nat_zadd1 algebra_simps)
      have get: "slot_get (dict_table ht) (nat ?j) = Some ?c" using j "1.prems"(1) by (simp add: slot_get_def)
      show ?thesis
      proof (cases ?c)
        case Nil
        have "it_rest ht (?it\<lparr>it_entry := []\<rparr>) = it_rest ht iter"
          using True d Nil by (simp add: it_rest_def)
        moreover have "dictNext ht iter = dictNext ht (?it\<lparr>it_entry := []\<rparr>)"
          using True False sz j(2) get Nil by (subst dictNext.simps) (simp add: Let_def)
        moreover have "- 1 \<le> it_index (?it\<lparr>it_entry := []\<rparr>)" using j(2) by simp
        ultimately show ?thesis
          using "1.IH"(1) [OF True refl refl _ _ get Nil] False sz j(2) "1.prems"(1,2) by (auto split: list.splits)
      next
        case (Cons e es)
        then show ?thesis using True False sz j(2) get d
          by (subst dictNext.simps) (simp add: it_rest_def Let_def)
      qed
    qed
  qed
qed

text \<open>The loop \<open>while ((de = dictNext(it)) != NULL)\<close> of the clients.\<close>

fun dict_iterate :: "nat \<Rightarrow> ('k, 'v) dict \<Rightarrow> ('k, 'v) dictIterator \<Rightarrow> ('k, 'v) dictEntry list option" where
  "dict_iterate 0 ht iter = None"
| "dict_iterate (Suc n) ht iter = do {
     (de, iter) \<leftarrow> dictNext ht iter;
     (case de of
        None \<Rightarrow> Some []
      | Some e \<Rightarrow> do { es \<leftarrow> dict_iterate n ht iter; Some (e # es) }) }"

lemma dict_iterate_eq:
  assumes "length (dict_table ht) = dict_size ht" and "dict_size ht \<le> 2 ^ 30" and "- 1 \<le> it_index iter"
    and "length (it_rest ht iter) < n"
  shows "dict_iterate n ht iter = Some (it_rest ht iter)"
  using assms(3,4)
proof (induction n arbitrary: iter)
  case (Suc n)
  from dictNext_ok [OF assms(1,2) Suc.prems(1)] Suc.IH Suc.prems(2) show ?case
    by (cases "it_rest ht iter") auto
qed simp

section \<open>The table as a finite map\<close>

text \<open>
  What the table asks of the type functions: hashing and comparing valid keys never fault,
  comparison is equality of canonical keys, equal keys have equal hashes, and duplication
  keeps the canonical key.
\<close>

locale hashed_keys =
  fixes T :: "('k, 'v) dictType" and valid :: "'k \<Rightarrow> bool" and canon :: "'k \<Rightarrow> 'c"
  assumes hash_total: "valid k \<Longrightarrow> \<exists>h. hashFunction T k = Some h"
    and hash_canon: "valid a \<Longrightarrow> valid b \<Longrightarrow> canon a = canon b \<Longrightarrow> hashFunction T a = hashFunction T b"
    and compare_canon: "valid a \<Longrightarrow> valid b \<Longrightarrow>
      (case keyCompare T of Some f \<Rightarrow> f a b | None \<Rightarrow> Some (a = b)) = Some (canon a = canon b)"
    and dup_canon: "valid k \<Longrightarrow> keyDup T = Some f \<Longrightarrow> valid (f k) \<and> canon (f k) = canon k"
begin

abbreviation wf :: "('k, 'v) dict \<Rightarrow> bool" where "wf \<equiv> dict_wf T valid canon"
abbreviation \<alpha> :: "('k, 'v) dict \<Rightarrow> 'c \<rightharpoonup> 'v" where "\<alpha> \<equiv> dict_map canon"
abbreviation entries :: "('k, 'v) dict \<Rightarrow> ('k, 'v) dictEntry list" where
  "entries ht \<equiv> concat (dict_table ht)"

lemma hash_slot:
  "valid k \<Longrightarrow> dict_type ht = T \<Longrightarrow> \<exists>h. dictHashKey ht k = Some h \<and> unat h AND msk = slot_of T msk k"
  using hash_total [of k] by (auto simp: dictHashKey_def slot_of_def)

lemma slot_canon: "valid a \<Longrightarrow> valid b \<Longrightarrow> canon a = canon b \<Longrightarrow> slot_of T msk a = slot_of T msk b"
  by (simp add: slot_of_def hash_canon [of a b])

lemma compare_eq:
  "valid a \<Longrightarrow> valid b \<Longrightarrow> dict_type ht = T \<Longrightarrow> dictCompareHashKeys ht a b = Some (canon a = canon b)"
  by (simp add: dictCompareHashKeys_def compare_canon)

lemma set_key: "valid k \<Longrightarrow> dict_type ht = T \<Longrightarrow>
    valid (dictSetHashKey ht k) \<and> canon (dictSetHashKey ht k) = canon k"
  by (auto simp: dictSetHashKey_def dup_canon split: option.split)

lemma expand_chain_ok:
  assumes "dict_type ht = T" and "\<forall>e\<in>set chain. valid (fst e)" and "length t = 2 ^ k"
    and "placed T (2 ^ k - 1) t" and "length chain \<le> used" and "used < 2 ^ 64"
  shows "\<exists>t'. expand_chain ht (2 ^ k - 1) chain used t = Some (used - length chain, t') \<and>
    length t' = length t \<and> placed T (2 ^ k - 1) t' \<and> mset (concat t') = mset chain + mset (concat t)"
  using assms(2-)
proof (induction chain arbitrary: used t)
  case Nil
  then show ?case by simp
next
  case (Cons e chain)
  let ?h = "slot_of T (2 ^ k - 1) (fst e)" and ?u = "used - 1"
  let ?t = "t[?h := e # t ! ?h]"
  obtain hv where hv: "dictHashKey ht (fst e) = Some hv" "unat hv AND (2 ^ k - 1) = ?h"
    using hash_slot [of "fst e" ht] Cons.prems(1) assms(1) by auto
  have h: "?h < length t" using slot_of_less Cons.prems(2) by simp
  have u: "c_size_t (int used - 1) = ?u"
    using Cons.prems(4,5) by (intro c_size_t_dec) auto
  have "\<exists>t'. expand_chain ht (2 ^ k - 1) chain ?u ?t = Some (?u - length chain, t') \<and>
      length t' = length ?t \<and> placed T (2 ^ k - 1) t' \<and> mset (concat t') = mset chain + mset (concat ?t)"
    using Cons.prems placed_push [OF Cons.prems(3), of e] by (intro Cons.IH) auto
  then show ?case using hv h u by (simp add: slot_get_def mset_table_push Let_def)
qed

lemma expand_loop_ok:
  assumes "dict_type ht = T" and "\<forall>e\<in>set (entries ht). valid (fst e)" and "length t = 2 ^ k"
    and "length (dict_table ht) = dict_size ht" and "i \<le> dict_size ht"
    and "placed T (2 ^ k - 1) t" and "used = length (concat (drop i (dict_table ht)))" and "used < 2 ^ 64"
  shows "\<exists>t'. expand_loop ht (2 ^ k - 1) i used t = Some (0, t') \<and> length t' = length t \<and>
    placed T (2 ^ k - 1) t' \<and> mset (concat t') = mset (concat (drop i (dict_table ht))) + mset (concat t)"
  using assms(3-)
proof (induction "dict_size ht - i" arbitrary: i used t)
  case 0
  then show ?case by (simp add: expand_loop.simps)
next
  case (Suc d)
  then have i: "i < dict_size ht" by simp
  show ?case
  proof (cases "used = 0")
    case True
    then show ?thesis using Suc.prems by (subst expand_loop.simps) simp
  next
    case False
    let ?c = "dict_table ht ! i"
    have d: "drop i (dict_table ht) = ?c # drop (Suc i) (dict_table ht)"
      using i Suc.prems(2) by (simp add: Cons_nth_drop_Suc)
    have "\<forall>e\<in>set ?c. valid (fst e)" using assms(2) i Suc.prems(2) by auto
    from expand_chain_ok [OF assms(1) this Suc.prems(1,4), of used] obtain t1 where
      t1: "expand_chain ht (2 ^ k - 1) ?c used t = Some (used - length ?c, t1)" "length t1 = length t"
        "placed T (2 ^ k - 1) t1" "mset (concat t1) = mset ?c + mset (concat t)"
      using Suc.prems(5,6) d by auto
    have "\<exists>t'. expand_loop ht (2 ^ k - 1) (Suc i) (used - length ?c) t1 = Some (0, t') \<and> length t' = length t1 \<and>
        placed T (2 ^ k - 1) t' \<and> mset (concat t') = mset (concat (drop (Suc i) (dict_table ht))) + mset (concat t1)"
      using Suc.hyps(2) Suc.prems t1 i d by (intro Suc.hyps(1)) auto
    then show ?thesis
      using i False Suc.prems(2) t1 d by (subst expand_loop.simps) (auto simp: slot_get_def)
  qed
qed

lemma map_of_mset_eq:
  assumes "mset es = mset fs" and "distinct (map (canon \<circ> fst) fs)"
  shows "map_of (canon_entries canon es) = map_of (canon_entries canon fs)"
proof -
  have "mset (map (canon \<circ> fst) es) = mset (map (canon \<circ> fst) fs)" using assms(1) by simp
  then have "distinct (map (canon \<circ> fst) es)" using assms(2) mset_eq_imp_distinct_iff by blast
  moreover have "set es = set fs" using assms(1) by (rule mset_eq_setD)
  ultimately show ?thesis
    using assms(2) by (subst map_of_inject_set) (simp_all add: canon_entries_def comp_def)
qed

lemma expand_ok:
  assumes "wf ht" and "dict_used ht \<le> sz" and "sz \<le> 2 ^ 30"
  shows "\<exists>ht'. dictExpand ht sz = Some (DICT_OK, ht') \<and> wf ht' \<and> \<alpha> ht' = \<alpha> ht \<and>
    dict_used ht' = dict_used ht \<and> sz \<le> dict_size ht' \<and> 0 < dict_size ht' \<and>
    mset (entries ht') = mset (entries ht)"
proof -
  obtain k where k: "2 \<le> k" "k \<le> 30" "dictNextPower sz = 2 ^ k" "sz \<le> 2 ^ k"
    using dictNextPower_pow2 [OF assms(3)] .
  have "(2 :: nat) ^ k \<le> 2 ^ 30" using k(2) by (intro power_increasing) auto
  then have "(2 :: nat) ^ k < 18446744073709551616" by simp
  then have msk: "c_size_t (int (2 ^ k) - 1) = 2 ^ k - 1"
    using c_size_t_of_nat [of "2 ^ k - 1"] by (simp add: of_nat_diff)
  have wf: "dict_type ht = T" "\<forall>e\<in>set (entries ht). valid (fst e)" "length (dict_table ht) = dict_size ht"
    "dict_used ht = length (entries ht)" "distinct (map (canon \<circ> fst) (entries ht))"
    using assms(1) by (simp_all add: dict_wf_def)
  have "dict_used ht < 2 ^ 64" using assms(2,3) by simp
  moreover have "placed T (2 ^ k - 1) (replicate (2 ^ k) [])" by (simp add: placed_def)
  ultimately obtain t where t: "expand_loop ht (2 ^ k - 1) 0 (dict_used ht) (replicate (2 ^ k) []) = Some (0, t)"
    "length t = 2 ^ k" "placed T (2 ^ k - 1) t" "mset (concat t) = mset (entries ht)"
    using expand_loop_ok [OF wf(1,2) _ wf(3), of "replicate (2 ^ k) []" k 0 "dict_used ht"] wf(4) by auto
  let ?ht = "(dictInit ht (dict_type ht))\<lparr>dict_table := t, dict_size := 2 ^ k, dict_sizemask := 2 ^ k - 1,
    dict_used := dict_used ht\<rparr>"
  have run: "dictExpand ht sz = Some (DICT_OK, ?ht)"
    using t(1) k(3) msk assms(2) by (simp add: dictExpand_def Let_def)
  have "length (concat t) = length (entries ht)" using t(4) by (metis size_mset)
  moreover have "distinct (map (canon \<circ> fst) (concat t))"
    using t(4) wf(5) by (metis mset_eq_imp_distinct_iff mset_map)
  moreover have "set (concat t) = set (entries ht)" using t(4) by (rule mset_eq_setD)
  ultimately have "wf ?ht"
    using wf t k assms(2) unfolding dict_wf_def size_ok_def by (auto simp: dictInit_def dictReset_def)
  moreover have "\<alpha> ?ht = \<alpha> ht" using map_of_mset_eq [OF t(4) wf(5)] by (simp add: dict_map_def)
  ultimately show ?thesis using run t(4) k(4) by (auto simp: dictInit_def dictReset_def)
qed

lemma map_of_middle:
  assumes "\<forall>e\<in>set A \<union> set B. canon (fst e) \<noteq> c"
  shows "map_of (canon_entries canon (A @ b @ B)) c = map_of (canon_entries canon b) c"
    and "map_of (canon_entries canon b') = (map_of (canon_entries canon b))(c := x) \<Longrightarrow>
      map_of (canon_entries canon (A @ b' @ B)) = (map_of (canon_entries canon (A @ b @ B)))(c := x)"
proof -
  have none: "map_of (canon_entries canon A) c = None" "map_of (canon_entries canon B) c = None"
    using assms by (force simp: canon_entries_def map_of_eq_None_iff)+
  have split: "map_of (canon_entries canon (A @ d @ B))
      = map_of (canon_entries canon B) ++ map_of (canon_entries canon d) ++ map_of (canon_entries canon A)" for d
    by (simp add: canon_entries_def)
  show "map_of (canon_entries canon (A @ b @ B)) c = map_of (canon_entries canon b) c"
    using none by (simp add: split map_add_def split: option.split)
  assume b': "map_of (canon_entries canon b') = (map_of (canon_entries canon b))(c := x)"
  show "map_of (canon_entries canon (A @ b' @ B)) = (map_of (canon_entries canon (A @ b @ B)))(c := x)"
    using none unfolding split b' by (intro ext) (simp add: map_add_def split: option.split)
qed

text \<open>A key occurs in no other slot than its own.\<close>

lemma slot_facts:
  assumes "wf ht" and "0 < dict_size ht" and "valid k"
  defines "i \<equiv> slot_of T (dict_sizemask ht) k" and "t \<equiv> dict_table ht"
  shows "i < length t" and "i < 2 ^ 30"
    and "\<forall>e\<in>set (concat (take i t)) \<union> set (concat (drop (Suc i) t)). canon (fst e) \<noteq> canon k"
    and "\<alpha> ht (canon k) = map_of (canon_entries canon (t ! i)) (canon k)"
    and "\<forall>e\<in>set (t ! i). valid (fst e)" and "distinct (map (canon \<circ> fst) (t ! i))"
proof -
  obtain n where n: "n \<le> 30" "dict_size ht = 2 ^ n" "dict_sizemask ht = 2 ^ n - 1"
    using assms(1,2) by (auto simp: dict_wf_def size_ok_def)
  have i: "i < 2 ^ n" using slot_of_less n(3) by (simp add: i_def)
  have len: "length t = 2 ^ n" using assms(1) n(2) by (simp add: dict_wf_def t_def)
  show il: "i < length t" using i len by simp
  show "i < 2 ^ 30" using i n(1) by (metis order_less_le_trans power_increasing one_le_numeral)
  have split: "concat t = concat (take i t) @ t ! i @ concat (drop (Suc i) t)" using il by (rule table_split)
  have wf: "placed T (dict_sizemask ht) t" "\<forall>e\<in>set (concat t). valid (fst e)"
      "distinct (map (canon \<circ> fst) (concat t))"
    using assms(1) by (simp_all add: dict_wf_def t_def)
  show other: "\<forall>e\<in>set (concat (take i t)) \<union> set (concat (drop (Suc i) t)). canon (fst e) \<noteq> canon k"
  proof
    fix e assume e: "e \<in> set (concat (take i t)) \<union> set (concat (drop (Suc i) t))"
    then have "valid (fst e)" using wf(2) split by (metis Un_iff set_append)
    moreover have "slot_of T (dict_sizemask ht) (fst e) \<noteq> slot_of T (dict_sizemask ht) k"
      using placed_other_slots [OF wf(1) _ il e] by (simp add: i_def)
    ultimately show "canon (fst e) \<noteq> canon k" using slot_canon assms(3) by blast
  qed
  show "\<alpha> ht (canon k) = map_of (canon_entries canon (t ! i)) (canon k)"
    using map_of_middle(1) [OF other] split by (simp add: dict_map_def t_def)
  show "\<forall>e\<in>set (t ! i). valid (fst e)" using wf(2) il by auto
  show "distinct (map (canon \<circ> fst) (t ! i))" using wf(3) unfolding split by simp
qed

lemma chain_find_ok:
  assumes "dict_type ht = T" and "valid k" and "\<forall>e\<in>set chain. valid (fst e)"
  shows "\<exists>r. chain_find ht k chain = Some r \<and>
    (case r of None \<Rightarrow> \<forall>e\<in>set chain. canon (fst e) \<noteq> canon k
     | Some p \<Rightarrow> p < length chain \<and> canon (fst (chain ! p)) = canon k) \<and>
    map_of (canon_entries canon chain) (canon k) = map_option (\<lambda>p. snd (chain ! p)) r"
  using assms(3)
proof (induction chain)
  case Nil
  then show ?case by (simp add: canon_entries_def)
next
  case (Cons e chain)
  then obtain r where "chain_find ht k chain = Some r"
    "case r of None \<Rightarrow> \<forall>e\<in>set chain. canon (fst e) \<noteq> canon k
     | Some p \<Rightarrow> p < length chain \<and> canon (fst (chain ! p)) = canon k"
    "map_of (canon_entries canon chain) (canon k) = map_option (\<lambda>p. snd (chain ! p)) r"
    by auto
  then show ?case
    using compare_eq [OF assms(2) _ assms(1), of "fst e"] Cons.prems
    by (cases r) (auto simp: canon_entries_def)
qed

lemma find_ok:
  assumes "wf ht" and "valid k"
  shows "\<exists>r. dictFind ht k = Some r \<and>
    (case r of None \<Rightarrow> \<alpha> ht (canon k) = None
     | Some p \<Rightarrow> \<exists>e. dict_entry ht p = Some e \<and> canon (fst e) = canon k \<and> \<alpha> ht (canon k) = Some (snd e))"
proof (cases "dict_size ht = 0")
  case True
  then show ?thesis using assms(1) by (simp add: dictFind_def dict_map_def dict_wf_def canon_entries_def)
next
  case False
  let ?i = "slot_of T (dict_sizemask ht) k"
  have T: "dict_type ht = T" using assms(1) by (simp add: dict_wf_def)
  note slot = slot_facts [OF assms(1) _ assms(2)]
  obtain hv where hv: "dictHashKey ht k = Some hv" "unat hv AND dict_sizemask ht = ?i"
    using hash_slot [OF assms(2) T] by blast
  obtain r where r: "chain_find ht k (dict_table ht ! ?i) = Some r"
    "case r of None \<Rightarrow> \<forall>e\<in>set (dict_table ht ! ?i). canon (fst e) \<noteq> canon k
     | Some p \<Rightarrow> p < length (dict_table ht ! ?i) \<and> canon (fst (dict_table ht ! ?i ! p)) = canon k"
    "map_of (canon_entries canon (dict_table ht ! ?i)) (canon k) = map_option (\<lambda>p. snd (dict_table ht ! ?i ! p)) r"
    using chain_find_ok [OF T assms(2) slot(5)] False by auto
  have "dictFind ht k = Some (map_option (Pair ?i) r)"
    using False hv r(1) slot(1) by (simp add: dictFind_def slot_get_def)
  then show ?thesis
    using r(2,3) slot(1,4) False by (cases r) (auto simp: dict_entry_def slot_get_def)
qed

lemma expandIfNeeded_ok:
  assumes "wf ht" and "dict_size ht \<le> 2 ^ 29"
  shows "\<exists>ht'. dictExpandIfNeeded ht = Some (DICT_OK, ht') \<and> wf ht' \<and> \<alpha> ht' = \<alpha> ht \<and>
    dict_used ht' = dict_used ht \<and> dict_used ht' < dict_size ht' \<and> mset (entries ht') = mset (entries ht)"
proof -
  have u: "dict_used ht \<le> dict_size ht" using assms(1) by (simp add: dict_wf_def)
  consider "dict_size ht = 0" | "0 < dict_size ht" "dict_used ht = dict_size ht" | "dict_used ht < dict_size ht"
    using u by linarith
  then show ?thesis
  proof cases
    case 1
    then show ?thesis
      using expand_ok [OF assms(1), of 4] u by (auto simp: dictExpandIfNeeded_def DICT_HT_INITIAL_SIZE_def)
  next
    case 2
    have "c_size_t (int (dict_size ht) * 2) = dict_size ht * 2"
      using c_size_t_of_nat [of "dict_size ht * 2"] assms(2) by simp
    then show ?thesis
      using expand_ok [OF assms(1), of "dict_size ht * 2"] 2 assms(2) by (auto simp: dictExpandIfNeeded_def)
  next
    case 3
    then show ?thesis using assms(1) by (simp add: dictExpandIfNeeded_def)
  qed
qed

text \<open>Replacing one chain of the table, the key's own.\<close>

lemma update_slot:
  assumes "wf ht" and "0 < dict_size ht" and "valid k"
  defines "i \<equiv> slot_of T (dict_sizemask ht) k"
  assumes "\<forall>e\<in>set chain. valid (fst e) \<and> slot_of T (dict_sizemask ht) (fst e) = i"
    and "distinct (map (canon \<circ> fst) chain)"
    and "map_of (canon_entries canon chain) = (map_of (canon_entries canon (dict_table ht ! i)))(canon k := x)"
    and "dict_used ht + length chain = used' + length (dict_table ht ! i)" and "used' \<le> dict_size ht"
    and "canon ` fst ` set chain \<subseteq> insert (canon k) (canon ` fst ` set (dict_table ht ! i))"
  shows "wf (ht\<lparr>dict_table := (dict_table ht)[i := chain], dict_used := used'\<rparr>)"
    and "\<alpha> (ht\<lparr>dict_table := (dict_table ht)[i := chain], dict_used := used'\<rparr>) = (\<alpha> ht)(canon k := x)"
proof -
  let ?t = "dict_table ht"
  note slot = slot_facts [OF assms(1-3), folded i_def]
  have split: "concat ?t = concat (take i ?t) @ ?t ! i @ concat (drop (Suc i) ?t)"
    using slot(1) by (rule table_split)
  have split': "concat (?t[i := chain]) = concat (take i ?t) @ chain @ concat (drop (Suc i) ?t)"
    using slot(1) by (rule table_update_split)
  show "\<alpha> (ht\<lparr>dict_table := ?t[i := chain], dict_used := used'\<rparr>) = (\<alpha> ht)(canon k := x)"
    using map_of_middle(2) [OF slot(3) assms(7)] split split' by (simp add: dict_map_def)
  have wf: "placed T (dict_sizemask ht) ?t" "\<forall>e\<in>set (concat ?t). valid (fst e)"
      "distinct (map (canon \<circ> fst) (concat ?t))" "dict_used ht = length (concat ?t)"
    using assms(1) by (simp_all add: dict_wf_def)
  have pl: "placed T (dict_sizemask ht) (?t[i := chain])"
    using wf(1) assms(5) unfolding placed_def by (metis length_list_update nth_list_update_eq nth_list_update_neq)
  have va: "\<forall>e\<in>set (concat (?t[i := chain])). valid (fst e)"
    using wf(2) assms(5) unfolding split split' by auto
  have us: "used' = length (concat (?t[i := chain]))"
    using assms(8) wf(4) unfolding split split' by simp
  have dist: "distinct (map (canon \<circ> fst) (concat (take i ?t) @ concat (drop (Suc i) ?t)))"
    "(canon \<circ> fst) ` set (?t ! i) \<inter> (canon \<circ> fst) ` (set (concat (take i ?t)) \<union> set (concat (drop (Suc i) ?t))) = {}"
    using wf(3) unfolding split distinct_middle [of _ _ "?t ! i"] by blast+
  have sub: "(canon \<circ> fst) ` set chain \<subseteq> insert (canon k) ((canon \<circ> fst) ` set (?t ! i))"
    using assms(10) by (simp add: image_comp)
  have "canon k \<notin> (canon \<circ> fst) ` (set (concat (take i ?t)) \<union> set (concat (drop (Suc i) ?t)))"
    using slot(3) by (rule notin_comp_image)
  then have "(canon \<circ> fst) ` set chain \<inter> (canon \<circ> fst) ` (set (concat (take i ?t)) \<union> set (concat (drop (Suc i) ?t))) = {}"
    using sub dist(2) by (rule disjoint_insert_sub)
  then have "distinct (map (canon \<circ> fst) (concat (?t[i := chain])))"
    using dist(1) assms(6) unfolding split' distinct_middle [of _ _ chain] by blast
  then show "wf (ht\<lparr>dict_table := ?t[i := chain], dict_used := used'\<rparr>)"
    using assms(1,9) pl va us by (simp add: dict_wf_def)
qed

lemma slot_entries:
  assumes "wf ht" and "0 < dict_size ht" and "valid k"
  defines "i \<equiv> slot_of T (dict_sizemask ht) k"
  shows "\<forall>e\<in>set (dict_table ht ! i). valid (fst e) \<and> slot_of T (dict_sizemask ht) (fst e) = i"
  using slot_facts(1,5) [OF assms(1-3)] assms(1) by (auto simp: dict_wf_def placed_def i_def)

lemma add_ok:
  assumes "wf ht" and "valid k" and "dict_size ht \<le> 2 ^ 29"
  shows "\<exists>ht'. wf ht' \<and>
    (if \<alpha> ht (canon k) = None
     then dictAdd ht k v = Some (DICT_OK, ht') \<and> \<alpha> ht' = (\<alpha> ht)(canon k \<mapsto> dictSetHashVal ht v)
     else dictAdd ht k v = Some (DICT_ERR, ht') \<and> \<alpha> ht' = \<alpha> ht)"
proof -
  obtain h where h: "dictExpandIfNeeded ht = Some (DICT_OK, h)" "wf h" "\<alpha> h = \<alpha> ht" "dict_used h < dict_size h"
    using expandIfNeeded_ok [OF assms(1,3)] by blast
  let ?i = "slot_of T (dict_sizemask h) k"
  have T: "dict_type h = T" "dict_type ht = T" using h(2) assms(1) by (simp_all add: dict_wf_def)
  have pos: "0 < dict_size h" using h(4) by simp
  note slot = slot_facts [OF h(2) pos assms(2)]
  obtain hv where hv: "dictHashKey h k = Some hv" "unat hv AND dict_sizemask h = ?i"
    using hash_slot [OF assms(2) T(1)] by blast
  obtain r where r: "chain_find h k (dict_table h ! ?i) = Some r"
    "case r of None \<Rightarrow> \<forall>e\<in>set (dict_table h ! ?i). canon (fst e) \<noteq> canon k
     | Some p \<Rightarrow> p < length (dict_table h ! ?i) \<and> canon (fst (dict_table h ! ?i ! p)) = canon k"
    "map_of (canon_entries canon (dict_table h ! ?i)) (canon k) = map_option (\<lambda>p. snd (dict_table h ! ?i ! p)) r"
    using chain_find_ok [OF T(1) assms(2) slot(5)] by blast
  have idx: "c_int (int ?i) = int ?i" using slot(2) by (intro c_int_id) simp_all
  have key: "dictKeyIndex ht k = Some (if r = None then int ?i else - 1, h)"
    using h(1) hv r(1) slot(1) idx by (simp add: dictKeyIndex_def slot_get_def Let_def)
  show ?thesis
  proof (cases r)
    case (Some p)
    then have "dictAdd ht k v = Some (DICT_ERR, h)" using key by (simp add: dictAdd_def)
    then show ?thesis using Some r(3) slot(4) h(2,3) by auto
  next
    case None
    let ?e = "(dictSetHashKey h k, dictSetHashVal ht v)"
    let ?h = "h\<lparr>dict_table := (dict_table h)[?i := ?e # dict_table h ! ?i], dict_used := Suc (dict_used h)\<rparr>"
    have e: "valid (fst ?e)" "canon (fst ?e) = canon k" using set_key [OF assms(2) T(1)] by simp_all
    have "dict_size h \<le> 2 ^ 30"
      using h(2) power_increasing [of _ 30 "2 :: nat"] by (auto simp: dict_wf_def size_ok_def)
    then have "c_size_t (int (dict_used h) + 1) = Suc (dict_used h)"
      using h(4) by (intro c_size_t_inc) simp
    moreover have "dictSetHashVal h v = dictSetHashVal ht v" using T by (simp add: dictSetHashVal_def)
    ultimately have run: "dictAdd ht k v = Some (DICT_OK, ?h)"
      using None key slot(1) by (simp add: dictAdd_def slot_get_def)
    have "slot_of T (dict_sizemask h) (fst ?e) = ?i" using slot_canon [OF e(1) assms(2) e(2)] .
    then have "\<forall>d\<in>set (?e # dict_table h ! ?i). valid (fst d) \<and> slot_of T (dict_sizemask h) (fst d) = ?i"
      using slot_entries [OF h(2) pos assms(2)] e(1) by auto
    moreover have "distinct (map (canon \<circ> fst) (?e # dict_table h ! ?i))"
      using None r(2) slot(6) e(2) by force
    moreover have "map_of (canon_entries canon (?e # dict_table h ! ?i))
        = (map_of (canon_entries canon (dict_table h ! ?i)))(canon k := Some (dictSetHashVal ht v))"
      using e(2) by (simp add: canon_entries_def)
    moreover have "canon ` fst ` set (?e # dict_table h ! ?i) \<subseteq> insert (canon k) (canon ` fst ` set (dict_table h ! ?i))"
      using e(2) by auto
    ultimately have "wf ?h" "\<alpha> ?h = (\<alpha> h)(canon k := Some (dictSetHashVal ht v))"
      using h(4) by (intro update_slot [OF h(2) pos assms(2)]; simp)+
    then show ?thesis using run None r(3) slot(4) h(3) by auto
  qed
qed

lemma map_of_update_nth:
  "distinct (map fst xs) \<Longrightarrow> p < length xs \<Longrightarrow>
     map_of (xs[p := (fst (xs ! p), v)]) = (map_of xs)(fst (xs ! p) \<mapsto> v)"
proof (induction xs arbitrary: p)
  case (Cons a xs)
  show ?case
  proof (cases p)
    case (Suc q)
    then have "fst (xs ! q) \<in> set (map fst xs)" using Cons.prems(2) by auto
    then have "fst (xs ! q) \<noteq> fst a" using Cons.prems(1) by (metis distinct.simps(2) list.simps(9))
    with Suc Cons show ?thesis by (cases a) (auto simp: fun_upd_twist)
  qed (cases a, auto simp: fun_eq_iff)
qed simp

lemma replace_ok:
  assumes "wf ht" and "valid k" and "dict_size ht \<le> 2 ^ 29"
  shows "\<exists>n ht' ev. dictReplace ht k v = Some (n, ht', ev) \<and> wf ht' \<and>
    \<alpha> ht' = (\<alpha> ht)(canon k \<mapsto> dictSetHashVal ht v) \<and>
    (case \<alpha> ht (canon k) of None \<Rightarrow> n = 1 \<and> ev = []
     | Some old \<Rightarrow> n = 0 \<and> ev = (if valDestructor T then [FreeVal old] else []))"
proof (cases "\<alpha> ht (canon k)")
  case None
  then show ?thesis using add_ok [OF assms, of v] by (auto simp: dictReplace_def)
next
  case (Some old)
  with add_ok [OF assms, of v] obtain h where
    h: "dictAdd ht k v = Some (DICT_ERR, h)" "wf h" "\<alpha> h = \<alpha> ht" by auto
  let ?i = "slot_of T (dict_sizemask h) k" and ?v = "dictSetHashVal ht v"
  have T: "dict_type h = T" "dict_type ht = T" using h(2) assms(1) by (simp_all add: dict_wf_def)
  have "\<alpha> h (canon k) = Some old" using Some h(3) by simp
  then have pos: "0 < dict_size h"
    using h(2) by (cases "dict_size h") (auto simp: dict_wf_def dict_map_def canon_entries_def)
  note slot = slot_facts [OF h(2) pos assms(2)]
  obtain hv where hv: "dictHashKey h k = Some hv" "unat hv AND dict_sizemask h = ?i"
    using hash_slot [OF assms(2) T(1)] by blast
  let ?c = "dict_table h ! ?i"
  obtain r where r: "chain_find h k ?c = Some r"
      "case r of None \<Rightarrow> \<forall>e\<in>set ?c. canon (fst e) \<noteq> canon k
       | Some p \<Rightarrow> p < length ?c \<and> canon (fst (?c ! p)) = canon k"
      "map_of (canon_entries canon ?c) (canon k) = map_option (\<lambda>p. snd (?c ! p)) r"
    using chain_find_ok [OF T(1) assms(2) slot(5)] by blast
  have "map_option (\<lambda>p. snd (?c ! p)) r = Some old" using Some h(3) slot(4) r(3) by simp
  with r(1,2) obtain p where p: "chain_find h k ?c = Some (Some p)" "p < length ?c"
      "canon (fst (?c ! p)) = canon k" "snd (?c ! p) = old"
    by (cases r) auto
  let ?e = "(fst (?c ! p), ?v)"
  let ?h = "h\<lparr>dict_table := (dict_table h)[?i := ?c[p := ?e]], dict_used := dict_used h\<rparr>"
  have sv: "dictSetHashVal h v = ?v" using T by (simp add: dictSetHashVal_def)
  have "dictFind h k = Some (Some (?i, p))"
    using pos hv slot(1) p(1) by (simp add: dictFind_def slot_get_def)
  moreover have "dict_entry h (?i, p) = Some (?c ! p)" using slot(1) p(2) by (simp add: dict_entry_def slot_get_def)
  ultimately have run: "dictReplace ht k v = Some (0, ?h, if valDestructor T then [FreeVal old] else [])"
    using h(1) T sv p(4) by (simp add: dictReplace_def dictFreeEntryVal_def Let_def)
  have ce: "canon_entries canon (?c[p := ?e]) = (canon_entries canon ?c)[p := (canon (fst (?c ! p)), ?v)]"
    by (simp add: canon_entries_def map_update)
  have ks: "map (canon \<circ> fst) (?c[p := ?e]) = map (canon \<circ> fst) ?c"
    using p(2) by (simp add: map_update list_update_same_conv)
  have "\<forall>d\<in>set (?c[p := ?e]). valid (fst d) \<and> slot_of T (dict_sizemask h) (fst d) = ?i"
    using slot_entries [OF h(2) pos assms(2)] p(2)
    by (auto dest!: set_update_subset_insert [THEN subsetD])
  moreover have "distinct (map (canon \<circ> fst) (?c[p := ?e]))" using ks slot(6) by metis
  moreover have "map_of (canon_entries canon (?c[p := ?e])) = (map_of (canon_entries canon ?c))(canon k := Some ?v)"
    using map_of_update_nth [of "canon_entries canon ?c" p ?v] slot(6) p(2,3) unfolding ce
    by (simp add: canon_entries_def comp_def)
  moreover have "canon ` fst ` set (?c[p := ?e]) \<subseteq> insert (canon k) (canon ` fst ` set ?c)"
    using ks by (metis (no_types) list.set_map image_comp subset_insertI)
  ultimately have "wf ?h" "\<alpha> ?h = (\<alpha> h)(canon k := Some ?v)"
    using h(2) by (intro update_slot [OF h(2) pos assms(2)]; simp add: dict_wf_def)+
  then show ?thesis using run h(3) Some by auto
qed

lemma chain_delete_ok:
  assumes "dict_type ht = T" and "valid k" and "\<forall>e\<in>set chain. valid (fst e)"
    and "distinct (map (canon \<circ> fst) chain)"
  shows "\<exists>r. chain_delete ht k chain = Some r \<and>
    (case r of None \<Rightarrow> map_of (canon_entries canon chain) (canon k) = None
     | Some (d, rest) \<Rightarrow> canon (fst d) = canon k \<and> mset chain = add_mset d (mset rest) \<and>
         map_of (canon_entries canon chain) (canon k) = Some (snd d) \<and>
         map_of (canon_entries canon rest) = (map_of (canon_entries canon chain))(canon k := None))"
  using assms(3,4)
proof (induction chain)
  case Nil
  then show ?case by (simp add: canon_entries_def)
next
  case (Cons e chain)
  have cmp: "dictCompareHashKeys ht k (fst e) = Some (canon k = canon (fst e))"
    using compare_eq [OF assms(2) _ assms(1), of "fst e"] Cons.prems(1) by simp
  show ?case
  proof (cases "canon (fst e) = canon k")
    case True
    then have "map_of (canon_entries canon chain) (canon k) = None"
      using Cons.prems(2) by (force simp: canon_entries_def map_of_eq_None_iff)
    then show ?thesis using cmp True by (auto simp: canon_entries_def)
  next
    case False
    from Cons obtain r where "chain_delete ht k chain = Some r"
      "case r of None \<Rightarrow> map_of (canon_entries canon chain) (canon k) = None
     | Some (d, rest) \<Rightarrow> canon (fst d) = canon k \<and> mset chain = add_mset d (mset rest) \<and>
         map_of (canon_entries canon chain) (canon k) = Some (snd d) \<and>
         map_of (canon_entries canon rest) = (map_of (canon_entries canon chain))(canon k := None)"
      by auto
    then show ?thesis
      using cmp False by (cases r) (auto simp: canon_entries_def fun_upd_twist)
  qed
qed

lemma delete_ok:
  assumes "wf ht" and "valid k"
  shows "\<exists>st ht' ev. dictDelete ht k = Some (st, ht', ev) \<and> wf ht' \<and> \<alpha> ht' = (\<alpha> ht)(canon k := None) \<and>
    (case \<alpha> ht (canon k) of None \<Rightarrow> st = DICT_ERR \<and> ev = [] \<and> ht' = ht
     | Some old \<Rightarrow> st = DICT_OK \<and> (\<exists>d. canon (fst d) = canon k \<and> snd d = old \<and>
         mset (entries ht) = add_mset d (mset (entries ht')) \<and>
         ev = dictFreeEntryKey ht d @ dictFreeEntryVal ht d))"
proof (cases "dict_size ht = 0")
  case True
  then have "\<alpha> ht = Map.empty" using assms(1) by (simp add: dict_wf_def dict_map_def canon_entries_def)
  then show ?thesis using True assms(1) by (simp add: dictDelete_def)
next
  case False
  then have pos: "0 < dict_size ht" by simp
  let ?i = "slot_of T (dict_sizemask ht) k"
  let ?c = "dict_table ht ! ?i"
  have T: "dict_type ht = T" using assms(1) by (simp add: dict_wf_def)
  note slot = slot_facts [OF assms(1) pos assms(2)]
  obtain hv where hv: "dictHashKey ht k = Some hv" "unat hv AND dict_sizemask ht = ?i"
    using hash_slot [OF assms(2) T] by blast
  obtain r where r: "chain_delete ht k ?c = Some r"
    "case r of None \<Rightarrow> map_of (canon_entries canon ?c) (canon k) = None
     | Some (d, rest) \<Rightarrow> canon (fst d) = canon k \<and> mset ?c = add_mset d (mset rest) \<and>
         map_of (canon_entries canon ?c) (canon k) = Some (snd d) \<and>
         map_of (canon_entries canon rest) = (map_of (canon_entries canon ?c))(canon k := None)"
    using chain_delete_ok [OF T assms(2) slot(5,6)] by blast
  show ?thesis
  proof (cases r)
    case None
    then have "dictDelete ht k = Some (DICT_ERR, ht, [])"
      using False hv slot(1) r(1) by (simp add: dictDelete_def slot_get_def)
    then show ?thesis using None r(2) slot(4) assms(1) by (auto simp: fun_upd_idem)
  next
    case (Some dr)
    then obtain d rest where dr: "r = Some (d, rest)" by (cases dr) auto
    have d: "canon (fst d) = canon k" "mset ?c = add_mset d (mset rest)"
      "map_of (canon_entries canon ?c) (canon k) = Some (snd d)"
      "map_of (canon_entries canon rest) = (map_of (canon_entries canon ?c))(canon k := None)"
      using r(2) dr by simp_all
    let ?h = "ht\<lparr>dict_table := (dict_table ht)[?i := rest], dict_used := dict_used ht - 1\<rparr>"
    have len: "length ?c = Suc (length rest)" using d(2) by (metis size_mset size_add_mset)
    have split: "entries ht = concat (take ?i (dict_table ht)) @ ?c @ concat (drop (Suc ?i) (dict_table ht))"
      using slot(1) by (rule table_split)
    have used: "dict_used ht = length (entries ht)" "dict_used ht \<le> dict_size ht" "dict_size ht \<le> 2 ^ 30"
      using assms(1) power_increasing [of _ 30 "2 :: nat"] by (auto simp: dict_wf_def size_ok_def)
    then have u1: "0 < dict_used ht" using len split by simp
    have "c_size_t (int (dict_used ht) - 1) = dict_used ht - 1"
      using u1 used(2,3) by (intro c_size_t_dec) simp_all
    then have run: "dictDelete ht k = Some (DICT_OK, ?h, dictFreeEntryKey ht d @ dictFreeEntryVal ht d)"
      using False hv slot(1) r(1) dr by (simp add: dictDelete_def slot_get_def)
    have sub: "set rest \<subseteq> set ?c" using d(2) by (metis set_mset_add_mset_insert set_mset_mset subset_insertI)
    have "mset (map (canon \<circ> fst) ?c) = mset (map (canon \<circ> fst) (d # rest))" using d(2) by simp
    then have dist: "distinct (map (canon \<circ> fst) rest)"
      using slot(6) mset_eq_imp_distinct_iff by (metis distinct.simps(2) list.simps(9))
    have "wf ?h" "\<alpha> ?h = (\<alpha> ht)(canon k := None)"
      using slot_entries [OF assms(1) pos assms(2)] sub dist d(4) len u1 used
      by (intro update_slot [OF assms(1) pos assms(2)]; auto)+
    moreover have "mset (entries ht) = add_mset d (mset (entries ?h))"
      using slot(1) d(2) by (simp add: split table_update_split)
    ultimately show ?thesis using run d(1,3) slot(4) by auto
  qed
qed

lemma wf_create: "wf (dictCreate T)" "\<alpha> (dictCreate T) = Map.empty"
  by (simp_all add: dict_wf_def dict_map_def dictCreate_def dictInit_def dictReset_def size_ok_def placed_def
      canon_entries_def)

lemma size_bound: "wf ht \<Longrightarrow> dict_size ht \<le> 2 ^ 30"
  using power_increasing [of _ 30 "2 :: nat"] by (auto simp: dict_wf_def size_ok_def)

lemma clear_ok:
  assumes "wf ht"
  shows "dictClear ht
      = Some (dictReset ht, concat (map (\<lambda>e. dictFreeEntryKey ht e @ dictFreeEntryVal ht e) (entries ht)))"
    and "wf (dictReset ht)" and "\<alpha> (dictReset ht) = Map.empty"
proof -
  have "dict_used ht < 2 ^ 64" using assms size_bound [OF assms] by (simp add: dict_wf_def)
  then show "dictClear ht
      = Some (dictReset ht, concat (map (\<lambda>e. dictFreeEntryKey ht e @ dictFreeEntryVal ht e) (entries ht)))"
    using clear_loop_eq [of ht 0 "dict_used ht"] assms by (simp add: dictClear_def dict_wf_def)
  show "wf (dictReset ht)" "\<alpha> (dictReset ht) = Map.empty"
    using assms by (simp_all add: dict_wf_def dict_map_def dictReset_def size_ok_def placed_def canon_entries_def)
qed

lemma iterate_ok:
  assumes "wf ht" and "dict_used ht < n"
  shows "dict_iterate n ht dictGetIterator = Some (entries ht)"
  using dict_iterate_eq [of ht dictGetIterator n] assms size_bound [OF assms(1)]
  by (simp add: dict_wf_def dictGetIterator_def it_rest_def)

end

end
