(* ===== verification/CallbackDict.thy ===== *)
theory CallbackDict
  imports Sds Dict
begin

text \<open>
  The dictionary type of \<open>win32/hiredis/async.c\<close>: keys are dynamic strings compared by
  their bytes, values are copies of \<open>redisCallback\<close>. The interpretation at the end makes the
  hash table a finite map from byte strings to callbacks.
\<close>

text \<open>A callback: the function (NULL or its address) and the caller's pointer. The \<open>next\<close>
  field belongs to the callback lists, whose nodes hold it.\<close>

record redisCallback =
  cb_fn :: "nat option"
  cb_privdata :: nat

definition callbackHash :: "sdshdr \<Rightarrow> 32 word option" where
  "callbackHash key = dictGenHashFunction (sds_buf key) (sdslen key)"

definition callbackValDup :: "redisCallback \<Rightarrow> redisCallback" where
  "callbackValDup src = src"

definition callbackKeyCompare :: "sdshdr \<Rightarrow> sdshdr \<Rightarrow> bool option" where
  "callbackKeyCompare key1 key2 =
     (let l1 = c_int (int (sdslen key1)); l2 = c_int (int (sdslen key2))
      in if l1 \<noteq> l2 then Some False
         else map_option (\<lambda>r. r = 0) (memcmp (sds_buf key1) (sds_buf key2) (nat l1)))"

definition callbackDict :: "(sdshdr, redisCallback) dictType" where
  "callbackDict =
     \<lparr>hashFunction = callbackHash, keyDup = None, valDup = Some callbackValDup,
      keyCompare = Some callbackKeyCompare, keyDestructor = True, valDestructor = True\<rparr>"

type_synonym cbdict = "(sdshdr, redisCallback) dict"

abbreviation cbd_wf :: "cbdict \<Rightarrow> bool" where
  "cbd_wf \<equiv> dict_wf callbackDict sds_wf sds_str"

abbreviation cbd_map :: "cbdict \<Rightarrow> string \<rightharpoonup> redisCallback" where
  "cbd_map \<equiv> dict_map sds_str"

section \<open>The generic hash function\<close>

definition hash33 :: "32 word \<Rightarrow> char \<Rightarrow> 32 word" where
  "hash33 h c = h * 33 + word_of_nat (of_char c)"

lemma hash_loop_eq: "hash_loop (map Some str @ rest) (length str) h = Some (foldl hash33 h str)"
proof (induction str arbitrary: h)
  case (Cons c str)
  have "push_bit 5 h + h = h * 33" by (simp add: push_bit_eq_mult)
  with Cons.IH show ?case by (simp add: mem_get_def hash33_def mult.commute)
qed simp

lemma callbackHash_wf:
  assumes "sds_wf s"
  shows "callbackHash s = Some (foldl hash33 5381 (sds_str s))"
proof -
  obtain slack where s: "s = sds_of (sds_str s) slack" "length (sds_str s) + length slack \<le> nat INT_MAX"
    using assms by (rule sds_wf_repr)
  then have "sds_buf s = map Some (sds_str s) @ Some NUL # slack" by (metis sds_of_sel(3))
  then show ?thesis using hash_loop_eq sdslen_wf [OF assms] by (simp add: callbackHash_def dictGenHashFunction_def)
qed

lemma callbackKeyCompare_wf:
  assumes "sds_wf a" and "sds_wf b"
  shows "callbackKeyCompare a b = Some (sds_str a = sds_str b)"
proof -
  obtain x where x: "a = sds_of (sds_str a) x" "length (sds_str a) + length x \<le> nat INT_MAX"
    using assms(1) by (rule sds_wf_repr)
  obtain y where y: "b = sds_of (sds_str b) y" "length (sds_str b) + length y \<le> nat INT_MAX"
    using assms(2) by (rule sds_wf_repr)
  have buf: "sds_buf a = map Some (sds_str a) @ Some NUL # x" "sds_buf b = map Some (sds_str b) @ Some NUL # y"
    using x(1) y(1) by (metis sds_of_sel(3))+
  have len: "c_int (int (sdslen a)) = int (length (sds_str a))" "c_int (int (sdslen b)) = int (length (sds_str b))"
    using x(2) y(2) sdslen_wf assms by (auto simp: INT_MAX_def c_int_id)
  show ?thesis
  proof (cases "length (sds_str a) = length (sds_str b)")
    case True
    obtain r where r: "memcmp (sds_buf a) (sds_buf b) (length (sds_str a)) = Some r"
      using memcmp_lexord [of "sds_str a" "Some NUL # x" "sds_str b" "Some NUL # y"] True buf by auto
    then have "r = 0 \<longleftrightarrow> sds_str a = sds_str b"
      using memcmp_eq_iff [OF True refl, of "Some NUL # x" "Some NUL # y"] True buf by auto
    with r True len show ?thesis by (simp add: callbackKeyCompare_def)
  qed (use len in \<open>auto simp: callbackKeyCompare_def\<close>)
qed

interpretation cbd: hashed_keys callbackDict sds_wf sds_str
  by unfold_locales
    (simp_all add: callbackDict_def callbackHash_wf callbackKeyCompare_wf)

lemma cbd_set_val [simp]: "cbd_wf ht \<Longrightarrow> dictSetHashVal ht cb = cb"
  by (simp add: dictSetHashVal_def dict_wf_def callbackDict_def callbackValDup_def)

section \<open>Properties of the dictionary\<close>

text \<open>
  C19 (refinement). On a well-formed table \<open>dictReplace\<close> returns, keeps the table well-formed
  and implements the map update of the key's bytes: 1 for a new key, 0 and exactly one
  release, of the old value, for an existing one; the table doubles when it is full.
\<close>

theorem dictReplace_refines_map:
  assumes "cbd_wf ht" and "sds_wf k" and "dict_size ht \<le> 2 ^ 29"
  shows "\<exists>n ht' ev. dictReplace ht k cb = Some (n, ht', ev) \<and> cbd_wf ht' \<and>
    cbd_map ht' = (cbd_map ht)(sds_str k \<mapsto> cb) \<and>
    (case cbd_map ht (sds_str k) of None \<Rightarrow> n = 1 \<and> ev = [] | Some old \<Rightarrow> n = 0 \<and> ev = [FreeVal old])"
  using cbd.replace_ok [OF assms, of cb] cbd_set_val [OF assms(1)] by (simp add: callbackDict_def cong: option.case_cong)

theorem dictReplace_refines_map_witness:
  "\<exists>n ht' ev. dictReplace (dictCreate callbackDict) (sds_of ''news'' []) \<lparr>cb_fn = Some 7, cb_privdata = 1\<rparr>
      = Some (n, ht', ev) \<and> cbd_wf ht' \<and> cbd_map ht' = [''news'' \<mapsto> \<lparr>cb_fn = Some 7, cb_privdata = 1\<rparr>]"
proof -
  have "sds_wf (sds_of ''news'' [])" by (simp add: INT_MAX_def)
  moreover have "dict_size (dictCreate callbackDict) \<le> 2 ^ 29"
    by (simp add: dictCreate_def dictInit_def dictReset_def)
  ultimately show ?thesis
    using dictReplace_refines_map [OF cbd.wf_create(1), of "sds_of ''news'' []" "\<lparr>cb_fn = Some 7, cb_privdata = 1\<rparr>"]
      cbd.wf_create(2) by auto
qed

text \<open>
  C20 (refinement). \<open>dictDelete\<close> on a well-formed table removes exactly the key's entry,
  releasing its key and then its value once each, and reports \<open>DICT_ERR\<close> with the table
  unchanged when the key is absent.
\<close>

theorem dictDelete_refines_map:
  assumes "cbd_wf ht" and "sds_wf k"
  shows "\<exists>st ht' ev. dictDelete ht k = Some (st, ht', ev) \<and> cbd_wf ht' \<and>
    cbd_map ht' = (cbd_map ht)(sds_str k := None) \<and>
    (case cbd_map ht (sds_str k) of None \<Rightarrow> st = DICT_ERR \<and> ev = [] \<and> ht' = ht
     | Some old \<Rightarrow> st = DICT_OK \<and> (\<exists>k'. sds_str k' = sds_str k \<and> ev = [FreeKey k', FreeVal old] \<and>
         mset (concat (dict_table ht)) = add_mset (k', old) (mset (concat (dict_table ht')))))"
proof -
  have T: "dict_type ht = callbackDict" using assms(1) by (simp add: dict_wf_def)
  show ?thesis
    using cbd.delete_ok [OF assms] T
    by (auto simp: dictFreeEntryKey_def dictFreeEntryVal_def callbackDict_def split: option.splits) 
qed

theorem dictDelete_refines_map_witness:
  "\<exists>st ht' ev. dictDelete (dictCreate callbackDict) (sds_of ''news'' []) = Some (st, ht', ev) \<and> st = DICT_ERR \<and>
    cbd_wf ht' \<and> cbd_map ht' = Map.empty"
  using dictDelete_refines_map [OF cbd.wf_create(1), of "sds_of ''news'' []"] cbd.wf_create(2)
  by (auto simp: INT_MAX_def)

text \<open>
  \<open>dictFind\<close> on a well-formed table never faults and finds an entry exactly
  when the map is defined at the key's bytes, the entry holding the map's value.
\<close>

lemma dictFind_refines_map:
  assumes "cbd_wf ht" and "sds_wf k"
  shows "\<exists>r. dictFind ht k = Some r \<and>
    (case r of None \<Rightarrow> cbd_map ht (sds_str k) = None
     | Some p \<Rightarrow> \<exists>e. dict_entry ht p = Some e \<and> sds_str (fst e) = sds_str k \<and> cbd_map ht (sds_str k) = Some (snd e))"
  using assms by (rule cbd.find_ok)

text \<open>
  C21 (equivalence). Growing the table to any size up to \<open>2^30\<close> that can hold its entries
  rehashes every entry exactly once (the \<open>assert\<close> on the counter holds): the entries are a
  permutation of the old ones, the abstract map is the same, the new size is at least the
  requested one and the invariant holds.
\<close>

theorem dictExpand_rehash:
  assumes "cbd_wf ht" and "dict_used ht \<le> sz" and "sz \<le> 2 ^ 30"
  shows "\<exists>ht'. dictExpand ht sz = Some (DICT_OK, ht') \<and> cbd_wf ht' \<and> cbd_map ht' = cbd_map ht \<and>
    dict_used ht' = dict_used ht \<and> sz \<le> dict_size ht' \<and>
    mset (concat (dict_table ht')) = mset (concat (dict_table ht))"
  using cbd.expand_ok [OF assms] by blast

theorem dictExpand_rehash_witness:
  "\<exists>ht'. dictExpand (dictCreate callbackDict) 100 = Some (DICT_OK, ht') \<and> cbd_wf ht' \<and> 100 \<le> dict_size ht'"
  using dictExpand_rehash [OF cbd.wf_create(1), of 100]
  by (auto simp: dictCreate_def dictInit_def dictReset_def)

text \<open>
  An iterator run to its end returns every entry of a well-formed table
  exactly once, in table order, and then NULL.
\<close>

lemma dict_iterator_complete:
  assumes "cbd_wf ht" and "dict_used ht < n"
  shows "dict_iterate n ht dictGetIterator = Some (concat (dict_table ht))"
  using assms by (rule cbd.iterate_ok)

end
