(* ===== verification/Reader.thy ===== *)
theory Reader
  imports SdsText
begin

text \<open>
  The streaming reply parser of \<open>win32/hiredis/hiredis.c\<close>: reply objects and their creation
  functions, the reader with its buffer and its stack of nine read tasks, and the functions
  that feed it and take replies from it.

  Pointers to reply objects are natural numbers, NULL is 0; the objects live in an explicit
  store. A creation function gets the task as the stack and the task's value, the character
  pointer as the block from that byte on. \<open>unsigned long\<close> has 32 bits on the platform of this
  port. Running out of memory ends the program and is a fault like the others.
\<close>

section \<open>Constants and data\<close>

definition REDIS_OK :: int where "REDIS_OK = 0"
definition REDIS_ERR :: int where "REDIS_ERR = - 1"

definition REDIS_REPLY_STRING :: int where "REDIS_REPLY_STRING = 1"
definition REDIS_REPLY_ARRAY :: int where "REDIS_REPLY_ARRAY = 2"
definition REDIS_REPLY_INTEGER :: int where "REDIS_REPLY_INTEGER = 3"
definition REDIS_REPLY_NIL :: int where "REDIS_REPLY_NIL = 4"
definition REDIS_REPLY_STATUS :: int where "REDIS_REPLY_STATUS = 5"
definition REDIS_REPLY_ERROR :: int where "REDIS_REPLY_ERROR = 6"

lemmas reply_types = REDIS_REPLY_STRING_def REDIS_REPLY_ARRAY_def REDIS_REPLY_INTEGER_def
  REDIS_REPLY_NIL_def REDIS_REPLY_STATUS_def REDIS_REPLY_ERROR_def

text \<open>A reply object; a field \<open>malloc\<close> left unset is \<^const>\<open>None\<close>.\<close>

record redisReply =
  rp_type :: int
  rp_integer :: "int option"
  rp_len :: "int option"
  rp_str :: "mem option"
  rp_elements :: "nat option"
  rp_element :: "nat list option"

record reply_heap =
  hp_cells :: "nat \<Rightarrow> redisReply option"
  hp_next :: nat

record redisReadTask =
  tk_type :: int
  tk_elements :: int
  tk_idx :: int
  tk_obj :: nat
  tk_parent :: "nat option"
  tk_privdata :: nat

record redisReplyObjectFunctions =
  fn_createString :: "(redisReadTask list \<Rightarrow> redisReadTask \<Rightarrow> mem \<Rightarrow> nat \<Rightarrow> reply_heap \<Rightarrow> (nat \<times> reply_heap) option) option"
  fn_createArray :: "(redisReadTask list \<Rightarrow> redisReadTask \<Rightarrow> int \<Rightarrow> reply_heap \<Rightarrow> (nat \<times> reply_heap) option) option"
  fn_createInteger :: "(redisReadTask list \<Rightarrow> redisReadTask \<Rightarrow> int \<Rightarrow> reply_heap \<Rightarrow> (nat \<times> reply_heap) option) option"
  fn_createNil :: "(redisReadTask list \<Rightarrow> redisReadTask \<Rightarrow> reply_heap \<Rightarrow> (nat \<times> reply_heap) option) option"
  fn_freeObject :: "(nat \<Rightarrow> reply_heap \<Rightarrow> reply_heap option) option"

record redisReader =
  rd_fn :: "redisReplyObjectFunctions option"
  rd_error :: "sdshdr option"
  rd_reply :: nat
  rd_buf :: sdshdr
  rd_pos :: nat
  rd_len :: nat
  rd_rstack :: "redisReadTask list"
  rd_ridx :: int
  rd_privdata :: nat

section \<open>Reply objects\<close>

definition createReplyObject :: "int \<Rightarrow> reply_heap \<Rightarrow> nat \<times> reply_heap" where
  "createReplyObject type h =
     (hp_next h,
      h\<lparr>hp_cells := (hp_cells h)(hp_next h \<mapsto>
           \<lparr>rp_type = type, rp_integer = None, rp_len = None, rp_str = None, rp_elements = None, rp_element = None\<rparr>),
        hp_next := hp_next h + 1\<rparr>)"

definition update_cell :: "nat \<Rightarrow> (redisReply \<Rightarrow> redisReply) \<Rightarrow> reply_heap \<Rightarrow> reply_heap option" where
  "update_cell p f h = do { c \<leftarrow> hp_cells h p; Some (h\<lparr>hp_cells := (hp_cells h)(p \<mapsto> f c)\<rparr>) }"

text \<open>\<open>for (j = 0; j < r->elements; j++) if (r->element[j]) \<dots>\<close>\<close>

fun free_each :: "(nat \<Rightarrow> reply_heap \<Rightarrow> reply_heap option) \<Rightarrow> nat list \<Rightarrow> reply_heap \<Rightarrow> reply_heap option" where
  "free_each f [] h = Some h"
| "free_each f (e # es) h = do { h \<leftarrow> (if e \<noteq> 0 then f e h else Some h); free_each f es h }"

primrec free_reply :: "nat \<Rightarrow> nat \<Rightarrow> reply_heap \<Rightarrow> reply_heap option" where
  "free_reply 0 = (\<lambda>p h. None)"
| "free_reply (Suc n) = (\<lambda>p h. do {
     c \<leftarrow> hp_cells h p;
     h \<leftarrow> (if rp_type c = REDIS_REPLY_INTEGER then Some h
          else if rp_type c = REDIS_REPLY_ARRAY then do {
            elements \<leftarrow> rp_elements c;
            es \<leftarrow> rp_element c;
            assert_c (elements \<le> length es);
            free_each (free_reply n) (take elements es) h }
          else if rp_type c = REDIS_REPLY_ERROR \<or> rp_type c = REDIS_REPLY_STATUS \<or> rp_type c = REDIS_REPLY_STRING
          then do { s \<leftarrow> rp_str c; Some h }
          else Some h);
     Some (h\<lparr>hp_cells := (hp_cells h)(p := None)\<rparr>) })"

text \<open>The recursion is bounded by the number of objects ever created.\<close>

definition freeReplyObject :: "nat \<Rightarrow> reply_heap \<Rightarrow> reply_heap option" where
  "freeReplyObject p h = free_reply (hp_next h) p h"

definition link_parent :: "redisReadTask list \<Rightarrow> redisReadTask \<Rightarrow> nat \<Rightarrow> reply_heap \<Rightarrow> reply_heap option" where
  "link_parent rstack task r h =
     (case tk_parent task of
        None \<Rightarrow> Some h
      | Some q \<Rightarrow> do {
          pt \<leftarrow> slot_get rstack q;
          parent \<leftarrow> hp_cells h (tk_obj pt);
          assert_c (rp_type parent = REDIS_REPLY_ARRAY);
          es \<leftarrow> rp_element parent;
          assert_c (0 \<le> tk_idx task \<and> nat (tk_idx task) < length es);
          update_cell (tk_obj pt) (\<lambda>c. c\<lparr>rp_element := Some (es[nat (tk_idx task) := r])\<rparr>) h })"

definition createStringObject ::
  "redisReadTask list \<Rightarrow> redisReadTask \<Rightarrow> mem \<Rightarrow> nat \<Rightarrow> reply_heap \<Rightarrow> (nat \<times> reply_heap) option" where
  "createStringObject rstack task str len h = do {
     let (r, h) = createReplyObject (tk_type task) h;
     value \<leftarrow> malloc (len + 1);
     assert_c (tk_type task = REDIS_REPLY_ERROR \<or> tk_type task = REDIS_REPLY_STATUS \<or>
               tk_type task = REDIS_REPLY_STRING);
     bytes \<leftarrow> mem_fetch str 0 len;
     value \<leftarrow> mem_store value 0 bytes;
     value \<leftarrow> mem_store value len [Some NUL];
     h \<leftarrow> update_cell r (\<lambda>c. c\<lparr>rp_str := Some value, rp_len := Some (c_int (int len))\<rparr>) h;
     h \<leftarrow> link_parent rstack task r h;
     Some (r, h) }"

text \<open>\<open>calloc\<close> fails on a count whose product with the pointer size is out of range; a negative
  \<open>int\<close> is such a count.\<close>

definition createArrayObject ::
  "redisReadTask list \<Rightarrow> redisReadTask \<Rightarrow> int \<Rightarrow> reply_heap \<Rightarrow> (nat \<times> reply_heap) option" where
  "createArrayObject rstack task elements h = do {
     let (r, h) = createReplyObject REDIS_REPLY_ARRAY h;
     let n = c_size_t elements;
     assert_c (8 * n < 2 ^ 63);
     h \<leftarrow> update_cell r (\<lambda>c. c\<lparr>rp_elements := Some n, rp_element := Some (replicate n 0)\<rparr>) h;
     h \<leftarrow> link_parent rstack task r h;
     Some (r, h) }"

definition createIntegerObject ::
  "redisReadTask list \<Rightarrow> redisReadTask \<Rightarrow> int \<Rightarrow> reply_heap \<Rightarrow> (nat \<times> reply_heap) option" where
  "createIntegerObject rstack task v h = do {
     let (r, h) = createReplyObject REDIS_REPLY_INTEGER h;
     h \<leftarrow> update_cell r (\<lambda>c. c\<lparr>rp_integer := Some v\<rparr>) h;
     h \<leftarrow> link_parent rstack task r h;
     Some (r, h) }"

definition createNilObject ::
  "redisReadTask list \<Rightarrow> redisReadTask \<Rightarrow> reply_heap \<Rightarrow> (nat \<times> reply_heap) option" where
  "createNilObject rstack task h = do {
     let (r, h) = createReplyObject REDIS_REPLY_NIL h;
     h \<leftarrow> link_parent rstack task r h;
     Some (r, h) }"

definition defaultFunctions :: redisReplyObjectFunctions where
  "defaultFunctions =
     \<lparr>fn_createString = Some createStringObject, fn_createArray = Some createArrayObject,
      fn_createInteger = Some createIntegerObject, fn_createNil = Some createNilObject,
      fn_freeObject = Some freeReplyObject\<rparr>"

section \<open>Reading from the buffer\<close>

text \<open>The block from the byte at the cursor on.\<close>

definition rd_ptr :: "redisReader \<Rightarrow> mem" where
  "rd_ptr r = drop (rd_pos r) (sds_buf (rd_buf r))"

definition readBytes :: "redisReader \<Rightarrow> nat \<Rightarrow> mem option \<times> redisReader" where
  "readBytes r bytes =
     (if bytes \<le> c_size_t (int (rd_len r) - int (rd_pos r))
      then (Some (rd_ptr r), r\<lparr>rd_pos := rd_pos r + bytes\<rparr>) else (None, r))"

function seek_cr :: "mem \<Rightarrow> nat \<Rightarrow> int \<Rightarrow> nat option" where
  "seek_cr s pos len =
     (if int pos < len then do {
        c \<leftarrow> mem_get s pos;
        if c \<noteq> CR then seek_cr s (pos + 1) len else Some pos }
      else Some pos)"
  by pat_completeness auto
termination by (relation "measure (\<lambda>(s, pos, len). nat (len - int pos))") auto

declare seek_cr.simps [simp del]

lemma seek_cr_ge: "seek_cr s pos len = Some p \<Longrightarrow> pos \<le> p"
proof (induction s pos len rule: seek_cr.induct)
  case (1 s pos len)
  from "1.prems" show ?case
    by (subst (asm) seek_cr.simps) (auto split: if_splits simp: bind_eq_Some_conv dest: "1.IH")
qed

function seek_loop :: "mem \<Rightarrow> nat \<Rightarrow> int \<Rightarrow> nat option option" where
  "seek_loop s pos len =
     (if int pos < len then do {
        pos \<leftarrow> seek_cr s pos len;
        c \<leftarrow> mem_get s pos;
        if c \<noteq> CR then Some None
        else do {
          c' \<leftarrow> mem_get s (pos + 1);
          if c' = LF then Some (Some pos) else seek_loop s (pos + 1) len } }
      else Some None)"
  by pat_completeness auto
termination
  by (relation "measure (\<lambda>(s, pos, len). nat (len - int pos))") (auto dest: seek_cr_ge)

declare seek_loop.simps [simp del]

definition seekNewline :: "mem \<Rightarrow> nat \<Rightarrow> nat option option" where
  "seekNewline s len = seek_loop s 0 (c_int (int len - 1))"

fun read_ll_loop :: "mem \<Rightarrow> int \<Rightarrow> int \<Rightarrow> int option" where
  "read_ll_loop [] v mult = None"
| "read_ll_loop (None # s) v mult = None"
| "read_ll_loop (Some c # s) v mult =
     (if c \<noteq> CR then
        (let dec = c_char c - c_char (CHR ''0'')
         in if 0 \<le> dec \<and> dec < 10 then read_ll_loop s (c_llong (c_llong (v * 10) + dec)) mult else Some (- 1))
      else Some (c_llong (mult * v)))"

definition readLongLong :: "mem \<Rightarrow> int option" where
  "readLongLong s = do {
     c \<leftarrow> mem_get s 0;
     if c = CHR ''-'' then read_ll_loop (drop 1 s) 0 (- 1)
     else if c = CHR ''+'' then read_ll_loop (drop 1 s) 0 1
     else read_ll_loop s 0 1 }"

text \<open>The start of the line and its length, when the line is complete.\<close>

definition readLine :: "redisReader \<Rightarrow> ((mem \<times> int) option \<times> redisReader) option" where
  "readLine r = do {
     let p = rd_ptr r;
     s \<leftarrow> seekNewline p (c_size_t (int (rd_len r) - int (rd_pos r)));
     Some (case s of
         Some n \<Rightarrow> (let len = c_int (int n)
                   in (Some (p, len), r\<lparr>rd_pos := c_size_t (int (rd_pos r) + len + 2)\<rparr>))
       | None \<Rightarrow> (None, r)) }"

section \<open>The task stack\<close>

definition rd_cur :: "redisReader \<Rightarrow> redisReadTask option" where
  "rd_cur r = do { assert_c (0 \<le> rd_ridx r); slot_get (rd_rstack r) (nat (rd_ridx r)) }"

function moveToNextTask :: "redisReader \<Rightarrow> redisReader option" where
  "moveToNextTask r =
     (if rd_ridx r < 0 then Some r
      else if rd_ridx r = 0 then Some (r\<lparr>rd_ridx := - 1\<rparr>)
      else do {
        cur \<leftarrow> rd_cur r;
        prv \<leftarrow> slot_get (rd_rstack r) (nat (rd_ridx r - 1));
        assert_c (tk_type prv = REDIS_REPLY_ARRAY);
        if tk_idx cur = tk_elements prv - 1 then moveToNextTask (r\<lparr>rd_ridx := rd_ridx r - 1\<rparr>)
        else do {
          assert_c (tk_idx cur < tk_elements prv);
          Some (r\<lparr>rd_rstack := (rd_rstack r)[nat (rd_ridx r) :=
                 cur\<lparr>tk_type := - 1, tk_elements := - 1, tk_idx := tk_idx cur + 1\<rparr>]\<rparr>) } })"
  by pat_completeness auto
termination by (relation "measure (\<lambda>r. nat (rd_ridx r + 1))") auto

declare moveToNextTask.simps [simp del]

definition set_root_reply :: "nat \<Rightarrow> redisReader \<Rightarrow> redisReader" where
  "set_root_reply obj r = (if rd_ridx r = 0 then r\<lparr>rd_reply := obj\<rparr> else r)"

section \<open>Items\<close>

text \<open>The calls through the function table, with the type code as object when there is none.\<close>

definition call_createString :: "redisReader \<Rightarrow> redisReadTask \<Rightarrow> mem \<Rightarrow> nat \<Rightarrow> int \<Rightarrow> reply_heap
    \<Rightarrow> (nat \<times> reply_heap) option" where
  "call_createString r cur p len code h =
     (case rd_fn r \<bind> fn_createString of
        Some f \<Rightarrow> f (rd_rstack r) cur p len h | None \<Rightarrow> Some (c_size_t code, h))"

definition call_createNil :: "redisReader \<Rightarrow> redisReadTask \<Rightarrow> reply_heap \<Rightarrow> (nat \<times> reply_heap) option" where
  "call_createNil r cur h =
     (case rd_fn r \<bind> fn_createNil of
        Some f \<Rightarrow> f (rd_rstack r) cur h | None \<Rightarrow> Some (c_size_t REDIS_REPLY_NIL, h))"

definition processLineItem :: "redisReader \<Rightarrow> reply_heap \<Rightarrow> (int \<times> redisReader \<times> reply_heap) option" where
  "processLineItem r h = do {
     cur \<leftarrow> rd_cur r;
     (line, r) \<leftarrow> readLine r;
     (case line of
        Some (p, len) \<Rightarrow> do {
          (obj, h) \<leftarrow>
            (if tk_type cur = REDIS_REPLY_INTEGER then
               (case rd_fn r \<bind> fn_createInteger of
                  Some f \<Rightarrow> do { v \<leftarrow> readLongLong p; f (rd_rstack r) cur v h }
                | None \<Rightarrow> Some (c_size_t REDIS_REPLY_INTEGER, h))
             else call_createString r cur p (c_size_t len) (tk_type cur) h);
          let r = set_root_reply obj r;
          r \<leftarrow> moveToNextTask r;
          Some (0, r, h) }
      | None \<Rightarrow> Some (- 1, r, h)) }"

text \<open>\<open>bytelen\<close> is an \<open>unsigned long\<close>: it wraps at 32 bits.\<close>

definition c_ulong :: "int \<Rightarrow> nat" where
  "c_ulong x = nat (take_bit 32 x)"

definition processBulkItem :: "redisReader \<Rightarrow> reply_heap \<Rightarrow> (int \<times> redisReader \<times> reply_heap) option" where
  "processBulkItem r h = do {
     cur \<leftarrow> rd_cur r;
     let p = rd_ptr r;
     s \<leftarrow> seekNewline p (c_size_t (int (rd_len r) - int (rd_pos r)));
     (case s of
        Some n \<Rightarrow> do {
          let bytelen = c_ulong (int n + 2);
          len \<leftarrow> readLongLong p;
          (if len < 0 then do {
             (obj, h) \<leftarrow> call_createNil r cur h;
             let r = set_root_reply obj (r\<lparr>rd_pos := c_size_t (int (rd_pos r) + int bytelen)\<rparr>);
             r \<leftarrow> moveToNextTask r;
             Some (0, r, h) }
           else do {
             let bytelen = c_ulong (int bytelen + int (c_ulong (int (c_ulong len) + 2)));
             if c_size_t (int (rd_pos r) + int bytelen) \<le> rd_len r then do {
               (obj, h) \<leftarrow> call_createString r cur (drop (n + 2) p) (c_size_t len) REDIS_REPLY_STRING h;
               let r = set_root_reply obj (r\<lparr>rd_pos := c_size_t (int (rd_pos r) + int bytelen)\<rparr>);
               r \<leftarrow> moveToNextTask r;
               Some (0, r, h) }
             else Some (- 1, r, h) }) }
      | None \<Rightarrow> Some (- 1, r, h)) }"

definition redisSetReplyReaderError :: "redisReader \<Rightarrow> sdshdr \<Rightarrow> reply_heap \<Rightarrow> (redisReader \<times> reply_heap) option" where
  "redisSetReplyReaderError r err h = do {
     h \<leftarrow> (if rd_reply r \<noteq> 0 then do {
              fn \<leftarrow> rd_fn r;
              free \<leftarrow> fn_freeObject fn;
              free (rd_reply r) h }
          else Some h);
     buf \<leftarrow> sdsempty;
     Some (r\<lparr>rd_buf := buf, rd_pos := 0, rd_len := 0, rd_ridx := - 1, rd_error := Some err\<rparr>, h) }"

definition processMultiBulkItem :: "redisReader \<Rightarrow> reply_heap \<Rightarrow> (int \<times> redisReader \<times> reply_heap) option" where
  "processMultiBulkItem r h = do {
     cur \<leftarrow> rd_cur r;
     if rd_ridx r = 8 then do {
       e \<leftarrow> sdsempty;
       err \<leftarrow> sdscatprintf e ''No support for nested multi bulk replies with depth > 7'';
       (r, h) \<leftarrow> redisSetReplyReaderError r err h;
       Some (- 1, r, h) }
     else do {
       (line, r) \<leftarrow> readLine r;
       (case line of
          Some (p, len) \<Rightarrow> do {
            elements \<leftarrow> readLongLong p;
            let root = (rd_ridx r = 0);
            (obj, r, h) \<leftarrow>
              (if elements = - 1 then do {
                 (obj, h) \<leftarrow> call_createNil r cur h;
                 r \<leftarrow> moveToNextTask r;
                 Some (obj, r, h) }
               else do {
                 (obj, h) \<leftarrow> (case rd_fn r \<bind> fn_createArray of
                     Some f \<Rightarrow> f (rd_rstack r) cur (c_int elements) h
                   | None \<Rightarrow> Some (c_size_t REDIS_REPLY_ARRAY, h));
                 if 0 < elements then do {
                   let cur = cur\<lparr>tk_elements := c_int elements, tk_obj := obj\<rparr>;
                   let i = nat (rd_ridx r);
                   assert_c (i + 1 < length (rd_rstack r));
                   let task = \<lparr>tk_type = - 1, tk_elements = - 1, tk_idx = 0, tk_obj = 0, tk_parent = Some i,
                               tk_privdata = rd_privdata r\<rparr>;
                   Some (obj, r\<lparr>rd_rstack := (rd_rstack r)[i := cur, i + 1 := task], rd_ridx := rd_ridx r + 1\<rparr>, h) }
                 else do {
                   r \<leftarrow> moveToNextTask r;
                   Some (obj, r, h) } });
            let r = (if root then r\<lparr>rd_reply := obj\<rparr> else r);
            Some (0, r, h) }
        | None \<Rightarrow> Some (- 1, r, h)) } }"

text \<open>What \<open>printf("%s")\<close> prints of a C string.\<close>

definition c_string :: "mem \<Rightarrow> string option" where
  "c_string m = do { n \<leftarrow> strlen m; Some (map the (take n m)) }"

definition reply_type_of :: "char \<Rightarrow> int option" where
  "reply_type_of c =
     (if c = CHR ''-'' then Some REDIS_REPLY_ERROR
      else if c = CHR ''+'' then Some REDIS_REPLY_STATUS
      else if c = CHR '':'' then Some REDIS_REPLY_INTEGER
      else if c = CHR ''$'' then Some REDIS_REPLY_STRING
      else if c = CHR ''*'' then Some REDIS_REPLY_ARRAY
      else None)"

definition processTyped :: "redisReader \<Rightarrow> reply_heap \<Rightarrow> (int \<times> redisReader \<times> reply_heap) option" where
  "processTyped r h = do {
     cur \<leftarrow> rd_cur r;
     if tk_type cur = REDIS_REPLY_ERROR \<or> tk_type cur = REDIS_REPLY_STATUS \<or> tk_type cur = REDIS_REPLY_INTEGER
     then processLineItem r h
     else if tk_type cur = REDIS_REPLY_STRING then processBulkItem r h
     else if tk_type cur = REDIS_REPLY_ARRAY then processMultiBulkItem r h
     else None }"

definition processItem :: "redisReader \<Rightarrow> reply_heap \<Rightarrow> (int \<times> redisReader \<times> reply_heap) option" where
  "processItem r h = do {
     cur \<leftarrow> rd_cur r;
     if tk_type cur < 0 then
       (case readBytes r 1 of
          (Some p, r) \<Rightarrow> do {
            c \<leftarrow> mem_get p 0;
            (case reply_type_of c of
               Some type \<Rightarrow>
                 processTyped (r\<lparr>rd_rstack := (rd_rstack r)[nat (rd_ridx r) := cur\<lparr>tk_type := type\<rparr>]\<rparr>) h
             | None \<Rightarrow> do {
                 e \<leftarrow> sdsempty;
                 byte \<leftarrow> sdscatrepr e p 1;
                 b \<leftarrow> c_string (sds_buf byte);
                 e \<leftarrow> sdsempty;
                 err \<leftarrow> sdscatprintf e (''Protocol error, got '' @ b @ '' as reply type byte'');
                 (r, h) \<leftarrow> redisSetReplyReaderError r err h;
                 Some (- 1, r, h) }) }
        | (None, r) \<Rightarrow> Some (- 1, r, h))
     else processTyped r h }"

section \<open>The reader\<close>

definition zero_task :: redisReadTask where
  "zero_task = \<lparr>tk_type = 0, tk_elements = 0, tk_idx = 0, tk_obj = 0, tk_parent = None, tk_privdata = 0\<rparr>"

definition redisReplyReaderCreate :: "redisReader option" where
  "redisReplyReaderCreate = do {
     buf \<leftarrow> sdsempty;
     Some \<lparr>rd_fn = Some defaultFunctions, rd_error = None, rd_reply = 0, rd_buf = buf, rd_pos = 0, rd_len = 0,
           rd_rstack = replicate 9 zero_task, rd_ridx = - 1, rd_privdata = 0\<rparr> }"

definition redisReplyReaderSetReplyObjectFunctions ::
  "redisReader \<Rightarrow> redisReplyObjectFunctions option \<Rightarrow> int \<times> redisReader" where
  "redisReplyReaderSetReplyObjectFunctions r fn =
     (if rd_reply r = 0 then (REDIS_OK, r\<lparr>rd_fn := fn\<rparr>) else (REDIS_ERR, r))"

definition redisReplyReaderSetPrivdata :: "redisReader \<Rightarrow> nat \<Rightarrow> int \<times> redisReader" where
  "redisReplyReaderSetPrivdata r privdata =
     (if rd_reply r = 0 then (REDIS_OK, r\<lparr>rd_privdata := privdata\<rparr>) else (REDIS_ERR, r))"

definition redisReplyReaderGetObject :: "redisReader \<Rightarrow> nat" where
  "redisReplyReaderGetObject r = rd_reply r"

definition redisReplyReaderGetError :: "redisReader \<Rightarrow> sdshdr option" where
  "redisReplyReaderGetError r = rd_error r"

text \<open>Freeing the reader: what is left of it is the store, with a pending reply released.\<close>

definition redisReplyReaderFree :: "redisReader \<Rightarrow> reply_heap \<Rightarrow> reply_heap option" where
  "redisReplyReaderFree r h =
     (case rd_fn r of
        Some fn \<Rightarrow> if rd_reply r \<noteq> 0 then do { free \<leftarrow> fn_freeObject fn; free (rd_reply r) h } else Some h
      | None \<Rightarrow> Some h)"

definition redisReplyReaderFeed :: "redisReader \<Rightarrow> mem option \<Rightarrow> nat \<Rightarrow> redisReader option" where
  "redisReplyReaderFeed r buf len =
     (case buf of
        Some b \<Rightarrow>
          if 1 \<le> len then do {
            r \<leftarrow> (if rd_len r = 0 \<and> 16 * 1024 < sdsavail (rd_buf r)
                  then do { e \<leftarrow> sdsempty; Some (r\<lparr>rd_buf := e, rd_pos := 0\<rparr>) }
                  else Some r);
            s \<leftarrow> sdscatlen (rd_buf r) b len;
            Some (r\<lparr>rd_buf := s, rd_len := sdslen s\<rparr>) }
          else Some r
      | None \<Rightarrow> Some r)"

partial_function (option) items_loop :: "redisReader \<Rightarrow> reply_heap \<Rightarrow> (redisReader \<times> reply_heap) option" where
  "items_loop r h =
     (if 0 \<le> rd_ridx r then do {
        (st, r, h) \<leftarrow> processItem r h;
        if st < 0 then Some (r, h) else items_loop r h }
      else Some (r, h))"

definition start_root :: "redisReader \<Rightarrow> redisReader" where
  "start_root r =
     (if rd_ridx r = - 1
      then r\<lparr>rd_rstack := (rd_rstack r)[0 :=
               \<lparr>tk_type = - 1, tk_elements = - 1, tk_idx = - 1, tk_obj = 0, tk_parent = None,
                tk_privdata = rd_privdata r\<rparr>],
             rd_ridx := 0\<rparr>
      else r)"

definition discard_consumed :: "redisReader \<Rightarrow> redisReader option" where
  "discard_consumed r =
     (if 1024 \<le> rd_pos r then do {
        s \<leftarrow> sdsrange (rd_buf r) (c_int (int (rd_pos r))) (- 1);
        Some (r\<lparr>rd_buf := s, rd_pos := 0, rd_len := sdslen s\<rparr>) }
      else Some r)"

text \<open>The status, the reply (NULL when there is none yet) and the new state.\<close>

definition redisReplyReaderGetReply :: "redisReader \<Rightarrow> reply_heap \<Rightarrow> (int \<times> nat \<times> redisReader \<times> reply_heap) option" where
  "redisReplyReaderGetReply r h =
     (if rd_len r = 0 then Some (REDIS_OK, 0, r, h)
      else do {
        (r, h) \<leftarrow> items_loop (start_root r) h;
        r \<leftarrow> discard_consumed r;
        if rd_ridx r = - 1 then do {
          let aux = rd_reply r;
          let r = r\<lparr>rd_reply := 0\<rparr>;
          if rd_error r \<noteq> None then Some (REDIS_ERR, 0, r, h) else Some (REDIS_OK, aux, r, h) }
        else Some (REDIS_OK, 0, r, h) })"

end
