(* ===== verification/ReaderBytes.thy ===== *)
theory ReaderBytes
  imports Reader
begin

text \<open>
  The byte-level functions of the reply reader as functions of the unread bytes: the search for
  the end of a line, the parsing of an integer, and the reader's cursor.
\<close>

section \<open>The end of a line\<close>

fun find_crlf :: "string \<Rightarrow> nat option" where
  "find_crlf (c # d # s) = (if c = CR \<and> d = LF then Some 0 else map_option Suc (find_crlf (d # s)))"
| "find_crlf s = None"

lemma find_crlf_skip:
  "CR \<notin> set a \<Longrightarrow> find_crlf (a @ b) = map_option ((+) (length a)) (find_crlf b)"
proof (induction a)
  case Nil
  then show ?case by (simp add: option.map_ident_strong)
next
  case (Cons c a)
  have "find_crlf (c # a @ b) = map_option Suc (find_crlf (a @ b))"
    using Cons.prems by (cases "a @ b") auto
  then show ?case using Cons by (simp add: option.map_comp comp_def)
qed

lemma find_crlf_bound: "find_crlf s = Some n \<Longrightarrow> n + 2 \<le> length s"
  by (induction s arbitrary: n rule: find_crlf.induct) (auto split: if_splits)

lemma find_crlf_split: "find_crlf s = Some n \<Longrightarrow> s = take n s @ CR # LF # drop (n + 2) s"
  by (induction s arbitrary: n rule: find_crlf.induct) (auto split: if_splits)

lemma find_crlf_append: "find_crlf s = Some n \<Longrightarrow> find_crlf (s @ t) = Some n"
  by (induction s arbitrary: n rule: find_crlf.induct) (auto split: if_splits)

lemma find_crlf_line: "\<not> sublist CRLF s \<Longrightarrow> find_crlf (s @ CR # LF # t) = Some (length s)"
proof (induction s)
  case (Cons c s)
  have nc: "\<not> sublist CRLF s" using Cons.prems by (meson sublist_Cons_right)
  have "\<not> (c = CR \<and> (\<exists>u. s = LF # u))"
    using Cons.prems by (auto simp: sublist_def)
  then have "find_crlf (c # s @ CR # LF # t) = map_option Suc (find_crlf (s @ CR # LF # t))"
    by (cases s) auto
  then show ?case using Cons.IH [OF nc] by simp
qed simp

lemma seek_cr_eq:
  assumes "p \<le> l" and "l < length x"
  shows "seek_cr (map Some x @ m) p (int l) = Some (p + length (takeWhile (\<lambda>c. c \<noteq> CR) (drop p (take l x))))"
  using assms(1)
proof (induction "l - p" arbitrary: p)
  case 0
  then show ?case by (simp add: seek_cr.simps)
next
  case (Suc d)
  then have p: "p < l" by simp
  then have d: "drop p (take l x) = x ! p # drop (Suc p) (take l x)"
    using assms(2) by (simp add: Cons_nth_drop_Suc [of p "take l x", symmetric])
  have g: "mem_get (map Some x @ m) p = Some (x ! p)" using p assms(2) by simp
  have IH: "seek_cr (map Some x @ m) (Suc p) (int l)
      = Some (Suc p + length (takeWhile (\<lambda>c. c \<noteq> CR) (drop (Suc p) (take l x))))"
    using Suc.hyps(2) p by (intro Suc.hyps(1)) auto
  show ?case
    using p g IH unfolding d by (subst seek_cr.simps) (simp del: mem_get_append)
qed

lemma seek_loop_eq:
  assumes "p \<le> length x" and "m = map Some x @ Some NUL # slack"
  shows "seek_loop m p (int (length x) - 1) = Some (map_option ((+) p) (find_crlf (drop p x)))"
  using assms(1)
proof (induction "length x - p" arbitrary: p rule: less_induct)
  case less
  show ?case
  proof (cases "Suc p < length x")
    case False
    then have "length (drop p x) \<le> 1" by simp
    then have "find_crlf (drop p x) = None" by (cases "drop p x" rule: find_crlf.cases) auto
    then show ?thesis using False by (subst seek_loop.simps) simp
  next
    case True
    let ?l = "length x - 1"
    define a where "a = takeWhile (\<lambda>c. c \<noteq> CR) (drop p (take ?l x))"
    define q where "q = p + length a"
    have len: "int (length x) - 1 = int ?l" using True by linarith
    have al: "length a \<le> ?l - p" using length_takeWhile_le [of _ "drop p (take ?l x)"] by (simp add: a_def)
    then have ql: "q \<le> ?l" "q < length x" using True by (simp_all add: q_def)
    have cr: "seek_cr m p (int ?l) = Some q"
      using seek_cr_eq [of p ?l x "Some NUL # slack"] True assms(2) by (simp add: a_def q_def)
    have ta: "a = take (length a) (drop p (take ?l x))" unfolding a_def by (rule takeWhile_eq_take)
    then have ta': "a = take (length a) (drop p x)" using al by (simp add: drop_take min_def)
    have "drop p x = take (length a) (drop p x) @ drop (length a) (drop p x)" by (rule append_take_drop_id [symmetric])
    then have split: "drop p x = a @ drop q x" unfolding ta' [symmetric] by (simp add: q_def add.commute)
    have "CR \<notin> set a" unfolding a_def by (auto dest: set_takeWhileD)
    then have fc: "find_crlf (drop p x) = map_option ((+) (length a)) (find_crlf (drop q x))"
      unfolding split by (rule find_crlf_skip)
    have dq: "drop q x = x ! q # drop (Suc q) x" using ql(2) by (simp add: Cons_nth_drop_Suc)
    have gq: "mem_get m q = Some (x ! q)" using ql(2) assms(2) by simp
    show ?thesis
    proof (cases "x ! q = CR")
      case False
      have "q = ?l"
      proof (rule ccontr)
        assume "q \<noteq> ?l"
        then have "length a < length (drop p (take ?l x))" using ql(1) by (simp add: q_def)
        then have "drop p (take ?l x) ! length a = CR"
          using nth_length_takeWhile [of "\<lambda>c. c \<noteq> CR" "drop p (take ?l x)"] by (simp add: a_def)
        then show False using False \<open>q \<noteq> ?l\<close> ql(1) True by (simp add: q_def)
      qed
      then have "drop (Suc q) x = []" by simp
      then show ?thesis
        using False True cr gq fc dq unfolding len by (subst seek_loop.simps) simp
    next
      case cr_q: True
      have IH: "seek_loop m (Suc q) (int (length x) - 1) = Some (map_option ((+) (Suc q)) (find_crlf (drop (Suc q) x)))"
        using ql True by (intro less.hyps) (auto simp: q_def)
      show ?thesis
      proof (cases "drop (Suc q) x")
        case Nil
        then have "Suc q = length x" using ql(2) by simp
        then have "mem_get m (Suc q) = Some NUL" using assms(2) by (simp add: mem_get_def nth_append)
        then show ?thesis
          using Nil True cr gq fc dq cr_q IH unfolding len by (subst seek_loop.simps) simp
      next
        case (Cons d s)
        then have sq: "Suc q < length x" by (metis drop_all list.discI not_le_imp_less)
        then have "d = x ! Suc q" using Cons by (metis Cons_nth_drop_Suc list.inject)
        then have g1: "mem_get m (Suc q) = Some d" using sq assms(2) by simp
        have "find_crlf (drop q x) = (if d = LF then Some 0 else map_option Suc (find_crlf (drop (Suc q) x)))"
          using dq Cons cr_q by simp
        then show ?thesis
          using True cr gq g1 fc cr_q IH unfolding len
          by (subst seek_loop.simps) (auto simp: q_def option.map_comp comp_def add.assoc intro!: option.map_cong0)
      qed
    qed
  qed
qed

lemma seekNewline_eq:
  "length x \<le> nat INT_MAX \<Longrightarrow> seekNewline (map Some x @ Some NUL # slack) (length x) = Some (find_crlf x)"
  using seek_loop_eq [of 0 x _ slack] by (simp add: seekNewline_def c_int_id INT_MAX_def option.map_ident_strong)

section \<open>Integers\<close>

fun ll_val :: "string \<Rightarrow> int \<Rightarrow> int \<Rightarrow> int" where
  "ll_val [] v mult = c_llong (mult * v)"
| "ll_val (c # s) v mult =
     (let dec = c_char c - c_char (CHR ''0'')
      in if 0 \<le> dec \<and> dec < 10 then ll_val s (c_llong (c_llong (v * 10) + dec)) mult else - 1)"

definition parse_ll :: "string \<Rightarrow> int" where
  "parse_ll s =
     (case s of
        [] \<Rightarrow> 0
      | c # t \<Rightarrow> if c = CHR ''-'' then ll_val t 0 (- 1) else if c = CHR ''+'' then ll_val t 0 1 else ll_val s 0 1)"

lemma ll_val_range: "- 9223372036854775808 \<le> ll_val s v mult \<and> ll_val s v mult < 9223372036854775808"
proof (induction s arbitrary: v)
  case Nil
  have "- (2 ^ 63) \<le> signed_take_bit 63 (mult * v)" and "signed_take_bit 63 (mult * v) < 2 ^ 63"
    by (rule signed_take_bit_int_greater_eq_minus_exp, rule signed_take_bit_int_less_exp)
  then show ?case by (simp add: c_llong_def)
qed (simp add: Let_def)

lemma parse_ll_range: "- 9223372036854775808 \<le> parse_ll s \<and> parse_ll s < 9223372036854775808"
  using ll_val_range by (simp add: parse_ll_def del: ll_val.simps split: list.split)

lemma read_ll_loop_eq:
  "CR \<in> set x \<Longrightarrow> read_ll_loop (map Some x @ m) v mult = Some (ll_val (takeWhile (\<lambda>c. c \<noteq> CR) x) v mult)"
  by (induction x arbitrary: v) (auto simp: Let_def)

lemma readLongLong_eq:
  assumes "CR \<in> set x"
  shows "readLongLong (map Some x @ m) = Some (parse_ll (takeWhile (\<lambda>c. c \<noteq> CR) x))"
proof (cases x)
  case (Cons c t)
  show ?thesis
  proof (cases "c = CR")
    case True
    then show ?thesis using Cons by (simp add: readLongLong_def mem_get_def parse_ll_def c_llong_id)
  next
    case False
    then have "CR \<in> set t" using assms Cons by simp
    then show ?thesis
      using Cons False read_ll_loop_eq [of t m] read_ll_loop_eq [OF assms, of m]
      by (simp add: readLongLong_def mem_get_def parse_ll_def)
  qed
qed (use assms in simp)

lemma c_char_digit: "d < 10 \<Longrightarrow> c_char (digit_char d) - c_char (CHR ''0'') = int d"
  by (simp add: c_char_def)

lemma ll_val_digits:
  assumes "n < 2 ^ 63"
  shows "ll_val (show_nat n @ s) 0 mult = ll_val s (int n) mult"
  using assms
proof (induction n arbitrary: s rule: show_nat.induct)
  case (1 n)
  show ?case
  proof (cases "n < 10")
    case True
    then show ?thesis by (simp add: show_nat.simps [of n] c_char_digit c_llong_id Let_def)
  next
    case False
    have IH: "ll_val (show_nat (n div 10) @ digit_char (n mod 10) # s) 0 mult
        = ll_val (digit_char (n mod 10) # s) (int (n div 10)) mult"
      using "1.IH" [OF False] "1.prems" by simp
    have d: "c_char (digit_char (n mod 10)) - c_char (CHR ''0'') = int (n mod 10)" by (rule c_char_digit) simp
    have n: "int (n div 10) * 10 + int (n mod 10) = int n" by (metis div_mult_mod_eq of_nat_add of_nat_mult of_nat_numeral)
    have "c_llong (int (n div 10) * 10) = int (n div 10) * 10"
      using "1.prems" n by (intro c_llong_id) simp_all
    moreover have "c_llong (int n) = int n" using "1.prems" by (intro c_llong_id) auto
    ultimately have "ll_val (digit_char (n mod 10) # s) (int (n div 10)) mult = ll_val s (int n) mult"
      using d n by (simp del: of_nat_div of_nat_mod add: Let_def)
    then show ?thesis using IH False by (simp add: show_nat.simps [of n])
  qed
qed

lemma show_nat_hd: "hd (show_nat n) \<noteq> CHR ''-'' \<and> hd (show_nat n) \<noteq> CHR ''+''"
  using show_nat_digits [of "hd (show_nat n)" n] digit_not_special by auto

lemma parse_show_nat: "n < 2 ^ 63 \<Longrightarrow> parse_ll (show_nat n) = int n"
  using show_nat_hd [of n] ll_val_digits [of n "[]" 1]
  by (cases "show_nat n") (auto simp: parse_ll_def c_llong_id)

lemma parse_show_int:
  assumes "- 9223372036854775808 < v" and "v < 9223372036854775808"
  shows "parse_ll (show_int v) = v"
proof (cases "v < 0")
  case True
  then have "nat (- v) < 2 ^ 63" using assms by simp
  from ll_val_digits [OF this, of "[]" "- 1"] True assms show ?thesis
    by (simp add: show_int_def parse_ll_def c_llong_id)
next
  case False
  then show ?thesis using parse_show_nat [of "nat v"] assms by (simp add: show_int_def)
qed

lemma show_int_no_CR: "CR \<notin> set (show_int v)"
proof
  assume "CR \<in> set (show_int v)"
  then have "is_digit CR" by (auto simp: show_int_def split: if_splits dest: show_nat_digits)
  then show False by (simp add: is_digit_def)
qed

section \<open>The cursor\<close>

text \<open>The buffer invariant of a reader and its unread bytes.\<close>

definition buf_ok :: "redisReader \<Rightarrow> bool" where
  "buf_ok r \<longleftrightarrow> sds_wf (rd_buf r) \<and> rd_len r = length (sds_str (rd_buf r)) \<and> rd_pos r \<le> rd_len r"

definition rest :: "redisReader \<Rightarrow> string" where
  "rest r = drop (rd_pos r) (sds_str (rd_buf r))"

definition advance :: "nat \<Rightarrow> redisReader \<Rightarrow> redisReader" where
  "advance n r = r\<lparr>rd_pos := rd_pos r + n\<rparr>"

lemma buf_bound: "buf_ok r \<Longrightarrow> length (rest r) + rd_pos r = rd_len r \<and> rd_len r \<le> nat INT_MAX"
  by (auto simp: buf_ok_def rest_def elim: sds_wf_repr)

lemma rd_ptr_eq:
  assumes "buf_ok r"
  obtains slack where "rd_ptr r = map Some (rest r) @ Some NUL # slack"
    and "length (rd_ptr r) \<le> nat INT_MAX + 1"
proof -
  have wf: "sds_wf (rd_buf r)" using assms by (simp add: buf_ok_def)
  then obtain slack where s: "rd_buf r = sds_of (sds_str (rd_buf r)) slack"
    "length (sds_str (rd_buf r)) + length slack \<le> nat INT_MAX"
    by (rule sds_wf_repr)
  then have "sds_buf (rd_buf r) = map Some (sds_str (rd_buf r)) @ Some NUL # slack" by (metis sds_of_sel(3))
  then have "rd_ptr r = map Some (rest r) @ Some NUL # slack"
    using assms by (simp add: rd_ptr_def rest_def buf_ok_def drop_map)
  then show ?thesis using s(2) by (intro that) (auto simp: rest_def)
qed

lemma avail_eq: "buf_ok r \<Longrightarrow> c_size_t (int (rd_len r) - int (rd_pos r)) = length (rest r)"
proof -
  assume "buf_ok r"
  then have "int (rd_len r) - int (rd_pos r) = int (length (rest r))" "length (rest r) \<le> 2147483647"
    using buf_bound [of r] by (auto simp: INT_MAX_def)
  then show ?thesis by (simp add: c_size_t_of_nat)
qed

lemma advance_ok: "buf_ok r \<Longrightarrow> n \<le> length (rest r) \<Longrightarrow> buf_ok (advance n r) \<and> rest (advance n r) = drop n (rest r)"
  by (auto simp: buf_ok_def rest_def advance_def add.commute)

lemma advance_sel [simp]:
  "rd_fn (advance n r) = rd_fn r" "rd_error (advance n r) = rd_error r" "rd_reply (advance n r) = rd_reply r"
  "rd_rstack (advance n r) = rd_rstack r" "rd_ridx (advance n r) = rd_ridx r"
  "rd_privdata (advance n r) = rd_privdata r" "rd_buf (advance n r) = rd_buf r" "rd_len (advance n r) = rd_len r"
  by (simp_all add: advance_def)

lemma readLine_eq:
  assumes "buf_ok r"
  shows "readLine r = Some (case find_crlf (rest r) of
      None \<Rightarrow> (None, r) | Some n \<Rightarrow> (Some (rd_ptr r, int n), advance (n + 2) r))"
proof -
  obtain slack where p: "rd_ptr r = map Some (rest r) @ Some NUL # slack" using rd_ptr_eq [OF assms] by blast
  have l: "length (rest r) + rd_pos r \<le> nat INT_MAX" using buf_bound [OF assms] by simp
  have s: "seekNewline (rd_ptr r) (length (rest r)) = Some (find_crlf (rest r))"
    unfolding p using l by (intro seekNewline_eq) simp
  have "c_int (int n) = int n \<and> c_size_t (int (rd_pos r) + int n + 2) = rd_pos r + (n + 2)"
    if "find_crlf (rest r) = Some n" for n
    using find_crlf_bound [OF that] l c_size_t_of_nat [of "rd_pos r + n + 2"]
    by (simp add: c_int_id INT_MAX_def algebra_simps)
  with s show ?thesis
    by (auto simp: readLine_def avail_eq [OF assms] advance_def Let_def split: option.split)
qed

lemma line_number:
  assumes "buf_ok r" and "find_crlf (rest r) = Some n"
  shows "readLongLong (rd_ptr r) = Some (parse_ll (takeWhile (\<lambda>c. c \<noteq> CR) (rest r)))"
proof -
  have "CR \<in> set (rest r)" using find_crlf_split [OF assms(2)]
    by (metis in_set_conv_decomp)
  then show ?thesis using rd_ptr_eq [OF assms(1)] readLongLong_eq by metis
qed

lemma readBytes_eq:
  assumes "buf_ok r"
  shows "readBytes r 1 = (case rest r of [] \<Rightarrow> (None, r) | c # s \<Rightarrow> (Some (rd_ptr r), advance 1 r))"
  using avail_eq [OF assms] by (cases "rest r") (simp_all add: readBytes_def advance_def)

section \<open>Items as functions of the unread bytes\<close>

lemma c_ulong_of_nat [c_arith]: "n < 4294967296 \<Longrightarrow> c_ulong (int n) = n"
  unfolding c_ulong_def by (simp add: take_bit_int_eq_self)

abbreviation line_int :: "redisReader \<Rightarrow> int" where
  "line_int r \<equiv> parse_ll (takeWhile (\<lambda>c. c \<noteq> CR) (rest r))"

lemma call_create_advance [simp]:
  "call_createString (advance n r) = call_createString r" "call_createNil (advance n r) = call_createNil r"
  by (simp_all add: call_createString_def call_createNil_def fun_eq_iff cong: option.case_cong)

definition line_object :: "redisReader \<Rightarrow> redisReadTask \<Rightarrow> nat \<Rightarrow> reply_heap \<Rightarrow> (nat \<times> reply_heap) option" where
  "line_object r cur n h =
     (if tk_type cur = REDIS_REPLY_INTEGER then
        (case rd_fn r \<bind> fn_createInteger of
           Some f \<Rightarrow> f (rd_rstack r) cur (line_int r) h | None \<Rightarrow> Some (c_size_t REDIS_REPLY_INTEGER, h))
      else call_createString r cur (rd_ptr r) n (tk_type cur) h)"

text \<open>What follows the creation of an object: the root reply is set, the cursor moved past the
  item, and the next task chosen.\<close>

definition finish_item :: "redisReader \<Rightarrow> nat \<Rightarrow> nat \<times> reply_heap \<Rightarrow> (int \<times> redisReader \<times> reply_heap) option" where
  "finish_item r k oh = do {
     r \<leftarrow> moveToNextTask (set_root_reply (fst oh) (advance k r));
     Some (0, r, snd oh) }"

lemma processLineItem_eq:
  assumes "buf_ok r" and "rd_cur r = Some cur"
  shows "processLineItem r h = (case find_crlf (rest r) of
      None \<Rightarrow> Some (- 1, r, h) | Some n \<Rightarrow> line_object r cur n h \<bind> finish_item r (n + 2))"
proof (cases "find_crlf (rest r)")
  case None
  then show ?thesis using assms readLine_eq [OF assms(1)] by (simp add: processLineItem_def)
next
  case (Some n)
  have "c_size_t (int n) = n"
    using find_crlf_bound [OF Some] buf_bound [OF assms(1)] by (intro c_size_t_of_nat) (simp add: INT_MAX_def)
  moreover have "(a \<bind> (\<lambda>(obj, h). moveToNextTask (set_root_reply obj (advance (Suc (Suc n)) r)) \<bind> (\<lambda>r. Some (0, r, h))))
      = a \<bind> finish_item r (Suc (Suc n))" for a
    by (auto simp: finish_item_def split: prod.split intro!: arg_cong [where f = "Option.bind a"] ext)
  ultimately show ?thesis
    using Some assms readLine_eq [OF assms(1)] line_number [OF assms(1) Some]
    by (simp add: processLineItem_def line_object_def split: option.split)
qed

text \<open>The total length of a bulk item as the code computes it, modulo \<open>2^32\<close>.\<close>

definition bulk_total :: "nat \<Rightarrow> int \<Rightarrow> nat" where
  "bulk_total n v = c_ulong (int (n + 2) + int (c_ulong (int (c_ulong v) + 2)))"

lemma bulk_total_bound: "bulk_total n v < 4294967296"
proof -
  have "nat (take_bit 32 x) < 4294967296" for x :: int
    using take_bit_int_less_exp [of 32 x] by (simp add: nat_less_iff)
  then show ?thesis unfolding bulk_total_def c_ulong_def .
qed

lemma processBulkItem_eq:
  assumes "buf_ok r" and "rd_cur r = Some cur"
  shows "find_crlf (rest r) = None \<Longrightarrow> processBulkItem r h = Some (- 1, r, h)"
    and "find_crlf (rest r) = Some n \<Longrightarrow> line_int r < 0 \<Longrightarrow>
      processBulkItem r h = call_createNil r cur h \<bind> finish_item r (n + 2)"
    and "find_crlf (rest r) = Some n \<Longrightarrow> 0 \<le> line_int r \<Longrightarrow> n + nat (line_int r) + 4 \<le> length (rest r) \<Longrightarrow>
      processBulkItem r h = call_createString r cur (drop (n + 2) (rd_ptr r)) (nat (line_int r)) REDIS_REPLY_STRING h
        \<bind> finish_item r (n + nat (line_int r) + 4)"
    and "find_crlf (rest r) = Some n \<Longrightarrow> 0 \<le> line_int r \<Longrightarrow> length (rest r) < n + nat (line_int r) + 4 \<Longrightarrow>
      line_int r < 4294967296 - int n - 4 \<Longrightarrow> processBulkItem r h = Some (- 1, r, h)"
    and "find_crlf (rest r) = Some n \<Longrightarrow> 4294967296 - int n - 4 \<le> line_int r \<Longrightarrow>
      rd_fn r = Some defaultFunctions \<Longrightarrow>
      processBulkItem r h = (if bulk_total n (line_int r) \<le> length (rest r) then None else Some (- 1, r, h))"
proof -
  obtain slack where p: "rd_ptr r = map Some (rest r) @ Some NUL # slack" "length (rd_ptr r) \<le> nat INT_MAX + 1"
    using rd_ptr_eq [OF assms(1)] .
  have bd: "length (rest r) + rd_pos r = rd_len r" "rd_len r \<le> 2147483647"
    using buf_bound [OF assms(1)] by (simp_all add: INT_MAX_def)
  have seek: "seekNewline (rd_ptr r) (length (rest r)) = Some (find_crlf (rest r))"
    unfolding p using bd by (intro seekNewline_eq) (simp add: INT_MAX_def)
  show "find_crlf (rest r) = None \<Longrightarrow> processBulkItem r h = Some (- 1, r, h)"
    using seek assms(2) by (simp add: processBulkItem_def avail_eq [OF assms(1)])
  assume n: "find_crlf (rest r) = Some n"
  note num = line_number [OF assms(1) n]
  let ?v = "line_int r"
  have nl: "n + 2 \<le> length (rest r)" using find_crlf_bound [OF n] .
  have fin: "(a \<bind> (\<lambda>(obj, h). moveToNextTask (set_root_reply obj (r\<lparr>rd_pos := rd_pos r + k\<rparr>)) \<bind> (\<lambda>r. Some (0, r, h))))
      = a \<bind> finish_item r k" for a k
    by (auto simp: finish_item_def advance_def split: prod.split intro!: arg_cong [where f = "Option.bind a"] ext)
  have b1: "c_ulong (int n + 2) = n + 2" using c_ulong_of_nat [of "n + 2"] nl bd by (simp add: add.commute)
  have s1: "c_size_t (int (rd_pos r) + int (n + 2)) = rd_pos r + (n + 2)"
    using c_size_t_of_nat [of "rd_pos r + (n + 2)"] nl bd by (simp add: algebra_simps)
  show "?v < 0 \<Longrightarrow> processBulkItem r h = call_createNil r cur h \<bind> finish_item r (n + 2)"
    using seek n num assms(2) b1 s1 fin [of "call_createNil r cur h" "n + 2"]
    by (simp add: processBulkItem_def avail_eq [OF assms(1)] Let_def)
  have nonneg: "processBulkItem r h =
      (let k = c_ulong (int (n + 2) + int (c_ulong (int (c_ulong ?v) + 2)))
       in if c_size_t (int (rd_pos r) + int k) \<le> rd_len r
          then call_createString r cur (drop (n + 2) (rd_ptr r)) (c_size_t ?v) REDIS_REPLY_STRING h \<bind>
            (\<lambda>(obj, h). moveToNextTask (set_root_reply obj (r\<lparr>rd_pos := c_size_t (int (rd_pos r) + int k)\<rparr>)) \<bind>
               (\<lambda>r. Some (0, r, h)))
          else Some (- 1, r, h))" if "0 \<le> ?v"
    using seek n num assms(2) b1 that by (simp add: processBulkItem_def avail_eq [OF assms(1)] Let_def)
  have small: "c_ulong (int (n + 2) + int (c_ulong (int (c_ulong ?v) + 2))) = n + nat ?v + 4 \<and> c_size_t ?v = nat ?v \<and>
      c_size_t (int (rd_pos r) + int (n + nat ?v + 4)) = rd_pos r + (n + nat ?v + 4)"
    if "0 \<le> ?v" "?v < 4294967296 - int n - 4"
  proof -
    define m where "m = nat ?v"
    have m: "?v = int m" using that(1) by (simp add: m_def)
    then have ml: "n + m + 4 < 4294967296" using that(2) by simp
    have "c_ulong ?v = m" "c_ulong (int m + 2) = m + 2" "c_ulong (int (n + 2) + int (m + 2)) = n + m + 4"
      using c_ulong_of_nat [of m] c_ulong_of_nat [of "m + 2"] c_ulong_of_nat [of "n + m + 4"] ml m
      by (simp_all add: algebra_simps)
    moreover have "c_size_t ?v = m" "c_size_t (int (rd_pos r) + int (n + m + 4)) = rd_pos r + (n + m + 4)"
      using c_size_t_of_nat [of m] c_size_t_of_nat [of "rd_pos r + (n + m + 4)"] ml m bd by simp_all
    ultimately show ?thesis using m by simp
  qed
  show "processBulkItem r h = call_createString r cur (drop (n + 2) (rd_ptr r)) (nat ?v) REDIS_REPLY_STRING h
      \<bind> finish_item r (n + nat ?v + 4)" if "0 \<le> ?v" "n + nat ?v + 4 \<le> length (rest r)"
  proof -
    have "?v < 4294967296 - int n - 4" using that bd by linarith
    from small [OF that(1) this] have k: "c_ulong (int (n + 2) + int (c_ulong (int (c_ulong ?v) + 2))) = n + nat ?v + 4"
      "c_size_t ?v = nat ?v" "c_size_t (int (rd_pos r) + int (n + nat ?v + 4)) = rd_pos r + (n + nat ?v + 4)" by blast+
    show ?thesis
      unfolding nonneg [OF that(1)] Let_def k fin using that(2) bd by simp
  qed
  show "processBulkItem r h = Some (- 1, r, h)"
    if "0 \<le> ?v" "length (rest r) < n + nat ?v + 4" "?v < 4294967296 - int n - 4"
  proof -
    from small [OF that(1,3)] have k: "c_ulong (int (n + 2) + int (c_ulong (int (c_ulong ?v) + 2))) = n + nat ?v + 4"
      "c_size_t ?v = nat ?v" "c_size_t (int (rd_pos r) + int (n + nat ?v + 4)) = rd_pos r + (n + nat ?v + 4)" by blast+
    show ?thesis unfolding nonneg [OF that(1)] Let_def k using that(2) bd by simp
  qed
  show "processBulkItem r h = (if bulk_total n ?v \<le> length (rest r) then None else Some (- 1, r, h))"
    if "4294967296 - int n - 4 \<le> ?v" "rd_fn r = Some defaultFunctions"
  proof -
    have v0: "0 \<le> ?v" using that(1) nl bd by linarith
    have "?v < 2 ^ 63" using parse_ll_range [of "takeWhile (\<lambda>c. c \<noteq> CR) (rest r)"] by simp
    then have sz: "c_size_t ?v = nat ?v" using v0 by (intro c_size_t_id) auto
    have "length (drop (n + 2) (rd_ptr r)) < nat ?v"
      using p(2) that(1) bd(1,2) nl by (simp add: INT_MAX_def)
    then have "mem_fetch (drop (n + 2) (rd_ptr r)) 0 (nat ?v) = None" by (simp add: mem_fetch_def)
    then have "call_createString r cur (drop (n + 2) (rd_ptr r)) (nat ?v) REDIS_REPLY_STRING h = None"
      using that(2) by (cases "malloc (nat ?v + 1)")
        (simp_all add: call_createString_def defaultFunctions_def createStringObject_def createReplyObject_def)
    moreover have "c_size_t (int (rd_pos r) + int (bulk_total n ?v)) = rd_pos r + bulk_total n ?v"
      using c_size_t_of_nat [of "rd_pos r + bulk_total n ?v"] bulk_total_bound [of n ?v] bd by simp
    ultimately show ?thesis
      unfolding nonneg [OF v0] Let_def sz bulk_total_def [symmetric] using bd(1) by simp
  qed
qed

end
