(* ===== verification/ReaderParse.thy ===== *)
theory ReaderParse
  imports ReaderBytes
begin

text \<open>
  What the reply reader computes: the replies of the protocol as a datatype with their
  encoding, their representation as objects in the store, and the proof that the item loop
  turns the encoding of a reply into its representation.
\<close>

section \<open>Replies and their encoding\<close>

datatype reply =
    RStatus string | RError string | RInteger int | RString string | RNil | RArray "reply list"

fun enc :: "reply \<Rightarrow> string" where
  "enc (RStatus s) = CHR ''+'' # s @ CRLF"
| "enc (RError s) = CHR ''-'' # s @ CRLF"
| "enc (RInteger i) = CHR '':'' # show_int i @ CRLF"
| "enc (RString s) = CHR ''$'' # show_nat (length s) @ CRLF @ s @ CRLF"
| "enc RNil = CHR ''$'' # ''-1'' @ CRLF"
| "enc (RArray vs) = CHR ''*'' # show_nat (length vs) @ CRLF @ concat (map enc vs)"

text \<open>Replies the wire format can carry, with arrays nested at most \<open>k\<close> deep.\<close>

fun sendable :: "nat \<Rightarrow> reply \<Rightarrow> bool" where
  "sendable k (RStatus s) \<longleftrightarrow> \<not> sublist CRLF s"
| "sendable k (RError s) \<longleftrightarrow> \<not> sublist CRLF s"
| "sendable k (RInteger i) \<longleftrightarrow> - 9223372036854775808 < i \<and> i < 9223372036854775808"
| "sendable k (RString s) \<longleftrightarrow> True"
| "sendable k RNil \<longleftrightarrow> True"
| "sendable 0 (RArray vs) \<longleftrightarrow> False"
| "sendable (Suc k) (RArray vs) \<longleftrightarrow> list_all (sendable k) vs"

section \<open>Replies in the store\<close>

definition blank_cell :: "int \<Rightarrow> redisReply" where
  "blank_cell t =
     \<lparr>rp_type = t, rp_integer = None, rp_len = None, rp_str = None, rp_elements = None, rp_element = None\<rparr>"

definition str_cell :: "int \<Rightarrow> string \<Rightarrow> redisReply" where
  "str_cell t s = (blank_cell t)\<lparr>rp_str := Some (map Some s @ [Some NUL]), rp_len := Some (int (length s))\<rparr>"

definition int_cell :: "int \<Rightarrow> redisReply" where
  "int_cell i = (blank_cell REDIS_REPLY_INTEGER)\<lparr>rp_integer := Some i\<rparr>"

definition arr_cell :: "nat list \<Rightarrow> redisReply" where
  "arr_cell es = (blank_cell REDIS_REPLY_ARRAY)\<lparr>rp_elements := Some (length es), rp_element := Some es\<rparr>"

fun nodes :: "reply \<Rightarrow> nat" where
  "nodes (RArray vs) = Suc (sum_list (map nodes vs))"
| "nodes v = 1"

text \<open>Objects are created in the order of the encoding, so a reply occupies a segment.\<close>

fun addrs :: "nat \<Rightarrow> reply list \<Rightarrow> nat list" where
  "addrs n [] = []"
| "addrs n (v # vs) = n # addrs (n + nodes v) vs"

fun reply_in :: "(nat \<Rightarrow> redisReply option) \<Rightarrow> nat \<Rightarrow> reply \<Rightarrow> bool"
  and replies_in :: "(nat \<Rightarrow> redisReply option) \<Rightarrow> nat \<Rightarrow> reply list \<Rightarrow> bool" where
  "reply_in c n (RStatus s) \<longleftrightarrow> c n = Some (str_cell REDIS_REPLY_STATUS s)"
| "reply_in c n (RError s) \<longleftrightarrow> c n = Some (str_cell REDIS_REPLY_ERROR s)"
| "reply_in c n (RInteger i) \<longleftrightarrow> c n = Some (int_cell i)"
| "reply_in c n (RString s) \<longleftrightarrow> c n = Some (str_cell REDIS_REPLY_STRING s)"
| "reply_in c n RNil \<longleftrightarrow> c n = Some (blank_cell REDIS_REPLY_NIL)"
| "reply_in c n (RArray vs) \<longleftrightarrow> c n = Some (arr_cell (addrs (n + 1) vs)) \<and> replies_in c (n + 1) vs"
| "replies_in c n [] \<longleftrightarrow> True"
| "replies_in c n (v # vs) \<longleftrightarrow> reply_in c n v \<and> replies_in c (n + nodes v) vs"

lemma nodes_pos: "0 < nodes v"
  by (cases v) auto

lemma length_addrs [simp]: "length (addrs n vs) = length vs"
  by (induction vs arbitrary: n) auto

lemma reply_in_frame:
  "reply_in c n v \<Longrightarrow> (\<And>a. n \<le> a \<Longrightarrow> a < n + nodes v \<Longrightarrow> c' a = c a) \<Longrightarrow> reply_in c' n v"
  "replies_in c n vs \<Longrightarrow> (\<And>a. n \<le> a \<Longrightarrow> a < n + sum_list (map nodes vs) \<Longrightarrow> c' a = c a) \<Longrightarrow> replies_in c' n vs"
proof (induction c n v and c n vs rule: reply_in_replies_in.induct)
  case (8 c n v vs)
  have "reply_in c' n v" using "8.prems" by (intro "8.IH"(1)) auto
  moreover have "replies_in c' (n + nodes v) vs" using "8.prems" by (intro "8.IH"(2)) auto
  ultimately show ?case by simp
qed auto

section \<open>Creating objects\<close>

definition parent_ok :: "redisReadTask list \<Rightarrow> redisReadTask \<Rightarrow> reply_heap \<Rightarrow> bool" where
  "parent_ok stack task h \<longleftrightarrow>
     (case tk_parent task of
        None \<Rightarrow> True
      | Some q \<Rightarrow> q < length stack \<and> tk_obj (stack ! q) < hp_next h \<and>
          (\<exists>es. hp_cells h (tk_obj (stack ! q)) = Some (arr_cell es) \<and>
             0 \<le> tk_idx task \<and> nat (tk_idx task) < length es))"

definition put_link :: "redisReadTask list \<Rightarrow> redisReadTask \<Rightarrow> nat \<Rightarrow> (nat \<Rightarrow> redisReply option)
    \<Rightarrow> nat \<Rightarrow> redisReply option" where
  "put_link stack task p c =
     (case tk_parent task of
        None \<Rightarrow> c
      | Some q \<Rightarrow> c(tk_obj (stack ! q) \<mapsto>
          arr_cell ((the (rp_element (the (c (tk_obj (stack ! q))))))[nat (tk_idx task) := p])))"

definition add_cell :: "redisReadTask list \<Rightarrow> redisReadTask \<Rightarrow> redisReply \<Rightarrow> reply_heap \<Rightarrow> reply_heap" where
  "add_cell stack task c h =
     h\<lparr>hp_cells := (put_link stack task (hp_next h) (hp_cells h))(hp_next h \<mapsto> c), hp_next := hp_next h + 1\<rparr>"

lemma heap_update_order [simp]: "h\<lparr>hp_next := n, hp_cells := c\<rparr> = h\<lparr>hp_cells := c, hp_next := n\<rparr>"
  by simp

lemma link_parent_ok:
  assumes "parent_ok stack task h"
  shows "link_parent stack task (hp_next h)
      (h\<lparr>hp_cells := (hp_cells h)(hp_next h \<mapsto> c), hp_next := hp_next h + 1\<rparr>) = Some (add_cell stack task c h)"
proof (cases "tk_parent task")
  case None
  then show ?thesis by (simp add: link_parent_def add_cell_def put_link_def)
next
  case (Some q)
  then obtain es where q: "q < length stack" "tk_obj (stack ! q) < hp_next h"
    "hp_cells h (tk_obj (stack ! q)) = Some (arr_cell es)" "0 \<le> tk_idx task" "nat (tk_idx task) < length es"
    using assms by (auto simp: parent_ok_def)
  then show ?thesis using Some
    by (simp add: link_parent_def add_cell_def put_link_def update_cell_def arr_cell_def blank_cell_def fun_upd_twist)
qed

lemma createIntegerObject_ok:
  "parent_ok stack task h \<Longrightarrow>
     createIntegerObject stack task v h = Some (hp_next h, add_cell stack task (int_cell v) h)"
  using link_parent_ok [of stack task h "int_cell v"]
  by (simp add: createIntegerObject_def createReplyObject_def update_cell_def int_cell_def blank_cell_def)

lemma createNilObject_ok:
  "parent_ok stack task h \<Longrightarrow>
     createNilObject stack task h = Some (hp_next h, add_cell stack task (blank_cell REDIS_REPLY_NIL) h)"
  using link_parent_ok [of stack task h "blank_cell REDIS_REPLY_NIL"]
  by (simp add: createNilObject_def createReplyObject_def blank_cell_def)

lemma createArrayObject_ok:
  assumes "parent_ok stack task h" and "n < 2 ^ 31"
  shows "createArrayObject stack task (int n) h = Some (hp_next h, add_cell stack task (arr_cell (replicate n 0)) h)"
  using link_parent_ok [OF assms(1), of "arr_cell (replicate n 0)"] assms(2)
  by (simp add: createArrayObject_def createReplyObject_def update_cell_def arr_cell_def blank_cell_def c_size_t_of_nat)

lemma createStringObject_ok:
  assumes "parent_ok stack task h" and "length s \<le> nat INT_MAX"
    and "tk_type task \<in> {REDIS_REPLY_ERROR, REDIS_REPLY_STATUS, REDIS_REPLY_STRING}"
  shows "createStringObject stack task (map Some s @ m) (length s) h
    = Some (hp_next h, add_cell stack task (str_cell (tk_type task) s) h)"
proof -
  have "drop (length s) (replicate (length s + 1) None) = [None :: char option]" by (subst drop_replicate) simp
  then have "mem_store (replicate (length s + 1) None) 0 (map Some s) = Some (map Some s @ [None])"
    by (simp add: mem_store_def)
  moreover have "mem_store (map Some s @ [None]) (length s) [Some NUL] = Some (map Some s @ [Some NUL])"
    by (simp add: mem_store_def)
  ultimately show ?thesis
    using link_parent_ok [OF assms(1), of "str_cell (tk_type task) s"] assms(2,3)
    by (auto simp: createStringObject_def createReplyObject_def malloc_def mem_fetch_def update_cell_def str_cell_def
        blank_cell_def c_int_id INT_MAX_def)
qed

section \<open>One item\<close>

text \<open>The reader is about to read an item at depth \<open>d\<close> of the stack.\<close>

definition at_item :: "redisReader \<Rightarrow> reply_heap \<Rightarrow> nat \<Rightarrow> bool" where
  "at_item r h d \<longleftrightarrow>
     buf_ok r \<and> rd_fn r = Some defaultFunctions \<and> rd_ridx r = int d \<and> d \<le> 8 \<and> length (rd_rstack r) = 9 \<and>
     tk_type (rd_rstack r ! d) = - 1 \<and> tk_parent (rd_rstack r ! d) = (if d = 0 then None else Some (d - 1)) \<and>
     parent_ok (rd_rstack r) (rd_rstack r ! d) h"

text \<open>What reading the reply \<open>v\<close> at depth \<open>d\<close> has done before the move to the next task.\<close>

definition item_read :: "redisReader \<Rightarrow> reply_heap \<Rightarrow> nat \<Rightarrow> reply \<Rightarrow> string \<Rightarrow> redisReader \<Rightarrow> reply_heap \<Rightarrow> bool" where
  "item_read r h d v y r1 h1 \<longleftrightarrow>
     buf_ok r1 \<and> rest r1 = y \<and> rd_fn r1 = rd_fn r \<and> rd_error r1 = rd_error r \<and> rd_privdata r1 = rd_privdata r \<and>
     rd_ridx r1 = int d \<and> length (rd_rstack r1) = 9 \<and> take d (rd_rstack r1) = take d (rd_rstack r) \<and>
     tk_idx (rd_rstack r1 ! d) = tk_idx (rd_rstack r ! d) \<and>
     tk_parent (rd_rstack r1 ! d) = tk_parent (rd_rstack r ! d) \<and>
     rd_reply r1 = (if d = 0 then hp_next h else rd_reply r) \<and>
     hp_next h1 = hp_next h + nodes v \<and> reply_in (hp_cells h1) (hp_next h) v \<and>
     (\<forall>a<hp_next h. hp_cells h1 a = put_link (rd_rstack r) (rd_rstack r ! d) (hp_next h) (hp_cells h) a)"

definition reads_item :: "nat \<Rightarrow> reply \<Rightarrow> bool" where
  "reads_item d v \<longleftrightarrow>
     (\<forall>r h y. at_item r h d \<longrightarrow> rest r = enc v @ y \<longrightarrow>
        (\<exists>r1 h1. items_loop r h = (moveToNextTask r1 \<bind> (\<lambda>r2. items_loop r2 h1)) \<and> item_read r h d v y r1 h1))"

definition typed_at :: "redisReader \<Rightarrow> nat \<Rightarrow> int \<Rightarrow> redisReader" where
  "typed_at r d t = (advance 1 r)\<lparr>rd_rstack := (rd_rstack r)[d := (rd_rstack r ! d)\<lparr>tk_type := t\<rparr>]\<rparr>"

lemma typed_at_sel [simp]:
  "rd_fn (typed_at r d t) = rd_fn r" "rd_error (typed_at r d t) = rd_error r" "rd_reply (typed_at r d t) = rd_reply r"
  "rd_rstack (typed_at r d t) = (rd_rstack r)[d := (rd_rstack r ! d)\<lparr>tk_type := t\<rparr>]"
  "rd_ridx (typed_at r d t) = rd_ridx r" "rd_privdata (typed_at r d t) = rd_privdata r"
  by (simp_all add: typed_at_def)

lemma typed_at_buf:
  "buf_ok r \<Longrightarrow> rest r = c # x \<Longrightarrow> buf_ok (typed_at r d t) \<and> rest (typed_at r d t) = x"
  using advance_ok [of r 1] by (simp add: typed_at_def buf_ok_def rest_def)

lemma item_step:
  assumes "at_item r h d" and "rest r = c # x" and "reply_type_of c = Some t"
  shows "processItem r h = processTyped (typed_at r d t) h"
proof -
  obtain slack where p: "rd_ptr r = map Some (rest r) @ Some NUL # slack"
    using rd_ptr_eq assms(1) by (metis at_item_def)
  have cur: "rd_cur r = Some (rd_rstack r ! d)" using assms(1) by (simp add: rd_cur_def at_item_def)
  have "readBytes r 1 = (Some (rd_ptr r), advance 1 r)"
    using assms(1,2) readBytes_eq [of r] by (simp add: at_item_def)
  moreover have "mem_get (rd_ptr r) 0 = Some c" using p assms(2) by (simp add: mem_get_def)
  ultimately show ?thesis
    using cur assms by (simp add: processItem_def at_item_def typed_at_def)
qed

lemma processTyped_eq:
  assumes "at_item r h d"
  shows "processTyped (typed_at r d t) h =
    (if t = REDIS_REPLY_ERROR \<or> t = REDIS_REPLY_STATUS \<or> t = REDIS_REPLY_INTEGER then processLineItem (typed_at r d t) h
     else if t = REDIS_REPLY_STRING then processBulkItem (typed_at r d t) h
     else if t = REDIS_REPLY_ARRAY then processMultiBulkItem (typed_at r d t) h else None)"
  using assms by (simp add: processTyped_def rd_cur_def at_item_def)

lemma typed_parent:
  assumes "at_item r h d"
  shows "parent_ok (rd_rstack (typed_at r d t)) (rd_rstack (typed_at r d t) ! d) h"
    and "add_cell (rd_rstack (typed_at r d t)) (rd_rstack (typed_at r d t) ! d) c h
      = add_cell (rd_rstack r) (rd_rstack r ! d) c h"
    and "rd_cur (typed_at r d t) = Some ((rd_rstack r ! d)\<lparr>tk_type := t\<rparr>)"
  using assms by (auto simp: at_item_def parent_ok_def add_cell_def put_link_def rd_cur_def split: option.splits)

lemma items_loop_step:
  assumes "at_item r h d" and "processItem r h = (moveToNextTask r1 \<bind> (\<lambda>r. Some (0, r, h1)))"
  shows "items_loop r h = (moveToNextTask r1 \<bind> (\<lambda>r2. items_loop r2 h1))"
  using assms by (subst items_loop.simps) (cases "moveToNextTask r1"; simp add: at_item_def)

lemma leaf_read:
  assumes "at_item r h d" and "buf_ok (advance k (typed_at r d t))" and "rest (advance k (typed_at r d t)) = y"
    and "nodes v = 1" and "\<And>c n. reply_in c n v \<longleftrightarrow> c n = Some cell"
  shows "item_read r h d v y (set_root_reply (hp_next h) (advance k (typed_at r d t)))
    (add_cell (rd_rstack r) (rd_rstack r ! d) cell h)"
  using assms
  by (auto simp: item_read_def at_item_def set_root_reply_def add_cell_def buf_ok_def rest_def)

lemma finish_reads:
  assumes "at_item r h d" and "rest r = c # x" and "reply_type_of c = Some t" and "k \<le> length x"
    and "processTyped (typed_at r d t) h
      = finish_item (typed_at r d t) k (hp_next h, add_cell (rd_rstack r) (rd_rstack r ! d) cell h)"
    and "nodes v = 1" and "\<And>c n. reply_in c n v \<longleftrightarrow> c n = Some cell"
  shows "\<exists>r1 h1. items_loop r h = (moveToNextTask r1 \<bind> (\<lambda>r2. items_loop r2 h1)) \<and> item_read r h d v (drop k x) r1 h1"
proof -
  have b: "buf_ok (typed_at r d t)" "rest (typed_at r d t) = x"
    using typed_at_buf assms(1,2) by (auto simp: at_item_def)
  have a: "buf_ok (advance k (typed_at r d t))" "rest (advance k (typed_at r d t)) = drop k x"
    using advance_ok [OF b(1), of k] b(2) assms(4) by simp_all
  have "processItem r h = (moveToNextTask (set_root_reply (hp_next h) (advance k (typed_at r d t))) \<bind>
      (\<lambda>ra. Some (0, ra, add_cell (rd_rstack r) (rd_rstack r ! d) cell h)))"
    using item_step [OF assms(1-3)] assms(5) by (simp add: finish_item_def)
  from items_loop_step [OF assms(1) this] leaf_read [OF assms(1) a assms(6,7)] show ?thesis by blast
qed

lemma find_crlf_header:
  "CR \<notin> set x \<Longrightarrow> find_crlf (x @ CRLF @ y) = Some (length x) \<and> takeWhile (\<lambda>c. c \<noteq> CR) (x @ CRLF @ y) = x"
  using find_crlf_skip [of x "CRLF @ y"] by (auto simp: takeWhile_append)

lemma show_nat_no_CR: "CR \<notin> set (show_nat n)"
  using show_nat_digits [of CR n] by (auto simp: is_digit_def)

text \<open>The creation calls at a typed item.\<close>

lemma typed_calls:
  assumes "at_item r h d"
  defines "cur \<equiv> \<lambda>t. (rd_rstack r ! d)\<lparr>tk_type := t\<rparr>"
  shows "call_createNil (typed_at r d t) (cur t) h
      = Some (hp_next h, add_cell (rd_rstack r) (rd_rstack r ! d) (blank_cell REDIS_REPLY_NIL) h)"
    and "length s \<le> nat INT_MAX \<Longrightarrow> t \<in> {REDIS_REPLY_ERROR, REDIS_REPLY_STATUS, REDIS_REPLY_STRING} \<Longrightarrow>
      call_createString (typed_at r d t) (cur t) (map Some s @ m) (length s) code h
      = Some (hp_next h, add_cell (rd_rstack r) (rd_rstack r ! d) (str_cell t s) h)"
    and "line_object (typed_at r d REDIS_REPLY_INTEGER) (cur REDIS_REPLY_INTEGER) n h
      = Some (hp_next h, add_cell (rd_rstack r) (rd_rstack r ! d) (int_cell (line_int (typed_at r d REDIS_REPLY_INTEGER))) h)"
proof -
  have fn: "rd_fn r = Some defaultFunctions" and nth: "rd_rstack (typed_at r d t) ! d = cur t" for t
    using assms(1) by (simp_all add: at_item_def cur_def)
  have par: "parent_ok (rd_rstack (typed_at r d t)) (cur t) h"
    "add_cell (rd_rstack (typed_at r d t)) (cur t) c h = add_cell (rd_rstack r) (rd_rstack r ! d) c h" for t c
    using typed_parent(1,2) [OF assms(1), of t] nth by simp_all
  note un = call_createNil_def call_createString_def line_object_def defaultFunctions_def
  show "call_createNil (typed_at r d t) (cur t) h
      = Some (hp_next h, add_cell (rd_rstack r) (rd_rstack r ! d) (blank_cell REDIS_REPLY_NIL) h)"
    using createNilObject_ok [OF par(1)] par(2) fn by (simp add: un)
  show "call_createString (typed_at r d t) (cur t) (map Some s @ m) (length s) code h
      = Some (hp_next h, add_cell (rd_rstack r) (rd_rstack r ! d) (str_cell t s) h)"
    if "length s \<le> nat INT_MAX" "t \<in> {REDIS_REPLY_ERROR, REDIS_REPLY_STATUS, REDIS_REPLY_STRING}"
    using createStringObject_ok [OF par(1) that(1), where m = m] par(2) fn that(2) by (auto simp: un cur_def)
  show "line_object (typed_at r d REDIS_REPLY_INTEGER) (cur REDIS_REPLY_INTEGER) n h
      = Some (hp_next h, add_cell (rd_rstack r) (rd_rstack r ! d) (int_cell (line_int (typed_at r d REDIS_REPLY_INTEGER))) h)"
    using createIntegerObject_ok [OF par(1)] par(2) fn by (simp add: un cur_def)
qed

lemma typed_line:
  assumes "at_item r h d" and "rest r = c # x" and "reply_type_of c = Some t"
    and "t \<in> {REDIS_REPLY_ERROR, REDIS_REPLY_STATUS, REDIS_REPLY_INTEGER}" and "find_crlf x = Some n"
  shows "processTyped (typed_at r d t) h
    = line_object (typed_at r d t) ((rd_rstack r ! d)\<lparr>tk_type := t\<rparr>) n h \<bind> finish_item (typed_at r d t) (n + 2)"
proof -
  have b: "buf_ok (typed_at r d t)" "rest (typed_at r d t) = x"
    using typed_at_buf assms(1,2) by (auto simp: at_item_def)
  show ?thesis
    using processTyped_eq [OF assms(1), of t] processLineItem_eq [OF b(1) typed_parent(3) [OF assms(1)], of h]
      assms(4,5) b(2) by auto
qed

lemma string_reads:
  assumes "at_item r h d" and "rest r = c # s @ CRLF @ y" and "reply_type_of c = Some t"
    and "t \<in> {REDIS_REPLY_ERROR, REDIS_REPLY_STATUS}" and "\<not> sublist CRLF s"
    and "nodes v = 1" and "\<And>c n. reply_in c n v \<longleftrightarrow> c n = Some (str_cell t s)"
  shows "\<exists>r1 h1. items_loop r h = (moveToNextTask r1 \<bind> (\<lambda>r2. items_loop r2 h1)) \<and> item_read r h d v y r1 h1"
proof -
  let ?r = "typed_at r d t"
  have b: "buf_ok ?r" "rest ?r = s @ CRLF @ y" using typed_at_buf assms(1,2) by (auto simp: at_item_def)
  obtain slack where p: "rd_ptr ?r = map Some (s @ CRLF @ y) @ Some NUL # slack" using rd_ptr_eq [OF b(1)] b(2) by metis
  have "length s \<le> nat INT_MAX" using buf_bound [OF b(1)] b(2) by simp
  then have "line_object ?r ((rd_rstack r ! d)\<lparr>tk_type := t\<rparr>) (length s) h
      = Some (hp_next h, add_cell (rd_rstack r) (rd_rstack r ! d) (str_cell t s) h)"
    using typed_calls(2) [OF assms(1), of s t "map Some (CRLF @ y) @ Some NUL # slack"] p assms(4)
    by (auto simp: line_object_def reply_types)
  moreover have "find_crlf (s @ CRLF @ y) = Some (length s)" using find_crlf_line [OF assms(5)] by simp
  ultimately have "processTyped ?r h
      = finish_item ?r (length s + 2) (hp_next h, add_cell (rd_rstack r) (rd_rstack r ! d) (str_cell t s) h)"
    using typed_line [OF assms(1-3)] assms(4) by auto
  from finish_reads [OF assms(1-3) _ this assms(6,7)] show ?thesis by simp
qed

lemma integer_reads:
  assumes "at_item r h d" and "rest r = enc (RInteger i) @ y"
    and "- 9223372036854775808 < i" and "i < 9223372036854775808"
  shows "\<exists>r1 h1. items_loop r h = (moveToNextTask r1 \<bind> (\<lambda>r2. items_loop r2 h1)) \<and> item_read r h d (RInteger i) y r1 h1"
proof -
  let ?t = REDIS_REPLY_INTEGER
  have rest: "rest r = CHR '':'' # show_int i @ CRLF @ y" using assms(2) by simp
  have ty: "reply_type_of (CHR '':'') = Some ?t" by (simp add: reply_type_of_def)
  have b: "rest (typed_at r d ?t) = show_int i @ CRLF @ y" using typed_at_buf [OF _ rest] assms(1) by (simp add: at_item_def)
  note crlf = find_crlf_header [OF show_int_no_CR [of i], of y]
  have "line_int (typed_at r d ?t) = i" unfolding b using crlf parse_show_int [OF assms(3,4)] by simp
  then have "processTyped (typed_at r d ?t) h = finish_item (typed_at r d ?t) (length (show_int i) + 2)
      (hp_next h, add_cell (rd_rstack r) (rd_rstack r ! d) (int_cell i) h)"
    using typed_line [OF assms(1) rest ty, of "length (show_int i)"] crlf typed_calls(3) [OF assms(1)] by simp
  from finish_reads [OF assms(1) rest ty _ this, of "RInteger i"] show ?thesis by simp
qed

lemma typed_bulk:
  assumes "at_item r h d" and "rest r = CHR ''$'' # x"
  shows "buf_ok (typed_at r d REDIS_REPLY_STRING)" and "rest (typed_at r d REDIS_REPLY_STRING) = x"
    and "processTyped (typed_at r d REDIS_REPLY_STRING) h = processBulkItem (typed_at r d REDIS_REPLY_STRING) h"
  using typed_at_buf [OF _ assms(2)] assms(1) processTyped_eq [OF assms(1)]
  by (simp_all add: at_item_def reply_types)

lemma bulk_reads:
  assumes "at_item r h d" and "rest r = enc (RString s) @ y"
  shows "\<exists>r1 h1. items_loop r h = (moveToNextTask r1 \<bind> (\<lambda>r2. items_loop r2 h1)) \<and> item_read r h d (RString s) y r1 h1"
proof -
  let ?t = REDIS_REPLY_STRING and ?x = "show_nat (length s)"
  let ?r = "typed_at r d ?t"
  have rest: "rest r = CHR ''$'' # ?x @ CRLF @ s @ CRLF @ y" using assms(2) by simp
  have ty: "reply_type_of (CHR ''$'') = Some ?t" by (simp add: reply_type_of_def)
  note b = typed_bulk [OF assms(1) rest]
  obtain slack where p: "rd_ptr ?r = map Some (?x @ CRLF @ s @ CRLF @ y) @ Some NUL # slack"
    using rd_ptr_eq [OF b(1)] b(2) by metis
  have len: "length s \<le> nat INT_MAX" using buf_bound [OF b(1)] b(2) by simp
  note crlf = find_crlf_header [OF show_nat_no_CR [of "length s"], of "s @ CRLF @ y"]
  have num: "line_int ?r = int (length s)"
    unfolding b(2) using crlf parse_show_nat [of "length s"] len by (simp add: INT_MAX_def)
  have "drop (length ?x + 2) (rd_ptr ?r) = map Some s @ map Some (CRLF @ y) @ Some NUL # slack" unfolding p by simp
  then have "call_createString ?r ((rd_rstack r ! d)\<lparr>tk_type := ?t\<rparr>) (drop (length ?x + 2) (rd_ptr ?r)) (length s) ?t h
      = Some (hp_next h, add_cell (rd_rstack r) (rd_rstack r ! d) (str_cell ?t s) h)"
    using typed_calls(2) [OF assms(1) len, of ?t] by simp
  moreover have "find_crlf (rest ?r) = Some (length ?x)" unfolding b(2) using crlf by blast
  ultimately have "processTyped ?r h = finish_item ?r (length ?x + length s + 4)
      (hp_next h, add_cell (rd_rstack r) (rd_rstack r ! d) (str_cell ?t s) h)"
    using processBulkItem_eq(3) [OF b(1) typed_parent(3) [OF assms(1)], of "length ?x" h] num b(2,3) by simp
  from finish_reads [OF assms(1) rest ty _ this, of "RString s"] show ?thesis by (simp add: numeral_eq_Suc)
qed

lemma nil_reads:
  assumes "at_item r h d" and "rest r = enc RNil @ y"
  shows "\<exists>r1 h1. items_loop r h = (moveToNextTask r1 \<bind> (\<lambda>r2. items_loop r2 h1)) \<and> item_read r h d RNil y r1 h1"
proof -
  let ?t = REDIS_REPLY_STRING
  let ?r = "typed_at r d ?t"
  have rest: "rest r = CHR ''$'' # ''-1'' @ CRLF @ y" using assms(2) by simp
  have ty: "reply_type_of (CHR ''$'') = Some ?t" by (simp add: reply_type_of_def)
  note b = typed_bulk [OF assms(1) rest]
  note crlf = find_crlf_header [of "''-1''" y]
  have "parse_ll ''-1'' = - 1" by code_simp
  then have num: "line_int ?r = - 1" unfolding b(2) using crlf by simp
  have "find_crlf (rest ?r) = Some 2" unfolding b(2) using crlf by simp
  then have "processTyped ?r h = finish_item ?r 4
      (hp_next h, add_cell (rd_rstack r) (rd_rstack r ! d) (blank_cell REDIS_REPLY_NIL) h)"
    using processBulkItem_eq(2) [OF b(1) typed_parent(3) [OF assms(1)], of 2 h] num b(3) typed_calls(1) [OF assms(1)]
    by simp
  from finish_reads [OF assms(1) rest ty _ this, of RNil] show ?thesis by simp
qed

section \<open>Arrays\<close>

text \<open>The reader is about to read element \<open>i\<close> of the \<open>m\<close> elements of the array object \<open>a\<close>.\<close>

definition at_element :: "redisReader \<Rightarrow> reply_heap \<Rightarrow> nat \<Rightarrow> nat \<Rightarrow> nat \<Rightarrow> nat \<Rightarrow> nat list \<Rightarrow> bool" where
  "at_element r h d a m i es \<longleftrightarrow>
     at_item r h (Suc d) \<and> tk_type (rd_rstack r ! d) = REDIS_REPLY_ARRAY \<and> tk_elements (rd_rstack r ! d) = int m \<and>
     tk_obj (rd_rstack r ! d) = a \<and> hp_cells h a = Some (arr_cell es) \<and> length es = m \<and>
     tk_idx (rd_rstack r ! Suc d) = int i"

definition elements_read :: "redisReader \<Rightarrow> reply_heap \<Rightarrow> nat \<Rightarrow> nat \<Rightarrow> nat \<Rightarrow> nat list \<Rightarrow> reply list \<Rightarrow> string
    \<Rightarrow> redisReader \<Rightarrow> reply_heap \<Rightarrow> bool" where
  "elements_read r h d a i es vs y r1 h1 \<longleftrightarrow>
     buf_ok r1 \<and> rest r1 = y \<and> rd_fn r1 = rd_fn r \<and> rd_error r1 = rd_error r \<and> rd_privdata r1 = rd_privdata r \<and>
     rd_reply r1 = rd_reply r \<and> rd_ridx r1 = int d \<and> length (rd_rstack r1) = 9 \<and>
     take (Suc d) (rd_rstack r1) = take (Suc d) (rd_rstack r) \<and>
     hp_next h1 = hp_next h + sum_list (map nodes vs) \<and> replies_in (hp_cells h1) (hp_next h) vs \<and>
     (\<forall>b<hp_next h. hp_cells h1 b = ((hp_cells h)(a \<mapsto> arr_cell (take i es @ addrs (hp_next h) vs))) b)"

lemma move_last:
  assumes "rd_ridx r = int (Suc d)" and "Suc d < length (rd_rstack r)"
    and "tk_type (rd_rstack r ! d) = REDIS_REPLY_ARRAY"
    and "tk_idx (rd_rstack r ! Suc d) = tk_elements (rd_rstack r ! d) - 1"
  shows "moveToNextTask r = moveToNextTask (r\<lparr>rd_ridx := int d\<rparr>)"
  using assms by (subst moveToNextTask.simps) (simp add: rd_cur_def)

lemma move_next:
  assumes "rd_ridx r = int (Suc d)" and "Suc d < length (rd_rstack r)"
    and "tk_type (rd_rstack r ! d) = REDIS_REPLY_ARRAY"
    and "tk_idx (rd_rstack r ! Suc d) + 1 < tk_elements (rd_rstack r ! d)"
  shows "moveToNextTask r = Some (r\<lparr>rd_rstack := (rd_rstack r)[Suc d := (rd_rstack r ! Suc d)
      \<lparr>tk_type := - 1, tk_elements := - 1, tk_idx := tk_idx (rd_rstack r ! Suc d) + 1\<rparr>]\<rparr>)"
  using assms by (subst moveToNextTask.simps) (simp add: rd_cur_def)

lemma take_Suc_nth: "take (Suc d) xs = take (Suc d) ys \<Longrightarrow> d < length xs \<Longrightarrow> d < length ys \<Longrightarrow> xs ! d = ys ! d"
  by (metis lessI nth_take)

lemma element_step:
  assumes "at_element r h d a m i es" and "item_read r h (Suc d) v z r1 h1" and "Suc i < m"
  shows "\<exists>r2. moveToNextTask r1 = Some r2 \<and> at_element r2 h1 d a m (Suc i) (es[i := hp_next h]) \<and> rest r2 = z \<and>
    rd_fn r2 = rd_fn r \<and> rd_error r2 = rd_error r \<and> rd_privdata r2 = rd_privdata r \<and> rd_reply r2 = rd_reply r \<and>
    take (Suc d) (rd_rstack r2) = take (Suc d) (rd_rstack r)"
proof -
  have it: "at_item r h (Suc d)" "tk_type (rd_rstack r ! d) = REDIS_REPLY_ARRAY"
    "tk_elements (rd_rstack r ! d) = int m" "tk_obj (rd_rstack r ! d) = a" "hp_cells h a = Some (arr_cell es)"
    "length es = m" "tk_idx (rd_rstack r ! Suc d) = int i"
    using assms(1) by (simp_all add: at_element_def)
  have len: "length (rd_rstack r) = 9" "Suc d \<le> 8" "tk_parent (rd_rstack r ! Suc d) = Some d"
    using it(1) by (simp_all add: at_item_def)
  have a: "a < hp_next h" using it(1,4) len by (auto simp: at_item_def parent_ok_def)
  have r1: "buf_ok r1" "rest r1 = z" "rd_fn r1 = rd_fn r" "rd_error r1 = rd_error r" "rd_privdata r1 = rd_privdata r"
    "rd_ridx r1 = int (Suc d)" "length (rd_rstack r1) = 9" "take (Suc d) (rd_rstack r1) = take (Suc d) (rd_rstack r)"
    "tk_idx (rd_rstack r1 ! Suc d) = int i" "tk_parent (rd_rstack r1 ! Suc d) = Some d" "rd_reply r1 = rd_reply r"
    "hp_next h < hp_next h1"
    "\<forall>b<hp_next h. hp_cells h1 b = put_link (rd_rstack r) (rd_rstack r ! Suc d) (hp_next h) (hp_cells h) b"
    using assms(2) it(7) len nodes_pos [of v] by (simp_all add: item_read_def)
  have d: "rd_rstack r1 ! d = rd_rstack r ! d" using take_Suc_nth [OF r1(8)] r1(7) len by simp
  have h1a: "hp_cells h1 a = Some (arr_cell (es[i := hp_next h]))"
    using r1(13) a it(4,5,7) len(3) by (simp add: put_link_def arr_cell_def)
  let ?r = "r1\<lparr>rd_rstack := (rd_rstack r1)[Suc d := (rd_rstack r1 ! Suc d)
      \<lparr>tk_type := - 1, tk_elements := - 1, tk_idx := tk_idx (rd_rstack r1 ! Suc d) + 1\<rparr>]\<rparr>"
  have "moveToNextTask r1 = Some ?r"
    using move_next [OF r1(6)] r1(7,9) d it(2,3) len(2) assms(3) by simp
  moreover have "at_element ?r h1 d a m (Suc i) (es[i := hp_next h])"
    using r1 d it h1a len a assms(3)
    by (auto simp: at_element_def at_item_def parent_ok_def buf_ok_def)
  moreover have "take (Suc d) (rd_rstack ?r) = take (Suc d) (rd_rstack r)" using r1(8) by simp
  moreover have "rest ?r = z" using r1(2) by (simp add: rest_def)
  ultimately show ?thesis using r1 by auto
qed

lemma elements_reads:
  assumes "\<forall>v\<in>set vs. reads_item (Suc d) v" and "vs \<noteq> []" and "at_element r h d a m i es"
    and "i + length vs = m" and "rest r = concat (map enc vs) @ y"
  shows "\<exists>r1 h1. items_loop r h = (moveToNextTask r1 \<bind> (\<lambda>r2. items_loop r2 h1)) \<and>
    elements_read r h d a i es vs y r1 h1"
  using assms
proof (induction vs arbitrary: r h i es)
  case (Cons v vs)
  have it: "at_item r h (Suc d)" "length es = m" "hp_cells h a = Some (arr_cell es)"
    using Cons.prems(3) by (simp_all add: at_element_def)
  have a: "a < hp_next h" using Cons.prems(3) by (auto simp: at_element_def at_item_def parent_ok_def)
  have "reads_item (Suc d) v" using Cons.prems(1) by simp
  then obtain r1 h1 where run: "items_loop r h = (moveToNextTask r1 \<bind> (\<lambda>r2. items_loop r2 h1))"
    and rd: "item_read r h (Suc d) v (concat (map enc vs) @ y) r1 h1"
    using it(1) Cons.prems(5) unfolding reads_item_def by (metis append_assoc concat.simps(2) list.simps(9))
  have lnk: "\<forall>b<hp_next h. hp_cells h1 b = ((hp_cells h)(a \<mapsto> arr_cell (es[i := hp_next h]))) b"
    using rd Cons.prems(3) it(3)
    by (auto simp: item_read_def at_element_def at_item_def put_link_def arr_cell_def)
  have es_i: "i < length es" using Cons.prems(4) it(2) by simp
  show ?case
  proof (cases "vs = []")
    case True
    have r1: "rd_ridx r1 = int (Suc d)" "length (rd_rstack r1) = 9" "take (Suc d) (rd_rstack r1) = take (Suc d) (rd_rstack r)"
      "tk_idx (rd_rstack r1 ! Suc d) = int i"
      using rd Cons.prems(3) by (simp_all add: item_read_def at_element_def)
    have d8: "Suc d \<le> 8" "length (rd_rstack r) = 9" using it(1) by (simp_all add: at_item_def)
    have d: "rd_rstack r1 ! d = rd_rstack r ! d" using take_Suc_nth [OF r1(3)] r1(2) d8 by simp
    have "moveToNextTask r1 = moveToNextTask (r1\<lparr>rd_ridx := int d\<rparr>)"
      using move_last [OF r1(1)] r1(2,4) d d8 Cons.prems(3,4) True by (simp add: at_element_def)
    moreover have "es[i := hp_next h] = take i es @ [hp_next h]"
      using es_i Cons.prems(4) it(2) True by (simp add: upd_conv_take_nth_drop)
    then have "elements_read r h d a i es (v # vs) y (r1\<lparr>rd_ridx := int d\<rparr>) h1"
      using rd lnk True by (simp add: elements_read_def item_read_def buf_ok_def rest_def)
    ultimately show ?thesis using run by metis
  next
    case False
    then have "Suc i < m" using Cons.prems(4) by (cases vs) auto
    from element_step [OF Cons.prems(3) rd this] obtain r2 where
      r2: "moveToNextTask r1 = Some r2" "at_element r2 h1 d a m (Suc i) (es[i := hp_next h])"
        "rest r2 = concat (map enc vs) @ y" "rd_fn r2 = rd_fn r" "rd_error r2 = rd_error r"
        "rd_privdata r2 = rd_privdata r" "rd_reply r2 = rd_reply r"
        "take (Suc d) (rd_rstack r2) = take (Suc d) (rd_rstack r)"
      by blast
    obtain r3 h3 where run3: "items_loop r2 h1 = (moveToNextTask r3 \<bind> (\<lambda>r2. items_loop r2 h3))"
      and el: "elements_read r2 h1 d a (Suc i) (es[i := hp_next h]) vs y r3 h3"
      using Cons.IH [OF _ False r2(2) _ r2(3)] Cons.prems(1,4) by auto
    have nx: "hp_next h1 = hp_next h + nodes v" "reply_in (hp_cells h1) (hp_next h) v"
      using rd by (simp_all add: item_read_def)
    have keep: "\<forall>b<hp_next h1. hp_cells h3 b
        = ((hp_cells h1)(a \<mapsto> arr_cell (take (Suc i) (es[i := hp_next h]) @ addrs (hp_next h1) vs))) b"
      using el by (simp add: elements_read_def)
    have "reply_in (hp_cells h3) (hp_next h) v"
      using keep a nx by (intro reply_in_frame(1) [OF nx(2)]) auto
    moreover have "take (Suc i) (es[i := hp_next h]) = take i es @ [hp_next h]"
      using es_i by (simp add: take_Suc_conv_app_nth)
    moreover have "hp_cells h3 b = ((hp_cells h)(a \<mapsto> arr_cell (take i es @ addrs (hp_next h) (v # vs)))) b"
      if "b < hp_next h" for b
      using keep lnk nx(1) that calculation(2) by simp
    ultimately have "elements_read r h d a i es (v # vs) y r3 h3"
      using el r2 nx by (simp add: elements_read_def)
    then show ?thesis using run run3 r2(1) by auto
  qed
qed simp

lemma finish_root:
  "(moveToNextTask (advance k r) \<bind> (\<lambda>r'. Some (0, if rd_ridx r = 0 then r'\<lparr>rd_reply := x\<rparr> else r', h)))
     = finish_item r k (x, h)"
proof (cases "rd_ridx r = 0")
  case True
  then show ?thesis
    by (simp add: finish_item_def set_root_reply_def moveToNextTask.simps [of "advance k r"]
        moveToNextTask.simps [of "(advance k r)\<lparr>rd_reply := x\<rparr>"])
qed (simp add: finish_item_def set_root_reply_def)

text \<open>The state after the header of an array with \<open>m\<close> elements, whose object is \<open>a\<close>.\<close>

definition array_pushed :: "redisReader \<Rightarrow> redisReadTask \<Rightarrow> nat \<Rightarrow> nat \<Rightarrow> nat \<Rightarrow> redisReader" where
  "array_pushed r cur i m a =
     r\<lparr>rd_rstack := (rd_rstack r)[i := cur\<lparr>tk_elements := int m, tk_obj := a\<rparr>,
         i + 1 := \<lparr>tk_type = - 1, tk_elements = - 1, tk_idx = 0, tk_obj = 0, tk_parent = Some i,
                   tk_privdata = rd_privdata r\<rparr>],
       rd_ridx := rd_ridx r + 1, rd_reply := (if rd_ridx r = 0 then a else rd_reply r)\<rparr>"

lemma processMultiBulkItem_eq:
  assumes "buf_ok r" and "rd_cur r = Some cur" and "rd_ridx r \<noteq> 8" and "rd_fn r = Some defaultFunctions"
  shows "find_crlf (rest r) = None \<Longrightarrow> processMultiBulkItem r h = Some (- 1, r, h)"
    and "find_crlf (rest r) = Some n \<Longrightarrow> line_int r = - 1 \<Longrightarrow>
      processMultiBulkItem r h = call_createNil r cur h \<bind> finish_item r (n + 2)"
    and "find_crlf (rest r) = Some n \<Longrightarrow> line_int r = 0 \<Longrightarrow>
      processMultiBulkItem r h = createArrayObject (rd_rstack r) cur 0 h \<bind> finish_item r (n + 2)"
    and "find_crlf (rest r) = Some n \<Longrightarrow> line_int r = int m \<Longrightarrow> 0 < m \<Longrightarrow> m < 2147483648 \<Longrightarrow> 0 \<le> rd_ridx r \<Longrightarrow>
      nat (rd_ridx r) + 1 < length (rd_rstack r) \<Longrightarrow>
      processMultiBulkItem r h = createArrayObject (rd_rstack r) cur (int m) h \<bind>
        (\<lambda>(a, h). Some (0, array_pushed (advance (n + 2) r) cur (nat (rd_ridx r)) m a, h))"
proof -
  have fin: "(a \<bind> (\<lambda>(obj, h). moveToNextTask (advance k r) \<bind>
        (\<lambda>r'. Some (0, if rd_ridx r = 0 then r'\<lparr>rd_reply := obj\<rparr> else r', h)))) = a \<bind> finish_item r k" for a k
    unfolding finish_root by (cases a) auto
  note line = readLine_eq [OF assms(1)]
  show "find_crlf (rest r) = None \<Longrightarrow> processMultiBulkItem r h = Some (- 1, r, h)"
    using assms line by (simp add: processMultiBulkItem_def)
  assume n: "find_crlf (rest r) = Some n"
  note num = line_number [OF assms(1) n]
  show "line_int r = - 1 \<Longrightarrow> processMultiBulkItem r h = call_createNil r cur h \<bind> finish_item r (n + 2)"
    using assms line n num unfolding fin [symmetric]
    by (cases "call_createNil r cur h") (auto simp: processMultiBulkItem_def Let_def cong: if_cong)
  show "line_int r = 0 \<Longrightarrow> processMultiBulkItem r h = createArrayObject (rd_rstack r) cur 0 h \<bind> finish_item r (n + 2)"
    using assms line n num unfolding fin [symmetric]
    by (cases "createArrayObject (rd_rstack r) cur 0 h")
      (auto simp: processMultiBulkItem_def Let_def defaultFunctions_def c_int_id cong: if_cong)
  show "processMultiBulkItem r h = createArrayObject (rd_rstack r) cur (int m) h \<bind>
        (\<lambda>(a, h). Some (0, array_pushed (advance (n + 2) r) cur (nat (rd_ridx r)) m a, h))"
    if "line_int r = int m" "0 < m" "m < 2147483648" "0 \<le> rd_ridx r" "nat (rd_ridx r) + 1 < length (rd_rstack r)"
    using assms line n num that
    by (auto simp add: processMultiBulkItem_def Let_def defaultFunctions_def c_int_id array_pushed_def case_prod_beta
        intro!: arg_cong [where f = "Option.bind (createArrayObject (rd_rstack r) cur (int m) h)"] ext)
qed

lemma length_enc: "3 \<le> length (enc v)"
proof (cases v)
  case (RArray vs)
  then show ?thesis using show_nat_nonempty [of "length vs"] by (cases "show_nat (length vs)") auto
next
  case (RInteger i)
  have "show_int i \<noteq> []" by (simp add: show_int_def)
  then show ?thesis using RInteger by (cases "show_int i") auto
next
  case (RString s)
  then show ?thesis using show_nat_nonempty [of "length s"] by (cases "show_nat (length s)") auto
qed simp_all

lemma length_concat_enc: "length vs \<le> length (concat (map enc vs))"
proof (induction vs)
  case (Cons v vs)
  then show ?case using length_enc [of v] by simp
qed simp

lemma array_header:
  assumes "at_item r h d" and "d < 8" and "rest r = enc (RArray vs) @ y"
  defines "r' \<equiv> typed_at r d REDIS_REPLY_ARRAY" and "cur \<equiv> (rd_rstack r ! d)\<lparr>tk_type := REDIS_REPLY_ARRAY\<rparr>"
    and "k \<equiv> length (show_nat (length vs)) + 2"
    and "h' \<equiv> add_cell (rd_rstack r) (rd_rstack r ! d) (arr_cell (replicate (length vs) 0)) h"
  shows "vs = [] \<Longrightarrow> processTyped r' h = finish_item r' k (hp_next h, h')"
    and "vs \<noteq> [] \<Longrightarrow> processTyped r' h = Some (0, array_pushed (advance k r') cur d (length vs) (hp_next h), h')"
    and "buf_ok (advance k r')" and "rest (advance k r') = concat (map enc vs) @ y"
proof -
  let ?x = "show_nat (length vs)"
  have rest: "rest r = CHR ''*'' # ?x @ CRLF @ concat (map enc vs) @ y" using assms(3) by simp
  have b: "buf_ok r'" "rest r' = ?x @ CRLF @ concat (map enc vs) @ y"
    using typed_at_buf [OF _ rest] assms(1) by (simp_all add: at_item_def r'_def)
  have m: "length vs \<le> 2147483647"
    using buf_bound [OF b(1)] b(2) length_concat_enc [of vs] by (simp add: INT_MAX_def)
  note crlf = find_crlf_header [OF show_nat_no_CR [of "length vs"], of "concat (map enc vs) @ y"]
  have num: "line_int r' = int (length vs)" unfolding b(2) using crlf parse_show_nat [of "length vs"] m by simp
  have fc: "find_crlf (rest r') = Some (length ?x)" unfolding b(2) using crlf by blast
  have cur: "rd_cur r' = Some cur" unfolding r'_def cur_def by (rule typed_parent(3) [OF assms(1)])
  have fn: "rd_fn r' = Some defaultFunctions" "rd_ridx r' = int d" "length (rd_rstack r') = 9"
    using assms(1) by (simp_all add: at_item_def r'_def)
  have nth: "rd_rstack r' ! d = cur" using assms(1) by (simp add: at_item_def r'_def cur_def)
  have par: "parent_ok (rd_rstack r') cur h" "\<And>c. add_cell (rd_rstack r') cur c h = add_cell (rd_rstack r) (rd_rstack r ! d) c h"
    using typed_parent(1,2) [OF assms(1), of REDIS_REPLY_ARRAY, folded r'_def] nth by simp_all
  have ca: "createArrayObject (rd_rstack r') cur (int (length vs)) h = Some (hp_next h, h')"
    using createArrayObject_ok [OF par(1), of "length vs"] m unfolding par(2) h'_def by simp
  have pt: "processTyped r' h = processMultiBulkItem r' h"
    using processTyped_eq [OF assms(1)] unfolding r'_def by (simp add: reply_types)
  have "rd_ridx r' \<noteq> 8" using fn(2) assms(2) by simp
  note eq = processMultiBulkItem_eq [OF b(1) cur this fn(1), where h = h]
  show "vs = [] \<Longrightarrow> processTyped r' h = finish_item r' k (hp_next h, h')"
    using eq(3) fc num ca pt fn(2) assms(2) by (simp add: k_def)
  show "vs \<noteq> [] \<Longrightarrow> processTyped r' h = Some (0, array_pushed (advance k r') cur d (length vs) (hp_next h), h')"
    using eq(4) [OF fc num] ca pt fn assms(2) m by (simp add: k_def)
  show "buf_ok (advance k r')" "rest (advance k r') = concat (map enc vs) @ y"
    using advance_ok [OF b(1), of k] b(2) by (simp_all add: k_def)
qed

lemma array_reads:
  assumes "at_item r h d" and "d < 8" and "rest r = enc (RArray vs) @ y" and "\<forall>v\<in>set vs. reads_item (Suc d) v"
  shows "\<exists>r1 h1. items_loop r h = (moveToNextTask r1 \<bind> (\<lambda>r2. items_loop r2 h1)) \<and> item_read r h d (RArray vs) y r1 h1"
proof -
  let ?m = "length vs" and ?n = "hp_next h" and ?k = "length (show_nat (length vs)) + 2"
  let ?r = "advance ?k (typed_at r d REDIS_REPLY_ARRAY)" and ?cur = "(rd_rstack r ! d)\<lparr>tk_type := REDIS_REPLY_ARRAY\<rparr>"
  let ?h = "add_cell (rd_rstack r) (rd_rstack r ! d) (arr_cell (replicate ?m 0)) h"
  note hd = array_header [OF assms(1-3)]
  have rest: "rest r = CHR ''*'' # show_nat ?m @ CRLF @ concat (map enc vs) @ y" using assms(3) by simp
  have ty: "reply_type_of (CHR ''*'') = Some REDIS_REPLY_ARRAY" by (simp add: reply_type_of_def)
  show ?thesis
  proof (cases "vs = []")
    case True
    from finish_reads [OF assms(1) rest ty _ hd(1) [OF True], of "RArray vs"] True show ?thesis by simp
  next
    case False
    let ?r2 = "array_pushed ?r ?cur d ?m ?n"
    have st: "rd_fn r = Some defaultFunctions" "rd_ridx r = int d" "length (rd_rstack r) = 9"
      using assms(1) by (simp_all add: at_item_def)
    have run: "items_loop r h = items_loop ?r2 ?h"
      using item_step [OF assms(1) rest ty] hd(2) [OF False] st(2) by (subst items_loop.simps) simp
    have el: "at_element ?r2 ?h d ?n ?m 0 (replicate ?m 0)"
      using hd(3) st assms(2) False
      by (auto simp: at_element_def at_item_def array_pushed_def parent_ok_def buf_ok_def add_cell_def
          intro!: exI [of _ "replicate (length vs) 0"])
    have "rest ?r2 = concat (map enc vs) @ y" using hd(4) by (simp add: rest_def array_pushed_def)
    from elements_reads [OF assms(4) False el _ this] obtain r1 h1 where
      r1: "items_loop ?r2 ?h = (moveToNextTask r1 \<bind> (\<lambda>r2. items_loop r2 h1))"
        "elements_read ?r2 ?h d ?n 0 (replicate ?m 0) vs y r1 h1" by auto
    have nx: "hp_next ?h = Suc ?n" by (simp add: add_cell_def)
    have keep: "\<forall>b<Suc ?n. hp_cells h1 b = ((hp_cells ?h)(?n \<mapsto> arr_cell (addrs (Suc ?n) vs))) b"
      and ts: "take (Suc d) (rd_rstack r1) = take (Suc d) (rd_rstack ?r2)" "length (rd_rstack r1) = 9"
      using r1(2) nx by (simp_all add: elements_read_def)
    have d: "rd_rstack r1 ! d = ?cur\<lparr>tk_elements := int ?m, tk_obj := ?n\<rparr>"
      using take_Suc_nth [OF ts(1)] ts(2) st(3) assms(2) by (simp add: array_pushed_def)
    have "take d (rd_rstack r1) = take d (take (Suc d) (rd_rstack ?r2))" using ts(1) by (metis min.absorb1 lessI less_imp_le take_take)
    then have "take d (rd_rstack r1) = take d (rd_rstack r)" by (simp add: array_pushed_def)
    then have "item_read r h d (RArray vs) y r1 h1"
      using r1(2) nx keep d st
      by (auto simp: item_read_def elements_read_def array_pushed_def add_cell_def)
    then show ?thesis using run r1(1) by auto
  qed
qed

text \<open>Every sendable reply is read, at every depth that leaves room for its arrays.\<close>

lemma reads_sendable: "sendable k v \<Longrightarrow> d + k \<le> 8 \<Longrightarrow> reads_item d v"
proof (induction v arbitrary: d k)
  case (RStatus s)
  then show ?case
    unfolding reads_item_def using string_reads [of _ _ d "CHR ''+''" s _ REDIS_REPLY_STATUS "RStatus s"]
    by (simp add: reply_type_of_def)
next
  case (RError s)
  then show ?case
    unfolding reads_item_def using string_reads [of _ _ d "CHR ''-''" s _ REDIS_REPLY_ERROR "RError s"]
    by (simp add: reply_type_of_def)
next
  case (RInteger i)
  then show ?case unfolding reads_item_def using integer_reads [of _ _ d i] by simp
next
  case (RString s)
  show ?case unfolding reads_item_def using bulk_reads [of _ _ d s] by blast
next
  case RNil
  show ?case unfolding reads_item_def using nil_reads [of _ _ d] by blast
next
  case (RArray vs)
  then obtain k' where k: "k = Suc k'" by (cases k) auto
  have el: "\<forall>v\<in>set vs. reads_item (Suc d) v" and d: "d < 8"
    using RArray k by (auto simp: list_all_iff)
  show ?case unfolding reads_item_def using array_reads [OF _ d _ el] by blast
qed

end
