(* ===== verification/ReaderStream.thy ===== *)
theory ReaderStream
  imports ReaderParse
begin

text \<open>
  The reply reader as a stream parser: how feeding more bytes relates to reading what is there,
  the reader's API on whole replies, and the release of replies.
\<close>

section \<open>Readers that differ in their buffer\<close>

text \<open>\<open>with_buf r b\<close> is the control state of \<open>r\<close> over the buffer, cursor and length of \<open>b\<close>.\<close>

definition with_buf :: "redisReader \<Rightarrow> redisReader \<Rightarrow> redisReader" where
  "with_buf r b = r\<lparr>rd_buf := rd_buf b, rd_pos := rd_pos b, rd_len := rd_len b\<rparr>"

lemma with_buf_sel [simp]:
  "rd_fn (with_buf r b) = rd_fn r" "rd_error (with_buf r b) = rd_error r" "rd_reply (with_buf r b) = rd_reply r"
  "rd_rstack (with_buf r b) = rd_rstack r" "rd_ridx (with_buf r b) = rd_ridx r"
  "rd_privdata (with_buf r b) = rd_privdata r" "rd_buf (with_buf r b) = rd_buf b" "rd_pos (with_buf r b) = rd_pos b"
  "rd_len (with_buf r b) = rd_len b" "buf_ok (with_buf r b) = buf_ok b" "rest (with_buf r b) = rest b"
  "rd_ptr (with_buf r b) = rd_ptr b" "rd_cur (with_buf r b) = rd_cur r"
  by (simp_all add: with_buf_def buf_ok_def rest_def rd_ptr_def rd_cur_def)

lemma with_buf_upd [simp]:
  "with_buf (r\<lparr>rd_ridx := i\<rparr>) b = (with_buf r b)\<lparr>rd_ridx := i\<rparr>"
  "with_buf (r\<lparr>rd_rstack := s\<rparr>) b = (with_buf r b)\<lparr>rd_rstack := s\<rparr>"
  "with_buf (r\<lparr>rd_reply := x\<rparr>) b = (with_buf r b)\<lparr>rd_reply := x\<rparr>"
  "with_buf (with_buf r a) b = with_buf r b" "with_buf r r = r"
  by (simp_all add: with_buf_def)

lemma with_buf_ctl:
  "with_buf r (r\<lparr>rd_ridx := i\<rparr>) = r" "with_buf r (r\<lparr>rd_rstack := s\<rparr>) = r" "with_buf r (r\<lparr>rd_reply := x\<rparr>) = r"
  "with_buf a (b\<lparr>rd_ridx := i\<rparr>) = with_buf a b" "with_buf a (b\<lparr>rd_rstack := s\<rparr>) = with_buf a b"
  "with_buf a (b\<lparr>rd_reply := x\<rparr>) = with_buf a b" "with_buf a (with_buf c b) = with_buf a b"
  by (simp_all add: with_buf_def)

lemma move_with_buf: "moveToNextTask (with_buf r b) = map_option (\<lambda>r. with_buf r b) (moveToNextTask r)"
proof (induction "nat (rd_ridx r + 1)" arbitrary: r)
  case 0
  then show ?case by (simp add: moveToNextTask.simps)
next
  case (Suc n)
  then have ge: "0 \<le> rd_ridx r" by simp
  show ?case
  proof (cases "rd_ridx r = 0")
    case True
    then show ?thesis by (simp add: moveToNextTask.simps)
  next
    case False
    have IH: "moveToNextTask ((with_buf r b)\<lparr>rd_ridx := rd_ridx r - 1\<rparr>)
        = map_option (\<lambda>r. with_buf r b) (moveToNextTask (r\<lparr>rd_ridx := rd_ridx r - 1\<rparr>))"
      using Suc.hyps(1) [of "r\<lparr>rd_ridx := rd_ridx r - 1\<rparr>"] Suc.hyps(2) by simp
    show ?thesis
    proof (cases "rd_cur r")
      case (Some cur)
      show ?thesis
      proof (cases "slot_get (rd_rstack r) (nat (rd_ridx r - 1))")
        case prv: (Some prv)
        show ?thesis
          unfolding moveToNextTask.simps [of r] moveToNextTask.simps [of "with_buf r b"]
          using ge False Some prv IH by (simp add: assert_c_def)
      qed (simp add: moveToNextTask.simps [of r] moveToNextTask.simps [of "with_buf r b"] Some ge False)
    qed (use ge False in \<open>simp add: moveToNextTask.simps [of r] moveToNextTask.simps [of "with_buf r b"]\<close>)
  qed
qed

lemma move_buf: "moveToNextTask r = Some r' \<Longrightarrow> with_buf r' r = r'"
  using move_with_buf [of r r] by simp

lemma move_ctl: "moveToNextTask r = Some r' \<Longrightarrow> rd_fn r' = rd_fn r \<and> rd_error r' = rd_error r \<and> rd_reply r' = rd_reply r"
proof (induction r rule: moveToNextTask.induct)
  case (1 r)
  from "1.prems" show ?case
    by (subst (asm) moveToNextTask.simps) (auto simp: bind_eq_Some_conv split: if_splits dest: "1.IH")
qed

text \<open>The second reader has the same control state and more unread bytes.\<close>

definition extends :: "string \<Rightarrow> redisReader \<Rightarrow> redisReader \<Rightarrow> bool" where
  "extends y r r' \<longleftrightarrow> buf_ok r \<and> buf_ok r' \<and> rest r' = rest r @ y \<and> r' = with_buf r r'"

lemma extends_sel:
  "extends y r r' \<Longrightarrow> rd_fn r' = rd_fn r \<and> rd_error r' = rd_error r \<and> rd_reply r' = rd_reply r \<and>
     rd_rstack r' = rd_rstack r \<and> rd_ridx r' = rd_ridx r \<and> rd_privdata r' = rd_privdata r \<and> rd_cur r' = rd_cur r"
  unfolding extends_def by (metis with_buf_sel)

lemma extends_advance:
  assumes "extends y r r'" and "k \<le> length (rest r)"
  shows "extends y (advance k r) (advance k r')"
proof -
  have "advance k r' = with_buf (advance k r) (advance k r')"
    using assms(1) by (cases r; cases r') (simp add: extends_def advance_def with_buf_def)
  then show ?thesis
    using assms advance_ok [of r k] advance_ok [of r' k] by (auto simp: extends_def)
qed

lemma extends_upd:
  assumes "extends y r r'"
  shows "extends y (r\<lparr>rd_rstack := s\<rparr>) (r'\<lparr>rd_rstack := s\<rparr>)" "extends y (r\<lparr>rd_ridx := i\<rparr>) (r'\<lparr>rd_ridx := i\<rparr>)"
    "extends y (r\<lparr>rd_reply := x\<rparr>) (r'\<lparr>rd_reply := x\<rparr>)"
  using assms unfolding extends_def by (cases r; cases r'; simp add: buf_ok_def rest_def with_buf_def)+

lemma extends_finish:
  assumes "extends y r r'" and "k \<le> length (rest r)"
  shows "rel_option (\<lambda>(s, a, h) (s', a', h'). s = s' \<and> s = 0 \<and> h = h' \<and> extends y a a' \<and> rest a = drop k (rest r) \<and>
      rd_error a = rd_error r \<and> rd_fn a = rd_fn r \<and> rd_buf a = rd_buf r)
    (finish_item r k oh) (finish_item r' k oh)"
proof -
  let ?a = "set_root_reply (fst oh) (advance k r)" and ?a' = "set_root_reply (fst oh) (advance k r')"
  have e: "extends y ?a ?a'"
    using extends_advance [OF assms] extends_sel [OF assms(1)] by (simp add: set_root_reply_def extends_upd)
  then have a': "?a' = with_buf ?a ?a'" by (simp add: extends_def)
  have ctl: "rest ?a = drop k (rest r)" "rd_error ?a = rd_error r" "rd_fn ?a = rd_fn r" "rd_buf ?a = rd_buf r"
    using assms advance_ok [of r k] by (auto simp: set_root_reply_def extends_def rest_def)
  show ?thesis
  proof (cases "moveToNextTask ?a")
    case None
    then have "moveToNextTask ?a' = None" using a' move_with_buf by (metis option.map(1))
    with None show ?thesis by (simp add: finish_item_def)
  next
    case (Some b)
    then have "moveToNextTask ?a' = Some (with_buf b ?a')" using a' move_with_buf by (metis option.map(2))
    moreover have b: "b = with_buf b ?a" using move_buf [OF Some] by simp
    have "extends y b (with_buf b ?a')"
      using e b unfolding extends_def by (metis with_buf_sel(10,11) with_buf_ctl(7))
    moreover have "rest b = rest ?a" "rd_buf b = rd_buf ?a" using b by (metis with_buf_sel(11), metis with_buf_sel(7))
    ultimately show ?thesis using Some ctl move_ctl [OF Some] by (simp add: finish_item_def)
  qed
qed

section \<open>One step on more bytes\<close>

text \<open>
  How a step on the longer input relates to the step on the shorter one: the short one waits
  and has changed nothing; or both succeed alike, or both fault; or both fail alike with a
  protocol error.
\<close>

definition done_rel :: "string \<Rightarrow> redisReader \<Rightarrow> (int \<times> redisReader \<times> reply_heap) option
    \<Rightarrow> (int \<times> redisReader \<times> reply_heap) option \<Rightarrow> bool" where
  "done_rel y r = rel_option (\<lambda>(s, a, h) (s', a', h'). s = s' \<and> s = 0 \<and> h = h' \<and> extends y a a' \<and>
     length (rest a) < length (rest r) \<and> rd_error a = rd_error r \<and> rd_fn a = rd_fn r \<and> rd_buf a = rd_buf r)"

definition fail_rel :: "(int \<times> redisReader \<times> reply_heap) option \<Rightarrow> (int \<times> redisReader \<times> reply_heap) option \<Rightarrow> bool" where
  "fail_rel o1 o2 \<longleftrightarrow> (\<exists>a a' h. o1 = Some (- 1, a, h) \<and> o2 = Some (- 1, a', h) \<and> rd_ridx a = - 1 \<and> rd_ridx a' = - 1 \<and>
     rd_pos a = 0 \<and> rd_pos a' = 0 \<and> rd_error a \<noteq> None \<and> rd_error a' = rd_error a)"

lemma done_None: "done_rel y r None None"
  by (simp add: done_rel_def)

lemma bind_alike:
  "(\<And>x. done_rel y r (f x) (g x) \<or> fail_rel (f x) (g x)) \<Longrightarrow>
     done_rel y r (p \<bind> f) (p \<bind> g) \<or> fail_rel (p \<bind> f) (p \<bind> g)"
  by (cases p) (simp_all add: done_None)

lemma done_finish:
  assumes "extends y r r'" and "0 < k" and "k \<le> length (rest r)"
  shows "done_rel y r (o1 \<bind> finish_item r k) (o1 \<bind> finish_item r' k)"
proof (cases o1)
  case (Some oh)
  have "done_rel y r (finish_item r k oh) (finish_item r' k oh)"
    unfolding done_rel_def using extends_finish [OF assms(1,3), of oh]
    by (rule option.rel_mono_strong) (use assms(2,3) in auto)
  then show ?thesis using Some by simp
qed (simp add: done_rel_def)

lemma createString_fetch:
  "mem_fetch p 0 n = mem_fetch p' 0 n \<Longrightarrow> createStringObject s t p n h = createStringObject s t p' n h"
  by (simp add: createStringObject_def)

lemma call_createString_ext:
  assumes "extends y r r'" and "rd_fn r = Some defaultFunctions" and "i + n \<le> length (rest r)"
  shows "call_createString r' cur (drop i (rd_ptr r')) n t h = call_createString r cur (drop i (rd_ptr r)) n t h"
proof -
  have "mem_fetch (drop i (rd_ptr b)) 0 n = Some (map Some (take n (drop i (rest b))))"
    if b: "buf_ok b" "i + n \<le> length (rest b)" for b
  proof -
    obtain slack where "rd_ptr b = map Some (rest b) @ Some NUL # slack" using rd_ptr_eq [OF b(1)] by metis
    then have "drop i (rd_ptr b) = map Some (drop i (rest b)) @ Some NUL # slack" using b(2) by (simp add: drop_map)
    then show ?thesis using b(2) by (simp add: mem_fetch_def take_map)
  qed
  moreover have "buf_ok r" "buf_ok r'" "rest r' = rest r @ y" using assms(1) by (simp_all add: extends_def)
  ultimately have "mem_fetch (drop i (rd_ptr r')) 0 n = mem_fetch (drop i (rd_ptr r)) 0 n" using assms(3) by simp
  from createString_fetch [OF this] show ?thesis
    using extends_sel [OF assms(1)] assms(2) by (simp add: call_createString_def defaultFunctions_def)
qed

lemma call_createNil_ext: "extends y r r' \<Longrightarrow> call_createNil r' cur h = call_createNil r cur h"
  using extends_sel [of y r r'] by (simp add: call_createNil_def cong: option.case_cong)

lemma line_int_ext:
  assumes "extends y r r'" and "find_crlf (rest r) = Some n"
  shows "line_int r' = line_int r" and "find_crlf (rest r') = Some n"
proof -
  have "CR \<in> set (rest r)" using find_crlf_split [OF assms(2)] by (metis in_set_conv_decomp)
  then show "line_int r' = line_int r" using assms(1) by (simp add: extends_def takeWhile_append1)
  show "find_crlf (rest r') = Some n" using assms find_crlf_append by (simp add: extends_def)
qed

lemma line_ext:
  assumes "extends y r r'" and "rd_fn r = Some defaultFunctions" and "rd_cur r = Some cur"
  shows "processLineItem r h = Some (- 1, r, h) \<or> done_rel y r (processLineItem r h) (processLineItem r' h)"
proof (cases "find_crlf (rest r)")
  case None
  then show ?thesis using processLineItem_eq [OF _ assms(3)] assms(1) by (simp add: extends_def)
next
  case (Some n)
  have b: "buf_ok r" "buf_ok r'" "rd_cur r' = Some cur" "rd_fn r' = rd_fn r" "rd_rstack r' = rd_rstack r"
    using assms(1,3) extends_sel [OF assms(1)] by (simp_all add: extends_def)
  have nl: "n + 2 \<le> length (rest r)" using find_crlf_bound [OF Some] .
  have "line_object r' cur n h = line_object r cur n h"
    using call_createString_ext [OF assms(1,2), of 0 n] nl line_int_ext [OF assms(1) Some] b assms(2)
    by (simp add: line_object_def defaultFunctions_def)
  then show ?thesis
    using processLineItem_eq [OF b(1) assms(3), of h] processLineItem_eq [OF b(2,3), of h] Some
      line_int_ext(2) [OF assms(1) Some] done_finish [OF assms(1) _ nl] by simp
qed

lemma bulk_ext:
  assumes "extends y r r'" and "rd_fn r = Some defaultFunctions" and "rd_cur r = Some cur"
  shows "processBulkItem r h = Some (- 1, r, h) \<or> done_rel y r (processBulkItem r h) (processBulkItem r' h)"
proof (cases "find_crlf (rest r)")
  case None
  then show ?thesis using processBulkItem_eq(1) [OF _ assms(3)] assms(1) by (simp add: extends_def)
next
  case (Some n)
  have b: "buf_ok r" "buf_ok r'" "rd_cur r' = Some cur" "rd_fn r' = Some defaultFunctions"
    using assms extends_sel [OF assms(1)] by (simp_all add: extends_def)
  have rest: "rest r' = rest r @ y" using assms(1) by (simp add: extends_def)
  have nl: "n + 2 \<le> length (rest r)" using find_crlf_bound [OF Some] .
  note le = line_int_ext [OF assms(1) Some]
  note eq = processBulkItem_eq [OF b(1) assms(3)] and eq' = processBulkItem_eq [OF b(2,3)]
  let ?v = "line_int r"
  consider (nil) "?v < 0" | (fits) "0 \<le> ?v" "n + nat ?v + 4 \<le> length (rest r)"
    | (wait) "0 \<le> ?v" "length (rest r) < n + nat ?v + 4" "?v < 4294967296 - int n - 4"
    | (huge) "4294967296 - int n - 4 \<le> ?v"
    by linarith
  then show ?thesis
  proof cases
    case nil
    then show ?thesis
      using eq(2) [OF Some nil] eq'(2) [OF le(2)] le(1) call_createNil_ext [OF assms(1)] done_finish [OF assms(1) _ nl]
      by simp
  next
    case fits
    have "call_createString r' cur (drop (n + 2) (rd_ptr r')) (nat ?v) REDIS_REPLY_STRING h
        = call_createString r cur (drop (n + 2) (rd_ptr r)) (nat ?v) REDIS_REPLY_STRING h"
      using fits by (intro call_createString_ext [OF assms(1,2)]) simp
    then show ?thesis
      using eq(3) [OF Some fits, of h] eq'(3) [OF le(2), of h] le(1) fits rest done_finish [OF assms(1) _ fits(2)] by simp
  next
    case wait
    then show ?thesis using eq(4) [OF Some wait] by blast
  next
    case huge
    then show ?thesis
      using eq(5) [OF Some huge assms(2), of h] eq'(5) [OF le(2) _ b(4), of h] le(1) rest by (auto simp: done_rel_def)
  qed
qed

lemma c_size_t_negative: "- 2147483648 \<le> x \<Longrightarrow> x < 0 \<Longrightarrow> 18446744071562067968 \<le> c_size_t x"
proof -
  assume x: "- 2147483648 \<le> x" "x < 0"
  have "take_bit 64 x = (x + 18446744073709551616) mod 18446744073709551616"
    by (simp add: take_bit_eq_mod)
  also have "\<dots> = x + 18446744073709551616" using x by (intro mod_pos_pos_trivial) auto
  finally show ?thesis using x by (simp add: c_size_t_def)
qed

lemma createArray_negative: "c_int v < 0 \<Longrightarrow> createArrayObject s t (c_int v) h = None"
  using c_size_t_negative [of "c_int v"] c_int_range [of v]
  by (simp add: createArrayObject_def createReplyObject_def Let_def)

lemma multi_general:
  assumes "buf_ok r" and "rd_cur r = Some cur" and "rd_ridx r \<noteq> 8" and "rd_fn r = Some defaultFunctions"
    and "find_crlf (rest r) = Some n" and "line_int r \<noteq> - 1" and "i = nat (rd_ridx r)" and "v = line_int r"
  shows "processMultiBulkItem r h = createArrayObject (rd_rstack r) cur (c_int v) h \<bind>
    (\<lambda>(a, h). if 0 < v
       then (if i + 1 < length (rd_rstack r) then Some (0, array_pushed (advance (n + 2) r) cur i (nat (c_int v)) a, h) else None)
       else finish_item r (n + 2) (a, h))"
proof (cases "createArrayObject (rd_rstack r) cur (c_int v) h")
  case None
  then show ?thesis
    using assms readLine_eq [OF assms(1)] line_number [OF assms(1,5)]
    by (simp add: processMultiBulkItem_def defaultFunctions_def Let_def)
next
  case (Some ah)
  then have "0 \<le> c_int v" using createArray_negative [of v] by (metis not_le option.distinct(1))
  then show ?thesis
    using Some assms readLine_eq [OF assms(1)] line_number [OF assms(1,5)] finish_root [of "n + 2" r]
    by (cases ah) (auto simp: processMultiBulkItem_def defaultFunctions_def Let_def array_pushed_def assert_c_def)
qed

lemma array_pushed_sel [simp]:
  "rd_fn (array_pushed r cur i m a) = rd_fn r" "rd_error (array_pushed r cur i m a) = rd_error r"
  "rd_buf (array_pushed r cur i m a) = rd_buf r"
  by (simp_all add: array_pushed_def)

lemma extends_pushed:
  assumes "extends y r r'"
  shows "extends y (array_pushed r cur i m a) (array_pushed r' cur i m a)"
proof -
  have "rd_reply r' = rd_reply r" "rd_ridx r' = rd_ridx r" "rd_rstack r' = rd_rstack r" "rd_privdata r' = rd_privdata r"
    using extends_sel [OF assms] by simp_all
  then show ?thesis unfolding array_pushed_def by (simp only:) (intro extends_upd assms)
qed

lemma error_ext:
  assumes "extends y r r'"
  shows "done_rel z s (redisSetReplyReaderError r e h \<bind> (\<lambda>(r, h). Some (- 1, r, h)))
      (redisSetReplyReaderError r' e h \<bind> (\<lambda>(r, h). Some (- 1, r, h))) \<or>
    fail_rel (redisSetReplyReaderError r e h \<bind> (\<lambda>(r, h). Some (- 1, r, h)))
      (redisSetReplyReaderError r' e h \<bind> (\<lambda>(r, h). Some (- 1, r, h)))"
proof -
  define f where "f = (if rd_reply r \<noteq> 0 then do { fn \<leftarrow> rd_fn r; free \<leftarrow> fn_freeObject fn; free (rd_reply r) h }
    else Some h)"
  let ?u = "\<lambda>r. r\<lparr>rd_buf := sds_of [] [], rd_pos := 0, rd_len := 0, rd_ridx := - 1, rd_error := Some e\<rparr>"
  have sel: "rd_reply r' = rd_reply r" "rd_fn r' = rd_fn r" using extends_sel [OF assms] by simp_all
  have "redisSetReplyReaderError r e h = f \<bind> (\<lambda>h. Some (?u r, h))"
    "redisSetReplyReaderError r' e h = f \<bind> (\<lambda>h. Some (?u r', h))"
    unfolding redisSetReplyReaderError_def sel f_def sdsempty_eq by simp_all
  then show ?thesis by (cases f) (simp_all add: done_rel_def fail_rel_def)
qed

lemma multi_ext:
  assumes "extends y r r'" and "rd_fn r = Some defaultFunctions" and "rd_cur r = Some cur"
  shows "processMultiBulkItem r h = Some (- 1, r, h) \<or>
    done_rel y r (processMultiBulkItem r h) (processMultiBulkItem r' h) \<or>
    fail_rel (processMultiBulkItem r h) (processMultiBulkItem r' h)"
proof -
  have b: "buf_ok r" "buf_ok r'" "rd_cur r' = Some cur" "rd_fn r' = Some defaultFunctions" "rd_ridx r' = rd_ridx r"
      "rd_rstack r' = rd_rstack r" "rd_reply r' = rd_reply r"
    using assms extends_sel [OF assms(1)] by (simp_all add: extends_def)
  show ?thesis
  proof (cases "rd_ridx r = 8")
    case True
    then show ?thesis
      using b(3,5) assms(3) error_ext [OF assms(1), where h = h]
      by (cases "sdscatprintf (sds_of [] []) ''No support for nested multi bulk replies with depth > 7''")
        (auto simp: processMultiBulkItem_def sdsempty_eq done_None)
  next
    case n8: False
    show ?thesis
    proof (cases "find_crlf (rest r)")
      case None
      then show ?thesis using processMultiBulkItem_eq(1) [OF b(1) assms(3) n8 assms(2)] by simp
    next
      case (Some n)
      have nl: "n + 2 \<le> length (rest r)" using find_crlf_bound [OF Some] .
      note le = line_int_ext [OF assms(1) Some]
      show ?thesis
      proof (cases "line_int r = - 1")
        case True
        then show ?thesis
          using processMultiBulkItem_eq(2) [OF b(1) assms(3) n8 assms(2) Some, of h]
            processMultiBulkItem_eq(2) [OF b(2,3) _ b(4) le(2), of h] b(5) n8 le(1)
            call_createNil_ext [OF assms(1)] done_finish [OF assms(1) _ nl] by simp
      next
        case False
        note g = multi_general [OF b(1) assms(3) n8 assms(2) Some False refl refl, of h]
        have g': "processMultiBulkItem r' h = createArrayObject (rd_rstack r) cur (c_int (line_int r)) h \<bind>
            (\<lambda>(a, h). if 0 < line_int r
               then (if nat (rd_ridx r) + 1 < length (rd_rstack r)
                     then Some (0, array_pushed (advance (n + 2) r') cur (nat (rd_ridx r)) (nat (c_int (line_int r))) a, h) else None)
               else finish_item r' (n + 2) (a, h))"
          using multi_general [OF b(2,3) _ b(4) le(2), where i = "nat (rd_ridx r)" and v = "line_int r" and h = h]
            False n8 unfolding b(5,6) le(1) by simp
        have push: "extends y (array_pushed (advance (n + 2) r) cur i m a) (array_pushed (advance (n + 2) r') cur i m a)" for i m a
          by (rule extends_pushed [OF extends_advance [OF assms(1) nl]])
        have "length (rest (array_pushed (advance (n + 2) r) cur i m a)) < length (rest r)" for i m a
          using advance_ok [OF b(1) nl] nl by (simp add: rest_def array_pushed_def)
        then have pushed: "done_rel y r (Some (0, array_pushed (advance (n + 2) r) cur i m a, k))
            (Some (0, array_pushed (advance (n + 2) r') cur i m a, k))" for i m a k
          using push by (simp add: done_rel_def)
        have "done_rel y r (finish_item r (n + 2) oh) (finish_item r' (n + 2) oh)" for oh
          using done_finish [OF assms(1) _ nl, of "Some oh"] by simp
        then have "done_rel y r (processMultiBulkItem r h) (processMultiBulkItem r' h)"
          unfolding g g' using pushed
          by (cases "createArrayObject (rd_rstack r) cur (c_int (line_int r)) h") (auto simp: done_None)
        then show ?thesis by blast
      qed
    qed
  qed
qed

lemma typed_ext:
  assumes "extends y r r'" and "rd_fn r = Some defaultFunctions" and "rd_cur r = Some cur"
  shows "processTyped r h = Some (- 1, r, h) \<or> done_rel y r (processTyped r h) (processTyped r' h) \<or>
    fail_rel (processTyped r h) (processTyped r' h)"
  using line_ext [OF assms, of h] bulk_ext [OF assms, of h] multi_ext [OF assms, of h] assms(3) extends_sel [OF assms(1)]
  by (auto simp: processTyped_def done_None)

lemma processItem_eq:
  assumes "buf_ok r" and "rd_cur r = Some cur" and "d = nat (rd_ridx r)"
  shows "0 \<le> tk_type cur \<Longrightarrow> processItem r h = processTyped r h"
    and "tk_type cur < 0 \<Longrightarrow> rest r = [] \<Longrightarrow> processItem r h = Some (- 1, r, h)"
    and "tk_type cur < 0 \<Longrightarrow> rest r = c # x \<Longrightarrow> reply_type_of c = Some t \<Longrightarrow>
      processItem r h = processTyped (typed_at r d t) h"
    and "tk_type cur < 0 \<Longrightarrow> rest r = c # x \<Longrightarrow> reply_type_of c = None \<Longrightarrow>
      processItem r h = do {
        byte \<leftarrow> sdscatrepr (sds_of [] []) [Some c] 1;
        b \<leftarrow> c_string (sds_buf byte);
        err \<leftarrow> sdscatprintf (sds_of [] []) (''Protocol error, got '' @ b @ '' as reply type byte'');
        redisSetReplyReaderError (advance 1 r) err h \<bind> (\<lambda>(r, h). Some (- 1, r, h)) }"
proof -
  show "0 \<le> tk_type cur \<Longrightarrow> processItem r h = processTyped r h"
    using assms by (simp add: processItem_def)
  note rb = readBytes_eq [OF assms(1)]
  show "tk_type cur < 0 \<Longrightarrow> rest r = [] \<Longrightarrow> processItem r h = Some (- 1, r, h)"
    using assms rb by (simp add: processItem_def)
  obtain slack where p: "rd_ptr r = map Some (rest r) @ Some NUL # slack" using rd_ptr_eq [OF assms(1)] by metis
  have d: "d < length (rd_rstack r)" "rd_rstack r ! d = cur"
    using assms(2,3) by (auto simp: rd_cur_def slot_get_def bind_eq_Some_conv assert_c_def split: if_splits)
  assume n: "tk_type cur < 0" "rest r = c # x"
  have g: "mem_get (rd_ptr r) 0 = Some c" using p n(2) by (simp add: mem_get_def)
  show "reply_type_of c = Some t \<Longrightarrow> processItem r h = processTyped (typed_at r d t) h"
    using assms(2,3) rb n g d by (simp add: processItem_def typed_at_def)
  have "sdscatrepr e (rd_ptr r) 1 = sdscatrepr e [Some c] 1" for e
    using g by (simp add: sdscatrepr_def mem_get_def)
  then show "reply_type_of c = None \<Longrightarrow>
      processItem r h = do {
        byte \<leftarrow> sdscatrepr (sds_of [] []) [Some c] 1;
        b \<leftarrow> c_string (sds_buf byte);
        err \<leftarrow> sdscatprintf (sds_of [] []) (''Protocol error, got '' @ b @ '' as reply type byte'');
        redisSetReplyReaderError (advance 1 r) err h \<bind> (\<lambda>(r, h). Some (- 1, r, h)) }"
    using assms(2,3) rb n g by (simp add: processItem_def sdsempty_eq)
qed

text \<open>A step that waits leaves the store alone and has at most consumed the type byte.\<close>

definition wait_rel :: "string \<Rightarrow> redisReader \<Rightarrow> redisReader \<Rightarrow> reply_heap \<Rightarrow> bool" where
  "wait_rel y r r' h \<longleftrightarrow> (\<exists>a a'. processItem r h = Some (- 1, a, h) \<and> extends y a a' \<and> processItem r' h = processItem a' h \<and>
     (y = [] \<longrightarrow> processItem r' h = Some (- 1, a', h)) \<and> rd_ridx a = rd_ridx r \<and> rd_error a = rd_error r \<and> rd_fn a = rd_fn r \<and>
     rd_buf a = rd_buf r)"

lemma extends_typed:
  assumes "extends y r r'" and "rest r \<noteq> []"
  shows "extends y (typed_at r d t) (typed_at r' d t)"
proof -
  have "extends y (advance 1 r) (advance 1 r')" using assms by (intro extends_advance) (auto simp: Suc_le_eq)
  then show ?thesis using extends_sel [OF assms(1)] by (simp add: typed_at_def extends_upd)
qed

lemma extends_sym: "extends [] r r' \<Longrightarrow> extends [] r' r"
  unfolding extends_def by (metis append_Nil2 with_buf_upd(4,5))

lemma typed_at_buf_eq [simp]: "rd_buf (typed_at r d t) = rd_buf r"
  by (simp add: typed_at_def)

lemma typed_same:
  assumes "extends y r r'" and "y = []" and "rd_fn r = Some defaultFunctions" and "rd_cur r = Some cur"
    and "processTyped r h = Some (- 1, r, h)"
  shows "processTyped r' h = Some (- 1, r', h)"
proof -
  have e: "extends [] r' r" using assms(1,2) extends_sym by simp
  have "rd_fn r' = Some defaultFunctions" "rd_cur r' = Some cur" using extends_sel [OF assms(1)] assms(3,4) by simp_all
  from typed_ext [OF e this, of h] show ?thesis
  proof (elim disjE)
    assume "done_rel [] r' (processTyped r' h) (processTyped r h)"
    then show ?thesis using assms(5) by (auto simp: done_rel_def option_rel_Some2)
  next
    assume "fail_rel (processTyped r' h) (processTyped r h)"
    then have "rd_ridx r = - 1" using assms(5) by (auto simp: fail_rel_def)
    then show ?thesis using assms(4) by (simp add: rd_cur_def)
  qed
qed

lemma done_mono:
  "done_rel y a o1 o2 \<Longrightarrow> length (rest a) \<le> length (rest r) \<Longrightarrow> rd_error a = rd_error r \<Longrightarrow> rd_fn a = rd_fn r \<Longrightarrow>
     rd_buf a = rd_buf r \<Longrightarrow> done_rel y r o1 o2"
  unfolding done_rel_def by (erule option.rel_mono_strong) auto

lemma item_ext:
  assumes "extends y r r'" and "rd_fn r = Some defaultFunctions" and "rd_cur r = Some cur"
  shows "wait_rel y r r' h \<or> done_rel y r (processItem r h) (processItem r' h) \<or>
    fail_rel (processItem r h) (processItem r' h)"
proof -
  have b: "buf_ok r" "buf_ok r'" "rest r' = rest r @ y" using assms(1) by (simp_all add: extends_def)
  have sel: "rd_cur r' = Some cur" "rd_ridx r' = rd_ridx r" using extends_sel [OF assms(1)] assms(3) by simp_all
  note eq = processItem_eq [OF b(1) assms(3) refl, where h = h] and eq' = processItem_eq [OF b(2) sel(1) refl, where h = h]
  show ?thesis
  proof (cases "tk_type cur < 0")
    case False
    then have "processItem r h = processTyped r h" "processItem r' h = processTyped r' h" using eq(1) eq'(1) by simp_all
    then show ?thesis
      using typed_ext [OF assms, of h] typed_same [OF assms(1) _ assms(2,3), of h] assms(1) unfolding wait_rel_def by metis
  next
    case True
    show ?thesis
    proof (cases "rest r")
      case Nil
      have "y = [] \<Longrightarrow> processItem r' h = Some (- 1, r', h)" using eq'(2) [OF True] Nil b(3) by simp
      then show ?thesis using eq(2) [OF True Nil] assms(1) unfolding wait_rel_def by blast
    next
      case (Cons c x)
      then have c': "rest r' = c # x @ y" using b(3) by simp
      show ?thesis
      proof (cases "reply_type_of c")
        case None
        have e: "extends y (advance 1 r) (advance 1 r')" using assms(1) Cons by (intro extends_advance) simp_all
        show ?thesis
          unfolding eq(4) [OF True Cons None] eq'(4) [OF True c' None]
          by (rule disjI2, rule bind_alike, rule bind_alike, rule bind_alike, rule error_ext [OF e])
      next
        case (Some t)
        let ?d = "nat (rd_ridx r)"
        let ?a = "typed_at r ?d t" and ?a' = "typed_at r' ?d t"
        have d: "?d < length (rd_rstack r)" "0 \<le> rd_ridx r" "rd_rstack r ! ?d = cur"
          using assms(3) by (auto simp: rd_cur_def slot_get_def bind_eq_Some_conv assert_c_def split: if_splits)
        have e: "extends y ?a ?a'" using assms(1) Cons by (intro extends_typed) simp_all
        have ca: "rd_cur ?a = Some (cur\<lparr>tk_type := t\<rparr>)" using d by (simp add: rd_cur_def)
        then have ca': "rd_cur ?a' = Some (cur\<lparr>tk_type := t\<rparr>)" using extends_sel [OF e] by simp
        have t0: "0 \<le> t" using Some by (auto simp: reply_type_of_def reply_types split: if_splits)
        have le: "length (rest ?a) \<le> length (rest r)" using typed_at_buf [OF b(1) Cons] Cons by simp
        have p: "processItem r h = processTyped ?a h" "processItem r' h = processTyped ?a' h"
          using eq(3) [OF True Cons Some] eq'(3) [OF True c' Some] sel(2) by simp_all
        have pa: "processItem ?a' h = processTyped ?a' h"
          using processItem_eq(1) [OF _ ca' refl] t0 e by (simp add: extends_def)
        have "processTyped ?a h = Some (- 1, ?a, h) \<or> done_rel y ?a (processTyped ?a h) (processTyped ?a' h) \<or>
            fail_rel (processTyped ?a h) (processTyped ?a' h)"
          using typed_ext [OF e _ ca] assms(2) by simp
        then show ?thesis
        proof (elim disjE)
          assume w: "processTyped ?a h = Some (- 1, ?a, h)"
          then have "y = [] \<Longrightarrow> processTyped ?a' h = Some (- 1, ?a', h)"
            using typed_same [OF e _ _ ca] assms(2) by simp
          then have "wait_rel y r r' h" unfolding wait_rel_def p using e pa w by (intro exI [of _ ?a] exI [of _ ?a']) simp
          then show ?thesis by blast
        next
          assume "done_rel y ?a (processTyped ?a h) (processTyped ?a' h)"
          then have "done_rel y r (processItem r h) (processItem r' h)" unfolding p by (rule done_mono) (use le in simp_all)
          then show ?thesis by blast
        qed (simp add: p)
      qed
    qed
  qed
qed

section \<open>The item loop on more bytes\<close>

definition loop_rel :: "string \<Rightarrow> redisReader \<Rightarrow> redisReader \<times> reply_heap \<Rightarrow> (redisReader \<times> reply_heap) option \<Rightarrow> bool" where
  "loop_rel y r = (\<lambda>(a, h1) out'.
     if 0 \<le> rd_ridx a
     then rd_error a = rd_error r \<and> rd_fn a = rd_fn r \<and> rd_buf a = rd_buf r \<and> 
       (\<exists>a'. extends y a a' \<and> out' = items_loop a' h1 \<and> (y = [] \<longrightarrow> out' = Some (a', h1)))
     else rd_error a = rd_error r \<and> rd_fn a = rd_fn r \<and> rd_buf a = rd_buf r \<and> (\<exists>a'. out' = Some (a', h1) \<and> extends y a a') \<or>
          rd_error a \<noteq> None \<and> rd_ridx a = - 1 \<and> rd_pos a = 0 \<and>
            (\<exists>a'. out' = Some (a', h1) \<and> rd_ridx a' = - 1 \<and> rd_pos a' = 0 \<and> rd_error a' = rd_error a))"

lemma loop_ext:
  assumes "extends y r r'" and "rd_fn r = Some defaultFunctions"
  shows "case items_loop r h of None \<Rightarrow> items_loop r' h = None | Some ah \<Rightarrow> loop_rel y r ah (items_loop r' h)"
  using assms
proof (induction "length (rest r)" arbitrary: r r' h rule: less_induct)
  case less
  have sel: "rd_ridx r' = rd_ridx r" "rd_cur r' = rd_cur r" using extends_sel [OF less.prems(1)] by simp_all
  show ?case
  proof (cases "0 \<le> rd_ridx r")
    case False
    then have "items_loop r h = Some (r, h)" "items_loop r' h = Some (r', h)" using sel by (simp_all add: items_loop.simps)
    then show ?thesis using less.prems(1) False by (simp add: loop_rel_def)
  next
    case ge: True
    note un = items_loop.simps [of r h] items_loop.simps [of r' h]
    show ?thesis
    proof (cases "rd_cur r")
      case None
      then have "processItem r h = None" "processItem r' h = None" using sel by (simp_all add: processItem_def)
      then show ?thesis unfolding un using ge sel by simp
    next
      case (Some cur)
      from item_ext [OF less.prems Some, of h] show ?thesis
      proof (elim disjE)
        assume "wait_rel y r r' h"
        then obtain a a' where w: "processItem r h = Some (- 1, a, h)" "extends y a a'" "processItem r' h = processItem a' h"
          "rd_ridx a = rd_ridx r" "rd_error a = rd_error r" "rd_fn a = rd_fn r"
          "rd_buf a = rd_buf r" "y = [] \<longrightarrow> processItem r' h = Some (- 1, a', h)" unfolding wait_rel_def by blast
        have "items_loop r h = Some (a, h)" unfolding un using ge w(1) by simp
        moreover have "items_loop r' h = items_loop a' h"
          unfolding un(2) items_loop.simps [of a' h] using ge sel w extends_sel [OF w(2)] by simp
        moreover have "y = [] \<longrightarrow> items_loop r' h = Some (a', h)" unfolding un(2) using ge sel w(8) by auto
        ultimately show ?thesis using w ge by (auto simp: loop_rel_def)
      next
        assume d: "done_rel y r (processItem r h) (processItem r' h)"
        show ?thesis
        proof (cases "processItem r h")
          case None
          then have "processItem r' h = None" using d by (simp add: done_rel_def)
          then show ?thesis unfolding un using ge sel None by simp
        next
          case step: (Some o1)
          with d obtain a a' h1 where s: "o1 = (0, a, h1)" "processItem r' h = Some (0, a', h1)" "extends y a a'"
            "length (rest a) < length (rest r)" "rd_error a = rd_error r" "rd_fn a = rd_fn r" "rd_buf a = rd_buf r"
            by (auto simp: done_rel_def option_rel_Some1)
          have "items_loop r h = items_loop a h1" "items_loop r' h = items_loop a' h1"
            unfolding un using ge sel step s(1,2) by simp_all
          moreover have "loop_rel y a = loop_rel y r" unfolding loop_rel_def s(5,6,7) ..
          ultimately show ?thesis using less.hyps [OF s(4,3), of h1] less.prems(2) s(6)
            by (cases "items_loop a h1") simp_all
        qed
      next
        assume "fail_rel (processItem r h) (processItem r' h)"
        then obtain a a' h1 where f: "processItem r h = Some (- 1, a, h1)" "processItem r' h = Some (- 1, a', h1)"
          "rd_ridx a = - 1" "rd_ridx a' = - 1" "rd_error a \<noteq> None" "rd_error a' = rd_error a" "rd_pos a = 0" "rd_pos a' = 0"
          unfolding fail_rel_def by blast
        then have "items_loop r h = Some (a, h1)" "items_loop r' h = Some (a', h1)" unfolding un using ge sel by simp_all
        then show ?thesis using f by (auto simp: loop_rel_def)
      qed
    qed
  qed
qed

section \<open>Feeding and getting\<close>

text \<open>A reader between calls: no error, the default functions.\<close>

definition reader_ok :: "redisReader \<Rightarrow> bool" where
  "reader_ok r \<longleftrightarrow> buf_ok r \<and> rd_fn r = Some defaultFunctions \<and> rd_error r = None"

text \<open>It waits for the first byte of a reply.\<close>

definition idle :: "redisReader \<Rightarrow> bool" where
  "idle r \<longleftrightarrow> reader_ok r \<and> rd_ridx r = - 1 \<and> rd_reply r = 0 \<and> length (rd_rstack r) = 9"

definition feed_get :: "redisReader \<Rightarrow> reply_heap \<Rightarrow> string \<Rightarrow> (int \<times> nat \<times> redisReader \<times> reply_heap) option" where
  "feed_get r h x = do {
     r \<leftarrow> redisReplyReaderFeed r (Some (map Some x)) (length x);
     redisReplyReaderGetReply r h }"

lemma feed_ok:
  assumes "buf_ok r" and "x \<noteq> []" and "sds_room (rd_buf r) (length x)"
  shows "\<exists>r'. redisReplyReaderFeed r (Some (map Some x)) (length x) = Some r' \<and> extends x r r' \<and>
    length (sds_str (rd_buf r')) \<le> length (sds_str (rd_buf r)) + length x"
proof -
  have wf: "sds_wf (rd_buf r)" using assms(1) by (simp add: buf_ok_def)
  show ?thesis
  proof (cases "rd_len r = 0 \<and> 16 * 1024 < sdsavail (rd_buf r)")
    case True
    let ?e = "sds_of [] []"
    have "sds_wf ?e" "sds_room ?e (length x)" using assms(3) by (simp_all add: sds_room_def INT_MAX_def)
    then obtain s where s: "sdscatlen ?e (map Some x) (length x) = Some s" "sds_wf s" "sds_str s = x"
      using sds.catlen_literal by fastforce
    let ?r = "r\<lparr>rd_pos := 0, rd_buf := s, rd_len := sdslen s\<rparr>"
    have "redisReplyReaderFeed r (Some (map Some x)) (length x) = Some ?r"
      using True s(1) assms(2) by (simp add: redisReplyReaderFeed_def sdsempty_eq Suc_le_eq)
    moreover have "rest r = []" using True assms(1) by (simp add: buf_ok_def rest_def)
    then have "extends x r ?r"
      using assms(1) s(2,3) sdslen_wf [OF s(2)] by (simp add: extends_def buf_ok_def rest_def with_buf_def)
    ultimately show ?thesis using s(3) by auto
  next
    case False
    obtain s where s: "sdscatlen (rd_buf r) (map Some x) (length x) = Some s" "sds_wf s" "sds_str s = sds_str (rd_buf r) @ x"
      using sds.catlen_literal [OF wf assms(3)] by blast
    let ?r = "r\<lparr>rd_buf := s, rd_len := sdslen s\<rparr>"
    have "redisReplyReaderFeed r (Some (map Some x)) (length x) = Some ?r"
      using False s(1) assms(2) by (auto simp: redisReplyReaderFeed_def Suc_le_eq)
    moreover have "extends x r ?r"
      using assms(1) s(2,3) sdslen_wf [OF s(2)] by (simp add: extends_def buf_ok_def rest_def with_buf_def)
    ultimately show ?thesis using s(3) by auto
  qed
qed

lemma discard_ok:
  assumes "buf_ok r"
  shows "\<exists>r'. discard_consumed r = Some r' \<and> extends [] r r' \<and>
    length (sds_str (rd_buf r')) \<le> length (sds_str (rd_buf r))"
proof (cases "1024 \<le> rd_pos r")
  case True
  have wf: "sds_wf (rd_buf r)" "rd_pos r \<le> length (sds_str (rd_buf r))" "rd_len r \<le> 2147483647"
    using assms buf_bound [OF assms] by (simp_all add: buf_ok_def INT_MAX_def)
  obtain s where s: "sdsrange (rd_buf r) (int (rd_pos r)) (- 1) = Some s" "sds_wf s"
    "sds_str s = drop (rd_pos r) (sds_str (rd_buf r))"
    using sds.range_law [OF wf(1,2)] by blast
  have "c_int (int (rd_pos r)) = int (rd_pos r)" using assms wf(3) by (intro c_int_id) (auto simp: buf_ok_def)
  then have "discard_consumed r = Some (r\<lparr>rd_buf := s, rd_pos := 0, rd_len := sdslen s\<rparr>)"
    using True s(1) by (simp add: discard_consumed_def)
  then show ?thesis
    using assms s(2,3) sdslen_wf [OF s(2)] by (auto simp: extends_def buf_ok_def rest_def with_buf_def)
next
  case False
  then show ?thesis using assms by (simp add: discard_consumed_def extends_def)
qed

lemma extends_trans: "extends x a b \<Longrightarrow> extends y b c \<Longrightarrow> extends (x @ y) a c"
  unfolding extends_def by (metis append_assoc with_buf_upd(4))

lemma extends_root: "extends y r r' \<Longrightarrow> extends y (start_root r) (start_root r')"
  using extends_sel [of y r r'] by (simp add: start_root_def extends_upd)

end
