(* ===== verification/Format.thy ===== *)
theory Format
  imports Reader "HOL-Library.Signed_Division"
begin

text \<open>
  The command formatting of \<open>win32/hiredis/hiredis.c\<close> (lines 592 to 815): \<open>intlen\<close>,
  \<open>addArgument\<close>, \<open>redisvFormatCommand\<close>, \<open>redisFormatCommand\<close> and \<open>redisFormatCommandArgv\<close>.

  An argument list is a list of eight-byte slots, each a pointer or an integer; taking a slot
  of the other kind or one past the end is undefined and a fault. The text that the C library
  produces for a numeric conversion is the parameter \<open>render\<close>, a function of the conversion
  specification and of the arguments that are left.
\<close>

section \<open>Sizes\<close>

lemma sdiv10_smaller: "(i :: int) sdiv 10 \<noteq> 0 \<Longrightarrow> nat \<bar>i sdiv 10\<bar> < nat \<bar>i\<bar>"
  by (auto simp: signed_divide_int_def sgn_if abs_if split: if_splits)

function intlen_loop :: "int \<Rightarrow> int \<Rightarrow> int" where
  "intlen_loop i len =
     (let len = len + 1; i = i sdiv 10
      in if i \<noteq> 0 then intlen_loop i len else len)"
  by pat_completeness auto
termination by (relation "measure (\<lambda>(i, len). nat \<bar>i\<bar>)") (auto dest: sdiv10_smaller)

declare intlen_loop.simps [simp del]

definition intlen :: "int \<Rightarrow> int" where
  "intlen i = (if i < 0 then intlen_loop (c_int (- i)) 1 else intlen_loop i 0)"

text \<open>The new argument vector, its count and the total length; a negative count makes \<open>realloc\<close>
  fail.\<close>

definition addArgument :: "sdshdr \<Rightarrow> sdshdr list \<Rightarrow> int \<Rightarrow> int \<Rightarrow> (sdshdr list \<times> int \<times> int) option" where
  "addArgument a argv argc totlen = do {
     let argc = c_int (argc + 1);
     assert_c (0 < argc);
     let totlen = c_int (totlen + 1 + intlen (c_int (int (sdslen a))) + 2 + int (sdslen a) + 2);
     Some (argv @ [a], argc, totlen) }"

section \<open>Variable arguments and conversion specifications\<close>

datatype va_slot = VaPtr mem | VaWord int

type_synonym va_args = "va_slot list"

fun va_ptr :: "va_args \<Rightarrow> (mem \<times> va_args) option" where
  "va_ptr (VaPtr p # ap) = Some (p, ap)"
| "va_ptr ap = None"

fun va_size :: "va_args \<Rightarrow> (nat \<times> va_args) option" where
  "va_size (VaWord w # ap) = Some (c_size_t w, ap)"
| "va_size ap = None"

fun va_skip :: "va_args \<Rightarrow> va_args option" where
  "va_skip (s # ap) = Some ap"
| "va_skip [] = None"

text \<open>\<open>if (*_p != '\0' && *_p == x) _p++\<close>\<close>

definition skip_flag :: "char \<Rightarrow> mem \<Rightarrow> nat \<Rightarrow> nat option" where
  "skip_flag x m p = do { c \<leftarrow> mem_get m p; Some (if c = x then p + 1 else p) }"

text \<open>\<open>isdigit\<close> is undefined on a negative \<open>char\<close>.\<close>

function skip_digits :: "mem \<Rightarrow> nat \<Rightarrow> nat option" where
  "skip_digits m p = do {
     c \<leftarrow> mem_get m p;
     if c = NUL then Some p
     else do {
       assert_c (0 \<le> c_char c);
       if is_digit c then skip_digits m (p + 1) else Some p } }"
  by pat_completeness auto
termination by (relation "measure (\<lambda>(m, p). length m - p)") (auto simp: mem_get_def split: if_splits)

declare skip_digits.simps [simp del]

text \<open>The position after flags, field width, precision and length modifiers.\<close>

definition conv_end :: "mem \<Rightarrow> nat \<Rightarrow> nat option" where
  "conv_end m p = do {
     p \<leftarrow> skip_flag (CHR ''#'') m p;
     p \<leftarrow> skip_flag (CHR ''0'') m p;
     p \<leftarrow> skip_flag (CHR ''-'') m p;
     p \<leftarrow> skip_flag (CHR '' '') m p;
     p \<leftarrow> skip_flag (CHR ''+'') m p;
     p \<leftarrow> skip_digits m p;
     c \<leftarrow> mem_get m p;
     p \<leftarrow> (if c = CHR ''.'' then skip_digits m (p + 1) else Some p);
     c \<leftarrow> mem_get m p;
     if c = CHR ''h'' \<or> c = CHR ''l'' then do {
       d \<leftarrow> mem_get m (p + 1);
       Some (if c = d then p + 2 else p + 1) }
     else Some p }"

text \<open>The \<open>switch(c[1])\<close> of the format loop: the new \<open>c\<close>, the arguments left, \<open>current\<close>.\<close>

definition conv_step :: "(string \<Rightarrow> va_args \<Rightarrow> string option) \<Rightarrow> mem \<Rightarrow> nat \<Rightarrow> va_args \<Rightarrow> sdshdr
    \<Rightarrow> (nat \<times> va_args \<times> sdshdr) option" where
  "conv_step render fmt c ap current = do {
     k \<leftarrow> mem_get fmt (c + 1);
     if k = CHR ''s'' then do {
       (arg, ap) \<leftarrow> va_ptr ap;
       len \<leftarrow> strlen arg;
       current \<leftarrow> (if 0 < len then sdscatlen current arg len else Some current);
       Some (c, ap, current) }
     else if k = CHR ''b'' then do {
       (arg, ap) \<leftarrow> va_ptr ap;
       (len, ap) \<leftarrow> va_size ap;
       current \<leftarrow> (if 0 < len then sdscatlen current arg len else Some current);
       Some (c, ap, current) }
     else if k = CHR ''%'' then do {
       current \<leftarrow> sdscat current (c_literal ''%'');
       Some (c, ap, current) }
     else do {
       p \<leftarrow> conv_end fmt (c + 1);
       k \<leftarrow> mem_get fmt p;
       (c, current) \<leftarrow>
         (if k \<noteq> NUL \<and> strchr_hit ''diouxXeEfFgGaA'' k \<and> p + 1 - c < 16 - 2 then do {
            f \<leftarrow> mem_fetch fmt c (p + 1 - c);
            out \<leftarrow> render (map the f) ap;
            current \<leftarrow> sdscatvprintf current out;
            Some (p - 1, current) }
          else Some (c, current));
       ap \<leftarrow> va_skip ap;
       Some (c, ap, current) } }"

lemma skip_flag_ge: "skip_flag x m p = Some q \<Longrightarrow> p \<le> q"
  by (auto simp: skip_flag_def bind_eq_Some_conv)

lemma skip_digits_ge: "skip_digits m p = Some q \<Longrightarrow> p \<le> q"
proof (induction m p arbitrary: q rule: skip_digits.induct)
  case (1 m p)
  from "1.prems" show ?case
    by (subst (asm) skip_digits.simps) (auto simp: bind_eq_Some_conv split: if_splits dest: "1.IH")
qed

lemma conv_end_ge: "conv_end m p = Some q \<Longrightarrow> p \<le> q"
  by (fastforce simp: conv_end_def bind_eq_Some_conv split: if_splits dest!: skip_flag_ge skip_digits_ge)

lemma conv_step_ge: "conv_step render fmt c ap current = Some (c', ap', current') \<Longrightarrow> c \<le> c'"
  by (auto simp: conv_step_def bind_eq_Some_conv split: if_splits dest!: conv_end_ge)

section \<open>The format loop\<close>

text \<open>\<open>*c != '%' || c[1] == '\0'\<close>\<close>

definition plain_char :: "mem \<Rightarrow> nat \<Rightarrow> char \<Rightarrow> bool option" where
  "plain_char fmt c ch =
     (if ch \<noteq> CHR ''%'' then Some True else do { d \<leftarrow> mem_get fmt (c + 1); Some (d = NUL) })"

text \<open>The result: \<open>current\<close>, \<open>touched\<close>, \<open>argv\<close>, \<open>argc\<close>, \<open>totlen\<close>.\<close>

function format_loop :: "(string \<Rightarrow> va_args \<Rightarrow> string option) \<Rightarrow> mem \<Rightarrow> nat \<Rightarrow> va_args \<Rightarrow> sdshdr \<Rightarrow> bool
    \<Rightarrow> sdshdr list \<Rightarrow> int \<Rightarrow> int \<Rightarrow> (sdshdr \<times> bool \<times> sdshdr list \<times> int \<times> int) option" where
  "format_loop render fmt c ap current touched argv argc totlen = do {
     ch \<leftarrow> mem_get fmt c;
     if ch = NUL then Some (current, touched, argv, argc, totlen)
     else do {
       plain \<leftarrow> plain_char fmt c ch;
       if plain then
         if ch = CHR '' '' then
           if touched then do {
             (argv, argc, totlen) \<leftarrow> addArgument current argv argc totlen;
             current \<leftarrow> sdsempty;
             format_loop render fmt (c + 1) ap current False argv argc totlen }
           else format_loop render fmt (c + 1) ap current touched argv argc totlen
         else do {
           current \<leftarrow> sdscatlen current (drop c fmt) 1;
           format_loop render fmt (c + 1) ap current True argv argc totlen }
       else do {
         (c', ap, current) \<leftarrow> conv_step render fmt c ap current;
         format_loop render fmt (c' + 2) ap current True argv argc totlen } } }"
  by pat_completeness auto
termination
  by (relation "measure (\<lambda>(render, fmt, c, r). length fmt - c)")
    (auto simp: mem_get_def split: if_splits dest!: conv_step_ge)

declare format_loop.simps [simp del]

section \<open>Building the command\<close>

definition store_at :: "mem \<Rightarrow> int \<Rightarrow> mem \<Rightarrow> mem option" where
  "store_at cmd pos bytes = (if 0 \<le> pos then mem_store cmd (nat pos) bytes else None)"

text \<open>\<open>pos += sprintf(cmd+pos, \<dots>)\<close>\<close>

definition sprintf_at :: "mem \<Rightarrow> int \<Rightarrow> string \<Rightarrow> (mem \<times> int) option" where
  "sprintf_at cmd pos out = do {
     cmd \<leftarrow> store_at cmd pos (c_literal out);
     Some (cmd, c_int (pos + int (length out))) }"

text \<open>One turn of the loop that writes the arguments, the same in both functions.\<close>

definition put_arg :: "mem \<Rightarrow> int \<Rightarrow> mem \<Rightarrow> nat \<Rightarrow> (mem \<times> int) option" where
  "put_arg cmd pos arg len = do {
     (cmd, pos) \<leftarrow> sprintf_at cmd pos (''$'' @ show_nat len @ CRLF);
     bytes \<leftarrow> mem_fetch arg 0 len;
     cmd \<leftarrow> store_at cmd pos bytes;
     let pos = c_int (pos + int len);
     cmd \<leftarrow> store_at cmd pos [Some CR];
     let pos = c_int (pos + 1);
     cmd \<leftarrow> store_at cmd pos [Some LF];
     let pos = c_int (pos + 1);
     Some (cmd, pos) }"

fun put_args :: "mem \<Rightarrow> int \<Rightarrow> sdshdr list \<Rightarrow> (mem \<times> int) option" where
  "put_args cmd pos [] = Some (cmd, pos)"
| "put_args cmd pos (a # argv) = do {
     (cmd, pos) \<leftarrow> put_arg cmd pos (sds_buf a) (sdslen a);
     put_args cmd pos argv }"

text \<open>The returned length, and the block stored through \<open>target\<close>, which may be NULL.\<close>

definition redisvFormatCommand :: "bool \<Rightarrow> (string \<Rightarrow> va_args \<Rightarrow> string option) \<Rightarrow> mem \<Rightarrow> va_args
    \<Rightarrow> (int \<times> mem option) option" where
  "redisvFormatCommand target render format ap =
     (if \<not> target then Some (- 1, None)
      else do {
        current \<leftarrow> sdsempty;
        (current, touched, argv, argc, totlen) \<leftarrow> format_loop render format 0 ap current False [] 0 0;
        (argv, argc, totlen) \<leftarrow>
          (if touched then addArgument current argv argc totlen else Some (argv, argc, totlen));
        let totlen = c_int (totlen + 1 + intlen argc + 2);
        cmd \<leftarrow> malloc (c_size_t (c_int (totlen + 1)));
        (cmd, pos) \<leftarrow> sprintf_at cmd 0 (''*'' @ show_int argc @ CRLF);
        (cmd, pos) \<leftarrow> put_args cmd pos argv;
        assert_c (pos = totlen);
        cmd \<leftarrow> store_at cmd totlen [Some NUL];
        Some (totlen, Some cmd) })"

text \<open>The variadic function only makes the argument list.\<close>

definition redisFormatCommand :: "bool \<Rightarrow> (string \<Rightarrow> va_args \<Rightarrow> string option) \<Rightarrow> mem \<Rightarrow> va_args
    \<Rightarrow> (int \<times> mem option) option" where
  "redisFormatCommand target render format args = redisvFormatCommand target render format args"

section \<open>Formatting an argument vector\<close>

definition arg_len :: "mem list \<Rightarrow> nat list option \<Rightarrow> nat \<Rightarrow> nat option" where
  "arg_len argv argvlen j =
     (case argvlen of Some ls \<Rightarrow> slot_get ls j | None \<Rightarrow> do { a \<leftarrow> slot_get argv j; strlen a })"

function argv_totlen :: "int \<Rightarrow> mem list \<Rightarrow> nat list option \<Rightarrow> nat \<Rightarrow> int \<Rightarrow> int option" where
  "argv_totlen argc argv argvlen j totlen =
     (if int j < argc then do {
        len \<leftarrow> arg_len argv argvlen j;
        argv_totlen argc argv argvlen (j + 1)
          (c_int (totlen + 1 + intlen (c_int (int len)) + 2 + int len + 2)) }
      else Some totlen)"
  by pat_completeness auto
termination by (relation "measure (\<lambda>(argc, argv, argvlen, j, totlen). nat (argc - int j))") auto

function argv_put :: "int \<Rightarrow> mem list \<Rightarrow> nat list option \<Rightarrow> nat \<Rightarrow> mem \<Rightarrow> int \<Rightarrow> (mem \<times> int) option" where
  "argv_put argc argv argvlen j cmd pos =
     (if int j < argc then do {
        len \<leftarrow> arg_len argv argvlen j;
        a \<leftarrow> slot_get argv j;
        (cmd, pos) \<leftarrow> put_arg cmd pos a len;
        argv_put argc argv argvlen (j + 1) cmd pos }
      else Some (cmd, pos))"
  by pat_completeness auto
termination by (relation "measure (\<lambda>(argc, argv, argvlen, j, cmd, pos). nat (argc - int j))") auto

declare argv_totlen.simps [simp del] argv_put.simps [simp del]

definition redisFormatCommandArgv :: "int \<Rightarrow> mem list \<Rightarrow> nat list option \<Rightarrow> (int \<times> mem) option" where
  "redisFormatCommandArgv argc argv argvlen = do {
     totlen \<leftarrow> argv_totlen argc argv argvlen 0 (1 + intlen argc + 2);
     cmd \<leftarrow> malloc (c_size_t (c_int (totlen + 1)));
     (cmd, pos) \<leftarrow> sprintf_at cmd 0 (''*'' @ show_int argc @ CRLF);
     (cmd, pos) \<leftarrow> argv_put argc argv argvlen 0 cmd pos;
     assert_c (pos = totlen);
     cmd \<leftarrow> store_at cmd totlen [Some NUL];
     Some (totlen, cmd) }"

end
