(* ===== verification/FormatProps.thy ===== *)
theory FormatProps
  imports Format ReaderProps
begin

text \<open>
  What command formatting computes: the encoding of an array of strings, one string per word of
  the format (or per element of the argument vector), with the returned length exactly the
  length of the block. Arguments interpolated with \<open>%s\<close>, \<open>%b\<close> and numeric conversions never
  change the number or the borders of the words.
\<close>

section \<open>Lengths\<close>

lemma intlen_loop_nat: "intlen_loop (int n) len = len + int (length (show_nat n))"
proof (induction n arbitrary: len rule: show_nat.induct)
  case (1 n)
  have q: "int n sdiv 10 = int (n div 10)" by (simp add: signed_divide_int_def sgn_if zdiv_int)
  show ?case
  proof (cases "n < 10")
    case True
    then show ?thesis unfolding intlen_loop.simps [of "int n"] Let_def q by (simp add: show_nat.simps [of n])
  next
    case False
    then have "n div 10 \<noteq> 0" by (simp add: div_eq_0_iff)
    then show ?thesis unfolding intlen_loop.simps [of "int n"] Let_def q
      using "1.IH" [OF False] False by (simp add: show_nat.simps [of n])
  qed
qed

lemma intlen_nat: "intlen (int n) = int (length (show_nat n))"
  by (simp add: intlen_def intlen_loop_nat)

lemma show_int_nat: "show_int (int n) = show_nat n"
  by (simp add: show_int_def)

definition words_len :: "string list \<Rightarrow> nat" where
  "words_len ws = length (concat (map (enc \<circ> RString) ws))"

lemma words_len_simps [simp]:
  "words_len [] = 0" "words_len (w # ws) = length (enc (RString w)) + words_len ws"
  "words_len (us @ ws) = words_len us + words_len ws"
  by (simp_all add: words_len_def)

lemma words_len_ge: "length ws * 5 \<le> words_len ws"
proof (induction ws)
  case (Cons w ws)
  have "1 \<le> length (show_nat (length w))" by (cases "show_nat (length w)") simp_all
  with Cons show ?case by simp
qed simp

lemma word_len_le: "w \<in> set ws \<Longrightarrow> length w \<le> words_len ws"
  by (induction ws) auto

abbreviation enc_cmd :: "string list \<Rightarrow> string" where
  "enc_cmd ws \<equiv> enc (RArray (map RString ws))"

lemma enc_cmd_len: "length (enc_cmd ws) = 3 + length (show_nat (length ws)) + words_len ws"
  by (simp add: words_len_def comp_def)

section \<open>Writing the command\<close>

lemma store_at_of [simp]:
  "pos = int (length d) \<Longrightarrow> length xs \<le> length t \<Longrightarrow>
   store_at (map Some d @ t) pos xs = Some (map Some d @ xs @ drop (length xs) t)"
  by (simp add: store_at_def mem_store_def)

lemma put_arg_of:
  assumes "length (enc (RString s)) < length t" and "int (length d + length (enc (RString s))) \<le> INT_MAX"
    and "pos = int (length d)"
  shows "put_arg (map Some d @ t) pos (map Some s @ r) (length s)
    = Some (map Some (d @ enc (RString s)) @ drop (length (enc (RString s))) t, int (length (d @ enc (RString s))))"
proof -
  let ?h = "''$'' @ show_nat (length s) @ CRLF"
  have len: "length (enc (RString s)) = length ?h + length s + 2" by simp
  have p1: "c_int (pos + int (length ?h)) = int (length (d @ ?h))"
    using assms(2,3) by (subst c_int_id) (simp_all add: INT_MAX_def)
  let ?t = "Some NUL # drop (length ?h + 1) t"
  have s1: "sprintf_at (map Some d @ t) pos ?h = Some (map Some (d @ ?h) @ ?t, int (length (d @ ?h)))"
    unfolding sprintf_at_def using p1 assms(1,3) len by (simp add: c_literal_def)
  have tl: "length s + 2 \<le> length ?t" using assms(1) len by simp
  then obtain u where u: "drop (length s) ?t = u" "2 \<le> length u" "drop (length (enc (RString s))) t = drop 2 u"
    using len by (cases "length s") (simp_all add: add.commute)
  have s2: "store_at (map Some (d @ ?h) @ ?t) (int (length (d @ ?h))) (map Some s)
      = Some (map Some (d @ ?h @ s) @ u)"
    using store_at_of [OF refl, of "map Some s" ?t "d @ ?h"] tl u(1) by (simp only: length_map map_append append_assoc)
  obtain a b v where v: "u = a # b # v" using u(2) by (cases u rule: remdups_adj.cases) auto
  have p2: "c_int (int (length (d @ ?h)) + int (length s)) = int (length (d @ ?h @ s))"
    using assms(2) len by (subst c_int_id) (simp_all add: INT_MAX_def)
  have p3: "c_int (int (length (d @ ?h @ s)) + 1) = int (length (d @ ?h @ s @ [CR]))"
    using assms(2) len by (subst c_int_id) (simp_all add: INT_MAX_def)
  have p4: "c_int (int (length (d @ ?h @ s @ [CR])) + 1) = int (length (d @ ?h @ s @ CRLF))"
    using assms(2) len by (subst c_int_id) (simp_all add: INT_MAX_def)
  have s3: "store_at (map Some (d @ ?h @ s) @ u) (int (length (d @ ?h @ s))) [Some CR]
      = Some (map Some (d @ ?h @ s @ [CR]) @ b # v)"
    using store_at_of [OF refl, of "[Some CR]" u "d @ ?h @ s"] v by (simp del: store_at_of)
  have s4: "store_at (map Some (d @ ?h @ s @ [CR]) @ b # v) (int (length (d @ ?h @ s @ [CR]))) [Some LF]
      = Some (map Some (d @ ?h @ s @ CRLF) @ v)"
    using store_at_of [OF refl, of "[Some LF]" "b # v" "d @ ?h @ s @ [CR]"] by (simp del: store_at_of)
  have f: "mem_fetch (map Some s @ r) 0 (length s) = Some (map Some s)" by (simp add: mem_fetch_def)
  show ?thesis
    unfolding put_arg_def s1 f Let_def Option.bind.bind_lunit prod.case s2 p2 s3 p3 s4 p4
    using u(3) v by simp
qed

lemma put_args_of:
  assumes "list_all sds_wf argv" and "words_len (map sds_str argv) < length t"
    and "int (length d + words_len (map sds_str argv)) \<le> INT_MAX" and "pos = int (length d)"
  shows "put_args (map Some d @ t) pos argv
    = Some (map Some (d @ concat (map (\<lambda>a. enc (RString (sds_str a))) argv)) @ drop (words_len (map sds_str argv)) t,
        int (length d + words_len (map sds_str argv)))"
  using assms
proof (induction argv arbitrary: d t pos)
  case (Cons a argv)
  let ?e = "enc (RString (sds_str a))"
  obtain slack where a: "a = sds_of (sds_str a) slack" using Cons.prems(1) sds_wf_repr [of a] by auto
  have "put_arg (map Some d @ t) pos (sds_buf a) (sdslen a)
      = Some (map Some (d @ ?e) @ drop (length ?e) t, int (length (d @ ?e)))"
  proof -
    have "sds_buf a = map Some (sds_str a) @ Some NUL # slack" by (metis a sds_of_sel(3))
    moreover have "sdslen a = length (sds_str a)" using Cons.prems(1) sdslen_wf by simp
    ultimately show ?thesis using Cons.prems put_arg_of [of "sds_str a" t d pos] by simp
  qed
  moreover have "put_args (map Some (d @ ?e) @ drop (length ?e) t) (int (length (d @ ?e))) argv
      = Some (map Some ((d @ ?e) @ concat (map (\<lambda>a. enc (RString (sds_str a))) argv))
          @ drop (words_len (map sds_str argv)) (drop (length ?e) t),
          int (length (d @ ?e) + words_len (map sds_str argv)))"
    using Cons.prems by (intro Cons.IH) auto
  ultimately show ?case by (simp add: add.commute add.left_commute)
qed simp

lemma arg_total:
  assumes "int (k + length (enc (RString s))) \<le> INT_MAX"
  shows "c_int (int k + 1 + intlen (c_int (int (length s))) + 2 + int (length s) + 2) = int (k + length (enc (RString s)))"
proof -
  have "c_int (int (length s)) = int (length s)" using assms by (subst c_int_id) (simp_all add: INT_MAX_def)
  then show ?thesis using assms by (simp add: intlen_nat c_int_id INT_MAX_def algebra_simps)
qed

lemma addArgument_of:
  assumes "sds_wf a" and "int (k + length (enc (RString (sds_str a)))) \<le> INT_MAX" and "int n < INT_MAX"
  shows "addArgument a argv (int n) (int k) = Some (argv @ [a], int (n + 1), int (k + length (enc (RString (sds_str a)))))"
proof -
  have "c_int (int n + 1) = int (n + 1)" using assms(3) by (subst c_int_id) (simp_all add: INT_MAX_def)
  then show ?thesis unfolding addArgument_def sdslen_wf [OF assms(1)] arg_total [OF assms(2)] Let_def by simp
qed

section \<open>Argument vectors\<close>

text \<open>The vector holds the strings \<open>ws\<close>, with lengths given or found by \<open>strlen\<close>.\<close>

definition argv_holds :: "mem list \<Rightarrow> nat list option \<Rightarrow> string list \<Rightarrow> bool" where
  "argv_holds argv argvlen ws \<longleftrightarrow> length argv = length ws \<and>
     (\<forall>j<length ws. (\<exists>r. argv ! j = map Some (ws ! j) @ r) \<and> arg_len argv argvlen j = Some (length (ws ! j)))"

lemma argv_holds_lens: "argv_holds (map (map Some) ws) (Some (map length ws)) ws"
  by (auto simp: argv_holds_def arg_len_def)

lemma argv_holds_strs: "list_all (\<lambda>w. NUL \<notin> set w) ws \<Longrightarrow> argv_holds (map c_literal ws) None ws"
  by (auto simp: argv_holds_def arg_len_def list_all_iff c_literal_def)

lemma argv_totlen_of:
  assumes "argv_holds argv argvlen ws" and "j \<le> length ws" and "int (k + words_len (drop j ws)) \<le> INT_MAX"
  shows "argv_totlen (int (length ws)) argv argvlen j (int k) = Some (int (k + words_len (drop j ws)))"
  using assms(2,3)
proof (induction "length ws - j" arbitrary: j k)
  case 0
  then show ?case by (simp add: argv_totlen.simps)
next
  case (Suc m)
  then have j: "j < length ws" "drop j ws = ws ! j # drop (Suc j) ws" by (simp_all add: Cons_nth_drop_Suc)
  have len: "arg_len argv argvlen j = Some (length (ws ! j))" using assms(1) j(1) by (simp add: argv_holds_def)
  have b: "int (k + length (enc (RString (ws ! j)))) \<le> INT_MAX" using Suc.prems(2) unfolding j(2) by simp
  have "argv_totlen (int (length ws)) argv argvlen (j + 1) (int (k + length (enc (RString (ws ! j)))))
      = Some (int (k + length (enc (RString (ws ! j))) + words_len (drop (j + 1) ws)))"
    using Suc.hyps(2) Suc.prems(2) j by (intro Suc.hyps(1)) simp_all
  then show ?case
    using j len arg_total [OF b] by (subst argv_totlen.simps) (simp add: algebra_simps)
qed

lemma argv_put_of:
  assumes "argv_holds argv argvlen ws" and "j \<le> length ws" and "words_len (drop j ws) < length t"
    and "int (length d + words_len (drop j ws)) \<le> INT_MAX"
  shows "argv_put (int (length ws)) argv argvlen j (map Some d @ t) (int (length d))
    = Some (map Some (d @ concat (map (\<lambda>w. enc (RString w)) (drop j ws))) @ drop (words_len (drop j ws)) t,
        int (length d + words_len (drop j ws)))"
  using assms(2-4)
proof (induction "length ws - j" arbitrary: j d t)
  case 0
  then show ?case by (simp add: argv_put.simps)
next
  case (Suc m)
  then have j: "j < length ws" "drop j ws = ws ! j # drop (Suc j) ws" by (simp_all add: Cons_nth_drop_Suc)
  let ?e = "enc (RString (ws ! j))"
  obtain r where a: "arg_len argv argvlen j = Some (length (ws ! j))" "slot_get argv j = Some (map Some (ws ! j) @ r)"
    using assms(1) j(1) by (auto simp: argv_holds_def)
  have put: "put_arg (map Some d @ t) (int (length d)) (map Some (ws ! j) @ r) (length (ws ! j))
      = Some (map Some (d @ ?e) @ drop (length ?e) t, int (length (d @ ?e)))"
    using Suc.prems(2,3) unfolding j(2) by (intro put_arg_of) simp_all
  have "argv_put (int (length ws)) argv argvlen (j + 1) (map Some (d @ ?e) @ drop (length ?e) t) (int (length (d @ ?e)))
      = Some (map Some ((d @ ?e) @ concat (map (\<lambda>w. enc (RString w)) (drop (j + 1) ws)))
          @ drop (words_len (drop (j + 1) ws)) (drop (length ?e) t),
        int (length (d @ ?e) + words_len (drop (j + 1) ws)))"
    using Suc.hyps(2) Suc.prems(2,3) j by (intro Suc.hyps(1)) simp_all
  then show ?case
    using j a put by (subst argv_put.simps) (simp add: algebra_simps del: enc.simps)
qed

text \<open>The start and the end of both functions.\<close>

lemma build_header:
  assumes "int (length (enc_cmd ws)) < INT_MAX"
  shows "malloc (c_size_t (c_int (int (length (enc_cmd ws)) + 1))) = Some (replicate (length (enc_cmd ws) + 1) None)"
    and "sprintf_at (replicate (length (enc_cmd ws) + 1) None) 0 (''*'' @ show_int (int (length ws)) @ CRLF)
      = Some (map Some (''*'' @ show_nat (length ws) @ CRLF) @ Some NUL # replicate (words_len ws) None,
          int (3 + length (show_nat (length ws))))"
proof -
  have c: "c_int (int (length (enc_cmd ws)) + 1) = int (length (enc_cmd ws) + 1)"
    using assms by (subst c_int_id) (simp_all add: INT_MAX_def)
  show "malloc (c_size_t (c_int (int (length (enc_cmd ws)) + 1))) = Some (replicate (length (enc_cmd ws) + 1) None)"
    unfolding c using assms by (subst c_size_t_of_nat) (simp_all add: INT_MAX_def malloc_ok)
  have l: "length (c_literal (''*'' @ show_nat (length ws) @ CRLF)) = 4 + length (show_nat (length ws))" by simp
  have p: "c_int (0 + int (length (''*'' @ show_nat (length ws) @ CRLF))) = int (3 + length (show_nat (length ws)))"
    using assms unfolding enc_cmd_len by (subst c_int_id) (simp_all add: INT_MAX_def)
  show "sprintf_at (replicate (length (enc_cmd ws) + 1) None) 0 (''*'' @ show_int (int (length ws)) @ CRLF)
      = Some (map Some (''*'' @ show_nat (length ws) @ CRLF) @ Some NUL # replicate (words_len ws) None,
          int (3 + length (show_nat (length ws))))"
    unfolding sprintf_at_def show_int_nat p enc_cmd_len
    using store_at_of [of 0 "[]" "c_literal (''*'' @ show_nat (length ws) @ CRLF)"
        "replicate (3 + length (show_nat (length ws)) + words_len ws + 1) None"] l
    by (simp add: c_literal_def del: replicate.simps)
qed

lemma format_argv_of:
  assumes "argv_holds argv argvlen ws" and "int (length (enc_cmd ws)) < INT_MAX"
  shows "redisFormatCommandArgv (int (length ws)) argv argvlen
    = Some (int (length (enc_cmd ws)), map Some (enc_cmd ws) @ [Some NUL])"
proof -
  let ?h = "''*'' @ show_nat (length ws) @ CRLF"
  have tot: "argv_totlen (int (length ws)) argv argvlen 0 (1 + intlen (int (length ws)) + 2) = Some (int (length (enc_cmd ws)))"
    using argv_totlen_of [OF assms(1), of 0 "3 + length (show_nat (length ws))"] assms(2)
    unfolding enc_cmd_len intlen_nat by (simp add: algebra_simps)
  have put: "argv_put (int (length ws)) argv argvlen 0 (map Some ?h @ Some NUL # replicate (words_len ws) None) (int (length ?h))
      = Some (map Some (enc_cmd ws) @ drop (words_len ws) (Some NUL # replicate (words_len ws) None), int (length (enc_cmd ws)))"
    using argv_put_of [OF assms(1), of 0 "Some NUL # replicate (words_len ws) None" ?h] assms(2)
    unfolding enc_cmd_len by (simp add: comp_def)
  have "length (drop (words_len ws) (Some NUL # replicate (words_len ws) None)) = Suc 0" by simp
  then obtain x where x: "drop (words_len ws) (Some NUL # replicate (words_len ws) None) = [x]"
    by (metis length_0_conv length_Suc_conv)
  have h: "int (length ?h) = int (3 + length (show_nat (length ws)))" by simp
  have st: "store_at (map Some (enc_cmd ws) @ [x]) (int (length (enc_cmd ws))) [Some NUL] = Some (map Some (enc_cmd ws) @ [Some NUL])"
    using store_at_of [OF refl, of "[Some NUL]" "[x]" "enc_cmd ws"] by (simp del: store_at_of)
  show ?thesis
    unfolding redisFormatCommandArgv_def tot Option.bind.bind_lunit build_header [OF assms(2)] prod.case
      put [unfolded h] x by (simp add: st del: enc.simps store_at_of)
qed

section \<open>Formats\<close>

text \<open>
  A format as the items it is made of: a space, a literal byte, a conversion with the argument it
  takes. \<open>Num spec slot out\<close> is a numeric conversion whose argument \<open>slot\<close> is printed as \<open>out\<close>.
\<close>

datatype fmt_item = Gap | Lit char | StrArg string mem | BinArg string mem | Percent | Num string va_slot string

fun item_text :: "fmt_item \<Rightarrow> string" where
  "item_text Gap = '' ''"
| "item_text (Lit c) = [c]"
| "item_text (StrArg s r) = ''%s''"
| "item_text (BinArg s r) = ''%b''"
| "item_text Percent = ''%%''"
| "item_text (Num spec slot out) = ''%'' @ spec"

fun item_args :: "fmt_item \<Rightarrow> va_args" where
  "item_args (StrArg s r) = [VaPtr (map Some s @ Some NUL # r)]"
| "item_args (BinArg s r) = [VaPtr (map Some s @ r), VaWord (int (length s))]"
| "item_args (Num spec slot out) = [slot]"
| "item_args i = []"

fun item_value :: "fmt_item \<Rightarrow> string" where
  "item_value Gap = []"
| "item_value (Lit c) = [c]"
| "item_value (StrArg s r) = s"
| "item_value (BinArg s r) = s"
| "item_value Percent = ''%''"
| "item_value (Num spec slot out) = out"

text \<open>A specification: digits of the field width (with a leading 0 as flag), an optional precision,
  a length modifier, the conversion.\<close>

definition num_spec :: "string \<Rightarrow> bool" where
  "num_spec spec \<longleftrightarrow> (\<exists>w p m k. spec = w @ p @ m @ [k] \<and> list_all is_digit w \<and>
     (p = [] \<or> (\<exists>ds. p = CHR ''.'' # ds \<and> list_all is_digit ds)) \<and>
     m \<in> {[], ''h'', ''hh'', ''l'', ''ll''} \<and> k \<in> set ''diouxXeEfFgGaA'' \<and> length spec < 13)"

fun item_ok :: "(string \<Rightarrow> va_args \<Rightarrow> string option) \<Rightarrow> fmt_item \<Rightarrow> bool" where
  "item_ok render (Lit c) \<longleftrightarrow> c \<notin> {NUL, CHR '' '', CHR ''%''}"
| "item_ok render (StrArg s r) \<longleftrightarrow> NUL \<notin> set s"
| "item_ok render (Num spec slot out) \<longleftrightarrow>
     num_spec spec \<and> NUL \<notin> set out \<and> (\<forall>ap. render (''%'' @ spec) (slot # ap) = Some out)"
| "item_ok render i \<longleftrightarrow> True"

text \<open>The words of a format: maximal runs of items without a gap.\<close>

fun fmt_words :: "string option \<Rightarrow> fmt_item list \<Rightarrow> string list" where
  "fmt_words None [] = []"
| "fmt_words (Some w) [] = [w]"
| "fmt_words None (Gap # is) = fmt_words None is"
| "fmt_words (Some w) (Gap # is) = w # fmt_words None is"
| "fmt_words cur (i # is) = fmt_words (Some (case_option [] id cur @ item_value i)) is"

lemma fmt_words_Some: "\<exists>x ys. fmt_words (Some w) is = (w @ x) # ys"
  by (induction "Some w" "is" arbitrary: w rule: fmt_words.induct) (simp_all, (metis append_assoc)+)

lemma skip_flag_pre:
  "skip_flag x (map Some (pre @ c # s) @ r) (length pre) = Some (if c = x then length (pre @ [c]) else length pre)"
  by (simp add: skip_flag_def mem_get_def nth_append)

lemma skip_digits_pre:
  assumes "list_all is_digit ds" and "\<not> is_digit c" and "c \<noteq> NUL" and "0 \<le> c_char c"
  shows "skip_digits (map Some (pre @ ds @ c # s) @ r) (length pre) = Some (length (pre @ ds))"
  using assms(1)
proof (induction ds arbitrary: pre)
  case Nil
  then show ?case using assms(2-4) by (subst skip_digits.simps) (simp add: mem_get_def nth_append)
next
  case (Cons d ds)
  have d: "d \<noteq> NUL" "0 \<le> c_char d" using Cons.prems by (auto simp: is_digit_def c_char_def)
  show ?case using Cons.IH [of "pre @ [d]"] Cons.prems d
    by (subst skip_digits.simps) (simp add: mem_get_def nth_append)
qed

lemma skip_flag_no:
  assumes "t \<noteq> []" and "x \<notin> set t"
  shows "skip_flag x (map Some (pre @ t @ s) @ r) (length pre) = Some (length pre)"
  using assms skip_flag_pre [of x pre "hd t" "tl t @ s" r] by (cases t) auto

lemma skip_flag_zero:
  assumes "t \<noteq> []" and "list_all is_digit w" and "CHR ''0'' \<notin> set t"
  obtains pre' w' where "skip_flag (CHR ''0'') (map Some (pre @ w @ t @ s) @ r) (length pre) = Some (length pre')"
    and "pre @ w = pre' @ w'" and "list_all is_digit w'"
proof (cases w)
  case Nil
  then show thesis using skip_flag_no [OF assms(1,3), of pre s r] that [of pre w] assms(2) by simp
next
  case (Cons d ds)
  then show thesis
    using skip_flag_pre [of "CHR ''0''" pre d "ds @ t @ s" r] assms(2) that [of pre w] that [of "pre @ [d]" ds]
    by (cases "d = CHR ''0''") simp_all
qed

lemma num_chars:
  assumes "list_all is_digit w" and "p = [] \<or> (\<exists>ds. p = CHR ''.'' # ds \<and> list_all is_digit ds)"
    and "m \<in> {[], ''h'', ''hh'', ''l'', ''ll''}" and "k \<in> set ''diouxXeEfFgGaA''" and "x \<in> insert NUL (set ''#- +%sb'')"
  shows "x \<notin> set (w @ p @ m @ [k])"
proof -
  have x: "\<not> is_digit x" "x \<noteq> CHR ''.''" "x \<noteq> CHR ''h''" "x \<noteq> CHR ''l''" "x \<notin> set ''diouxXeEfFgGaA''"
    using assms(5) by (auto simp: is_digit_def)
  have "x \<notin> set w" "x \<notin> set p" using assms(1,2) x(1,2) by (auto simp: list_all_iff)
  moreover have "x \<notin> set m" using assms(3) x(3,4) by auto
  moreover have "x \<noteq> k" using assms(4) x(5) by metis
  ultimately show ?thesis by simp
qed

lemma not_digit_kind:
  assumes "m \<in> {[], ''h'', ''hh'', ''l'', ''ll''}" and "k \<in> set ''diouxXeEfFgGaA''"
  obtains c t where "m @ [k] = c # t" and "\<not> is_digit c" and "c \<noteq> NUL" and "0 \<le> c_char c" and "c \<noteq> CHR ''.''"
  using assms by (auto simp: is_digit_def c_char_def)

lemma modifier_end:
  assumes "m \<in> {[], ''h'', ''hh'', ''l'', ''ll''}" and "k \<in> set ''diouxXeEfFgGaA''"
  shows "(do { c \<leftarrow> mem_get (map Some (pre @ m @ k # s) @ r) (length pre);
     if c = CHR ''h'' \<or> c = CHR ''l'' then do {
       d \<leftarrow> mem_get (map Some (pre @ m @ k # s) @ r) (length pre + 1);
       Some (if c = d then length pre + 2 else length pre + 1) }
     else Some (length pre) }) = Some (length (pre @ m))"
proof -
  have k: "k \<noteq> CHR ''h''" "k \<noteq> CHR ''l''" using assms(2) by auto
  have m: "m = [] \<or> m = ''h'' \<or> m = ''hh'' \<or> m = ''l'' \<or> m = ''ll''" using assms(1) by simp
  show ?thesis using m k by (elim disjE) (simp_all add: mem_get_def nth_append)
qed

lemma conv_end_of:
  assumes "list_all is_digit w" and "p = [] \<or> (\<exists>ds. p = CHR ''.'' # ds \<and> list_all is_digit ds)"
    and "m \<in> {[], ''h'', ''hh'', ''l'', ''ll''}" and "k \<in> set ''diouxXeEfFgGaA''"
  shows "conv_end (map Some (pre @ w @ p @ m @ k # s) @ r) (length pre) = Some (length (pre @ w @ p @ m))"
proof -
  let ?M = "map Some (pre @ w @ p @ m @ k # s) @ r"
  have no: "x \<notin> set (w @ p @ m @ [k])" if "x \<in> set ''#- +''" for x using num_chars [OF assms] that by auto
  have f1: "skip_flag (CHR ''#'') ?M (length pre) = Some (length pre)"
    using skip_flag_no [of "w @ p @ m @ [k]" "CHR ''#''" pre s r] no by simp
  have z: "CHR ''0'' \<notin> set (p @ m @ [k]) \<or> p \<noteq> []" using assms(3,4) by auto
  obtain pre' w' where f2: "skip_flag (CHR ''0'') ?M (length pre) = Some (length pre')" "pre @ w = pre' @ w'" "list_all is_digit w'"
  proof (cases p)
    case Nil
    then show thesis using skip_flag_zero [of "m @ [k]" w pre s r] assms(1) z that by auto
  next
    case (Cons c q)
    then have "CHR ''0'' \<notin> set [c]" using assms(2) by auto
    then show thesis using skip_flag_zero [of "[c]" w pre "q @ m @ k # s" r] assms(1) Cons that by auto
  qed
  have M: "?M = map Some (pre' @ (w' @ p @ m @ [k]) @ s) @ r" using f2(2) by (metis append.assoc append_Cons append_Nil)
  have sub: "set w' \<subseteq> set (pre @ w)" using f2(2) by auto
  have w': "x \<notin> set (w' @ p @ m @ [k])" if "x \<in> set ''#- +''" for x
    using num_chars [OF f2(3) assms(2-4)] that by auto
  have f3: "skip_flag x ?M (length pre') = Some (length pre')" if "x \<in> set ''- +''" for x
    unfolding M using that w' [of x] by (intro skip_flag_no) auto
  have f3a: "skip_flag (CHR ''-'') ?M (length pre') = Some (length pre')"
    and f3b: "skip_flag (CHR '' '') ?M (length pre') = Some (length pre')"
    and f3c: "skip_flag (CHR ''+'') ?M (length pre') = Some (length pre')" by (rule f3, simp)+
  obtain c t where c: "m @ [k] = c # t" "\<not> is_digit c" "c \<noteq> NUL" "0 \<le> c_char c" "c \<noteq> CHR ''.''"
    using not_digit_kind [OF assms(3,4)] .
  let ?E = "length (pre @ w @ p)"
  have ms: "?M = map Some ((pre' @ w') @ p @ c # t @ s) @ r" unfolding M using c(1) by simp
  have d1: "skip_digits ?M (length pre') = Some (length (pre' @ w'))"
    using assms(2)
  proof
    assume "p = []"
    then show ?thesis unfolding M using skip_digits_pre [OF f2(3) c(2-4), of pre' "t @ s" r] c(1) by simp
  next
    assume "\<exists>ds. p = CHR ''.'' # ds \<and> list_all is_digit ds"
    then obtain ds where ds: "p = CHR ''.'' # ds" by blast
    have "\<not> is_digit (CHR ''.'')" "CHR ''.'' \<noteq> NUL" "0 \<le> c_char (CHR ''.'')" by (simp_all add: is_digit_def c_char_def)
    from skip_digits_pre [OF f2(3) this, of pre' "ds @ m @ k # s" r] show ?thesis unfolding M using ds by simp
  qed
  have d2: "(mem_get ?M (length (pre' @ w')) \<bind>
      (\<lambda>c. if c = CHR ''.'' then skip_digits ?M (length (pre' @ w') + 1) else Some (length (pre' @ w')))) = Some ?E"
    using assms(2)
  proof
    assume p: "p = []"
    have "mem_get ?M (length (pre' @ w')) = Some c" unfolding ms using p by (simp add: mem_get_def nth_append)
    moreover have "length (pre' @ w') = ?E" using f2(2) p by simp
    ultimately show ?thesis using c(5) by simp
  next
    assume "\<exists>ds. p = CHR ''.'' # ds \<and> list_all is_digit ds"
    then obtain ds where ds: "p = CHR ''.'' # ds" "list_all is_digit ds" by blast
    have "mem_get ?M (length (pre' @ w')) = Some (CHR ''.'')" unfolding ms using ds by (simp add: mem_get_def nth_append)
    moreover have "skip_digits ?M (length (pre' @ w') + 1) = Some (length ((pre' @ w') @ p))"
      unfolding ms using skip_digits_pre [OF ds(2) c(2-4), of "pre' @ w' @ ''.''" "t @ s" r] ds(1) by simp
    moreover have "length ((pre' @ w') @ p) = ?E" using f2(2) by (metis append_assoc)
    ultimately show ?thesis by simp
  qed
  have m2: "(mem_get ?M ?E \<bind> (\<lambda>c. if c = CHR ''h'' \<or> c = CHR ''l''
      then mem_get ?M (?E + 1) \<bind> (\<lambda>d. Some (if c = d then ?E + 2 else ?E + 1)) else Some ?E)) = Some (length (pre @ w @ p @ m))"
    using modifier_end [OF assms(3,4), of "pre @ w @ p" s r] by (simp only: append_assoc)
  have reassoc: "(a \<bind> (\<lambda>c. f c \<bind> g)) = ((a \<bind> f) \<bind> g)" for a :: "char option" and f :: "char \<Rightarrow> nat option" and g :: "nat \<Rightarrow> nat option"
    by (cases a) simp_all
  show ?thesis
    unfolding conv_end_def f1 f2(1) f3a f3b f3c
      Option.bind.bind_lunit d1 reassoc d2 by (rule m2)
qed

section \<open>The format loop\<close>

text \<open>The state of the loop after the words \<open>ws\<close>, with \<open>cur\<close> the word that is being built.\<close>

fun loop_state :: "string list \<Rightarrow> string option \<Rightarrow> sdshdr \<times> bool \<times> sdshdr list \<times> int \<times> int \<Rightarrow> bool" where
  "loop_state ws cur (current, touched, argv, argc, totlen) \<longleftrightarrow>
     sds_wf current \<and> sds_str current = case_option [] id cur \<and> touched = (cur \<noteq> None) \<and>
     list_all sds_wf argv \<and> map sds_str argv = ws \<and> argc = int (length ws) \<and> totlen = int (words_len ws)"

lemma cat_bytes:
  assumes "sds_wf s" and "(length (sds_str s) + length t) * 2 \<le> nat INT_MAX"
  obtains s' where "sdscatlen s (map Some t @ r) (length t) = Some s'" and "sds_wf s'" and "sds_str s' = sds_str s @ t"
  using sdscatlen_wf [of s t r] assms that by (auto simp: sds_room_def)

lemma cat_text:
  assumes "sds_wf s" and "(length (sds_str s) + length t) * 2 \<le> nat INT_MAX" and "NUL \<notin> set t"
  obtains s' where "sdscatvprintf s t = Some s'" and "sds_wf s'" and "sds_str s' = sds_str s @ t"
proof -
  obtain slack where s: "s = sds_of (sds_str s) slack" and le: "length (sds_str s) + length slack \<le> nat INT_MAX"
    using assms(1) by (rule sds_wf_repr)
  obtain slack' where c: "sdscatprintf s t = Some (sds_of (sds_str s @ t) slack')"
      "length (sds_str s @ t) + length slack' \<le> nat INT_MAX"
    using sdscatprintf_of [OF le assms(2,3)] s by metis
  then show thesis using that [of "sds_of (sds_str s @ t) slack'"] by (simp add: sdscatprintf_def)
qed

lemma num_spec_char:
  assumes "num_spec spec"
  obtains k t where "spec = k # t" and "k \<notin> {NUL, CHR ''s'', CHR ''b'', CHR ''%''}"
proof -
  obtain w p m k where s: "spec = w @ p @ m @ [k]" and h: "list_all is_digit w"
      "p = [] \<or> (\<exists>ds. p = CHR ''.'' # ds \<and> list_all is_digit ds)" "m \<in> {[], ''h'', ''hh'', ''l'', ''ll''}"
      "k \<in> set ''diouxXeEfFgGaA''"
    using assms unfolding num_spec_def by blast
  have "NUL \<notin> set spec" "CHR ''s'' \<notin> set spec" "CHR ''b'' \<notin> set spec" "CHR ''%'' \<notin> set spec"
    unfolding s using num_chars [OF h] by simp_all
  moreover have "spec \<noteq> []" unfolding s by simp
  ultimately show thesis using that by (cases spec) auto
qed

lemma conv_step_of:
  assumes "item_ok render i" and "i \<noteq> Gap" and "\<And>c. i \<noteq> Lit c" and "sds_wf current"
    and "(length (sds_str current) + length (item_value i)) * 2 \<le> nat INT_MAX"
  obtains c' s' where "conv_step render (map Some (pre @ item_text i @ x) @ r) (length pre) (item_args i @ ap) current = Some (c', ap, s')"
    and "c' + 2 = length (pre @ item_text i)" and "sds_wf s'" and "sds_str s' = sds_str current @ item_value i"
proof (cases i)
  case (StrArg s q)
  obtain s' where s': "sdscatlen current (map Some s @ Some NUL # q) (length s) = Some s'" "sds_wf s'"
      "sds_str s' = sds_str current @ s"
    using cat_bytes [OF assms(4), where t = s and r = "Some NUL # q"] assms(5) StrArg by auto
  have "conv_step render (map Some (pre @ item_text i @ x) @ r) (length pre) (item_args i @ ap) current
      = Some (length pre, ap, if s = [] then current else s')"
    using assms(1) StrArg s'(1) by (auto simp: conv_step_def mem_get_def nth_append)
  then show thesis by (rule that) (use s' assms(4) StrArg in simp_all)
next
  case (BinArg s q)
  obtain s' where s': "sdscatlen current (map Some s @ q) (length s) = Some s'" "sds_wf s'"
      "sds_str s' = sds_str current @ s"
    using cat_bytes [OF assms(4), where t = s and r = q] assms(5) BinArg by auto
  have "c_size_t (int (length s)) = length s" using assms(5) BinArg by (intro c_size_t_of_nat) (simp add: INT_MAX_def)
  then have "conv_step render (map Some (pre @ item_text i @ x) @ r) (length pre) (item_args i @ ap) current
      = Some (length pre, ap, if s = [] then current else s')"
    using BinArg s'(1) by (auto simp: conv_step_def mem_get_def nth_append)
  then show thesis by (rule that) (use s' assms(4) BinArg in simp_all)
next
  case Percent
  obtain s' where s': "sdscatlen current [Some (CHR ''%''), Some NUL] 1 = Some s'" "sds_wf s'"
      "sds_str s' = sds_str current @ ''%''"
    using cat_bytes [OF assms(4), where t = "''%''" and r = "[Some NUL]"] assms(5) Percent by auto
  have "conv_step render (map Some (pre @ item_text i @ x) @ r) (length pre) (item_args i @ ap) current = Some (length pre, ap, s')"
    using Percent s'(1) by (simp add: conv_step_def mem_get_def nth_append sdscat_def c_literal_def)
  then show thesis by (rule that) (use s' Percent in simp_all)
next
  case (Num spec slot out)
  have ok: "num_spec spec" "NUL \<notin> set out" "render (''%'' @ spec) (slot # ap) = Some out" using assms(1) Num by auto
  obtain w p m k where s: "spec = w @ p @ m @ [k]" and h: "list_all is_digit w"
      "p = [] \<or> (\<exists>ds. p = CHR ''.'' # ds \<and> list_all is_digit ds)" "m \<in> {[], ''h'', ''hh'', ''l'', ''ll''}"
      "k \<in> set ''diouxXeEfFgGaA''" "length spec < 13"
    using ok(1) unfolding num_spec_def by blast
  obtain k0 t where k0: "spec = k0 # t" "k0 \<notin> {NUL, CHR ''s'', CHR ''b'', CHR ''%''}" using num_spec_char [OF ok(1)] .
  let ?M = "map Some (pre @ item_text i @ x) @ r" and ?p = "length pre + length spec"
  have M: "?M = map Some ((pre @ ''%'') @ w @ p @ m @ k # x) @ r" using Num s by simp
  have e: "conv_end ?M (length pre + 1) = Some ?p"
    unfolding M using conv_end_of [OF h(1-4), of "pre @ ''%''" x r] s by simp
  have g0: "mem_get ?M (length pre + 1) = Some k0" using Num k0(1) by (simp add: mem_get_def nth_append)
  have g1: "mem_get ?M ?p = Some k"
    unfolding M using s by (simp add: mem_get_def nth_append)
  have k: "k \<noteq> NUL" "strchr_hit ''diouxXeEfFgGaA'' k" using h(4) by (auto simp: strchr_hit_def)
  have f: "mem_fetch ?M (length pre) (?p + 1 - length pre) = Some (map Some (''%'' @ spec))"
    using Num by (simp add: mem_fetch_def)
  obtain s' where s': "sdscatvprintf current out = Some s'" "sds_wf s'" "sds_str s' = sds_str current @ out"
    using cat_text [OF assms(4) _ ok(2)] assms(5) Num by auto
  have "conv_step render ?M (length pre) (item_args i @ ap) current = Some (?p - 1, ap, s')"
    unfolding conv_step_def g0 e Option.bind.bind_lunit g1
    using k0(2) k h(5) f ok(3) s'(1) Num by simp
  moreover have "?p - 1 + 2 = length (pre @ item_text i)" using Num k0(1) by simp
  ultimately show thesis using that s' Num by simp
qed (use assms in auto)

lemma format_loop_steps:
  assumes "mem_get fmt c = Some ch" and "ch \<noteq> NUL"
  shows "ch = CHR '' '' \<Longrightarrow> format_loop render fmt c ap current False argv argc totlen
      = format_loop render fmt (c + 1) ap current False argv argc totlen"
    and "ch = CHR '' '' \<Longrightarrow> addArgument current argv argc totlen = Some (argv', argc', totlen') \<Longrightarrow>
      format_loop render fmt c ap current True argv argc totlen
      = format_loop render fmt (c + 1) ap (sds_of [] []) False argv' argc' totlen'"
    and "ch \<noteq> CHR '' '' \<Longrightarrow> ch \<noteq> CHR ''%'' \<Longrightarrow> sdscatlen current (drop c fmt) 1 = Some s' \<Longrightarrow>
      format_loop render fmt c ap current touched argv argc totlen
      = format_loop render fmt (c + 1) ap s' True argv argc totlen"
    and "ch = CHR ''%'' \<Longrightarrow> mem_get fmt (c + 1) = Some k \<Longrightarrow> k \<noteq> NUL \<Longrightarrow>
      conv_step render fmt c ap current = Some (c', ap', s') \<Longrightarrow>
      format_loop render fmt c ap current touched argv argc totlen
      = format_loop render fmt (c' + 2) ap' s' True argv argc totlen"
  by (subst format_loop.simps, use assms in \<open>simp add: plain_char_def sdsempty_eq\<close>)+

lemma format_loop_of:
  assumes "list_all (item_ok render) items" and "loop_state ws cur (current, touched, argv, argc, totlen)"
    and "words_len (ws @ fmt_words cur items) * 2 \<le> nat INT_MAX"
  shows "\<exists>st ws' cur'. format_loop render (map Some (pre @ concat (map item_text items)) @ Some NUL # r) (length pre)
      (concat (map item_args items)) current touched argv argc totlen = Some st \<and>
    loop_state ws' cur' st \<and> ws' @ fmt_words cur' [] = ws @ fmt_words cur items"
  using assms
proof (induction items arbitrary: pre ws cur current touched argv argc totlen)
  case Nil
  then show ?case by (subst format_loop.simps) (auto simp: mem_get_def nth_append intro!: exI [of _ ws] exI [of _ cur])
next
  case (Cons i items)
  let ?M = "map Some (pre @ concat (map item_text (i # items))) @ Some NUL # r"
  have M: "?M = map Some ((pre @ item_text i) @ concat (map item_text items)) @ Some NUL # r" by simp
  have st: "sds_wf current" "sds_str current = case_option [] id cur" "touched = (cur \<noteq> None)"
    "list_all sds_wf argv" "map sds_str argv = ws" "argc = int (length ws)" "totlen = int (words_len ws)"
    using Cons.prems(2) by simp_all
  have ok: "item_ok render i" "list_all (item_ok render) items" using Cons.prems(1) by simp_all
  show ?case
  proof (cases "i = Gap")
    case True
    have g: "mem_get ?M (length pre) = Some (CHR '' '')" using True by (simp add: mem_get_def nth_append)
    show ?thesis
    proof (cases cur)
      case None
      have "loop_state ws None (current, touched, argv, argc, totlen)" using st None by simp
      from Cons.IH [OF ok(2) this, of "pre @ '' ''"] Cons.prems(3) show ?thesis
        using format_loop_steps(1) [OF g] True None st(3) by simp
    next
      case (Some w)
      have le: "words_len (ws @ [w]) * 2 \<le> nat INT_MAX" using Cons.prems(3) True Some by simp
      have "addArgument current argv argc totlen = Some (argv @ [current], int (length ws + 1), int (words_len ws + length (enc (RString w))))"
        unfolding st(6,7) using addArgument_of [OF st(1), of "words_len ws" "length ws" argv] le st(2) Some words_len_ge [of ws]
        by (simp add: INT_MAX_def)
      moreover have "loop_state (ws @ [w]) None (sds_of [] [], False, argv @ [current], int (length ws + 1), int (words_len ws + length (enc (RString w))))"
        using st Some by (simp add: INT_MAX_def)
      from Cons.IH [OF ok(2) this, of "pre @ '' ''"] Cons.prems(3)
      have "\<exists>st ws' cur'. format_loop render ?M (length pre + 1) (concat (map item_args items)) (sds_of [] []) False (argv @ [current])
          (int (length ws + 1)) (int (words_len ws + length (enc (RString w)))) = Some st \<and>
          loop_state ws' cur' st \<and> ws' @ fmt_words cur' [] = ws @ fmt_words cur (i # items)"
        using True Some by simp
      ultimately show ?thesis
        using format_loop_steps(2) [OF g, of current argv argc totlen] True Some st(3) by simp
    qed
  next
    case False
    let ?w = "case_option [] id cur @ item_value i"
    have fw: "fmt_words cur (i # items) = fmt_words (Some ?w) items" using False by (cases i; cases cur) simp_all
    obtain x ys where fx: "fmt_words (Some ?w) items = (?w @ x) # ys" using fmt_words_Some by blast
    have room: "(length (sds_str current) + length (item_value i)) * 2 \<le> nat INT_MAX"
      using Cons.prems(3) unfolding fw fx st(2) by simp
    have step: "\<exists>s'. format_loop render ?M (length pre) (concat (map item_args (i # items))) current touched argv argc totlen
        = format_loop render ?M (length (pre @ item_text i)) (concat (map item_args items)) s' True argv argc totlen \<and>
        sds_wf s' \<and> sds_str s' = ?w"
    proof (cases "\<exists>c. i = Lit c")
      case True
      then obtain c where i: "i = Lit c" by blast
      have c: "c \<notin> {NUL, CHR '' '', CHR ''%''}" using ok(1) unfolding i item_ok.simps .
      have g: "mem_get ?M (length pre) = Some c" using i by (simp add: mem_get_def nth_append)
      have "drop (length pre) ?M = map Some [c] @ (map Some (concat (map item_text items)) @ Some NUL # r)" using i by simp
      moreover have "(length (sds_str current) + length [c]) * 2 \<le> nat INT_MAX" using room i by simp
      ultimately obtain s' where s': "sdscatlen current (drop (length pre) ?M) 1 = Some s'" "sds_wf s'" "sds_str s' = ?w"
        using cat_bytes [OF st(1), where t = "[c]" and r = "map Some (concat (map item_text items)) @ Some NUL # r"]
        unfolding st(2) i by (metis One_nat_def item_value.simps(2) length_Cons list.size(3))
      have "format_loop render ?M (length pre) (concat (map item_args (i # items))) current touched argv argc totlen
          = format_loop render ?M (length pre + 1) (concat (map item_args (i # items))) s' True argv argc totlen"
        by (rule format_loop_steps(3) [OF g _ _ _ s'(1)]) (use c in simp_all)
      then show ?thesis using s'(2,3) i by auto
    next
      case lit: False
      obtain k t where t: "item_text i = CHR ''%'' # k # t" "k \<noteq> NUL"
        using False lit ok(1) by (cases i) (auto elim!: num_spec_char)
      have g: "mem_get ?M (length pre) = Some (CHR ''%'')" "mem_get ?M (length pre + 1) = Some k"
        using t(1) by (simp_all add: mem_get_def nth_append)
      obtain c' s' where s': "conv_step render ?M (length pre) (concat (map item_args (i # items))) current
          = Some (c', concat (map item_args items), s')" "c' + 2 = length (pre @ item_text i)" "sds_wf s'" "sds_str s' = ?w"
        using conv_step_of [OF ok(1) False _ st(1) room, of pre "concat (map item_text items)" "Some NUL # r" "concat (map item_args items)"]
          lit st(2) by auto
      then show ?thesis
        using format_loop_steps(4) [OF g(1) _ refl g(2) t(2) s'(1), of touched argv argc totlen] by auto
    qed
    then obtain s' where s': "format_loop render ?M (length pre) (concat (map item_args (i # items))) current touched argv argc totlen
        = format_loop render ?M (length (pre @ item_text i)) (concat (map item_args items)) s' True argv argc totlen"
        "sds_wf s'" "sds_str s' = ?w" by blast
    have "loop_state ws (Some ?w) (s', True, argv, argc, totlen)" using st s' by simp
    from Cons.IH [OF ok(2) this, of "pre @ item_text i"] Cons.prems(3) show ?thesis
      unfolding s'(1) fw by simp
  qed
qed

section \<open>The commands\<close>

lemma formatCommand_of:
  assumes "list_all (item_ok render) items" and "int (length (enc_cmd (fmt_words None items))) * 2 \<le> INT_MAX"
  shows "redisvFormatCommand True render (map Some (concat (map item_text items)) @ Some NUL # r) (concat (map item_args items))
    = Some (int (length (enc_cmd (fmt_words None items))), Some (map Some (enc_cmd (fmt_words None items)) @ [Some NUL]))"
proof -
  let ?ws = "fmt_words None items"
  let ?h = "''*'' @ show_nat (length ?ws) @ CRLF"
  have "loop_state [] None (sds_of [] [], False, [], 0, 0)" by (simp add: INT_MAX_def)
  moreover have "words_len ([] @ ?ws) * 2 \<le> nat INT_MAX" using assms(2) unfolding enc_cmd_len by (simp add: INT_MAX_def)
  ultimately obtain current touched argv argc totlen ws' cur' where
    fl: "format_loop render (map Some (concat (map item_text items)) @ Some NUL # r) 0 (concat (map item_args items)) (sds_of [] []) False [] 0 0
      = Some (current, touched, argv, argc, totlen)"
    and st: "loop_state ws' cur' (current, touched, argv, argc, totlen)" and w: "ws' @ fmt_words cur' [] = ?ws"
    using format_loop_of [OF assms(1), of "[]" None "sds_of [] []" False "[]" 0 0 "[]" r] by force
  obtain argv' where last: "(if touched then addArgument current argv argc totlen else Some (argv, argc, totlen))
      = Some (argv', int (length ?ws), int (words_len ?ws))" "list_all sds_wf argv'" "map sds_str argv' = ?ws"
  proof (cases cur')
    case None
    then show thesis using that [of argv] st w by simp
  next
    case (Some v)
    have le: "int (words_len ws' + length (enc (RString v))) \<le> INT_MAX" "int (length ws') < INT_MAX"
      using assms(2) words_len_ge [of ws'] unfolding enc_cmd_len w [symmetric] Some by (simp_all add: INT_MAX_def)
    have "length ?ws = length ws' + 1" "words_len ?ws = words_len ws' + length (enc (RString v))"
      unfolding w [symmetric] Some by simp_all
    then show thesis
      using that [of "argv @ [current]"] addArgument_of [of current "words_len ws'" "length ws'" argv] st w Some le by auto
  qed
  have big: "int (length (enc_cmd ?ws)) < INT_MAX" using assms(2) by (simp add: INT_MAX_def)
  have tot: "c_int (int (words_len ?ws) + 1 + intlen (int (length ?ws)) + 2) = int (length (enc_cmd ?ws))"
    unfolding enc_cmd_len intlen_nat using assms(2) [unfolded enc_cmd_len] by (subst c_int_id) (simp_all add: INT_MAX_def)
  have h: "int (3 + length (show_nat (length ?ws))) = int (length ?h)" by simp
  have m: "map (\<lambda>a. enc (RString (sds_str a))) argv' = map enc (map RString ?ws)" unfolding last(3) [symmetric] by simp
  have put: "put_args (map Some ?h @ Some NUL # replicate (words_len ?ws) None) (int (length ?h)) argv'
      = Some (map Some (enc_cmd ?ws) @ drop (words_len ?ws) (Some NUL # replicate (words_len ?ws) None), int (length (enc_cmd ?ws)))"
    using put_args_of [OF last(2), of "Some NUL # replicate (words_len ?ws) None" ?h, OF _ _ refl] big
    unfolding enc_cmd_len last(3) m by simp
  have "length (drop (words_len ?ws) (Some NUL # replicate (words_len ?ws) None)) = Suc 0" by simp
  then obtain x where x: "drop (words_len ?ws) (Some NUL # replicate (words_len ?ws) None) = [x]"
    by (metis length_0_conv length_Suc_conv)
  have fin: "store_at (map Some (enc_cmd ?ws) @ [x]) (int (length (enc_cmd ?ws))) [Some NUL] = Some (map Some (enc_cmd ?ws) @ [Some NUL])"
    using store_at_of [OF refl, of "[Some NUL]" "[x]" "enc_cmd ?ws"] by (simp del: store_at_of)
  show ?thesis
    unfolding redisvFormatCommand_def sdsempty_eq Option.bind.bind_lunit fl prod.case last(1) tot Let_def
      build_header [OF big] h put x
    by (simp add: fin del: enc.simps store_at_of)
qed



lemma feed_block: "redisReplyReaderFeed r (Some (m @ t)) (length m) = redisReplyReaderFeed r (Some m) (length m)"
  by (simp add: redisReplyReaderFeed_def sdscatlen_def mem_fetch_def)

text \<open>
  What the client formats, a reader of the same protocol decodes: the block made of
  an argument vector, fed to an idle reader with an empty buffer, is returned as the array of
  exactly these arguments.
\<close>

lemma format_read_back:
  assumes "idle r" and "rest r = []" and "(length (sds_str (rd_buf r)) + length (enc_cmd ws)) * 2 \<le> nat INT_MAX"
  shows "\<exists>len cmd r1 r2 h2. redisFormatCommandArgv (int (length ws)) (map (map Some) ws) (Some (map length ws)) = Some (len, cmd) \<and>
    redisReplyReaderFeed r (Some cmd) (nat len) = Some r1 \<and>
    redisReplyReaderGetReply r1 h = Some (REDIS_OK, hp_next h, r2, h2) \<and>
    reply_added h h2 (RArray (map RString ws)) \<and> rest r2 = []"
proof -
  let ?e = "enc_cmd ws"
  have "int (length ?e) < INT_MAX" using assms(3) by (simp add: INT_MAX_def)
  note f = format_argv_of [OF argv_holds_lens this]
  have room: "sds_room (rd_buf r) (length ?e)" using assms(3) by (simp add: sds_room_def)
  obtain r1 where r1: "redisReplyReaderFeed r (Some (map Some ?e @ [Some NUL])) (length ?e) = Some r1" "idle r1" "rest r1 = ?e"
    using feed_idle [OF assms(1) _ room] assms(2) feed_block [of r "map Some ?e" "[Some NUL]"] by auto
  have s: "sendable 8 (RArray (map RString ws))" by (simp add: eval_nat_numeral list_all_iff)
  obtain r2 h2 where "redisReplyReaderGetReply r1 h = Some (REDIS_OK, hp_next h, r2, h2)" "rest r2 = []"
      "reply_added h h2 (RArray (map RString ws))"
    using getreply_decodes [OF r1(2) s, of "[]" h] r1(3) by auto
  then show ?thesis using f r1(1) by (metis nat_int)
qed

end
