(* ===== verification/Net.thy ===== *)
theory Net
  imports Reader
begin

text \<open>
  The connection context of \<open>hiredis.h\<close> and the Windows socket layer of
  \<open>win32/hiredis/net.c\<close>: creating a socket, its options, waiting for a connection, connecting.

  The operating system is a parameter: a record \<open>os\<close> of the calls the code makes, each a function
  of its arguments and of the state of the system, which contains \<open>errno\<close>. A socket handle is a
  natural number. The text \<open>strerror\<close> gives for a code is part of the parameter too.
\<close>

section \<open>The system interface\<close>

record 'w sys =
  sy_errno :: int
  sy_world :: 'w


datatype recv_result = RecvError | RecvClosed | RecvData string
datatype send_result = SendError | Sent nat

type_synonym timeval = "int \<times> int"

datatype sockopt = SO_LINGER int int | SO_REUSEADDR int | TCP_NODELAY int | SO_RCVTIMEO timeval | SO_SNDTIMEO timeval

text \<open>
  A call that can fail gives \<^const>\<open>None\<close> or \<^const>\<open>False\<close> where the C function returns
  \<open>INVALID_SOCKET\<close>, \<open>SOCKET_ERROR\<close> or NULL; \<open>os_lasterror\<close> is then the code of
  \<open>WSAGetLastError\<close>. \<open>os_select\<close> gives whether the call succeeded and whether the socket is in the
  returned set.
\<close>

record 'w os_api =
  os_socket :: "int \<Rightarrow> 'w sys \<Rightarrow> nat option \<times> 'w sys"
  os_setsockopt :: "nat \<Rightarrow> sockopt \<Rightarrow> 'w sys \<Rightarrow> bool \<times> 'w sys"
  os_ioctlsocket :: "nat \<Rightarrow> bool \<Rightarrow> 'w sys \<Rightarrow> bool \<times> 'w sys"
  os_closesocket :: "nat \<Rightarrow> 'w sys \<Rightarrow> 'w sys"
  os_inet_addr :: "string \<Rightarrow> int"
  os_gethostbyname :: "string \<Rightarrow> 'w sys \<Rightarrow> int option \<times> 'w sys"
  os_connect :: "nat \<Rightarrow> int \<Rightarrow> int \<Rightarrow> 'w sys \<Rightarrow> bool \<times> 'w sys"
  os_select :: "nat \<Rightarrow> timeval option \<Rightarrow> 'w sys \<Rightarrow> (bool \<times> bool) \<times> 'w sys"
  os_sockerr :: "nat \<Rightarrow> 'w sys \<Rightarrow> int option \<times> 'w sys"
  os_recv :: "nat \<Rightarrow> nat \<Rightarrow> 'w sys \<Rightarrow> recv_result \<times> 'w sys"
  os_send :: "nat \<Rightarrow> string \<Rightarrow> 'w sys \<Rightarrow> send_result \<times> 'w sys"
  os_lasterror :: "'w sys \<Rightarrow> int"
  os_strerror :: "int \<Rightarrow> string"

definition ENOENT :: int where "ENOENT = 2"
definition EAGAIN :: int where "EAGAIN = 11"
definition WSAEINVAL :: int where "WSAEINVAL = 10022"
definition WSAEWOULDBLOCK :: int where "WSAEWOULDBLOCK = 10035"
definition EINPROGRESS :: int where "EINPROGRESS = 10036"
definition AF_INET :: int where "AF_INET = 2"
definition INADDR_NONE :: int where "INADDR_NONE = 4294967295"
definition INADDR_ANY :: int where "INADDR_ANY = 0"

section \<open>The context\<close>

definition REDIS_ERR_IO :: int where "REDIS_ERR_IO = 1"
definition REDIS_ERR_OTHER :: int where "REDIS_ERR_OTHER = 2"
definition REDIS_ERR_EOF :: int where "REDIS_ERR_EOF = 3"
definition REDIS_ERR_PROTOCOL :: int where "REDIS_ERR_PROTOCOL = 4"

definition REDIS_BLOCK :: int where "REDIS_BLOCK = 1"
definition REDIS_CONNECTED :: int where "REDIS_CONNECTED = 2"
definition REDIS_DISCONNECTING :: int where "REDIS_DISCONNECTING = 4"
definition REDIS_FREEING :: int where "REDIS_FREEING = 8"
definition REDIS_IN_CALLBACK :: int where "REDIS_IN_CALLBACK = 16"
definition REDIS_SUBSCRIBED :: int where "REDIS_SUBSCRIBED = 32"

lemmas err_types = REDIS_ERR_IO_def REDIS_ERR_OTHER_def REDIS_ERR_EOF_def REDIS_ERR_PROTOCOL_def
lemmas flag_values = REDIS_BLOCK_def REDIS_CONNECTED_def REDIS_DISCONNECTING_def REDIS_FREEING_def
  REDIS_IN_CALLBACK_def REDIS_SUBSCRIBED_def

record redisContext =
  cx_fd :: nat
  cx_flags :: int
  cx_obuf :: sdshdr
  cx_err :: int
  cx_errstr :: "sdshdr option"
  cx_fn :: "redisReplyObjectFunctions option"
  cx_reader :: "redisReader option"

text \<open>\<open>__redisSetError\<close>: with no text given, the description of \<open>errno\<close>.\<close>

definition redisSetError :: "'w os_api \<Rightarrow> redisContext \<Rightarrow> int \<Rightarrow> sdshdr option \<Rightarrow> 'w sys \<Rightarrow> redisContext option" where
  "redisSetError os c type errstr w =
     (let c = c\<lparr>cx_err := type\<rparr>
      in case errstr of
           Some e \<Rightarrow> Some (c\<lparr>cx_errstr := Some e\<rparr>)
         | None \<Rightarrow> do {
             assert_c (type = REDIS_ERR_IO);
             e \<leftarrow> sdsnew (Some (c_literal (os_strerror os (sy_errno w))));
             Some (c\<lparr>cx_errstr := Some e\<rparr>) })"

text \<open>\<open>__redisSetError(c, type, sdscatprintf(sdsempty(), \<dots>))\<close> with the expanded text.\<close>

definition set_error_text :: "'w os_api \<Rightarrow> redisContext \<Rightarrow> int \<Rightarrow> string \<Rightarrow> 'w sys \<Rightarrow> redisContext option" where
  "set_error_text os c type out w = do {
     e \<leftarrow> sdsempty;
     e \<leftarrow> sdscatprintf e out;
     redisSetError os c type (Some e) w }"

section \<open>Sockets\<close>

definition redisCreateSocket :: "'w os_api \<Rightarrow> redisContext \<Rightarrow> int \<Rightarrow> 'w sys
    \<Rightarrow> (int \<times> redisContext \<times> 'w sys) option" where
  "redisCreateSocket os c type w =
     (case os_socket os type w of
        (None, w) \<Rightarrow> do {
          c \<leftarrow> set_error_text os c REDIS_ERR_IO (''socket error: '' @ show_int (os_lasterror os w) @ [LF]) w;
          Some (REDIS_ERR, c, w) }
      | (Some s, w) \<Rightarrow>
          if type = AF_INET then
            (let (_, w) = os_setsockopt os s (SO_LINGER 1 2) w;
                 (ok, w) = os_setsockopt os s (SO_REUSEADDR 1) w
             in if \<not> ok then do {
                  c \<leftarrow> redisSetError os c REDIS_ERR_IO None w;
                  Some (REDIS_ERR, c, os_closesocket os s w) }
                else Some (c_int (int s), c, w))
          else Some (c_int (int s), c, w))"

definition redisSetBlocking :: "'w os_api \<Rightarrow> redisContext \<Rightarrow> int \<Rightarrow> bool \<Rightarrow> 'w sys
    \<Rightarrow> (int \<times> redisContext \<times> 'w sys) option" where
  "redisSetBlocking os c fd blocking w =
     (let (ok, w) = os_ioctlsocket os (c_size_t fd) (\<not> blocking) w
      in if \<not> ok then do {
           let w = w\<lparr>sy_errno := os_lasterror os w\<rparr>;
           c \<leftarrow> set_error_text os c REDIS_ERR_IO (''ioctlsocket(FIONBIO): '' @ show_int (sy_errno w) @ [LF]) w;
           Some (REDIS_ERR, c, os_closesocket os (c_size_t fd) w) }
         else Some (REDIS_OK, c, w))"

definition redisSetTcpNoDelay :: "'w os_api \<Rightarrow> redisContext \<Rightarrow> int \<Rightarrow> 'w sys
    \<Rightarrow> (int \<times> redisContext \<times> 'w sys) option" where
  "redisSetTcpNoDelay os c fd w =
     (let (ok, w) = os_setsockopt os (c_size_t fd) (TCP_NODELAY 1) w
      in if \<not> ok then do {
           c \<leftarrow> set_error_text os c REDIS_ERR_IO (''setsockopt(TCP_NODELAY): '' @ show_int (os_lasterror os w)) w;
           Some (REDIS_ERR, c, os_closesocket os (c_size_t fd) w) }
         else Some (REDIS_OK, c, w))"

definition redisContextWaitReady :: "'w os_api \<Rightarrow> redisContext \<Rightarrow> int \<Rightarrow> timeval option \<Rightarrow> 'w sys
    \<Rightarrow> (int \<times> redisContext \<times> 'w sys) option" where
  "redisContextWaitReady os c fd timeout w =
     (let fail = (\<lambda>c w. Some (REDIS_ERR, c, os_closesocket os (c_size_t fd) w))
      in if sy_errno w = EINPROGRESS then
           (case os_select os (c_size_t fd) timeout w of
              ((ok, isset), w) \<Rightarrow>
                if \<not> ok then do {
                  c \<leftarrow> set_error_text os c REDIS_ERR_IO (''select(2): '' @ os_strerror os (sy_errno w)) w;
                  fail c w }
                else if \<not> isset then do {
                  let w = w\<lparr>sy_errno := os_lasterror os w\<rparr>;
                  c \<leftarrow> redisSetError os c REDIS_ERR_IO None w;
                  fail c w }
                else
                  (case os_sockerr os (c_size_t fd) w of
                     (None, w) \<Rightarrow> do {
                       c \<leftarrow> set_error_text os c REDIS_ERR_IO (''getsockopt(SO_ERROR): '' @ show_int (os_lasterror os w)) w;
                       fail c w }
                   | (Some err, w) \<Rightarrow>
                       if err \<noteq> 0 then do {
                         let w = w\<lparr>sy_errno := err\<rparr>;
                         c \<leftarrow> redisSetError os c REDIS_ERR_IO None w;
                         fail c w }
                       else Some (REDIS_OK, c, w)))
         else do {
           c \<leftarrow> redisSetError os c REDIS_ERR_IO None w;
           fail c w })"

definition redisContextSetTimeout :: "'w os_api \<Rightarrow> redisContext \<Rightarrow> timeval \<Rightarrow> 'w sys
    \<Rightarrow> (int \<times> redisContext \<times> 'w sys) option" where
  "redisContextSetTimeout os c tv w =
     (let (ok, w) = os_setsockopt os (cx_fd c) (SO_RCVTIMEO tv) w
      in if \<not> ok then do {
           c \<leftarrow> set_error_text os c REDIS_ERR_IO (''setsockopt(SO_RCVTIMEO): '' @ show_int (os_lasterror os w)) w;
           Some (REDIS_ERR, c, w) }
         else
           (let (ok, w) = os_setsockopt os (cx_fd c) (SO_SNDTIMEO tv) w
            in if \<not> ok then do {
                 c \<leftarrow> set_error_text os c REDIS_ERR_IO (''setsockopt(SO_SNDTIMEO): '' @ show_int (os_lasterror os w)) w;
                 Some (REDIS_ERR, c, w) }
               else Some (REDIS_OK, c, w)))"

section \<open>Connecting\<close>

text \<open>The address of the host: from its dotted form or by name.\<close>

definition resolve_host :: "'w os_api \<Rightarrow> string \<Rightarrow> 'w sys \<Rightarrow> int option \<times> 'w sys" where
  "resolve_host os addr w =
     (let inAddress = os_inet_addr os addr
      in if inAddress = INADDR_NONE \<or> inAddress = INADDR_ANY then os_gethostbyname os addr w
         else (Some inAddress, w))"

text \<open>The call of \<open>connect\<close> with the wait it may need.\<close>

definition connect_wait :: "'w os_api \<Rightarrow> redisContext \<Rightarrow> int \<Rightarrow> int \<Rightarrow> int \<Rightarrow> bool \<Rightarrow> timeval option \<Rightarrow> 'w sys
    \<Rightarrow> (int \<times> redisContext \<times> 'w sys) option" where
  "connect_wait os c s a port blocking timeout w =
     (let (ok, w) = os_connect os (c_size_t s) a (port mod 65536) w
      in if \<not> ok then
           (let e = os_lasterror os w;
                w = w\<lparr>sy_errno := (if e = WSAEINVAL \<or> e = WSAEWOULDBLOCK then EINPROGRESS else e)\<rparr>
            in if sy_errno w = EINPROGRESS \<and> \<not> blocking then Some (REDIS_OK, c, w)
               else redisContextWaitReady os c s timeout w)
         else Some (REDIS_OK, c, w))"

definition redisContextConnectTcp :: "'w os_api \<Rightarrow> redisContext \<Rightarrow> string \<Rightarrow> int \<Rightarrow> timeval option \<Rightarrow> 'w sys
    \<Rightarrow> (int \<times> redisContext \<times> 'w sys) option" where
  "redisContextConnectTcp os c addr port timeout w = do {
     let blocking = (cx_flags c AND REDIS_BLOCK \<noteq> 0);
     (s, c, w) \<leftarrow> redisCreateSocket os c AF_INET w;
     if s < 0 then Some (REDIS_ERR, c, w)
     else do {
       (st, c, w) \<leftarrow> redisSetTcpNoDelay os c s w;
       if st \<noteq> REDIS_OK then Some (REDIS_ERR, c, w)
       else
         (case resolve_host os addr w of
            (None, w) \<Rightarrow> do {
              c \<leftarrow> set_error_text os c REDIS_ERR_OTHER (''can'' @ [CHR 0x27] @ ''t resolve: '' @ addr @ [LF]) w;
              Some (REDIS_ERR, c, os_closesocket os (c_size_t s) w) }
          | (Some a, w) \<Rightarrow> do {
              (st, c, w) \<leftarrow> connect_wait os c s a port blocking timeout w;
              if st \<noteq> REDIS_OK then Some (REDIS_ERR, c, w)
              else Some (REDIS_OK, c\<lparr>cx_fd := c_size_t s, cx_flags := cx_flags c OR REDIS_CONNECTED\<rparr>, w) }) } }"

definition redisContextConnectUnix :: "'w os_api \<Rightarrow> redisContext \<Rightarrow> string \<Rightarrow> timeval option \<Rightarrow> 'w sys
    \<Rightarrow> (int \<times> redisContext \<times> 'w sys) option" where
  "redisContextConnectUnix os c path timeout w = do {
     c \<leftarrow> set_error_text os c REDIS_ERR_IO
       (''Unix sockets are not suported on Windows platform. ('' @ path @ '')'' @ [LF]) w;
     Some (REDIS_ERR, c, w) }"

end
