(* ===== verification/NetProps.thy ===== *)
theory NetProps
  imports Net ReaderProps
begin

text \<open>
  The contract of the connect functions: success and failure are told apart by the status, a
  failure leaves an error code with a description in the context and nothing else, and the
  socket it had opened is closed.
\<close>

text \<open>What is relied on of the system: error texts are C strings of moderate length, error codes
  are \<open>int\<close>s, and socket handles fit into an \<open>int\<close>.\<close>

definition os_ok :: "'w os_api \<Rightarrow> bool" where
  "os_ok os \<longleftrightarrow>
     (\<forall>e. NUL \<notin> set (os_strerror os e) \<and> length (os_strerror os e) \<le> 900) \<and>
     (\<forall>w. - 2147483648 \<le> os_lasterror os w \<and> os_lasterror os w \<le> 2147483647) \<and>
     (\<forall>t w s w'. os_socket os t w = (Some s, w') \<longrightarrow> s < 2147483648)"

text \<open>The context \<open>c'\<close> is \<open>c\<close> with an error recorded.\<close>

definition failed :: "redisContext \<Rightarrow> redisContext \<Rightarrow> bool" where
  "failed c c' \<longleftrightarrow> (\<exists>t e. t \<noteq> 0 \<and> sds_wf e \<and> c' = c\<lparr>cx_err := t, cx_errstr := Some e\<rparr>)"

lemma failedI: "t \<noteq> 0 \<Longrightarrow> sds_wf e \<Longrightarrow> failed c (c\<lparr>cx_err := t, cx_errstr := Some e\<rparr>)"
  by (auto simp: failed_def)

lemma failed_sel:
  "failed c c' \<Longrightarrow> cx_err c' \<noteq> 0 \<and> cx_errstr c' \<noteq> None \<and> cx_flags c' = cx_flags c \<and> cx_fd c' = cx_fd c \<and>
    cx_obuf c' = cx_obuf c \<and> cx_reader c' = cx_reader c \<and> cx_fn c' = cx_fn c"
  by (auto simp: failed_def)

lemma show_nat_no_NUL: "NUL \<notin> set (show_nat n)"
  using show_nat_digits digit_not_special by blast

lemma show_int_text: "- 2147483648 \<le> i \<Longrightarrow> i \<le> 2147483647 \<Longrightarrow> length (show_int i) \<le> 11 \<and> NUL \<notin> set (show_int i)"
proof -
  assume i: "- 2147483648 \<le> i" "i \<le> 2147483647"
  have "length (show_nat (nat \<bar>i\<bar>)) \<le> Suc 9" using i by (intro show_nat_length_pow) simp
  then show ?thesis using show_nat_no_NUL by (auto simp: show_int_def)
qed

lemma set_error_text_ok:
  assumes "length out \<le> 1000" and "NUL \<notin> set out" and "t \<noteq> 0"
  shows "\<exists>c'. set_error_text os c t out w = Some c' \<and> failed c c' \<and> cx_err c' = t \<and>
    (\<exists>e. cx_errstr c' = Some e \<and> sds_str e = out)"
proof -
  obtain e where e: "sdscatprintf (sds_of [] []) out = Some e" "sds_wf e" "sds_str e = out"
    using message_text [OF assms(1,2)] by blast
  then show ?thesis
    using assms(3)
    by (auto simp: set_error_text_def sdsempty_eq redisSetError_def failed_def)
qed

lemma os_ok_text: "os_ok os \<Longrightarrow> NUL \<notin> set (os_strerror os e)" "os_ok os \<Longrightarrow> length (os_strerror os e) \<le> 900"
  by (auto simp: os_ok_def)

lemma os_ok_code:
  "os_ok os \<Longrightarrow> length (show_int (os_lasterror os w)) \<le> 11" "os_ok os \<Longrightarrow> NUL \<notin> set (show_int (os_lasterror os w))"
  using show_int_text [of "os_lasterror os w"] by (auto simp: os_ok_def)

lemma set_error_errno:
  assumes "os_ok os"
  shows "\<exists>c'. redisSetError os c REDIS_ERR_IO None w = Some c' \<and> failed c c' \<and> cx_err c' = REDIS_ERR_IO"
proof -
  have "length (os_strerror os (sy_errno w)) \<le> nat INT_MAX"
    using os_ok_text(2) [OF assms, of "sy_errno w"] by (simp add: INT_MAX_def)
  then obtain e where "sdsnew (Some (c_literal (os_strerror os (sy_errno w)))) = Some e" "sds_wf e"
    using sdsnew_literal [OF os_ok_text(1) [OF assms, of "sy_errno w"]] by simp
  then show ?thesis
    using failedI [of REDIS_ERR_IO e c] by (simp add: redisSetError_def err_types)
qed

text \<open>The outcome of a call that works on the open socket \<open>s\<close>: success keeps the context, failure records
  an error and ends with closing \<open>s\<close>.\<close>

definition step_outcome :: "'w os_api \<Rightarrow> redisContext \<Rightarrow> nat \<Rightarrow> int \<times> redisContext \<times> 'w sys \<Rightarrow> bool" where
  "step_outcome os c s r \<longleftrightarrow>
     (case r of (st, c', w') \<Rightarrow>
        st = REDIS_OK \<and> c' = c \<or> st = REDIS_ERR \<and> failed c c' \<and> (\<exists>w1. w' = os_closesocket os s w1))"

lemma text_outcome:
  assumes "length out \<le> 1000" and "NUL \<notin> set out" and "t \<noteq> 0"
  shows "\<exists>r. (do { c' \<leftarrow> set_error_text os c t out w; Some (REDIS_ERR, c', os_closesocket os s w') }) = Some r \<and>
    step_outcome os c s r"
  using set_error_text_ok [OF assms, of os c w] by (auto simp: step_outcome_def)

lemma errno_outcome:
  assumes "os_ok os"
  shows "\<exists>r. (do { c' \<leftarrow> redisSetError os c REDIS_ERR_IO None w; Some (REDIS_ERR, c', os_closesocket os s w') }) = Some r \<and>
    step_outcome os c s r"
  using set_error_errno [OF assms, of c w] by (auto simp: step_outcome_def)

lemma ok_outcome: "\<exists>r. Some (REDIS_OK, c, w) = Some r \<and> step_outcome os c s r"
  by (simp add: step_outcome_def)

lemma nodelay_outcome:
  assumes "os_ok os"
  shows "\<exists>r. redisSetTcpNoDelay os c fd w = Some r \<and> step_outcome os c (c_size_t fd) r"
proof -
  obtain ok w1 where o: "os_setsockopt os (c_size_t fd) (TCP_NODELAY 1) w = (ok, w1)" by fastforce
  have "length (''setsockopt(TCP_NODELAY): '' @ show_int (os_lasterror os w1)) \<le> 1000"
    "NUL \<notin> set (''setsockopt(TCP_NODELAY): '' @ show_int (os_lasterror os w1))"
    using os_ok_code [OF assms, of w1] by simp_all
  from text_outcome [OF this, of REDIS_ERR_IO os c w1 "c_size_t fd" w1] ok_outcome [of c w1 os] show ?thesis
    by (simp add: redisSetTcpNoDelay_def o err_types)
qed

lemma wait_outcome:
  assumes "os_ok os"
  shows "\<exists>r. redisContextWaitReady os c fd timeout w = Some r \<and> step_outcome os c (c_size_t fd) r"
proof -
  obtain ok isset w1 where sel: "os_select os (c_size_t fd) timeout w = ((ok, isset), w1)" by (metis prod.exhaust)
  obtain er w2 where er: "os_sockerr os (c_size_t fd) w1 = (er, w2)" by fastforce
  have t1: "length (''select(2): '' @ os_strerror os (sy_errno w1)) \<le> 1000" "NUL \<notin> set (''select(2): '' @ os_strerror os (sy_errno w1))"
    using os_ok_text [OF assms, of "sy_errno w1"] by simp_all
  have t2: "length (''getsockopt(SO_ERROR): '' @ show_int (os_lasterror os w2)) \<le> 1000"
    "NUL \<notin> set (''getsockopt(SO_ERROR): '' @ show_int (os_lasterror os w2))"
    using os_ok_code [OF assms, of w2] by simp_all
  note outs = text_outcome [OF t1, of REDIS_ERR_IO] text_outcome [OF t2, of REDIS_ERR_IO] errno_outcome [OF assms] ok_outcome
  show ?thesis
    using outs unfolding redisContextWaitReady_def Let_def sel prod.case er
    by (cases er) (auto simp: err_types)
qed

lemma connect_wait_outcome:
  assumes "os_ok os"
  shows "\<exists>r. connect_wait os c s a port blocking timeout w = Some r \<and> step_outcome os c (c_size_t s) r"
proof -
  obtain ok w1 where o: "os_connect os (c_size_t s) a (port mod 65536) w = (ok, w1)" by fastforce
  show ?thesis unfolding connect_wait_def o Let_def prod.case
    by (simp add: wait_outcome [OF assms] ok_outcome [simplified] del: split_paired_Ex)
qed

lemma create_outcome:
  assumes "os_ok os"
  shows "\<exists>st c' w'. redisCreateSocket os c AF_INET w = Some (st, c', w') \<and>
    (st = REDIS_ERR \<and> failed c c' \<and> (\<forall>s w0. os_socket os AF_INET w = (Some s, w0) \<longrightarrow> (\<exists>w1. w' = os_closesocket os s w1)) \<or>
     c' = c \<and> (\<exists>s w0. os_socket os AF_INET w = (Some s, w0) \<and> st = int s))"
proof (cases "os_socket os AF_INET w")
  case (Pair so w0)
  show ?thesis
  proof (cases so)
    case None
    have t: "length (''socket error: '' @ show_int (os_lasterror os w0) @ [LF]) \<le> 1000"
      "NUL \<notin> set (''socket error: '' @ show_int (os_lasterror os w0) @ [LF])"
      using os_ok_code [OF assms, of w0] by simp_all
    show ?thesis
      using set_error_text_ok [OF t, of REDIS_ERR_IO os c w0] Pair None by (auto simp: redisCreateSocket_def err_types)
  next
    case (Some s)
    have "s < 2147483648" using assms Pair Some unfolding os_ok_def by blast
    then have "c_int (int s) = int s" by (intro c_int_id) simp_all
    moreover obtain b1 w1 b2 w2 where o: "os_setsockopt os s (SO_LINGER 1 2) w0 = (b1, w1)"
        "os_setsockopt os s (SO_REUSEADDR 1) w1 = (b2, w2)" by fastforce
    moreover obtain c' where "redisSetError os c REDIS_ERR_IO None w2 = Some c'" "failed c c'"
      using set_error_errno [OF assms, of c w2] by blast
    ultimately show ?thesis using Pair Some by (cases b2) (auto simp: redisCreateSocket_def)
  qed
qed

lemma connect_outcome:
  assumes "os_ok os" and "NUL \<notin> set addr" and "length addr \<le> 900"
  shows "\<exists>st c' w'. redisContextConnectTcp os c addr port timeout w = Some (st, c', w') \<and>
    (st = REDIS_OK \<and> (\<exists>s w0. os_socket os AF_INET w = (Some s, w0) \<and> c' = c\<lparr>cx_fd := s, cx_flags := cx_flags c OR REDIS_CONNECTED\<rparr>) \<or>
     st = REDIS_ERR \<and> failed c c' \<and> (\<forall>s w0. os_socket os AF_INET w = (Some s, w0) \<longrightarrow> (\<exists>w1. w' = os_closesocket os s w1)))"
proof -
  obtain st c1 w1 where cr: "redisCreateSocket os c AF_INET w = Some (st, c1, w1)"
    and out: "st = REDIS_ERR \<and> failed c c1 \<and> (\<forall>s w0. os_socket os AF_INET w = (Some s, w0) \<longrightarrow> (\<exists>w2. w1 = os_closesocket os s w2)) \<or>
      c1 = c \<and> (\<exists>s w0. os_socket os AF_INET w = (Some s, w0) \<and> st = int s)"
    using create_outcome [OF assms(1), of c w] by blast
  from out show ?thesis
  proof
    assume "st = REDIS_ERR \<and> failed c c1 \<and> (\<forall>s w0. os_socket os AF_INET w = (Some s, w0) \<longrightarrow> (\<exists>w2. w1 = os_closesocket os s w2))"
    then show ?thesis using cr by (simp add: redisContextConnectTcp_def REDIS_ERR_def)
  next
    assume "c1 = c \<and> (\<exists>s w0. os_socket os AF_INET w = (Some s, w0) \<and> st = int s)"
    then obtain s w0 where s: "c1 = c" "os_socket os AF_INET w = (Some s, w0)" "st = int s" by blast
    have sl: "s < 2147483648" using assms(1) s(2) unfolding os_ok_def by blast
    then have sz: "c_size_t (int s) = s" by (intro c_size_t_of_nat) simp
    obtain st2 c2 w2 where nd: "redisSetTcpNoDelay os c (int s) w1 = Some (st2, c2, w2)" "step_outcome os c s (st2, c2, w2)"
      using nodelay_outcome [OF assms(1), of c "int s" w1] sz by auto
    obtain ad w3 where ad: "resolve_host os addr w2 = (ad, w3)" by fastforce
    consider "st2 = REDIS_ERR" "failed c c2" "\<exists>w4. w2 = os_closesocket os s w4" | "st2 = REDIS_OK" "c2 = c" "ad = None"
      | a where "st2 = REDIS_OK" "c2 = c" "ad = Some a"
      using nd(2) by (cases ad) (auto simp: step_outcome_def)
    then show ?thesis
    proof cases
      case 1
      then show ?thesis using cr s nd by (simp add: redisContextConnectTcp_def REDIS_ERR_def REDIS_OK_def)
    next
      case 2
      have t: "length (''can'' @ [CHR 0x27] @ ''t resolve: '' @ addr @ [LF]) \<le> 1000"
        "NUL \<notin> set (''can'' @ [CHR 0x27] @ ''t resolve: '' @ addr @ [LF])" using assms(2,3) by simp_all
      show ?thesis
        using set_error_text_ok [OF t, of REDIS_ERR_OTHER os c w3] cr s nd ad sz 2
        by (auto simp: redisContextConnectTcp_def err_types)
    next
      case 3
      obtain st4 c4 w4 where cw: "connect_wait os c (int s) a port (cx_flags c AND REDIS_BLOCK \<noteq> 0) timeout w3 = Some (st4, c4, w4)"
          "step_outcome os c s (st4, c4, w4)"
        using connect_wait_outcome [OF assms(1), of c "int s" a port _ timeout w3] sz by (metis prod_cases3)
      show ?thesis
        using cw cr s nd(1) ad sz 3
        by (auto simp: redisContextConnectTcp_def step_outcome_def REDIS_OK_def REDIS_ERR_def)
    qed
  qed
qed

text \<open>
  The contract of connecting: for every behaviour of the system the call returns; it
  returns \<open>REDIS_OK\<close> with the new socket in the context, flagged connected and otherwise
  unchanged, or \<open>REDIS_ERR\<close> with an error code and a description recorded in the otherwise
  unchanged context, and then its last action is to close the socket it had opened, if any.
\<close>

lemma connect_contract:
  assumes "os_ok os" and "NUL \<notin> set addr" and "length addr \<le> 900"
  shows "\<exists>st c' w'. redisContextConnectTcp os c addr port timeout w = Some (st, c', w') \<and>
    (st = REDIS_OK \<and> (\<exists>s w0. os_socket os AF_INET w = (Some s, w0) \<and> c' = c\<lparr>cx_fd := s, cx_flags := cx_flags c OR REDIS_CONNECTED\<rparr>) \<or>
     st = REDIS_ERR \<and> failed c c' \<and> (\<forall>s w0. os_socket os AF_INET w = (Some s, w0) \<longrightarrow> (\<exists>w1. w' = os_closesocket os s w1)))"
  using connect_outcome [OF assms] .

text \<open>A system in which every call succeeds, with the closed sockets as its state, and one that refuses
  connections.\<close>

definition calm_os :: "nat list os_api" where
  "calm_os = \<lparr>os_socket = (\<lambda>t w. (Some 100, w)), os_setsockopt = (\<lambda>s o' w. (True, w)), os_ioctlsocket = (\<lambda>s b w. (True, w)),
     os_closesocket = (\<lambda>s w. w\<lparr>sy_world := s # sy_world w\<rparr>), os_inet_addr = (\<lambda>a. 16777343),
     os_gethostbyname = (\<lambda>a w. (None, w)), os_connect = (\<lambda>s a p w. (True, w)), os_select = (\<lambda>s t w. ((True, True), w)),
     os_sockerr = (\<lambda>s w. (Some 0, w)), os_recv = (\<lambda>s n w. (RecvClosed, w)), os_send = (\<lambda>s x w. (Sent (length x), w)),
     os_lasterror = (\<lambda>w. 10061), os_strerror = (\<lambda>e. ''Unknown error'')\<rparr>"

lemma calm_os_ok: "os_ok calm_os"
  by (simp add: os_ok_def calm_os_def)

definition blank_context :: redisContext where
  "blank_context = \<lparr>cx_fd = 0, cx_flags = 1, cx_obuf = sds_of [] [], cx_err = 0, cx_errstr = None,
     cx_fn = Some defaultFunctions, cx_reader = None\<rparr>"

text \<open>
  The Windows connect function never switches the mode of the socket: it behaves the
  same whatever \<open>ioctlsocket\<close> does, so a context made by \<open>redisConnectNonBlock\<close> has a blocking
  socket.
\<close>

lemma connect_ignores_ioctl:
  "redisContextConnectTcp (os\<lparr>os_ioctlsocket := f\<rparr>) c addr port timeout w = redisContextConnectTcp os c addr port timeout w"
proof -
  have e: "redisSetError (os\<lparr>os_ioctlsocket := f\<rparr>) = redisSetError os" "set_error_text (os\<lparr>os_ioctlsocket := f\<rparr>) = set_error_text os"
    by (intro ext, simp add: redisSetError_def set_error_text_def Let_def split: option.split)+
  have p: "redisCreateSocket (os\<lparr>os_ioctlsocket := f\<rparr>) = redisCreateSocket os"
    "redisSetTcpNoDelay (os\<lparr>os_ioctlsocket := f\<rparr>) = redisSetTcpNoDelay os"
    "redisContextWaitReady (os\<lparr>os_ioctlsocket := f\<rparr>) = redisContextWaitReady os"
    "resolve_host (os\<lparr>os_ioctlsocket := f\<rparr>) = resolve_host os"
    by (intro ext, simp add: e redisCreateSocket_def redisSetTcpNoDelay_def redisContextWaitReady_def resolve_host_def Let_def
        split: prod.split option.split)+
  have cl: "os_closesocket (os\<lparr>os_ioctlsocket := f\<rparr>) = os_closesocket os" by simp
  have cw: "connect_wait (os\<lparr>os_ioctlsocket := f\<rparr>) = connect_wait os"
    by (intro ext) (simp add: p connect_wait_def Let_def split: prod.split)
  show ?thesis unfolding redisContextConnectTcp_def p e cl cw ..
qed

end
