(* ===== verification/Context.thy ===== *)
theory Context
  imports Net Format
begin

text \<open>
  The connection context of \<open>win32/hiredis/hiredis.c\<close> (lines 828 to 1159): creating and releasing
  it, reading from the socket into the reply reader, writing the output buffer, waiting for a
  reply, and the command functions.

  Every function takes and returns the context, the store of reply objects and the state of the
  system. The two loops of \<open>redisGetReply\<close> depend on what the network does and need not end; they
  are partial functions.
\<close>

section \<open>Creating and releasing\<close>

definition redisContextInit :: "redisContext option" where
  "redisContextInit = do {
     obuf \<leftarrow> sdsempty;
     Some \<lparr>cx_fd = 0, cx_flags = 0, cx_obuf = obuf, cx_err = 0, cx_errstr = None,
           cx_fn = Some defaultFunctions, cx_reader = None\<rparr> }"

text \<open>\<open>fd\<close> is unsigned; only 0 is not closed.\<close>

definition redisFree :: "'w os_api \<Rightarrow> redisContext \<Rightarrow> reply_heap \<Rightarrow> 'w sys \<Rightarrow> (reply_heap \<times> 'w sys) option" where
  "redisFree os c h w = do {
     let w = (if 0 < cx_fd c then os_closesocket os (cx_fd c) w else w);
     h \<leftarrow> (case cx_reader c of Some r \<Rightarrow> redisReplyReaderFree r h | None \<Rightarrow> Some h);
     Some (h, w) }"

text \<open>\<open>c->flags |= REDIS_BLOCK\<close> and \<open>c->flags &= ~REDIS_BLOCK\<close>.\<close>

definition init_mode :: "bool \<Rightarrow> redisContext option" where
  "init_mode blocking = do {
     c \<leftarrow> redisContextInit;
     Some (c\<lparr>cx_flags := (if blocking then cx_flags c OR REDIS_BLOCK else cx_flags c AND NOT REDIS_BLOCK)\<rparr>) }"

definition redisConnect :: "'w os_api \<Rightarrow> string \<Rightarrow> int \<Rightarrow> 'w sys \<Rightarrow> (redisContext \<times> 'w sys) option" where
  "redisConnect os ip port w = do {
     c \<leftarrow> init_mode True;
     (st, c, w) \<leftarrow> redisContextConnectTcp os c ip port None w;
     Some (c, w) }"

definition redisConnectWithTimeout :: "'w os_api \<Rightarrow> string \<Rightarrow> int \<Rightarrow> timeval \<Rightarrow> 'w sys \<Rightarrow> (redisContext \<times> 'w sys) option" where
  "redisConnectWithTimeout os ip port tv w = do {
     c \<leftarrow> init_mode True;
     (st, c, w) \<leftarrow> redisContextConnectTcp os c ip port (Some tv) w;
     Some (c, w) }"

definition redisConnectNonBlock :: "'w os_api \<Rightarrow> string \<Rightarrow> int \<Rightarrow> 'w sys \<Rightarrow> (redisContext \<times> 'w sys) option" where
  "redisConnectNonBlock os ip port w = do {
     c \<leftarrow> init_mode False;
     (st, c, w) \<leftarrow> redisContextConnectTcp os c ip port None w;
     Some (c, w) }"

definition redisConnectUnix :: "'w os_api \<Rightarrow> string \<Rightarrow> 'w sys \<Rightarrow> (redisContext \<times> 'w sys) option" where
  "redisConnectUnix os path w = do {
     c \<leftarrow> init_mode True;
     (st, c, w) \<leftarrow> redisContextConnectUnix os c path None w;
     Some (c, w) }"

definition redisConnectUnixWithTimeout :: "'w os_api \<Rightarrow> string \<Rightarrow> timeval \<Rightarrow> 'w sys \<Rightarrow> (redisContext \<times> 'w sys) option" where
  "redisConnectUnixWithTimeout os path tv w = do {
     c \<leftarrow> init_mode True;
     (st, c, w) \<leftarrow> redisContextConnectUnix os c path (Some tv) w;
     Some (c, w) }"

definition redisConnectUnixNonBlock :: "'w os_api \<Rightarrow> string \<Rightarrow> 'w sys \<Rightarrow> (redisContext \<times> 'w sys) option" where
  "redisConnectUnixNonBlock os path w = do {
     c \<leftarrow> init_mode False;
     (st, c, w) \<leftarrow> redisContextConnectUnix os c path None w;
     Some (c, w) }"

text \<open>The initializers for a caller that connects itself; \<open>-1\<close> as an unsigned socket handle.\<close>

definition redisConnected :: "redisContext option" where
  "redisConnected = do { c \<leftarrow> init_mode True; Some (c\<lparr>cx_fd := c_size_t (- 1)\<rparr>) }"

definition redisConnectedNonBlock :: "redisContext option" where
  "redisConnectedNonBlock = do { c \<leftarrow> init_mode False; Some (c\<lparr>cx_fd := c_size_t (- 1)\<rparr>) }"

definition redisSetTimeout :: "'w os_api \<Rightarrow> redisContext \<Rightarrow> timeval \<Rightarrow> 'w sys \<Rightarrow> (int \<times> redisContext \<times> 'w sys) option" where
  "redisSetTimeout os c tv w =
     (if cx_flags c AND REDIS_BLOCK \<noteq> 0 then redisContextSetTimeout os c tv w else Some (REDIS_ERR, c, w))"

definition redisSetReplyObjectFunctions :: "redisContext \<Rightarrow> redisReplyObjectFunctions option \<Rightarrow> int \<times> redisContext" where
  "redisSetReplyObjectFunctions c fn =
     (if cx_reader c \<noteq> None then (REDIS_ERR, c) else (REDIS_OK, c\<lparr>cx_fn := fn\<rparr>))"

text \<open>\<open>__redisCreateReplyReader\<close>, with the assertion checked.\<close>

definition redisCreateReplyReader :: "redisContext \<Rightarrow> redisContext option" where
  "redisCreateReplyReader c =
     (case cx_reader c of
        Some r \<Rightarrow> Some c
      | None \<Rightarrow> do {
          r \<leftarrow> redisReplyReaderCreate;
          let (st, r) = redisReplyReaderSetReplyObjectFunctions r (cx_fn c);
          assert_c (st = REDIS_OK);
          Some (c\<lparr>cx_reader := Some r\<rparr>) })"

section \<open>Input and output\<close>

text \<open>\<open>errno\<close> after a failed socket call.\<close>

definition socket_errno :: "'w os_api \<Rightarrow> 'w sys \<Rightarrow> 'w sys" where
  "socket_errno os w =
     (let e = os_lasterror os w
      in w\<lparr>sy_errno := (if e = ENOENT \<or> e = WSAEWOULDBLOCK then EAGAIN else e)\<rparr>)"

definition feed_reader :: "redisContext \<Rightarrow> mem \<Rightarrow> nat \<Rightarrow> redisContext option" where
  "feed_reader c buf n = do {
     c \<leftarrow> redisCreateReplyReader c;
     r \<leftarrow> cx_reader c;
     r \<leftarrow> redisReplyReaderFeed r (Some buf) n;
     Some (c\<lparr>cx_reader := Some r\<rparr>) }"

definition set_eof :: "'w os_api \<Rightarrow> redisContext \<Rightarrow> 'w sys \<Rightarrow> redisContext option" where
  "set_eof os c w = do {
     e \<leftarrow> sdsnew (Some (c_literal ''Server closed the connection''));
     redisSetError os c REDIS_ERR_EOF (Some e) w }"

definition redisBufferRead :: "'w os_api \<Rightarrow> redisContext \<Rightarrow> 'w sys \<Rightarrow> (int \<times> redisContext \<times> 'w sys) option" where
  "redisBufferRead os c w =
     (case os_recv os (cx_fd c) 2048 w of
        (RecvError, w) \<Rightarrow>
          (let w = socket_errno os w
           in if sy_errno w = EAGAIN \<and> cx_flags c AND REDIS_BLOCK = 0 then Some (REDIS_OK, c, w)
              else do { c \<leftarrow> redisSetError os c REDIS_ERR_IO None w; Some (REDIS_ERR, c, w) })
      | (RecvClosed, w) \<Rightarrow> do { c \<leftarrow> set_eof os c w; Some (REDIS_ERR, c, w) }
      | (RecvData bytes, w) \<Rightarrow> do {
          c \<leftarrow> feed_reader c (map Some bytes) (length bytes);
          Some (REDIS_OK, c, w) })"

text \<open>Input the caller has read; a negative count is passed on as a huge unsigned one.\<close>

definition redisBufferReadDone :: "'w os_api \<Rightarrow> redisContext \<Rightarrow> mem \<Rightarrow> int \<Rightarrow> 'w sys \<Rightarrow> (int \<times> redisContext) option" where
  "redisBufferReadDone os c buf nread w =
     (if nread = 0 then do { c \<leftarrow> set_eof os c w; Some (REDIS_ERR, c) }
      else do { c \<leftarrow> feed_reader c buf (c_size_t nread); Some (REDIS_OK, c) })"

text \<open>The bytes of the output buffer that are passed to \<open>send\<close>.\<close>

definition obuf_bytes :: "redisContext \<Rightarrow> string option" where
  "obuf_bytes c = do {
     m \<leftarrow> mem_fetch (sds_buf (cx_obuf c)) 0 (sdslen (cx_obuf c));
     assert_c (None \<notin> set m);
     Some (map the m) }"

text \<open>The status, whether the buffer is empty, and the new state.\<close>

definition redisBufferWrite :: "'w os_api \<Rightarrow> redisContext \<Rightarrow> 'w sys \<Rightarrow> (int \<times> bool \<times> redisContext \<times> 'w sys) option" where
  "redisBufferWrite os c w =
     (let finish = (\<lambda>c w. Some (REDIS_OK, sdslen (cx_obuf c) = 0, c, w))
      in if 0 < sdslen (cx_obuf c) then do {
           bytes \<leftarrow> obuf_bytes c;
           (case os_send os (cx_fd c) bytes w of
              (SendError, w) \<Rightarrow>
                (let w = socket_errno os w
                 in if sy_errno w = EAGAIN \<and> cx_flags c AND REDIS_BLOCK = 0 then finish c w
                    else do { c \<leftarrow> redisSetError os c REDIS_ERR_IO None w; Some (REDIS_ERR, False, c, w) })
            | (Sent nwritten, w) \<Rightarrow>
                if 0 < nwritten then
                  if int nwritten = c_int (int (sdslen (cx_obuf c))) then do {
                    obuf \<leftarrow> sdsempty;
                    finish (c\<lparr>cx_obuf := obuf\<rparr>) w }
                  else do {
                    obuf \<leftarrow> sdsrange (cx_obuf c) (int nwritten) (- 1);
                    finish (c\<lparr>cx_obuf := obuf\<rparr>) w }
                else finish c w) }
         else finish c w)"

section \<open>Replies\<close>

definition redisGetReplyFromReader :: "'w os_api \<Rightarrow> redisContext \<Rightarrow> reply_heap \<Rightarrow> 'w sys
    \<Rightarrow> (int \<times> nat \<times> redisContext \<times> reply_heap) option" where
  "redisGetReplyFromReader os c h w = do {
     c \<leftarrow> redisCreateReplyReader c;
     r \<leftarrow> cx_reader c;
     (st, reply, r, h) \<leftarrow> redisReplyReaderGetReply r h;
     let c = c\<lparr>cx_reader := Some r\<rparr>;
     if st = REDIS_ERR then do {
       e \<leftarrow> sdsnew (map_option sds_buf (rd_error r));
       c \<leftarrow> redisSetError os c REDIS_ERR_PROTOCOL (Some e) w;
       Some (REDIS_ERR, 0, c, h) }
     else Some (REDIS_OK, reply, c, h) }"

text \<open>\<open>do { \<dots> redisBufferWrite \<dots> } while (!wdone)\<close>\<close>

partial_function (option) write_until_done :: "'w os_api \<Rightarrow> redisContext \<Rightarrow> 'w sys \<Rightarrow> (int \<times> redisContext \<times> 'w sys) option" where
  "write_until_done os c w = do {
     (st, wdone, c, w) \<leftarrow> redisBufferWrite os c w;
     if st = REDIS_ERR then Some (REDIS_ERR, c, w)
     else if wdone then Some (REDIS_OK, c, w)
     else write_until_done os c w }"

text \<open>\<open>do { \<dots> redisBufferRead \<dots> redisGetReplyFromReader \<dots> } while (aux == NULL)\<close>\<close>

partial_function (option) read_until_reply :: "'w os_api \<Rightarrow> redisContext \<Rightarrow> reply_heap \<Rightarrow> 'w sys
    \<Rightarrow> (int \<times> nat \<times> redisContext \<times> reply_heap \<times> 'w sys) option" where
  "read_until_reply os c h w = do {
     (st, c, w) \<leftarrow> redisBufferRead os c w;
     if st = REDIS_ERR then Some (REDIS_ERR, 0, c, h, w)
     else do {
       (st, aux, c, h) \<leftarrow> redisGetReplyFromReader os c h w;
       if st = REDIS_ERR then Some (REDIS_ERR, 0, c, h, w)
       else if aux = 0 then read_until_reply os c h w
       else Some (REDIS_OK, aux, c, h, w) } }"

definition redisGetReply :: "'w os_api \<Rightarrow> redisContext \<Rightarrow> reply_heap \<Rightarrow> 'w sys
    \<Rightarrow> (int \<times> nat \<times> redisContext \<times> reply_heap \<times> 'w sys) option" where
  "redisGetReply os c h w = do {
     (st, aux, c, h) \<leftarrow> redisGetReplyFromReader os c h w;
     if st = REDIS_ERR then Some (REDIS_ERR, 0, c, h, w)
     else if aux = 0 \<and> cx_flags c AND REDIS_BLOCK \<noteq> 0 then do {
       (st, c, w) \<leftarrow> write_until_done os c w;
       if st = REDIS_ERR then Some (REDIS_ERR, 0, c, h, w)
       else read_until_reply os c h w }
     else Some (REDIS_OK, aux, c, h, w) }"

section \<open>Commands\<close>

definition redisAppendCommandRaw :: "redisContext \<Rightarrow> mem \<Rightarrow> nat \<Rightarrow> redisContext option" where
  "redisAppendCommandRaw c cmd len = do {
     obuf \<leftarrow> sdscatlen (cx_obuf c) cmd len;
     Some (c\<lparr>cx_obuf := obuf\<rparr>) }"

definition redisvAppendCommand :: "(string \<Rightarrow> va_args \<Rightarrow> string option) \<Rightarrow> redisContext \<Rightarrow> mem \<Rightarrow> va_args
    \<Rightarrow> redisContext option" where
  "redisvAppendCommand render c format ap = do {
     (len, cmd) \<leftarrow> redisvFormatCommand True render format ap;
     cmd \<leftarrow> cmd;
     redisAppendCommandRaw c cmd (c_size_t len) }"

definition redisAppendCommand :: "(string \<Rightarrow> va_args \<Rightarrow> string option) \<Rightarrow> redisContext \<Rightarrow> mem \<Rightarrow> va_args
    \<Rightarrow> redisContext option" where
  "redisAppendCommand render c format args = redisvAppendCommand render c format args"

definition redisAppendCommandArgv :: "redisContext \<Rightarrow> int \<Rightarrow> mem list \<Rightarrow> nat list option \<Rightarrow> redisContext option" where
  "redisAppendCommandArgv c argc argv argvlen = do {
     (len, cmd) \<leftarrow> redisFormatCommandArgv argc argv argvlen;
     redisAppendCommandRaw c cmd (c_size_t len) }"

definition redisCommandRaw :: "'w os_api \<Rightarrow> redisContext \<Rightarrow> mem \<Rightarrow> nat \<Rightarrow> reply_heap \<Rightarrow> 'w sys
    \<Rightarrow> (nat \<times> redisContext \<times> reply_heap \<times> 'w sys) option" where
  "redisCommandRaw os c cmd len h w = do {
     c \<leftarrow> redisAppendCommandRaw c cmd len;
     if cx_flags c AND REDIS_BLOCK \<noteq> 0 then do {
       (st, aux, c, h, w) \<leftarrow> redisGetReply os c h w;
       Some (if st = REDIS_OK then aux else 0, c, h, w) }
     else Some (0, c, h, w) }"

definition redisvCommand :: "'w os_api \<Rightarrow> (string \<Rightarrow> va_args \<Rightarrow> string option) \<Rightarrow> redisContext \<Rightarrow> mem \<Rightarrow> va_args
    \<Rightarrow> reply_heap \<Rightarrow> 'w sys \<Rightarrow> (nat \<times> redisContext \<times> reply_heap \<times> 'w sys) option" where
  "redisvCommand os render c format ap h w = do {
     (len, cmd) \<leftarrow> redisvFormatCommand True render format ap;
     cmd \<leftarrow> cmd;
     redisCommandRaw os c cmd (c_size_t len) h w }"

definition redisCommand :: "'w os_api \<Rightarrow> (string \<Rightarrow> va_args \<Rightarrow> string option) \<Rightarrow> redisContext \<Rightarrow> mem \<Rightarrow> va_args
    \<Rightarrow> reply_heap \<Rightarrow> 'w sys \<Rightarrow> (nat \<times> redisContext \<times> reply_heap \<times> 'w sys) option" where
  "redisCommand os render c format args h w = redisvCommand os render c format args h w"

definition redisCommandArgv :: "'w os_api \<Rightarrow> redisContext \<Rightarrow> int \<Rightarrow> mem list \<Rightarrow> nat list option
    \<Rightarrow> reply_heap \<Rightarrow> 'w sys \<Rightarrow> (nat \<times> redisContext \<times> reply_heap \<times> 'w sys) option" where
  "redisCommandArgv os c argc argv argvlen h w = do {
     (len, cmd) \<leftarrow> redisFormatCommandArgv argc argv argvlen;
     redisCommandRaw os c cmd (c_size_t len) h w }"

end
