(* ===== verification/ContextProps.thy ===== *)
theory ContextProps
  imports Context NetProps FormatProps
begin

text \<open>
  What the blocking client promises: the output buffer is a byte queue that loses and repeats
  nothing whatever portions the system accepts, and a command is sent in full, its reply read in
  whatever pieces it arrives, decoded and returned, with the context ready for the next command.
\<close>

section \<open>Readers between replies\<close>

text \<open>Between replies a reader is idle, or idle with the root task already pushed, which is what asking
  it for a reply that has not arrived leaves.\<close>

definition ready_reader :: "redisReader \<Rightarrow> bool" where
  "ready_reader r \<longleftrightarrow> (\<exists>r0. idle r0 \<and> rest r0 = [] \<and> (r = r0 \<or> r = start_root r0))"

lemma start_root_sel [simp]:
  "rd_buf (start_root r) = rd_buf r" "rd_len (start_root r) = rd_len r" "rd_pos (start_root r) = rd_pos r"
  "rd_fn (start_root r) = rd_fn r" "rd_error (start_root r) = rd_error r" "rd_reply (start_root r) = rd_reply r"
  by (simp_all add: start_root_def)

lemma start_root_idem [simp]: "start_root (start_root r) = start_root r"
  by (simp add: start_root_def)

lemma start_root_feed:
  "redisReplyReaderFeed (start_root r) b n = map_option start_root (redisReplyReaderFeed r b n)"
  by (cases b) (auto simp: redisReplyReaderFeed_def start_root_def Option.bind_map_option comp_def sdsempty_eq
      intro!: option.expand split: option.split bind_splits)

lemma getreply_start_root:
  "rd_len r \<noteq> 0 \<Longrightarrow> redisReplyReaderGetReply (start_root r) h = redisReplyReaderGetReply r h"
  by (simp add: getreply_emit)

lemma feed_get_start_root:
  assumes "idle r" and "x \<noteq> []" and "sds_room (rd_buf r) (length x)"
  shows "feed_get (start_root r) h x = feed_get r h x"
proof -
  obtain r1 where r1: "redisReplyReaderFeed r (Some (map Some x)) (length x) = Some r1" "idle r1" "rest r1 = rest r @ x"
    using feed_idle [OF assms] by blast
  have "length (rest r1) + rd_pos r1 = rd_len r1" using buf_bound [of r1] r1(2) by (simp add: idle_def reader_ok_def)
  moreover have "length (rest r1) \<noteq> 0" using r1(3) assms(2) by simp
  ultimately have "rd_len r1 \<noteq> 0" by linarith
  then show ?thesis using r1(1) by (simp add: feed_get_def start_root_feed getreply_start_root)
qed

lemma chunks_ready:
  assumes "ready_reader r" and "sendable 8 v" and "concat xs = enc v" and "\<forall>x\<in>set xs. x \<noteq> []"
    and "(length (sds_str (rd_buf r)) + length (enc v)) * 2 \<le> nat INT_MAX"
  shows "\<exists>r' h'. feed_chunks r h xs = Some (replicate (length xs - 1) (REDIS_OK, 0) @ [(REDIS_OK, hp_next h)], r', h') \<and>
    idle r' \<and> rest r' = [] \<and> reply_added h h' v"
proof -
  obtain r0 where r0: "idle r0" "rest r0 = []" "r = r0 \<or> r = start_root r0" using assms(1) by (auto simp: ready_reader_def)
  have b: "rd_buf r = rd_buf r0" using r0(3) by auto
  obtain x ys where xs: "xs = x # ys" "x \<noteq> []" using assms(3,4) length_enc [of v] by (cases xs) auto
  have "length x \<le> length (enc v)" unfolding assms(3) [symmetric] xs by simp
  then have "sds_room (rd_buf r0) (length x)" using assms(5) b by (simp add: sds_room_def)
  then have "feed_get r h x = feed_get r0 h x" using r0 feed_get_start_root [OF r0(1) xs(2)] by auto
  then have "feed_chunks r h xs = feed_chunks r0 h xs" unfolding xs by simp
  then show ?thesis using chunks_decode [OF r0(1,2) assms(2-4)] assms(5) b by simp
qed

lemma discard_start_root:
  "discard_consumed (start_root r) = map_option start_root (discard_consumed r)"
  by (cases "sdsrange (rd_buf r) (c_int (int (rd_pos r))) (- 1)") (simp_all add: discard_consumed_def start_root_def)

lemma getreply_ready:
  assumes "ready_reader r"
  shows "\<exists>r'. redisReplyReaderGetReply r h = Some (REDIS_OK, 0, r', h) \<and> ready_reader r' \<and>
    length (sds_str (rd_buf r')) \<le> length (sds_str (rd_buf r))"
proof (cases "rd_len r = 0")
  case True
  then show ?thesis using assms by (simp add: redisReplyReaderGetReply_def)
next
  case False
  obtain r0 where r0: "idle r0" "rest r0 = []" "r = r0 \<or> r = start_root r0" using assms by (auto simp: ready_reader_def)
  let ?s = "start_root r0"
  have s: "buf_ok ?s" "rest ?s = []" "rd_ridx ?s = 0" "\<exists>cur. rd_cur ?s = Some cur \<and> tk_type cur < 0"
    using r0(1,2) by (simp_all add: start_root_def idle_def reader_ok_def buf_ok_def rest_def rd_cur_def)
  then obtain cur where cur: "rd_cur ?s = Some cur" "tk_type cur < 0" by blast
  have "processItem ?s h = Some (- 1, ?s, h)" by (rule processItem_eq(2) [OF s(1) cur(1) refl cur(2) s(2)])
  then have l: "items_loop ?s h = Some (?s, h)" using s(3) by (simp add: items_loop.simps [of ?s])
  have ok: "buf_ok r0" using r0(1) by (simp add: idle_def reader_ok_def)
  obtain r1 where r1: "discard_consumed r0 = Some r1" "extends [] r0 r1" "length (sds_str (rd_buf r1)) \<le> length (sds_str (rd_buf r0))"
    using discard_ok [OF ok] by blast
  have i1: "idle r1" "rest r1 = []" using r0(1,2) extends_sel [OF r1(2)] r1(2) by (auto simp: idle_def reader_ok_def extends_def)
  have "rd_ridx (start_root r1) \<noteq> - 1" using i1(1) by (simp add: start_root_def idle_def)
  then have "redisReplyReaderGetReply r h = Some (REDIS_OK, 0, start_root r1, h)"
    using False r0(3) l r1(1) by (auto simp: getreply_emit emit_def discard_start_root)
  then show ?thesis using i1 r1(3) r0(3) by (auto simp: ready_reader_def)
qed

section \<open>The output buffer\<close>

lemma obuf_bytes_wf: "sds_wf (cx_obuf c) \<Longrightarrow> obuf_bytes c = Some (sds_str (cx_obuf c))"
proof -
  assume wf: "sds_wf (cx_obuf c)"
  obtain slack where s: "cx_obuf c = sds_of (sds_str (cx_obuf c)) slack" using wf by (metis sds_wf_repr)
  have "sds_buf (cx_obuf c) = map Some (sds_str (cx_obuf c)) @ Some NUL # slack" by (metis s sds_of_sel(3))
  then show ?thesis using sdslen_wf [OF wf] by (auto simp: obuf_bytes_def mem_fetch_def)
qed

lemma sdsrange_suffix:
  assumes "sds_wf s" and "n \<le> length (sds_str s)"
  shows "\<exists>s'. sdsrange s (int n) (- 1) = Some s' \<and> sds_wf s' \<and> sds_str s' = drop n (sds_str s)"
proof -
  have "int (length (sds_str s)) \<le> INT_MAX" using assms(1) by (auto simp: sds_wf_def sds_str_def INT_MAX_def)
  then show ?thesis using sdsrange_wf [OF assms(1), of "int n" "- 1"] assms(2) range_str_suffix [OF assms(2)]
    by (auto simp: INT_MAX_def)
qed

lemma buffer_write_sent:
  assumes "sds_wf (cx_obuf c)" and "sds_str (cx_obuf c) \<noteq> []" and "os_send os (cx_fd c) (sds_str (cx_obuf c)) w = (Sent n, w1)"
    and "n \<le> length (sds_str (cx_obuf c))"
  shows "\<exists>ob. redisBufferWrite os c w = Some (REDIS_OK, sds_str ob = [], c\<lparr>cx_obuf := ob\<rparr>, w1) \<and> sds_wf ob \<and>
    sds_str ob = drop n (sds_str (cx_obuf c))"
proof -
  let ?s = "sds_str (cx_obuf c)"
  have le: "int (length ?s) \<le> INT_MAX" using assms(1) by (auto simp: sds_wf_def sds_str_def INT_MAX_def)
  have len: "sdslen (cx_obuf c) = length ?s" "c_int (int (length ?s)) = int (length ?s)"
    using sdslen_wf [OF assms(1)] le by (simp_all add: c_int_id INT_MAX_def)
  note base = redisBufferWrite_def obuf_bytes_wf [OF assms(1)] len assms(3) Let_def
  consider "n = 0" | "0 < n" "n = length ?s" | "0 < n" "n < length ?s" using assms(4) by linarith
  then show ?thesis
  proof cases
    case 1
    then show ?thesis using assms(1,2) len(1) by (auto simp: base intro!: exI [of _ "cx_obuf c"])
  next
    case 2
    then show ?thesis using assms(2) len by (auto simp: base sdsempty_eq INT_MAX_def intro!: exI [of _ "sds_of [] []"])
  next
    case 3
    obtain ob where ob: "sdsrange (cx_obuf c) (int n) (- 1) = Some ob" "sds_wf ob" "sds_str ob = drop n ?s"
      using sdsrange_suffix [OF assms(1,4)] by blast
    then show ?thesis using 3 assms(2) len sdslen_wf [OF ob(2)] by (auto simp: base intro!: exI [of _ ob])
  qed
qed

lemma buffer_write_empty:
  assumes "sds_wf (cx_obuf c)" and "sds_str (cx_obuf c) = []"
  shows "redisBufferWrite os c w = Some (REDIS_OK, True, c, w)"
  using assms sdslen_wf [OF assms(1)] by (simp add: redisBufferWrite_def)

text \<open>The system accepts all of \<open>s\<close>, in portions of its choice.\<close>

inductive drains :: "'w os_api \<Rightarrow> nat \<Rightarrow> string \<Rightarrow> 'w sys \<Rightarrow> 'w sys \<Rightarrow> bool" for os fd where
  drained: "drains os fd [] w w"
| portion: "s \<noteq> [] \<Longrightarrow> os_send os fd s w = (Sent n, w1) \<Longrightarrow> n \<le> length s \<Longrightarrow> drains os fd (drop n s) w1 w2 \<Longrightarrow>
    drains os fd s w w2"

lemma write_until_done_ok:
  assumes "drains os fd s w w'" and "sds_wf (cx_obuf c)" and "sds_str (cx_obuf c) = s" and "cx_fd c = fd"
  shows "\<exists>ob. write_until_done os c w = Some (REDIS_OK, c\<lparr>cx_obuf := ob\<rparr>, w') \<and> sds_wf ob \<and> sds_str ob = []"
  using assms
proof (induction arbitrary: c rule: drains.induct)
  case (drained w)
  then show ?case using buffer_write_empty [of c os w]
    by (subst write_until_done.simps) (auto simp: REDIS_OK_def REDIS_ERR_def intro!: exI [of _ "cx_obuf c"])
next
  case (portion s w n w1 w2)
  obtain ob where ob: "redisBufferWrite os c w = Some (REDIS_OK, sds_str ob = [], c\<lparr>cx_obuf := ob\<rparr>, w1)" "sds_wf ob"
      "sds_str ob = drop n s"
    using buffer_write_sent [of c os w n w1] portion by auto
  obtain ob2 where "write_until_done os (c\<lparr>cx_obuf := ob\<rparr>) w1 = Some (REDIS_OK, c\<lparr>cx_obuf := ob2\<rparr>, w2)" "sds_wf ob2" "sds_str ob2 = []"
    using portion.IH [of "c\<lparr>cx_obuf := ob\<rparr>"] ob portion.prems by auto
  moreover have "w1 = w2" if "sds_str ob = []" using portion.hyps(4) ob(3) that by (auto elim: drains.cases)
  ultimately show ?case using ob
    by (subst write_until_done.simps) (auto simp: REDIS_OK_def REDIS_ERR_def)
qed

section \<open>Reading a reply\<close>

text \<open>The system delivers the pieces \<open>xs\<close>, one per call.\<close>

inductive delivers :: "'w os_api \<Rightarrow> nat \<Rightarrow> string list \<Rightarrow> 'w sys \<Rightarrow> 'w sys \<Rightarrow> bool" for os fd where
  nothing: "delivers os fd [] w w"
| piece: "os_recv os fd 2048 w = (RecvData x, w1) \<Longrightarrow> x \<noteq> [] \<Longrightarrow> delivers os fd xs w1 w2 \<Longrightarrow> delivers os fd (x # xs) w w2"

inductive_cases delivers_ConsE: "delivers os fd (x # xs) w w'"
inductive_cases delivers_NilE: "delivers os fd [] w w'"

lemma delivers_nonempty: "delivers os fd xs w w' \<Longrightarrow> \<forall>x\<in>set xs. x \<noteq> []"
  by (induction rule: delivers.induct) auto

lemma read_piece:
  assumes "cx_reader c = Some r" and "os_recv os (cx_fd c) 2048 w = (RecvData x, w1)" and "feed_get r h x = Some (REDIS_OK, p, r', h')"
  shows "\<exists>r1. redisBufferRead os c w = Some (REDIS_OK, c\<lparr>cx_reader := Some r1\<rparr>, w1) \<and>
    redisGetReplyFromReader os (c\<lparr>cx_reader := Some r1\<rparr>) h w1 = Some (REDIS_OK, p, c\<lparr>cx_reader := Some r'\<rparr>, h')"
proof -
  obtain r1 where "redisReplyReaderFeed r (Some (map Some x)) (length x) = Some r1" "redisReplyReaderGetReply r1 h = Some (REDIS_OK, p, r', h')"
    using assms(3) by (auto simp: feed_get_def bind_eq_Some_conv)
  then show ?thesis using assms(1,2)
    by (auto simp: redisBufferRead_def feed_reader_def redisCreateReplyReader_def redisGetReplyFromReader_def
        REDIS_OK_def REDIS_ERR_def)
qed

lemma read_until_reply_ok:
  assumes "delivers os (cx_fd c) xs w w'" and "cx_reader c = Some r" and "p \<noteq> 0" and "xs \<noteq> []"
    and "feed_chunks r h xs = Some (replicate (length xs - 1) (REDIS_OK, 0) @ [(REDIS_OK, p)], r', h')"
  shows "read_until_reply os c h w = Some (REDIS_OK, p, c\<lparr>cx_reader := Some r'\<rparr>, h', w')"
  using assms(1,2,4,5)
proof (induction xs arbitrary: c r h w)
  case (Cons x xs)
  obtain w1 where w1: "os_recv os (cx_fd c) 2048 w = (RecvData x, w1)" "delivers os (cx_fd c) xs w1 w'"
    using Cons.prems(1) by (auto elim: delivers_ConsE)
  obtain st q r1 h1 out where f: "feed_get r h x = Some (st, q, r1, h1)" "feed_chunks r1 h1 xs = Some (out, r', h')"
      "(st, q) # out = replicate (length xs) (REDIS_OK, 0) @ [(REDIS_OK, p)]"
    using Cons.prems(4) by (auto simp: bind_eq_Some_conv)
  have st: "st = REDIS_OK" using f(3) by (cases xs) auto
  obtain r2 where r2: "redisBufferRead os c w = Some (REDIS_OK, c\<lparr>cx_reader := Some r2\<rparr>, w1)"
      "redisGetReplyFromReader os (c\<lparr>cx_reader := Some r2\<rparr>) h w1 = Some (REDIS_OK, q, c\<lparr>cx_reader := Some r1\<rparr>, h1)"
    using read_piece [OF Cons.prems(2) w1(1)] f(1) st by blast
  show ?case
  proof (cases "xs = []")
    case True
    then have "q = p" "r1 = r'" "h1 = h'" "w1 = w'" using f w1(2) by (auto elim: delivers_NilE)
    then show ?thesis using r2 assms(3) by (subst read_until_reply.simps) (simp add: REDIS_OK_def REDIS_ERR_def)
  next
    case False
    then have q: "q = 0" "out = replicate (length xs - 1) (REDIS_OK, 0) @ [(REDIS_OK, p)]" using f(3) by (cases xs; auto)+
    have "read_until_reply os (c\<lparr>cx_reader := Some r1\<rparr>) h1 w1 = Some (REDIS_OK, p, c\<lparr>cx_reader := Some r'\<rparr>, h', w')"
      using Cons.IH [of "c\<lparr>cx_reader := Some r1\<rparr>" w1 r1 h1] w1(2) False f(2) q(2) by simp
    then show ?thesis using r2 q(1) by (subst read_until_reply.simps) (simp add: REDIS_OK_def REDIS_ERR_def)
  qed
qed simp

section \<open>A command\<close>

text \<open>A blocking context between commands, with room for \<open>n\<close> bytes of input.\<close>

definition ctx_ready :: "redisContext \<Rightarrow> nat \<Rightarrow> bool" where
  "ctx_ready c n \<longleftrightarrow> sds_wf (cx_obuf c) \<and> cx_fn c = Some defaultFunctions \<and> cx_flags c AND REDIS_BLOCK \<noteq> 0 \<and>
     (case cx_reader c of None \<Rightarrow> n * 2 \<le> nat INT_MAX
        | Some r \<Rightarrow> ready_reader r \<and> (length (sds_str (rd_buf r)) + n) * 2 \<le> nat INT_MAX)"

lemma create_reader_ready:
  assumes "ctx_ready c n"
  shows "\<exists>r. redisCreateReplyReader c = Some (c\<lparr>cx_reader := Some r\<rparr>) \<and> ready_reader r \<and>
    (length (sds_str (rd_buf r)) + n) * 2 \<le> nat INT_MAX"
proof (cases "cx_reader c")
  case None
  have "fresh_reader\<lparr>rd_fn := cx_fn c\<rparr> = fresh_reader" "rd_reply fresh_reader = 0"
    using assms fresh_reader(2) by (simp_all add: ctx_ready_def idle_def reader_ok_def)
  then have "redisCreateReplyReader c = Some (c\<lparr>cx_reader := Some fresh_reader\<rparr>)"
    using None by (simp add: redisCreateReplyReader_def fresh_reader(1) redisReplyReaderSetReplyObjectFunctions_def)
  moreover have "ready_reader fresh_reader" using fresh_reader(2,3) by (auto simp: ready_reader_def)
  ultimately show ?thesis using assms fresh_reader(4) None by (intro exI [of _ fresh_reader]) (simp add: ctx_ready_def)
next
  case (Some r)
  then have "c = c\<lparr>cx_reader := Some r\<rparr>" by simp
  then show ?thesis using assms Some by (intro exI [of _ r]) (simp add: redisCreateReplyReader_def ctx_ready_def)
qed

lemma getReply_ready:
  assumes "ctx_ready c (length (enc v))" and "sendable 8 v" and "drains os (cx_fd c) (sds_str (cx_obuf c)) w w1"
    and "delivers os (cx_fd c) xs w1 w2" and "concat xs = enc v" and "0 < hp_next h"
  shows "\<exists>ob r' h'. redisGetReply os c h w = Some (REDIS_OK, hp_next h, c\<lparr>cx_obuf := ob, cx_reader := Some r'\<rparr>, h', w2) \<and>
    sds_wf ob \<and> sds_str ob = [] \<and> idle r' \<and> rest r' = [] \<and> reply_added h h' v"
proof -
  obtain r where r: "redisCreateReplyReader c = Some (c\<lparr>cx_reader := Some r\<rparr>)" "ready_reader r"
      "(length (sds_str (rd_buf r)) + length (enc v)) * 2 \<le> nat INT_MAX"
    using create_reader_ready [OF assms(1)] by blast
  obtain r1 where r1: "redisReplyReaderGetReply r h = Some (REDIS_OK, 0, r1, h)" "ready_reader r1"
      "length (sds_str (rd_buf r1)) \<le> length (sds_str (rd_buf r))"
    using getreply_ready [OF r(2)] by blast
  let ?c = "c\<lparr>cx_reader := Some r1\<rparr>"
  have first: "redisGetReplyFromReader os c h w = Some (REDIS_OK, 0, ?c, h)"
    using r(1) r1(1) by (simp add: redisGetReplyFromReader_def REDIS_OK_def REDIS_ERR_def)
  have "sds_wf (cx_obuf ?c)" "sds_str (cx_obuf ?c) = sds_str (cx_obuf c)" "cx_fd ?c = cx_fd c"
    using assms(1) by (simp_all add: ctx_ready_def)
  from write_until_done_ok [OF assms(3) this] obtain ob where
    ob: "write_until_done os ?c w = Some (REDIS_OK, ?c\<lparr>cx_obuf := ob\<rparr>, w1)" "sds_wf ob" "sds_str ob = []" by blast
  obtain r' h' where ch: "feed_chunks r1 h xs = Some (replicate (length xs - 1) (REDIS_OK, 0) @ [(REDIS_OK, hp_next h)], r', h')"
      "idle r'" "rest r' = []" "reply_added h h' v"
    using chunks_ready [OF r1(2) assms(2,5) delivers_nonempty [OF assms(4)]] r(3) r1(3) by fastforce
  have "xs \<noteq> []" using assms(5) length_enc [of v] by auto
  then have "read_until_reply os (?c\<lparr>cx_obuf := ob\<rparr>) h w1
      = Some (REDIS_OK, hp_next h, (?c\<lparr>cx_obuf := ob\<rparr>)\<lparr>cx_reader := Some r'\<rparr>, h', w2)"
    using read_until_reply_ok [of os "?c\<lparr>cx_obuf := ob\<rparr>" xs w1 w2 r1 "hp_next h" h r' h'] assms(4,6) ch(1) by simp
  then have "redisGetReply os c h w = Some (REDIS_OK, hp_next h, c\<lparr>cx_obuf := ob, cx_reader := Some r'\<rparr>, h', w2)"
    using first ob(1) assms(1) by (simp add: redisGetReply_def ctx_ready_def REDIS_OK_def REDIS_ERR_def)
  then show ?thesis using ob ch by blast
qed

lemma append_raw_ok:
  assumes "sds_wf (cx_obuf c)" and "(length (sds_str (cx_obuf c)) + length t) * 2 \<le> nat INT_MAX"
  shows "\<exists>ob. redisAppendCommandRaw c (map Some t @ m) (length t) = Some (c\<lparr>cx_obuf := ob\<rparr>) \<and> sds_wf ob \<and>
    sds_str ob = sds_str (cx_obuf c) @ t"
  using sdscatlen_wf [OF assms(1), of t m] assms(2) by (auto simp: redisAppendCommandRaw_def sds_room_def)

text \<open>
  C8 (liveness). A command on a blocking context returns with its reply: whenever the system accepts
  the pending output followed by the command (in any portions) and then delivers a reply (in any
  pieces), \<open>redisCommandArgv\<close> sends exactly these bytes, reads exactly this reply, and returns its
  object; the output buffer is then empty and the reader idle with every byte consumed, so that
  the context is ready for the next command.
\<close>

theorem command_completes:
  assumes "ctx_ready c (length (enc v))" and "sds_str (cx_obuf c) = pending"
    and "(length pending + length (enc_cmd ws)) * 2 \<le> nat INT_MAX" and "sendable 8 v" and "0 < hp_next h"
    and "drains os (cx_fd c) (pending @ enc_cmd ws) w w1" and "delivers os (cx_fd c) xs w1 w2" and "concat xs = enc v"
  shows "\<exists>ob r' h'. redisCommandArgv os c (int (length ws)) (map (map Some) ws) (Some (map length ws)) h w
      = Some (hp_next h, c\<lparr>cx_obuf := ob, cx_reader := Some r'\<rparr>, h', w2) \<and>
    sds_wf ob \<and> sds_str ob = [] \<and> idle r' \<and> rest r' = [] \<and> reply_added h h' v"
proof -
  let ?e = "enc_cmd ws"
  have el: "int (length ?e) < INT_MAX" using assms(3) by (simp add: INT_MAX_def)
  note f = format_argv_of [OF argv_holds_lens el]
  have sz: "c_size_t (int (length ?e)) = length ?e" using el by (intro c_size_t_of_nat) (simp add: INT_MAX_def)
  obtain ob where ob: "redisAppendCommandRaw c (map Some ?e @ [Some NUL]) (length ?e) = Some (c\<lparr>cx_obuf := ob\<rparr>)" "sds_wf ob"
      "sds_str ob = pending @ ?e"
    using append_raw_ok [of c ?e "[Some NUL]"] assms(1-3) by (auto simp: ctx_ready_def)
  let ?c = "c\<lparr>cx_obuf := ob\<rparr>"
  have "ctx_ready ?c (length (enc v))" using assms(1) ob(2) by (simp add: ctx_ready_def)
  then obtain ob' r' h' where g: "redisGetReply os ?c h w = Some (REDIS_OK, hp_next h, ?c\<lparr>cx_obuf := ob', cx_reader := Some r'\<rparr>, h', w2)"
      "sds_wf ob'" "sds_str ob' = []" "idle r'" "rest r' = []" "reply_added h h' v"
    using getReply_ready [of ?c v os w w1 xs w2 h] assms(4-8) ob(3) by auto
  have "redisCommandArgv os c (int (length ws)) (map (map Some) ws) (Some (map length ws)) h w
      = Some (hp_next h, c\<lparr>cx_obuf := ob', cx_reader := Some r'\<rparr>, h', w2)"
    unfolding redisCommandArgv_def f Option.bind.bind_lunit prod.case sz redisCommandRaw_def ob(1)
    using g(1) assms(1) by (simp add: ctx_ready_def)
  then show ?thesis using g by blast
qed

text \<open>A system that accepts at most three bytes per call and delivers a given list of pieces.\<close>

definition script_os :: "(string list \<times> string) os_api" where
  "script_os = \<lparr>os_socket = (\<lambda>t w. (Some 100, w)), os_setsockopt = (\<lambda>s o' w. (True, w)), os_ioctlsocket = (\<lambda>s b w. (True, w)),
     os_closesocket = (\<lambda>s w. w), os_inet_addr = (\<lambda>a. 16777343), os_gethostbyname = (\<lambda>a w. (None, w)),
     os_connect = (\<lambda>s a p w. (True, w)), os_select = (\<lambda>s t w. ((True, True), w)), os_sockerr = (\<lambda>s w. (Some 0, w)),
     os_recv = (\<lambda>s n w. case fst (sy_world w) of [] \<Rightarrow> (RecvClosed, w)
       | x # xs \<Rightarrow> (RecvData x, w\<lparr>sy_world := (xs, snd (sy_world w))\<rparr>)),
     os_send = (\<lambda>s x w. (Sent (min 3 (length x)), w\<lparr>sy_world := (fst (sy_world w), snd (sy_world w) @ take 3 x)\<rparr>)),
     os_lasterror = (\<lambda>w. 0), os_strerror = (\<lambda>e. ''error'')\<rparr>"

lemma script_drains: "drains script_os fd s \<lparr>sy_errno = e, sy_world = (xs, out)\<rparr> \<lparr>sy_errno = e, sy_world = (xs, out @ s)\<rparr>"
proof (induction "length s" arbitrary: s out rule: less_induct)
  case less
  show ?case
  proof (cases "s = []")
    case True
    then show ?thesis by (simp add: drains.drained)
  next
    case False
    have d: "drop (min 3 (length s)) s = drop 3 s" by (cases "length s \<le> 3") simp_all
    have "drains script_os fd (drop 3 s) \<lparr>sy_errno = e, sy_world = (xs, out @ take 3 s)\<rparr>
        \<lparr>sy_errno = e, sy_world = (xs, (out @ take 3 s) @ drop 3 s)\<rparr>"
      using False by (intro less) (cases s, simp_all)
    then show ?thesis
      by (intro drains.portion [OF False, of _ _ _ "min 3 (length s)" "\<lparr>sy_errno = e, sy_world = (xs, out @ take 3 s)\<rparr>"])
        (simp_all add: script_os_def d)
  qed
qed

lemma script_delivers:
  "\<forall>x\<in>set xs. x \<noteq> [] \<Longrightarrow>
   delivers script_os fd xs \<lparr>sy_errno = e, sy_world = (xs, out)\<rparr> \<lparr>sy_errno = e, sy_world = ([], out)\<rparr>"
  by (induction xs) (auto simp: script_os_def intro: delivers.intros)

theorem command_completes_witness:
  "\<exists>ob r' h'. redisCommandArgv script_os blank_context 2 [map Some ''GET'', map Some ''k''] (Some [3, 1]) empty_heap
      \<lparr>sy_errno = 0, sy_world = ([''$2'' @ [CR], LF # ''hi'', CRLF], [])\<rparr>
    = Some (16, blank_context\<lparr>cx_obuf := ob, cx_reader := Some r'\<rparr>, h', \<lparr>sy_errno = 0, sy_world = ([], enc_cmd [''GET'', ''k''])\<rparr>) \<and>
    sds_str ob = [] \<and> reply_added empty_heap h' (RString ''hi'')"
proof -
  let ?ws = "[''GET'', ''k'']" and ?v = "RString ''hi''" and ?xs = "[''$2'' @ [CR], LF # ''hi'', CRLF]"
  have e: "concat ?xs = enc ?v" by code_simp
  have small: "length (enc ?v) = 8" "length (enc_cmd ?ws) = 20" by code_simp+
  have rdy: "ctx_ready blank_context (length (enc ?v))"
    unfolding small by (simp add: ctx_ready_def blank_context_def REDIS_BLOCK_def INT_MAX_def)
  have p: "sds_str (cx_obuf blank_context) = []" by (simp add: blank_context_def)
  have room: "(length ([] :: string) + length (enc_cmd ?ws)) * 2 \<le> nat INT_MAX" unfolding small by (simp add: INT_MAX_def)
  have h: "0 < hp_next empty_heap" "hp_next empty_heap = 16" by (simp_all add: empty_heap_def)
  have dr: "drains script_os (cx_fd blank_context) ([] @ enc_cmd ?ws) \<lparr>sy_errno = 0, sy_world = (?xs, [])\<rparr>
      \<lparr>sy_errno = 0, sy_world = (?xs, enc_cmd ?ws)\<rparr>"
    using script_drains [of _ "enc_cmd ?ws" 0 ?xs "[]"] by (simp del: enc.simps)
  have de: "delivers script_os (cx_fd blank_context) ?xs \<lparr>sy_errno = 0, sy_world = (?xs, enc_cmd ?ws)\<rparr>
      \<lparr>sy_errno = 0, sy_world = ([], enc_cmd ?ws)\<rparr>"
    by (rule script_delivers) simp
  have args: "int (length ?ws) = 2" "map (map Some) ?ws = [map Some ''GET'', map Some ''k'']" "map length ?ws = [3, 1]" by simp_all
  have s: "sendable 8 ?v" by simp
  show ?thesis using command_completes [OF rdy p room s h(1) dr de e] unfolding args h(2) by auto
qed

section \<open>Every branch of input and output\<close>

text \<open>
  The output buffer is a queue of bytes: whatever the system does with the call,
  \<open>redisBufferWrite\<close> removes exactly the bytes that were accepted and keeps the others in order,
  reports completion exactly when nothing is left, and on an error other than \<open>EAGAIN\<close> on a
  non-blocking context keeps all bytes and records the error.
\<close>

lemma buffer_write_queue:
  assumes "sds_wf (cx_obuf c)" and "os_ok os"
    and "\<And>n w1. os_send os (cx_fd c) (sds_str (cx_obuf c)) w = (Sent n, w1) \<Longrightarrow> n \<le> length (sds_str (cx_obuf c))"
  shows "\<exists>st wdone c' w'. redisBufferWrite os c w = Some (st, wdone, c', w') \<and> sds_wf (cx_obuf c') \<and>
    (case os_send os (cx_fd c) (sds_str (cx_obuf c)) w of
       (Sent n, w1) \<Rightarrow> st = REDIS_OK \<and> c' = c\<lparr>cx_obuf := cx_obuf c'\<rparr> \<and> sds_str (cx_obuf c) = take n (sds_str (cx_obuf c)) @ sds_str (cx_obuf c')
     | (SendError, w1) \<Rightarrow> cx_obuf c' = cx_obuf c \<and> (sds_str (cx_obuf c) = [] \<or>
         (if sy_errno (socket_errno os w1) = EAGAIN \<and> cx_flags c AND REDIS_BLOCK = 0 then st = REDIS_OK \<and> c' = c
          else st = REDIS_ERR \<and> failed c c'))) \<and>
    (st = REDIS_OK \<longrightarrow> wdone = (sds_str (cx_obuf c') = []))"
proof (cases "sds_str (cx_obuf c) = []")
  case True
  then show ?thesis using buffer_write_empty [OF assms(1) True, of os w] assms(1)
    by (auto split: prod.split send_result.split)
next
  case ne: False
  obtain sr w1 where sr: "os_send os (cx_fd c) (sds_str (cx_obuf c)) w = (sr, w1)" by fastforce
  show ?thesis
  proof (cases sr)
    case (Sent n)
    then have n: "n \<le> length (sds_str (cx_obuf c))" using assms(3) sr by simp
    obtain ob where ob: "redisBufferWrite os c w = Some (REDIS_OK, sds_str ob = [], c\<lparr>cx_obuf := ob\<rparr>, w1)" "sds_wf ob"
        "sds_str ob = drop n (sds_str (cx_obuf c))"
      using buffer_write_sent [OF assms(1) ne _ n, of os w w1] sr Sent by blast
    then show ?thesis using sr Sent by (rule_tac x = REDIS_OK in exI, rule_tac x = "sds_str ob = []" in exI,
      rule_tac x = "c\<lparr>cx_obuf := ob\<rparr>" in exI, rule_tac x = w1 in exI) simp
  next
    case SendError
    have len: "0 < sdslen (cx_obuf c)" "sdslen (cx_obuf c) \<noteq> 0" using ne sdslen_wf [OF assms(1)] by simp_all
    obtain c' where c': "redisSetError os c REDIS_ERR_IO None (socket_errno os w1) = Some c'" "failed c c'"
      using set_error_errno [OF assms(2)] by blast
    show ?thesis
      using sr SendError len c' ne assms(1) failed_sel [OF c'(2)]
      by (auto simp: redisBufferWrite_def obuf_bytes_wf Let_def REDIS_OK_def REDIS_ERR_def)
  qed
qed

text \<open>
  Every branch of reading from the socket: data goes to the reader; the end of the stream
  is an \<open>REDIS_ERR_EOF\<close> error with its description; a failure is an \<open>REDIS_ERR_IO\<close> error except for
  \<open>EAGAIN\<close> on a non-blocking context, which changes nothing.
\<close>

lemma buffer_read_branches:
  assumes "os_ok os"
  shows "\<exists>r. (case os_recv os (cx_fd c) 2048 w of
       (RecvData x, w1) \<Rightarrow> redisBufferRead os c w = (feed_reader c (map Some x) (length x) \<bind> (\<lambda>c'. Some (REDIS_OK, c', w1)))
     | (RecvClosed, w1) \<Rightarrow> redisBufferRead os c w = Some (REDIS_ERR, r, w1) \<and> failed c r \<and> cx_err r = REDIS_ERR_EOF \<and>
         (\<exists>e. cx_errstr r = Some e \<and> sds_str e = ''Server closed the connection'')
     | (RecvError, w1) \<Rightarrow>
         if sy_errno (socket_errno os w1) = EAGAIN \<and> cx_flags c AND REDIS_BLOCK = 0
         then redisBufferRead os c w = Some (REDIS_OK, c, socket_errno os w1)
         else redisBufferRead os c w = Some (REDIS_ERR, r, socket_errno os w1) \<and> failed c r \<and> cx_err r = REDIS_ERR_IO)"
proof -
  obtain rr w1 where rr: "os_recv os (cx_fd c) 2048 w = (rr, w1)" by fastforce
  show ?thesis
  proof (cases rr)
    case RecvError
    then show ?thesis using rr set_error_errno [OF assms, of c "socket_errno os w1"]
      by (auto simp: redisBufferRead_def Let_def)
  next
    case RecvClosed
    have e: "sdsnew (Some (c_literal ''Server closed the connection'')) = Some (sds_of ''Server closed the connection'' [])"
      by (rule sdsnew_literal) (simp_all add: INT_MAX_def)
    have "failed c (c\<lparr>cx_err := REDIS_ERR_EOF, cx_errstr := Some (sds_of ''Server closed the connection'' [])\<rparr>)"
      by (rule failedI) (simp_all add: err_types INT_MAX_def)
    then show ?thesis using rr RecvClosed by (simp add: redisBufferRead_def set_eof_def e redisSetError_def)
  next
    case (RecvData x)
    then show ?thesis using rr by (simp add: redisBufferRead_def)
  qed
qed

end
