(* ===== verification/Fifo.thy ===== *)
theory Fifo
  imports MmsPrelude
begin

text \<open>
  The contract of first-in first-out queues, which the callback lists of the Redis client and the
  queues between the server's threads provide.
\<close>

text \<open>
  A first-in first-out queue whose operations may fault, with its invariant and the list of its
  items.
\<close>

locale fifo =
  fixes inv :: "'q \<Rightarrow> bool" and items :: "'q \<Rightarrow> 'a list"
    and push :: "'a \<Rightarrow> 'q \<Rightarrow> 'q option" and shift :: "'q \<Rightarrow> ('a option \<times> 'q) option"
  assumes push_law: "inv q \<Longrightarrow> \<exists>q'. push x q = Some q' \<and> inv q' \<and> items q' = items q @ [x]"
    and shift_nil: "inv q \<Longrightarrow> items q = [] \<Longrightarrow> shift q = Some (None, q)"
    and shift_cons: "inv q \<Longrightarrow> items q = x # xs \<Longrightarrow> \<exists>q'. shift q = Some (Some x, q') \<and> inv q' \<and> items q' = xs"
begin

lemma shift_law:
  assumes "inv q"
  shows "\<exists>r q'. shift q = Some (r, q') \<and> inv q' \<and>
    (case r of None \<Rightarrow> items q = [] \<and> q' = q | Some x \<Rightarrow> items q = x # items q')"
  using shift_nil [OF assms] shift_cons [OF assms] assms by (cases "items q") fastforce+

fun push_all :: "'a list \<Rightarrow> 'q \<Rightarrow> 'q option" where
  "push_all [] q = Some q"
| "push_all (x # xs) q = do { q \<leftarrow> push x q; push_all xs q }"

fun shift_all :: "nat \<Rightarrow> 'q \<Rightarrow> ('a list \<times> 'q) option" where
  "shift_all 0 q = Some ([], q)"
| "shift_all (Suc n) q = do {
     (r, q) \<leftarrow> shift q;
     x \<leftarrow> r;
     (xs, q) \<leftarrow> shift_all n q;
     Some (x # xs, q) }"

lemma push_all_law: "inv q \<Longrightarrow> \<exists>q'. push_all xs q = Some q' \<and> inv q' \<and> items q' = items q @ xs"
proof (induction xs arbitrary: q)
  case (Cons x xs)
  obtain q1 where q1: "push x q = Some q1" "inv q1" "items q1 = items q @ [x]" using push_law [OF Cons.prems] by blast
  then show ?case using Cons.IH [OF q1(2)] by auto
qed simp

lemma shift_all_law:
  "inv q \<Longrightarrow> items q = xs @ ys \<Longrightarrow> \<exists>q'. shift_all (length xs) q = Some (xs, q') \<and> inv q' \<and> items q' = ys"
proof (induction xs arbitrary: q)
  case (Cons x xs)
  then obtain q1 where q1: "shift q = Some (Some x, q1)" "inv q1" "items q1 = xs @ ys"
    using shift_cons [OF Cons.prems(1), of x "xs @ ys"] by auto
  then show ?case using Cons.IH [OF q1(2,3)] by auto
qed simp

lemma fifo_order:
  assumes "inv q" and "items q = []"
  shows "\<exists>q1 q2. push_all xs q = Some q1 \<and> shift_all (length xs) q1 = Some (xs, q2) \<and> inv q2 \<and> items q2 = []"
proof -
  obtain q1 where q1: "push_all xs q = Some q1" "inv q1" "items q1 = items q @ xs" using push_all_law [OF assms(1)] by blast
  then show ?thesis using shift_all_law [OF q1(2), of xs "[]"] assms(2) by auto
qed

end

end
