(* ===== verification/CallbackQueue.thy ===== *)
theory CallbackQueue
  imports CallbackDict Reader Fifo
begin

text \<open>
  The singly linked callback lists of \<open>win32/hiredis/async.c\<close>, with head and tail pointers, and the
  first-in first-out contract the asynchronous client relies on. Each list owns its nodes, which live
  in a store of their own; a pointer is a natural number and NULL is 0.
\<close>

section \<open>The lists\<close>

record redisCallbackList =
  cl_head :: nat
  cl_tail :: nat
  cl_nodes :: "nat \<Rightarrow> (redisCallback \<times> nat) option"
  cl_fresh :: nat

text \<open>An empty list, as \<open>redisAsyncInitialize\<close> sets it up.\<close>

definition empty_list :: redisCallbackList where
  "empty_list = \<lparr>cl_head = 0, cl_tail = 0, cl_nodes = (\<lambda>p. None), cl_fresh = 1\<rparr>"

text \<open>\<open>__redisPushCallback\<close>; every caller passes a source.\<close>

definition redisPushCallback :: "redisCallback \<Rightarrow> redisCallbackList \<Rightarrow> redisCallbackList option" where
  "redisPushCallback source list = do {
     let cb = cl_fresh list;
     let list = list\<lparr>cl_nodes := (cl_nodes list)(cb \<mapsto> (source, 0)), cl_fresh := cb + 1\<rparr>;
     let list = (if cl_head list = 0 then list\<lparr>cl_head := cb\<rparr> else list);
     list \<leftarrow> (if cl_tail list \<noteq> 0 then do {
                 (t, nx) \<leftarrow> cl_nodes list (cl_tail list);
                 Some (list\<lparr>cl_nodes := (cl_nodes list)(cl_tail list \<mapsto> (t, cb))\<rparr>) }
               else Some list);
     Some (list\<lparr>cl_tail := cb\<rparr>) }"

text \<open>\<open>__redisShiftCallback\<close>: the status is \<open>REDIS_OK\<close> exactly when there is a callback.\<close>

definition redisShiftCallback :: "redisCallbackList \<Rightarrow> (redisCallback option \<times> redisCallbackList) option" where
  "redisShiftCallback list =
     (let cb = cl_head list
      in if cb \<noteq> 0 then do {
           (target, nx) \<leftarrow> cl_nodes list cb;
           let list = list\<lparr>cl_head := nx\<rparr>;
           let list = (if cb = cl_tail list then list\<lparr>cl_tail := 0\<rparr> else list);
           Some (Some target, list\<lparr>cl_nodes := (cl_nodes list)(cb := None)\<rparr>) }
         else Some (None, list))"

section \<open>Linked lists are queues\<close>

text \<open>The nodes \<open>ps\<close> are linked in this order and hold the callbacks \<open>cs\<close>.\<close>

fun chain :: "(nat \<Rightarrow> (redisCallback \<times> nat) option) \<Rightarrow> nat \<Rightarrow> nat list \<Rightarrow> redisCallback list \<Rightarrow> bool" where
  "chain m p [] cs \<longleftrightarrow> p = 0 \<and> cs = []"
| "chain m p (a # as) cs \<longleftrightarrow> p = a \<and> a \<noteq> 0 \<and>
     (\<exists>c nx cs'. m a = Some (c, nx) \<and> cs = c # cs' \<and> chain m nx as cs')"

definition cl_rep :: "redisCallbackList \<Rightarrow> nat list \<Rightarrow> redisCallback list \<Rightarrow> bool" where
  "cl_rep q ps cs \<longleftrightarrow> chain (cl_nodes q) (cl_head q) ps cs \<and> distinct ps \<and> cl_tail q = (if ps = [] then 0 else last ps) \<and>
     0 < cl_fresh q \<and> (\<forall>p\<in>set ps. p < cl_fresh q)"

definition cl_inv :: "redisCallbackList \<Rightarrow> bool" where
  "cl_inv q \<longleftrightarrow> (\<exists>ps cs. cl_rep q ps cs)"

text \<open>The callbacks of a list, by following the links.\<close>

fun follow :: "nat \<Rightarrow> (nat \<Rightarrow> (redisCallback \<times> nat) option) \<Rightarrow> nat \<Rightarrow> redisCallback list" where
  "follow 0 m p = []"
| "follow (Suc n) m p =
     (if p = 0 then [] else case m p of None \<Rightarrow> [] | Some (c, nx) \<Rightarrow> c # follow n m nx)"

definition cl_items :: "redisCallbackList \<Rightarrow> redisCallback list" where
  "cl_items q = follow (cl_fresh q) (cl_nodes q) (cl_head q)"

lemma follow_chain: "chain m p as cs \<Longrightarrow> length as \<le> n \<Longrightarrow> follow n m p = cs"
proof (induction as arbitrary: p cs n)
  case Nil
  then show ?case by (cases n) auto
next
  case (Cons a as)
  then show ?case by (cases n) auto
qed

lemma cl_items_eq: "cl_rep q ps cs \<Longrightarrow> cl_items q = cs"
proof -
  assume r: "cl_rep q ps cs"
  have "length ps = card (set ps)" using r by (simp add: cl_rep_def distinct_card)
  also have "\<dots> \<le> card {..<cl_fresh q}" using r by (intro card_mono) (auto simp: cl_rep_def)
  finally show ?thesis using r by (auto simp: cl_items_def cl_rep_def intro: follow_chain)
qed

lemma chain_nonzero: "chain m p as cs \<Longrightarrow> 0 \<notin> set as"
  by (induction as arbitrary: p cs) auto

lemma chain_frame: "chain m p as cs \<Longrightarrow> (\<And>a. a \<in> set as \<Longrightarrow> m' a = m a) \<Longrightarrow> chain m' p as cs"
  by (induction as arbitrary: p cs) auto

lemma chain_snoc:
  assumes "chain m p as cs" and "distinct as" and "b \<notin> set as" and "b \<noteq> 0" and "m b = Some (x, 0)" and "as \<noteq> []"
  shows "\<exists>c. m (last as) = Some (c, 0) \<and> chain (m(last as \<mapsto> (c, b))) p (as @ [b]) (cs @ [x])"
  using assms
proof (induction as arbitrary: p cs)
  case (Cons a as)
  obtain c nx cs' where c: "p = a" "a \<noteq> 0" "m a = Some (c, nx)" "cs = c # cs'" "chain m nx as cs'"
    using Cons.prems(1) by auto
  show ?case
  proof (cases "as = []")
    case True
    then show ?thesis using c Cons.prems by auto
  next
    case False
    obtain d where d: "m (last as) = Some (d, 0)" "chain (m(last as \<mapsto> (d, b))) nx (as @ [b]) (cs' @ [x])"
      using Cons.IH [OF c(5)] Cons.prems(2-5) False by (metis distinct.simps(2) list.set_intros(2))
    have "a \<noteq> last as" using Cons.prems(2) False by auto
    then show ?thesis using c d False by (auto simp: fun_upd_def)
  qed
qed simp

lemma push_rep:
  assumes "cl_rep q ps cs"
  shows "\<exists>q'. redisPushCallback x q = Some q' \<and> cl_rep q' (ps @ [cl_fresh q]) (cs @ [x])"
proof -
  let ?b = "cl_fresh q" and ?m = "(cl_nodes q)(cl_fresh q \<mapsto> (x, 0))"
  have r: "chain (cl_nodes q) (cl_head q) ps cs" "distinct ps" "cl_tail q = (if ps = [] then 0 else last ps)" "0 < ?b"
    "\<forall>p\<in>set ps. p < ?b" using assms by (simp_all add: cl_rep_def)
  have nb: "?b \<notin> set ps" using r(5) by auto
  have ch: "chain ?m (cl_head q) ps cs" using r(1) nb by (auto intro: chain_frame)
  show ?thesis
  proof (cases "ps = []")
    case True
    then show ?thesis using r ch by (auto simp: redisPushCallback_def cl_rep_def Let_def)
  next
    case False
    have h0: "cl_head q \<noteq> 0" using r(1) False by (cases ps) auto
    have l0: "last ps \<noteq> 0" using chain_nonzero [OF r(1)] False by (metis last_in_set)
    obtain c where c: "?m (last ps) = Some (c, 0)" "chain (?m(last ps \<mapsto> (c, ?b))) (cl_head q) (ps @ [?b]) (cs @ [x])"
      using chain_snoc [OF ch r(2) nb] r(4) False by auto
    then show ?thesis using r nb h0 l0 False by (auto simp: redisPushCallback_def cl_rep_def Let_def)
  qed
qed

lemma shift_rep:
  assumes "cl_rep q (p # ps) (c # cs)"
  shows "\<exists>q'. redisShiftCallback q = Some (Some c, q') \<and> cl_rep q' ps cs"
proof -
  obtain nx where n: "cl_head q = p" "p \<noteq> 0" "cl_nodes q p = Some (c, nx)" "chain (cl_nodes q) nx ps cs"
    using assms by (auto simp: cl_rep_def)
  have d: "p \<notin> set ps" "distinct ps" "0 < cl_fresh q" "\<forall>a\<in>set ps. a < cl_fresh q" "cl_tail q = last (p # ps)"
    using assms by (auto simp: cl_rep_def)
  have "chain ((cl_nodes q)(p := None)) nx ps cs" using n(4) d(1) by (auto intro: chain_frame)
  moreover have "(p = cl_tail q) = (ps = [])" using d(1,5) by (auto split: if_splits)
  ultimately show ?thesis using n d by (auto simp: redisShiftCallback_def cl_rep_def Let_def)
qed

interpretation cl: fifo cl_inv cl_items redisPushCallback redisShiftCallback
proof unfold_locales
  fix q x
  assume "cl_inv q"
  then obtain ps cs where r: "cl_rep q ps cs" by (auto simp: cl_inv_def)
  then show "\<exists>q'. redisPushCallback x q = Some q' \<and> cl_inv q' \<and> cl_items q' = cl_items q @ [x]"
    using push_rep [OF r, of x] cl_items_eq unfolding cl_inv_def by metis
next
  fix q
  assume "cl_inv q" "cl_items q = []"
  then obtain ps where "cl_rep q ps []" by (auto simp: cl_inv_def cl_items_eq)
  then have "cl_head q = 0" by (cases ps) (auto simp: cl_rep_def)
  then show "redisShiftCallback q = Some (None, q)" by (simp add: redisShiftCallback_def)
next
  fix q x xs
  assume "cl_inv q" "cl_items q = x # xs"
  then obtain ps where r: "cl_rep q ps (x # xs)" by (auto simp: cl_inv_def cl_items_eq)
  then obtain p ps' where "ps = p # ps'" by (cases ps) (auto simp: cl_rep_def)
  then show "\<exists>q'. redisShiftCallback q = Some (Some x, q') \<and> cl_inv q' \<and> cl_items q' = xs"
    using shift_rep [of q p ps' x xs] r cl_items_eq unfolding cl_inv_def by metis
qed

lemma empty_list_ok [simp]: "cl_inv empty_list" "cl_items empty_list = []"
proof -
  have "cl_rep empty_list [] []" by (simp add: cl_rep_def empty_list_def)
  then show "cl_inv empty_list" "cl_items empty_list = []" by (auto simp: cl_inv_def cl_items_eq)
qed

lemma cl_head_empty: "cl_inv q \<Longrightarrow> cl_head q = 0 \<longleftrightarrow> cl_items q = []"
proof -
  assume "cl_inv q"
  then obtain ps cs where r: "cl_rep q ps cs" by (auto simp: cl_inv_def)
  then show ?thesis using cl_items_eq [OF r] by (cases ps) (auto simp: cl_rep_def)
qed

end
