(* ===== verification/Async.thy ===== *)
theory Async
  imports CallbackQueue Context
begin

text \<open>
  The asynchronous client of \<open>win32/hiredis/async.c\<close>: callbacks waiting for replies in order,
  dictionaries of subscriptions, clean and unclean disconnecting, deferred freeing.

  The context is freed at the end of its life; a function that may free it returns \<^const>\<open>None\<close> in
  its place. The store of reply objects, the state of the system and the record of what happened
  (hooks of the event library, callbacks run, in order) form the surroundings. A user's callback is
  a parameter: a function from its address, the reply, the caller's pointer and the store to the
  calls it makes on its context.
\<close>

section \<open>Data\<close>

record event_hooks =
  ev_data :: nat
  ev_addRead :: bool
  ev_delRead :: bool
  ev_addWrite :: bool
  ev_delWrite :: bool
  ev_cleanup :: bool

record redisAsyncContext =
  ac_c :: redisContext
  ac_err :: int
  ac_errstr :: "sdshdr option"
  ac_data :: nat
  ac_ev :: event_hooks
  ac_onDisconnect :: "nat option"
  ac_onConnect :: "nat option"
  ac_replies :: redisCallbackList
  ac_invalid :: redisCallbackList
  ac_channels :: cbdict
  ac_patterns :: cbdict

datatype async_event =
    AddRead nat | DelRead nat | AddWrite nat | DelWrite nat | Cleanup nat
  | Callback nat nat nat | OnConnect nat | OnDisconnect nat int

record 'w surroundings =
  su_heap :: reply_heap
  su_sys :: "'w sys"
  su_log :: "async_event list"

definition record_event :: "async_event \<Rightarrow> 'w surroundings \<Rightarrow> 'w surroundings" where
  "record_event e s = s\<lparr>su_log := su_log s @ [e]\<rparr>"

definition has_flag :: "redisAsyncContext \<Rightarrow> int \<Rightarrow> bool" where
  "has_flag ac f \<longleftrightarrow> cx_flags (ac_c ac) AND f \<noteq> 0"

definition set_flag :: "int \<Rightarrow> redisAsyncContext \<Rightarrow> redisAsyncContext" where
  "set_flag f ac = ac\<lparr>ac_c := (ac_c ac)\<lparr>cx_flags := cx_flags (ac_c ac) OR f\<rparr>\<rparr>"

definition clear_flag :: "int \<Rightarrow> redisAsyncContext \<Rightarrow> redisAsyncContext" where
  "clear_flag f ac = ac\<lparr>ac_c := (ac_c ac)\<lparr>cx_flags := cx_flags (ac_c ac) AND NOT f\<rparr>\<rparr>"

section \<open>Setting up\<close>

definition no_hooks :: event_hooks where
  "no_hooks = \<lparr>ev_data = 0, ev_addRead = False, ev_delRead = False, ev_addWrite = False, ev_delWrite = False, ev_cleanup = False\<rparr>"

definition redisAsyncInitialize :: "redisContext \<Rightarrow> redisAsyncContext" where
  "redisAsyncInitialize c =
     \<lparr>ac_c = c\<lparr>cx_flags := cx_flags c AND NOT REDIS_CONNECTED\<rparr>, ac_err = 0, ac_errstr = None, ac_data = 0, ac_ev = no_hooks,
      ac_onDisconnect = None, ac_onConnect = None, ac_replies = empty_list, ac_invalid = empty_list,
      ac_channels = dictCreate callbackDict, ac_patterns = dictCreate callbackDict\<rparr>"

definition redisAsyncCopyError :: "redisAsyncContext \<Rightarrow> redisAsyncContext" where
  "redisAsyncCopyError ac = ac\<lparr>ac_err := cx_err (ac_c ac), ac_errstr := cx_errstr (ac_c ac)\<rparr>"

definition redisAsyncConnect :: "'w os_api \<Rightarrow> string \<Rightarrow> int \<Rightarrow> 'w sys \<Rightarrow> (redisAsyncContext \<times> 'w sys) option" where
  "redisAsyncConnect os ip port w = do {
     (c, w) \<leftarrow> redisConnectNonBlock os ip port w;
     Some (redisAsyncCopyError (redisAsyncInitialize c), w) }"

definition redisAsyncConnectUnix :: "'w os_api \<Rightarrow> string \<Rightarrow> 'w sys \<Rightarrow> (redisAsyncContext \<times> 'w sys) option" where
  "redisAsyncConnectUnix os path w = do {
     (c, w) \<leftarrow> redisConnectUnixNonBlock os path w;
     Some (redisAsyncCopyError (redisAsyncInitialize c), w) }"

definition redisAsyncSetReplyObjectFunctions :: "redisAsyncContext \<Rightarrow> redisReplyObjectFunctions option \<Rightarrow> int \<times> redisAsyncContext" where
  "redisAsyncSetReplyObjectFunctions ac fn =
     (let (st, c) = redisSetReplyObjectFunctions (ac_c ac) fn in (st, ac\<lparr>ac_c := c\<rparr>))"

text \<open>The hooks, called when they are set.\<close>

definition call_addRead :: "redisAsyncContext \<Rightarrow> 'w surroundings \<Rightarrow> 'w surroundings" where
  "call_addRead ac s = (if ev_addRead (ac_ev ac) then record_event (AddRead (ev_data (ac_ev ac))) s else s)"

definition call_addWrite :: "redisAsyncContext \<Rightarrow> 'w surroundings \<Rightarrow> 'w surroundings" where
  "call_addWrite ac s = (if ev_addWrite (ac_ev ac) then record_event (AddWrite (ev_data (ac_ev ac))) s else s)"

definition call_delWrite :: "redisAsyncContext \<Rightarrow> 'w surroundings \<Rightarrow> 'w surroundings" where
  "call_delWrite ac s = (if ev_delWrite (ac_ev ac) then record_event (DelWrite (ev_data (ac_ev ac))) s else s)"

definition call_cleanup :: "redisAsyncContext \<Rightarrow> 'w surroundings \<Rightarrow> 'w surroundings" where
  "call_cleanup ac s = (if ev_cleanup (ac_ev ac) then record_event (Cleanup (ev_data (ac_ev ac))) s else s)"

definition redisAsyncSetConnectCallback :: "redisAsyncContext \<Rightarrow> nat \<Rightarrow> 'w surroundings
    \<Rightarrow> int \<times> redisAsyncContext \<times> 'w surroundings" where
  "redisAsyncSetConnectCallback ac fn s =
     (if ac_onConnect ac = None
      then (REDIS_OK, ac\<lparr>ac_onConnect := Some fn\<rparr>, call_addWrite ac s)
      else (REDIS_ERR, ac, s))"

definition redisAsyncSetDisconnectCallback :: "redisAsyncContext \<Rightarrow> nat \<Rightarrow> int \<times> redisAsyncContext" where
  "redisAsyncSetDisconnectCallback ac fn =
     (if ac_onDisconnect ac = None then (REDIS_OK, ac\<lparr>ac_onDisconnect := Some fn\<rparr>) else (REDIS_ERR, ac))"

section \<open>Commands\<close>

text \<open>\<open>strchr\<close>: the distance to the first \<open>x\<close> before the end of the string.\<close>

fun strchr :: "mem \<Rightarrow> char \<Rightarrow> nat option option" where
  "strchr [] x = None"
| "strchr (None # m) x = None"
| "strchr (Some c # m) x =
     (if c = x then Some (Some 0) else if c = NUL then Some None else map_option (map_option Suc) (strchr m x))"

text \<open>\<open>strtol(\<dots>, NULL, 10)\<close> with a \<open>long\<close> of 32 bits: white space, a sign, digits; out of range it
  yields the nearest bound.\<close>

fun digits_value :: "mem \<Rightarrow> nat \<Rightarrow> nat option" where
  "digits_value [] v = None"
| "digits_value (None # m) v = None"
| "digits_value (Some c # m) v = (if is_digit c then digits_value m (v * 10 + (of_char c - 48)) else Some v)"

fun strtol :: "mem \<Rightarrow> int option" where
  "strtol [] = None"
| "strtol (None # m) = None"
| "strtol (Some c # m) =
     (if is_space c then strtol m
      else do {
        v \<leftarrow> (if c = CHR ''-'' then map_option (\<lambda>n. - int n) (digits_value m 0)
             else if c = CHR ''+'' then map_option int (digits_value m 0)
             else map_option int (digits_value (Some c # m) 0));
        Some (max (- 2147483648) (min 2147483647 v)) })"

text \<open>\<open>strncasecmp(m, lit, n) == 0\<close> for a literal without NUL before its end.\<close>

fun strncase_eq :: "mem \<Rightarrow> string \<Rightarrow> bool option" where
  "strncase_eq m [] = Some True"
| "strncase_eq (Some c # m) (d # lit) = (if to_lower c = to_lower d then strncase_eq m lit else Some False)"
| "strncase_eq m (d # lit) = None"

text \<open>\<open>nextArgument\<close> at position \<open>start\<close> of the command: the position of the argument, its length and
  the position behind it, which has to be inside the command or at its end.\<close>

definition nextArgument :: "mem \<Rightarrow> nat \<Rightarrow> (nat \<times> nat \<times> nat) option option" where
  "nextArgument cmd start = do {
     c \<leftarrow> mem_get cmd start;
     d \<leftarrow> (if c \<noteq> CHR ''$'' then strchr (drop start cmd) (CHR ''$'') else Some (Some 0));
     (case d of
        None \<Rightarrow> Some None
      | Some d \<Rightarrow> do {
          let p = start + d;
          l \<leftarrow> strtol (drop (p + 1) cmd);
          e \<leftarrow> strchr (drop p cmd) CR;
          e \<leftarrow> e;
          let p = p + e;
          assert_c (0 \<le> int p + 2 + l + 2 \<and> int p + 2 + l + 2 \<le> int (length cmd));
          Some (Some (p + 2, c_size_t (c_int l), nat (int p + 2 + l + 2))) }) }"

text \<open>Every channel or pattern is added to the dictionary, under a copy of its name.\<close>

partial_function (option) subscribe_loop :: "mem \<Rightarrow> nat \<Rightarrow> redisCallback \<Rightarrow> cbdict \<Rightarrow> cbdict option" where
  "subscribe_loop cmd p cb d = do {
     a \<leftarrow> nextArgument cmd p;
     (case a of
        None \<Rightarrow> Some d
      | Some (astr, alen, p) \<Rightarrow> do {
          sname \<leftarrow> sdsnewlen (Some (drop astr cmd)) alen;
          (n, d, frees) \<leftarrow> dictReplace d sname cb;
          subscribe_loop cmd p cb d }) }"

text \<open>\<open>__redisAsyncCommand\<close>\<close>

definition redisAsyncCommandRaw :: "redisAsyncContext \<Rightarrow> nat option \<Rightarrow> nat \<Rightarrow> mem \<Rightarrow> nat \<Rightarrow> 'w surroundings
    \<Rightarrow> (int \<times> redisAsyncContext \<times> 'w surroundings) option" where
  "redisAsyncCommandRaw ac fn privdata cmd len s =
     (if has_flag ac (REDIS_DISCONNECTING OR REDIS_FREEING) then Some (REDIS_ERR, ac, s)
      else do {
        let cb = \<lparr>cb_fn = fn, cb_privdata = privdata\<rparr>;
        a \<leftarrow> nextArgument cmd 0;
        (cstr, clen, p) \<leftarrow> a;
        c \<leftarrow> mem_get cmd p;
        let hasnext = (c = CHR ''$'');
        c \<leftarrow> mem_get cmd cstr;
        let pvariant = (to_lower c = CHR ''p'');
        let cstr = (if pvariant then cstr + 1 else cstr);
        sub \<leftarrow> (if hasnext then strncase_eq (drop cstr cmd) (''subscribe'' @ CRLF) else Some False);
        r \<leftarrow> (if sub then do {
                let ac = set_flag REDIS_SUBSCRIBED ac;
                d \<leftarrow> subscribe_loop cmd p cb (if pvariant then ac_patterns ac else ac_channels ac);
                Some (Some (if pvariant then ac\<lparr>ac_patterns := d\<rparr> else ac\<lparr>ac_channels := d\<rparr>)) }
              else do {
                unsub \<leftarrow> strncase_eq (drop cstr cmd) (''unsubscribe'' @ CRLF);
                if unsub then Some (if has_flag ac REDIS_SUBSCRIBED then Some ac else None)
                else if has_flag ac REDIS_SUBSCRIBED then do {
                  l \<leftarrow> redisPushCallback cb (ac_invalid ac);
                  Some (Some (ac\<lparr>ac_invalid := l\<rparr>)) }
                else do {
                  l \<leftarrow> redisPushCallback cb (ac_replies ac);
                  Some (Some (ac\<lparr>ac_replies := l\<rparr>)) } });
        (case r of
           None \<Rightarrow> Some (REDIS_ERR, ac, s)
         | Some ac \<Rightarrow> do {
             cx \<leftarrow> redisAppendCommandRaw (ac_c ac) cmd len;
             let ac = ac\<lparr>ac_c := cx\<rparr>;
             Some (REDIS_OK, ac, call_addWrite ac s) }) })"

definition redisvAsyncCommand :: "(string \<Rightarrow> va_args \<Rightarrow> string option) \<Rightarrow> redisAsyncContext \<Rightarrow> nat option \<Rightarrow> nat \<Rightarrow> mem \<Rightarrow> va_args
    \<Rightarrow> 'w surroundings \<Rightarrow> (int \<times> redisAsyncContext \<times> 'w surroundings) option" where
  "redisvAsyncCommand render ac fn privdata format ap s = do {
     (len, cmd) \<leftarrow> redisvFormatCommand True render format ap;
     cmd \<leftarrow> cmd;
     redisAsyncCommandRaw ac fn privdata cmd (c_size_t len) s }"

definition redisAsyncCommand :: "(string \<Rightarrow> va_args \<Rightarrow> string option) \<Rightarrow> redisAsyncContext \<Rightarrow> nat option \<Rightarrow> nat \<Rightarrow> mem \<Rightarrow> va_args
    \<Rightarrow> 'w surroundings \<Rightarrow> (int \<times> redisAsyncContext \<times> 'w surroundings) option" where
  "redisAsyncCommand render ac fn privdata format args s = redisvAsyncCommand render ac fn privdata format args s"

definition redisAsyncCommandArgv :: "redisAsyncContext \<Rightarrow> nat option \<Rightarrow> nat \<Rightarrow> int \<Rightarrow> mem list \<Rightarrow> nat list option
    \<Rightarrow> 'w surroundings \<Rightarrow> (int \<times> redisAsyncContext \<times> 'w surroundings) option" where
  "redisAsyncCommandArgv ac fn privdata argc argv argvlen s = do {
     (len, cmd) \<leftarrow> redisFormatCommandArgv argc argv argvlen;
     redisAsyncCommandRaw ac fn privdata cmd (c_size_t len) s }"

section \<open>Callbacks\<close>

text \<open>
  What a callback may do with its context: issue commands, disconnect, free. While it runs,
  \<open>REDIS_IN_CALLBACK\<close> is set, so that the last two only set their flag.
\<close>

datatype api_call =
    CommandArgv "nat option" nat int "mem list" "nat list option" | Disconnect | Free

type_synonym user_code = "nat \<Rightarrow> nat \<Rightarrow> nat \<Rightarrow> reply_heap \<Rightarrow> api_call list"

fun exec_calls :: "api_call list \<Rightarrow> redisAsyncContext \<Rightarrow> 'w surroundings \<Rightarrow> (redisAsyncContext \<times> 'w surroundings) option" where
  "exec_calls [] ac s = Some (ac, s)"
| "exec_calls (CommandArgv fn privdata argc argv argvlen # calls) ac s = do {
     (st, ac, s) \<leftarrow> redisAsyncCommandArgv ac fn privdata argc argv argvlen s;
     exec_calls calls ac s }"
| "exec_calls (Disconnect # calls) ac s = exec_calls calls (set_flag REDIS_DISCONNECTING ac) s"
| "exec_calls (Free # calls) ac s = exec_calls calls (set_flag REDIS_FREEING ac) s"

definition redisRunCallback :: "user_code \<Rightarrow> redisAsyncContext \<Rightarrow> redisCallback \<Rightarrow> nat \<Rightarrow> 'w surroundings
    \<Rightarrow> (redisAsyncContext \<times> 'w surroundings) option" where
  "redisRunCallback user ac cb reply s =
     (case cb_fn cb of
        None \<Rightarrow> Some (ac, s)
      | Some fn \<Rightarrow> do {
          let ac = set_flag REDIS_IN_CALLBACK ac;
          let s = record_event (Callback fn reply (cb_privdata cb)) s;
          (ac, s) \<leftarrow> exec_calls (user fn reply (cb_privdata cb) (su_heap s)) ac s;
          Some (clear_flag REDIS_IN_CALLBACK ac, s) })"

section \<open>Freeing and disconnecting\<close>

partial_function (option) run_replies :: "user_code \<Rightarrow> redisAsyncContext \<Rightarrow> 'w surroundings
    \<Rightarrow> (redisAsyncContext \<times> 'w surroundings) option" where
  "run_replies user ac s = do {
     (r, l) \<leftarrow> redisShiftCallback (ac_replies ac);
     let ac = ac\<lparr>ac_replies := l\<rparr>;
     (case r of
        None \<Rightarrow> Some (ac, s)
      | Some cb \<Rightarrow> do { (ac, s) \<leftarrow> redisRunCallback user ac cb 0 s; run_replies user ac s }) }"

partial_function (option) run_invalid :: "user_code \<Rightarrow> redisAsyncContext \<Rightarrow> 'w surroundings
    \<Rightarrow> (redisAsyncContext \<times> 'w surroundings) option" where
  "run_invalid user ac s = do {
     (r, l) \<leftarrow> redisShiftCallback (ac_invalid ac);
     let ac = ac\<lparr>ac_invalid := l\<rparr>;
     (case r of
        None \<Rightarrow> Some (ac, s)
      | Some cb \<Rightarrow> do { (ac, s) \<leftarrow> redisRunCallback user ac cb 0 s; run_invalid user ac s }) }"

text \<open>The iteration over one of the dictionaries, which the callbacks see as it is at the time.\<close>

partial_function (option) run_dict :: "user_code \<Rightarrow> (redisAsyncContext \<Rightarrow> cbdict) \<Rightarrow> (sdshdr, redisCallback) dictIterator
    \<Rightarrow> redisAsyncContext \<Rightarrow> 'w surroundings \<Rightarrow> (redisAsyncContext \<times> 'w surroundings) option" where
  "run_dict user sel it ac s = do {
     (de, it) \<leftarrow> dictNext (sel ac) it;
     (case de of
        None \<Rightarrow> Some (ac, s)
      | Some de \<Rightarrow> do { (ac, s) \<leftarrow> redisRunCallback user ac (snd de) 0 s; run_dict user sel it ac s }) }"

text \<open>\<open>__redisAsyncFree\<close>: what is left are the surroundings.\<close>

definition async_free :: "'w os_api \<Rightarrow> user_code \<Rightarrow> redisAsyncContext \<Rightarrow> 'w surroundings \<Rightarrow> 'w surroundings option" where
  "async_free os user ac s = do {
     (ac, s) \<leftarrow> run_replies user ac s;
     (ac, s) \<leftarrow> run_invalid user ac s;
     (ac, s) \<leftarrow> run_dict user ac_channels dictGetIterator ac s;
     frees \<leftarrow> dictRelease (ac_channels ac);
     (ac, s) \<leftarrow> run_dict user ac_patterns dictGetIterator ac s;
     frees \<leftarrow> dictRelease (ac_patterns ac);
     let s = call_cleanup ac s;
     let s = (case ac_onDisconnect ac of
                Some f \<Rightarrow>
                  if has_flag ac REDIS_CONNECTED then
                    if has_flag ac REDIS_FREEING then record_event (OnDisconnect f REDIS_OK) s
                    else record_event (OnDisconnect f (if ac_err ac = 0 then REDIS_OK else REDIS_ERR)) s
                  else s
              | None \<Rightarrow> s);
     (h, w) \<leftarrow> redisFree os (ac_c ac) (su_heap s) (su_sys s);
     Some (s\<lparr>su_heap := h, su_sys := w\<rparr>) }"

definition redisAsyncFree :: "'w os_api \<Rightarrow> user_code \<Rightarrow> redisAsyncContext \<Rightarrow> 'w surroundings
    \<Rightarrow> (redisAsyncContext option \<times> 'w surroundings) option" where
  "redisAsyncFree os user ac s = do {
     let ac = set_flag REDIS_FREEING ac;
     if \<not> has_flag ac REDIS_IN_CALLBACK then do { s \<leftarrow> async_free os user ac s; Some (None, s) }
     else Some (Some ac, s) }"

text \<open>\<open>__redisAsyncDisconnect\<close>, with the assertion checked.\<close>

definition async_disconnect :: "'w os_api \<Rightarrow> user_code \<Rightarrow> redisAsyncContext \<Rightarrow> 'w surroundings \<Rightarrow> 'w surroundings option" where
  "async_disconnect os user ac s = do {
     let ac = redisAsyncCopyError ac;
     ac \<leftarrow> (if ac_err ac = 0 then do {
               (r, l) \<leftarrow> redisShiftCallback (ac_replies ac);
               assert_c (r = None);
               Some (ac\<lparr>ac_replies := l\<rparr>) }
             else Some (set_flag REDIS_DISCONNECTING ac));
     async_free os user ac s }"

definition redisAsyncDisconnect :: "'w os_api \<Rightarrow> user_code \<Rightarrow> redisAsyncContext \<Rightarrow> 'w surroundings
    \<Rightarrow> (redisAsyncContext option \<times> 'w surroundings) option" where
  "redisAsyncDisconnect os user ac s = do {
     let ac = set_flag REDIS_DISCONNECTING ac;
     if \<not> has_flag ac REDIS_IN_CALLBACK \<and> cl_head (ac_replies ac) = 0
     then do { s \<leftarrow> async_disconnect os user ac s; Some (None, s) }
     else Some (Some ac, s) }"

section \<open>Replies\<close>

text \<open>
  \<open>__redisGetSubscribeCallback\<close>: the callback is stored through a pointer and stays as it was when
  none is found; a variable that was never set is \<^const>\<open>None\<close>.
\<close>

definition redisGetSubscribeCallback :: "redisAsyncContext \<Rightarrow> nat \<Rightarrow> redisCallback option \<Rightarrow> reply_heap
    \<Rightarrow> (redisCallback option \<times> redisAsyncContext) option" where
  "redisGetSubscribeCallback ac reply dstcb h = do {
     r \<leftarrow> hp_cells h reply;
     if rp_type r = REDIS_REPLY_ARRAY then do {
       n \<leftarrow> rp_elements r;
       assert_c (2 \<le> n);
       es \<leftarrow> rp_element r;
       e0 \<leftarrow> slot_get es 0;
       e0 \<leftarrow> hp_cells h e0;
       assert_c (rp_type e0 = REDIS_REPLY_STRING);
       stype \<leftarrow> rp_str e0;
       c0 \<leftarrow> mem_get stype 0;
       let pvariant = (to_lower c0 = CHR ''p'');
       let callbacks = (if pvariant then ac_patterns ac else ac_channels ac);
       e1 \<leftarrow> slot_get es 1;
       e1 \<leftarrow> hp_cells h e1;
       assert_c (rp_type e1 = REDIS_REPLY_STRING);
       str \<leftarrow> rp_str e1;
       len \<leftarrow> rp_len e1;
       sname \<leftarrow> sdsnewlen (Some str) (c_size_t len);
       de \<leftarrow> dictFind callbacks sname;
       (case de of
          None \<Rightarrow> Some (dstcb, ac)
        | Some p \<Rightarrow> do {
            entry \<leftarrow> dict_entry callbacks p;
            unsub \<leftarrow> strncase_eq (drop (if pvariant then 1 else 0) stype) (''unsubscribe'' @ [NUL]);
            ac \<leftarrow> (if unsub then do {
                      (st, d, frees) \<leftarrow> dictDelete callbacks sname;
                      let ac = (if pvariant then ac\<lparr>ac_patterns := d\<rparr> else ac\<lparr>ac_channels := d\<rparr>);
                      e2 \<leftarrow> slot_get es 2;
                      e2 \<leftarrow> hp_cells h e2;
                      assert_c (rp_type e2 = REDIS_REPLY_INTEGER);
                      i \<leftarrow> rp_integer e2;
                      Some (if i = 0 then clear_flag REDIS_SUBSCRIBED ac else ac) }
                    else Some ac);
            Some (Some (snd entry), ac) }) }
     else do {
       (t, l) \<leftarrow> redisShiftCallback (ac_invalid ac);
       Some (case t of Some cb \<Rightarrow> Some cb | None \<Rightarrow> dstcb, ac\<lparr>ac_invalid := l\<rparr>) } }"

definition free_object :: "redisAsyncContext \<Rightarrow> nat \<Rightarrow> 'w surroundings \<Rightarrow> 'w surroundings option" where
  "free_object ac reply s = do {
     fn \<leftarrow> cx_fn (ac_c ac);
     f \<leftarrow> fn_freeObject fn;
     h \<leftarrow> f reply (su_heap s);
     Some (s\<lparr>su_heap := h\<rparr>) }"

text \<open>The loop of \<open>redisProcessCallbacks\<close>, with its variable \<open>cb\<close>.\<close>

partial_function (option) process_loop :: "'w os_api \<Rightarrow> user_code \<Rightarrow> redisCallback option \<Rightarrow> redisAsyncContext
    \<Rightarrow> 'w surroundings \<Rightarrow> (redisAsyncContext option \<times> 'w surroundings) option" where
  "process_loop os user cb ac s = do {
     (status, reply, c, h, w) \<leftarrow> redisGetReply os (ac_c ac) (su_heap s) (su_sys s);
     let ac = ac\<lparr>ac_c := c\<rparr>;
     let s = s\<lparr>su_heap := h, su_sys := w\<rparr>;
     if status \<noteq> REDIS_OK then do { s \<leftarrow> async_disconnect os user ac s; Some (None, s) }
     else if reply = 0 then
       if has_flag ac REDIS_DISCONNECTING \<and> sdslen (cx_obuf (ac_c ac)) = 0
       then do { s \<leftarrow> async_disconnect os user ac s; Some (None, s) }
       else Some (Some ac, s)
     else do {
       (t, l) \<leftarrow> redisShiftCallback (ac_replies ac);
       let ac = ac\<lparr>ac_replies := l\<rparr>;
       (cb, ac) \<leftarrow>
         (case t of
            Some t \<Rightarrow> Some (Some t, ac)
          | None \<Rightarrow> do {
              assert_c (has_flag ac REDIS_SUBSCRIBED);
              redisGetSubscribeCallback ac reply cb (su_heap s) });
       cur \<leftarrow> cb;
       if cb_fn cur \<noteq> None then do {
         (ac, s) \<leftarrow> redisRunCallback user ac cur reply s;
         s \<leftarrow> free_object ac reply s;
         if has_flag ac REDIS_FREEING then do { s \<leftarrow> async_free os user ac s; Some (None, s) }
         else process_loop os user cb ac s }
       else do {
         s \<leftarrow> free_object ac reply s;
         process_loop os user cb ac s } } }"

definition redisProcessCallbacks :: "'w os_api \<Rightarrow> user_code \<Rightarrow> redisAsyncContext \<Rightarrow> 'w surroundings
    \<Rightarrow> (redisAsyncContext option \<times> 'w surroundings) option" where
  "redisProcessCallbacks os user ac s = process_loop os user None ac s"

section \<open>Events of the socket\<close>

definition redisAsyncHandleRead :: "'w os_api \<Rightarrow> user_code \<Rightarrow> redisAsyncContext \<Rightarrow> 'w surroundings
    \<Rightarrow> (redisAsyncContext option \<times> 'w surroundings) option" where
  "redisAsyncHandleRead os user ac s = do {
     (st, c, w) \<leftarrow> redisBufferRead os (ac_c ac) (su_sys s);
     let ac = ac\<lparr>ac_c := c\<rparr>;
     let s = s\<lparr>su_sys := w\<rparr>;
     if st = REDIS_ERR then do { s \<leftarrow> async_disconnect os user ac s; Some (None, s) }
     else redisProcessCallbacks os user ac (call_addRead ac s) }"

definition redisAsyncHandleWrite :: "'w os_api \<Rightarrow> user_code \<Rightarrow> redisAsyncContext \<Rightarrow> 'w surroundings
    \<Rightarrow> (redisAsyncContext option \<times> 'w surroundings) option" where
  "redisAsyncHandleWrite os user ac s = do {
     (st, wdone, c, w) \<leftarrow> redisBufferWrite os (ac_c ac) (su_sys s);
     let ac = ac\<lparr>ac_c := c\<rparr>;
     let s = s\<lparr>su_sys := w\<rparr>;
     if st = REDIS_ERR then do { s \<leftarrow> async_disconnect os user ac s; Some (None, s) }
     else do {
       let s = (if \<not> wdone then call_addWrite ac s else call_delWrite ac s);
       let s = call_addRead ac s;
       if \<not> has_flag ac REDIS_CONNECTED then do {
         let ac = set_flag REDIS_CONNECTED ac;
         let s = (case ac_onConnect ac of Some f \<Rightarrow> record_event (OnConnect f) s | None \<Rightarrow> s);
         Some (Some ac, s) }
       else Some (Some ac, s) } }"

end
