(* ===== verification/AsyncClose.thy ===== *)
theory AsyncClose
  imports Async ContextProps
begin

text \<open>
  Closing an asynchronous context: every callback that is still waiting is run exactly once, with a
  NULL reply, whatever the callbacks themselves do, and then the context is gone.
\<close>

unbundle bit_operations_syntax

section \<open>Flags\<close>

lemmas redis_flags = REDIS_BLOCK_def REDIS_CONNECTED_def REDIS_DISCONNECTING_def REDIS_FREEING_def REDIS_IN_CALLBACK_def
  REDIS_SUBSCRIBED_def

lemma and_pow_bit: "(x :: int) AND 2 ^ n \<noteq> 0 \<longleftrightarrow> bit x n"
  by (simp add: and_exp_eq_0_iff_not_bit)

lemma has_flag_bit [simp]:
  "has_flag ac REDIS_CONNECTED = bit (cx_flags (ac_c ac)) 1"
  "has_flag ac REDIS_DISCONNECTING = bit (cx_flags (ac_c ac)) 2"
  "has_flag ac REDIS_FREEING = bit (cx_flags (ac_c ac)) 3"
  "has_flag ac REDIS_IN_CALLBACK = bit (cx_flags (ac_c ac)) 4"
  "has_flag ac REDIS_SUBSCRIBED = bit (cx_flags (ac_c ac)) 5"
  using and_pow_bit [of "cx_flags (ac_c ac)"] by (simp_all add: has_flag_def redis_flags flip: and_pow_bit)

definition closing :: "redisAsyncContext \<Rightarrow> bool" where
  "closing ac \<longleftrightarrow> bit (cx_flags (ac_c ac)) 2 \<or> bit (cx_flags (ac_c ac)) 3"

lemma has_flag_closing [simp]: "has_flag ac (REDIS_DISCONNECTING OR REDIS_FREEING) = closing ac"
proof -
  have "(x :: int) AND 12 \<noteq> 0 \<longleftrightarrow> x AND 4 \<noteq> 0 \<or> x AND 8 \<noteq> 0" for x
    using bit.conj_disj_distrib [of x 4 8] by (simp add: or_eq_0_iff)
  then show ?thesis using and_pow_bit [of "cx_flags (ac_c ac)" 2] and_pow_bit [of "cx_flags (ac_c ac)" 3]
    by (simp add: has_flag_def closing_def redis_flags) blast
qed

section \<open>Closing a context\<close>

text \<open>A closing context stays one, connected or not as before, and refuses commands: what callbacks can
  still change are its flags.\<close>

definition kept :: "redisAsyncContext \<Rightarrow> redisAsyncContext \<Rightarrow> bool" where
  "kept ac ac' \<longleftrightarrow> (\<exists>fl. ac_c ac' = (ac_c ac)\<lparr>cx_flags := fl\<rparr>) \<and>
     (bit (cx_flags (ac_c ac')) 1 = bit (cx_flags (ac_c ac)) 1) \<and>
     (bit (cx_flags (ac_c ac)) 2 \<longrightarrow> bit (cx_flags (ac_c ac')) 2) \<and> (bit (cx_flags (ac_c ac)) 3 \<longrightarrow> bit (cx_flags (ac_c ac')) 3) \<and>
     ac_err ac' = ac_err ac \<and> ac_ev ac' = ac_ev ac \<and> ac_onDisconnect ac' = ac_onDisconnect ac \<and>
     ac_channels ac' = ac_channels ac \<and> ac_patterns ac' = ac_patterns ac"

lemma kept_refl [simp]: "kept ac ac"
  by (auto simp: kept_def intro!: exI [of _ "cx_flags (ac_c ac)"])

lemma kept_trans: "kept a b \<Longrightarrow> kept b c \<Longrightarrow> kept a c"
  by (auto simp: kept_def)

lemma kept_closing: "kept a b \<Longrightarrow> closing a \<Longrightarrow> closing b"
  by (auto simp: kept_def closing_def)

lemma set_flag_sel [simp]:
  "cx_flags (ac_c (set_flag f ac)) = cx_flags (ac_c ac) OR f" "ac_replies (set_flag f ac) = ac_replies ac"
  "ac_invalid (set_flag f ac) = ac_invalid ac" "ac_channels (set_flag f ac) = ac_channels ac"
  "ac_patterns (set_flag f ac) = ac_patterns ac" "ac_ev (set_flag f ac) = ac_ev ac" "ac_err (set_flag f ac) = ac_err ac"
  "ac_onDisconnect (set_flag f ac) = ac_onDisconnect ac" "ac_onConnect (set_flag f ac) = ac_onConnect ac"
  by (simp_all add: set_flag_def)

lemma clear_flag_sel [simp]:
  "cx_flags (ac_c (clear_flag f ac)) = cx_flags (ac_c ac) AND NOT f" "ac_replies (clear_flag f ac) = ac_replies ac"
  "ac_invalid (clear_flag f ac) = ac_invalid ac" "ac_channels (clear_flag f ac) = ac_channels ac"
  "ac_patterns (clear_flag f ac) = ac_patterns ac" "ac_ev (clear_flag f ac) = ac_ev ac" "ac_err (clear_flag f ac) = ac_err ac"
  "ac_onDisconnect (clear_flag f ac) = ac_onDisconnect ac" "ac_onConnect (clear_flag f ac) = ac_onConnect ac"
  by (simp_all add: clear_flag_def)

lemma flag_bits:
  "bit (REDIS_IN_CALLBACK) n = (n = 4)" "bit (REDIS_DISCONNECTING) n = (n = 2)" "bit (REDIS_FREEING) n = (n = 3)"
  "bit (REDIS_CONNECTED) n = (n = 1)" "bit (REDIS_SUBSCRIBED) n = (n = 5)"
  using bit_exp_iff [where 'a = int and m = 4, of n] bit_exp_iff [where 'a = int and m = 2, of n]
    bit_exp_iff [where 'a = int and m = 3, of n] bit_exp_iff [where 'a = int and m = 1, of n]
    bit_exp_iff [where 'a = int and m = 5, of n]
  by (simp_all add: redis_flags)

lemmas flag_simps = flag_bits bit_or_iff bit_and_iff bit_not_iff

lemma kept_flags:
  "kept ac (set_flag REDIS_IN_CALLBACK ac)" "kept ac (set_flag REDIS_DISCONNECTING ac)" "kept ac (set_flag REDIS_FREEING ac)"
  "kept ac (clear_flag REDIS_IN_CALLBACK ac)"
  unfolding kept_def by (auto simp: flag_simps) (auto simp: set_flag_def clear_flag_def)

text \<open>The commands of a callback have arguments that hold what their lengths say.\<close>

fun call_ok :: "api_call \<Rightarrow> bool" where
  "call_ok (CommandArgv fn privdata argc argv argvlen) \<longleftrightarrow>
     (\<exists>ws. argc = int (length ws) \<and> argv_holds argv argvlen ws \<and> int (length (enc_cmd ws)) < INT_MAX)"
| "call_ok Disconnect \<longleftrightarrow> True"
| "call_ok Free \<longleftrightarrow> True"

definition user_ok :: "user_code \<Rightarrow> bool" where
  "user_ok user \<longleftrightarrow> (\<forall>fn reply privdata h. \<forall>c\<in>set (user fn reply privdata h). call_ok c)"

lemma command_refused:
  assumes "closing ac" and "call_ok (CommandArgv fn privdata argc argv argvlen)"
  shows "redisAsyncCommandArgv ac fn privdata argc argv argvlen s = Some (REDIS_ERR, ac, s)"
proof -
  obtain ws where ws: "argc = int (length ws)" "argv_holds argv argvlen ws" "int (length (enc_cmd ws)) < INT_MAX"
    using assms(2) by auto
  show ?thesis unfolding redisAsyncCommandArgv_def ws(1) format_argv_of [OF ws(2,3)]
    using assms(1) by (simp add: redisAsyncCommandRaw_def)
qed

lemma calls_closing:
  "closing ac \<Longrightarrow> \<forall>c\<in>set calls. call_ok c \<Longrightarrow>
    \<exists>ac'. exec_calls calls ac s = Some (ac', s) \<and> kept ac ac' \<and> ac_replies ac' = ac_replies ac \<and> ac_invalid ac' = ac_invalid ac"
proof (induction calls arbitrary: ac)
  case (Cons c calls)
  consider fn p n v l where "c = CommandArgv fn p n v l" | "c = Disconnect" | "c = Free" by (cases c) auto
  then show ?case
  proof cases
    case 1
    then have "call_ok (CommandArgv fn p n v l)" using Cons.prems(2) by simp
    then have "redisAsyncCommandArgv ac fn p n v l s = Some (REDIS_ERR, ac, s)" by (rule command_refused [OF Cons.prems(1)])
    then show ?thesis unfolding 1 using Cons.IH [OF Cons.prems(1)] Cons.prems(2) by simp
  next
    case 2
    then show ?thesis using Cons.IH [of "set_flag REDIS_DISCONNECTING ac"] Cons.prems kept_trans [OF kept_flags(2)]
        kept_closing [OF kept_flags(2)] by auto
  next
    case 3
    then show ?thesis using Cons.IH [of "set_flag REDIS_FREEING ac"] Cons.prems kept_trans [OF kept_flags(3)]
        kept_closing [OF kept_flags(3)] by auto
  qed
qed simp

text \<open>The callbacks \<open>cs\<close> that are not NULL, run with a NULL reply.\<close>

definition null_calls :: "redisCallback list \<Rightarrow> async_event list" where
  "null_calls cs = concat (map (\<lambda>cb. case cb_fn cb of None \<Rightarrow> [] | Some fn \<Rightarrow> [Callback fn 0 (cb_privdata cb)]) cs)"

lemma null_calls_Nil [simp]: "null_calls [] = []"
  by (simp add: null_calls_def)

lemma null_calls_Cons: "null_calls (c # cs) = null_calls [c] @ null_calls cs"
  by (simp add: null_calls_def)

lemma null_calls_append: "null_calls (xs @ ys) = null_calls xs @ null_calls ys"
  by (simp add: null_calls_def)

definition add_log :: "async_event list \<Rightarrow> 'w surroundings \<Rightarrow> 'w surroundings" where
  "add_log es s = s\<lparr>su_log := su_log s @ es\<rparr>"

lemma add_log_simps [simp]:
  "add_log [] s = s" "add_log es (add_log fs s) = add_log (fs @ es) s" "record_event e s = add_log [e] s"
  "su_heap (add_log es s) = su_heap s" "su_sys (add_log es s) = su_sys s"
  by (simp_all add: add_log_def record_event_def)

lemma run_closing:
  assumes "closing ac" and "user_ok user"
  shows "\<exists>ac'. redisRunCallback user ac cb 0 s = Some (ac', add_log (null_calls [cb]) s) \<and> kept ac ac' \<and>
    ac_replies ac' = ac_replies ac \<and> ac_invalid ac' = ac_invalid ac"
proof (cases "cb_fn cb")
  case None
  then show ?thesis by (simp add: redisRunCallback_def null_calls_def)
next
  case (Some fn)
  let ?s = "add_log [Callback fn 0 (cb_privdata cb)] s"
  obtain ac' where a: "exec_calls (user fn 0 (cb_privdata cb) (su_heap ?s)) (set_flag REDIS_IN_CALLBACK ac) ?s = Some (ac', ?s)"
      "kept (set_flag REDIS_IN_CALLBACK ac) ac'" "ac_replies ac' = ac_replies ac" "ac_invalid ac' = ac_invalid ac"
    using calls_closing [OF kept_closing [OF kept_flags(1) assms(1)]] assms(2) unfolding user_ok_def by (metis set_flag_sel(2,3))
  then have "redisRunCallback user ac cb 0 s = Some (clear_flag REDIS_IN_CALLBACK ac', ?s)"
    using Some by (simp add: redisRunCallback_def)
  moreover have "kept ac (clear_flag REDIS_IN_CALLBACK ac')"
    using kept_trans [OF kept_trans [OF kept_flags(1) a(2)] kept_flags(4)] .
  ultimately show ?thesis using a(3,4) Some by (simp add: null_calls_def)
qed

lemma run_replies_closing:
  assumes "closing ac" and "user_ok user" and "cl_inv (ac_replies ac)"
  shows "\<exists>ac'. run_replies user ac s = Some (ac', add_log (null_calls (cl_items (ac_replies ac))) s) \<and> kept ac ac' \<and>
    ac_invalid ac' = ac_invalid ac"
  using assms(1,3)
proof (induction "cl_items (ac_replies ac)" arbitrary: ac s)
  case Nil
  then have "redisShiftCallback (ac_replies ac) = Some (None, ac_replies ac)" by (simp add: cl.shift_nil)
  then show ?case using Nil(1) by (subst run_replies.simps) (simp add: Nil(1) [symmetric])
next
  case (Cons cb cs)
  obtain l where l: "redisShiftCallback (ac_replies ac) = Some (Some cb, l)" "cl_inv l" "cl_items l = cs"
    using cl.shift_cons [OF Cons.prems(2) Cons.hyps(2) [symmetric]] by blast
  let ?ac = "ac\<lparr>ac_replies := l\<rparr>"
  have k: "kept ac ?ac" by (auto simp: kept_def intro!: exI [of _ "cx_flags (ac_c ac)"])
  obtain a1 where a1: "redisRunCallback user ?ac cb 0 s = Some (a1, add_log (null_calls [cb]) s)" "kept ?ac a1"
      "ac_replies a1 = l" "ac_invalid a1 = ac_invalid ac"
    using run_closing [OF kept_closing [OF k Cons.prems(1)] assms(2), of cb s] by auto
  have "closing a1" using kept_closing [OF a1(2)] kept_closing [OF k Cons.prems(1)] by blast
  then obtain a2 where a2: "run_replies user a1 (add_log (null_calls [cb]) s)
      = Some (a2, add_log (null_calls cs) (add_log (null_calls [cb]) s))" "kept a1 a2" "ac_invalid a2 = ac_invalid a1"
    using Cons.hyps(1) [of a1 "add_log (null_calls [cb]) s"] a1(3) l(2,3) by auto
  have "kept ac a2" using kept_trans [OF kept_trans [OF k a1(2)] a2(2)] .
  moreover have "null_calls (cl_items (ac_replies ac)) = null_calls [cb] @ null_calls cs"
    unfolding Cons.hyps(2) [symmetric] by (rule null_calls_Cons)
  ultimately show ?case using l(1) a1 a2 by (subst run_replies.simps) simp
qed

lemma run_invalid_closing:
  assumes "closing ac" and "user_ok user" and "cl_inv (ac_invalid ac)"
  shows "\<exists>ac'. run_invalid user ac s = Some (ac', add_log (null_calls (cl_items (ac_invalid ac))) s) \<and> kept ac ac'"
  using assms(1,3)
proof (induction "cl_items (ac_invalid ac)" arbitrary: ac s)
  case Nil
  then have "redisShiftCallback (ac_invalid ac) = Some (None, ac_invalid ac)" by (simp add: cl.shift_nil)
  then show ?case using Nil(1) by (subst run_invalid.simps) (simp add: Nil(1) [symmetric])
next
  case (Cons cb cs)
  obtain l where l: "redisShiftCallback (ac_invalid ac) = Some (Some cb, l)" "cl_inv l" "cl_items l = cs"
    using cl.shift_cons [OF Cons.prems(2) Cons.hyps(2) [symmetric]] by blast
  let ?ac = "ac\<lparr>ac_invalid := l\<rparr>"
  have k: "kept ac ?ac" by (auto simp: kept_def intro!: exI [of _ "cx_flags (ac_c ac)"])
  obtain a1 where a1: "redisRunCallback user ?ac cb 0 s = Some (a1, add_log (null_calls [cb]) s)" "kept ?ac a1"
      "ac_invalid a1 = l"
    using run_closing [OF kept_closing [OF k Cons.prems(1)] assms(2), of cb s] by auto
  have "closing a1" using kept_closing [OF a1(2)] kept_closing [OF k Cons.prems(1)] by blast
  then obtain a2 where a2: "run_invalid user a1 (add_log (null_calls [cb]) s)
      = Some (a2, add_log (null_calls cs) (add_log (null_calls [cb]) s))" "kept a1 a2"
    using Cons.hyps(1) [of a1 "add_log (null_calls [cb]) s"] a1(3) l(2,3) by auto
  have "kept ac a2" using kept_trans [OF kept_trans [OF k a1(2)] a2(2)] .
  moreover have "null_calls (cl_items (ac_invalid ac)) = null_calls [cb] @ null_calls cs"
    unfolding Cons.hyps(2) [symmetric] by (rule null_calls_Cons)
  ultimately show ?case using l(1) a1 a2 by (subst run_invalid.simps) simp
qed

lemma run_dict_closing:
  assumes "closing ac" and "user_ok user" and "\<And>a b. kept a b \<Longrightarrow> sel b = sel a" and "cbd_wf (sel ac)"
    and "- 1 \<le> it_index it"
  shows "\<exists>ac'. run_dict user sel it ac s = Some (ac', add_log (null_calls (map snd (it_rest (sel ac) it))) s) \<and> kept ac ac'"
  using assms(1,4,5)
proof (induction "it_rest (sel ac) it" arbitrary: ac s it)
  case Nil
  have n: "length (dict_table (sel ac)) = dict_size (sel ac)" "dict_size (sel ac) \<le> 2 ^ 30"
    using Nil.prems(2) cbd.size_bound by (auto simp: dict_wf_def)
  obtain it' where "dictNext (sel ac) it = Some (None, it')"
    using dictNext_ok [OF n Nil.prems(3)] Nil.hyps by (auto split: list.splits)
  then show ?case using Nil.hyps by (subst run_dict.simps) (simp add: Nil.hyps [symmetric])
next
  case (Cons e es)
  have n: "length (dict_table (sel ac)) = dict_size (sel ac)" "dict_size (sel ac) \<le> 2 ^ 30"
    using Cons.prems(2) cbd.size_bound by (auto simp: dict_wf_def)
  obtain it' where it': "dictNext (sel ac) it = Some (Some e, it')" "it_rest (sel ac) it' = es" "- 1 \<le> it_index it'"
    using dictNext_ok [OF n Cons.prems(3)] Cons.hyps(2) by (auto split: list.splits)
  obtain a1 where a1: "redisRunCallback user ac (snd e) 0 s = Some (a1, add_log (null_calls [snd e]) s)" "kept ac a1"
    using run_closing [OF Cons.prems(1) assms(2), of "snd e" s] by auto
  have "closing a1" "sel a1 = sel ac" using kept_closing [OF a1(2) Cons.prems(1)] assms(3) [OF a1(2)] by auto
  then obtain a2 where a2: "run_dict user sel it' a1 (add_log (null_calls [snd e]) s)
      = Some (a2, add_log (null_calls (map snd es)) (add_log (null_calls [snd e]) s))" "kept a1 a2"
    using Cons.hyps(1) [of a1 it' "add_log (null_calls [snd e]) s"] it' Cons.prems(2) by auto
  have "null_calls (map snd (it_rest (sel ac) it)) = null_calls [snd e] @ null_calls (map snd es)"
    unfolding Cons.hyps(2) [symmetric] list.map by (rule null_calls_Cons)
  then show ?case using it'(1) a1 a2 kept_trans [OF a1(2) a2(2)] by (subst run_dict.simps) simp
qed

text \<open>The invariant of a context's tables.\<close>

definition async_wf :: "redisAsyncContext \<Rightarrow> bool" where
  "async_wf ac \<longleftrightarrow> cl_inv (ac_replies ac) \<and> cl_inv (ac_invalid ac) \<and> cbd_wf (ac_channels ac) \<and> cbd_wf (ac_patterns ac) \<and>
     sds_wf (cx_obuf (ac_c ac))"

text \<open>All callbacks that wait: for replies, for errors, for messages.\<close>

definition waiting :: "redisAsyncContext \<Rightarrow> redisCallback list" where
  "waiting ac = cl_items (ac_replies ac) @ cl_items (ac_invalid ac) @ map snd (concat (dict_table (ac_channels ac))) @
     map snd (concat (dict_table (ac_patterns ac)))"

definition goodbye :: "redisAsyncContext \<Rightarrow> int \<Rightarrow> async_event list" where
  "goodbye ac st = (if ev_cleanup (ac_ev ac) then [Cleanup (ev_data (ac_ev ac))] else []) @
     (case ac_onDisconnect ac of Some f \<Rightarrow> if bit (cx_flags (ac_c ac)) 1 then [OnDisconnect f st] else [] | None \<Rightarrow> [])"

lemma dict_release_ok: "cbd_wf d \<Longrightarrow> \<exists>fs. dictRelease d = Some fs"
  using cbd.clear_ok(1) by (auto simp: dictRelease_def)

lemma free_runs_waiting:
  assumes "closing ac" and "async_wf ac" and "user_ok user" and "redisFree os (ac_c ac) (su_heap s) (su_sys s) = Some (h, w)"
  shows "\<exists>st. async_free os user ac s = Some ((add_log (null_calls (waiting ac) @ goodbye ac st) s)\<lparr>su_heap := h, su_sys := w\<rparr>) \<and>
    (st = REDIS_OK \<or> (\<not> bit (cx_flags (ac_c ac)) 3 \<and> ac_err ac \<noteq> 0 \<and> st = REDIS_ERR))"
proof -
  have wf: "cl_inv (ac_replies ac)" "cl_inv (ac_invalid ac)" "cbd_wf (ac_channels ac)" "cbd_wf (ac_patterns ac)"
    using assms(2) by (simp_all add: async_wf_def)
  obtain a1 where a1: "run_replies user ac s = Some (a1, add_log (null_calls (cl_items (ac_replies ac))) s)" "kept ac a1"
      "ac_invalid a1 = ac_invalid ac"
    using run_replies_closing [OF assms(1,3) wf(1)] by blast
  define s1 where "s1 = add_log (null_calls (cl_items (ac_replies ac))) s"
  obtain a2 where a2: "run_invalid user a1 s1 = Some (a2, add_log (null_calls (cl_items (ac_invalid ac))) s1)" "kept ac a2"
    using run_invalid_closing [OF kept_closing [OF a1(2) assms(1)] assms(3), of s1] wf(2) a1(3) kept_trans [OF a1(2)] by auto
  define s2 where "s2 = add_log (null_calls (cl_items (ac_invalid ac))) s1"
  have it: "it_rest d dictGetIterator = concat (dict_table d)" "- 1 \<le> it_index (dictGetIterator :: (sdshdr, redisCallback) dictIterator)"
    for d :: cbdict
    by (simp_all add: it_rest_def dictGetIterator_def)
  have ch: "ac_channels b = ac_channels a" "ac_patterns b = ac_patterns a" if "kept a b" for a b using that by (simp_all add: kept_def)
  obtain a3 where a3: "run_dict user ac_channels dictGetIterator a2 s2
      = Some (a3, add_log (null_calls (map snd (concat (dict_table (ac_channels ac))))) s2)" "kept ac a3"
    using run_dict_closing [OF kept_closing [OF a2(2) assms(1)] assms(3), where sel = ac_channels and it = dictGetIterator and s = s2]
      ch(1) [OF a2(2)] ch wf(3) it kept_trans [OF a2(2)] by auto
  define s3 where "s3 = add_log (null_calls (map snd (concat (dict_table (ac_channels ac))))) s2"
  obtain a4 where a4: "run_dict user ac_patterns dictGetIterator a3 s3
      = Some (a4, add_log (null_calls (map snd (concat (dict_table (ac_patterns ac))))) s3)" "kept ac a4"
    using run_dict_closing [OF kept_closing [OF a3(2) assms(1)] assms(3), where sel = ac_patterns and it = dictGetIterator and s = s3]
      ch(2) [OF a3(2)] ch wf(4) it kept_trans [OF a3(2)] by auto
  obtain f3 f4 where f: "dictRelease (ac_channels a3) = Some f3" "dictRelease (ac_patterns a4) = Some f4"
    using ch(1) [OF a3(2)] ch(2) [OF a4(2)] wf(3,4) dict_release_ok by fastforce
  let ?st = "if bit (cx_flags (ac_c a4)) 3 \<or> ac_err ac = 0 then REDIS_OK else REDIS_ERR"
  have k: "bit (cx_flags (ac_c a4)) (Suc 0) = bit (cx_flags (ac_c ac)) (Suc 0)" "ac_err a4 = ac_err ac" "ac_ev a4 = ac_ev ac"
      "ac_onDisconnect a4 = ac_onDisconnect ac" "bit (cx_flags (ac_c ac)) 3 \<longrightarrow> bit (cx_flags (ac_c a4)) 3"
    using a4(2) by (simp_all add: kept_def)
  obtain fl where fl: "ac_c a4 = (ac_c ac)\<lparr>cx_flags := fl\<rparr>" using a4(2) by (auto simp: kept_def)
  have rf: "redisFree os (ac_c a4) h' w' = redisFree os (ac_c ac) h' w'" for h' w' by (simp add: fl redisFree_def)
  have log: "add_log (null_calls (map snd (concat (dict_table (ac_patterns ac))))) s3 = add_log (null_calls (waiting ac)) s"
    by (simp add: s1_def s2_def s3_def waiting_def null_calls_append)
  note run = a1(1) [folded s1_def] a2(1) [folded s2_def] a3(1) [folded s3_def] a4(1) [unfolded log] f
  have "async_free os user ac s = Some ((add_log (null_calls (waiting ac) @ goodbye ac ?st) s)\<lparr>su_heap := h, su_sys := w\<rparr>)"
    unfolding async_free_def run Option.bind.bind_lunit prod.case
    by (cases "ac_onDisconnect ac") (simp_all add: k(1-4) rf assms(4) call_cleanup_def goodbye_def Let_def)
  then show ?thesis using k(5) by (intro exI [of _ ?st]) auto
qed

lemma redisFree_cong: "cx_fd c = cx_fd c' \<Longrightarrow> cx_reader c = cx_reader c' \<Longrightarrow> redisFree os c = redisFree os c'"
  by (simp add: redisFree_def fun_eq_iff)

section \<open>Properties\<close>

text \<open>
  C12 (safety). Freeing a context outside its callbacks always ends, whatever the callbacks do: every
  waiting callback (for replies in the order of their commands, then for errors, then for channels
  and patterns) runs exactly once, with a NULL reply; commands the callbacks issue are refused,
  and disconnecting or freeing again has no effect. Then the event library's cleanup hook runs,
  then the disconnect callback with \<open>REDIS_OK\<close> when the context was connected, and the
  connection is released last.
\<close>

theorem async_free_runs_all:
  assumes "async_wf ac" and "user_ok user" and "\<not> has_flag ac REDIS_IN_CALLBACK"
    and "redisFree os (ac_c ac) (su_heap s) (su_sys s) = Some (h, w)"
  shows "redisAsyncFree os user ac s
    = Some (None, (add_log (null_calls (waiting ac) @ goodbye ac REDIS_OK) s)\<lparr>su_heap := h, su_sys := w\<rparr>)"
proof -
  let ?ac = "set_flag REDIS_FREEING ac"
  have c: "closing ?ac" "bit (cx_flags (ac_c ?ac)) 3" by (simp_all add: closing_def flag_simps)
  have wf: "async_wf ?ac" using assms(1) by (simp add: async_wf_def set_flag_def)
  have rf: "redisFree os (ac_c ?ac) (su_heap s) (su_sys s) = Some (h, w)"
    using assms(4) redisFree_cong [of "ac_c ?ac" "ac_c ac" os] by (simp add: set_flag_def)
  have same: "waiting ?ac = waiting ac" "goodbye ?ac st = goodbye ac st" for st
    by (simp_all add: waiting_def goodbye_def flag_simps split: option.split)
  have "\<not> bit (cx_flags (ac_c ?ac)) 4" using assms(3) by (simp add: flag_simps)
  then show ?thesis using free_runs_waiting [OF c(1) wf assms(2) rf] c(2) same by (auto simp: redisAsyncFree_def)
qed

text \<open>
  When the server closes the connection, the read event ends the context: every waiting
  callback runs exactly once with a NULL reply, the error is recorded before they run so that
  they cannot issue commands, and the disconnect callback comes last; it is told
  \<open>REDIS_ERR\<close> unless a callback asked for the context to be freed.
\<close>

lemma server_close_runs_all:
  assumes "async_wf ac" and "user_ok user" and "os_recv os (cx_fd (ac_c ac)) 2048 (su_sys s) = (RecvClosed, w1)"
    and "redisFree os (ac_c ac) (su_heap s) w1 = Some (h, w)"
  shows "\<exists>st. redisAsyncHandleRead os user ac s
      = Some (None, (add_log (null_calls (waiting ac) @ goodbye ac st) s)\<lparr>su_heap := h, su_sys := w\<rparr>) \<and>
    (st = REDIS_OK \<or> (\<not> has_flag ac REDIS_FREEING \<and> st = REDIS_ERR))"
proof -
  let ?e = "sds_of ''Server closed the connection'' []"
  let ?c = "(ac_c ac)\<lparr>cx_err := REDIS_ERR_EOF, cx_errstr := Some ?e\<rparr>" and ?s = "s\<lparr>su_sys := w1\<rparr>"
  let ?ac = "set_flag REDIS_DISCONNECTING (redisAsyncCopyError (ac\<lparr>ac_c := ?c\<rparr>))"
  have "sdsnew (Some (c_literal ''Server closed the connection'')) = Some ?e"
    by (rule sdsnew_literal) (simp_all add: INT_MAX_def)
  then have r: "redisBufferRead os (ac_c ac) (su_sys s) = Some (REDIS_ERR, ?c, w1)"
    using assms(3) by (simp add: redisBufferRead_def set_eof_def redisSetError_def)
  have c: "closing ?ac" by (simp add: closing_def flag_simps)
  have wf: "async_wf ?ac" using assms(1) by (simp add: async_wf_def set_flag_def redisAsyncCopyError_def)
  have rf: "redisFree os (ac_c ?ac) (su_heap ?s) (su_sys ?s) = Some (h, w)"
    using assms(4) redisFree_cong [of "ac_c ?ac" "ac_c ac" os] by (simp add: set_flag_def redisAsyncCopyError_def)
  have same: "waiting ?ac = waiting ac" "goodbye ?ac st = goodbye ac st" for st
    by (simp_all add: waiting_def goodbye_def flag_simps redisAsyncCopyError_def split: option.split)
  have "redisAsyncHandleRead os user ac s = (async_free os user ?ac ?s \<bind> (\<lambda>s. Some (None, s)))"
    by (simp add: redisAsyncHandleRead_def r async_disconnect_def redisAsyncCopyError_def err_types REDIS_ERR_def)
  moreover have "bit (cx_flags (ac_c ?ac)) 3 = bit (cx_flags (ac_c ac)) 3" by (simp add: flag_simps redisAsyncCopyError_def)
  ultimately show ?thesis using free_runs_waiting [OF c wf assms(2) rf] unfolding same by (auto simp: add_log_def)
qed

text \<open>A connected context with one callback that waits, and a callback that issues a command and frees its
  context.\<close>

definition one_waiting :: redisAsyncContext where
  "one_waiting = (redisAsyncInitialize blank_context)
     \<lparr>ac_c := blank_context\<lparr>cx_flags := 2\<rparr>, ac_onDisconnect := Some 5,
      ac_replies := \<lparr>cl_head = 1, cl_tail = 1, cl_nodes = [1 \<mapsto> (\<lparr>cb_fn = Some 7, cb_privdata = 9\<rparr>, 0)], cl_fresh = 2\<rparr>\<rparr>"

definition restless_user :: user_code where
  "restless_user fn reply privdata h = [CommandArgv (Some 7) 9 1 [map Some ''PING''] (Some [4]), Disconnect, Free]"

definition calm_surroundings :: "(string list \<times> string) surroundings" where
  "calm_surroundings = \<lparr>su_heap = empty_heap, su_sys = \<lparr>sy_errno = 0, sy_world = ([], [])\<rparr>, su_log = []\<rparr>"

lemma restless_ok: "user_ok restless_user"
proof -
  have "argv_holds [map Some ''PING''] (Some [4]) [''PING'']" using argv_holds_lens [of "[''PING'']"] by (simp add: eval_nat_numeral)
  moreover have "int (length (enc_cmd [''PING''])) < INT_MAX" by (simp add: show_nat.simps INT_MAX_def)
  ultimately have "call_ok (CommandArgv (Some 7) 9 1 [map Some ''PING''] (Some [4]))"
    unfolding call_ok.simps by (intro exI [of _ "[''PING'']"]) simp
  then show ?thesis by (simp add: user_ok_def restless_user_def del: call_ok.simps(1))
qed

lemma one_waiting_ok: "async_wf one_waiting" "waiting one_waiting = [\<lparr>cb_fn = Some 7, cb_privdata = 9\<rparr>]"
    "redisFree script_os (ac_c one_waiting) h w = Some (h, w)" "goodbye one_waiting st = [OnDisconnect 5 st]"
    "\<not> has_flag one_waiting REDIS_IN_CALLBACK" "\<not> has_flag one_waiting REDIS_FREEING"
proof -
  have "cl_rep (ac_replies one_waiting) [1] [\<lparr>cb_fn = Some 7, cb_privdata = 9\<rparr>]" by (simp add: cl_rep_def one_waiting_def)
  then have q: "cl_inv (ac_replies one_waiting)" "cl_items (ac_replies one_waiting) = [\<lparr>cb_fn = Some 7, cb_privdata = 9\<rparr>]"
    by (auto simp: cl_inv_def cl_items_eq)
  have e: "ac_invalid one_waiting = empty_list" "ac_channels one_waiting = dictCreate callbackDict"
      "ac_patterns one_waiting = dictCreate callbackDict" "sds_wf (cx_obuf (ac_c one_waiting))"
    by (simp_all add: one_waiting_def redisAsyncInitialize_def blank_context_def INT_MAX_def)
  then show "async_wf one_waiting" "waiting one_waiting = [\<lparr>cb_fn = Some 7, cb_privdata = 9\<rparr>]"
    using q cbd.wf_create(1) by (simp_all add: async_wf_def waiting_def dictCreate_def dictInit_def dictReset_def)
  have b: "bit (2 :: int) 1 \<and> \<not> bit (2 :: int) 4 \<and> \<not> bit (2 :: int) 3" by code_simp
  then show "redisFree script_os (ac_c one_waiting) h w = Some (h, w)" "goodbye one_waiting st = [OnDisconnect 5 st]"
    "\<not> has_flag one_waiting REDIS_IN_CALLBACK" "\<not> has_flag one_waiting REDIS_FREEING"
    by (simp_all add: one_waiting_def redisAsyncInitialize_def blank_context_def redisFree_def goodbye_def no_hooks_def)
qed

theorem async_free_runs_all_witness:
  "\<exists>s. redisAsyncFree script_os restless_user one_waiting calm_surroundings = Some (None, s) \<and>
    su_log s = [Callback 7 0 9, OnDisconnect 5 REDIS_OK]"
  using async_free_runs_all [OF one_waiting_ok(1) restless_ok one_waiting_ok(5,3), of calm_surroundings]
  by (simp add: one_waiting_ok null_calls_def add_log_def calm_surroundings_def)

end
