(* ===== verification/AsyncCommand.thy ===== *)
theory AsyncCommand
  imports AsyncClose
begin

text \<open>
  Issuing commands on an asynchronous context: the formatted command is taken apart again to find
  its name and, for subscriptions, the channels; exactly one of the callback tables changes and the
  command is appended to the output buffer.
\<close>

section \<open>Taking a formatted command apart\<close>

lemma strchr_found: "x \<notin> set t \<Longrightarrow> NUL \<notin> set t \<Longrightarrow> strchr (map Some t @ Some x # m) x = Some (Some (length t))"
  by (induction t) auto

lemma digits_value_stop:
  "list_all is_digit t \<Longrightarrow> \<not> is_digit c \<Longrightarrow>
    digits_value (map Some t @ Some c # m) v = Some (foldl (\<lambda>v c. v * 10 + (of_char c - 48)) v t)"
  by (induction t arbitrary: v) auto

lemma show_nat_value: "foldl (\<lambda>v c. v * 10 + (of_char c - 48)) 0 (show_nat n) = n"
proof (induction n rule: show_nat.induct)
  case (1 n)
  have d: "of_char (digit_char k) - 48 = k" if "k < 10" for k using that by (simp add: digit_char_def)
  show ?case
  proof (cases "n < 10")
    case True
    then show ?thesis by (simp add: show_nat.simps [of n] d)
  next
    case False
    then show ?thesis using "1.IH" by (simp add: show_nat.simps [of n] d)
  qed
qed

lemma strtol_show_nat:
  assumes "n \<le> 2147483647" and "\<not> is_digit c"
  shows "strtol (map Some (show_nat n) @ Some c # m) = Some (int n)"
proof -
  have all: "list_all is_digit (show_nat n)" using show_nat_digits by (auto simp: list_all_iff)
  obtain d t where dt: "show_nat n = d # t" by (cases "show_nat n") auto
  then have d: "is_digit d" using all by simp
  have ns: "\<not> is_space d" "d \<noteq> CHR ''-''" "d \<noteq> CHR ''+''" using d by (auto simp: is_digit_def is_space_def)
  have "digits_value (Some d # map Some t @ Some c # m) 0 = Some n"
    using digits_value_stop [OF all assms(2), of m 0] show_nat_value [of n] dt by simp
  then show ?thesis using dt ns assms(1) by (simp del: digits_value.simps)
qed

lemma next_argument:
  assumes "CHR ''$'' \<notin> set gap" and "NUL \<notin> set gap" and "length w \<le> 2147483647"
  shows "nextArgument (map Some (pre @ gap @ enc (RString w) @ post) @ [Some NUL]) (length pre)
    = Some (Some (length pre + length gap + 3 + length (show_nat (length w)), length w,
        length pre + length gap + length (enc (RString w))))"
proof -
  let ?n = "show_nat (length w)" and ?tl = "map Some (LF # w @ CRLF @ post) @ [Some NUL]"
  let ?m = "map Some (pre @ gap @ enc (RString w) @ post) @ [Some NUL]"
  let ?p = "length pre + length gap"
  have tail: "drop (length pre) ?m = map Some gap @ Some (CHR ''$'') # map Some ?n @ Some CR # ?tl"
    and at: "drop ?p ?m = Some (CHR ''$'') # map Some ?n @ Some CR # ?tl"
    and num: "drop (?p + 1) ?m = map Some ?n @ Some CR # ?tl" by simp_all
  have "strtol (drop (?p + 1) ?m) = Some (int (length w))"
    unfolding num by (rule strtol_show_nat [OF assms(3)]) (simp add: is_digit_def)
  moreover have "strchr (drop ?p ?m) CR = Some (Some (Suc (length ?n)))"
    unfolding at using strchr_found [of CR "CHR ''$'' # ?n" ?tl] show_nat_no_CR show_nat_no_NUL by simp
  moreover have "\<exists>c. mem_get ?m (length pre) = Some c \<and>
      (if c \<noteq> CHR ''$'' then strchr (drop (length pre) ?m) (CHR ''$'') else Some (Some 0)) = Some (Some (length gap))"
  proof (cases gap)
    case Nil
    then show ?thesis by (auto simp: mem_get_def nth_append)
  next
    case (Cons g gs)
    have "strchr (drop (length pre) ?m) (CHR ''$'') = Some (Some (length gap))"
      unfolding tail using strchr_found assms(1,2) by simp
    then show ?thesis using Cons assms(1) by (auto simp: mem_get_def nth_append)
  qed
  moreover have "c_size_t (c_int (int (length w))) = length w"
    using assms(3) by (simp add: c_int_id c_size_t_of_nat)
  ultimately show ?thesis
    unfolding nextArgument_def by (auto simp del: map_append append_assoc)
qed

lemma next_argument_end: "nextArgument (map Some pre @ [Some NUL]) (length pre) = Some None"
  by (simp add: nextArgument_def mem_get_def nth_append)

text \<open>The channels of a subscription.\<close>

abbreviation enc_words :: "string list \<Rightarrow> string" where
  "enc_words ws \<equiv> concat (map enc (map RString ws))"

section \<open>Growth of the dictionary\<close>

lemma next_power_bound: "0 < i \<Longrightarrow> next_power_loop sz i \<le> max i (2 * sz)"
proof (induction sz i rule: next_power_loop.induct)
  case (1 sz i)
  then show ?case by (cases "sz \<le> i") (auto simp: next_power_loop.simps [of sz i])
qed

lemma expand_growth:
  assumes "dictExpand ht sz = Some (st, ht')" and "sz \<le> 2 ^ 30"
  shows "dict_size ht' \<le> max (dict_size ht) (max 4 (2 * sz)) \<and> dict_used ht' = dict_used ht"
proof -
  have "dictNextPower sz \<le> max 4 (2 * sz)"
    using assms(2) next_power_bound [of 4 sz] by (simp add: dictNextPower_def LONG_MAX_def DICT_HT_INITIAL_SIZE_def)
  then show ?thesis using assms(1) by (auto simp: dictExpand_def Let_def bind_eq_Some_conv split: if_splits)
qed

lemma replace_growth:
  assumes "dictReplace ht k v = Some (n, ht', ev)" and "dict_size ht \<le> 2 ^ 29" and "dict_used ht < 2 ^ 32"
  shows "dict_size ht' \<le> max (dict_size ht) (max 8 (4 * dict_used ht)) \<and> dict_used ht' \<le> Suc (dict_used ht)"
proof -
  obtain st i h h1 where e: "dictExpandIfNeeded ht = Some (st, h)" "dictKeyIndex ht k = Some (i, h)"
      "dictAdd ht k v = Some (if i = - 1 then DICT_ERR else DICT_OK, h1)"
      "if i = - 1 then h1 = h else dict_size h1 = dict_size h \<and> dict_used h1 = c_size_t (int (dict_used h) + 1)"
  proof -
    obtain s1 h1 where a: "dictAdd ht k v = Some (s1, h1)" using assms(1) by (auto simp: dictReplace_def bind_eq_Some_conv)
    then obtain i h where k: "dictKeyIndex ht k = Some (i, h)" by (auto simp: dictAdd_def bind_eq_Some_conv)
    then have "\<exists>st. dictExpandIfNeeded ht = Some (st, h)"
      by (auto simp: dictKeyIndex_def bind_eq_Some_conv Let_def split: if_splits)
    then show thesis using a k that [of _ h i h1] by (auto simp: dictAdd_def bind_eq_Some_conv Let_def split: if_splits)
  qed
  have h: "dict_size h \<le> max (dict_size ht) (max 8 (4 * dict_used ht)) \<and> dict_used h = dict_used ht"
  proof -
    have c: "c_size_t (int (dict_size ht) * 2) = dict_size ht * 2"
      using c_size_t_of_nat [of "dict_size ht * 2"] assms(2) by simp
    have "dict_size ht * 2 \<le> 2 ^ 30" using assms(2) by simp
    then show ?thesis
      using e(1) expand_growth [of ht 4 st h] expand_growth [of ht "dict_size ht * 2" st h]
      by (auto simp: dictExpandIfNeeded_def DICT_HT_INITIAL_SIZE_def c split: if_splits)
  qed
  have "dict_size ht' = dict_size h1 \<and> dict_used ht' = dict_used h1"
    using assms(1) e(3) by (auto simp: dictReplace_def bind_eq_Some_conv Let_def split: if_splits)
  moreover have "dict_size h1 = dict_size h \<and> dict_used h1 \<le> Suc (dict_used h)"
    using e(4) h assms(3) c_size_t_of_nat [of "Suc (dict_used ht)"] by (simp add: add.commute split: if_splits)
  ultimately show ?thesis using h by simp
qed

text \<open>Every channel is added, under its bytes; the table has room for \<open>2^27\<close> of them.\<close>

lemma subscribe_loop_ok:
  assumes "length (enc_words ws) \<le> 2147483647"
  shows "cbd_wf d \<Longrightarrow> dict_size d \<le> 2 ^ 29 \<Longrightarrow> dict_used d + length ws \<le> 2 ^ 27 \<Longrightarrow>
    \<exists>d'. subscribe_loop (map Some (pre @ enc_words ws) @ [Some NUL]) (length pre) cb d = Some d' \<and> cbd_wf d' \<and>
      cbd_map d' = (\<lambda>x. if x \<in> set ws then Some cb else cbd_map d x)"
  using assms
proof (induction ws arbitrary: pre d)
  case Nil
  then show ?case using next_argument_end [of pre] by (subst subscribe_loop.simps) simp
next
  case (Cons w ws)
  let ?cmd = "map Some (pre @ enc_words (w # ws)) @ [Some NUL]" and ?astr = "length pre + 3 + length (show_nat (length w))"
  have l: "length w \<le> nat INT_MAX" "length w \<le> 2147483647" "length (enc_words ws) \<le> 2147483647"
    using Cons.prems(4) by (simp_all add: INT_MAX_def)
  have a: "nextArgument ?cmd (length pre) = Some (Some (?astr, length w, length (pre @ enc (RString w))))"
    using next_argument [of "[]" w pre "enc_words ws"] l(2) by simp
  have "drop ?astr ?cmd = map Some w @ map Some (CRLF @ enc_words ws) @ [Some NUL]" by (simp add: numeral_3_eq_3)
  then have n: "sdsnewlen (Some (drop ?astr ?cmd)) (length w) = Some (sds_of w [])" using sdsnewlen_Some [OF l(1)] by metis
  have k: "sds_wf (sds_of w [])" "sds_str (sds_of w []) = w" using l(1) by simp_all
  obtain i d1 ev where r: "dictReplace d (sds_of w []) cb = Some (i, d1, ev)" "cbd_wf d1" "cbd_map d1 = (cbd_map d)(w \<mapsto> cb)"
    using cbd.replace_ok [OF Cons.prems(1) k(1) Cons.prems(2), of cb] cbd_set_val [OF Cons.prems(1)] k(2) by auto
  have "dict_size d1 \<le> max (dict_size d) (max 8 (4 * dict_used d)) \<and> dict_used d1 \<le> Suc (dict_used d)"
    using replace_growth [OF r(1) Cons.prems(2)] Cons.prems(3) by simp
  then have b: "dict_size d1 \<le> 2 ^ 29" "dict_used d1 + length ws \<le> 2 ^ 27" using Cons.prems(2,3) by auto
  have e: "?cmd = map Some ((pre @ enc (RString w)) @ enc_words ws) @ [Some NUL]" by simp
  obtain d' where d': "subscribe_loop ?cmd (length (pre @ enc (RString w))) cb d1 = Some d'" "cbd_wf d'"
      "cbd_map d' = (\<lambda>x. if x \<in> set ws then Some cb else cbd_map d1 x)"
    using Cons.IH [OF r(2) b l(3), of "pre @ enc (RString w)"] unfolding e by blast
  have "subscribe_loop ?cmd (length pre) cb d = Some d'"
    unfolding subscribe_loop.simps [of ?cmd "length pre"] a using n r(1) d'(1) by simp
  then show ?case using d'(2,3) r(3) by (auto simp: fun_eq_iff)
qed

section \<open>Names of commands\<close>

lemma to_lower_CR [simp]: "to_lower c = CR \<longleftrightarrow> c = CR" "CR = to_lower c \<longleftrightarrow> c = CR"
proof -
  have "of_char (to_lower c) = (13 :: nat) \<Longrightarrow> of_char c = (13 :: nat)"
    by (auto simp: to_lower_def of_char_of split: if_splits)
  then show "to_lower c = CR \<longleftrightarrow> c = CR" by (auto simp: to_lower_def)
  then show "CR = to_lower c \<longleftrightarrow> c = CR" by auto
qed

lemma to_lower_CR_id [simp]: "to_lower CR = CR"
  by simp

lemma strncase_word:
  "CR \<notin> set w \<Longrightarrow> CR \<notin> set lit \<Longrightarrow>
    strncase_eq (map Some (w @ CRLF) @ m) (lit @ CRLF) = Some (map to_lower w = map to_lower lit)"
proof (induction w arbitrary: lit)
  case Nil
  have "to_lower CR \<noteq> to_lower a" if "CR \<noteq> a" for a using that unfolding to_lower_CR_id by simp
  then show ?case using Nil by (cases lit) auto
next
  case (Cons c w)
  then show ?case by (cases lit) auto
qed

text \<open>The name without the \<open>p\<close> of the pattern variants.\<close>

definition is_pvariant :: "string \<Rightarrow> bool" where
  "is_pvariant w \<longleftrightarrow> w \<noteq> [] \<and> to_lower (hd w) = CHR ''p''"

definition base_name :: "string \<Rightarrow> string" where
  "base_name w = map to_lower (if is_pvariant w then tl w else w)"

text \<open>Everything of a context but one table and its output buffer, and the hook that asks for write events.\<close>

abbreviation appended :: "redisAsyncContext \<Rightarrow> sdshdr \<Rightarrow> redisAsyncContext" where
  "appended ac ob \<equiv> ac\<lparr>ac_c := (ac_c ac)\<lparr>cx_obuf := ob\<rparr>\<rparr>"

lemma command_argv_eq:
  fixes ch :: "string list"
  assumes "\<not> closing ac" and "CR \<notin> set w" and "argv_holds argv argvlen (w # ch)" and "int (length (enc_cmd (w # ch))) < INT_MAX"
    and "cb = \<lparr>cb_fn = fn, cb_privdata = privdata\<rparr>" and "sub = (ch \<noteq> [] \<and> base_name w = ''subscribe'')"
    and "unsub = (base_name w = ''unsubscribe'')" and "pre = CHR ''*'' # show_nat (Suc (length ch)) @ CRLF @ enc (RString w)"
    and "cmd = map Some (pre @ enc_words ch) @ [Some NUL]"
  shows "redisAsyncCommandArgv ac fn privdata (int (length (w # ch))) argv argvlen s = do {
     r \<leftarrow> (if sub then do {
             let ac = set_flag REDIS_SUBSCRIBED ac;
             d \<leftarrow> subscribe_loop cmd (length pre) cb (if is_pvariant w then ac_patterns ac else ac_channels ac);
             Some (Some (if is_pvariant w then ac\<lparr>ac_patterns := d\<rparr> else ac\<lparr>ac_channels := d\<rparr>)) }
           else if unsub then Some (if has_flag ac REDIS_SUBSCRIBED then Some ac else None)
           else if has_flag ac REDIS_SUBSCRIBED then do {
             l \<leftarrow> redisPushCallback cb (ac_invalid ac);
             Some (Some (ac\<lparr>ac_invalid := l\<rparr>)) }
           else do {
             l \<leftarrow> redisPushCallback cb (ac_replies ac);
             Some (Some (ac\<lparr>ac_replies := l\<rparr>)) });
     (case r of
        None \<Rightarrow> Some (REDIS_ERR, ac, s)
      | Some ac \<Rightarrow> do {
          cx \<leftarrow> redisAppendCommandRaw (ac_c ac) cmd (length (enc_cmd (w # ch)));
          let ac = ac\<lparr>ac_c := cx\<rparr>;
          Some (REDIS_OK, ac, call_addWrite ac s) }) }"
proof -
  let ?gap = "CHR ''*'' # show_nat (Suc (length ch)) @ CRLF" and ?e = "enc_cmd (w # ch)"
  have cmd: "cmd = map Some ?e @ [Some NUL]" unfolding assms(8,9) by simp
  have lw: "length w \<le> 2147483647" using assms(4) by (simp add: INT_MAX_def)
  have sz: "c_size_t (int (length ?e)) = length ?e" using assms(4) by (intro c_size_t_of_nat) (simp add: INT_MAX_def)
  have f: "redisFormatCommandArgv (int (length (w # ch))) argv argvlen = Some (int (length ?e), cmd)"
    unfolding cmd by (rule format_argv_of [OF assms(3,4)])
  let ?cstr = "length ?gap + 3 + length (show_nat (length w))"
  have g: "CHR ''$'' \<notin> set ?gap" "NUL \<notin> set ?gap"
    using show_nat_digits [of "CHR ''$''" "Suc (length ch)"] digit_not_special show_nat_no_NUL by auto
  have a: "nextArgument cmd 0 = Some (Some (?cstr, length w, length pre))"
    using next_argument [OF g lw, of "[]" "enc_words ch"] unfolding assms(8,9) by simp
  have n: "mem_get cmd (length pre) = Some (if ch = [] then NUL else CHR ''$'')"
    unfolding assms(9) by (cases ch) (simp_all add: mem_get_def nth_append)
  have dc: "drop ?cstr cmd = map Some (w @ CRLF @ enc_words ch) @ [Some NUL]"
    unfolding assms(8,9) by (simp add: numeral_eq_Suc)
  have c0: "mem_get cmd ?cstr = Some (hd (w @ CRLF))"
  proof -
    have "mem_get cmd ?cstr = mem_get (drop ?cstr cmd) 0" by (auto simp: mem_get_def)
    then show ?thesis unfolding dc by (cases w) (simp_all add: mem_get_def)
  qed
  have pv: "(to_lower (hd (w @ CRLF)) = CHR ''p'') = is_pvariant w" by (cases w) (simp_all add: is_pvariant_def)
  let ?w = "if is_pvariant w then tl w else w"
  have d: "drop (if is_pvariant w then ?cstr + 1 else ?cstr) cmd = map Some (?w @ CRLF) @ map Some (enc_words ch) @ [Some NUL]"
  proof (cases "is_pvariant w")
    case True
    then have "drop (?cstr + 1) cmd = drop 1 (map Some (w @ CRLF @ enc_words ch) @ [Some NUL])" unfolding dc [symmetric] drop_drop by simp
    then show ?thesis using True by (cases w) (simp_all add: is_pvariant_def)
  qed (use dc in simp)
  have w: "CR \<notin> set ?w" using assms(2) by (cases w) auto
  have low: "map to_lower ''subscribe'' = ''subscribe''" "map to_lower ''unsubscribe'' = ''unsubscribe''" by (code_simp, code_simp)
  have s: "strncase_eq (drop (if is_pvariant w then ?cstr + 1 else ?cstr) cmd) (''subscribe'' @ CRLF) = Some (base_name w = ''subscribe'')"
    unfolding d base_name_def by (subst strncase_word [OF w]) (simp, simp only: low)
  have u: "strncase_eq (drop (if is_pvariant w then ?cstr + 1 else ?cstr) cmd) (''unsubscribe'' @ CRLF) = Some (base_name w = ''unsubscribe'')"
    unfolding d base_name_def by (subst strncase_word [OF w]) (simp, simp only: low)
  have nc: "has_flag ac (REDIS_DISCONNECTING OR REDIS_FREEING) = False" using assms(1) by simp
  show ?thesis
    unfolding redisAsyncCommandArgv_def f Option.bind.bind_lunit prod.case redisAsyncCommandRaw_def nc if_False a n c0 Let_def pv s u
      assms(5) [symmetric] sz
    unfolding assms(6,7) by (cases "ch = []"; cases "base_name w = ''subscribe''") (simp_all add: Let_def)
qed

section \<open>Properties\<close>

definition subscribes :: "string list \<Rightarrow> bool" where
  "subscribes ws \<longleftrightarrow> 1 < length ws \<and> base_name (hd ws) = ''subscribe''"

definition unsubscribes :: "string list \<Rightarrow> bool" where
  "unsubscribes ws \<longleftrightarrow> base_name (hd ws) = ''unsubscribe''"

text \<open>A context that accepts the command \<open>ws\<close>: it is not closing and there is room.\<close>

definition accepts :: "redisAsyncContext \<Rightarrow> string list \<Rightarrow> bool" where
  "accepts ac ws \<longleftrightarrow> async_wf ac \<and> \<not> closing ac \<and> ws \<noteq> [] \<and> CR \<notin> set (hd ws) \<and>
     (length (sds_str (cx_obuf (ac_c ac))) + length (enc_cmd ws)) * 2 \<le> nat INT_MAX \<and>
     (subscribes ws \<longrightarrow> (\<forall>d\<in>{ac_channels ac, ac_patterns ac}. dict_size d \<le> 2 ^ 29 \<and> dict_used d + length ws \<le> 2 ^ 27))"

lemma accepts_append:
  assumes "accepts ac ws" and "cx_obuf c = cx_obuf (ac_c ac)"
  shows "\<exists>ob. redisAppendCommandRaw c (map Some (enc_cmd ws) @ [Some NUL]) (length (enc_cmd ws)) = Some (c\<lparr>cx_obuf := ob\<rparr>) \<and>
    sds_wf ob \<and> sds_str ob = sds_str (cx_obuf (ac_c ac)) @ enc_cmd ws"
  using append_raw_ok [of c "enc_cmd ws" "[Some NUL]"] assms by (auto simp: accepts_def async_wf_def)

lemma accepts_len: "accepts ac ws \<Longrightarrow> int (length (enc_cmd ws)) < INT_MAX"
  by (simp add: accepts_def INT_MAX_def)

lemma command_plain:
  assumes "accepts ac ws" and "argv_holds argv argvlen ws" and "\<not> subscribes ws" and "\<not> unsubscribes ws"
  shows "\<exists>ob l. redisAsyncCommandArgv ac fn privdata (int (length ws)) argv argvlen s
      = Some (REDIS_OK, appended (if has_flag ac REDIS_SUBSCRIBED then ac\<lparr>ac_invalid := l\<rparr> else ac\<lparr>ac_replies := l\<rparr>) ob, call_addWrite ac s) \<and>
    sds_wf ob \<and> sds_str ob = sds_str (cx_obuf (ac_c ac)) @ enc_cmd ws \<and> cl_inv l \<and>
    cl_items l = cl_items (if has_flag ac REDIS_SUBSCRIBED then ac_invalid ac else ac_replies ac) @ [\<lparr>cb_fn = fn, cb_privdata = privdata\<rparr>]"
proof -
  obtain w ch where ws: "ws = w # ch" using assms(1) by (cases ws) (auto simp: accepts_def)
  let ?l = "if has_flag ac REDIS_SUBSCRIBED then ac_invalid ac else ac_replies ac"
  have k: "(ch \<noteq> [] \<and> base_name w = ''subscribe'') = False" "(base_name w = ''unsubscribe'') = False"
    using assms(3,4) ws by (auto simp: subscribes_def unsubscribes_def)
  have a: "\<not> closing ac" "CR \<notin> set w" "cl_inv ?l" using assms(1) ws by (auto simp: accepts_def async_wf_def)
  obtain l where l: "redisPushCallback \<lparr>cb_fn = fn, cb_privdata = privdata\<rparr> ?l = Some l" "cl_inv l"
      "cl_items l = cl_items ?l @ [\<lparr>cb_fn = fn, cb_privdata = privdata\<rparr>]"
    using cl.push_law [OF a(3)] by blast
  obtain ob where ob: "redisAppendCommandRaw (ac_c ac) (map Some (enc_cmd ws) @ [Some NUL]) (length (enc_cmd ws)) = Some ((ac_c ac)\<lparr>cx_obuf := ob\<rparr>)"
      "sds_wf ob" "sds_str ob = sds_str (cx_obuf (ac_c ac)) @ enc_cmd ws"
    using accepts_append [OF assms(1) refl] by blast
  have e: "map Some ((CHR ''*'' # show_nat (Suc (length ch)) @ CRLF @ enc (RString w)) @ enc_words ch) @ [Some NUL]
      = map Some (enc_cmd ws) @ [Some NUL]" unfolding ws by simp
  note eq = command_argv_eq [OF a(1,2) assms(2) [unfolded ws] accepts_len [OF assms(1), unfolded ws] refl k [symmetric] refl refl,
      unfolded e [unfolded ws], folded ws]
  have "redisAsyncCommandArgv ac fn privdata (int (length ws)) argv argvlen s
      = Some (REDIS_OK, appended (if has_flag ac REDIS_SUBSCRIBED then ac\<lparr>ac_invalid := l\<rparr> else ac\<lparr>ac_replies := l\<rparr>) ob, call_addWrite ac s)"
    unfolding eq using l(1) ob(1) by (cases "has_flag ac REDIS_SUBSCRIBED") (simp_all add: call_addWrite_def)
  then show ?thesis using l ob by blast
qed

lemma command_subscribe:
  assumes "accepts ac ws" and "argv_holds argv argvlen ws" and "subscribes ws"
  shows "\<exists>ob d. redisAsyncCommandArgv ac fn privdata (int (length ws)) argv argvlen s
      = Some (REDIS_OK, appended (set_flag REDIS_SUBSCRIBED (if is_pvariant (hd ws) then ac\<lparr>ac_patterns := d\<rparr> else ac\<lparr>ac_channels := d\<rparr>)) ob,
          call_addWrite ac s) \<and>
    sds_wf ob \<and> sds_str ob = sds_str (cx_obuf (ac_c ac)) @ enc_cmd ws \<and> cbd_wf d \<and>
    cbd_map d = (\<lambda>x. if x \<in> set (tl ws) then Some \<lparr>cb_fn = fn, cb_privdata = privdata\<rparr>
       else cbd_map (if is_pvariant (hd ws) then ac_patterns ac else ac_channels ac) x)"
proof -
  obtain w ch where ws: "ws = w # ch" using assms(1) by (cases ws) (auto simp: accepts_def)
  let ?d = "if is_pvariant w then ac_patterns ac else ac_channels ac" and ?cb = "\<lparr>cb_fn = fn, cb_privdata = privdata\<rparr>"
  let ?pre = "CHR ''*'' # show_nat (Suc (length ch)) @ CRLF @ enc (RString w)"
  have k: "(ch \<noteq> [] \<and> base_name w = ''subscribe'') = True" using assms(3) ws by (auto simp: subscribes_def)
  have a: "\<not> closing ac" "CR \<notin> set w" "cbd_wf ?d" "dict_size ?d \<le> 2 ^ 29" "dict_used ?d + length ch \<le> 2 ^ 27"
    using assms(1,3) ws by (auto simp: accepts_def async_wf_def)
  have "length (enc_words ch) \<le> 2147483647" using accepts_len [OF assms(1)] unfolding ws by (simp add: INT_MAX_def)
  from subscribe_loop_ok [OF this a(3-5), of ?pre ?cb] obtain d where
    d: "subscribe_loop (map Some (?pre @ enc_words ch) @ [Some NUL]) (length ?pre) ?cb ?d = Some d" "cbd_wf d"
      "cbd_map d = (\<lambda>x. if x \<in> set ch then Some ?cb else cbd_map ?d x)" by blast
  let ?ac = "set_flag REDIS_SUBSCRIBED (if is_pvariant w then ac\<lparr>ac_patterns := d\<rparr> else ac\<lparr>ac_channels := d\<rparr>)"
  have o: "cx_obuf (ac_c ?ac) = cx_obuf (ac_c ac)" by (simp add: set_flag_def)
  obtain ob where ob: "redisAppendCommandRaw (ac_c ?ac) (map Some (enc_cmd ws) @ [Some NUL]) (length (enc_cmd ws)) = Some ((ac_c ?ac)\<lparr>cx_obuf := ob\<rparr>)"
      "sds_wf ob" "sds_str ob = sds_str (cx_obuf (ac_c ac)) @ enc_cmd ws"
    using accepts_append [OF assms(1) o] by blast
  have e: "map Some (?pre @ enc_words ch) @ [Some NUL] = map Some (enc_cmd ws) @ [Some NUL]" unfolding ws by simp
  note eq = command_argv_eq [OF a(1,2) assms(2) [unfolded ws] accepts_len [OF assms(1), unfolded ws] refl k [symmetric] refl refl refl,
      unfolded e, folded ws]
  have s: "(if is_pvariant w then (set_flag REDIS_SUBSCRIBED ac)\<lparr>ac_patterns := d\<rparr> else (set_flag REDIS_SUBSCRIBED ac)\<lparr>ac_channels := d\<rparr>) = ?ac"
    by (simp add: set_flag_def)
  have "redisAsyncCommandArgv ac fn privdata (int (length ws)) argv argvlen s = Some (REDIS_OK, appended ?ac ob, call_addWrite ac s)"
    unfolding eq if_True Let_def set_flag_sel d(1) [unfolded e] Option.bind.bind_lunit s option.case ob(1)
    by (simp add: call_addWrite_def)
  moreover have "hd ws = w" "tl ws = ch" using ws by simp_all
  ultimately show ?thesis using d(2,3) ob(2,3) by (simp only:) blast
qed

lemma command_unsubscribe:
  assumes "accepts ac ws" and "argv_holds argv argvlen ws" and "unsubscribes ws"
  shows "if has_flag ac REDIS_SUBSCRIBED
    then \<exists>ob. redisAsyncCommandArgv ac fn privdata (int (length ws)) argv argvlen s = Some (REDIS_OK, appended ac ob, call_addWrite ac s) \<and>
      sds_wf ob \<and> sds_str ob = sds_str (cx_obuf (ac_c ac)) @ enc_cmd ws
    else redisAsyncCommandArgv ac fn privdata (int (length ws)) argv argvlen s = Some (REDIS_ERR, ac, s)"
proof -
  obtain w ch where ws: "ws = w # ch" using assms(1) by (cases ws) (auto simp: accepts_def)
  have k: "(ch \<noteq> [] \<and> base_name w = ''subscribe'') = False" "(base_name w = ''unsubscribe'') = True"
    using assms(3) ws by (auto simp: unsubscribes_def)
  have a: "\<not> closing ac" "CR \<notin> set w" using assms(1) ws by (auto simp: accepts_def)
  obtain ob where ob: "redisAppendCommandRaw (ac_c ac) (map Some (enc_cmd ws) @ [Some NUL]) (length (enc_cmd ws)) = Some ((ac_c ac)\<lparr>cx_obuf := ob\<rparr>)"
      "sds_wf ob" "sds_str ob = sds_str (cx_obuf (ac_c ac)) @ enc_cmd ws"
    using accepts_append [OF assms(1) refl] by blast
  have e: "map Some ((CHR ''*'' # show_nat (Suc (length ch)) @ CRLF @ enc (RString w)) @ enc_words ch) @ [Some NUL]
      = map Some (enc_cmd ws) @ [Some NUL]" unfolding ws by simp
  note eq = command_argv_eq [OF a(1,2) assms(2) [unfolded ws] accepts_len [OF assms(1), unfolded ws] refl k [symmetric] refl refl,
      unfolded e [unfolded ws], folded ws]
  show ?thesis
  proof (cases "has_flag ac REDIS_SUBSCRIBED")
    case True
    then have "redisAsyncCommandArgv ac fn privdata (int (length ws)) argv argvlen s = Some (REDIS_OK, appended ac ob, call_addWrite ac s)"
      unfolding eq using ob(1) by (simp add: call_addWrite_def)
    then show ?thesis using True ob by auto
  qed (unfold eq, simp)
qed

text \<open>
  A command other than (un)subscribing goes out exactly as encoded, behind what is
  already pending, and its callback goes to the end of the queue of callbacks: of those waiting
  for replies, or on a subscribed context of those waiting for errors. Nothing else of the
  context changes; a write event is asked for.
\<close>

lemma async_command_queued:
  assumes "accepts ac ws" and "argv_holds argv argvlen ws" and "\<not> subscribes ws" and "\<not> unsubscribes ws"
  shows "\<exists>ob l. redisAsyncCommandArgv ac fn privdata (int (length ws)) argv argvlen s
      = Some (REDIS_OK, appended (if has_flag ac REDIS_SUBSCRIBED then ac\<lparr>ac_invalid := l\<rparr> else ac\<lparr>ac_replies := l\<rparr>) ob, call_addWrite ac s) \<and>
    sds_str ob = sds_str (cx_obuf (ac_c ac)) @ enc_cmd ws \<and>
    cl_items l = cl_items (if has_flag ac REDIS_SUBSCRIBED then ac_invalid ac else ac_replies ac) @ [\<lparr>cb_fn = fn, cb_privdata = privdata\<rparr>]"
  using command_plain [OF assms] by blast

text \<open>
  C14 (functional). Subscribing registers the callback for every channel named, whatever bytes the
  names contain, in the dictionary of channels or of patterns, replacing earlier registrations of
  the same name and keeping all others, and marks the context as subscribed; the queues of
  callbacks stay as they are.
\<close>

theorem async_subscribe_registers:
  assumes "accepts ac ws" and "argv_holds argv argvlen ws" and "subscribes ws"
  shows "\<exists>ob d. redisAsyncCommandArgv ac fn privdata (int (length ws)) argv argvlen s
      = Some (REDIS_OK, appended (set_flag REDIS_SUBSCRIBED (if is_pvariant (hd ws) then ac\<lparr>ac_patterns := d\<rparr> else ac\<lparr>ac_channels := d\<rparr>)) ob,
          call_addWrite ac s) \<and>
    sds_str ob = sds_str (cx_obuf (ac_c ac)) @ enc_cmd ws \<and>
    cbd_map d = (\<lambda>x. if x \<in> set (tl ws) then Some \<lparr>cb_fn = fn, cb_privdata = privdata\<rparr>
       else cbd_map (if is_pvariant (hd ws) then ac_patterns ac else ac_channels ac) x)"
  using command_subscribe [OF assms] by blast


lemma one_waiting_accepts:
  assumes "ws \<noteq> []" and "CR \<notin> set (hd ws)" and "length (enc_cmd ws) * 2 \<le> nat INT_MAX" and "length ws \<le> 2 ^ 27"
  shows "accepts one_waiting ws"
proof -
  have "\<not> closing one_waiting"
  proof -
    have "\<not> bit (2 :: int) 2 \<and> \<not> bit (2 :: int) 3" by code_simp
    then show ?thesis by (simp add: closing_def one_waiting_def)
  qed
  moreover have "sds_str (cx_obuf (ac_c one_waiting)) = []" by (simp add: one_waiting_def blank_context_def)
  ultimately show ?thesis using assms one_waiting_ok(1)
    by (simp add: accepts_def one_waiting_def redisAsyncInitialize_def dictCreate_def dictInit_def dictReset_def del: enc.simps)
qed

lemma short_accepts:
  "accepts one_waiting [''GET'', ''k'']" "accepts one_waiting [''PSubscribe'', ''news.*'', [CHR ''$'', NUL]]"
  by (rule one_waiting_accepts; simp add: INT_MAX_def show_nat.simps)+

lemma short_kinds:
  "\<not> subscribes [''GET'', ''k'']" "\<not> unsubscribes [''GET'', ''k'']" "subscribes [''PSubscribe'', ''news.*'', [CHR ''$'', NUL]]"
  by code_simp+

lemma one_waiting_not_subscribed: "\<not> has_flag one_waiting REDIS_SUBSCRIBED"
proof -
  have "\<not> bit (2 :: int) 5" by code_simp
  then show ?thesis by (simp add: one_waiting_def)
qed

theorem async_subscribe_registers_witness:
  "\<exists>ac' s'. redisAsyncCommandArgv one_waiting (Some 8) 3 3 (map (map Some) [''PSubscribe'', ''news.*'', [CHR ''$'', NUL]])
      (Some [10, 6, 2]) calm_surroundings = Some (REDIS_OK, ac', s') \<and>
    cbd_map (ac_patterns ac') ''news.*'' = Some \<lparr>cb_fn = Some 8, cb_privdata = 3\<rparr> \<and>
    cbd_map (ac_patterns ac') [CHR ''$'', NUL] = Some \<lparr>cb_fn = Some 8, cb_privdata = 3\<rparr>"
proof -
  have "is_pvariant ''PSubscribe''" by code_simp
  then show ?thesis
    using async_subscribe_registers [OF short_accepts(2) argv_holds_lens short_kinds(3), of "Some 8" 3 calm_surroundings]
    by (fastforce simp: numeral_eq_Suc simp del: enc.simps)
qed


end
