(* ===== verification/AsyncDispatch.thy ===== *)
theory AsyncDispatch
  imports AsyncCommand
begin

text \<open>
  Delivering replies: the callbacks run in the order of the commands, each with the reply to its own
  command, and what they issue in turn joins the queue and the output in the same order.
\<close>

section \<open>Callbacks that issue commands\<close>

text \<open>A command with its callback, and callbacks described by the commands they issue.\<close>

type_synonym issue = "nat option \<times> nat \<times> string list"

type_synonym script = "nat \<Rightarrow> nat \<Rightarrow> nat \<Rightarrow> reply_heap \<Rightarrow> issue list"

definition issue_call :: "issue \<Rightarrow> api_call" where
  "issue_call = (\<lambda>(fn, privdata, ws). CommandArgv fn privdata (int (length ws)) (map (map Some) ws) (Some (map length ws)))"

definition issue_cb :: "issue \<Rightarrow> redisCallback" where
  "issue_cb = (\<lambda>(fn, privdata, ws). \<lparr>cb_fn = fn, cb_privdata = privdata\<rparr>)"

definition issue_text :: "issue \<Rightarrow> string" where
  "issue_text = (\<lambda>(fn, privdata, ws). enc_cmd ws)"

definition issue_plain :: "issue \<Rightarrow> bool" where
  "issue_plain = (\<lambda>(fn, privdata, ws). ws \<noteq> [] \<and> CR \<notin> set (hd ws) \<and> \<not> subscribes ws \<and> \<not> unsubscribes ws)"

definition run_script :: "script \<Rightarrow> user_code" where
  "run_script script fn reply privdata h = map issue_call (script fn reply privdata h)"

text \<open>At most \<open>q\<close> bytes of commands per callback, none of which subscribes.\<close>

definition script_ok :: "nat \<Rightarrow> script \<Rightarrow> bool" where
  "script_ok q script \<longleftrightarrow> (\<forall>fn reply privdata h. list_all issue_plain (script fn reply privdata h) \<and>
     length (concat (map issue_text (script fn reply privdata h))) \<le> q)"

fun is_callback :: "async_event \<Rightarrow> bool" where
  "is_callback (Callback fn reply privdata) = True"
| "is_callback e = False"

abbreviation callbacks :: "'w surroundings \<Rightarrow> async_event list" where
  "callbacks s \<equiv> filter is_callback (su_log s)"

text \<open>The events of \<open>s'\<close> are those of \<open>s\<close> and some for the hooks.\<close>

definition hooks_only :: "'w surroundings \<Rightarrow> 'w surroundings \<Rightarrow> bool" where
  "hooks_only s s' \<longleftrightarrow> su_heap s' = su_heap s \<and> su_sys s' = su_sys s \<and> callbacks s' = callbacks s"

lemma hooks_only_trans: "hooks_only a b \<Longrightarrow> hooks_only b c \<Longrightarrow> hooks_only a c"
  by (simp add: hooks_only_def)

lemma hooks_only_calls [simp]: "hooks_only s s" "hooks_only s (call_addWrite ac s)" "hooks_only s (call_addRead ac s)"
  by (simp_all add: hooks_only_def call_addWrite_def call_addRead_def add_log_def)

lemma issue_runs:
  "async_wf ac \<Longrightarrow> \<not> closing ac \<Longrightarrow> \<not> has_flag ac REDIS_SUBSCRIBED \<Longrightarrow> list_all issue_plain xs \<Longrightarrow>
    (length (sds_str (cx_obuf (ac_c ac))) + length (concat (map issue_text xs))) * 2 \<le> nat INT_MAX \<Longrightarrow>
    \<exists>ob l s'. exec_calls (map issue_call xs) ac s = Some (appended (ac\<lparr>ac_replies := l\<rparr>) ob, s') \<and> sds_wf ob \<and> cl_inv l \<and>
      sds_str ob = sds_str (cx_obuf (ac_c ac)) @ concat (map issue_text xs) \<and>
      cl_items l = cl_items (ac_replies ac) @ map issue_cb xs \<and> hooks_only s s'"
proof (induction xs arbitrary: ac s)
  case Nil
  then show ?case
    by (intro exI [of _ "cx_obuf (ac_c ac)"] exI [of _ "ac_replies ac"] exI [of _ s]) (simp add: async_wf_def)
next
  case (Cons x xs)
  obtain fn pd ws where x: "x = (fn, pd, ws)" by (cases x) auto
  have p: "\<not> subscribes ws" "\<not> unsubscribes ws" "accepts ac ws"
    using Cons.prems x by (auto simp: issue_plain_def issue_text_def accepts_def simp del: enc.simps)
  obtain ob l where c: "redisAsyncCommandArgv ac fn pd (int (length ws)) (map (map Some) ws) (Some (map length ws)) s
      = Some (REDIS_OK, appended (ac\<lparr>ac_replies := l\<rparr>) ob, call_addWrite ac s)" "sds_wf ob" "cl_inv l"
      "sds_str ob = sds_str (cx_obuf (ac_c ac)) @ issue_text x" "cl_items l = cl_items (ac_replies ac) @ [issue_cb x]"
    using command_plain [OF p(3) argv_holds_lens p(1,2), of fn pd s] Cons.prems(3)
    by (auto simp: x issue_cb_def issue_text_def simp del: enc.simps)
  let ?ac = "appended (ac\<lparr>ac_replies := l\<rparr>) ob"
  have "async_wf ?ac" "\<not> closing ?ac" "\<not> has_flag ?ac REDIS_SUBSCRIBED" "list_all issue_plain xs"
      "(length (sds_str (cx_obuf (ac_c ?ac))) + length (concat (map issue_text xs))) * 2 \<le> nat INT_MAX"
    using Cons.prems c by (simp_all add: async_wf_def closing_def)
  from Cons.IH [OF this, of "call_addWrite ac s"] obtain ob2 l2 s2 where
    r: "exec_calls (map issue_call xs) ?ac (call_addWrite ac s) = Some (appended (?ac\<lparr>ac_replies := l2\<rparr>) ob2, s2)" "sds_wf ob2" "cl_inv l2"
      "sds_str ob2 = sds_str ob @ concat (map issue_text xs)" "cl_items l2 = cl_items l @ map issue_cb xs"
      "hooks_only (call_addWrite ac s) s2" by auto
  have "exec_calls (map issue_call (x # xs)) ac s = Some (appended (ac\<lparr>ac_replies := l2\<rparr>) ob2, s2)"
    using c(1) r(1) by (simp add: x issue_call_def)
  then show ?case using r(2-) c(4,5) hooks_only_trans [OF hooks_only_calls(2) r(6)]
    by (intro exI [of _ ob2] exI [of _ l2] exI [of _ s2]) simp
qed

lemma flag_roundtrip: "\<not> bit (x :: int) 4 \<Longrightarrow> (x OR REDIS_IN_CALLBACK) AND NOT REDIS_IN_CALLBACK = x"
  by (rule bit_eqI) (auto simp: flag_simps)

text \<open>What a callback issues when it is shown a reply.\<close>

definition issued :: "script \<Rightarrow> redisCallback \<Rightarrow> nat \<Rightarrow> reply_heap \<Rightarrow> issue list" where
  "issued script cb reply h = (case cb_fn cb of None \<Rightarrow> [] | Some fn \<Rightarrow> script fn reply (cb_privdata cb) h)"

definition shown :: "redisCallback \<Rightarrow> nat \<Rightarrow> async_event list" where
  "shown cb reply = (case cb_fn cb of None \<Rightarrow> [] | Some fn \<Rightarrow> [Callback fn reply (cb_privdata cb)])"

lemma callback_runs:
  assumes "async_wf ac" and "\<not> closing ac" and "\<not> has_flag ac REDIS_SUBSCRIBED" and "\<not> has_flag ac REDIS_IN_CALLBACK"
    and "script_ok q script" and "(length (sds_str (cx_obuf (ac_c ac))) + q) * 2 \<le> nat INT_MAX"
  shows "\<exists>ob l s'. redisRunCallback (run_script script) ac cb reply s = Some (appended (ac\<lparr>ac_replies := l\<rparr>) ob, s') \<and> sds_wf ob \<and>
      cl_inv l \<and> sds_str ob = sds_str (cx_obuf (ac_c ac)) @ concat (map issue_text (issued script cb reply (su_heap s))) \<and>
      cl_items l = cl_items (ac_replies ac) @ map issue_cb (issued script cb reply (su_heap s)) \<and>
      su_heap s' = su_heap s \<and> su_sys s' = su_sys s \<and> callbacks s' = callbacks s @ shown cb reply"
proof (cases "cb_fn cb")
  case None
  then show ?thesis using assms(1)
    by (intro exI [of _ "cx_obuf (ac_c ac)"] exI [of _ "ac_replies ac"] exI [of _ s])
      (simp add: redisRunCallback_def issued_def shown_def async_wf_def)
next
  case (Some fn)
  let ?ac = "set_flag REDIS_IN_CALLBACK ac" and ?s = "add_log [Callback fn reply (cb_privdata cb)] s"
  let ?xs = "script fn reply (cb_privdata cb) (su_heap s)"
  have x: "list_all issue_plain ?xs" "length (concat (map issue_text ?xs)) \<le> q"
    using assms(5) by (auto simp: script_ok_def)
  have o: "cx_obuf (ac_c ?ac) = cx_obuf (ac_c ac)" by (simp add: set_flag_def)
  have a: "async_wf ?ac" "\<not> closing ?ac" "\<not> has_flag ?ac REDIS_SUBSCRIBED"
      "(length (sds_str (cx_obuf (ac_c ?ac))) + length (concat (map issue_text ?xs))) * 2 \<le> nat INT_MAX"
    unfolding o using assms(1-3,6) x(2) by (simp_all add: async_wf_def o closing_def flag_simps)
  from issue_runs [OF a(1-3) x(1) a(4), of ?s] obtain ob l s' where
    r: "exec_calls (map issue_call ?xs) ?ac ?s = Some (appended (?ac\<lparr>ac_replies := l\<rparr>) ob, s')" "sds_wf ob" "cl_inv l"
      "sds_str ob = sds_str (cx_obuf (ac_c ac)) @ concat (map issue_text ?xs)" "cl_items l = cl_items (ac_replies ac) @ map issue_cb ?xs"
      "hooks_only ?s s'" unfolding o by auto
  have "clear_flag REDIS_IN_CALLBACK (appended (?ac\<lparr>ac_replies := l\<rparr>) ob) = appended (ac\<lparr>ac_replies := l\<rparr>) ob"
    using flag_roundtrip [of "cx_flags (ac_c ac)"] assms(4) by (simp add: clear_flag_def set_flag_def)
  then have "redisRunCallback (run_script script) ac cb reply s = Some (appended (ac\<lparr>ac_replies := l\<rparr>) ob, s')"
    using Some r(1) by (simp add: redisRunCallback_def run_script_def)
  moreover have "su_heap s' = su_heap s \<and> su_sys s' = su_sys s \<and> callbacks s' = callbacks s @ [Callback fn reply (cb_privdata cb)]"
    using r(6) by (simp add: hooks_only_def add_log_def)
  ultimately show ?thesis using r(2-5) Some
    by (intro exI [of _ ob] exI [of _ l] exI [of _ s']) (simp add: issued_def shown_def)
qed

section \<open>Processing replies\<close>

definition serving :: "redisAsyncContext \<Rightarrow> redisReader \<Rightarrow> bool" where
  "serving ac r \<longleftrightarrow> async_wf ac \<and> \<not> closing ac \<and> \<not> has_flag ac REDIS_SUBSCRIBED \<and> \<not> has_flag ac REDIS_IN_CALLBACK \<and>
     cx_flags (ac_c ac) AND REDIS_BLOCK = 0 \<and> cx_fn (ac_c ac) = Some defaultFunctions \<and> cx_reader (ac_c ac) = Some r"

lemma getReply_nonblock:
  assumes "serving ac r" and "redisReplyReaderGetReply r h = Some (REDIS_OK, p, r', h')"
  shows "redisGetReply os (ac_c ac) h w = Some (REDIS_OK, p, (ac_c ac)\<lparr>cx_reader := Some r'\<rparr>, h', w)"
  using assms by (simp add: serving_def redisGetReply_def redisGetReplyFromReader_def redisCreateReplyReader_def
      REDIS_OK_def REDIS_ERR_def)

lemma free_reply_added:
  assumes "reply_added h h' v" and "0 < hp_next h"
  shows "freeReplyObject (hp_next h) h' = Some (without (hp_next h) (nodes v) h')"
proof -
  have "free_reply (hp_next h') (hp_next h) h' = Some (without (hp_next h) (nodes v) h')"
    using assms by (intro free_reply_ok) (auto simp: reply_added_def)
  then show ?thesis by (simp add: freeReplyObject_def)
qed

lemma process_one:
  assumes "serving ac r" and "idle r" and "rest r = enc v @ y" and "sendable 8 v" and "cl_items (ac_replies ac) = c # cs"
    and "script_ok q script" and "(length (sds_str (cx_obuf (ac_c ac))) + q) * 2 \<le> nat INT_MAX" and "0 < hp_next (su_heap s)"
  shows "\<exists>ac' r' s' h. process_loop os (run_script script) cb ac s = process_loop os (run_script script) (Some c) ac' s' \<and>
    serving ac' r' \<and> idle r' \<and> rest r' = y \<and> reply_in (hp_cells h) (hp_next (su_heap s)) v \<and>
    sds_str (cx_obuf (ac_c ac')) = sds_str (cx_obuf (ac_c ac)) @ concat (map issue_text (issued script c (hp_next (su_heap s)) h)) \<and>
    cl_items (ac_replies ac') = cs @ map issue_cb (issued script c (hp_next (su_heap s)) h) \<and>
    callbacks s' = callbacks s @ shown c (hp_next (su_heap s)) \<and> su_sys s' = su_sys s \<and>
    hp_next (su_heap s') = hp_next (su_heap s) + nodes v"
proof -
  let ?p = "hp_next (su_heap s)"
  note sv = assms(1) [unfolded serving_def]
  obtain r' h where g: "redisReplyReaderGetReply r (su_heap s) = Some (REDIS_OK, ?p, r', h)" "idle r'" "rest r' = y"
      "reply_added (su_heap s) h v"
    using getreply_decodes [OF assms(2,4,3)] by blast
  obtain l where l: "redisShiftCallback (ac_replies ac) = Some (Some c, l)" "cl_inv l" "cl_items l = cs"
    using cl.shift_cons [OF _ assms(5)] sv by (auto simp: async_wf_def)
  let ?c = "(ac_c ac)\<lparr>cx_reader := Some r'\<rparr>" and ?s = "s\<lparr>su_heap := h\<rparr>"
  let ?ac = "ac\<lparr>ac_c := ?c, ac_replies := l\<rparr>"
  have a: "async_wf ?ac" "\<not> closing ?ac" "\<not> has_flag ?ac REDIS_SUBSCRIBED" "\<not> has_flag ?ac REDIS_IN_CALLBACK"
      "(length (sds_str (cx_obuf (ac_c ?ac))) + q) * 2 \<le> nat INT_MAX"
    using sv l(2) assms(7) by (simp_all add: async_wf_def closing_def)
  obtain ob l2 s2 where b: "redisRunCallback (run_script script) ?ac c ?p ?s = Some (appended (?ac\<lparr>ac_replies := l2\<rparr>) ob, s2)" "sds_wf ob"
      "cl_inv l2" "sds_str ob = sds_str (cx_obuf (ac_c ac)) @ concat (map issue_text (issued script c ?p h))"
      "cl_items l2 = cs @ map issue_cb (issued script c ?p h)"
      "su_heap s2 = h" "su_sys s2 = su_sys s" "callbacks s2 = callbacks s @ shown c ?p"
    using callback_runs [OF a(1-4) assms(6) a(5), of c ?p ?s] l(3) by auto
  let ?a2 = "appended (?ac\<lparr>ac_replies := l2\<rparr>) ob" and ?s3 = "s2\<lparr>su_heap := without ?p (nodes v) h\<rparr>"
  have fr: "free_object a ?p s' = Some (s'\<lparr>su_heap := without ?p (nodes v) h\<rparr>)"
    if "cx_fn (ac_c a) = Some defaultFunctions" "su_heap s' = h" for a s'
    using that free_reply_added [OF g(4) assms(8)] by (simp add: free_object_def defaultFunctions_def)
  have nf: "\<not> has_flag ?a2 REDIS_FREEING" using sv by (simp add: closing_def)
  have fd: "cx_fn (ac_c ?a2) = Some defaultFunctions" "cx_fn (ac_c ?ac) = Some defaultFunctions" using sv by simp_all
  have eqs: "s\<lparr>su_heap := h, su_sys := su_sys s\<rparr> = ?s" by simp
  have p0: "(?p = 0) = False" "(REDIS_OK \<noteq> REDIS_OK) = False" using assms(8) by simp_all
  have step: "process_loop os (run_script script) cb ac s = (if cb_fn c \<noteq> None
      then redisRunCallback (run_script script) ?ac c ?p ?s \<bind> (\<lambda>(ac, s). free_object ac ?p s \<bind>
        (\<lambda>s. if has_flag ac REDIS_FREEING then async_free os (run_script script) ac s \<bind> (\<lambda>s. Some (None, s))
             else process_loop os (run_script script) (Some c) ac s))
      else free_object ?ac ?p ?s \<bind> (\<lambda>s. process_loop os (run_script script) (Some c) ?ac s))"
    by (subst process_loop.simps) (simp add: getReply_nonblock [OF assms(1) g(1)] Let_def p0(1) l(1) eqs cong: if_cong)
  have sv2: "serving ?a2 r'" using sv b(2,3) by (simp add: serving_def async_wf_def closing_def)
  have "process_loop os (run_script script) cb ac s = process_loop os (run_script script) (Some c) ?a2 ?s3"
  proof (cases "cb_fn c")
    case (Some f)
    show ?thesis unfolding step b(1) Option.bind.bind_lunit prod.case fr [OF fd(1) b(6)] using Some nf by simp
  next
    case None
    then have "?a2 = ?ac \<and> s2 = ?s" using b(1) by (simp add: redisRunCallback_def)
    then show ?thesis unfolding step using None fr [OF fd(2), of ?s] by simp
  qed
  moreover have "callbacks ?s3 = callbacks s @ shown c ?p" "su_sys ?s3 = su_sys s" "hp_next (su_heap ?s3) = ?p + nodes v"
    using b(7,8) g(4) by (simp_all add: without_def reply_added_def)
  ultimately show ?thesis using sv2 g(2-4) b(4,5)
    by (intro exI [of _ ?a2] exI [of _ r'] exI [of _ ?s3] exI [of _ h]) (simp add: reply_added_def)
qed

text \<open>The commands issued by callbacks \<open>cs\<close> that are shown the replies at \<open>ps\<close> in stores \<open>hs\<close>.\<close>

definition all_issued :: "script \<Rightarrow> redisCallback list \<Rightarrow> nat list \<Rightarrow> reply_heap list \<Rightarrow> issue list" where
  "all_issued script cs ps hs = concat (map (\<lambda>(c, p, h). issued script c p h) (zip cs (zip ps hs)))"

definition all_shown :: "redisCallback list \<Rightarrow> nat list \<Rightarrow> async_event list" where
  "all_shown cs ps = concat (map2 shown cs ps)"

lemma issued_len: "script_ok q script \<Longrightarrow> length (concat (map issue_text (issued script c p h))) \<le> q"
  unfolding issued_def by (cases "cb_fn c") (simp_all only: option.case, simp, simp only: script_ok_def)

lemma process_replies:
  assumes "script_ok q script"
  shows "serving ac r \<Longrightarrow> idle r \<Longrightarrow> rest r = concat (map enc vs) \<Longrightarrow> list_all (sendable 8) vs \<Longrightarrow>
    cl_items (ac_replies ac) = cs @ ds \<Longrightarrow> length cs = length vs \<Longrightarrow>
    (length (sds_str (cx_obuf (ac_c ac))) + length vs * q) * 2 \<le> nat INT_MAX \<Longrightarrow> 0 < hp_next (su_heap s) \<Longrightarrow>
    \<exists>ac' r' s' hs. process_loop os (run_script script) cb ac s = Some (Some ac', s') \<and> serving ac' r' \<and> ready_reader r' \<and>
      list_all2 (\<lambda>(p, v) h. reply_in (hp_cells h) p v) (zip (addrs (hp_next (su_heap s)) vs) vs) hs \<and>
      callbacks s' = callbacks s @ all_shown cs (addrs (hp_next (su_heap s)) vs) \<and>
      sds_str (cx_obuf (ac_c ac')) = sds_str (cx_obuf (ac_c ac)) @ concat (map issue_text (all_issued script cs (addrs (hp_next (su_heap s)) vs) hs)) \<and>
      cl_items (ac_replies ac') = ds @ map issue_cb (all_issued script cs (addrs (hp_next (su_heap s)) vs) hs) \<and>
      su_sys s' = su_sys s \<and> 0 < hp_next (su_heap s')"
proof (induction vs arbitrary: ac r s cs ds cb)
  case Nil
  have "ready_reader r" using Nil.prems(2,3) by (auto simp: ready_reader_def)
  then obtain r' where r': "redisReplyReaderGetReply r (su_heap s) = Some (REDIS_OK, 0, r', su_heap s)" "ready_reader r'"
    using getreply_ready by blast
  let ?ac = "ac\<lparr>ac_c := (ac_c ac)\<lparr>cx_reader := Some r'\<rparr>\<rparr>"
  have sv: "serving ?ac r'" using Nil.prems(1) by (simp add: serving_def async_wf_def closing_def)
  have nd: "\<not> bit (cx_flags (ac_c ac)) 2" using Nil.prems(1) by (simp add: serving_def closing_def)
  have "process_loop os (run_script script) cb ac s = Some (Some ?ac, s)"
    by (subst process_loop.simps) (simp add: getReply_nonblock [OF Nil.prems(1) r'(1)] nd Let_def)
  then show ?case using sv r'(2) Nil.prems by (intro exI [of _ ?ac] exI [of _ r'] exI [of _ s])
      (simp add: all_shown_def all_issued_def)
next
  case (Cons v vs)
  obtain c cs' where cs: "cs = c # cs'" using Cons.prems(6) by (cases cs) auto
  let ?p = "hp_next (su_heap s)"
  have rm: "(length (sds_str (cx_obuf (ac_c ac))) + q) * 2 \<le> nat INT_MAX" using Cons.prems(7) by simp
  have it: "cl_items (ac_replies ac) = c # cs' @ ds" using Cons.prems(5) cs by simp
  obtain a1 r1 s1 h where o: "process_loop os (run_script script) cb ac s = process_loop os (run_script script) (Some c) a1 s1"
      "serving a1 r1" "idle r1" "rest r1 = concat (map enc vs)" "reply_in (hp_cells h) ?p v"
      "sds_str (cx_obuf (ac_c a1)) = sds_str (cx_obuf (ac_c ac)) @ concat (map issue_text (issued script c ?p h))"
      "cl_items (ac_replies a1) = (cs' @ ds) @ map issue_cb (issued script c ?p h)"
      "callbacks s1 = callbacks s @ shown c ?p" "su_sys s1 = su_sys s" "hp_next (su_heap s1) = ?p + nodes v"
    using process_one [OF Cons.prems(1,2) _ _ it assms rm Cons.prems(8), of v "concat (map enc vs)" os cb] Cons.prems(3,4)
    by auto
  have l: "(length (sds_str (cx_obuf (ac_c a1))) + length vs * q) * 2 \<le> nat INT_MAX"
    using Cons.prems(7) issued_len [OF assms, of c ?p h] unfolding o(6) by simp
  have m: "list_all (sendable 8) vs" "cl_items (ac_replies a1) = cs' @ ds @ map issue_cb (issued script c ?p h)"
      "length cs' = length vs" "0 < hp_next (su_heap s1)"
    using Cons.prems(4,6,8) o(7,10) cs by auto
  obtain a2 r2 s2 hs where i: "process_loop os (run_script script) (Some c) a1 s1 = Some (Some a2, s2)" "serving a2 r2" "ready_reader r2"
      "list_all2 (\<lambda>(p, v) h. reply_in (hp_cells h) p v) (zip (addrs (?p + nodes v) vs) vs) hs"
      "callbacks s2 = callbacks s1 @ all_shown cs' (addrs (?p + nodes v) vs)"
      "sds_str (cx_obuf (ac_c a2)) = sds_str (cx_obuf (ac_c a1)) @ concat (map issue_text (all_issued script cs' (addrs (?p + nodes v) vs) hs))"
      "cl_items (ac_replies a2) = (ds @ map issue_cb (issued script c ?p h)) @ map issue_cb (all_issued script cs' (addrs (?p + nodes v) vs) hs)"
      "su_sys s2 = su_sys s1" "0 < hp_next (su_heap s2)"
    using Cons.IH [OF o(2-4) m(1,2,3) l m(4), of "Some c"] unfolding o(10) by auto
  show ?case
    by (intro exI [of _ a2] exI [of _ r2] exI [of _ s2] exI [of _ "h # hs"])
      (use i o in \<open>simp add: cs all_shown_def all_issued_def\<close>)
qed

lemma process_start_root:
  assumes "rd_len r \<noteq> 0" and "cx_reader (ac_c ac) = Some r"
  shows "process_loop os user cb (ac\<lparr>ac_c := (ac_c ac)\<lparr>cx_reader := Some (start_root r)\<rparr>\<rparr>) s = process_loop os user cb ac s"
proof -
  have g: "redisGetReply os ((ac_c ac)\<lparr>cx_reader := Some (start_root r)\<rparr>) h w = redisGetReply os (ac_c ac) h w" for h w
    using getreply_start_root [OF assms(1), of h] assms(2)
    by (simp add: redisGetReply_def redisGetReplyFromReader_def redisCreateReplyReader_def)
  show ?thesis by (subst (1 2) process_loop.simps) (simp add: g)
qed

lemma feed_ready:
  assumes "ready_reader r" and "x \<noteq> []" and "(length (sds_str (rd_buf r)) + length x) * 2 \<le> nat INT_MAX"
  shows "\<exists>r1. idle r1 \<and> rest r1 = x \<and> rd_len r1 \<noteq> 0 \<and>
    (redisReplyReaderFeed r (Some (map Some x)) (length x) = Some r1 \<or>
     redisReplyReaderFeed r (Some (map Some x)) (length x) = Some (start_root r1))"
proof -
  obtain r0 where r0: "idle r0" "rest r0 = []" "r = r0 \<or> r = start_root r0" using assms(1) by (auto simp: ready_reader_def)
  have "sds_room (rd_buf r0) (length x)" using assms(3) r0(3) by (auto simp: sds_room_def)
  then obtain r1 where r1: "redisReplyReaderFeed r0 (Some (map Some x)) (length x) = Some r1" "idle r1" "rest r1 = x"
    using feed_idle [OF r0(1) assms(2)] r0(2) by auto
  have "length (rest r1) + rd_pos r1 = rd_len r1" using buf_bound [of r1] r1(2) by (simp add: idle_def reader_ok_def)
  moreover have "length (rest r1) \<noteq> 0" using r1(3) assms(2) by simp
  ultimately have "rd_len r1 \<noteq> 0" by linarith
  then show ?thesis using r0(3) r1 by (auto simp: start_root_feed)
qed

section \<open>Properties\<close>

text \<open>
  C9 (liveness). When a read event delivers the replies \<open>vs\<close>, each of the first callbacks in the queue is
  run exactly once, in order, callback \<open>i\<close> with the object of reply \<open>i\<close> (callbacks that are NULL are
  skipped with their reply); the commands they issue are appended to the output and their
  callbacks to the end of the queue in the order of issue, and the call returns with the
  context ready for the next event, every reply released.
\<close>

theorem replies_reach_callbacks:
  assumes "serving ac r" and "ready_reader r" and "script_ok q script" and "list_all (sendable 8) vs" and "vs \<noteq> []"
    and "os_recv os (cx_fd (ac_c ac)) 2048 (su_sys s) = (RecvData (concat (map enc vs)), w)"
    and "(length (sds_str (rd_buf r)) + length (concat (map enc vs))) * 2 \<le> nat INT_MAX"
    and "cl_items (ac_replies ac) = cs @ ds" and "length cs = length vs"
    and "(length (sds_str (cx_obuf (ac_c ac))) + length vs * q) * 2 \<le> nat INT_MAX" and "hp_next (su_heap s) = p" and "0 < p"
  shows "\<exists>ac' r' s' hs. redisAsyncHandleRead os (run_script script) ac s = Some (Some ac', s') \<and> serving ac' r' \<and> ready_reader r' \<and>
    list_all2 (\<lambda>(a, v) h. reply_in (hp_cells h) a v) (zip (addrs p vs) vs) hs \<and>
    callbacks s' = callbacks s @ all_shown cs (addrs p vs) \<and>
    sds_str (cx_obuf (ac_c ac')) = sds_str (cx_obuf (ac_c ac)) @ concat (map issue_text (all_issued script cs (addrs p vs) hs)) \<and>
    cl_items (ac_replies ac') = ds @ map issue_cb (all_issued script cs (addrs p vs) hs) \<and> su_sys s' = w"
proof -
  let ?x = "concat (map enc vs)"
  have "?x \<noteq> []" using assms(5) length_enc [of "hd vs"] by (cases vs) auto
  from feed_ready [OF assms(2) this assms(7)] obtain r1 r2 where r1: "idle r1" "rest r1 = ?x" "rd_len r1 \<noteq> 0"
      "redisReplyReaderFeed r (Some (map Some ?x)) (length ?x) = Some r2" "r2 = r1 \<or> r2 = start_root r1" by blast
  let ?ac = "ac\<lparr>ac_c := (ac_c ac)\<lparr>cx_reader := Some r1\<rparr>\<rparr>" and ?a2 = "ac\<lparr>ac_c := (ac_c ac)\<lparr>cx_reader := Some r2\<rparr>\<rparr>"
  let ?s = "call_addRead ac (s\<lparr>su_sys := w\<rparr>)"
  have sv: "serving ?ac r1" using assms(1) by (simp add: serving_def async_wf_def closing_def)
  have fr: "feed_reader (ac_c ac) (map Some ?x) (length ?x) = Some ((ac_c ac)\<lparr>cx_reader := Some r2\<rparr>)"
    using assms(1) r1(4) by (simp add: feed_reader_def serving_def redisCreateReplyReader_def)
  have "call_addRead ?a2 (s\<lparr>su_sys := w\<rparr>) = ?s" by (simp add: call_addRead_def)
  then have "redisAsyncHandleRead os (run_script script) ac s = process_loop os (run_script script) None ?a2 ?s"
    using fr by (simp add: redisAsyncHandleRead_def redisBufferRead_def assms(6) redisProcessCallbacks_def REDIS_OK_def REDIS_ERR_def)
  also have "\<dots> = process_loop os (run_script script) None ?ac ?s"
    using r1(5) process_start_root [OF r1(3), of ?ac] by auto
  finally have e: "redisAsyncHandleRead os (run_script script) ac s = process_loop os (run_script script) None ?ac ?s" .
  have h: "su_heap ?s = su_heap s" "callbacks ?s = callbacks s" "su_sys ?s = w"
    using hooks_only_calls(3) [of "s\<lparr>su_sys := w\<rparr>" ac] by (simp_all add: hooks_only_def)
  show ?thesis unfolding e
    using process_replies [OF assms(3) sv r1(1,2) assms(4), of cs ds ?s os None] assms(8-12) unfolding h
    by (simp add: h del: split_paired_Ex) blast
qed

text \<open>A context that serves, and callbacks that answer every reply with the same command.\<close>

definition one_serving :: redisAsyncContext where
  "one_serving = one_waiting\<lparr>ac_c := blank_context\<lparr>cx_flags := 2, cx_reader := Some fresh_reader\<rparr>\<rparr>"

definition ping_script :: script where
  "ping_script fn reply privdata h = [(Some 7, privdata, [''PING''])]"

theorem replies_reach_callbacks_witness:
  "\<exists>ac' s'. redisAsyncHandleRead script_os (run_script ping_script) one_serving
      (calm_surroundings\<lparr>su_sys := \<lparr>sy_errno = 0, sy_world = ([enc (RStatus ''PONG'')], [])\<rparr>\<rparr>) = Some (Some ac', s') \<and>
    callbacks s' = [Callback 7 16 9] \<and> sds_str (cx_obuf (ac_c ac')) = enc_cmd [''PING''] \<and>
    cl_items (ac_replies ac') = [\<lparr>cb_fn = Some 7, cb_privdata = 9\<rparr>]"
proof -
  let ?w = "\<lparr>sy_errno = 0, sy_world = ([enc (RStatus ''PONG'')], [])\<rparr>" and ?cb = "\<lparr>cb_fn = Some 7, cb_privdata = 9\<rparr>"
  let ?s = "calm_surroundings\<lparr>su_sys := ?w\<rparr>"
  have b: "\<not> bit (2 :: int) 2 \<and> \<not> bit (2 :: int) 3 \<and> \<not> bit (2 :: int) 4 \<and> \<not> bit (2 :: int) 5 \<and> (2 :: int) AND 1 = 0" by code_simp
  have o: "cx_obuf (ac_c one_serving) = sds_of [] []" "ac_replies one_serving = ac_replies one_waiting" "ac_invalid one_serving = ac_invalid one_waiting"
      "ac_channels one_serving = ac_channels one_waiting" "ac_patterns one_serving = ac_patterns one_waiting"
    by (simp_all add: one_serving_def blank_context_def)
  have "async_wf one_serving" using one_waiting_ok(1) by (simp add: async_wf_def o INT_MAX_def)
  then have sv: "serving one_serving fresh_reader"
    using b by (simp add: serving_def closing_def) (simp add: one_serving_def blank_context_def REDIS_BLOCK_def)
  have rr: "ready_reader fresh_reader" using fresh_reader(2,3) by (auto simp: ready_reader_def)
  have k: "\<not> subscribes [''PING''] \<and> \<not> unsubscribes [''PING''] \<and> CR \<notin> set ''PING'' \<and> length (enc_cmd [''PING'']) \<le> 14" by code_simp
  then have so: "script_ok 14 ping_script" by (simp add: script_ok_def ping_script_def issue_plain_def issue_text_def)
  have cl: "cl_items (ac_replies one_serving) = [?cb] @ []"
    using one_waiting_ok(2) one_waiting_ok(1) o(2) by (simp add: waiting_def one_waiting_def redisAsyncInitialize_def dictCreate_def dictInit_def dictReset_def)
  have sd: "list_all (sendable 8) [RStatus ''PONG'']" by code_simp
  have rv: "os_recv script_os (cx_fd (ac_c one_serving)) 2048 (su_sys ?s)
      = (RecvData (concat (map enc [RStatus ''PONG''])), \<lparr>sy_errno = 0, sy_world = ([], [])\<rparr>)" by (simp add: script_os_def)
  have l: "(length (sds_str (rd_buf fresh_reader)) + length (concat (map enc [RStatus ''PONG'']))) * 2 \<le> nat INT_MAX"
      "(length (sds_str (cx_obuf (ac_c one_serving))) + length [RStatus ''PONG''] * 14) * 2 \<le> nat INT_MAX"
    using fresh_reader(4) by (simp_all add: o(1) INT_MAX_def)
  have p: "hp_next (su_heap ?s) = 16" by (simp add: calm_surroundings_def empty_heap_def)
  obtain ac' s' hs where m: "redisAsyncHandleRead script_os (run_script ping_script) one_serving ?s = Some (Some ac', s')"
      "list_all2 (\<lambda>(a, v) h. reply_in (hp_cells h) a v) (zip (addrs 16 [RStatus ''PONG'']) [RStatus ''PONG'']) hs"
      "callbacks s' = callbacks ?s @ all_shown [?cb] (addrs 16 [RStatus ''PONG''])"
      "sds_str (cx_obuf (ac_c ac')) = sds_str (cx_obuf (ac_c one_serving)) @ concat (map issue_text (all_issued ping_script [?cb] (addrs 16 [RStatus ''PONG'']) hs))"
      "cl_items (ac_replies ac') = [] @ map issue_cb (all_issued ping_script [?cb] (addrs 16 [RStatus ''PONG'']) hs)"
    using replies_reach_callbacks [OF sv rr so sd _ rv l(1) cl _ l(2) p] by auto
  obtain h where hs: "hs = [h]" using m(2) by (cases hs) (auto simp: list_all2_Cons1)
  have i: "all_issued ping_script [?cb] (addrs 16 [RStatus ''PONG'']) hs = [(Some 7, 9, [''PING''])]"
    by (simp add: hs all_issued_def issued_def ping_script_def)
  have sh: "all_shown [?cb] (addrs 16 [RStatus ''PONG'']) = [Callback 7 16 9]" by (simp add: all_shown_def shown_def)
  show ?thesis using m(1,3-5) unfolding i sh
    by (intro exI [of _ ac'] exI [of _ s']) (simp add: issue_text_def issue_cb_def o(1) calm_surroundings_def del: enc.simps)
qed



end
