(* ===== verification/Buffers.thy ===== *)
theory Buffers
  imports MmsPrelude
begin

text \<open>
  The server's own memory containers: \<open>include/fastbuffer.h\<close>, a growing byte queue that carries all
  data between connections and workers, and \<open>include/memstuff.h\<close>, an allocator of small blocks
  that are released together.

  Whether the system can provide a block of \<open>n\<close> bytes is a parameter \<open>avail\<close>.
\<close>

section \<open>Blocks behind pointers\<close>

text \<open>Copying from or to a pointer that may be NULL: with NULL only no bytes can be copied.\<close>

definition ptr_fetch :: "mem option \<Rightarrow> nat \<Rightarrow> nat \<Rightarrow> mem option" where
  "ptr_fetch p i n = (case p of None \<Rightarrow> if n = 0 then Some [] else None | Some m \<Rightarrow> mem_fetch m i n)"

definition ptr_store :: "mem option \<Rightarrow> nat \<Rightarrow> mem \<Rightarrow> mem option option" where
  "ptr_store p i xs = (case p of None \<Rightarrow> if xs = [] then Some None else None | Some m \<Rightarrow> map_option Some (mem_store m i xs))"

section \<open>The byte queue\<close>

record fastbuffer =
  fb_fd :: int
  fb_size :: nat
  fb_bufsize :: nat
  fb_buf :: "mem option"

definition new_fastbuffer :: fastbuffer where
  "new_fastbuffer = \<lparr>fb_fd = 0, fb_size = 0, fb_bufsize = 0, fb_buf = None\<rparr>"

text \<open>\<open>read\<close>: up to \<open>bz\<close> bytes are removed, and copied to the caller unless the caller passes NULL.\<close>

definition fastbuffer_read :: "bool \<Rightarrow> nat \<Rightarrow> fastbuffer \<Rightarrow> (nat \<times> mem \<times> fastbuffer) option" where
  "fastbuffer_read wanted bz b = do {
     let dz = (if fb_size b < bz then fb_size b else bz);
     out \<leftarrow> (if wanted then ptr_fetch (fb_buf b) 0 dz else Some []);
     rest \<leftarrow> ptr_fetch (fb_buf b) dz (fb_size b - dz);
     p \<leftarrow> ptr_store (fb_buf b) 0 rest;
     Some (dz, out, b\<lparr>fb_buf := p, fb_size := fb_size b - dz\<rparr>) }"

text \<open>\<open>append\<close>: on failure of \<open>realloc\<close> the buffer is lost, but its sizes are kept.\<close>

definition fastbuffer_append :: "(nat \<Rightarrow> bool) \<Rightarrow> mem option \<Rightarrow> nat \<Rightarrow> fastbuffer \<Rightarrow> (nat \<times> fastbuffer) option" where
  "fastbuffer_append avail src bz b =
     (let sz = c_size_t ((int (fb_bufsize b) + int bz) * 2);
          grow = (c_size_t (int (fb_bufsize b) - int (fb_size b)) < bz);
          m = (case fb_buf b of None \<Rightarrow> [] | Some m \<Rightarrow> m)
      in if grow \<and> \<not> avail sz then Some (0, b\<lparr>fb_buf := None\<rparr>)
         else do {
           let b = (if grow then b\<lparr>fb_buf := Some (take sz m @ replicate (sz - length m) None), fb_bufsize := sz\<rparr> else b);
           xs \<leftarrow> ptr_fetch src 0 bz;
           p \<leftarrow> ptr_store (fb_buf b) (fb_size b) xs;
           Some (bz, b\<lparr>fb_buf := p, fb_size := c_size_t (int (fb_size b) + int bz)\<rparr>) })"

definition fastbuffer_push_back :: "(nat \<Rightarrow> bool) \<Rightarrow> char \<Rightarrow> fastbuffer \<Rightarrow> (nat \<times> fastbuffer) option" where
  "fastbuffer_push_back avail s b = fastbuffer_append avail (Some [Some s]) 1 b"

text \<open>The copying constructor.\<close>

definition fastbuffer_copy :: "(nat \<Rightarrow> bool) \<Rightarrow> fastbuffer \<Rightarrow> fastbuffer option" where
  "fastbuffer_copy avail ot = do {
     (n, b) \<leftarrow> fastbuffer_append avail (fb_buf ot) (fb_size ot) new_fastbuffer;
     Some (b\<lparr>fb_fd := fb_fd ot\<rparr>) }"

definition fastbuffer_clear :: "fastbuffer \<Rightarrow> fastbuffer" where
  "fastbuffer_clear b = b\<lparr>fb_size := 0\<rparr>"

section \<open>Queues of bytes\<close>

text \<open>What the users of a byte queue rely on, up to a capacity: bytes come out in the order they went
  in, none lost and none repeated.\<close>

datatype queue_op = Put string | Get nat

locale byte_queue =
  fixes holds :: "'q \<Rightarrow> string \<Rightarrow> bool" and put :: "string \<Rightarrow> 'q \<Rightarrow> 'q option" and get :: "nat \<Rightarrow> 'q \<Rightarrow> (string \<times> 'q) option"
    and capacity :: nat
  assumes put_law: "holds q s \<Longrightarrow> length s + length t \<le> capacity \<Longrightarrow> \<exists>q'. put t q = Some q' \<and> holds q' (s @ t)"
    and get_law: "holds q s \<Longrightarrow> \<exists>q'. get n q = Some (take n s, q') \<and> holds q' (drop n s)"
begin

fun run :: "queue_op list \<Rightarrow> 'q \<Rightarrow> (string \<times> 'q) option" where
  "run [] q = Some ([], q)"
| "run (Put t # ops) q = do { q \<leftarrow> put t q; run ops q }"
| "run (Get n # ops) q = do { (x, q) \<leftarrow> get n q; (y, q) \<leftarrow> run ops q; Some (x @ y, q) }"

fun all_put :: "queue_op list \<Rightarrow> string" where
  "all_put [] = []"
| "all_put (Put t # ops) = t @ all_put ops"
| "all_put (Get n # ops) = all_put ops"

lemma run_stream:
  "holds q s \<Longrightarrow> length s + length (all_put ops) \<le> capacity \<Longrightarrow>
    \<exists>out q' s'. run ops q = Some (out, q') \<and> holds q' s' \<and> out @ s' = s @ all_put ops"
proof (induction ops arbitrary: q s rule: all_put.induct)
  case 1
  then show ?case by simp
next
  case (2 t ops)
  obtain q1 where q1: "put t q = Some q1" "holds q1 (s @ t)" using put_law [OF "2.prems"(1), of t] "2.prems"(2) by auto
  then show ?case using "2.IH" [OF q1(2)] "2.prems"(2) by auto
next
  case (3 n ops)
  obtain q1 where q1: "get n q = Some (take n s, q1)" "holds q1 (drop n s)" using get_law [OF "3.prems"(1)] by blast
  have l: "length (drop n s) + length (all_put ops) \<le> capacity" using "3.prems"(2) unfolding length_drop all_put.simps by linarith
  obtain out q' s' where r: "run ops q1 = Some (out, q')" "holds q' s'" "out @ s' = drop n s @ all_put ops"
    using "3.IH" [OF q1(2)] l by blast
  have "(take n s @ out) @ s' = s @ all_put ops" using r(3) by (metis append.assoc append_take_drop_id)
  then show ?case using q1(1) r(1,2) by auto
qed

end

section \<open>The buffer is a queue of bytes\<close>

text \<open>The bytes \<open>s\<close> are in the buffer, which has never held more than \<open>P\<close>.\<close>

definition fb_holds :: "nat \<Rightarrow> fastbuffer \<Rightarrow> string \<Rightarrow> bool" where
  "fb_holds P b s \<longleftrightarrow> fb_size b = length s \<and> length s \<le> P \<and> length s \<le> fb_bufsize b \<and> fb_bufsize b \<le> 4 * P \<and>
     (case fb_buf b of None \<Rightarrow> fb_bufsize b = 0 | Some m \<Rightarrow> length m = fb_bufsize b \<and> take (length s) m = map Some s)"

lemma new_holds: "fb_holds P new_fastbuffer []"
  by (simp add: fb_holds_def new_fastbuffer_def)

lemma clear_holds: "fb_holds P b s \<Longrightarrow> fb_holds P (fastbuffer_clear b) []"
  by (auto simp: fb_holds_def fastbuffer_clear_def split: option.splits)

lemma append_holds:
  assumes "fb_holds P b s" and "length s + length t \<le> P" and "4 * P < 2 ^ 63" and "\<And>n. n \<le> 4 * P \<Longrightarrow> avail n"
  shows "\<exists>b'. fastbuffer_append avail (Some (map Some t @ junk)) (length t) b = Some (length t, b') \<and> fb_holds P b' (s @ t) \<and>
    fb_fd b' = fb_fd b"
proof -
  let ?m = "case fb_buf b of None \<Rightarrow> [] | Some m \<Rightarrow> m" and ?sz = "c_size_t ((int (fb_bufsize b) + int (length t)) * 2)"
  have h: "fb_size b = length s" "length s \<le> fb_bufsize b" "fb_bufsize b \<le> 4 * P" "length ?m = fb_bufsize b" "take (length s) ?m = map Some s"
    using assms(1) by (auto simp: fb_holds_def split: option.splits)
  have room: "c_size_t (int (fb_bufsize b) - int (fb_size b)) = fb_bufsize b - length s"
    using h assms(3) c_size_t_of_nat [of "fb_bufsize b - length s"] by (simp add: of_nat_diff)
  have src: "ptr_fetch (Some (map Some t @ junk)) 0 (length t) = Some (map Some t)" by (simp add: ptr_fetch_def mem_fetch_def)
  have size: "c_size_t (int (fb_size b) + int (length t)) = length s + length t"
    using h(1) assms(2,3) c_size_t_of_nat [of "length s + length t"] by simp
  show ?thesis
  proof (cases "fb_bufsize b - length s < length t")
    case True
    then have "(fb_bufsize b + length t) * 2 \<le> 4 * P" using h(2) assms(2) by auto
    then have sz: "?sz = (fb_bufsize b + length t) * 2" "avail ?sz"
      using assms(3,4) c_size_t_of_nat [of "(fb_bufsize b + length t) * 2"] by simp_all
    let ?m' = "take ?sz ?m @ replicate (?sz - length ?m) None"
    have m': "length ?m' = ?sz" "take (length s) ?m' = map Some s" using sz(1) h by simp_all
    have st: "ptr_store (Some ?m') (length s) (map Some t) = Some (Some (map Some s @ map Some t @ drop (length s + length t) ?m'))"
      using m' sz(1) h(2) by (simp add: ptr_store_def mem_store_def)
    let ?b = "b\<lparr>fb_buf := Some (map Some s @ map Some t @ drop (length s + length t) ?m'), fb_bufsize := ?sz, fb_size := length s + length t\<rparr>"
    have "fastbuffer_append avail (Some (map Some t @ junk)) (length t) b = Some (length t, ?b)"
      using True sz(2) src size st h(1) unfolding fastbuffer_append_def room Let_def by (simp add: room)
    moreover have "fb_holds P ?b (s @ t)" using m'(1) sz(1) \<open>(fb_bufsize b + length t) * 2 \<le> 4 * P\<close> h(2) assms(2) by (simp add: fb_holds_def)
    ultimately show ?thesis by (intro exI [of _ ?b]) simp
  next
    case False
    have st: "\<exists>p. ptr_store (fb_buf b) (length s) (map Some t) = Some p \<and>
        (case p of None \<Rightarrow> fb_bufsize b = 0 \<and> t = [] | Some m \<Rightarrow> length m = fb_bufsize b \<and> take (length s + length t) m = map Some (s @ t))"
    proof (cases "fb_buf b")
      case None
      then have "t = []" "fb_bufsize b = 0" using False h(4) by auto
      then show ?thesis using None by (simp add: ptr_store_def)
    next
      case (Some m)
      then show ?thesis using False h by (simp add: ptr_store_def mem_store_def)
    qed
    then obtain p where p: "ptr_store (fb_buf b) (length s) (map Some t) = Some p"
        "case p of None \<Rightarrow> fb_bufsize b = 0 \<and> t = [] | Some m \<Rightarrow> length m = fb_bufsize b \<and> take (length s + length t) m = map Some (s @ t)" by blast
    let ?b = "b\<lparr>fb_buf := p, fb_size := length s + length t\<rparr>"
    have "fastbuffer_append avail (Some (map Some t @ junk)) (length t) b = Some (length t, ?b)"
      using False src size p(1) h(1) unfolding fastbuffer_append_def room Let_def by (simp add: room)
    moreover have "fb_holds P ?b (s @ t)" using p(2) False h assms(2) by (auto simp: fb_holds_def split: option.splits)
    ultimately show ?thesis by (intro exI [of _ ?b]) simp
  qed
qed

lemma read_holds:
  assumes "fb_holds P b s"
  shows "\<exists>b'. fastbuffer_read wanted n b = Some (min n (length s), if wanted then map Some (take n s) else [], b') \<and>
    fb_holds P b' (drop n s) \<and> fb_fd b' = fb_fd b"
proof (cases "fb_buf b")
  case None
  then have "s = []" "fb_size b = 0" "fb_bufsize b = 0" using assms by (auto simp: fb_holds_def)
  then show ?thesis using None by (auto simp: fastbuffer_read_def ptr_fetch_def ptr_store_def fb_holds_def Let_def)
next
  case (Some m)
  have h: "fb_size b = length s" "length s \<le> length m" "length m = fb_bufsize b" "take (length s) m = map Some s" "length s \<le> P" "fb_bufsize b \<le> 4 * P"
    using assms Some by (auto simp: fb_holds_def)
  let ?d = "min n (length s)"
  have d: "(if length s < n then length s else n) = ?d" by auto
  have out: "ptr_fetch (Some m) 0 ?d = Some (map Some (take n s))"
  proof -
    have "take ?d m = take ?d (take (length s) m)" by (simp add: min.commute)
    also have "\<dots> = map Some (take n s)" unfolding h(4) by (cases "n \<le> length s") (simp_all add: take_map)
    finally show ?thesis using h(2) by (simp add: ptr_fetch_def mem_fetch_def)
  qed
  have rest: "ptr_fetch (Some m) ?d (length s - ?d) = Some (map Some (drop n s))"
  proof -
    have "take (length s - ?d) (drop ?d m) = drop ?d (take (length s) m)" by (simp add: drop_take)
    also have "\<dots> = map Some (drop n s)" unfolding h(4) by (cases "n \<le> length s") (simp_all add: drop_map)
    finally show ?thesis using h(2) by (simp add: ptr_fetch_def mem_fetch_def)
  qed
  have st: "ptr_store (Some m) 0 (map Some (drop n s)) = Some (Some (map Some (drop n s) @ drop (length s - n) m))"
    using h(2) by (simp add: ptr_store_def mem_store_def)
  let ?b = "b\<lparr>fb_buf := Some (map Some (drop n s) @ drop (length s - n) m), fb_size := length s - ?d\<rparr>"
  have "fastbuffer_read wanted n b = Some (?d, if wanted then map Some (take n s) else [], ?b)"
    unfolding fastbuffer_read_def Some h(1) d Let_def using out rest st by simp
  moreover have "length s - ?d = length s - n" "length s - n \<le> P" "length s - n \<le> fb_bufsize b" using h(2,3,5) by linarith+
  then have "fb_holds P ?b (drop n s)" using h by (simp add: fb_holds_def)
  ultimately show ?thesis by (intro exI [of _ ?b]) simp
qed

text \<open>Writing and reading as the users of the buffers do, on a system that provides what a capacity of
  \<open>2^60\<close> bytes needs.\<close>

definition fb_put :: "string \<Rightarrow> fastbuffer \<Rightarrow> fastbuffer option" where
  "fb_put t b = map_option snd (fastbuffer_append (\<lambda>n. n \<le> 2 ^ 62) (Some (map Some t)) (length t) b)"

definition fb_get :: "nat \<Rightarrow> fastbuffer \<Rightarrow> (string \<times> fastbuffer) option" where
  "fb_get n b = do {
     (dz, out, b) \<leftarrow> fastbuffer_read True n b;
     assert_c (None \<notin> set out \<and> dz = length out);
     Some (map the out, b) }"

interpretation fbq: byte_queue "fb_holds (2 ^ 60)" fb_put fb_get "2 ^ 60"
proof unfold_locales
  fix b s and t :: string
  assume "fb_holds (2 ^ 60) b s" "length s + length t \<le> 2 ^ 60"
  from append_holds [OF this, of "\<lambda>n. n \<le> 2 ^ 62" "[]"] show "\<exists>b'. fb_put t b = Some b' \<and> fb_holds (2 ^ 60) b' (s @ t)"
    by (auto simp: fb_put_def)
next
  fix b s n
  assume "fb_holds (2 ^ 60) b s"
  from read_holds [OF this, of True n] show "\<exists>b'. fb_get n b = Some (take n s, b') \<and> fb_holds (2 ^ 60) b' (drop n s)"
    by (auto simp: fb_get_def min.commute comp_def)
qed

section \<open>The allocator of small blocks\<close>

text \<open>The list of blocks with their fill; a pointer is the number of the block and the offset in it.
  The block behind a node is \<^const>\<open>False\<close> when \<open>malloc\<close> failed, which the code does not check.\<close>

record memdata =
  md_size :: nat
  md_bufsize :: nat
  md_buf :: bool

definition memstuff_clear :: "memdata list \<Rightarrow> memdata list" where
  "memstuff_clear ds = map (\<lambda>d. d\<lparr>md_size := 0\<rparr>) ds"

text \<open>\<open>appendbuf\<close>, with the template's block size \<open>SZ\<close>; a node has 32 bytes.\<close>

definition block_size :: "nat \<Rightarrow> nat \<Rightarrow> nat" where
  "block_size SZ bz = (if bz < SZ then SZ else c_size_t (int bz * 2))"

definition appendbuf :: "(nat \<Rightarrow> bool) \<Rightarrow> nat \<Rightarrow> nat \<Rightarrow> memdata option" where
  "appendbuf avail SZ bz =
     (if \<not> avail 32 then None
      else let sz = block_size SZ bz
           in Some \<lparr>md_size = 0, md_bufsize = sz, md_buf = avail sz\<rparr>)"

fun alloc_in :: "memdata list \<Rightarrow> nat \<Rightarrow> nat \<Rightarrow> ((nat \<times> nat) \<times> memdata list) option" where
  "alloc_in [] bz k = None"
| "alloc_in (d # ds) bz k =
     (if bz \<le> c_size_t (int (md_bufsize d) - int (md_size d))
      then Some ((k, md_size d), d\<lparr>md_size := md_size d + bz\<rparr> # ds)
      else map_option (\<lambda>(p, ds). (p, d # ds)) (alloc_in ds bz (k + 1)))"

definition memstuff_alloc :: "(nat \<Rightarrow> bool) \<Rightarrow> nat \<Rightarrow> nat \<Rightarrow> memdata list \<Rightarrow> (nat \<times> nat) option \<times> memdata list" where
  "memstuff_alloc avail SZ bz ds =
     (case alloc_in ds bz 0 of
        Some (p, ds') \<Rightarrow> (Some p, ds')
      | None \<Rightarrow>
          (case appendbuf avail SZ bz of
             None \<Rightarrow> (None, ds)
           | Some d \<Rightarrow> (Some (length ds, md_size d), ds @ [d\<lparr>md_size := md_size d + bz\<rparr>])))"

definition mem_ok :: "memdata list \<Rightarrow> bool" where
  "mem_ok ds \<longleftrightarrow> (\<forall>d\<in>set ds. md_size d \<le> md_bufsize d \<and> md_bufsize d < 2 ^ 64 \<and> md_buf d)"

text \<open>The bytes of a region: block and offset.\<close>

definition region :: "(nat \<times> nat) \<Rightarrow> nat \<Rightarrow> (nat \<times> nat) set" where
  "region p bz = {fst p} \<times> {snd p..<snd p + bz}"

definition in_use :: "memdata list \<Rightarrow> (nat \<times> nat) set" where
  "in_use ds = {(k, i). k < length ds \<and> i < md_size (ds ! k)}"

definition available :: "memdata list \<Rightarrow> (nat \<times> nat) set" where
  "available ds = {(k, i). k < length ds \<and> md_buf (ds ! k) \<and> i < md_bufsize (ds ! k)}"

lemma alloc_in_ok:
  "mem_ok ds \<Longrightarrow> alloc_in ds bz k = Some (p, ds') \<Longrightarrow>
    \<exists>i<length ds. p = (k + i, md_size (ds ! i)) \<and> md_size (ds ! i) + bz \<le> md_bufsize (ds ! i) \<and>
      ds' = ds[i := (ds ! i)\<lparr>md_size := md_size (ds ! i) + bz\<rparr>]"
proof (induction ds bz k arbitrary: p ds' rule: alloc_in.induct)
  case (2 d ds bz k)
  have d: "c_size_t (int (md_bufsize d) - int (md_size d)) = md_bufsize d - md_size d" "md_size d \<le> md_bufsize d"
    using "2.prems"(1) c_size_t_of_nat [of "md_bufsize d - md_size d"] by (auto simp: mem_ok_def of_nat_diff)
  show ?case
  proof (cases "bz \<le> md_bufsize d - md_size d")
    case True
    then show ?thesis using "2.prems"(2) d by (intro exI [of _ 0]) auto
  next
    case False
    then obtain ds1 where a: "alloc_in ds bz (k + 1) = Some (p, ds1)" "ds' = d # ds1" using "2.prems"(2) d(1) by auto
    have "mem_ok ds" using "2.prems"(1) by (simp add: mem_ok_def)
    with "2.IH" [of p ds1] False d(1) a(1) obtain i where "i < length ds" "p = (k + 1 + i, md_size (ds ! i))"
        "md_size (ds ! i) + bz \<le> md_bufsize (ds ! i)" "ds1 = ds[i := (ds ! i)\<lparr>md_size := md_size (ds ! i) + bz\<rparr>]" by auto
    then show ?thesis using a(2) by (intro exI [of _ "Suc i"]) simp
  qed
qed simp

lemma alloc_ok:
  assumes "mem_ok ds" and "bz < 2 ^ 63" and "SZ < 2 ^ 64" and "avail (block_size SZ bz)"
    and "memstuff_alloc avail SZ bz ds = (Some p, ds')"
  shows "mem_ok ds' \<and> region p bz \<subseteq> available ds' \<and> region p bz \<inter> in_use ds = {} \<and> in_use ds' = in_use ds \<union> region p bz \<and>
    available ds \<subseteq> available ds'"
proof (cases "alloc_in ds bz 0")
  case None
  let ?d = "\<lparr>md_size = 0, md_bufsize = block_size SZ bz, md_buf = True\<rparr>"
  have d: "md_size ?d = 0" "bz \<le> md_bufsize ?d" "md_bufsize ?d < 2 ^ 64" "md_buf ?d"
    using assms(2,3) c_size_t_of_nat [of "bz * 2"] by (simp_all add: block_size_def)
  have p: "p = (length ds, 0)" "ds' = ds @ [?d\<lparr>md_size := bz\<rparr>]"
    using assms(4,5) None by (auto simp: memstuff_alloc_def appendbuf_def Let_def split: if_splits)
  show ?thesis unfolding p using assms(1) d
    by (auto simp: mem_ok_def region_def in_use_def available_def nth_append less_Suc_eq)
next
  case (Some r)
  then obtain i where i: "i < length ds" "p = (i, md_size (ds ! i))" "md_size (ds ! i) + bz \<le> md_bufsize (ds ! i)"
      "ds' = ds[i := (ds ! i)\<lparr>md_size := md_size (ds ! i) + bz\<rparr>]"
    using alloc_in_ok [OF assms(1), of bz 0 p ds'] assms(5) by (cases r) (auto simp: memstuff_alloc_def)
  have "mem_ok ds'" using assms(1) i unfolding mem_ok_def by (auto dest!: set_update_subset_insert [THEN subsetD])
  moreover have "md_buf (ds ! i)" using assms(1) i(1) by (simp add: mem_ok_def)
  ultimately show ?thesis unfolding i using i(1,3)
    by (auto simp: region_def in_use_def available_def nth_list_update split: if_splits)
qed

section \<open>Properties\<close>

text \<open>
  C29 (functional). The buffer is a faithful byte queue: after any sequence of appends and reads of any
  sizes on a new buffer, what was read followed by what is still inside is exactly what was
  appended, in order; no operation faults while the total stays within the capacity.
\<close>

theorem fastbuffer_stream:
  assumes "length (fbq.all_put ops) \<le> 2 ^ 60"
  shows "\<exists>out b s. fbq.run ops new_fastbuffer = Some (out, b) \<and> fb_holds (2 ^ 60) b s \<and> out @ s = fbq.all_put ops"
  using fbq.run_stream [OF new_holds, of ops] assms by simp

theorem fastbuffer_stream_witness:
  "\<exists>out b s. fbq.run [Put ''abc'', Get 2, Put ''de'', Get 9] new_fastbuffer = Some (out, b) \<and> out @ s = ''abcde''"
  using fastbuffer_stream [of "[Put ''abc'', Get 2, Put ''de'', Get 9]"] by auto

text \<open>
  When memory runs out, \<open>append\<close> returns 0 and the block is lost while the sizes stay: the
  next append that fits the recorded size writes through a NULL pointer.
\<close>

lemma fastbuffer_oom_faults:
  assumes "fb_size b + bz \<le> fb_bufsize b" and "fb_bufsize b < 2 ^ 63" and "fb_bufsize b < fb_size b + n" and "n < 2 ^ 63" and "0 < bz"
    and "\<not> avail (c_size_t ((int (fb_bufsize b) + int n) * 2))"
  shows "\<exists>b'. fastbuffer_append avail src n b = Some (0, b') \<and> fb_size b' = fb_size b \<and> fastbuffer_append avail (Some (replicate bz x)) bz b' = None"
proof -
  let ?r = "c_size_t (int (fb_bufsize b) - int (fb_size b))"
  have r: "?r = fb_bufsize b - fb_size b" using assms(1,2) c_size_t_of_nat [of "fb_bufsize b - fb_size b"] by (auto simp: of_nat_diff)
  have "?r < n" "\<not> ?r < bz" unfolding r using assms(1,3) by linarith+
  then have "fastbuffer_append avail src n b = Some (0, b\<lparr>fb_buf := None\<rparr>)"
    "fastbuffer_append avail (Some (replicate bz x)) bz (b\<lparr>fb_buf := None\<rparr>) = None"
    using assms(5,6) by (simp_all add: fastbuffer_append_def ptr_fetch_def ptr_store_def mem_fetch_def Let_def)
  then show ?thesis by simp
qed

text \<open>
  As long as the system provides the blocks it asks for, the allocator returns regions that
  lie inside its blocks and are disjoint from all regions handed out before, whatever the sizes;
  earlier regions stay valid.
\<close>

lemma memstuff_disjoint:
  assumes "mem_ok ds" and "bz < 2 ^ 63" and "SZ < 2 ^ 64" and "avail (block_size SZ bz)"
    and "memstuff_alloc avail SZ bz ds = (Some p, ds')"
  shows "mem_ok ds' \<and> region p bz \<subseteq> available ds' \<and> region p bz \<inter> in_use ds = {} \<and> in_use ds' = in_use ds \<union> region p bz \<and>
    available ds \<subseteq> available ds'"
  using alloc_ok [OF assms] .

end
