(* ===== verification/Containers.thy ===== *)
theory Containers
  imports Fifo
begin

text \<open>
  The containers the threads of the server share: \<open>include/event_hash.h\<close> (states by key),
  \<open>src/event/lockqueue.h\<close>, \<open>src/event/lockqueuemap.h\<close> (queues) and \<open>Bossmultiworker\<close> of
  \<open>include/util.h\<close> (one queue of jobs per worker). Each operation holds the container's mutex from
  its first to its last access, so it is one atomic step; the standard containers inside are
  finite maps and lists.
\<close>

section \<open>States by key\<close>

record ('k, 'v) hash_map_lock =
  hm_map :: "'k \<rightharpoonup> 'v"
  hm_def :: 'v

definition new_hash_map :: "'v \<Rightarrow> ('k, 'v) hash_map_lock" where
  "new_hash_map defValue = \<lparr>hm_map = (\<lambda>k. None), hm_def = defValue\<rparr>"

text \<open>\<open>insert\<close> of the standard container keeps an entry that is already there.\<close>

definition insert_absent :: "('k \<rightharpoonup> 'v) \<Rightarrow> 'k \<Rightarrow> 'v \<Rightarrow> ('k \<rightharpoonup> 'v)" where
  "insert_absent m k v = (case m k of None \<Rightarrow> m(k \<mapsto> v) | Some old \<Rightarrow> m)"

definition add_state :: "'k \<Rightarrow> 'v \<Rightarrow> ('k, 'v) hash_map_lock \<Rightarrow> ('k, 'v) hash_map_lock" where
  "add_state fd state h =
     (if hm_map h fd \<noteq> None then h\<lparr>hm_map := (hm_map h)(fd \<mapsto> state)\<rparr>
      else h\<lparr>hm_map := insert_absent (hm_map h) fd state\<rparr>)"

definition del_state :: "'k \<Rightarrow> ('k, 'v) hash_map_lock \<Rightarrow> ('k, 'v) hash_map_lock" where
  "del_state fd h = (if hm_map h fd \<noteq> None then h\<lparr>hm_map := (hm_map h)(fd := None)\<rparr> else h)"

definition get_state :: "'k \<Rightarrow> ('k, 'v) hash_map_lock \<Rightarrow> 'v" where
  "get_state fd h = (case hm_map h fd of Some state \<Rightarrow> state | None \<Rightarrow> hm_def h)"

text \<open>\<open>hash_map_unlock\<close> has the same operations without the mutex: the event loop alone uses it.\<close>

definition unlocked_add_state :: "'k \<Rightarrow> 'v \<Rightarrow> ('k, 'v) hash_map_lock \<Rightarrow> ('k, 'v) hash_map_lock" where
  "unlocked_add_state fd state h = add_state fd state h"

definition unlocked_del_state :: "'k \<Rightarrow> ('k, 'v) hash_map_lock \<Rightarrow> ('k, 'v) hash_map_lock" where
  "unlocked_del_state fd h = del_state fd h"

definition unlocked_get_state :: "'k \<Rightarrow> ('k, 'v) hash_map_lock \<Rightarrow> 'v" where
  "unlocked_get_state fd h = get_state fd h"

text \<open>What the clients rely on.\<close>

locale state_store =
  fixes add :: "'k \<Rightarrow> 'v \<Rightarrow> 's \<Rightarrow> 's" and del :: "'k \<Rightarrow> 's \<Rightarrow> 's" and get :: "'k \<Rightarrow> 's \<Rightarrow> 'v" and dflt :: "'s \<Rightarrow> 'v"
  assumes get_add: "get k (add k' v s) = (if k = k' then v else get k s)"
    and get_del: "get k (del k' s) = (if k = k' then dflt s else get k s)"
    and dflt_add: "dflt (add k v s) = dflt s" and dflt_del: "dflt (del k s) = dflt s"
begin

text \<open>A history of updates, \<^const>\<open>None\<close> for a deletion.\<close>

definition update :: "'k \<times> 'v option \<Rightarrow> 's \<Rightarrow> 's" where
  "update u s = (case snd u of Some v \<Rightarrow> add (fst u) v s | None \<Rightarrow> del (fst u) s)"

lemma get_update: "get k (update u s) = (if k = fst u then (case snd u of Some v \<Rightarrow> v | None \<Rightarrow> dflt s) else get k s)"
  by (simp add: update_def get_add get_del split: option.split)

lemma dflt_update [simp]: "dflt (update u s) = dflt s"
  by (simp add: update_def dflt_add dflt_del split: option.split)

lemma get_history:
  "get k (fold update us s) =
    (case map_of (rev us) k of None \<Rightarrow> get k s | Some None \<Rightarrow> dflt s | Some (Some v) \<Rightarrow> v)"
proof (induction us arbitrary: s)
  case (Cons u us)
  obtain a b where "u = (a, b)" by fastforce
  then show ?case using Cons.IH [of "update u s"]
    by (auto simp: get_update map_add_def split: option.splits)
qed simp

end

interpretation hm: state_store add_state del_state get_state hm_def
  by unfold_locales (simp_all add: add_state_def del_state_def get_state_def insert_absent_def split: option.split)

section \<open>Queues\<close>

record 't LockQueue =
  lq_queue :: "'t list"
  lq_def :: 't

definition LockQueue_pop :: "'t LockQueue \<Rightarrow> 't \<times> 't LockQueue" where
  "LockQueue_pop q =
     (case lq_queue q of
        t # ts \<Rightarrow> (t, q\<lparr>lq_queue := ts\<rparr>)
      | [] \<Rightarrow> (lq_def q, q))"

definition LockQueue_push :: "'t \<Rightarrow> 't LockQueue \<Rightarrow> 't LockQueue" where
  "LockQueue_push t q = q\<lparr>lq_queue := lq_queue q @ [t]\<rparr>"

text \<open>The users' queues hold pointers and have NULL as default, which is never pushed.\<close>

interpretation lq: fifo "\<lambda>q. lq_def q = None \<and> None \<notin> set (lq_queue q)" "\<lambda>q. map the (lq_queue q)"
    "\<lambda>x q. Some (LockQueue_push (Some x) q)" "\<lambda>q. Some (LockQueue_pop q)"
  by unfold_locales (auto simp: LockQueue_push_def LockQueue_pop_def split: list.splits)

section \<open>Queues by key\<close>

record ('s, 't) LockQueueMap =
  qm_map :: "'s \<rightharpoonup> 't list"
  qm_def :: 't

definition new_queue_map :: "'t \<Rightarrow> ('s, 't) LockQueueMap" where
  "new_queue_map TdefValue = \<lparr>qm_map = (\<lambda>s. None), qm_def = TdefValue\<rparr>"

definition LockQueueMap_pop :: "'s \<Rightarrow> ('s, 't) LockQueueMap \<Rightarrow> 't \<times> ('s, 't) LockQueueMap" where
  "LockQueueMap_pop s q =
     (case qm_map q s of
        Some (t # ts) \<Rightarrow> (t, q\<lparr>qm_map := (qm_map q)(s \<mapsto> ts)\<rparr>)
      | Some [] \<Rightarrow> (qm_def q, q)
      | None \<Rightarrow> (qm_def q, q))"

definition LockQueueMap_push :: "'s \<Rightarrow> 't \<Rightarrow> ('s, 't) LockQueueMap \<Rightarrow> ('s, 't) LockQueueMap" where
  "LockQueueMap_push s t q =
     (let m = (case qm_map q s of None \<Rightarrow> insert_absent (qm_map q) s [] | Some ts \<Rightarrow> qm_map q)
      in case m s of
           Some ts \<Rightarrow> q\<lparr>qm_map := m(s \<mapsto> ts @ [t])\<rparr>
         | None \<Rightarrow> q\<lparr>qm_map := m\<rparr>)"

definition queue_of :: "('s, 't) LockQueueMap \<Rightarrow> 's \<Rightarrow> 't list" where
  "queue_of q s = (case qm_map q s of None \<Rightarrow> [] | Some ts \<Rightarrow> ts)"

lemma queue_of_push: "queue_of (LockQueueMap_push s t q) s' = (if s' = s then queue_of q s @ [t] else queue_of q s')"
  by (auto simp: queue_of_def LockQueueMap_push_def insert_absent_def split: option.splits)

lemma queue_of_pop:
  "queue_of (snd (LockQueueMap_pop s q)) s' = (if s' = s then tl (queue_of q s) else queue_of q s')"
  "fst (LockQueueMap_pop s q) = (if queue_of q s = [] then qm_def q else hd (queue_of q s))"
  by (auto simp: queue_of_def LockQueueMap_pop_def split: option.splits list.splits)

lemma qm_def_ops [simp]: "qm_def (LockQueueMap_push s t q) = qm_def q" "qm_def (snd (LockQueueMap_pop s q)) = qm_def q"
  by (auto simp: LockQueueMap_push_def LockQueueMap_pop_def Let_def split: option.splits list.splits)

lemma pop_nil: "qm_def q = None \<Longrightarrow> queue_of q s = [] \<Longrightarrow> LockQueueMap_pop s q = (None, q)"
  by (auto simp: LockQueueMap_pop_def queue_of_def split: option.splits list.splits)

lemma pop_cons:
  assumes "qm_def q = None" and "None \<notin> set (queue_of q s)" and "map the (queue_of q s) = x # xs"
  shows "\<exists>q'. LockQueueMap_pop s q = (Some x, q') \<and> qm_def q' = None \<and> None \<notin> set (queue_of q' s) \<and> map the (queue_of q' s) = xs"
proof -
  obtain ts where ts: "queue_of q s = Some x # ts" "map the ts = xs" using assms by (cases "queue_of q s") auto
  then show ?thesis using assms queue_of_pop(1) [of s q s] queue_of_pop(2) [of s q]
    by (intro exI [of _ "snd (LockQueueMap_pop s q)"]) (simp add: prod_eq_iff)
qed

interpretation qm: fifo "\<lambda>q. qm_def q = None \<and> None \<notin> set (queue_of q s)" "\<lambda>q. map the (queue_of q s)"
    "\<lambda>x q. Some (LockQueueMap_push s (Some x) q)" "\<lambda>q. Some (LockQueueMap_pop s q)" for s
  by unfold_locales (auto simp: queue_of_push pop_nil dest: pop_cons)

section \<open>Jobs by worker\<close>

text \<open>\<open>Bossmultiworker\<close>: the queue and the data of each worker; a number that is not a worker's fails the
  assertion.\<close>

record ('t, 'd) Bossmultiworker =
  bw_workers :: "('t list \<times> 'd) list"
  bw_def :: 't
  bw_touch :: 'd

definition Boss_Init :: "nat \<Rightarrow> ('t, 'd) Bossmultiworker \<Rightarrow> ('t, 'd) Bossmultiworker" where
  "Boss_Init numWorkers b = b\<lparr>bw_workers := replicate numWorkers ([], bw_touch b)\<rparr>"

definition is_worker :: "int \<Rightarrow> ('t, 'd) Bossmultiworker \<Rightarrow> bool" where
  "is_worker i b \<longleftrightarrow> 0 \<le> i \<and> i < int (length (bw_workers b))"

definition SetWorker :: "int \<Rightarrow> 'd \<Rightarrow> ('t, 'd) Bossmultiworker \<Rightarrow> ('t, 'd) Bossmultiworker option" where
  "SetWorker i d b = do {
     assert_c (is_worker i b);
     Some (b\<lparr>bw_workers := (bw_workers b)[nat i := (fst (bw_workers b ! nat i), d)]\<rparr>) }"

definition GetWorkerTouch :: "int \<Rightarrow> ('t, 'd) Bossmultiworker \<Rightarrow> 'd option" where
  "GetWorkerTouch i b = do {
     assert_c (is_worker i b);
     Some (snd (bw_workers b ! nat i)) }"

definition PushJob :: "int \<Rightarrow> 't \<Rightarrow> ('t, 'd) Bossmultiworker \<Rightarrow> ('t, 'd) Bossmultiworker option" where
  "PushJob i t b = do {
     assert_c (is_worker i b);
     let (q, d) = bw_workers b ! nat i;
     Some (b\<lparr>bw_workers := (bw_workers b)[nat i := (q @ [t], d)]\<rparr>) }"

definition PopJob :: "int \<Rightarrow> ('t, 'd) Bossmultiworker \<Rightarrow> ('t \<times> ('t, 'd) Bossmultiworker) option" where
  "PopJob i b = do {
     assert_c (is_worker i b);
     let (q, d) = bw_workers b ! nat i;
     Some (case q of
             t # ts \<Rightarrow> (t, b\<lparr>bw_workers := (bw_workers b)[nat i := (ts, d)]\<rparr>)
           | [] \<Rightarrow> (bw_def b, b)) }"

end
