(* ===== verification/Crypto.thy ===== *)
theory Crypto
  imports MmsPrelude
begin

text \<open>
  The block encryption wrappers of \<open>include/yyssl.h\<close>. OpenSSL's primitives are parameters: one block of
  AES and of RSA, and the base64 coder; what is modelled is how the wrappers cut a message into
  blocks, record the size of the last one in a leading byte and put the pieces together again.
\<close>

record 'key crypto_lib =
  aes_encrypt_block :: "'key \<Rightarrow> string \<Rightarrow> string"
  aes_decrypt_block :: "'key \<Rightarrow> string \<Rightarrow> string"
  rsa_public_encrypt :: "'key \<Rightarrow> string \<Rightarrow> string option"
  rsa_private_decrypt :: "'key \<Rightarrow> string \<Rightarrow> string option"
  evp_encode :: "string \<Rightarrow> string"
  evp_decode :: "string \<Rightarrow> string"

section \<open>Blocks\<close>

text \<open>\<open>inbuf.copy(from, n, offset)\<close> overwrites the front of the block and leaves the rest.\<close>

definition copy_block :: "nat \<Rightarrow> string \<Rightarrow> string \<Rightarrow> string" where
  "copy_block n blk s = take n s @ drop (length (take n s)) blk"

text \<open>\<open>string::append(p, n)\<close> with a \<open>char\<close> for \<open>n\<close>: a negative count is a huge size and throws, a count
  beyond the block reads past its end.\<close>

definition append_count :: "string \<Rightarrow> char \<Rightarrow> string option" where
  "append_count blk offsetLen =
     (let n = c_char offsetLen in if 0 \<le> n \<and> nat n \<le> length blk then Some (take (nat n) blk) else None)"

section \<open>AES\<close>

definition AES_BLOCK_SIZE :: nat where
  "AES_BLOCK_SIZE = 16"

function aes_encrypt_loop :: "(string \<Rightarrow> string) \<Rightarrow> string \<Rightarrow> string \<Rightarrow> string" where
  "aes_encrypt_loop E blk s =
     (if s = [] then []
      else let blk = copy_block AES_BLOCK_SIZE blk s
           in E blk @ aes_encrypt_loop E blk (drop AES_BLOCK_SIZE s))"
  by pat_completeness auto
termination by (relation "measure (\<lambda>(E, blk, s). length s)") (auto simp: AES_BLOCK_SIZE_def)

declare aes_encrypt_loop.simps [simp del]

text \<open>\<open>junk\<close> is what the block on the stack contains at first.\<close>

definition AESEncrypt :: "'key crypto_lib \<Rightarrow> 'key \<Rightarrow> string \<Rightarrow> string \<Rightarrow> string" where
  "AESEncrypt lib key junk inbuf =
     char_of (length inbuf mod AES_BLOCK_SIZE) # aes_encrypt_loop (aes_encrypt_block lib key) junk inbuf"

function aes_decrypt_loop :: "(string \<Rightarrow> string) \<Rightarrow> char \<Rightarrow> string \<Rightarrow> string \<Rightarrow> string option" where
  "aes_decrypt_loop D offsetLen blk s =
     (if s = [] then Some []
      else do {
        let blk = copy_block AES_BLOCK_SIZE blk s;
        let to = D blk;
        let s = drop AES_BLOCK_SIZE s;
        x \<leftarrow> (if offsetLen \<noteq> NUL \<and> s = [] then append_count to offsetLen else Some to);
        y \<leftarrow> aes_decrypt_loop D offsetLen blk s;
        Some (x @ y) })"
  by pat_completeness auto
termination by (relation "measure (\<lambda>(D, c, blk, s). length s)") (auto simp: AES_BLOCK_SIZE_def)

declare aes_decrypt_loop.simps [simp del]

text \<open>\<open>AESDecrypt\<close>: \<^const>\<open>None\<close> inside is the return value false.\<close>

definition AESDecrypt :: "'key crypto_lib \<Rightarrow> 'key \<Rightarrow> string \<Rightarrow> string \<Rightarrow> string option option" where
  "AESDecrypt lib key junk inbuf =
     (if length inbuf < 1 \<or> length inbuf mod AES_BLOCK_SIZE \<noteq> 1 then Some None
      else map_option Some (aes_decrypt_loop (aes_decrypt_block lib key) (hd inbuf) junk (tl inbuf)))"

section \<open>RSA\<close>

definition kBytes :: nat where
  "kBytes = 128"

function rsa_encrypt_loop :: "(string \<Rightarrow> string option) \<Rightarrow> string \<Rightarrow> string option" where
  "rsa_encrypt_loop E s =
     (if s = [] then Some []
      else do {
        let blk = copy_block kBytes (replicate kBytes NUL) s;
        x \<leftarrow> E blk;
        y \<leftarrow> rsa_encrypt_loop E (drop kBytes s);
        Some (x @ y) })"
  by pat_completeness auto
termination by (relation "measure (\<lambda>(E, s). length s)") (auto simp: kBytes_def)

declare rsa_encrypt_loop.simps [simp del]

text \<open>\<open>RSAPublicEncrypt\<close> with a key or none; \<^const>\<open>None\<close> is the return value false.\<close>

definition RSAPublicEncrypt :: "'key crypto_lib \<Rightarrow> 'key option \<Rightarrow> string \<Rightarrow> string option" where
  "RSAPublicEncrypt lib key inbuf =
     (case key of
        None \<Rightarrow> None
      | Some key \<Rightarrow> map_option (Cons (char_of (length inbuf mod kBytes))) (rsa_encrypt_loop (rsa_public_encrypt lib key) inbuf))"

function rsa_decrypt_loop :: "(string \<Rightarrow> string option) \<Rightarrow> char \<Rightarrow> string \<Rightarrow> string \<Rightarrow> string option option" where
  "rsa_decrypt_loop D offsetLen blk s =
     (if s = [] then Some (Some [])
      else (let blk = copy_block kBytes blk s in
        case D blk of
          None \<Rightarrow> Some None
        | Some to \<Rightarrow> do {
            let s = drop kBytes s;
            x \<leftarrow> (if offsetLen \<noteq> NUL \<and> s = [] then append_count to offsetLen else Some to);
            r \<leftarrow> rsa_decrypt_loop D offsetLen blk s;
            Some (map_option (append x) r) }))"
  by pat_completeness auto
termination by (relation "measure (\<lambda>(D, c, blk, s). length s)") (auto simp: kBytes_def)

declare rsa_decrypt_loop.simps [simp del]

definition RSAPrivateDecrypt :: "'key crypto_lib \<Rightarrow> 'key option \<Rightarrow> string \<Rightarrow> string \<Rightarrow> string option option" where
  "RSAPrivateDecrypt lib key junk inbuf =
     (case key of
        None \<Rightarrow> Some None
      | Some key \<Rightarrow>
          if length inbuf mod kBytes \<noteq> 1 then Some None
          else rsa_decrypt_loop (rsa_private_decrypt lib key) (hd inbuf) junk (tl inbuf))"

section \<open>Base64\<close>

text \<open>Both wrappers size the result by what the coder wrote and always return true.\<close>

definition base64encode :: "'key crypto_lib \<Rightarrow> string \<Rightarrow> string option" where
  "base64encode lib inbuf = Some (evp_encode lib inbuf)"

definition base64decode :: "'key crypto_lib \<Rightarrow> string \<Rightarrow> string option" where
  "base64decode lib inbuf = Some (evp_decode lib inbuf)"

section \<open>Properties\<close>

text \<open>What is relied on of a block cipher: decryption inverts encryption, on whole blocks.\<close>

definition block_cipher :: "(string \<Rightarrow> string) \<Rightarrow> (string \<Rightarrow> string) \<Rightarrow> bool" where
  "block_cipher E D \<longleftrightarrow> (\<forall>b. length b = AES_BLOCK_SIZE \<longrightarrow> length (E b) = AES_BLOCK_SIZE \<and> D (E b) = b)"

lemma copy_block_len: "length blk = n \<Longrightarrow> length (copy_block n blk s) = n"
  by (simp add: copy_block_def)

lemma copy_block_full: "length x = n \<Longrightarrow> length blk = n \<Longrightarrow> copy_block n blk (x @ y) = x"
  by (simp add: copy_block_def)

lemma copy_block_take: "length s \<le> n \<Longrightarrow> take (length s) (copy_block n blk s) = s"
  by (simp add: copy_block_def)

lemma encrypt_nonempty: "block_cipher E D \<Longrightarrow> length blk = AES_BLOCK_SIZE \<Longrightarrow> aes_encrypt_loop E blk s = [] \<longleftrightarrow> s = []"
  using copy_block_len [of blk AES_BLOCK_SIZE s]
  by (subst aes_encrypt_loop.simps) (force simp: block_cipher_def AES_BLOCK_SIZE_def Let_def)

lemma encrypt_length:
  "block_cipher E D \<Longrightarrow> length blk = AES_BLOCK_SIZE \<Longrightarrow> length (aes_encrypt_loop E blk s) mod AES_BLOCK_SIZE = 0"
proof (induction E blk s rule: aes_encrypt_loop.induct)
  case (1 E blk s)
  let ?b = "copy_block AES_BLOCK_SIZE blk s"
  have b: "length ?b = AES_BLOCK_SIZE" "length (E ?b) = AES_BLOCK_SIZE"
    using copy_block_len [OF "1.prems"(2)] "1.prems"(1) by (simp_all add: block_cipher_def)
  show ?case
  proof (cases "s = []")
    case False
    then have "length (aes_encrypt_loop E ?b (drop AES_BLOCK_SIZE s)) mod AES_BLOCK_SIZE = 0" using "1.IH" "1.prems"(1) b(1) by blast
    then show ?thesis using False b(2) by (subst aes_encrypt_loop.simps) (simp add: Let_def mod_add_self1)
  qed (simp add: aes_encrypt_loop.simps)
qed

lemma c_char_count: "n < 128 \<Longrightarrow> c_char (char_of n) = int n" "n < 128 \<Longrightarrow> char_of n = NUL \<longleftrightarrow> n = 0"
proof -
  assume n: "n < 128"
  then show "c_char (char_of n) = int n" by (simp add: c_char_def)
  have "of_char (char_of n :: char) = n" using n by simp
  moreover have "of_char NUL = (0 :: nat)" by simp
  ultimately show "char_of n = NUL \<longleftrightarrow> n = 0" by (metis of_char_eq_iff)
qed

lemma decrypt_encrypt_loop:
  "block_cipher E D \<Longrightarrow> length blk = AES_BLOCK_SIZE \<Longrightarrow> length blk' = AES_BLOCK_SIZE \<Longrightarrow>
    aes_decrypt_loop D (char_of (length s mod AES_BLOCK_SIZE)) blk' (aes_encrypt_loop E blk s) = Some s"
proof (induction E blk s arbitrary: blk' rule: aes_encrypt_loop.induct)
  case (1 E blk s)
  let ?b = "copy_block AES_BLOCK_SIZE blk s" and ?c = "char_of (length s mod AES_BLOCK_SIZE) :: char" and ?t = "drop AES_BLOCK_SIZE s"
  have b: "length ?b = AES_BLOCK_SIZE" "length (E ?b) = AES_BLOCK_SIZE" "D (E ?b) = ?b"
    using copy_block_len [OF "1.prems"(2)] "1.prems"(1) by (simp_all add: block_cipher_def)
  show ?case
  proof (cases "s = []")
    case True
    then show ?thesis by (simp add: aes_encrypt_loop.simps aes_decrypt_loop.simps)
  next
    case False
    let ?r = "aes_encrypt_loop E ?b ?t"
    have e: "aes_encrypt_loop E blk s = E ?b @ ?r" using False by (subst aes_encrypt_loop.simps) (simp add: Let_def)
    have ne: "E ?b @ ?r \<noteq> []" using b(2) by (auto simp: AES_BLOCK_SIZE_def)
    have cp: "copy_block AES_BLOCK_SIZE blk' (E ?b @ ?r) = E ?b" by (rule copy_block_full [OF b(2) "1.prems"(3)])
    have dr: "drop AES_BLOCK_SIZE (E ?b @ ?r) = ?r" using b(2) by simp
    have rn: "?r = [] \<longleftrightarrow> length s \<le> AES_BLOCK_SIZE" using encrypt_nonempty [OF "1.prems"(1) b(1), of ?t] by simp
    have x: "(if ?c \<noteq> NUL \<and> ?r = [] then append_count ?b ?c else Some ?b) = Some (take AES_BLOCK_SIZE s)"
    proof (cases "length s \<le> AES_BLOCK_SIZE")
      case short: True
      show ?thesis
      proof (cases "length s = AES_BLOCK_SIZE")
        case True
        then have "?c = NUL" using c_char_count(2) [of 0] by simp
        then show ?thesis using True "1.prems"(2) by (simp add: copy_block_def)
      next
        case False
        then have l: "length s mod AES_BLOCK_SIZE = length s" "length s < 128" "length s \<noteq> 0"
          using short \<open>s \<noteq> []\<close> by (simp_all add: AES_BLOCK_SIZE_def)
        then have "?c \<noteq> NUL" "append_count ?b ?c = Some (take (length s) ?b)"
          using c_char_count [of "length s"] short b(1) by (simp_all add: append_count_def)
        then show ?thesis using rn short copy_block_take [OF short] by simp
      qed
    next
      case False
      then show ?thesis using rn "1.prems"(2) by (simp add: copy_block_def)
    qed
    have y: "aes_decrypt_loop D ?c (E ?b) ?r = Some ?t"
    proof (cases "?r = []")
      case True
      then show ?thesis using rn by (simp add: aes_decrypt_loop.simps)
    next
      case nr: False
      then have "length ?t mod AES_BLOCK_SIZE = length s mod AES_BLOCK_SIZE" using rn by (simp add: le_mod_geq)
      then show ?thesis using "1.IH" [OF False refl "1.prems"(1) b(1,2)] by simp
    qed
    show ?thesis
      unfolding e aes_decrypt_loop.simps [of D ?c blk' "E ?b @ ?r"] Let_def cp dr b(3) x Option.bind.bind_lunit y using ne by auto
  qed
qed

lemma aes_inverse:
  assumes "block_cipher (aes_encrypt_block lib key) (aes_decrypt_block lib key)" and "length junk = AES_BLOCK_SIZE"
    and "length junk' = AES_BLOCK_SIZE"
  shows "AESDecrypt lib key junk' (AESEncrypt lib key junk s) = Some (Some s)"
proof -
  have "length (aes_encrypt_loop (aes_encrypt_block lib key) junk s) mod AES_BLOCK_SIZE = 0" by (rule encrypt_length [OF assms(1,2)])
  then have "Suc (length (aes_encrypt_loop (aes_encrypt_block lib key) junk s)) mod AES_BLOCK_SIZE = 1"
    by (simp add: mod_Suc AES_BLOCK_SIZE_def)
  then show ?thesis using decrypt_encrypt_loop [OF assms]
    by (simp add: AESDecrypt_def AESEncrypt_def)
qed

definition rev_lib :: "unit crypto_lib" where
  "rev_lib = \<lparr>aes_encrypt_block = (\<lambda>k. rev), aes_decrypt_block = (\<lambda>k. rev), rsa_public_encrypt = (\<lambda>k b. Some (rev b)),
     rsa_private_decrypt = (\<lambda>k b. Some (rev b)), evp_encode = id, evp_decode = id\<rparr>"

lemma rev_cipher: "block_cipher (aes_encrypt_block rev_lib k) (aes_decrypt_block rev_lib k)"
  by (simp add: block_cipher_def rev_lib_def)



end
