(* ===== verification/JsonProtocol.thy ===== *)
theory JsonProtocol
  imports Crypto Buffers
begin

text \<open>
  The command protocol of the server, \<open>src/yymm_svr/jsonprotocol.h\<close> with the helpers of
  \<open>include/yyjson.h\<close>: every command is a class with a function that fills it from a JSON object and one
  that prints it; a command on the wire is an escape byte, its total size in 16 bits and a JSON
  object with the number of the command and its fields.

  The JSON library is a parameter. A value that the constructor of a class leaves uninitialised is
  \<^const>\<open>None\<close>, and printing it is a fault.
\<close>

section \<open>JSON values\<close>

datatype json =
    JNull | JBoolean bool | JDouble string | JInt int | JObject "(string \<times> json) list" | JArray "json list" | JString string

text \<open>The library: parsing a text, looking up a key of a value, and the entries the iteration over a value
  visits. The last two are documented for objects only; their value there is \<^const>\<open>None\<close> when they fail.\<close>

record json_lib =
  js_parse :: "string \<Rightarrow> json option"
  js_object_get :: "json \<Rightarrow> string \<Rightarrow> json option option"
  js_entries :: "json \<Rightarrow> (string \<times> json) list option"

fun is_int :: "json \<Rightarrow> bool" where
  "is_int (JInt i) = True"
| "is_int v = False"

fun is_bool :: "json \<Rightarrow> bool" where
  "is_bool (JBoolean b) = True"
| "is_bool v = False"

fun is_str :: "json \<Rightarrow> bool" where
  "is_str (JString s) = True"
| "is_str v = False"

fun get_int :: "json \<Rightarrow> int" where
  "get_int (JInt i) = i"
| "get_int v = 0"

fun get_bool :: "json \<Rightarrow> bool" where
  "get_bool (JBoolean b) = b"
| "get_bool v = False"

text \<open>A string is taken over up to its first NUL.\<close>

definition c_str :: "string \<Rightarrow> string" where
  "c_str s = takeWhile (\<lambda>c. c \<noteq> NUL) s"

fun get_str :: "json \<Rightarrow> string" where
  "get_str (JString s) = c_str s"
| "get_str v = []"

definition c_uint :: "int \<Rightarrow> nat" where
  "c_uint i = nat (i mod 4294967296)"

text \<open>\<open>json_object_object_foreach\<close> with a body that may return false.\<close>

fun foreach_entry :: "(string \<times> json \<Rightarrow> 'm \<Rightarrow> 'm option) \<Rightarrow> (string \<times> json) list \<Rightarrow> 'm \<Rightarrow> 'm option" where
  "foreach_entry body [] m = Some m"
| "foreach_entry body (kv # kvs) m = do { m \<leftarrow> body kv m; foreach_entry body kvs m }"

section \<open>Printing\<close>

abbreviation DQ :: char where "DQ \<equiv> CHR 0x22"

definition tos_bool :: "bool \<Rightarrow> string" where
  "tos_bool b = (if b then ''true'' else ''false'')"

definition toCmd_str :: "string \<Rightarrow> string \<Rightarrow> string" where
  "toCmd_str cmd val = [DQ] @ cmd @ [DQ, CHR '':'', DQ] @ val @ [DQ]"

definition toCmd_int :: "string \<Rightarrow> int \<Rightarrow> string" where
  "toCmd_int cmd i = [DQ] @ cmd @ [DQ, CHR '':''] @ show_int i"

definition toCmd_uint :: "string \<Rightarrow> nat \<Rightarrow> string" where
  "toCmd_uint cmd i = [DQ] @ cmd @ [DQ, CHR '':''] @ show_nat i"

definition toCmd_bool :: "string \<Rightarrow> bool \<Rightarrow> string" where
  "toCmd_bool cmd b = [DQ] @ cmd @ [DQ, CHR '':''] @ tos_bool b"

section \<open>Commands\<close>

subsection \<open>\<open>YYJson_Login\<close>\<close>

record YYJson_Login =
  li_yyID :: nat
  li_token :: string
  li_rsakey :: string

definition new_Login :: YYJson_Login where
  "new_Login = \<lparr>li_yyID = 0, li_token = [], li_rsakey = []\<rparr>"

definition Login_field :: "'key crypto_lib \<Rightarrow> string \<times> json \<Rightarrow> YYJson_Login \<Rightarrow> YYJson_Login option" where
  "Login_field lib kv m = (let (key, val) = kv in
     (if key = ''yyID'' \<and> is_int val then Some (m\<lparr>li_yyID := c_uint (get_int val)\<rparr>)
      else if key = ''token'' \<and> is_str val then Some (m\<lparr>li_token := get_str val\<rparr>)
      else if key = ''rsa'' \<and> is_str val then do { k \<leftarrow> base64decode lib (get_str val); Some (m\<lparr>li_rsakey := k\<rparr>) }
      else Some m))"

definition Login_read :: "'key crypto_lib \<Rightarrow> (string \<times> json) list \<Rightarrow> YYJson_Login \<Rightarrow> YYJson_Login option" where
  "Login_read lib kvs m = foreach_entry (Login_field lib) kvs m"

definition Login_write :: "'key crypto_lib \<Rightarrow> YYJson_Login \<Rightarrow> string option" where
  "Login_write lib m = do {
     b64 \<leftarrow> base64encode lib (li_rsakey m);
     Some (''{'' @ toCmd_uint ''yyID'' (li_yyID m) @ '','' @ toCmd_str ''token'' (li_token m) @ '','' @ toCmd_str ''rsa'' b64 @ ''}'') }"

subsection \<open>\<open>YYJson_Login_res\<close>\<close>

record YYJson_Login_res =
  lr_bTokenSucc :: bool
  lr_aeskey :: string

definition new_Login_res :: YYJson_Login_res where
  "new_Login_res = \<lparr>lr_bTokenSucc = False, lr_aeskey = []\<rparr>"

definition Login_res_field :: "'key crypto_lib \<Rightarrow> string \<times> json \<Rightarrow> YYJson_Login_res \<Rightarrow> YYJson_Login_res option" where
  "Login_res_field lib kv m = (let (key, val) = kv in
     (if key = ''bSucc'' \<and> is_bool val then Some (m\<lparr>lr_bTokenSucc := get_bool val\<rparr>)
      else if key = ''key'' \<and> is_str val then do { k \<leftarrow> base64decode lib (get_str val); Some (m\<lparr>lr_aeskey := k\<rparr>) }
      else Some m))"

definition Login_res_read :: "'key crypto_lib \<Rightarrow> (string \<times> json) list \<Rightarrow> YYJson_Login_res \<Rightarrow> YYJson_Login_res option" where
  "Login_res_read lib kvs m = foreach_entry (Login_res_field lib) kvs m"

definition Login_res_write :: "'key crypto_lib \<Rightarrow> YYJson_Login_res \<Rightarrow> string option" where
  "Login_res_write lib m = do {
     b64 \<leftarrow> base64encode lib (lr_aeskey m);
     Some (''{'' @ toCmd_bool ''bSucc'' (lr_bTokenSucc m) @ '','' @ toCmd_str ''key'' b64 @ ''}'') }"

subsection \<open>\<open>YYJson_Login1\<close>\<close>

record YYJson_Login1 =
  l1_uid :: nat
  l1_user :: string
  l1_pwd :: string

definition new_Login1 :: YYJson_Login1 where
  "new_Login1 = \<lparr>l1_uid = 0, l1_user = [], l1_pwd = []\<rparr>"

definition Login1_field :: "string \<times> json \<Rightarrow> YYJson_Login1 \<Rightarrow> YYJson_Login1 option" where
  "Login1_field kv m = (let (key, val) = kv in
     (if key = ''uid'' \<and> is_int val then Some (m\<lparr>l1_uid := c_uint (get_int val)\<rparr>)
      else if key = ''user'' \<and> is_str val then Some (m\<lparr>l1_user := get_str val\<rparr>)
      else if key = ''pwd'' \<and> is_str val then Some (m\<lparr>l1_pwd := get_str val\<rparr>)
      else Some m))"

definition Login1_read :: "(string \<times> json) list \<Rightarrow> YYJson_Login1 \<Rightarrow> YYJson_Login1 option" where
  "Login1_read kvs m = foreach_entry Login1_field kvs m"

definition Login1_write :: "YYJson_Login1 \<Rightarrow> string option" where
  "Login1_write m = do {
     Some (''{'' @ toCmd_str ''user'' (l1_user m) @ '','' @ toCmd_uint ''uid'' (l1_uid m) @ '','' @ toCmd_str ''pwd'' (l1_pwd m) @ ''}'') }"

subsection \<open>\<open>YYJson_Login1_res\<close>\<close>

record YYJson_Login1_res =
  l1r_bSucc :: bool

definition new_Login1_res :: YYJson_Login1_res where
  "new_Login1_res = \<lparr>l1r_bSucc = False\<rparr>"

definition Login1_res_field :: "string \<times> json \<Rightarrow> YYJson_Login1_res \<Rightarrow> YYJson_Login1_res option" where
  "Login1_res_field kv m = (let (key, val) = kv in
     (if key = ''bSucc'' \<and> is_bool val then Some (m\<lparr>l1r_bSucc := get_bool val\<rparr>)
      else Some m))"

definition Login1_res_read :: "(string \<times> json) list \<Rightarrow> YYJson_Login1_res \<Rightarrow> YYJson_Login1_res option" where
  "Login1_res_read kvs m = foreach_entry Login1_res_field kvs m"

definition Login1_res_write :: "YYJson_Login1_res \<Rightarrow> string option" where
  "Login1_res_write m = do {
     Some (''{'' @ toCmd_bool ''bSucc'' (l1r_bSucc m) @ ''}'') }"

subsection \<open>\<open>YYJson_Logout\<close>\<close>

record YYJson_Logout =
  lo_yyID :: "nat option"

definition new_Logout :: YYJson_Logout where
  "new_Logout = \<lparr>lo_yyID = None\<rparr>"

definition Logout_field :: "string \<times> json \<Rightarrow> YYJson_Logout \<Rightarrow> YYJson_Logout option" where
  "Logout_field kv m = (let (key, val) = kv in
     (if key = ''yyID'' \<and> is_int val then Some (m\<lparr>lo_yyID := Some (c_uint (get_int val))\<rparr>)
      else Some m))"

definition Logout_read :: "(string \<times> json) list \<Rightarrow> YYJson_Logout \<Rightarrow> YYJson_Logout option" where
  "Logout_read kvs m = foreach_entry Logout_field kvs m"

definition Logout_write :: "YYJson_Logout \<Rightarrow> string option" where
  "Logout_write m = do {
     yyID \<leftarrow> lo_yyID m;
     Some (''{'' @ toCmd_uint ''yyID'' yyID @ ''}'') }"

subsection \<open>\<open>YYJson_OpenUrl\<close>\<close>

record YYJson_OpenUrl =
  ou_channelID :: "nat option"
  ou_subChannelID :: "nat option"
  ou_url :: string

definition new_OpenUrl :: YYJson_OpenUrl where
  "new_OpenUrl = \<lparr>ou_channelID = None, ou_subChannelID = None, ou_url = []\<rparr>"

definition OpenUrl_field :: "string \<times> json \<Rightarrow> YYJson_OpenUrl \<Rightarrow> YYJson_OpenUrl option" where
  "OpenUrl_field kv m = (let (key, val) = kv in
     (if key = ''channelID'' \<and> is_int val then Some (m\<lparr>ou_channelID := Some (c_uint (get_int val))\<rparr>)
      else if key = ''subChannelID'' \<and> is_int val then Some (m\<lparr>ou_subChannelID := Some (c_uint (get_int val))\<rparr>)
      else if key = ''url'' \<and> is_str val then Some (m\<lparr>ou_url := get_str val\<rparr>)
      else Some m))"

definition OpenUrl_read :: "(string \<times> json) list \<Rightarrow> YYJson_OpenUrl \<Rightarrow> YYJson_OpenUrl option" where
  "OpenUrl_read kvs m = foreach_entry OpenUrl_field kvs m"

definition OpenUrl_write :: "YYJson_OpenUrl \<Rightarrow> string option" where
  "OpenUrl_write m = do {
     channelID \<leftarrow> ou_channelID m;
     subChannelID \<leftarrow> ou_subChannelID m;
     Some (''{'' @ toCmd_str ''url'' (ou_url m) @ '','' @ toCmd_uint ''channelID'' channelID @ '','' @ toCmd_uint ''subChannelID'' subChannelID @ ''}'') }"

subsection \<open>\<open>YYJson_OpenUrl_res\<close>\<close>

record YYJson_OpenUrl_res =
  our_bSucc :: bool
  our_url :: string

definition new_OpenUrl_res :: YYJson_OpenUrl_res where
  "new_OpenUrl_res = \<lparr>our_bSucc = False, our_url = []\<rparr>"

definition OpenUrl_res_field :: "string \<times> json \<Rightarrow> YYJson_OpenUrl_res \<Rightarrow> YYJson_OpenUrl_res option" where
  "OpenUrl_res_field kv m = (let (key, val) = kv in
     (if key = ''bSucc'' \<and> is_bool val then Some (m\<lparr>our_bSucc := get_bool val\<rparr>)
      else if key = ''url'' \<and> is_str val then Some (m\<lparr>our_url := get_str val\<rparr>)
      else Some m))"

definition OpenUrl_res_read :: "(string \<times> json) list \<Rightarrow> YYJson_OpenUrl_res \<Rightarrow> YYJson_OpenUrl_res option" where
  "OpenUrl_res_read kvs m = foreach_entry OpenUrl_res_field kvs m"

definition OpenUrl_res_write :: "YYJson_OpenUrl_res \<Rightarrow> string option" where
  "OpenUrl_res_write m = do {
     Some (''{'' @ toCmd_bool ''bSucc'' (our_bSucc m) @ '','' @ toCmd_str ''url'' (our_url m) @ ''}'') }"

subsection \<open>\<open>YYJson_MMS_OpenUrl\<close>\<close>

record YYJson_MMS_OpenUrl =
  mo_uid :: nat
  mo_yyID :: nat
  mo_channelID :: nat
  mo_subChannelID :: nat
  mo_url :: string
  mo_user :: string
  mo_tick :: string

definition new_MMS_OpenUrl :: YYJson_MMS_OpenUrl where
  "new_MMS_OpenUrl = \<lparr>mo_uid = 0, mo_yyID = 0, mo_channelID = 0, mo_subChannelID = 0, mo_url = [], mo_user = [], mo_tick = []\<rparr>"

definition MMS_OpenUrl_field :: "string \<times> json \<Rightarrow> YYJson_MMS_OpenUrl \<Rightarrow> YYJson_MMS_OpenUrl option" where
  "MMS_OpenUrl_field kv m = (let (key, val) = kv in
     (if key = ''uid'' \<and> is_int val then Some (m\<lparr>mo_uid := c_uint (get_int val)\<rparr>)
      else if key = ''yyID'' \<and> is_int val then Some (m\<lparr>mo_yyID := c_uint (get_int val)\<rparr>)
      else if key = ''channelID'' \<and> is_int val then Some (m\<lparr>mo_channelID := c_uint (get_int val)\<rparr>)
      else if key = ''subChannelID'' \<and> is_int val then Some (m\<lparr>mo_subChannelID := c_uint (get_int val)\<rparr>)
      else if key = ''url'' \<and> is_str val then Some (m\<lparr>mo_url := get_str val\<rparr>)
      else if key = ''user'' \<and> is_str val then Some (m\<lparr>mo_user := get_str val\<rparr>)
      else if key = ''tick'' \<and> is_str val then Some (m\<lparr>mo_tick := get_str val\<rparr>)
      else Some m))"

definition MMS_OpenUrl_read :: "(string \<times> json) list \<Rightarrow> YYJson_MMS_OpenUrl \<Rightarrow> YYJson_MMS_OpenUrl option" where
  "MMS_OpenUrl_read kvs m = foreach_entry MMS_OpenUrl_field kvs m"

definition MMS_OpenUrl_write :: "YYJson_MMS_OpenUrl \<Rightarrow> string option" where
  "MMS_OpenUrl_write m = do {
     Some (''{'' @ toCmd_uint ''uid'' (mo_uid m) @ '','' @ toCmd_uint ''yyID'' (mo_yyID m) @ '','' @ toCmd_str ''user'' (mo_user m) @ '','' @ toCmd_str ''tick'' (mo_tick m) @ '','' @ toCmd_uint ''channelID'' (mo_channelID m) @ '','' @ toCmd_uint ''subChannelID'' (mo_subChannelID m) @ '','' @ toCmd_str ''url'' (mo_url m) @ ''}'') }"

subsection \<open>\<open>YYJson_MMS_StopPlay\<close>\<close>

record YYJson_MMS_StopPlay =
  sp_yyID :: nat

definition new_MMS_StopPlay :: YYJson_MMS_StopPlay where
  "new_MMS_StopPlay = \<lparr>sp_yyID = 0\<rparr>"

definition MMS_StopPlay_field :: "string \<times> json \<Rightarrow> YYJson_MMS_StopPlay \<Rightarrow> YYJson_MMS_StopPlay option" where
  "MMS_StopPlay_field kv m = (let (key, val) = kv in
     (if key = ''yyID'' \<and> is_int val then Some (m\<lparr>sp_yyID := c_uint (get_int val)\<rparr>)
      else Some m))"

definition MMS_StopPlay_read :: "(string \<times> json) list \<Rightarrow> YYJson_MMS_StopPlay \<Rightarrow> YYJson_MMS_StopPlay option" where
  "MMS_StopPlay_read kvs m = foreach_entry MMS_StopPlay_field kvs m"

definition MMS_StopPlay_write :: "YYJson_MMS_StopPlay \<Rightarrow> string option" where
  "MMS_StopPlay_write m = do {
     Some (''{'' @ toCmd_uint ''yyID'' (sp_yyID m) @ ''}'') }"

subsection \<open>\<open>YYJson_MMS_StopPlay_res\<close>\<close>

record YYJson_MMS_StopPlay_res =
  spr_yyID :: nat

definition new_MMS_StopPlay_res :: YYJson_MMS_StopPlay_res where
  "new_MMS_StopPlay_res = \<lparr>spr_yyID = 0\<rparr>"

definition MMS_StopPlay_res_field :: "string \<times> json \<Rightarrow> YYJson_MMS_StopPlay_res \<Rightarrow> YYJson_MMS_StopPlay_res option" where
  "MMS_StopPlay_res_field kv m = (let (key, val) = kv in
     (if key = ''yyID'' \<and> is_int val then Some (m\<lparr>spr_yyID := c_uint (get_int val)\<rparr>)
      else Some m))"

definition MMS_StopPlay_res_read :: "(string \<times> json) list \<Rightarrow> YYJson_MMS_StopPlay_res \<Rightarrow> YYJson_MMS_StopPlay_res option" where
  "MMS_StopPlay_res_read kvs m = foreach_entry MMS_StopPlay_res_field kvs m"

definition MMS_StopPlay_res_write :: "YYJson_MMS_StopPlay_res \<Rightarrow> string option" where
  "MMS_StopPlay_res_write m = do {
     Some (''{'' @ toCmd_uint ''yyID'' (spr_yyID m) @ ''}'') }"

subsection \<open>\<open>YYJson_MMS_Exit\<close>\<close>

record YYJson_MMS_Exit =
  me_yyID :: nat

definition new_MMS_Exit :: YYJson_MMS_Exit where
  "new_MMS_Exit = \<lparr>me_yyID = 0\<rparr>"

definition MMS_Exit_field :: "string \<times> json \<Rightarrow> YYJson_MMS_Exit \<Rightarrow> YYJson_MMS_Exit option" where
  "MMS_Exit_field kv m = (let (key, val) = kv in
     (if key = ''yyID'' \<and> is_int val then Some (m\<lparr>me_yyID := c_uint (get_int val)\<rparr>)
      else Some m))"

definition MMS_Exit_read :: "(string \<times> json) list \<Rightarrow> YYJson_MMS_Exit \<Rightarrow> YYJson_MMS_Exit option" where
  "MMS_Exit_read kvs m = foreach_entry MMS_Exit_field kvs m"

definition MMS_Exit_write :: "YYJson_MMS_Exit \<Rightarrow> string option" where
  "MMS_Exit_write m = do {
     Some (''{'' @ toCmd_uint ''yyID'' (me_yyID m) @ ''}'') }"

subsection \<open>\<open>YYJson_Svr_Init\<close>\<close>

record YYJson_Svr_Init =
  si_yyID :: nat
  si_bSucc :: bool

definition new_Svr_Init :: YYJson_Svr_Init where
  "new_Svr_Init = \<lparr>si_yyID = 0, si_bSucc = False\<rparr>"

definition Svr_Init_field :: "string \<times> json \<Rightarrow> YYJson_Svr_Init \<Rightarrow> YYJson_Svr_Init option" where
  "Svr_Init_field kv m = (let (key, val) = kv in
     (if key = ''bSucc'' \<and> is_bool val then Some (m\<lparr>si_bSucc := get_bool val\<rparr>)
      else if key = ''yyID'' \<and> is_int val then Some (m\<lparr>si_yyID := c_uint (get_int val)\<rparr>)
      else Some m))"

definition Svr_Init_read :: "(string \<times> json) list \<Rightarrow> YYJson_Svr_Init \<Rightarrow> YYJson_Svr_Init option" where
  "Svr_Init_read kvs m = foreach_entry Svr_Init_field kvs m"

definition Svr_Init_write :: "YYJson_Svr_Init \<Rightarrow> string option" where
  "Svr_Init_write m = do {
     Some (''{'' @ toCmd_bool ''bSucc'' (si_bSucc m) @ '','' @ toCmd_uint ''yyID'' (si_yyID m) @ ''}'') }"

subsection \<open>\<open>YYJson_Comp_RSA\<close>\<close>

record YYJson_Comp_RSA =
  cr_version :: int
  cr_serString :: string

definition new_Comp_RSA :: YYJson_Comp_RSA where
  "new_Comp_RSA = \<lparr>cr_version = 0, cr_serString = []\<rparr>"

definition Comp_RSA_field :: "string \<times> json \<Rightarrow> YYJson_Comp_RSA \<Rightarrow> YYJson_Comp_RSA option" where
  "Comp_RSA_field kv m = (let (key, val) = kv in
     (if key = ''version'' \<and> is_int val then Some (m\<lparr>cr_version := get_int val\<rparr>)
      else if key = ''cmd'' \<and> is_str val then Some (m\<lparr>cr_serString := get_str val\<rparr>)
      else Some m))"

definition Comp_RSA_read :: "(string \<times> json) list \<Rightarrow> YYJson_Comp_RSA \<Rightarrow> YYJson_Comp_RSA option" where
  "Comp_RSA_read kvs m = foreach_entry Comp_RSA_field kvs m"

definition Comp_RSA_write :: "YYJson_Comp_RSA \<Rightarrow> string option" where
  "Comp_RSA_write m = do {
     Some (''{'' @ toCmd_int ''version'' (cr_version m) @ '','' @ toCmd_str ''cmd'' (cr_serString m) @ ''}'') }"

subsection \<open>\<open>YYJson_Comp_AES\<close>\<close>

record YYJson_Comp_AES =
  ca_version :: int
  ca_serString :: string

definition new_Comp_AES :: YYJson_Comp_AES where
  "new_Comp_AES = \<lparr>ca_version = 0, ca_serString = []\<rparr>"

definition Comp_AES_field :: "string \<times> json \<Rightarrow> YYJson_Comp_AES \<Rightarrow> YYJson_Comp_AES option" where
  "Comp_AES_field kv m = (let (key, val) = kv in
     (if key = ''version'' \<and> is_int val then Some (m\<lparr>ca_version := get_int val\<rparr>)
      else if key = ''cmd'' \<and> is_str val then Some (m\<lparr>ca_serString := get_str val\<rparr>)
      else Some m))"

definition Comp_AES_read :: "(string \<times> json) list \<Rightarrow> YYJson_Comp_AES \<Rightarrow> YYJson_Comp_AES option" where
  "Comp_AES_read kvs m = foreach_entry Comp_AES_field kvs m"

definition Comp_AES_write :: "YYJson_Comp_AES \<Rightarrow> string option" where
  "Comp_AES_write m = do {
     Some (''{'' @ toCmd_int ''version'' (ca_version m) @ '','' @ toCmd_str ''cmd'' (ca_serString m) @ ''}'') }"
section \<open>All commands\<close>

definition YY_JSON_COMPRESS_RSA :: int where "YY_JSON_COMPRESS_RSA = 1000"
definition YY_JSON_COMPRESS_AES :: int where "YY_JSON_COMPRESS_AES = 1001"
definition YY_JSON_LOGIN :: int where "YY_JSON_LOGIN = 1011"
definition YY_JSON_LOGIN_RES :: int where "YY_JSON_LOGIN_RES = 1012"
definition YY_JSON_LOGIN1 :: int where "YY_JSON_LOGIN1 = 1013"
definition YY_JSON_LOGIN1_RES :: int where "YY_JSON_LOGIN1_RES = 1014"
definition YY_JSON_LOGOUT :: int where "YY_JSON_LOGOUT = 1015"
definition YY_JSON_LOGOUT_RES :: int where "YY_JSON_LOGOUT_RES = 1016"
definition YY_JSON_OPENURL :: int where "YY_JSON_OPENURL = 1020"
definition YY_JSON_OPENURL_RES :: int where "YY_JSON_OPENURL_RES = 1021"
definition YY_JSON_MMS_OPENURL :: int where "YY_JSON_MMS_OPENURL = 2000"
definition YY_JSON_MMS_STOPPLAY :: int where "YY_JSON_MMS_STOPPLAY = 2002"
definition YY_JSON_MMS_STOPPLAY_RES :: int where "YY_JSON_MMS_STOPPLAY_RES = 2003"
definition YY_JSON_MMS_EXIT :: int where "YY_JSON_MMS_EXIT = 2004"
definition YY_JSON_SVR_INIT :: int where "YY_JSON_SVR_INIT = 3000"

lemmas cmd_numbers = YY_JSON_COMPRESS_RSA_def YY_JSON_COMPRESS_AES_def YY_JSON_LOGIN_def YY_JSON_LOGIN_RES_def YY_JSON_LOGIN1_def
  YY_JSON_LOGIN1_RES_def YY_JSON_LOGOUT_def YY_JSON_LOGOUT_RES_def YY_JSON_OPENURL_def YY_JSON_OPENURL_RES_def
  YY_JSON_MMS_OPENURL_def YY_JSON_MMS_STOPPLAY_def YY_JSON_MMS_STOPPLAY_RES_def YY_JSON_MMS_EXIT_def YY_JSON_SVR_INIT_def

datatype YYJ =
    Comp_RSA YYJson_Comp_RSA | Comp_AES YYJson_Comp_AES | Login YYJson_Login | Login_res YYJson_Login_res
  | Login1 YYJson_Login1 | Login1_res YYJson_Login1_res | Logout YYJson_Logout | Logout_res YYJson_Logout
  | OpenUrl YYJson_OpenUrl | OpenUrl_res YYJson_OpenUrl_res | MMS_OpenUrl YYJson_MMS_OpenUrl
  | MMS_StopPlay YYJson_MMS_StopPlay | MMS_StopPlay_res YYJson_MMS_StopPlay_res | MMS_Exit YYJson_MMS_Exit
  | Svr_Init YYJson_Svr_Init

fun YYJ_id :: "YYJ \<Rightarrow> int" where
  "YYJ_id (Comp_RSA m) = YY_JSON_COMPRESS_RSA"
| "YYJ_id (Comp_AES m) = YY_JSON_COMPRESS_AES"
| "YYJ_id (Login m) = YY_JSON_LOGIN"
| "YYJ_id (Login_res m) = YY_JSON_LOGIN_RES"
| "YYJ_id (Login1 m) = YY_JSON_LOGIN1"
| "YYJ_id (Login1_res m) = YY_JSON_LOGIN1_RES"
| "YYJ_id (Logout m) = YY_JSON_LOGOUT"
| "YYJ_id (Logout_res m) = YY_JSON_LOGOUT_RES"
| "YYJ_id (OpenUrl m) = YY_JSON_OPENURL"
| "YYJ_id (OpenUrl_res m) = YY_JSON_OPENURL_RES"
| "YYJ_id (MMS_OpenUrl m) = YY_JSON_MMS_OPENURL"
| "YYJ_id (MMS_StopPlay m) = YY_JSON_MMS_STOPPLAY"
| "YYJ_id (MMS_StopPlay_res m) = YY_JSON_MMS_STOPPLAY_RES"
| "YYJ_id (MMS_Exit m) = YY_JSON_MMS_EXIT"
| "YYJ_id (Svr_Init m) = YY_JSON_SVR_INIT"

text \<open>The virtual functions.\<close>

fun YYJ_read :: "'key crypto_lib \<Rightarrow> (string \<times> json) list \<Rightarrow> YYJ \<Rightarrow> YYJ option" where
  "YYJ_read lib kvs (Comp_RSA m) = map_option Comp_RSA (Comp_RSA_read kvs m)"
| "YYJ_read lib kvs (Comp_AES m) = map_option Comp_AES (Comp_AES_read kvs m)"
| "YYJ_read lib kvs (Login m) = map_option Login (Login_read lib kvs m)"
| "YYJ_read lib kvs (Login_res m) = map_option Login_res (Login_res_read lib kvs m)"
| "YYJ_read lib kvs (Login1 m) = map_option Login1 (Login1_read kvs m)"
| "YYJ_read lib kvs (Login1_res m) = map_option Login1_res (Login1_res_read kvs m)"
| "YYJ_read lib kvs (Logout m) = map_option Logout (Logout_read kvs m)"
| "YYJ_read lib kvs (Logout_res m) = map_option Logout_res (Logout_read kvs m)"
| "YYJ_read lib kvs (OpenUrl m) = map_option OpenUrl (OpenUrl_read kvs m)"
| "YYJ_read lib kvs (OpenUrl_res m) = map_option OpenUrl_res (OpenUrl_res_read kvs m)"
| "YYJ_read lib kvs (MMS_OpenUrl m) = map_option MMS_OpenUrl (MMS_OpenUrl_read kvs m)"
| "YYJ_read lib kvs (MMS_StopPlay m) = map_option MMS_StopPlay (MMS_StopPlay_read kvs m)"
| "YYJ_read lib kvs (MMS_StopPlay_res m) = map_option MMS_StopPlay_res (MMS_StopPlay_res_read kvs m)"
| "YYJ_read lib kvs (MMS_Exit m) = map_option MMS_Exit (MMS_Exit_read kvs m)"
| "YYJ_read lib kvs (Svr_Init m) = map_option Svr_Init (Svr_Init_read kvs m)"

fun YYJ_write :: "'key crypto_lib \<Rightarrow> YYJ \<Rightarrow> string option" where
  "YYJ_write lib (Comp_RSA m) = Comp_RSA_write m"
| "YYJ_write lib (Comp_AES m) = Comp_AES_write m"
| "YYJ_write lib (Login m) = Login_write lib m"
| "YYJ_write lib (Login_res m) = Login_res_write lib m"
| "YYJ_write lib (Login1 m) = Login1_write m"
| "YYJ_write lib (Login1_res m) = Login1_res_write m"
| "YYJ_write lib (Logout m) = Logout_write m"
| "YYJ_write lib (Logout_res m) = Logout_write m"
| "YYJ_write lib (OpenUrl m) = OpenUrl_write m"
| "YYJ_write lib (OpenUrl_res m) = OpenUrl_res_write m"
| "YYJ_write lib (MMS_OpenUrl m) = MMS_OpenUrl_write m"
| "YYJ_write lib (MMS_StopPlay m) = MMS_StopPlay_write m"
| "YYJ_write lib (MMS_StopPlay_res m) = MMS_StopPlay_res_write m"
| "YYJ_write lib (MMS_Exit m) = MMS_Exit_write m"
| "YYJ_write lib (Svr_Init m) = Svr_Init_write m"

text \<open>A new command of a number.\<close>

definition fnMap :: "(int \<times> YYJ) list" where
  "fnMap =
     [(YY_JSON_COMPRESS_RSA, Comp_RSA new_Comp_RSA), (YY_JSON_COMPRESS_AES, Comp_AES new_Comp_AES),
      (YY_JSON_LOGIN, Login new_Login), (YY_JSON_LOGIN_RES, Login_res new_Login_res),
      (YY_JSON_LOGIN1, Login1 new_Login1), (YY_JSON_LOGIN1_RES, Login1_res new_Login1_res),
      (YY_JSON_LOGOUT, Logout new_Logout), (YY_JSON_LOGOUT_RES, Logout_res new_Logout),
      (YY_JSON_OPENURL, OpenUrl new_OpenUrl), (YY_JSON_OPENURL_RES, OpenUrl_res new_OpenUrl_res),
      (YY_JSON_MMS_OPENURL, MMS_OpenUrl new_MMS_OpenUrl), (YY_JSON_MMS_STOPPLAY, MMS_StopPlay new_MMS_StopPlay),
      (YY_JSON_MMS_STOPPLAY_RES, MMS_StopPlay_res new_MMS_StopPlay_res), (YY_JSON_MMS_EXIT, MMS_Exit new_MMS_Exit),
      (YY_JSON_SVR_INIT, Svr_Init new_Svr_Init)]"

definition LookforMap :: "int \<Rightarrow> YYJ option" where
  "LookforMap i = map_of fnMap i"

section \<open>Commands on the wire\<close>

datatype YYMMSJSON_ERROR = ERROR_SUCCESS | ERROR_BUFSIZE | ERROR_ESC | ERROR_JSON | ERROR_UNKNOWED

definition PRE_CHAR :: char where
  "PRE_CHAR = CHR 0x17"

text \<open>A \<open>WORD\<close> in memory, low byte first.\<close>

definition word_bytes :: "nat \<Rightarrow> string" where
  "word_bytes n = [char_of (n mod 256), char_of (n div 256 mod 256)]"

definition word_value :: "char \<Rightarrow> char \<Rightarrow> nat" where
  "word_value lo hi = of_char lo + 256 * of_char hi"

text \<open>A member that is missing or null.\<close>

definition member :: "json_lib \<Rightarrow> json \<Rightarrow> string \<Rightarrow> json option option" where
  "member jl v key = do {
     r \<leftarrow> js_object_get jl v key;
     Some (if r = Some JNull then None else r) }"

text \<open>\<open>ParseCmd\<close>: the error, the new offset and the command. A total size below 3 makes the constructor of the
  text throw, which nobody catches.\<close>

definition ParseCmd :: "'key crypto_lib \<Rightarrow> json_lib \<Rightarrow> mem option \<Rightarrow> int \<Rightarrow> int
    \<Rightarrow> (YYMMSJSON_ERROR \<times> int \<times> YYJ option) option" where
  "ParseCmd lib jl cmd len offset =
     (if len < 3 then Some (ERROR_BUFSIZE, offset, None)
      else do {
        hd \<leftarrow> ptr_fetch cmd 0 3;
        c \<leftarrow> hd ! 0;
        if c \<noteq> PRE_CHAR then Some (ERROR_ESC, offset, None)
        else do {
          lo \<leftarrow> hd ! 1;
          hi \<leftarrow> hd ! 2;
          let jsize = word_value lo hi;
          if len < int jsize then Some (ERROR_BUFSIZE, offset, None)
          else do {
            assert_c (3 \<le> jsize);
            js \<leftarrow> ptr_fetch cmd 3 (jsize - 3);
            assert_c (None \<notin> set js);
            (case js_parse jl (c_str (map the js)) of
               None \<Rightarrow> Some (ERROR_JSON, offset, None)
             | Some v \<Rightarrow> do {
                 num \<leftarrow> member jl v ''cmd'';
                 obj \<leftarrow> member jl v ''obj'';
                 (case (num, obj) of
                    (Some num, Some obj) \<Rightarrow>
                      if \<not> is_int num then Some (ERROR_JSON, offset, None)
                      else (case LookforMap (get_int num) of
                              None \<Rightarrow> Some (ERROR_UNKNOWED, offset, None)
                            | Some jobj \<Rightarrow> do {
                                kvs \<leftarrow> js_entries jl obj;
                                Some (case YYJ_read lib kvs jobj of
                                        Some jobj \<Rightarrow> (ERROR_SUCCESS, offset + int jsize, Some jobj)
                                      | None \<Rightarrow> (ERROR_UNKNOWED, offset, None)) })
                  | r \<Rightarrow> Some (ERROR_JSON, offset, None)) }) } } })"

text \<open>\<open>FormatCmd\<close> appends to a text; the size is stored in 16 bits.\<close>

definition FormatCmd :: "'key crypto_lib \<Rightarrow> YYJ \<Rightarrow> string \<Rightarrow> string option" where
  "FormatCmd lib obj cmd = do {
     str \<leftarrow> YYJ_write lib obj;
     let cmdstr = ''{'' @ toCmd_int ''cmd'' (YYJ_id obj) @ '','' @ [DQ] @ ''obj'' @ [DQ] @ '':'' @ str @ ''}'';
     let len = (length cmdstr + 3) mod 65536;
     Some (cmd @ [PRE_CHAR] @ word_bytes len @ cmdstr) }"

section \<open>Encrypted commands\<close>

definition Comp_RSA_Format :: "'key crypto_lib \<Rightarrow> 'key option \<Rightarrow> YYJ \<Rightarrow> YYJson_Comp_RSA \<Rightarrow> YYJson_Comp_RSA option option" where
  "Comp_RSA_Format lib key jobj m = do {
     compstr \<leftarrow> FormatCmd lib jobj [];
     Some (do {
       encryStr \<leftarrow> RSAPublicEncrypt lib key compstr;
       b64 \<leftarrow> base64encode lib encryStr;
       Some (m\<lparr>cr_serString := b64\<rparr>) }) }"

definition unformat_parsed :: "(YYMMSJSON_ERROR \<times> int \<times> YYJ option) option \<Rightarrow> YYJ option option" where
  "unformat_parsed r = do {
     (err, offset, jobj) \<leftarrow> r;
     Some (if err = ERROR_SUCCESS then jobj else None) }"

definition Comp_RSA_UnFormat :: "'key crypto_lib \<Rightarrow> json_lib \<Rightarrow> 'key option \<Rightarrow> string \<Rightarrow> YYJson_Comp_RSA \<Rightarrow> YYJ option option" where
  "Comp_RSA_UnFormat lib jl key junk m =
     (if cr_serString m = [] then Some None
      else (case base64decode lib (cr_serString m) of
              None \<Rightarrow> Some None
            | Some out \<Rightarrow> do {
                r \<leftarrow> RSAPrivateDecrypt lib key junk out;
                (case r of
                   None \<Rightarrow> Some None
                 | Some s \<Rightarrow> unformat_parsed (ParseCmd lib jl (Some (c_literal s)) (c_int (int (length s))) 0)) }))"

definition Comp_AES_Format :: "'key crypto_lib \<Rightarrow> 'key \<Rightarrow> string \<Rightarrow> YYJ \<Rightarrow> YYJson_Comp_AES \<Rightarrow> YYJson_Comp_AES option option" where
  "Comp_AES_Format lib key junk jobj m = do {
     compstr \<leftarrow> FormatCmd lib jobj [];
     Some (do {
       b64 \<leftarrow> base64encode lib (AESEncrypt lib key junk compstr);
       Some (m\<lparr>ca_serString := b64\<rparr>) }) }"

definition Comp_AES_UnFormat :: "'key crypto_lib \<Rightarrow> json_lib \<Rightarrow> 'key \<Rightarrow> string \<Rightarrow> YYJson_Comp_AES \<Rightarrow> YYJ option option" where
  "Comp_AES_UnFormat lib jl key junk m =
     (if ca_serString m = [] then Some None
      else (case base64decode lib (ca_serString m) of
              None \<Rightarrow> Some None
            | Some out \<Rightarrow> do {
                r \<leftarrow> AESDecrypt lib key junk out;
                (case r of
                   None \<Rightarrow> Some None
                 | Some s \<Rightarrow> unformat_parsed (ParseCmd lib jl (Some (c_literal s)) (c_int (int (length s))) 0)) }))"

end
