(* ===== verification/JsonProps.thy ===== *)
theory JsonProps
  imports JsonProtocol
begin

text \<open>
  The protocol's promises: a command that is printed, framed, received and parsed is the same command,
  also through the encrypted form; parsing makes progress; and where the 16-bit size and the
  missing quoting break these promises.
\<close>

section \<open>Texts of values\<close>

fun commas :: "string list \<Rightarrow> string" where
  "commas [] = []"
| "commas [x] = x"
| "commas (x # xs) = x @ '','' @ commas xs"

fun json_text :: "json \<Rightarrow> string" where
  "json_text (JBoolean b) = tos_bool b"
| "json_text (JInt i) = show_int i"
| "json_text (JString s) = [DQ] @ s @ [DQ]"
| "json_text (JObject kvs) = ''{'' @ commas (map (\<lambda>(k, v). [DQ] @ k @ [DQ, CHR '':''] @ json_text v) kvs) @ ''}''"
| "json_text (JArray vs) = ''['' @ commas (map json_text vs) @ '']''"
| "json_text (JDouble s) = s"
| "json_text JNull = ''null''"

text \<open>The members a command prints, in this order.\<close>

fun YYJ_fields :: "'key crypto_lib \<Rightarrow> YYJ \<Rightarrow> (string \<times> json) list" where
  "YYJ_fields lib (Comp_RSA m) = [(''version'', JInt (cr_version m)), (''cmd'', JString (cr_serString m))]"
| "YYJ_fields lib (Comp_AES m) = [(''version'', JInt (ca_version m)), (''cmd'', JString (ca_serString m))]"
| "YYJ_fields lib (Login m) = [(''yyID'', JInt (int (li_yyID m))), (''token'', JString (li_token m)), (''rsa'', JString (evp_encode lib (li_rsakey m)))]"
| "YYJ_fields lib (Login_res m) = [(''bSucc'', JBoolean (lr_bTokenSucc m)), (''key'', JString (evp_encode lib (lr_aeskey m)))]"
| "YYJ_fields lib (Login1 m) = [(''user'', JString (l1_user m)), (''uid'', JInt (int (l1_uid m))), (''pwd'', JString (l1_pwd m))]"
| "YYJ_fields lib (Login1_res m) = [(''bSucc'', JBoolean (l1r_bSucc m))]"
| "YYJ_fields lib (Logout m) = [(''yyID'', JInt (int (the (lo_yyID m))))]"
| "YYJ_fields lib (Logout_res m) = [(''yyID'', JInt (int (the (lo_yyID m))))]"
| "YYJ_fields lib (OpenUrl m) = [(''url'', JString (ou_url m)), (''channelID'', JInt (int (the (ou_channelID m)))),
     (''subChannelID'', JInt (int (the (ou_subChannelID m))))]"
| "YYJ_fields lib (OpenUrl_res m) = [(''bSucc'', JBoolean (our_bSucc m)), (''url'', JString (our_url m))]"
| "YYJ_fields lib (MMS_OpenUrl m) = [(''uid'', JInt (int (mo_uid m))), (''yyID'', JInt (int (mo_yyID m))), (''user'', JString (mo_user m)),
     (''tick'', JString (mo_tick m)), (''channelID'', JInt (int (mo_channelID m))), (''subChannelID'', JInt (int (mo_subChannelID m))),
     (''url'', JString (mo_url m))]"
| "YYJ_fields lib (MMS_StopPlay m) = [(''yyID'', JInt (int (sp_yyID m)))]"
| "YYJ_fields lib (MMS_StopPlay_res m) = [(''yyID'', JInt (int (spr_yyID m)))]"
| "YYJ_fields lib (MMS_Exit m) = [(''yyID'', JInt (int (me_yyID m)))]"
| "YYJ_fields lib (Svr_Init m) = [(''bSucc'', JBoolean (si_bSucc m)), (''yyID'', JInt (int (si_yyID m)))]"

text \<open>Commands whose members are all set.\<close>

fun determined :: "YYJ \<Rightarrow> bool" where
  "determined (Logout m) \<longleftrightarrow> lo_yyID m \<noteq> None"
| "determined (Logout_res m) \<longleftrightarrow> lo_yyID m \<noteq> None"
| "determined (OpenUrl m) \<longleftrightarrow> ou_channelID m \<noteq> None \<and> ou_subChannelID m \<noteq> None"
| "determined m \<longleftrightarrow> True"

text \<open>Members that survive the library's types: numbers below \<open>2^31\<close>, texts without NUL, and keys that the
  base64 coder restores.\<close>

fun carried :: "json \<Rightarrow> bool" where
  "carried (JInt i) \<longleftrightarrow> - 2147483648 \<le> i \<and> i < 2147483648"
| "carried (JString s) \<longleftrightarrow> NUL \<notin> set s"
| "carried v \<longleftrightarrow> True"

fun keys_coded :: "'key crypto_lib \<Rightarrow> YYJ \<Rightarrow> bool" where
  "keys_coded lib (Login m) \<longleftrightarrow> evp_decode lib (evp_encode lib (li_rsakey m)) = li_rsakey m"
| "keys_coded lib (Login_res m) \<longleftrightarrow> evp_decode lib (evp_encode lib (lr_aeskey m)) = lr_aeskey m"
| "keys_coded lib m \<longleftrightarrow> True"

definition msg_ok :: "'key crypto_lib \<Rightarrow> YYJ \<Rightarrow> bool" where
  "msg_ok lib m \<longleftrightarrow> determined m \<and> keys_coded lib m \<and> (\<forall>(k, v)\<in>set (YYJ_fields lib m). carried v)"

lemma show_int_of_nat [simp]: "show_int (int n) = show_nat n"
  by (simp add: show_int_def)

lemmas writes = Comp_RSA_write_def Comp_AES_write_def Login_write_def Login_res_write_def Login1_write_def Login1_res_write_def
  Logout_write_def OpenUrl_write_def OpenUrl_res_write_def MMS_OpenUrl_write_def MMS_StopPlay_write_def MMS_StopPlay_res_write_def
  MMS_Exit_write_def Svr_Init_write_def

lemmas reads = Comp_RSA_read_def Comp_AES_read_def Login_read_def Login_res_read_def Login1_read_def Login1_res_read_def
  Logout_read_def OpenUrl_read_def OpenUrl_res_read_def MMS_OpenUrl_read_def MMS_StopPlay_read_def MMS_StopPlay_res_read_def
  MMS_Exit_read_def Svr_Init_read_def
  Comp_RSA_field_def Comp_AES_field_def Login_field_def Login_res_field_def Login1_field_def Login1_res_field_def
  Logout_field_def OpenUrl_field_def OpenUrl_res_field_def MMS_OpenUrl_field_def MMS_StopPlay_field_def MMS_StopPlay_res_field_def
  MMS_Exit_field_def Svr_Init_field_def

lemmas news = new_Comp_RSA_def new_Comp_AES_def new_Login_def new_Login_res_def new_Login1_def new_Login1_res_def new_Logout_def
  new_OpenUrl_def new_OpenUrl_res_def new_MMS_OpenUrl_def new_MMS_StopPlay_def new_MMS_StopPlay_res_def new_MMS_Exit_def new_Svr_Init_def

lemma write_text: "determined m \<Longrightarrow> YYJ_write lib m = Some (json_text (JObject (YYJ_fields lib m)))"
  by (cases m) (auto simp: writes toCmd_str_def toCmd_uint_def toCmd_int_def toCmd_bool_def base64encode_def)

lemma c_uint_id [simp]: "n < 2147483648 \<Longrightarrow> c_uint (int n) = n"
  by (simp add: c_uint_def)

lemma c_str_id [simp]: "NUL \<notin> set s \<Longrightarrow> c_str s = s"
  unfolding c_str_def by (rule takeWhile_eq_all_conv [THEN iffD2]) auto

lemma lookup_new: "\<exists>z. LookforMap (YYJ_id m) = Some z \<and> (msg_ok lib m \<longrightarrow> YYJ_read lib (YYJ_fields lib m) z = Some m)"
  by (cases m) (auto simp: LookforMap_def fnMap_def cmd_numbers msg_ok_def reads news base64decode_def)

section \<open>Framing\<close>

definition envelope :: "'key crypto_lib \<Rightarrow> YYJ \<Rightarrow> json" where
  "envelope lib m = JObject [(''cmd'', JInt (YYJ_id m)), (''obj'', JObject (YYJ_fields lib m))]"

text \<open>What is relied on of the JSON library: looking up and iterating over the members of objects.\<close>

definition json_lib_ok :: "json_lib \<Rightarrow> bool" where
  "json_lib_ok jl \<longleftrightarrow> (\<forall>kvs k. js_object_get jl (JObject kvs) k = Some (map_of kvs k)) \<and> (\<forall>kvs. js_entries jl (JObject kvs) = Some kvs)"

lemma format_text:
  assumes "determined m"
  shows "FormatCmd lib m pre
    = Some (pre @ [PRE_CHAR] @ word_bytes ((length (json_text (envelope lib m)) + 3) mod 65536) @ json_text (envelope lib m))"
  using write_text [OF assms, of lib] by (simp add: FormatCmd_def envelope_def toCmd_int_def Let_def)

lemma digits_no_NUL: "NUL \<notin> set (show_nat n)" "NUL \<notin> set (show_int i)"
  using show_nat_digits digit_not_special by (auto simp: show_int_def split: if_splits)

lemma commas_no_NUL: "\<forall>x\<in>set xs. NUL \<notin> set x \<Longrightarrow> NUL \<notin> set (commas xs)"
  by (induction xs rule: commas.induct) auto

lemma fields_plain: "(k, v) \<in> set (YYJ_fields lib m) \<Longrightarrow> NUL \<notin> set k \<and> (carried v \<longrightarrow> NUL \<notin> set (json_text v))"
  by (cases m) (auto simp: digits_no_NUL tos_bool_def split: if_splits)

lemma text_no_NUL: "msg_ok lib m \<Longrightarrow> NUL \<notin> set (json_text (envelope lib m))"
proof -
  assume "msg_ok lib m"
  then have "NUL \<notin> set (commas (map (\<lambda>(k, v). [DQ] @ k @ [DQ, CHR '':''] @ json_text v) (YYJ_fields lib m)))"
    using fields_plain by (intro commas_no_NUL) (fastforce simp: msg_ok_def)
  then show ?thesis by (simp add: envelope_def digits_no_NUL)
qed

lemma word_value_bytes: "n < 65536 \<Longrightarrow> word_value (char_of (n mod 256)) (char_of (n div 256 mod 256)) = n"
  by (simp add: word_value_def)

lemma fetch_frame:
  "ptr_fetch (Some (map Some (a # b # c # x) @ junk)) 0 3 = Some [Some a, Some b, Some c]"
  "ptr_fetch (Some (map Some (a # b # c # x) @ junk)) 3 (length x) = Some (map Some x)"
  by (simp_all add: ptr_fetch_def mem_fetch_def numeral_3_eq_3)

lemma parse_formatted:
  assumes "msg_ok lib m" and "json_lib_ok jl" and "js_parse jl (json_text (envelope lib m)) = Some (envelope lib m)"
    and "FormatCmd lib m [] = Some t" and "length t < 65536" and "int (length t) \<le> len"
  shows "ParseCmd lib jl (Some (map Some t @ junk)) len off = Some (ERROR_SUCCESS, off + int (length t), Some m)"
proof -
  let ?x = "json_text (envelope lib m)"
  have det: "determined m" using assms(1) by (simp add: msg_ok_def)
  have t0: "t = [PRE_CHAR] @ word_bytes ((length ?x + 3) mod 65536) @ ?x" using assms(4) format_text [OF det, of lib "[]"] by simp
  then have lt: "length t = length ?x + 3" by (simp add: word_bytes_def)
  then have wb: "(length ?x + 3) mod 65536 = length ?x + 3" using assms(5) by simp
  have t: "t = PRE_CHAR # char_of ((length ?x + 3) mod 256) # char_of ((length ?x + 3) div 256 mod 256) # ?x"
    using t0 unfolding wb word_bytes_def by simp
  have hd: "ptr_fetch (Some (map Some t @ junk)) 0 3
      = Some [Some PRE_CHAR, Some (char_of ((length ?x + 3) mod 256)), Some (char_of ((length ?x + 3) div 256 mod 256))]"
    unfolding t by (rule fetch_frame(1))
  have body: "ptr_fetch (Some (map Some t @ junk)) 3 (length ?x) = Some (map Some ?x)"
    unfolding t by (rule fetch_frame(2))
  have wv: "word_value (char_of ((length ?x + 3) mod 256)) (char_of ((length ?x + 3) div 256 mod 256)) = length ?x + 3"
    using word_value_bytes [of "length ?x + 3"] assms(5) lt by simp
  obtain z where z: "LookforMap (YYJ_id m) = Some z" "YYJ_read lib (YYJ_fields lib m) z = Some m"
    using lookup_new [of m lib] assms(1) by blast
  have mem: "member jl (envelope lib m) ''cmd'' = Some (Some (JInt (YYJ_id m)))"
      "member jl (envelope lib m) ''obj'' = Some (Some (JObject (YYJ_fields lib m)))"
    using assms(2) by (simp_all add: member_def envelope_def json_lib_ok_def)
  have ent: "js_entries jl (JObject (YYJ_fields lib m)) = Some (YYJ_fields lib m)" using assms(2) by (simp add: json_lib_ok_def)
  have nn: "c_str (map the (map Some ?x)) = ?x" using c_str_id [OF text_no_NUL [OF assms(1)]] by (simp add: comp_def)
  have ge: "\<not> len < 3" "\<not> len < int (length ?x + 3)" using assms(6) lt by simp_all
  show ?thesis unfolding ParseCmd_def hd Option.bind.bind_lunit
    using ge wv body nn assms(3) mem ent z lt by (simp add: Let_def)
qed

lemma word_value_less: "word_value a b < 65536"
proof -
  have "(of_char a :: nat) < 256" "(of_char b :: nat) < 256" by (rule nat_of_char_less_256)+
  then show ?thesis unfolding word_value_def by linarith
qed

text \<open>What a successful parse has seen.\<close>

lemma parse_success:
  assumes "ParseCmd lib jl cmd len off = Some (ERROR_SUCCESS, off', j)"
  obtains hd lo hi m where "3 \<le> len" "ptr_fetch cmd 0 3 = Some hd" "hd ! 0 = Some PRE_CHAR" "hd ! 1 = Some lo" "hd ! 2 = Some hi"
    "3 \<le> word_value lo hi" "int (word_value lo hi) \<le> len" "off' = off + int (word_value lo hi)" "j = Some m"
proof -
  note P = assms [unfolded ParseCmd_def]
  have 1: "\<not> len < 3" using P by auto
  obtain hd where 2: "ptr_fetch cmd 0 3 = Some hd" using P 1 by (cases "ptr_fetch cmd 0 3") auto
  obtain c where 3: "hd ! 0 = Some c" using P 1 2 by (cases "hd ! 0") auto
  have 4: "c = PRE_CHAR" using P 1 2 3 by (cases "c = PRE_CHAR") auto
  note Q = P [unfolded if_not_P [OF 1] 2 Option.bind.bind_lunit 3 4]
  obtain lo where 5: "hd ! 1 = Some lo" using Q by (cases "hd ! 1") auto
  obtain hi where 6: "hd ! 2 = Some hi" using Q 5 by (cases "hd ! 2") auto
  note R = Q [simplified 5 6 Option.bind.bind_lunit Let_def]
  have 7: "\<not> len < int (word_value lo hi)" using R by (cases "len < int (word_value lo hi)") auto
  have 8: "3 \<le> word_value lo hi" using R 7 by (cases "3 \<le> word_value lo hi") (auto simp: assert_c_def)
  obtain js where 9: "ptr_fetch cmd 3 (word_value lo hi - 3) = Some js" using R 7 8
    by (cases "ptr_fetch cmd 3 (word_value lo hi - 3)") auto
  obtain v where 10: "js_parse jl (c_str (map the js)) = Some v" using R 7 8 9
    by (cases "js_parse jl (c_str (map the js))") (auto simp: bind_eq_Some_conv)
  obtain num where 11: "member jl v ''cmd'' = Some (Some num)" using R 7 8 9 10
    by (cases "member jl v ''cmd''") (auto simp: bind_eq_Some_conv split: option.split_asm)
  obtain ob where 12: "member jl v ''obj'' = Some (Some ob)" using R 7 8 9 10 11
    by (cases "member jl v ''obj''") (auto simp: bind_eq_Some_conv split: option.split_asm)
  have 13: "is_int num" using R 7 8 9 10 11 12 by (cases "is_int num") (auto simp: bind_eq_Some_conv)
  obtain z where 14: "LookforMap (get_int num) = Some z" using R 7 8 9 10 11 12 13
    by (cases "LookforMap (get_int num)") (auto simp: bind_eq_Some_conv)
  have 15: "off' = off + int (word_value lo hi) \<and> (\<exists>m. j = Some m)" using R 7 8 9 10 11 12 13 14
    by (auto simp: bind_eq_Some_conv split: option.split_asm)
  then obtain m where "off' = off + int (word_value lo hi)" "j = Some m" by blast
  then show thesis using that [of hd lo hi m] 1 2 3 4 5 6 7 8 by simp
qed


section \<open>Properties\<close>


text \<open>A library that knows one text.\<close>

definition object_entries :: "json \<Rightarrow> (string \<times> json) list option" where
  "object_entries v = (case v of JObject kvs \<Rightarrow> Some kvs | r \<Rightarrow> None)"

definition one_text_lib :: "json \<Rightarrow> json_lib" where
  "one_text_lib v = \<lparr>js_parse = (\<lambda>s. if s = json_text v then Some v else None),
     js_object_get = (\<lambda>v k. map_option (\<lambda>kvs. map_of kvs k) (object_entries v)), js_entries = object_entries\<rparr>"

lemma one_text_ok: "json_lib_ok (one_text_lib v)" "js_parse (one_text_lib v) (json_text v) = Some v"
  by (simp_all add: json_lib_ok_def one_text_lib_def object_entries_def)

definition a_login :: YYJ where
  "a_login = Login1 \<lparr>l1_uid = 7, l1_user = ''bob'', l1_pwd = ''x''\<rparr>"

definition a_login_text :: string where
  "a_login_text = [PRE_CHAR, CHR 0x36, NUL, CHR ''{'', DQ] @ ''cmd'' @ [DQ] @ '':1013,'' @ [DQ] @ ''obj'' @ [DQ] @ '':{'' @
     [DQ] @ ''user'' @ [DQ, CHR '':'', DQ] @ ''bob'' @ [DQ] @ '','' @ [DQ] @ ''uid'' @ [DQ] @ '':7,'' @ [DQ] @ ''pwd'' @ [DQ, CHR '':'', DQ] @ ''x'' @ [DQ] @ ''}}''"

lemma a_login_formats: "msg_ok lib a_login" "FormatCmd lib a_login [] = Some a_login_text"
proof -
  have "show_nat 1013 = ''1013''" "show_nat 7 = ''7''" "word_bytes 54 = [CHR 0x36, NUL]" by code_simp+
  then show "FormatCmd lib a_login [] = Some a_login_text"
    by (simp add: a_login_def a_login_text_def FormatCmd_def writes cmd_numbers toCmd_int_def toCmd_str_def toCmd_uint_def show_int_def Let_def)
  show "msg_ok lib a_login" by (simp add: msg_ok_def a_login_def)
qed


lemma c_int_small: "n < 65536 \<Longrightarrow> c_int (int n) = int n"
  by (simp add: c_int_def signed_take_bit_int_eq_self)

text \<open>
  C23 (roundtrip). A command encrypted with \<open>YYJson_Comp_AES::Format\<close> is restored by \<open>UnFormat\<close> with the same
  key, whatever the uninitialised blocks on both stacks contain.
\<close>

theorem aes_command_roundtrip:
  assumes "msg_ok lib m" and "json_lib_ok jl" and "js_parse jl (json_text (envelope lib m)) = Some (envelope lib m)"
    and "FormatCmd lib m [] = Some t" and "length t < 65536"
    and "block_cipher (aes_encrypt_block lib key) (aes_decrypt_block lib key)"
    and "length stack = AES_BLOCK_SIZE" and "length stack' = AES_BLOCK_SIZE"
    and "\<forall>s. evp_decode lib (evp_encode lib s) = s" and "\<forall>s. s \<noteq> [] \<longrightarrow> evp_encode lib s \<noteq> []"
  shows "\<exists>c. Comp_AES_Format lib key stack m c0 = Some (Some c) \<and> ca_version c = ca_version c0 \<and>
    Comp_AES_UnFormat lib jl key stack' c = Some (Some m)"
proof -
  have ne: "AESEncrypt lib key stack t \<noteq> []" by (simp add: AESEncrypt_def)
  have "ParseCmd lib jl (Some (map Some t @ [Some NUL])) (int (length t)) 0 = Some (ERROR_SUCCESS, 0 + int (length t), Some m)"
    by (rule parse_formatted [OF assms(1-5)]) simp
  then show ?thesis using assms(4,5,9,10) ne aes_inverse [OF assms(6-8), of t]
    by (simp add: Comp_AES_Format_def Comp_AES_UnFormat_def base64encode_def base64decode_def unformat_parsed_def c_literal_def c_int_small)
qed

theorem aes_command_roundtrip_witness:
  "\<exists>c. Comp_AES_Format rev_lib () (replicate 16 LF) a_login new_Comp_AES = Some (Some c) \<and> ca_version c = ca_version new_Comp_AES \<and>
    Comp_AES_UnFormat rev_lib (one_text_lib (envelope rev_lib a_login)) () (replicate 16 CR) c = Some (Some a_login)"
  by (rule aes_command_roundtrip [OF a_login_formats(1) one_text_ok a_login_formats(2) _ rev_cipher])
    (simp_all add: a_login_text_def AES_BLOCK_SIZE_def rev_lib_def)

lemma format_frame:
  assumes "FormatCmd lib m [] = Some t"
  obtains lo hi x where "t = PRE_CHAR # lo # hi # x" "word_value lo hi = length t mod 65536"
proof -
  obtain str where str: "YYJ_write lib m = Some str" using assms by (auto simp: FormatCmd_def bind_eq_Some_conv)
  obtain x where x: "x = ''{'' @ toCmd_int ''cmd'' (YYJ_id m) @ '','' @ [DQ] @ ''obj'' @ [DQ] @ '':'' @ str @ ''}''" by simp
  have t: "t = [PRE_CHAR] @ word_bytes ((length x + 3) mod 65536) @ x"
    using assms str unfolding x by (simp add: FormatCmd_def Let_def)
  let ?n = "(length x + 3) mod 65536"
  have "word_value (char_of (?n mod 256)) (char_of (?n div 256 mod 256)) = ?n" by (rule word_value_bytes) simp
  moreover have "t = PRE_CHAR # char_of (?n mod 256) # char_of (?n div 256 mod 256) # x" "length t = length x + 3"
    using t by (simp_all add: word_bytes_def)
  ultimately show thesis using that by metis
qed

text \<open>
  C24 (bounds). A command whose frame has 65536 bytes or more is never received: its size wraps around in the
  16-bit field, so \<open>ParseCmd\<close> on the whole frame never succeeds with the frame consumed; when the
  wrapped size is below 3, parsing it ends in an uncaught exception.
\<close>

theorem command_size_wraps:
  assumes "FormatCmd lib m [] = Some t" and "65536 \<le> length t" and "3 \<le> len"
  shows "ParseCmd lib jl (Some (map Some t @ junk)) len off \<noteq> Some (ERROR_SUCCESS, off + int (length t), j) \<and>
    (length t mod 65536 < 3 \<longrightarrow> ParseCmd lib jl (Some (map Some t @ junk)) len off = None)"
proof
  show "ParseCmd lib jl (Some (map Some t @ junk)) len off \<noteq> Some (ERROR_SUCCESS, off + int (length t), j)"
  proof
    assume "ParseCmd lib jl (Some (map Some t @ junk)) len off = Some (ERROR_SUCCESS, off + int (length t), j)"
    then obtain lo hi where "off + int (length t) = off + int (word_value lo hi)" by (elim parse_success)
    then show False using word_value_less [of lo hi] assms(2) by simp
  qed
  obtain lo hi x where t: "t = PRE_CHAR # lo # hi # x" "word_value lo hi = length t mod 65536" by (rule format_frame [OF assms(1)])
  have h: "ptr_fetch (Some (map Some t @ junk)) 0 3 = Some [Some PRE_CHAR, Some lo, Some hi]" unfolding t(1) by (rule fetch_frame(1))
  have n: "\<not> len < 3" "\<not> len < int (word_value lo hi)" if "length t mod 65536 < 3" using assms(3) t(2) that by simp_all
  show "length t mod 65536 < 3 \<longrightarrow> ParseCmd lib jl (Some (map Some t @ junk)) len off = None"
  proof
    assume s: "length t mod 65536 < 3"
    then show "ParseCmd lib jl (Some (map Some t @ junk)) len off = None"
      using n [OF s] t(2) unfolding ParseCmd_def h by (simp add: assert_c_def Let_def)
  qed
qed

definition long_login :: YYJ where
  "long_login = Login1 \<lparr>l1_uid = 7, l1_user = replicate 65485 CR, l1_pwd = ''x''\<rparr>"

theorem command_size_wraps_witness:
  "ParseCmd rev_lib (one_text_lib JNull) (Some (map Some (the (FormatCmd rev_lib long_login [])))) 65536 0 = None"
proof -
  let ?t = "the (FormatCmd rev_lib long_login [])"
  have d: "show_nat 1013 = ''1013''" "show_nat 7 = ''7''" by code_simp+
  obtain t where t: "FormatCmd rev_lib long_login [] = Some t" by (simp add: FormatCmd_def long_login_def Login1_write_def)
  then have "length t = 65536"
    by (auto simp: long_login_def FormatCmd_def writes cmd_numbers toCmd_int_def toCmd_str_def toCmd_uint_def show_int_def d word_bytes_def Let_def)
  then show ?thesis using command_size_wraps [OF t, where jl = "one_text_lib JNull" and len = 65536 and junk = "[]" and off = 0] t by simp
qed

text \<open>
  Members are printed without quoting, so different commands have the same text: a user name may
  continue with the rest of the object. Nothing can parse both.
\<close>

lemma commands_ambiguous:
  "FormatCmd lib (Login1 \<lparr>l1_uid = j, l1_user = u @ [DQ] @ '','' @ toCmd_uint ''uid'' i @ '','' @ [DQ] @ ''pwd'' @ [DQ, CHR '':'', DQ] @ p,
       l1_pwd = q\<rparr>) t =
   FormatCmd lib (Login1 \<lparr>l1_uid = i, l1_user = u,
       l1_pwd = p @ [DQ] @ '','' @ toCmd_uint ''uid'' j @ '','' @ [DQ] @ ''pwd'' @ [DQ, CHR '':'', DQ] @ q\<rparr>) t"
  by (simp add: FormatCmd_def Login1_write_def toCmd_str_def)

end
