(* ===== verification/EventLoop.thy ===== *)
theory EventLoop
  imports Net Buffers Containers
begin

text \<open>
  The event loop of the server, \<open>src/event/yylibevent.cpp\<close> with \<open>src/event/event_msgqueue.h\<close>: connections
  with their write buffers, the handlers of read, write and accept events, and the queue through which the
  workers hand buffers to the loop.

  A connection's state is an object in a heap; the loop's map and the events refer to it by its address,
  and using the address after the object is deleted is a fault. The calls the loop makes on its owner
  (\<open>ILibEvent\<close>) and on other queue handlers, and the system, are a record of parameters.
\<close>

section \<open>Data\<close>

record fd_state =
  fs_writebuffer :: fastbuffer
  fs_reading :: bool
  fs_writing :: bool
  fs_listen_port :: nat

datatype queue_handler = ThisLoop | OtherHandler nat

record ('c, 'w) yylibevent =
  ev_states :: "(int, nat option) hash_map_lock"
  ev_heap :: "nat \<rightharpoonup> fd_state"
  ev_next :: nat
  ev_callback :: bool
  ev_queueback :: "(char \<times> queue_handler option) list"
  ev_bufqueue :: "(char, fastbuffer option) LockQueueMap"
  ev_msgfd :: int
  ev_queuefd :: "int option"
  ev_listeners :: "(int \<times> nat) list"
  ev_client :: 'c
  ev_sys :: "'w sys"

text \<open>
  The parameters: the system calls of \<^typ>\<open>'w os_api\<close> and those for listening, whether blocks of memory and
  events can be had, and the virtual functions of the owner and of the other handlers. \<open>data_receive\<close> returns
  whether the caller keeps the buffer.
\<close>

record ('c, 'w) ev_env =
  en_os :: "'w os_api"
  en_accept :: "int \<Rightarrow> 'w sys \<Rightarrow> int \<times> 'w sys"
  en_listen :: "bool \<Rightarrow> nat \<Rightarrow> 'w sys \<Rightarrow> int \<times> bool \<times> bool \<times> 'w sys"
  en_socketpair :: "'w sys \<Rightarrow> (int \<times> int) option \<times> 'w sys"
  en_base :: bool
  en_avail :: "nat \<Rightarrow> bool"
  en_events :: "'w sys \<Rightarrow> bool \<times> bool"
  en_data_receive :: "int \<Rightarrow> fastbuffer \<Rightarrow> nat \<Rightarrow> 'c \<Rightarrow> (bool \<times> 'c) option"
  en_fd_close :: "int \<Rightarrow> 'c \<Rightarrow> 'c option"
  en_queue_receive :: "nat \<Rightarrow> char \<Rightarrow> 'c \<Rightarrow> 'w sys \<Rightarrow> ('c \<times> 'w sys) option"

definition WRITE_EVENT_FLAG :: char where
  "WRITE_EVENT_FLAG = CHR 0x01"

definition EINTR :: int where "EINTR = 4"
definition EMFILE :: int where "EMFILE = 24"

definition again :: "int \<Rightarrow> bool" where
  "again err \<longleftrightarrow> err = EAGAIN \<or> err = WSAEWOULDBLOCK \<or> err = EINTR"

text \<open>A socket number below 0 is refused by the system.\<close>

definition sock_send :: "'w os_api \<Rightarrow> int \<Rightarrow> string \<Rightarrow> 'w sys \<Rightarrow> send_result \<times> 'w sys" where
  "sock_send os fd bytes w = (if fd < 0 then (SendError, w) else os_send os (nat fd) bytes w)"

definition sock_recv :: "'w os_api \<Rightarrow> int \<Rightarrow> nat \<Rightarrow> 'w sys \<Rightarrow> recv_result \<times> 'w sys" where
  "sock_recv os fd n w = (if fd < 0 then (RecvError, w) else os_recv os (nat fd) n w)"

section \<open>Connections\<close>

text \<open>The new object's address, or NULL.\<close>

definition alloc_fd_state :: "('c, 'w) ev_env \<Rightarrow> int \<Rightarrow> nat \<Rightarrow> ('c, 'w) yylibevent \<Rightarrow> nat option \<times> ('c, 'w) yylibevent" where
  "alloc_fd_state env fd listen_port e =
     (let a = ev_next e;
          state = \<lparr>fs_writebuffer = new_fastbuffer, fs_reading = False, fs_writing = False, fs_listen_port = listen_port\<rparr>
      in if \<not> en_avail env 64 then (None, e)
         else if \<not> fst (en_events env (ev_sys e)) then (None, e)
         else if \<not> snd (en_events env (ev_sys e)) then (None, e)
         else (Some a, e\<lparr>ev_heap := (ev_heap e)(a \<mapsto> state), ev_next := a + 1,
                          ev_states := unlocked_add_state fd (Some a) (ev_states e)\<rparr>))"

definition free_fd_state :: "('c, 'w) ev_env \<Rightarrow> int \<Rightarrow> nat \<Rightarrow> ('c, 'w) yylibevent \<Rightarrow> ('c, 'w) yylibevent option" where
  "free_fd_state env fd a e = do {
     state \<leftarrow> ev_heap e a;
     e \<leftarrow> (if ev_callback e then do { c \<leftarrow> en_fd_close env fd (ev_client e); Some (e\<lparr>ev_client := c\<rparr>) } else Some e);
     let e = e\<lparr>ev_states := unlocked_del_state fd (ev_states e)\<rparr>;
     let e = e\<lparr>ev_sys := os_closesocket (en_os env) (nat fd) (ev_sys e)\<rparr>;
     Some (e\<lparr>ev_heap := (ev_heap e)(a := None)\<rparr>) }"

section \<open>Reading\<close>

text \<open>The loop of \<open>do_read\<close>; it ends with the first \<open>recv\<close> that brings no data.\<close>

partial_function (option) read_loop :: "('c, 'w) ev_env \<Rightarrow> int \<Rightarrow> nat \<Rightarrow> fastbuffer option \<Rightarrow> ('c, 'w) yylibevent
    \<Rightarrow> ('c, 'w) yylibevent option" where
  "read_loop env fd a readbuffer e = do {
     state \<leftarrow> ev_heap e a;
     (case sock_recv (en_os env) fd 1024 (ev_sys e) of
        (RecvError, w) \<Rightarrow>
          (let e = e\<lparr>ev_sys := w\<rparr>
           in if again (os_lasterror (en_os env) w) then
                (case readbuffer of
                   Some rb \<Rightarrow>
                     if ev_callback e then do {
                       (keep, c) \<leftarrow> en_data_receive env fd rb (fs_listen_port state) (ev_client e);
                       Some (e\<lparr>ev_client := c\<rparr>) }
                     else Some e
                 | None \<Rightarrow> Some e)
              else free_fd_state env fd a e)
      | (RecvClosed, w) \<Rightarrow> free_fd_state env fd a (e\<lparr>ev_sys := w\<rparr>)
      | (RecvData bytes, w) \<Rightarrow> do {
          let rb = (case readbuffer of None \<Rightarrow> new_fastbuffer | Some rb \<Rightarrow> rb);
          (n, rb) \<leftarrow> fastbuffer_append (en_avail env) (Some (map Some bytes)) (length bytes) rb;
          read_loop env fd a (Some rb) (e\<lparr>ev_sys := w\<rparr>) }) }"

definition do_read :: "('c, 'w) ev_env \<Rightarrow> int \<Rightarrow> nat option \<Rightarrow> ('c, 'w) yylibevent \<Rightarrow> ('c, 'w) yylibevent option" where
  "do_read env fd arg e = (case arg of None \<Rightarrow> Some e | Some a \<Rightarrow> read_loop env fd a None e)"

section \<open>Writing\<close>

text \<open>The bytes that are passed to \<open>send\<close>.\<close>

definition fb_bytes :: "fastbuffer \<Rightarrow> string option" where
  "fb_bytes b = do {
     m \<leftarrow> ptr_fetch (fb_buf b) 0 (fb_size b);
     assert_c (None \<notin> set m);
     Some (map the m) }"

definition set_fd_state :: "nat \<Rightarrow> fd_state \<Rightarrow> ('c, 'w) yylibevent \<Rightarrow> ('c, 'w) yylibevent" where
  "set_fd_state a state e = e\<lparr>ev_heap := (ev_heap e)(a \<mapsto> state)\<rparr>"

definition do_write :: "('c, 'w) ev_env \<Rightarrow> int \<Rightarrow> nat option \<Rightarrow> ('c, 'w) yylibevent \<Rightarrow> ('c, 'w) yylibevent option" where
  "do_write env fd arg e =
     (case arg of
        None \<Rightarrow> Some e
      | Some a \<Rightarrow> do {
          state \<leftarrow> ev_heap e a;
          let sz = c_int (int (fb_size (fs_writebuffer state)));
          if 0 < sz then do {
            bytes \<leftarrow> fb_bytes (fs_writebuffer state);
            (case sock_send (en_os env) fd (take (nat sz) bytes) (ev_sys e) of
               (SendError, w) \<Rightarrow>
                 (let e = e\<lparr>ev_sys := w\<rparr>
                  in if again (os_lasterror (en_os env) w) then Some e else free_fd_state env fd a e)
             | (Sent result, w) \<Rightarrow>
                 (let e = e\<lparr>ev_sys := w\<rparr>
                  in if result = 0 then free_fd_state env fd a e
                     else if int result = sz then
                       Some (set_fd_state a (state\<lparr>fs_writebuffer := fastbuffer_clear (fs_writebuffer state), fs_writing := False\<rparr>) e)
                     else do {
                       (n, out, b) \<leftarrow> fastbuffer_read False (nat sz) (fs_writebuffer state);
                       Some (set_fd_state a (state\<lparr>fs_writebuffer := b\<rparr>) e) })) }
          else Some (set_fd_state a (state\<lparr>fs_writing := False\<rparr>) e) })"

section \<open>Accepting\<close>

text \<open>The branches for a failed \<open>accept\<close> only write to the log, or close the number -1.\<close>

definition do_accept :: "('c, 'w) ev_env \<Rightarrow> int \<Rightarrow> nat option \<Rightarrow> ('c, 'w) yylibevent \<Rightarrow> ('c, 'w) yylibevent option" where
  "do_accept env listener liststate e =
     (case liststate of
        None \<Rightarrow> Some e
      | Some listen_port \<Rightarrow>
          (let (fd, w) = en_accept env listener (ev_sys e); e = e\<lparr>ev_sys := w\<rparr>
           in if fd < 0 then Some e
              else (case alloc_fd_state env fd listen_port e of
                      (None, e) \<Rightarrow> None
                    | (Some a, e) \<Rightarrow> do {
                        state \<leftarrow> ev_heap e a;
                        Some (set_fd_state a (state\<lparr>fs_reading := True\<rparr>) e) })))"

section \<open>The queue\<close>

text \<open>An \<open>int\<close> in memory, low byte first.\<close>

definition int_bytes :: "int \<Rightarrow> string" where
  "int_bytes i = map (\<lambda>k. char_of (nat (i div 256 ^ k mod 256))) [0, 1, 2, 3]"

definition msg_send :: "('c, 'w) ev_env \<Rightarrow> int \<Rightarrow> ('c, 'w) yylibevent \<Rightarrow> bool \<times> ('c, 'w) yylibevent" where
  "msg_send env sockfd e =
     (case sock_send (en_os env) (ev_msgfd e) (int_bytes sockfd) (ev_sys e) of
        (SendError, w) \<Rightarrow> (True, e\<lparr>ev_sys := w, ev_msgfd := - 1\<rparr>)
      | (Sent sz, w) \<Rightarrow>
          (let e = e\<lparr>ev_sys := w\<rparr>
           in if sz = 4 then (True, e) else if sz = 0 then (True, e\<lparr>ev_msgfd := - 1\<rparr>) else (True, e)))"

definition flag_send :: "('c, 'w) ev_env \<Rightarrow> char \<Rightarrow> ('c, 'w) yylibevent \<Rightarrow> ('c, 'w) yylibevent" where
  "flag_send env flag e = snd (msg_send env (c_char flag) e)"

definition data_send :: "('c, 'w) ev_env \<Rightarrow> int \<Rightarrow> fastbuffer option \<Rightarrow> char \<Rightarrow> ('c, 'w) yylibevent \<Rightarrow> ('c, 'w) yylibevent" where
  "data_send env fd writebuffer flag e =
     (case writebuffer of
        None \<Rightarrow> e
      | Some b \<Rightarrow> flag_send env flag (e\<lparr>ev_bufqueue := LockQueueMap_push flag (Some (b\<lparr>fb_fd := fd\<rparr>)) (ev_bufqueue e)\<rparr>))"

text \<open>An empty buffer asks the loop to close the connection.\<close>

definition closefd :: "('c, 'w) ev_env \<Rightarrow> int \<Rightarrow> ('c, 'w) yylibevent \<Rightarrow> ('c, 'w) yylibevent" where
  "closefd env fd e = data_send env fd (Some (new_fastbuffer\<lparr>fb_fd := fd\<rparr>)) WRITE_EVENT_FLAG e"

definition queue_receive :: "('c, 'w) ev_env \<Rightarrow> char \<Rightarrow> ('c, 'w) yylibevent \<Rightarrow> ('c, 'w) yylibevent option" where
  "queue_receive env flag e =
     (if flag \<noteq> WRITE_EVENT_FLAG then Some e
      else (let (writebuffer, q) = LockQueueMap_pop flag (ev_bufqueue e); e = e\<lparr>ev_bufqueue := q\<rparr>
            in case writebuffer of
                 None \<Rightarrow> Some e
               | Some wb \<Rightarrow>
                   if fb_size wb = 0 then
                     (case unlocked_get_state (fb_fd wb) (ev_states e) of
                        None \<Rightarrow> Some e
                      | Some a \<Rightarrow> free_fd_state env (fb_fd wb) a e)
                   else
                     (case unlocked_get_state (fb_fd wb) (ev_states e) of
                        None \<Rightarrow> Some e
                      | Some a \<Rightarrow> do {
                          state \<leftarrow> ev_heap e a;
                          (n, b) \<leftarrow> fastbuffer_append (en_avail env) (fb_buf wb) (fb_size wb) (fs_writebuffer state);
                          Some (set_fd_state a (state\<lparr>fs_writebuffer := b, fs_writing := True\<rparr>) e) })))"

fun find_handler :: "char \<Rightarrow> (char \<times> queue_handler option) list \<Rightarrow> queue_handler option" where
  "find_handler flag [] = None"
| "find_handler flag ((f, h) # hs) = (if f = flag \<and> h \<noteq> None then h else find_handler flag hs)"

text \<open>One byte of a message; the zero bytes of the \<open>int\<close> that was sent are skipped.\<close>

definition do_queue_read :: "('c, 'w) ev_env \<Rightarrow> int \<Rightarrow> ('c, 'w) yylibevent \<Rightarrow> ('c, 'w) yylibevent option" where
  "do_queue_read env fd e =
     (case sock_recv (en_os env) fd 1 (ev_sys e) of
        (RecvError, w) \<Rightarrow> Some (e\<lparr>ev_sys := w\<rparr>)
      | (RecvClosed, w) \<Rightarrow> Some (e\<lparr>ev_sys := w\<rparr>)
      | (RecvData bytes, w) \<Rightarrow>
          (let e = e\<lparr>ev_sys := w\<rparr>; flag = hd bytes
           in if 0 < c_char flag then
                (case find_handler flag (ev_queueback e) of
                   None \<Rightarrow> Some e
                 | Some ThisLoop \<Rightarrow> queue_receive env flag e
                 | Some (OtherHandler i) \<Rightarrow> do {
                     (c, w) \<leftarrow> en_queue_receive env i flag (ev_client e) (ev_sys e);
                     Some (e\<lparr>ev_client := c, ev_sys := w\<rparr>) })
              else Some e))"

section \<open>Setting up\<close>

definition new_yylibevent :: "'c \<Rightarrow> 'w sys \<Rightarrow> ('c, 'w) yylibevent" where
  "new_yylibevent c w =
     \<lparr>ev_states = new_hash_map None, ev_heap = Map.empty, ev_next = 1, ev_callback = False, ev_queueback = [],
      ev_bufqueue = new_queue_map None, ev_msgfd = 0, ev_queuefd = None, ev_listeners = [], ev_client = c, ev_sys = w\<rparr>"

definition AddQueueEvent :: "char \<Rightarrow> queue_handler option \<Rightarrow> ('c, 'w) yylibevent \<Rightarrow> ('c, 'w) yylibevent" where
  "AddQueueEvent flag ev e = e\<lparr>ev_queueback := ev_queueback e @ [(flag, ev)]\<rparr>"

definition initqueue :: "('c, 'w) ev_env \<Rightarrow> ('c, 'w) yylibevent \<Rightarrow> bool \<times> ('c, 'w) yylibevent" where
  "initqueue env e =
     (case en_socketpair env (ev_sys e) of
        (None, w) \<Rightarrow> (False, e\<lparr>ev_sys := w\<rparr>)
      | (Some (sv0, sv1), w) \<Rightarrow> (True, e\<lparr>ev_sys := w, ev_queuefd := Some sv1, ev_msgfd := sv0\<rparr>))"

definition Event_Init :: "('c, 'w) ev_env \<Rightarrow> bool \<Rightarrow> ('c, 'w) yylibevent \<Rightarrow> bool \<times> ('c, 'w) yylibevent" where
  "Event_Init env callback e =
     (let e = e\<lparr>ev_callback := callback\<rparr>
      in if \<not> en_base env then (False, e)
         else (let e = AddQueueEvent WRITE_EVENT_FLAG (Some ThisLoop) e;
                   (ok, e) = initqueue env e
               in if \<not> ok then (False, e) else (True, e)))"

definition Bind :: "('c, 'w) ev_env \<Rightarrow> bool \<Rightarrow> nat \<Rightarrow> ('c, 'w) yylibevent \<Rightarrow> bool \<times> ('c, 'w) yylibevent" where
  "Bind env any port e =
     (let (listener, bound, listening, w) = en_listen env any port (ev_sys e);
          e = e\<lparr>ev_sys := w\<rparr>
      in if \<not> bound then (False, e)
         else if \<not> listening then (False, e)
         else if \<not> en_avail env 16 then (False, e)
         else (True, e\<lparr>ev_listeners := ev_listeners e @ [(listener, port)]\<rparr>))"

end
