(* ===== verification/EventProps.thy ===== *)
theory EventProps
  imports EventLoop
begin

text \<open>
  The event loop keeps its map of connections and the objects it points to consistent under every order
  of events; what workers send reaches the write buffer of the right connection in order; what one
  read event receives reaches the owner in one piece. A partial send and input that is followed by a
  close break the stream.
\<close>

section \<open>The invariant\<close>

abbreviation conn :: "('c, 'w) yylibevent \<Rightarrow> int \<Rightarrow> nat option" where
  "conn e fd \<equiv> get_state fd (ev_states e)"

text \<open>Every connection of the map has its own live object, every object belongs to a connection.\<close>

definition ev_wf :: "('c, 'w) yylibevent \<Rightarrow> bool" where
  "ev_wf e \<longleftrightarrow> hm_def (ev_states e) = None \<and> qm_def (ev_bufqueue e) = None \<and>
     (\<forall>fd a. conn e fd = Some a \<longrightarrow> 0 \<le> fd \<and> ev_heap e a \<noteq> None) \<and>
     (\<forall>fd fd' a. conn e fd = Some a \<and> conn e fd' = Some a \<longrightarrow> fd = fd') \<and>
     (\<forall>a. ev_heap e a \<noteq> None \<longrightarrow> a < ev_next e \<and> (\<exists>fd. conn e fd = Some a))"

lemma ev_wf_frame:
  assumes "ev_wf e" and "ev_states e' = ev_states e" and "dom (ev_heap e') = dom (ev_heap e)" and "ev_next e' = ev_next e"
    and "qm_def (ev_bufqueue e') = None"
  shows "ev_wf e'"
proof -
  have "ev_heap e' a \<noteq> None \<longleftrightarrow> ev_heap e a \<noteq> None" for a using assms(3) by (auto simp: dom_def)
  then show ?thesis using assms unfolding ev_wf_def by simp
qed

lemma live_object: "ev_wf e \<Longrightarrow> conn e fd = Some a \<Longrightarrow> \<exists>st. ev_heap e a = Some st"
  unfolding ev_wf_def by fastforce

lemma conn_fd: "ev_wf e \<Longrightarrow> conn e fd = Some a \<Longrightarrow> 0 \<le> fd"
  unfolding ev_wf_def by blast

lemma own_object: "ev_wf e \<Longrightarrow> conn e fd = Some a \<Longrightarrow> conn e fd' = Some a \<Longrightarrow> fd = fd'"
  unfolding ev_wf_def by blast

lemma object_owner: "ev_wf e \<Longrightarrow> ev_heap e a = Some st \<Longrightarrow> a < ev_next e \<and> (\<exists>fd. conn e fd = Some a)"
  unfolding ev_wf_def by blast

lemma new_wf: "ev_wf (new_yylibevent c w)"
  by (simp add: ev_wf_def new_yylibevent_def new_hash_map_def get_state_def new_queue_map_def)

lemma alloc_wf:
  assumes "ev_wf e" and "conn e fd = None" and "alloc_fd_state env fd port e = (r, e')" and "0 \<le> fd"
  shows "ev_wf e'"
proof (cases r)
  case None
  then show ?thesis using assms by (auto simp: alloc_fd_state_def Let_def split: if_splits)
next
  case (Some a)
  have a: "a = ev_next e" and e': "e' = e\<lparr>ev_heap := (ev_heap e)(a \<mapsto> \<lparr>fs_writebuffer = new_fastbuffer, fs_reading = False, fs_writing = False, fs_listen_port = port\<rparr>),
      ev_next := a + 1, ev_states := add_state fd (Some a) (ev_states e)\<rparr>"
    using assms(3) Some by (auto simp: alloc_fd_state_def unlocked_add_state_def Let_def split: if_splits)
  have "ev_heap e a = None" using object_owner [OF assms(1), of a] unfolding a by (cases "ev_heap e (ev_next e)") auto
  then have fresh: "conn e f \<noteq> Some a" for f using live_object [OF assms(1), of f a] by auto
  show ?thesis unfolding ev_wf_def
  proof (intro conjI)
    show "\<forall>fd a. conn e' fd = Some a \<longrightarrow> 0 \<le> fd \<and> ev_heap e' a \<noteq> None" using assms(1,4) by (auto simp: e' hm.get_add ev_wf_def)
    show "\<forall>fd fd' a. conn e' fd = Some a \<and> conn e' fd' = Some a \<longrightarrow> fd = fd'"
      using assms(1) fresh by (auto simp: e' hm.get_add ev_wf_def split: if_splits)
    show "\<forall>a. ev_heap e' a \<noteq> None \<longrightarrow> a < ev_next e' \<and> (\<exists>fd. conn e' fd = Some a)"
    proof (intro allI impI)
      fix b assume b: "ev_heap e' b \<noteq> None"
      show "b < ev_next e' \<and> (\<exists>fd. conn e' fd = Some b)"
      proof (cases "b = a")
        case True
        then show ?thesis by (auto simp: e' hm.get_add)
      next
        case False
        then obtain f where f: "b < ev_next e" "conn e f = Some b" using object_owner [OF assms(1), of b] b by (auto simp: e')
        then have "f \<noteq> fd" using assms(2) by auto
        then show ?thesis using f by (intro conjI exI [of _ f]) (simp_all add: e' a hm.get_add)
      qed
    qed
  qed (use assms(1) in \<open>simp_all add: e' ev_wf_def hm.dflt_add\<close>)
qed

text \<open>What \<open>free_fd_state\<close> does to a connection of the map.\<close>

definition dropped :: "int \<Rightarrow> nat \<Rightarrow> 'c \<Rightarrow> ('c, 'w) ev_env \<Rightarrow> ('c, 'w) yylibevent \<Rightarrow> ('c, 'w) yylibevent" where
  "dropped fd a c env e = e\<lparr>ev_client := c, ev_states := del_state fd (ev_states e), ev_sys := os_closesocket (en_os env) (nat fd) (ev_sys e),
     ev_heap := (ev_heap e)(a := None)\<rparr>"

lemma free_eq:
  "free_fd_state env fd a e = (if ev_heap e a = None then None
     else if ev_callback e then map_option (\<lambda>c. dropped fd a c env e) (en_fd_close env fd (ev_client e))
     else Some (dropped fd a (ev_client e) env e))"
  by (cases "en_fd_close env fd (ev_client e)") (auto simp: free_fd_state_def dropped_def unlocked_del_state_def Let_def split: option.split)

lemma dropped_conn: "ev_wf e \<Longrightarrow> conn (dropped fd a c env e) f = (if f = fd then None else conn e f)"
  by (simp add: dropped_def hm.get_del ev_wf_def)

lemma dropped_wf:
  assumes "ev_wf e" and "conn e fd = Some a"
  shows "ev_wf (dropped fd a c env e)"
proof -
  let ?e = "dropped fd a c env e"
  note conn = dropped_conn [OF assms(1), where fd = fd and a = a and c = c and env = env]
  have "0 \<le> f \<and> ev_heap ?e b \<noteq> None" if "conn ?e f = Some b" for f b
  proof -
    have "conn e f = Some b" "f \<noteq> fd" using that conn by (auto split: if_splits)
    then show ?thesis using conn_fd [OF assms(1)] live_object [OF assms(1)] own_object [OF assms(1,2), of f] by (auto simp: dropped_def)
  qed
  moreover have "f = f'" if "conn ?e f = Some b" "conn ?e f' = Some b" for f f' b
    using that conn own_object [OF assms(1)] by (auto split: if_splits)
  moreover have "b < ev_next ?e \<and> (\<exists>f. conn ?e f = Some b)" if "ev_heap ?e b \<noteq> None" for b
  proof -
    have "b \<noteq> a" "ev_heap e b \<noteq> None" using that by (auto simp: dropped_def split: if_splits)
    then obtain f where f: "b < ev_next e" "conn e f = Some b" using object_owner [OF assms(1), of b] by auto
    then have "f \<noteq> fd" using \<open>b \<noteq> a\<close> assms(2) by auto
    then show ?thesis using f conn [of f] by (auto simp: dropped_def)
  qed
  ultimately show ?thesis using assms(1) unfolding ev_wf_def by (auto simp: dropped_def hm.dflt_del)
qed

lemma free_wf: "free_fd_state env fd a e = Some e' \<Longrightarrow> ev_wf e \<Longrightarrow> conn e fd = Some a \<Longrightarrow> ev_wf e'"
  by (auto simp: free_eq dropped_wf split: if_splits)

text \<open>Every handler keeps the invariant.\<close>

lemma set_fd_state_wf: "ev_wf e \<Longrightarrow> ev_heap e a \<noteq> None \<Longrightarrow> ev_wf (set_fd_state a st e)"
  by (rule ev_wf_frame) (auto simp: set_fd_state_def dom_def ev_wf_def)

lemma sys_wf [simp]: "ev_wf (e\<lparr>ev_sys := w\<rparr>) = ev_wf e" "ev_wf (e\<lparr>ev_client := c\<rparr>) = ev_wf e" "ev_wf (e\<lparr>ev_msgfd := i\<rparr>) = ev_wf e"
  by (simp_all add: ev_wf_def)

lemma queue_wf: "ev_wf e \<Longrightarrow> qm_def q = None \<Longrightarrow> ev_wf (e\<lparr>ev_bufqueue := q\<rparr>)"
  by (simp add: ev_wf_def)

lemma read_loop_wf: "read_loop env fd a rb e = Some e' \<Longrightarrow> ev_wf e \<Longrightarrow> conn e fd = Some a \<Longrightarrow> ev_wf e'"
proof -
  assume "read_loop env fd a rb e = Some e'"
  then have "ev_wf e \<longrightarrow> conn e fd = Some a \<longrightarrow> ev_wf e'"
  proof (rule read_loop.raw_induct [where P = "\<lambda>env fd a rb e e'. ev_wf e \<longrightarrow> conn e fd = Some a \<longrightarrow> ev_wf e'", rotated], goal_cases)
    case (1 f env fd a rb e e')
    obtain r w where "sock_recv (en_os env) fd 1024 (ev_sys e) = (r, w)" by fastforce
    then show ?case using 1(2) free_wf 1(1)
      by (cases r) (fastforce simp: bind_eq_Some_conv Let_def split: if_splits option.splits)+
  qed
  then show "ev_wf e \<Longrightarrow> conn e fd = Some a \<Longrightarrow> ev_wf e'" by blast
qed

lemma do_write_wf:
  assumes "do_write env fd (Some a) e = Some e'" and "ev_wf e" and "conn e fd = Some a"
  shows "ev_wf e'"
proof -
  obtain st where st: "ev_heap e a = Some st" using live_object [OF assms(2,3)] by blast
  have s: "ev_wf (set_fd_state a x (e\<lparr>ev_sys := w\<rparr>))" "ev_wf (set_fd_state a x e)" for x w
    using assms(2) st by (simp_all add: set_fd_state_wf)
  have f: "ev_wf e'" if "free_fd_state env fd a (e\<lparr>ev_sys := w\<rparr>) = Some e'" for w
    using free_wf [OF that] assms(2,3) by simp
  show ?thesis
  proof (cases "fb_bytes (fs_writebuffer st)")
    case None
    then show ?thesis using assms(1) st s(2) by (auto simp: do_write_def Let_def split: if_splits)
  next
    case (Some bytes)
    obtain r w where "sock_send (en_os env) fd (take (nat (c_int (int (fb_size (fs_writebuffer st))))) bytes) (ev_sys e) = (r, w)" by fastforce
    then show ?thesis using assms(1,2) st s f Some
      by (cases r) (auto simp: do_write_def bind_eq_Some_conv Let_def split: if_splits)
  qed
qed

lemma do_accept_wf:
  assumes "do_accept env l p e = Some e'" and "ev_wf e" and "conn e (fst (en_accept env l (ev_sys e))) = None"
  shows "ev_wf e'"
proof (cases p)
  case (Some port)
  obtain fd w where acc: "en_accept env l (ev_sys e) = (fd, w)" by fastforce
  obtain r e1 where al: "alloc_fd_state env fd port (e\<lparr>ev_sys := w\<rparr>) = (r, e1)" by fastforce
  have "ev_wf e1" if "\<not> fd < 0" using alloc_wf [OF _ _ al] assms(2,3) acc that by simp
  then show ?thesis using assms(1,2) Some acc al
    by (cases r) (auto simp: do_accept_def bind_eq_Some_conv Let_def intro: set_fd_state_wf split: if_splits)
qed (use assms in \<open>simp add: do_accept_def\<close>)

lemma msg_send_wf: "ev_wf e \<Longrightarrow> ev_wf (snd (msg_send env i e))"
  by (auto simp: msg_send_def Let_def ev_wf_def split: send_result.split prod.split)

lemma data_send_wf: "ev_wf e \<Longrightarrow> ev_wf (data_send env fd b flag e)"
proof (cases b)
  case (Some x)
  assume "ev_wf e"
  then have "qm_def (ev_bufqueue e) = None" by (simp add: ev_wf_def)
  then show ?thesis using Some msg_send_wf [OF queue_wf [OF \<open>ev_wf e\<close>]] by (simp add: data_send_def flag_send_def)
qed (simp add: data_send_def)

lemma queue_receive_wf:
  assumes "queue_receive env flag e = Some e'" and "ev_wf e"
  shows "ev_wf e'"
proof -
  obtain wb q where pop: "LockQueueMap_pop flag (ev_bufqueue e) = (wb, q)" by fastforce
  have "qm_def q = None" using qm_def_ops(2) [of flag "ev_bufqueue e"] pop assms(2) by (simp add: ev_wf_def)
  then have w: "ev_wf (e\<lparr>ev_bufqueue := q\<rparr>)" using assms(2) by (rule queue_wf [rotated])
  have f: "ev_wf e'" if "free_fd_state env fd a (e\<lparr>ev_bufqueue := q\<rparr>) = Some e'" "conn e fd = Some a" for fd a
    using free_wf [OF that(1) w] that(2) by simp
  show ?thesis using assms pop w f
    by (auto simp: queue_receive_def unlocked_get_state_def bind_eq_Some_conv Let_def intro!: set_fd_state_wf split: if_splits option.splits)
qed

lemma do_queue_read_wf: "do_queue_read env fd e = Some e' \<Longrightarrow> ev_wf e \<Longrightarrow> ev_wf e'"
  by (auto simp: do_queue_read_def bind_eq_Some_conv Let_def intro: queue_receive_wf
    split: recv_result.splits prod.splits if_splits option.splits queue_handler.splits)

section \<open>All orders of events\<close>

text \<open>The loop handles one event at a time; the workers put buffers into the queue at any moment, and the
  owner's state and the system change between events. A connection is accepted with a number that
  is not in use.\<close>

inductive loop_step :: "('c, 'w) ev_env \<Rightarrow> ('c, 'w) yylibevent \<Rightarrow> ('c, 'w) yylibevent \<Rightarrow> bool" for env where
  accept: "conn e (fst (en_accept env l (ev_sys e))) = None \<Longrightarrow> do_accept env l p e = Some e' \<Longrightarrow> loop_step env e e'"
| readable: "conn e fd = Some a \<Longrightarrow> do_read env fd (Some a) e = Some e' \<Longrightarrow> loop_step env e e'"
| writable: "conn e fd = Some a \<Longrightarrow> do_write env fd (Some a) e = Some e' \<Longrightarrow> loop_step env e e'"
| message: "do_queue_read env fd e = Some e' \<Longrightarrow> loop_step env e e'"
| send: "loop_step env e (data_send env fd b flag e)"
| close: "loop_step env e (closefd env fd e)"
| owner: "loop_step env e (e\<lparr>ev_client := c\<rparr>)"
| outside: "loop_step env e (e\<lparr>ev_sys := w\<rparr>)"

lemma loop_step_wf: "loop_step env e e' \<Longrightarrow> ev_wf e \<Longrightarrow> ev_wf e'"
proof (induction rule: loop_step.induct)
  case (readable e fd a e')
  then show ?case using read_loop_wf by (simp add: do_read_def)
qed (auto intro: do_accept_wf do_write_wf do_queue_read_wf data_send_wf simp: closefd_def)

lemma loop_steps_wf: "(loop_step env)\<^sup>*\<^sup>* e e' \<Longrightarrow> ev_wf e \<Longrightarrow> ev_wf e'"
  by (induction rule: rtranclp_induct) (auto intro: loop_step_wf)

section \<open>Output\<close>

text \<open>The bytes that wait to be written on each connection, and the buffers that wait in the queue.\<close>

definition waiting_out :: "nat \<Rightarrow> ('c, 'w) yylibevent \<Rightarrow> (int \<rightharpoonup> string) \<Rightarrow> bool" where
  "waiting_out P e out \<longleftrightarrow> (\<forall>fd. case conn e fd of
       None \<Rightarrow> out fd = None
     | Some a \<Rightarrow> \<exists>st s. ev_heap e a = Some st \<and> out fd = Some s \<and> fb_holds P (fs_writebuffer st) s)"

definition queued :: "nat \<Rightarrow> fastbuffer option \<Rightarrow> int \<times> string \<Rightarrow> bool" where
  "queued P b m \<longleftrightarrow> (\<exists>x. b = Some x \<and> fb_fd x = fst m \<and> fb_holds P x (snd m))"

definition loop_rel :: "nat \<Rightarrow> ('c, 'w) yylibevent \<Rightarrow> (int \<rightharpoonup> string) \<Rightarrow> (int \<times> string) list \<Rightarrow> bool" where
  "loop_rel P e out ms \<longleftrightarrow> ev_wf e \<and> waiting_out P e out \<and> list_all2 (queued P) (queue_of (ev_bufqueue e) WRITE_EVENT_FLAG) ms"

text \<open>What a buffer of the queue means: an empty one closes the connection, any other is appended to its
  output; a connection that is gone is ignored.\<close>

definition deliver :: "int \<times> string \<Rightarrow> (int \<rightharpoonup> string) \<Rightarrow> (int \<rightharpoonup> string)" where
  "deliver m out = (if snd m = [] then out(fst m := None)
     else (case out (fst m) of None \<Rightarrow> out | Some t \<Rightarrow> out(fst m \<mapsto> t @ snd m)))"

lemma waiting_outD: "waiting_out P e out \<Longrightarrow> conn e fd = Some a \<Longrightarrow> \<exists>st s. ev_heap e a = Some st \<and> out fd = Some s \<and> fb_holds P (fs_writebuffer st) s"
  "waiting_out P e out \<Longrightarrow> conn e fd = None \<Longrightarrow> out fd = None"
  unfolding waiting_out_def by (drule spec [of _ fd], simp)+

lemma waiting_dropped:
  assumes "ev_wf e" and "waiting_out P e out" and "conn e fd = Some a"
  shows "waiting_out P (dropped fd a c env e) (out(fd := None))"
proof -
  have "b \<noteq> a" if "conn e f = Some b" "f \<noteq> fd" for f b using own_object [OF assms(1,3), of f] that by auto
  then show ?thesis using waiting_outD [OF assms(2)] unfolding waiting_out_def dropped_conn [OF assms(1)]
    by (auto simp: dropped_def split: option.split)
qed

lemma waiting_set:
  assumes "ev_wf e" and "waiting_out P e out" and "conn e fd = Some a" and "fb_holds P (fs_writebuffer st) s"
  shows "waiting_out P (set_fd_state a st e) (out(fd \<mapsto> s))"
proof -
  have "b \<noteq> a" if "conn e f = Some b" "f \<noteq> fd" for f b using own_object [OF assms(1,3), of f] that by auto
  then show ?thesis using waiting_outD [OF assms(2)] assms(3,4) unfolding waiting_out_def
    by (auto simp: set_fd_state_def split: option.split)
qed

text \<open>A change that leaves the map, the objects and the queue alone.\<close>

definition same_conns :: "('c, 'w) yylibevent \<Rightarrow> ('c, 'w) yylibevent \<Rightarrow> bool" where
  "same_conns e e' \<longleftrightarrow> ev_states e' = ev_states e \<and> ev_heap e' = ev_heap e \<and> ev_next e' = ev_next e"

lemma same_waiting: "same_conns e e' \<Longrightarrow> waiting_out P e' out = waiting_out P e out"
proof -
  assume "same_conns e e'"
  then have eqs: "ev_states e' = ev_states e" "ev_heap e' = ev_heap e" by (simp_all add: same_conns_def)
  show ?thesis unfolding waiting_out_def eqs ..
qed

lemma same_wf: "same_conns e e' \<Longrightarrow> qm_def (ev_bufqueue e') = None \<Longrightarrow> ev_wf e \<Longrightarrow> ev_wf e'"
  by (erule ev_wf_frame) (simp_all add: same_conns_def)

lemma same_rel:
  assumes "same_conns e e'" and "ev_bufqueue e' = ev_bufqueue e"
  shows "loop_rel P e out ms \<Longrightarrow> loop_rel P e' out ms"
  using same_wf [OF assms(1)] same_waiting [OF assms(1)] assms(2) by (simp add: loop_rel_def ev_wf_def)

lemma msg_send_rel: "loop_rel P e out ms \<Longrightarrow> loop_rel P (snd (msg_send env i e)) out ms"
  by (erule same_rel [rotated -1]) (simp_all add: same_conns_def msg_send_def Let_def split: send_result.split prod.split)

lemma fb_fd_holds [simp]: "fb_holds P (b\<lparr>fb_fd := fd\<rparr>) s = fb_holds P b s"
  unfolding fb_holds_def by (simp cong: option.case_cong)

lemma data_send_rel:
  assumes "loop_rel P e out ms" and "fb_holds P b s"
  shows "loop_rel P (data_send env fd (Some b) WRITE_EVENT_FLAG e) out (ms @ [(fd, s)])"
proof -
  let ?e = "e\<lparr>ev_bufqueue := LockQueueMap_push WRITE_EVENT_FLAG (Some (b\<lparr>fb_fd := fd\<rparr>)) (ev_bufqueue e)\<rparr>"
  have s: "same_conns e ?e" by (simp add: same_conns_def)
  have "ev_wf ?e" using assms(1) by (intro queue_wf) (simp_all add: loop_rel_def ev_wf_def)
  moreover have "queued P (Some (b\<lparr>fb_fd := fd\<rparr>)) (fd, s)" using assms(2) by (simp add: queued_def)
  ultimately have "loop_rel P ?e out (ms @ [(fd, s)])" using assms(1) same_waiting [OF s]
    by (auto simp: loop_rel_def queue_of_push intro: list_all2_appendI)
  then show ?thesis using msg_send_rel by (simp add: data_send_def flag_send_def)
qed


lemma sys_rel: "loop_rel P e out ms \<Longrightarrow> loop_rel P (e\<lparr>ev_sys := w\<rparr>) out ms"
  by (erule same_rel [rotated -1]) (simp_all add: same_conns_def)

lemma set_rel:
  assumes "loop_rel P e out ms" and "conn e fd = Some a" and "fb_holds P (fs_writebuffer x) u"
  shows "loop_rel P (set_fd_state a x e) (out(fd \<mapsto> u)) ms"
proof -
  have "ev_wf e" "waiting_out P e out" using assms(1) by (simp_all add: loop_rel_def)
  then show ?thesis using waiting_set [OF _ _ assms(2,3)] set_fd_state_wf [of e a x] live_object [OF _ assms(2)] assms(1)
    by (auto simp: loop_rel_def set_fd_state_def)
qed

text \<open>Writing: after a partial send the buffer is emptied like after a complete one.\<close>

lemma do_write_eq:
  assumes "ev_heap e a = Some st" and "fb_holds P (fs_writebuffer st) t" and "P \<le> 2147483647"
    and "sock_send (en_os env) fd t (ev_sys e) = (r, w)"
  shows "\<exists>b. fb_holds P b [] \<and> do_write env fd (Some a) e =
    (if t = [] then Some (set_fd_state a (st\<lparr>fs_writing := False\<rparr>) e)
     else case r of
       SendError \<Rightarrow> if again (os_lasterror (en_os env) w) then Some (e\<lparr>ev_sys := w\<rparr>) else free_fd_state env fd a (e\<lparr>ev_sys := w\<rparr>)
     | Sent n \<Rightarrow> if n = 0 then free_fd_state env fd a (e\<lparr>ev_sys := w\<rparr>)
         else Some (set_fd_state a (if n = length t then st\<lparr>fs_writebuffer := fastbuffer_clear (fs_writebuffer st), fs_writing := False\<rparr>
           else st\<lparr>fs_writebuffer := b\<rparr>) (e\<lparr>ev_sys := w\<rparr>)))"
proof -
  let ?b = "fs_writebuffer st"
  have size: "c_int (int (fb_size ?b)) = int (length t)" using assms(2,3) by (simp add: fb_holds_def c_int_id)
  have bytes: "fb_bytes ?b = Some t"
    using assms(2) by (auto simp: fb_bytes_def fb_holds_def ptr_fetch_def mem_fetch_def comp_def split: option.splits)
  obtain b where b: "fastbuffer_read False (length t) ?b = Some (length t, [], b)" "fb_holds P b []"
    using read_holds [OF assms(2), of False "length t"] by auto
  then show ?thesis using assms(1,4) size bytes by (intro exI [of _ b]) (simp add: do_write_def Let_def split: send_result.split)
qed

section \<open>Input\<close>

text \<open>The system returns the chunks of a list, one per call.\<close>

fun received :: "'w os_api \<Rightarrow> int \<Rightarrow> 'w sys \<Rightarrow> string list \<Rightarrow> 'w sys \<Rightarrow> bool" where
  "received os fd w [] w' \<longleftrightarrow> w' = w"
| "received os fd w (c # cs) w' \<longleftrightarrow> (case sock_recv os fd 1024 w of (RecvData d, w1) \<Rightarrow> d = c \<and> received os fd w1 cs w' | r \<Rightarrow> False)"

definition rb_holds :: "nat \<Rightarrow> fastbuffer option \<Rightarrow> string \<Rightarrow> bool" where
  "rb_holds P rb s \<longleftrightarrow> fb_holds P (case rb of None \<Rightarrow> new_fastbuffer | Some b \<Rightarrow> b) s"

lemma read_loop_received:
  assumes "4 * P < 2 ^ 63" and "\<And>n. n \<le> 4 * P \<Longrightarrow> en_avail env n"
  shows "ev_heap e a \<noteq> None \<Longrightarrow> rb_holds P rb s \<Longrightarrow> received (en_os env) fd (ev_sys e) cs w \<Longrightarrow> length s + length (concat cs) \<le> P \<Longrightarrow>
    \<exists>rb'. rb_holds P rb' (s @ concat cs) \<and> (cs \<noteq> [] \<or> rb \<noteq> None \<longrightarrow> rb' \<noteq> None) \<and> read_loop env fd a rb e = read_loop env fd a rb' (e\<lparr>ev_sys := w\<rparr>)"
proof (induction cs arbitrary: s rb e)
  case (Cons c cs)
  obtain w1 where r: "sock_recv (en_os env) fd 1024 (ev_sys e) = (RecvData c, w1)" "received (en_os env) fd w1 cs w"
    using Cons.prems(3) by (auto split: prod.splits recv_result.splits)
  obtain b where b: "fastbuffer_append (en_avail env) (Some (map Some c)) (length c) (case rb of None \<Rightarrow> new_fastbuffer | Some b \<Rightarrow> b) = Some (length c, b)"
      "fb_holds P b (s @ c)"
    using append_holds [of P _ s c "en_avail env" "[]"] Cons.prems(2,4) assms by (auto simp: rb_holds_def)
  have step: "read_loop env fd a rb e = read_loop env fd a (Some b) (e\<lparr>ev_sys := w1\<rparr>)"
    using Cons.prems(1) r(1) b(1) by (subst read_loop.simps) auto
  show ?case using Cons.IH [of "e\<lparr>ev_sys := w1\<rparr>" "Some b" "s @ c"] Cons.prems r(2) b(2)
    unfolding step by (auto simp: rb_holds_def)
qed auto

text \<open>All messages of the queue, one event each.\<close>

fun receive_all :: "('c, 'w) ev_env \<Rightarrow> nat \<Rightarrow> ('c, 'w) yylibevent \<Rightarrow> ('c, 'w) yylibevent option" where
  "receive_all env 0 e = Some e"
| "receive_all env (Suc n) e = do { e \<leftarrow> queue_receive env WRITE_EVENT_FLAG e; receive_all env n e }"

text \<open>The waiting output after a write event that passed \<open>t\<close> to \<open>send\<close>.\<close>

definition after_write :: "('c, 'w) ev_env \<Rightarrow> int \<Rightarrow> string \<Rightarrow> send_result \<times> 'w sys \<Rightarrow> (int \<rightharpoonup> string) \<Rightarrow> (int \<rightharpoonup> string)" where
  "after_write env fd t r out = (if t = [] then out else
     (case r of
        (SendError, w) \<Rightarrow> if again (os_lasterror (en_os env) w) then out else out(fd := None)
      | (Sent n, w) \<Rightarrow> if n = 0 then out(fd := None) else out(fd \<mapsto> [])))"

section \<open>What the loop relies on\<close>

text \<open>The owner's functions return and keep the owner's invariant, and the system provides the memory that a
  capacity of \<open>P\<close> bytes per buffer needs.\<close>

locale event_owner =
  fixes env :: "('c, 'w) ev_env" and cinv :: "'c \<Rightarrow> bool" and P :: nat
  assumes close_law: "cinv c \<Longrightarrow> 0 \<le> fd \<Longrightarrow> \<exists>c'. en_fd_close env fd c = Some c' \<and> cinv c'"
    and receive_law: "cinv c \<Longrightarrow> 0 \<le> fd \<Longrightarrow> fb_holds P b s \<Longrightarrow> \<exists>keep c'. en_data_receive env fd b port c = Some (keep, c') \<and> cinv c'"
    and capacity: "4 * P < 2 ^ 63" and memory: "n \<le> 4 * P \<Longrightarrow> en_avail env n"
begin

lemma free_law:
  assumes "loop_rel P e out ms" and "cinv (ev_client e)" and "conn e fd = Some a"
  shows "\<exists>e'. free_fd_state env fd a e = Some e' \<and> loop_rel P e' (out(fd := None)) ms \<and> cinv (ev_client e')"
proof -
  have wf: "ev_wf e" and out: "waiting_out P e out" using assms(1) by (simp_all add: loop_rel_def)
  obtain st where st: "ev_heap e a = Some st" using live_object [OF wf assms(3)] by blast
  obtain c where c: "en_fd_close env fd (ev_client e) = Some c" "cinv c" using close_law [OF assms(2) conn_fd [OF wf assms(3)]] by blast
  have "loop_rel P (dropped fd a c' env e) (out(fd := None)) ms" for c'
    using dropped_wf [OF wf assms(3)] waiting_dropped [OF wf out assms(3)] assms(1) by (simp add: loop_rel_def dropped_def)
  moreover have "ev_client (dropped fd a c' env e) = c'" for c' by (simp add: dropped_def)
  ultimately show ?thesis using c st assms(2) by (simp add: free_eq)
qed

lemma append_law:
  assumes "fb_holds P b s" and "fb_holds P x t" and "length s + length t \<le> P"
  shows "\<exists>b'. fastbuffer_append (en_avail env) (fb_buf x) (fb_size x) b = Some (length t, b') \<and> fb_holds P b' (s @ t)"
proof (cases "fb_buf x")
  case None
  then have "t = []" "fb_size x = 0" using assms(2) by (auto simp: fb_holds_def)
  then show ?thesis using append_holds [OF assms(1), of "[]" "en_avail env" "[]"] assms(1,3) capacity memory None
    by (auto simp: fastbuffer_append_def ptr_fetch_def mem_fetch_def Let_def)
next
  case (Some m)
  then have "fb_size x = length t" "take (length t) m = map Some t" using assms(2) by (auto simp: fb_holds_def)
  then have "Some m = Some (map Some t @ drop (length t) m)" by (metis append_take_drop_id)
  then show ?thesis using append_holds [OF assms(1,3) capacity, where avail = "en_avail env" and junk = "drop (length t) m"] memory Some \<open>fb_size x = length t\<close>
    by auto
qed

text \<open>One message of the queue.\<close>

lemma queue_receive_law:
  assumes "loop_rel P e out ((fd, s) # ms)" and "cinv (ev_client e)" and "\<forall>t. out fd = Some t \<longrightarrow> length t + length s \<le> P"
  shows "\<exists>e'. queue_receive env WRITE_EVENT_FLAG e = Some e' \<and> loop_rel P e' (deliver (fd, s) out) ms \<and> cinv (ev_client e')"
proof -
  have wf: "ev_wf e" and out: "waiting_out P e out"
    and q: "list_all2 (queued P) (queue_of (ev_bufqueue e) WRITE_EVENT_FLAG) ((fd, s) # ms)" using assms(1) by (simp_all add: loop_rel_def)
  obtain x bs where bs: "queue_of (ev_bufqueue e) WRITE_EVENT_FLAG = Some x # bs" "fb_fd x = fd" "fb_holds P x s" "list_all2 (queued P) bs ms"
    using q by (auto simp: list_all2_Cons2 queued_def)
  obtain q' where pop: "LockQueueMap_pop WRITE_EVENT_FLAG (ev_bufqueue e) = (Some x, q')" "qm_def q' = None" "queue_of q' WRITE_EVENT_FLAG = bs"
    using queue_of_pop [of WRITE_EVENT_FLAG "ev_bufqueue e"] qm_def_ops(2) [of WRITE_EVENT_FLAG "ev_bufqueue e"] bs(1) wf
    by (cases "LockQueueMap_pop WRITE_EVENT_FLAG (ev_bufqueue e)") (auto simp: ev_wf_def)
  let ?e = "e\<lparr>ev_bufqueue := q'\<rparr>"
  have same: "same_conns e ?e" by (simp add: same_conns_def)
  have rel: "loop_rel P ?e out ms" using same_wf [OF same] same_waiting [OF same] wf out pop bs(4) by (simp add: loop_rel_def)
  have c: "cinv (ev_client ?e)" using assms(2) by simp
  have size: "fb_size x = length s" using bs(3) by (simp add: fb_holds_def)
  show ?thesis
  proof (cases "conn e fd")
    case None
    then have "out fd = None" using waiting_outD(2) [OF out] by simp
    then have "deliver (fd, s) out = out" by (auto simp: deliver_def)
    then show ?thesis using None pop bs(2) rel c by (simp add: queue_receive_def unlocked_get_state_def Let_def)
  next
    case (Some a)
    obtain st t where st: "ev_heap e a = Some st" "out fd = Some t" "fb_holds P (fs_writebuffer st) t" using waiting_outD(1) [OF out Some] by blast
    show ?thesis
    proof (cases "s = []")
      case True
      then show ?thesis using free_law [OF rel c, of fd a] Some pop bs(2) size
        by (simp add: queue_receive_def unlocked_get_state_def deliver_def Let_def)
    next
      case False
      obtain b' where b': "fastbuffer_append (en_avail env) (fb_buf x) (fb_size x) (fs_writebuffer st) = Some (length s, b')" "fb_holds P b' (t @ s)"
        using append_law [OF st(3) bs(3)] assms(3) st(2) by auto
      let ?e2 = "set_fd_state a (st\<lparr>fs_writebuffer := b', fs_writing := True\<rparr>) ?e"
      have "queue_receive env WRITE_EVENT_FLAG e = Some ?e2" using pop Some bs(2) size False st(1) b'(1)
        by (simp add: queue_receive_def unlocked_get_state_def Let_def)
      moreover have "ev_wf ?e" "waiting_out P ?e out" "conn ?e fd = Some a" using rel Some by (simp_all add: loop_rel_def)
      from waiting_set [OF this, of "st\<lparr>fs_writebuffer := b', fs_writing := True\<rparr>"] b'(2)
      have "waiting_out P ?e2 (out(fd \<mapsto> t @ s))" by simp
      then have "loop_rel P ?e2 (deliver (fd, s) out) ms" using rel st(1) False st(2) set_fd_state_wf [of ?e a]
        by (simp add: loop_rel_def deliver_def set_fd_state_def)
      moreover have "cinv (ev_client ?e2)" using assms(2) by (simp add: set_fd_state_def)
      ultimately show ?thesis by blast
    qed
  qed
qed

lemma receive_all_law:
  "loop_rel P e out ms \<Longrightarrow> cinv (ev_client e) \<Longrightarrow> \<forall>fd t. out fd = Some t \<longrightarrow> length t + length (concat (map snd ms)) \<le> P \<Longrightarrow>
    \<exists>e'. receive_all env (length ms) e = Some e' \<and> loop_rel P e' (fold deliver ms out) [] \<and> cinv (ev_client e')"
proof (induction ms arbitrary: e out)
  case (Cons m ms)
  obtain fd s where m: "m = (fd, s)" by fastforce
  have "\<forall>t. out fd = Some t \<longrightarrow> length t + length s \<le> P" using Cons.prems(3) m by fastforce
  then obtain e1 where e1: "queue_receive env WRITE_EVENT_FLAG e = Some e1" "loop_rel P e1 (deliver m out) ms" "cinv (ev_client e1)"
    using queue_receive_law [of e out fd s ms] Cons.prems(1,2) m by blast
  have "\<forall>f t. deliver m out f = Some t \<longrightarrow> length t + length (concat (map snd ms)) \<le> P"
  proof (intro allI impI)
    fix f t assume "deliver m out f = Some t"
    then obtain t' where "out f = Some t'" "t = t' \<or> t = t' @ s" by (auto simp: deliver_def m split: if_splits option.splits)
    then show "length t + length (concat (map snd ms)) \<le> P" using Cons.prems(3) m by fastforce
  qed
  from Cons.IH [OF e1(2,3) this] show ?case using e1(1) by auto
qed simp

lemma do_write_law:
  assumes "loop_rel P e out ms" and "cinv (ev_client e)" and "out fd = Some t" and "P \<le> 2147483647" and "conn e fd = Some a"
  shows "\<exists>e'. do_write env fd (Some a) e = Some e' \<and> loop_rel P e' (after_write env fd t (sock_send (en_os env) fd t (ev_sys e)) out) ms \<and> cinv (ev_client e')"
proof -
  have out: "waiting_out P e out" using assms(1) by (simp add: loop_rel_def)
  obtain st where st: "ev_heap e a = Some st" "fb_holds P (fs_writebuffer st) t" using waiting_outD(1) [OF out assms(5)] assms(3) by auto
  obtain r w where r: "sock_send (en_os env) fd t (ev_sys e) = (r, w)" by fastforce
  let ?e = "e\<lparr>ev_sys := w\<rparr>"
  obtain b where b: "fb_holds P b []" "do_write env fd (Some a) e =
    (if t = [] then Some (set_fd_state a (st\<lparr>fs_writing := False\<rparr>) e)
     else case r of
       SendError \<Rightarrow> if again (os_lasterror (en_os env) w) then Some ?e else free_fd_state env fd a ?e
     | Sent n \<Rightarrow> if n = 0 then free_fd_state env fd a ?e
         else Some (set_fd_state a (if n = length t then st\<lparr>fs_writebuffer := fastbuffer_clear (fs_writebuffer st), fs_writing := False\<rparr>
           else st\<lparr>fs_writebuffer := b\<rparr>) ?e))" using do_write_eq [OF st assms(4) r] by blast
  have rel: "loop_rel P ?e out ms" by (rule sys_rel [OF assms(1)])
  have c: "cinv (ev_client ?e)" "cinv (ev_client (set_fd_state a x ?e))" "cinv (ev_client (set_fd_state a x e))" for x
    using assms(2) by (simp_all add: set_fd_state_def)
  have free: "\<exists>e'. free_fd_state env fd a ?e = Some e' \<and> loop_rel P e' (out(fd := None)) ms \<and> cinv (ev_client e')"
    by (rule free_law [OF rel c(1)]) (simp add: assms(5))
  have set: "loop_rel P (set_fd_state a x ?e) (out(fd \<mapsto> [])) ms" if "fb_holds P (fs_writebuffer x) []" for x
    by (rule set_rel [OF rel _ that]) (simp add: assms(5))
  have quiet: "loop_rel P (set_fd_state a (st\<lparr>fs_writing := False\<rparr>) e) out ms"
    using set_rel [OF assms(1,5), of "st\<lparr>fs_writing := False\<rparr>" t] st(2) assms(3) by (simp add: fun_upd_idem)
  show ?thesis
  proof (cases "t = []")
    case True
    then show ?thesis using b(2) quiet c(3) by (simp add: after_write_def)
  next
    case False
    then show ?thesis
    proof (cases r)
      case SendError
      then show ?thesis using b(2) False r rel c(1) free by (simp add: after_write_def)
    next
      case (Sent n)
      then show ?thesis using b False r c(2) free set clear_holds [OF st(2)] by (simp add: after_write_def)
    qed
  qed
qed

text \<open>One read event: the chunks and what came after them.\<close>

lemma do_read_law:
  assumes "conn e fd = Some a" and "ev_heap e a = Some st" and "received (en_os env) fd (ev_sys e) cs w" and "cs \<noteq> []"
    and "length (concat cs) \<le> P" and "sock_recv (en_os env) fd 1024 w = (r, w')"
  shows "\<exists>b. fb_holds P b (concat cs) \<and>
    (r = RecvError \<longrightarrow> again (os_lasterror (en_os env) w') \<longrightarrow> ev_callback e \<longrightarrow> do_read env fd (Some a) e =
       map_option (\<lambda>(keep, c). e\<lparr>ev_sys := w', ev_client := c\<rparr>) (en_data_receive env fd b (fs_listen_port st) (ev_client e))) \<and>
    (r = RecvClosed \<longrightarrow> do_read env fd (Some a) e = free_fd_state env fd a (e\<lparr>ev_sys := w'\<rparr>))"
proof -
  have "rb_holds P None []" by (simp add: rb_holds_def new_holds)
  then obtain rb where rb: "rb_holds P rb (concat cs)" "rb \<noteq> None" "read_loop env fd a None e = read_loop env fd a rb (e\<lparr>ev_sys := w\<rparr>)"
    using read_loop_received [OF capacity memory, of e a None "[]" fd cs w] assms(2-5) by auto
  then obtain b where b: "rb = Some b" "fb_holds P b (concat cs)" by (auto simp: rb_holds_def)
  have d: "do_read env fd (Some a) e = read_loop env fd a (Some b) (e\<lparr>ev_sys := w\<rparr>)" using rb(3) b(1) by (simp add: do_read_def)
  have "read_loop env fd a (Some b) (e\<lparr>ev_sys := w\<rparr>) = free_fd_state env fd a (e\<lparr>ev_sys := w'\<rparr>)" if "r = RecvClosed"
    using that assms(2,6) by (subst read_loop.simps) simp
  moreover have "read_loop env fd a (Some b) (e\<lparr>ev_sys := w\<rparr>) =
      map_option (\<lambda>(keep, c). e\<lparr>ev_sys := w', ev_client := c\<rparr>) (en_data_receive env fd b (fs_listen_port st) (ev_client e))"
    if "r = RecvError" "again (os_lasterror (en_os env) w')" "ev_callback e"
    using that assms(2,6) by (subst read_loop.simps) (cases "en_data_receive env fd b (fs_listen_port st) (ev_client e)", auto)
  ultimately show ?thesis unfolding d using b(2) by blast
qed

end

end
