(* ===== verification/Mysql.thy ===== *)
theory Mysql
  imports Buffers
begin

text \<open>
  Prepared statements: \<open>src/mysql/yylibmysql.cpp\<close>. The values bound to a statement and the columns of a result are
  kept in memory of the allocator \<open>memstuff\<close> until MySQL reads or writes them through the pointers of the bind
  structures. The MySQL client library is a parameter. Its documented use of the pointers is modelled:
  executing a statement reads the bound values, numbers by the size of their type and strings by the
  length behind the length pointer.
\<close>

section \<open>The client library\<close>

definition MYSQL_TYPE_TINY :: nat where "MYSQL_TYPE_TINY = 1"
definition MYSQL_TYPE_SHORT :: nat where "MYSQL_TYPE_SHORT = 2"
definition MYSQL_TYPE_LONG :: nat where "MYSQL_TYPE_LONG = 3"
definition MYSQL_TYPE_FLOAT :: nat where "MYSQL_TYPE_FLOAT = 4"
definition MYSQL_TYPE_DOUBLE :: nat where "MYSQL_TYPE_DOUBLE = 5"
definition MYSQL_TYPE_LONGLONG :: nat where "MYSQL_TYPE_LONGLONG = 8"
definition MYSQL_TYPE_VARCHAR :: nat where "MYSQL_TYPE_VARCHAR = 15"
definition MYSQL_TYPE_VAR_STRING :: nat where "MYSQL_TYPE_VAR_STRING = 253"
definition MYSQL_TYPE_STRING :: nat where "MYSQL_TYPE_STRING = 254"

lemmas mysql_types = MYSQL_TYPE_TINY_def MYSQL_TYPE_SHORT_def MYSQL_TYPE_LONG_def MYSQL_TYPE_FLOAT_def MYSQL_TYPE_DOUBLE_def
  MYSQL_TYPE_LONGLONG_def MYSQL_TYPE_VARCHAR_def MYSQL_TYPE_VAR_STRING_def MYSQL_TYPE_STRING_def

text \<open>The members of \<open>MYSQL_BIND\<close> that the sources use; pointers are block and offset in the allocator.\<close>

record mysql_bind =
  mb_buffer_type :: nat
  mb_buffer :: "(nat \<times> nat) option"
  mb_buffer_length :: nat
  mb_length :: "(nat \<times> nat) option"
  mb_is_null :: "(nat \<times> nat) option"
  mb_error :: "(nat \<times> nat) option"

definition zero_bind :: mysql_bind where
  "zero_bind = \<lparr>mb_buffer_type = 0, mb_buffer = None, mb_buffer_length = 0, mb_length = None, mb_is_null = None, mb_error = None\<rparr>"

text \<open>The calls on a statement; a result \<^const>\<open>True\<close> is an error, as the nonzero values of the library. The values
  given to \<open>my_execute\<close> are the types and bytes that are read through the bound pointers, and the result
  of \<open>my_fetch\<close> says whether there was no further row.\<close>

record 'w mysql_api =
  my_stmt_init :: "'w \<Rightarrow> bool \<times> 'w"
  my_prepare :: "string \<Rightarrow> 'w \<Rightarrow> bool \<times> 'w"
  my_param_count :: "'w \<Rightarrow> nat"
  my_bind_param :: "mysql_bind list \<Rightarrow> 'w \<Rightarrow> bool \<times> 'w"
  my_execute :: "(nat \<times> string) list \<Rightarrow> 'w \<Rightarrow> bool \<times> 'w"
  my_affected_rows :: "'w \<Rightarrow> nat"
  my_result_metadata :: "'w \<Rightarrow> (nat \<times> nat) list option"
  my_bind_result :: "mysql_bind list \<Rightarrow> 'w \<Rightarrow> bool \<times> 'w"
  my_store_result :: "'w \<Rightarrow> bool \<times> 'w"
  my_fetch :: "'w \<Rightarrow> bool \<times> 'w"
  my_avail :: "nat \<Rightarrow> bool"

section \<open>The connection\<close>

text \<open>A value of \<open>YYLibMysql\<close> is its handle; \<^const>\<open>False\<close> is a handle the library could not create.\<close>

record 'w mysql_conn_api =
  mc_init :: "'w \<Rightarrow> bool \<times> 'w"
  mc_real_connect :: "string \<Rightarrow> nat \<Rightarrow> string \<Rightarrow> string \<Rightarrow> 'w \<Rightarrow> bool \<times> 'w"
  mc_select_db :: "string \<Rightarrow> 'w \<Rightarrow> 'w"
  mc_query :: "string \<Rightarrow> 'w \<Rightarrow> bool \<times> 'w"

definition new_YYLibMysql :: "'w mysql_conn_api \<Rightarrow> 'w \<Rightarrow> bool \<times> 'w" where
  "new_YYLibMysql api w = mc_init api w"

definition Mysql_Connect :: "'w mysql_conn_api \<Rightarrow> string \<Rightarrow> nat \<Rightarrow> string \<Rightarrow> string \<Rightarrow> bool \<Rightarrow> 'w \<Rightarrow> bool \<times> 'w" where
  "Mysql_Connect api host port user pass sql w = (if \<not> sql then (False, w) else mc_real_connect api host port user pass w)"

definition Mysql_Use :: "'w mysql_conn_api \<Rightarrow> string \<Rightarrow> bool \<Rightarrow> 'w \<Rightarrow> 'w" where
  "Mysql_Use api db sql w = (if \<not> sql then w else mc_select_db api db w)"

definition Mysql_Execute :: "'w mysql_conn_api \<Rightarrow> string \<Rightarrow> bool \<Rightarrow> 'w \<Rightarrow> bool \<times> 'w" where
  "Mysql_Execute api cmd sql w = (if \<not> sql then (False, w) else let (err, w) = mc_query api cmd w in (\<not> err, w))"

section \<open>Memory of a statement\<close>

text \<open>The blocks of \<open>memstuff<256>\<close> and their bytes.\<close>

record arena =
  ar_blocks :: "memdata list"
  ar_mem :: "nat \<times> nat \<Rightarrow> char option"

definition new_arena :: arena where
  "new_arena = \<lparr>ar_blocks = [], ar_mem = (\<lambda>q. None)\<rparr>"

definition arena_alloc :: "(nat \<Rightarrow> bool) \<Rightarrow> nat \<Rightarrow> arena \<Rightarrow> (nat \<times> nat) option \<times> arena" where
  "arena_alloc avail n a = (let (p, ds) = memstuff_alloc avail 256 n (ar_blocks a) in (p, a\<lparr>ar_blocks := ds\<rparr>))"

definition arena_clear :: "arena \<Rightarrow> arena" where
  "arena_clear a = a\<lparr>ar_blocks := memstuff_clear (ar_blocks a)\<rparr>"

text \<open>Access through a pointer: it has to stay inside a block that exists.\<close>

definition arena_valid :: "nat \<times> nat \<Rightarrow> nat \<Rightarrow> arena \<Rightarrow> bool" where
  "arena_valid p n a \<longleftrightarrow> fst p < length (ar_blocks a) \<and> md_buf (ar_blocks a ! fst p) \<and> snd p + n \<le> md_bufsize (ar_blocks a ! fst p)"

definition arena_store :: "(nat \<times> nat) option \<Rightarrow> string \<Rightarrow> arena \<Rightarrow> arena option" where
  "arena_store p s a = do {
     p \<leftarrow> p;
     assert_c (arena_valid p (length s) a);
     Some (a\<lparr>ar_mem := (\<lambda>q. if fst q = fst p \<and> snd p \<le> snd q \<and> snd q < snd p + length s then Some (s ! (snd q - snd p)) else ar_mem a q)\<rparr>) }"

definition arena_load :: "(nat \<times> nat) option \<Rightarrow> nat \<Rightarrow> arena \<Rightarrow> string option" where
  "arena_load p n a = do {
     p \<leftarrow> p;
     assert_c (arena_valid p n a);
     those (map (\<lambda>i. ar_mem a (fst p, snd p + i)) [0..<n]) }"

text \<open>A number in memory, low byte first.\<close>

definition le_bytes :: "nat \<Rightarrow> int \<Rightarrow> string" where
  "le_bytes n v = map (\<lambda>k. char_of (nat (v div 256 ^ k mod 256))) [0..<n]"

fun le_value :: "string \<Rightarrow> nat" where
  "le_value [] = 0"
| "le_value (c # s) = of_char c + 256 * le_value s"

section \<open>Statements\<close>

text \<open>\<open>affected_rows\<close> is not initialised before a statement was executed; it is 0 here.\<close>

record StmtItem =
  sm_stmt :: bool
  sm_bind :: "mysql_bind list option"
  sm_affected_rows :: nat
  sm_valIndex :: nat
  sm_valTotal :: nat
  sm_stuff :: arena

definition StmtItem_Clear :: "StmtItem \<Rightarrow> StmtItem" where
  "StmtItem_Clear item = item\<lparr>sm_bind := None, sm_valIndex := 0, sm_valTotal := 0, sm_stuff := arena_clear (sm_stuff item)\<rparr>"

definition new_StmtItem :: "'w mysql_api \<Rightarrow> 'w \<Rightarrow> StmtItem \<times> 'w" where
  "new_StmtItem api w =
     (let (stmt, w) = my_stmt_init api w
      in (StmtItem_Clear \<lparr>sm_stmt = stmt, sm_bind = None, sm_affected_rows = 0, sm_valIndex = 0, sm_valTotal = 0, sm_stuff = new_arena\<rparr>, w))"

definition Prepare :: "'w mysql_api \<Rightarrow> string \<Rightarrow> StmtItem \<Rightarrow> 'w \<Rightarrow> (StmtItem \<times> 'w) option" where
  "Prepare api cmd item w = do {
     let item = StmtItem_Clear item;
     assert_c (sm_stmt item);
     let (err, w) = my_prepare api cmd w;
     if err then Some (item, w)
     else do {
       let n = my_param_count api w;
       Some (item\<lparr>sm_valTotal := n, sm_bind := (if 0 < n then Some (replicate n zero_bind) else None)\<rparr>, w) } }"

text \<open>The operators \<open><<\<close>. Those for numbers differ in the type and its size; a floating-point number is given by its
  bits.\<close>

definition put_fixed :: "(nat \<Rightarrow> bool) \<Rightarrow> nat \<Rightarrow> string \<Rightarrow> StmtItem \<Rightarrow> StmtItem option" where
  "put_fixed avail ty v item =
     (if sm_valIndex item < sm_valTotal item then do {
        let i = sm_valIndex item;
        bs \<leftarrow> sm_bind item;
        assert_c (i < length bs);
        let (p, a) = arena_alloc avail (length v) (sm_stuff item);
        a \<leftarrow> arena_store p v a;
        Some (item\<lparr>sm_bind := Some (bs[i := (bs ! i)\<lparr>mb_buffer_type := ty, mb_buffer := p, mb_is_null := None, mb_length := None\<rparr>]),
          sm_stuff := a, sm_valIndex := i + 1\<rparr>) }
      else Some item)"

definition put_string :: "(nat \<Rightarrow> bool) \<Rightarrow> string \<Rightarrow> StmtItem \<Rightarrow> StmtItem option" where
  "put_string avail s item =
     (if sm_valIndex item < sm_valTotal item then do {
        let i = sm_valIndex item;
        bs \<leftarrow> sm_bind item;
        assert_c (i < length bs);
        let (p, a) = arena_alloc avail (length s + 1) (sm_stuff item);
        a \<leftarrow> arena_store p (s @ [NUL]) a;
        let (q, a) = arena_alloc avail 4 a;
        a \<leftarrow> arena_store q (le_bytes 4 (int (length s))) a;
        Some (item\<lparr>sm_bind := Some (bs[i := (bs ! i)\<lparr>mb_buffer_type := MYSQL_TYPE_STRING, mb_buffer := p,
            mb_buffer_length := (length s + 1) mod 2 ^ 32, mb_is_null := None, mb_length := q\<rparr>]),
          sm_stuff := a, sm_valIndex := i + 1\<rparr>) }
      else Some item)"

definition put_tiny :: "(nat \<Rightarrow> bool) \<Rightarrow> int \<Rightarrow> StmtItem \<Rightarrow> StmtItem option" where
  "put_tiny avail v = put_fixed avail MYSQL_TYPE_TINY (le_bytes 1 v)"

definition put_short :: "(nat \<Rightarrow> bool) \<Rightarrow> int \<Rightarrow> StmtItem \<Rightarrow> StmtItem option" where
  "put_short avail v = put_fixed avail MYSQL_TYPE_SHORT (le_bytes 2 v)"

definition put_int :: "(nat \<Rightarrow> bool) \<Rightarrow> int \<Rightarrow> StmtItem \<Rightarrow> StmtItem option" where
  "put_int avail v = put_fixed avail MYSQL_TYPE_LONG (le_bytes 4 v)"

definition put_longlong :: "(nat \<Rightarrow> bool) \<Rightarrow> int \<Rightarrow> StmtItem \<Rightarrow> StmtItem option" where
  "put_longlong avail v = put_fixed avail MYSQL_TYPE_LONGLONG (le_bytes 8 v)"

definition put_float :: "(nat \<Rightarrow> bool) \<Rightarrow> 32 word \<Rightarrow> StmtItem \<Rightarrow> StmtItem option" where
  "put_float avail v = put_fixed avail MYSQL_TYPE_FLOAT (le_bytes 4 (uint v))"

definition put_double :: "(nat \<Rightarrow> bool) \<Rightarrow> 64 word \<Rightarrow> StmtItem \<Rightarrow> StmtItem option" where
  "put_double avail v = put_fixed avail MYSQL_TYPE_DOUBLE (le_bytes 8 (uint v))"

text \<open>The operators for streams and times do nothing.\<close>

definition put_blob :: "StmtItem \<Rightarrow> StmtItem" where "put_blob item = item"
definition put_tm :: "StmtItem \<Rightarrow> StmtItem" where "put_tm item = item"

text \<open>What MySQL reads for a bound parameter.\<close>

definition type_size :: "nat \<Rightarrow> nat option" where
  "type_size ty = (if ty = MYSQL_TYPE_TINY then Some 1 else if ty = MYSQL_TYPE_SHORT then Some 2 else if ty = MYSQL_TYPE_LONG then Some 4
     else if ty = MYSQL_TYPE_LONGLONG then Some 8 else if ty = MYSQL_TYPE_FLOAT then Some 4 else if ty = MYSQL_TYPE_DOUBLE then Some 8 else None)"

definition param_value :: "arena \<Rightarrow> mysql_bind \<Rightarrow> (nat \<times> string) option" where
  "param_value a b = do {
     n \<leftarrow> (case type_size (mb_buffer_type b) of
             Some n \<Rightarrow> Some n
           | None \<Rightarrow> (case mb_length b of
                        None \<Rightarrow> Some (mb_buffer_length b)
                      | Some q \<Rightarrow> map_option le_value (arena_load (Some q) 4 a)));
     s \<leftarrow> arena_load (mb_buffer b) n a;
     Some (mb_buffer_type b, s) }"

definition binds_of :: "StmtItem \<Rightarrow> mysql_bind list" where
  "binds_of item = (case sm_bind item of None \<Rightarrow> [] | Some bs \<Rightarrow> bs)"

definition stmt_execute :: "'w mysql_api \<Rightarrow> StmtItem \<Rightarrow> 'w \<Rightarrow> (StmtItem \<times> 'w) option" where
  "stmt_execute api item w =
     (if \<not> sm_stmt item then Some (item, w)
      else if sm_valIndex item = sm_valTotal item then do {
        let (err, w) = my_bind_param api (binds_of item) w;
        vals \<leftarrow> those (map (param_value (sm_stuff item)) (binds_of item));
        let (err, w) = my_execute api vals w;
        Some (item\<lparr>sm_affected_rows := my_affected_rows api w, sm_valIndex := 0, sm_stuff := arena_clear (sm_stuff item)\<rparr>, w) }
      else Some (item, w))"

section \<open>Results\<close>

record StmtRes =
  rs_res :: "(nat \<times> nat) list option"
  rs_bind :: "mysql_bind list option"
  rs_stuff :: arena

text \<open>The columns of a result; \<open>unsigned long\<close> has 32 bits, so the size of the buffer wraps.\<close>

fun bind_columns :: "(nat \<Rightarrow> bool) \<Rightarrow> (nat \<times> nat) list \<Rightarrow> arena \<Rightarrow> mysql_bind list \<times> arena" where
  "bind_columns avail [] a = ([], a)"
| "bind_columns avail ((ty, len) # fs) a =
     (let (p, a) = arena_alloc avail ((len + 1) mod 2 ^ 32) a;
          (q, a) = arena_alloc avail 1 a;
          (r, a) = arena_alloc avail 1 a;
          (bs, a) = bind_columns avail fs a
      in (zero_bind\<lparr>mb_buffer_type := ty, mb_buffer_length := len, mb_buffer := p, mb_is_null := q, mb_error := r\<rparr> # bs, a))"

definition new_StmtRes :: "'w mysql_api \<Rightarrow> 'w \<Rightarrow> StmtRes" where
  "new_StmtRes api w =
     (case my_result_metadata api w of
        None \<Rightarrow> \<lparr>rs_res = None, rs_bind = None, rs_stuff = new_arena\<rparr>
      | Some fs \<Rightarrow> (let (bs, a) = bind_columns (my_avail api) fs new_arena in \<lparr>rs_res = Some fs, rs_bind = Some bs, rs_stuff = a\<rparr>))"

text \<open>\<open>mysql_stmt_result_metadata\<close> must not be called without a statement.\<close>

definition GetRes :: "'w mysql_api \<Rightarrow> StmtItem \<Rightarrow> 'w \<Rightarrow> StmtRes option" where
  "GetRes api item w = do { assert_c (sm_stmt item); Some (new_StmtRes api w) }"

definition BindResult :: "'w mysql_api \<Rightarrow> StmtRes \<Rightarrow> 'w \<Rightarrow> bool \<times> 'w" where
  "BindResult api res w =
     (case (rs_res res, rs_bind res) of
        (Some fs, Some bs) \<Rightarrow>
          (let (err, w) = my_bind_result api bs w
           in if err then (False, w)
              else let (err, w) = my_store_result api w in (\<not> err, w))
      | x \<Rightarrow> (False, w))"

end
