(* ===== verification/MysqlProps.thy ===== *)
theory MysqlProps
  imports Mysql
begin

text \<open>
  Prepared statements implement what their interface promises: the values put into a statement reach MySQL with their
  types, complete and in order, whatever their number and sizes.
\<close>

section \<open>Memory\<close>

text \<open>The system grants all requests up to 8 gigabytes; values have less than 2 gigabytes.\<close>

definition plenty :: "(nat \<Rightarrow> bool) \<Rightarrow> bool" where
  "plenty avail \<longleftrightarrow> (\<forall>n < 2 ^ 33. avail n)"

definition arena_ok :: "arena \<Rightarrow> bool" where
  "arena_ok a \<longleftrightarrow> mem_ok (ar_blocks a)"

abbreviation used :: "arena \<Rightarrow> (nat \<times> nat) set" where
  "used a \<equiv> in_use (ar_blocks a)"

text \<open>A later arena keeps what is in use.\<close>

definition arena_le :: "arena \<Rightarrow> arena \<Rightarrow> bool" where
  "arena_le a a' \<longleftrightarrow> used a \<subseteq> used a' \<and> (\<forall>q\<in>used a. ar_mem a' q = ar_mem a q) \<and> (\<forall>p n. arena_valid p n a \<longrightarrow> arena_valid p n a')"

lemma arena_le_refl [simp]: "arena_le a a"
  by (simp add: arena_le_def)

lemma arena_le_trans [trans]: "arena_le a b \<Longrightarrow> arena_le b c \<Longrightarrow> arena_le a c"
  unfolding arena_le_def by (metis subset_eq)

lemma region_iff: "q \<in> region p n \<longleftrightarrow> fst q = fst p \<and> snd p \<le> snd q \<and> snd q < snd p + n"
  by (cases q) (auto simp: region_def)

lemma those_map_Some [simp]: "those (map (\<lambda>x. Some (f x)) xs) = Some (map f xs)"
  by (induction xs) simp_all

lemma those_map_cong: "(\<And>x. x \<in> set xs \<Longrightarrow> f x = g x) \<Longrightarrow> those (map f xs) = those (map g xs)"
  by (metis map_cong)

lemma load_le:
  assumes "arena_load (Some p) n a = Some s" and "region p n \<subseteq> used a" and "arena_le a a'"
  shows "arena_load (Some p) n a' = Some s"
proof -
  have v: "arena_valid p n a" using assms(1) by (simp add: arena_load_def assert_c_def split: if_splits)
  have "ar_mem a' (fst p, snd p + i) = ar_mem a (fst p, snd p + i)" if "i < n" for i
  proof -
    have "(fst p, snd p + i) \<in> region p n" using that by (simp add: region_iff)
    then show ?thesis using assms(2,3) by (auto simp: arena_le_def)
  qed
  then have "those (map (\<lambda>i. ar_mem a' (fst p, snd p + i)) [0..<n]) = those (map (\<lambda>i. ar_mem a (fst p, snd p + i)) [0..<n])"
    by (intro those_map_cong) simp
  moreover have "arena_valid p n a'" using assms(3) v by (cases p) (simp add: arena_le_def)
  ultimately show ?thesis using assms(1) v by (simp add: arena_load_def)
qed

text \<open>Room for new bytes, next to all that is in use.\<close>

lemma alloc_granted:
  assumes "plenty avail" and "n \<le> 2 ^ 31"
  obtains p ds' where "memstuff_alloc avail 256 n ds = (Some p, ds')"
proof -
  have "block_size 256 n < 2 ^ 33" "(32::nat) < 2 ^ 33" using assms(2) c_size_t_of_nat [of "n * 2"] by (simp_all add: block_size_def)
  then show thesis using assms(1) that
    by (cases "alloc_in ds n 0") (auto simp: memstuff_alloc_def appendbuf_def plenty_def Let_def)
qed

lemma alloc_keeps_valid:
  assumes "arena_valid p n a" and "memstuff_alloc avail 256 m (ar_blocks a) = (r, ds)"
  shows "arena_valid p n (a\<lparr>ar_blocks := ds\<rparr>)"
proof (cases "alloc_in (ar_blocks a) m 0")
  case None
  then show ?thesis using assms by (auto simp: memstuff_alloc_def arena_valid_def nth_append Let_def split: option.splits)
next
  case (Some x)
  have keep: "alloc_in es m k = Some (q, es') \<Longrightarrow> length es' = length es \<and>
      (\<forall>i < length es. md_buf (es' ! i) = md_buf (es ! i) \<and> md_bufsize (es' ! i) = md_bufsize (es ! i))" for es k q es'
    by (induction es m k arbitrary: q es' rule: alloc_in.induct) (auto simp: nth_Cons' split: if_splits option.splits)
  show ?thesis using assms Some keep [of "ar_blocks a" 0] by (cases x) (auto simp: memstuff_alloc_def arena_valid_def)
qed

lemma alloc_le:
  assumes "arena_ok a" and "plenty avail" and "n \<le> 2 ^ 31"
  obtains p ds where "arena_alloc avail n a = (Some p, a\<lparr>ar_blocks := ds\<rparr>)" "arena_ok (a\<lparr>ar_blocks := ds\<rparr>)" "arena_le a (a\<lparr>ar_blocks := ds\<rparr>)"
    "arena_valid p n (a\<lparr>ar_blocks := ds\<rparr>)" "region p n \<inter> used a = {}" "in_use ds = used a \<union> region p n"
proof -
  obtain p ds where al: "memstuff_alloc avail 256 n (ar_blocks a) = (Some p, ds)" using alloc_granted [OF assms(2,3)] .
  have av: "avail (block_size 256 n)" using assms(2,3) c_size_t_of_nat [of "n * 2"] by (simp add: block_size_def plenty_def)
  have ok: "mem_ok ds" "region p n \<subseteq> available ds" "region p n \<inter> used a = {}" "in_use ds = used a \<union> region p n"
    using alloc_ok [OF assms(1) [unfolded arena_ok_def] _ _ av al] assms(3) by auto
  have "arena_valid p n (a\<lparr>ar_blocks := ds\<rparr>)"
  proof (cases "alloc_in (ar_blocks a) n 0")
    case None
    then have "p = (length (ar_blocks a), 0)" "ds = ar_blocks a @ [\<lparr>md_size = n, md_bufsize = block_size 256 n, md_buf = avail (block_size 256 n)\<rparr>]"
      using al assms(2) by (auto simp: memstuff_alloc_def appendbuf_def plenty_def Let_def split: if_splits)
    then show ?thesis using av assms(3) c_size_t_of_nat [of "n * 2"] by (simp add: arena_valid_def block_size_def)
  next
    case (Some x)
    then obtain i where "i < length (ar_blocks a)" "p = (i, md_size (ar_blocks a ! i))" "md_size (ar_blocks a ! i) + n \<le> md_bufsize (ar_blocks a ! i)"
        "ds = (ar_blocks a)[i := (ar_blocks a ! i)\<lparr>md_size := md_size (ar_blocks a ! i) + n\<rparr>]"
      using alloc_in_ok [OF assms(1) [unfolded arena_ok_def], of n 0 p ds] al by (cases x) (auto simp: memstuff_alloc_def)
    then show ?thesis using assms(1) by (simp add: arena_valid_def arena_ok_def mem_ok_def)
  qed
  then show thesis using that [of p ds] al ok alloc_keeps_valid [OF _ al] by (auto simp: arena_alloc_def arena_ok_def arena_le_def)
qed

lemma arena_put:
  assumes "arena_ok a" and "plenty avail" and "length s \<le> 2 ^ 31"
  obtains p a1 a' where "arena_alloc avail (length s) a = (Some p, a1)" "arena_store (Some p) s a1 = Some a'" "arena_ok a'" "arena_le a a'"
    "arena_load (Some p) (length s) a' = Some s" "region p (length s) \<subseteq> used a'"
proof -
  obtain p ds where al: "arena_alloc avail (length s) a = (Some p, a\<lparr>ar_blocks := ds\<rparr>)" "arena_ok (a\<lparr>ar_blocks := ds\<rparr>)" "arena_le a (a\<lparr>ar_blocks := ds\<rparr>)"
      "arena_valid p (length s) (a\<lparr>ar_blocks := ds\<rparr>)" "region p (length s) \<inter> used a = {}" "in_use ds = used a \<union> region p (length s)"
    using alloc_le [OF assms] .
  let ?a = "a\<lparr>ar_blocks := ds, ar_mem := (\<lambda>q. if fst q = fst p \<and> snd p \<le> snd q \<and> snd q < snd p + length s then Some (s ! (snd q - snd p)) else ar_mem a q)\<rparr>"
  have "q \<notin> used a" if "fst q = fst p" "snd p \<le> snd q" "snd q < snd p + length s" for q
    using al(5) that region_iff [of q p "length s"] by blast
  then have "arena_le a ?a" using al(3) by (auto simp: arena_le_def arena_valid_def)
  moreover have "map (\<lambda>i. ar_mem ?a (fst p, snd p + i)) [0..<length s] = map (\<lambda>i. Some (s ! i)) [0..<length s]" by simp
  then have "arena_load (Some p) (length s) ?a = Some s" using al(4) by (simp add: arena_load_def arena_valid_def map_nth del: map_eq_conv)
  ultimately show thesis using that [of p "a\<lparr>ar_blocks := ds\<rparr>" ?a] al by (simp add: arena_store_def arena_ok_def arena_valid_def cong: if_cong)
qed

section \<open>Bound values\<close>

definition bind_area :: "mysql_bind \<Rightarrow> nat \<Rightarrow> (nat \<times> nat) set" where
  "bind_area b n = (case mb_buffer b of None \<Rightarrow> {} | Some p \<Rightarrow> region p n) \<union> (case mb_length b of None \<Rightarrow> {} | Some q \<Rightarrow> region q 4)"

definition value_in :: "arena \<Rightarrow> mysql_bind \<Rightarrow> nat \<times> string \<Rightarrow> bool" where
  "value_in a b v \<longleftrightarrow> param_value a b = Some v \<and> bind_area b (length (snd v)) \<subseteq> used a"

lemma those_length: "those xs = Some ys \<Longrightarrow> length ys = length xs"
  by (induction xs arbitrary: ys) (auto split: option.splits)

lemma load_length: "arena_load p n a = Some s \<Longrightarrow> length s = n"
  by (cases p) (auto simp: arena_load_def assert_c_def dest: those_length split: if_splits)

lemma those_append: "those (xs @ ys) = Some zs \<Longrightarrow> those xs = Some (take (length xs) zs)"
  by (induction xs arbitrary: zs) (auto split: option.splits)

lemma load_prefix:
  assumes "arena_load (Some p) (length (s @ t)) a = Some (s @ t)"
  shows "arena_load (Some p) (length s) a = Some s"
proof -
  let ?f = "\<lambda>i. ar_mem a (fst p, snd p + i)"
  have v: "arena_valid p (length s + length t) a" and r: "those (map ?f [0..<length s + length t]) = Some (s @ t)"
    using assms by (simp_all add: arena_load_def assert_c_def split: if_splits)
  have "[0..<length s + length t] = [0..<length s] @ [length s..<length s + length t]" using upt_add_eq_append [of 0 "length s" "length t"] by simp
  then have "those (map ?f [0..<length s] @ map ?f [length s..<length s + length t]) = Some (s @ t)" using r by simp
  from those_append [OF this] have "those (map ?f [0..<length s]) = Some s" by simp
  moreover have "arena_valid p (length s) a" using v by (simp add: arena_valid_def)
  ultimately show ?thesis by (simp add: arena_load_def)
qed

lemma value_le:
  assumes "value_in a b v" and "arena_le a a'"
  shows "value_in a' b v"
proof -
  obtain n where n: "(case type_size (mb_buffer_type b) of Some n \<Rightarrow> Some n
      | None \<Rightarrow> (case mb_length b of None \<Rightarrow> Some (mb_buffer_length b) | Some q \<Rightarrow> map_option le_value (arena_load (Some q) 4 a))) = Some n"
    "arena_load (mb_buffer b) n a = Some (snd v)" "fst v = mb_buffer_type b"
    using assms(1) by (auto simp: value_in_def param_value_def bind_eq_Some_conv)
  obtain p where p: "mb_buffer b = Some p" using n(2) by (cases "mb_buffer b") (auto simp: arena_load_def)
  have len: "length (snd v) = n" using load_length [OF n(2)] .
  have area: "region p n \<subseteq> used a" "\<And>q. mb_length b = Some q \<Longrightarrow> region q 4 \<subseteq> used a"
    using assms(1) p len by (auto simp: value_in_def bind_area_def)
  have "arena_load (mb_buffer b) n a' = Some (snd v)" using load_le [OF _ area(1) assms(2)] n(2) p by simp
  moreover have "(case type_size (mb_buffer_type b) of Some n \<Rightarrow> Some n
      | None \<Rightarrow> (case mb_length b of None \<Rightarrow> Some (mb_buffer_length b) | Some q \<Rightarrow> map_option le_value (arena_load (Some q) 4 a'))) = Some n"
    using n(1) load_le [OF _ area(2) assms(2)] by (fastforce split: option.splits)
  ultimately have "param_value a' b = Some v" using n(3) by (cases v) (simp add: param_value_def)
  then show ?thesis using assms by (auto simp: value_in_def arena_le_def)
qed

text \<open>What a statement holds: the values bound so far.\<close>

definition stmt_ok :: "StmtItem \<Rightarrow> (nat \<times> string) list \<Rightarrow> bool" where
  "stmt_ok item vs \<longleftrightarrow> arena_ok (sm_stuff item) \<and> length (binds_of item) = sm_valTotal item \<and> sm_valIndex item = length vs \<and>
     length vs \<le> sm_valTotal item \<and> (\<forall>i < length vs. value_in (sm_stuff item) (binds_of item ! i) (vs ! i))"

lemma le_value_bytes: "v < 256 ^ n \<Longrightarrow> le_value (le_bytes n (int v)) = v"
proof (induction n arbitrary: v)
  case (Suc n)
  have step: "le_bytes (Suc n) (int v) = char_of (v mod 256) # le_bytes n (int (v div 256))"
    unfolding le_bytes_def by (simp add: upt_conv_Cons map_Suc_upt [symmetric] zdiv_int zmod_int nat_mod_distrib comp_def
        zdiv_zmult2_eq del: upt_Suc)
  have "v div 256 < 256 ^ n" using Suc.prems by (simp add: less_mult_imp_div_less mult.commute)
  then show ?case unfolding step using Suc.IH [of "v div 256"] by simp
qed (simp add: le_bytes_def)

lemma arena_clear_ok: "arena_ok a \<Longrightarrow> arena_ok (arena_clear a)"
  by (auto simp: arena_ok_def arena_clear_def mem_ok_def memstuff_clear_def)

lemma binds_upd [simp]: "binds_of (item\<lparr>sm_bind := Some bs, sm_stuff := a, sm_valIndex := i\<rparr>) = bs"
  by (simp add: binds_of_def)

text \<open>Binding a value: a new slot, and the earlier ones untouched.\<close>

lemma stmt_ok_snoc:
  assumes "stmt_ok item vs" and "length vs < sm_valTotal item" and "arena_ok a" and "arena_le (sm_stuff item) a" and "value_in a b v"
  shows "stmt_ok (item\<lparr>sm_bind := Some ((binds_of item)[length vs := b]), sm_stuff := a, sm_valIndex := length vs + 1\<rparr>) (vs @ [v])"
proof -
  have "value_in a ((binds_of item)[length vs := b] ! i) ((vs @ [v]) ! i)" if "i < Suc (length vs)" for i
    using that assms value_le [OF _ assms(4)] by (cases "i = length vs") (auto simp: stmt_ok_def nth_append)
  then show ?thesis using assms by (simp add: stmt_ok_def)
qed

lemma bound_slot: "stmt_ok item vs \<Longrightarrow> length vs < sm_valTotal item \<Longrightarrow> \<exists>bs. sm_bind item = Some bs \<and> bs = binds_of item \<and> length vs < length bs"
  by (cases "sm_bind item") (auto simp: stmt_ok_def binds_of_def)

lemma put_fixed_ok:
  assumes "stmt_ok item vs" and "plenty avail" and "type_size ty = Some (length v)" and "length v \<le> 2 ^ 31"
  shows "\<exists>item'. put_fixed avail ty v item = Some item' \<and> sm_stmt item' = sm_stmt item \<and> sm_valTotal item' = sm_valTotal item \<and>
    stmt_ok item' (if length vs < sm_valTotal item then vs @ [(ty, v)] else vs)"
proof (cases "length vs < sm_valTotal item")
  case True
  have ix: "sm_valIndex item = length vs" and ok: "arena_ok (sm_stuff item)" using assms(1) by (simp_all add: stmt_ok_def)
  obtain bs where bs: "sm_bind item = Some bs" "bs = binds_of item" "length vs < length bs" using bound_slot [OF assms(1) True] by blast
  obtain p a1 a where put: "arena_alloc avail (length v) (sm_stuff item) = (Some p, a1)" "arena_store (Some p) v a1 = Some a" "arena_ok a"
      "arena_le (sm_stuff item) a" "arena_load (Some p) (length v) a = Some v" "region p (length v) \<subseteq> used a"
    using arena_put [OF ok assms(2,4)] .
  let ?b = "(bs ! length vs)\<lparr>mb_buffer_type := ty, mb_buffer := Some p, mb_is_null := None, mb_length := None\<rparr>"
  have "value_in a ?b (ty, v)" using put(5,6) assms(3) by (simp add: value_in_def param_value_def bind_area_def)
  from stmt_ok_snoc [OF assms(1) True put(3,4) this] show ?thesis using True ix bs put(1,2) by (simp add: put_fixed_def Let_def)
qed (use assms(1) in \<open>simp add: put_fixed_def stmt_ok_def\<close>)

lemma put_string_ok:
  assumes "stmt_ok item vs" and "plenty avail" and "length s < 2 ^ 31"
  shows "\<exists>item'. put_string avail s item = Some item' \<and> sm_stmt item' = sm_stmt item \<and> sm_valTotal item' = sm_valTotal item \<and>
    stmt_ok item' (if length vs < sm_valTotal item then vs @ [(MYSQL_TYPE_STRING, s)] else vs)"
proof (cases "length vs < sm_valTotal item")
  case True
  have ix: "sm_valIndex item = length vs" and ok: "arena_ok (sm_stuff item)" using assms(1) by (simp_all add: stmt_ok_def)
  obtain bs where bs: "sm_bind item = Some bs" "bs = binds_of item" "length vs < length bs" using bound_slot [OF assms(1) True] by blast
  obtain p a1 a where put: "arena_alloc avail (length (s @ [NUL])) (sm_stuff item) = (Some p, a1)" "arena_store (Some p) (s @ [NUL]) a1 = Some a" "arena_ok a"
      "arena_le (sm_stuff item) a" "arena_load (Some p) (length (s @ [NUL])) a = Some (s @ [NUL])" "region p (length (s @ [NUL])) \<subseteq> used a"
    by (rule arena_put [OF ok assms(2), of "s @ [NUL]"]) (use assms(3) in simp_all)
  have l4: "length (le_bytes 4 v) = 4" for v by (simp add: le_bytes_def)
  obtain q a2 a' where len: "arena_alloc avail 4 a = (Some q, a2)" "arena_store (Some q) (le_bytes 4 (int (length s))) a2 = Some a'" "arena_ok a'"
      "arena_le a a'" "arena_load (Some q) 4 a' = Some (le_bytes 4 (int (length s)))" "region q 4 \<subseteq> used a'"
    by (rule arena_put [OF put(3) assms(2), of "le_bytes 4 (int (length s))"]) (simp_all add: l4)
  have "arena_load (Some p) (length (s @ [NUL])) a' = Some (s @ [NUL])" using load_le [OF put(5,6) len(4)] .
  then have body: "arena_load (Some p) (length s) a' = Some s" by (rule load_prefix)
  have "region p (length s) \<subseteq> region p (length (s @ [NUL]))" by (auto simp: region_def)
  then have "region p (length s) \<subseteq> used a'" using put(6) len(4) unfolding arena_le_def by blast
  let ?b = "(bs ! length vs)\<lparr>mb_buffer_type := MYSQL_TYPE_STRING, mb_buffer := Some p, mb_buffer_length := (length s + 1) mod 2 ^ 32,
    mb_is_null := None, mb_length := Some q\<rparr>"
  have "value_in a' ?b (MYSQL_TYPE_STRING, s)" using body len(5,6) \<open>region p (length s) \<subseteq> used a'\<close> le_value_bytes [of "length s" 4] assms(3)
    by (simp add: value_in_def param_value_def bind_area_def type_size_def mysql_types)
  from stmt_ok_snoc [OF assms(1) True len(3) arena_le_trans [OF put(4) len(4)] this] show ?thesis
    using True ix bs put(1,2) len(1,2) by (simp add: put_string_def Let_def)
qed (use assms(1) in \<open>simp add: put_string_def stmt_ok_def\<close>)

lemma new_arena_ok [simp]: "arena_ok new_arena"
  by (simp add: arena_ok_def new_arena_def mem_ok_def)

section \<open>The statement as a machine\<close>

datatype stmt_arg = ArgString string | ArgTiny int | ArgShort int | ArgInt int | ArgLongLong int | ArgFloat "32 word" | ArgDouble "64 word"
  | ArgBlob | ArgTm
datatype stmt_op = OpPrepare string | OpPut stmt_arg | OpExecute

fun stmt_put :: "(nat \<Rightarrow> bool) \<Rightarrow> stmt_arg \<Rightarrow> StmtItem \<Rightarrow> StmtItem option" where
  "stmt_put avail (ArgString s) item = put_string avail s item"
| "stmt_put avail (ArgTiny v) item = put_tiny avail v item"
| "stmt_put avail (ArgShort v) item = put_short avail v item"
| "stmt_put avail (ArgInt v) item = put_int avail v item"
| "stmt_put avail (ArgLongLong v) item = put_longlong avail v item"
| "stmt_put avail (ArgFloat v) item = put_float avail v item"
| "stmt_put avail (ArgDouble v) item = put_double avail v item"
| "stmt_put avail ArgBlob item = Some (put_blob item)"
| "stmt_put avail ArgTm item = Some (put_tm item)"

fun stmt_run :: "'w mysql_api \<Rightarrow> stmt_op list \<Rightarrow> StmtItem \<Rightarrow> 'w \<Rightarrow> (StmtItem \<times> 'w) option" where
  "stmt_run api [] item w = Some (item, w)"
| "stmt_run api (OpPrepare cmd # ops) item w = do { (item, w) \<leftarrow> Prepare api cmd item w; stmt_run api ops item w }"
| "stmt_run api (OpPut x # ops) item w = do { item \<leftarrow> stmt_put (my_avail api) x item; stmt_run api ops item w }"
| "stmt_run api (OpExecute # ops) item w = do { (item, w) \<leftarrow> stmt_execute api item w; stmt_run api ops item w }"

text \<open>What the interface promises: a statement is the number of its parameters and the values given so far.\<close>

fun arg_value :: "stmt_arg \<Rightarrow> (nat \<times> string) option" where
  "arg_value (ArgString s) = Some (MYSQL_TYPE_STRING, s)"
| "arg_value (ArgTiny v) = Some (MYSQL_TYPE_TINY, le_bytes 1 v)"
| "arg_value (ArgShort v) = Some (MYSQL_TYPE_SHORT, le_bytes 2 v)"
| "arg_value (ArgInt v) = Some (MYSQL_TYPE_LONG, le_bytes 4 v)"
| "arg_value (ArgLongLong v) = Some (MYSQL_TYPE_LONGLONG, le_bytes 8 v)"
| "arg_value (ArgFloat v) = Some (MYSQL_TYPE_FLOAT, le_bytes 4 (uint v))"
| "arg_value (ArgDouble v) = Some (MYSQL_TYPE_DOUBLE, le_bytes 8 (uint v))"
| "arg_value ArgBlob = None"
| "arg_value ArgTm = None"

definition spec_put :: "stmt_arg \<Rightarrow> nat \<Rightarrow> (nat \<times> string) list \<Rightarrow> (nat \<times> string) list" where
  "spec_put x tot vs = (case arg_value x of None \<Rightarrow> vs | Some v \<Rightarrow> if length vs < tot then vs @ [v] else vs)"

fun spec_run :: "'w mysql_api \<Rightarrow> stmt_op list \<Rightarrow> nat \<Rightarrow> (nat \<times> string) list \<Rightarrow> 'w \<Rightarrow> nat \<times> (nat \<times> string) list \<times> 'w" where
  "spec_run api [] tot vs w = (tot, vs, w)"
| "spec_run api (OpPrepare cmd # ops) tot vs w =
     (let (err, w) = my_prepare api cmd w in spec_run api ops (if err then 0 else my_param_count api w) [] w)"
| "spec_run api (OpPut x # ops) tot vs w = spec_run api ops tot (spec_put x tot vs) w"
| "spec_run api (OpExecute # ops) tot vs w =
     (if length vs = tot then spec_run api ops tot [] (snd (my_execute api vs w)) else spec_run api ops tot vs w)"

fun small_op :: "stmt_op \<Rightarrow> bool" where
  "small_op (OpPut (ArgString s)) \<longleftrightarrow> length s < 2 ^ 31"
| "small_op op \<longleftrightarrow> True"

lemma length_le_bytes [simp]: "length (le_bytes n v) = n"
  by (simp add: le_bytes_def)

lemma type_sizes [simp]:
  "type_size MYSQL_TYPE_TINY = Some 1" "type_size MYSQL_TYPE_SHORT = Some 2" "type_size MYSQL_TYPE_LONG = Some 4" "type_size MYSQL_TYPE_LONGLONG = Some 8"
  "type_size MYSQL_TYPE_FLOAT = Some 4" "type_size MYSQL_TYPE_DOUBLE = Some 8" "type_size MYSQL_TYPE_STRING = None"
  by (simp_all add: type_size_def mysql_types)

lemma stmt_put_ok:
  assumes "stmt_ok item vs" and "plenty avail" and "small_op (OpPut x)"
  shows "\<exists>item'. stmt_put avail x item = Some item' \<and> sm_stmt item' = sm_stmt item \<and> sm_valTotal item' = sm_valTotal item \<and>
    stmt_ok item' (spec_put x (sm_valTotal item) vs)"
proof -
  note fixed = put_fixed_ok [OF assms(1,2)]
  show ?thesis
  proof (cases x)
    case (ArgString s)
    then show ?thesis using put_string_ok [OF assms(1,2), of s] assms(3) by (simp add: spec_put_def)
  next
    case (ArgTiny v)
    then show ?thesis using fixed [of MYSQL_TYPE_TINY "le_bytes 1 v"] by (simp add: spec_put_def put_tiny_def del: One_nat_def)
  next
    case (ArgShort v)
    then show ?thesis using fixed [of MYSQL_TYPE_SHORT "le_bytes 2 v"] by (simp add: spec_put_def put_short_def)
  next
    case (ArgInt v)
    then show ?thesis using fixed [of MYSQL_TYPE_LONG "le_bytes 4 v"] by (simp add: spec_put_def put_int_def)
  next
    case (ArgLongLong v)
    then show ?thesis using fixed [of MYSQL_TYPE_LONGLONG "le_bytes 8 v"] by (simp add: spec_put_def put_longlong_def)
  next
    case (ArgFloat v)
    then show ?thesis using fixed [of MYSQL_TYPE_FLOAT "le_bytes 4 (uint v)"] by (simp add: spec_put_def put_float_def)
  next
    case (ArgDouble v)
    then show ?thesis using fixed [of MYSQL_TYPE_DOUBLE "le_bytes 8 (uint v)"] by (simp add: spec_put_def put_double_def)
  qed (use assms(1) in \<open>simp_all add: spec_put_def put_blob_def put_tm_def\<close>)
qed

lemma stmt_values: "stmt_ok item vs \<Longrightarrow> those (map (param_value (sm_stuff item)) (take (length vs) (binds_of item))) = Some vs"
proof -
  assume ok: "stmt_ok item vs"
  have "map (param_value (sm_stuff item)) (take (length vs) (binds_of item)) = map Some vs"
    using ok by (intro nth_equalityI) (auto simp: stmt_ok_def value_in_def)
  then show ?thesis using those_map_Some [of "\<lambda>x. x" vs] by simp
qed

lemma execute_ok:
  assumes "stmt_ok item vs" and "sm_stmt item" and "snd (my_bind_param api (binds_of item) w) = w"
  shows "\<exists>item'. stmt_execute api item w = Some (item', if length vs = sm_valTotal item then snd (my_execute api vs w) else w) \<and>
    sm_stmt item' \<and> sm_valTotal item' = sm_valTotal item \<and> stmt_ok item' (if length vs = sm_valTotal item then [] else vs)"
proof (cases "length vs = sm_valTotal item")
  case True
  have vals: "those (map (param_value (sm_stuff item)) (binds_of item)) = Some vs"
    using stmt_values [OF assms(1)] assms(1) True by (simp add: stmt_ok_def)
  have ix: "sm_valIndex item = sm_valTotal item" using assms(1) True by (simp add: stmt_ok_def)
  obtain er where b: "my_bind_param api (binds_of item) w = (er, w)" using assms(3) by (cases "my_bind_param api (binds_of item) w") simp
  obtain er2 w2 where x: "my_execute api vs w = (er2, w2)" by fastforce
  let ?i = "item\<lparr>sm_affected_rows := my_affected_rows api w2, sm_valIndex := 0, sm_stuff := arena_clear (sm_stuff item)\<rparr>"
  have "stmt_ok ?i []" using assms(1) arena_clear_ok by (simp add: stmt_ok_def binds_of_def)
  then show ?thesis using True assms(2) vals ix b x by (simp add: stmt_execute_def)
qed (use assms in \<open>auto simp: stmt_execute_def stmt_ok_def\<close>)

lemma prepare_ok:
  assumes "arena_ok (sm_stuff item)" and "sm_stmt item" and "my_prepare api cmd w = (er, w')"
  shows "\<exists>item'. Prepare api cmd item w = Some (item', w') \<and> sm_stmt item' \<and> sm_valTotal item' = (if er then 0 else my_param_count api w') \<and> stmt_ok item' []"
  using assms arena_clear_ok [OF assms(1)] by (auto simp: Prepare_def StmtItem_Clear_def stmt_ok_def binds_of_def Let_def)

lemma stmt_run_refines:
  assumes "plenty (my_avail api)" and "\<And>bs w. snd (my_bind_param api bs w) = w"
  shows "stmt_ok item vs \<Longrightarrow> sm_stmt item \<Longrightarrow> list_all small_op ops \<Longrightarrow>
    \<exists>item' vs' w'. stmt_run api ops item w = Some (item', w') \<and> spec_run api ops (sm_valTotal item) vs w = (sm_valTotal item', vs', w') \<and>
      stmt_ok item' vs' \<and> sm_stmt item'"
proof (induction ops arbitrary: item vs w)
  case (Cons op ops)
  show ?case
  proof (cases op)
    case (OpPrepare cmd)
    obtain er w' where p: "my_prepare api cmd w = (er, w')" by fastforce
    have "arena_ok (sm_stuff item)" using Cons.prems(1) by (simp add: stmt_ok_def)
    then obtain item' where "Prepare api cmd item w = Some (item', w')" "sm_stmt item'" "sm_valTotal item' = (if er then 0 else my_param_count api w')" "stmt_ok item' []"
      using prepare_ok [OF _ Cons.prems(2) p] by blast
    then show ?thesis using Cons.IH [of item' "[]" w'] Cons.prems(3) OpPrepare p by (auto simp del: stmt_run.simps(3))
  next
    case (OpPut x)
    then obtain item' where "stmt_put (my_avail api) x item = Some item'" "sm_stmt item' = sm_stmt item" "sm_valTotal item' = sm_valTotal item"
        "stmt_ok item' (spec_put x (sm_valTotal item) vs)"
      using stmt_put_ok [OF Cons.prems(1) assms(1), of x] Cons.prems(3) by auto
    then show ?thesis using Cons.IH [of item' "spec_put x (sm_valTotal item) vs" w] Cons.prems OpPut by auto
  next
    case OpExecute
    obtain item' where "stmt_execute api item w = Some (item', if length vs = sm_valTotal item then snd (my_execute api vs w) else w)"
        "sm_stmt item'" "sm_valTotal item' = sm_valTotal item" "stmt_ok item' (if length vs = sm_valTotal item then [] else vs)"
      using execute_ok [OF Cons.prems(1,2) assms(2)] by blast
    then show ?thesis using Cons.IH [of item'] Cons.prems(3) OpExecute by auto
  qed
qed auto

text \<open>The values a statement holds were put into it.\<close>

lemma spec_values:
  "spec_run api ops n vs w = (n', vs', w') \<Longrightarrow> v \<in> set vs' \<Longrightarrow> v \<notin> set vs \<Longrightarrow> \<exists>x. OpPut x \<in> set ops \<and> arg_value x = Some v"
proof (induction api ops n vs w rule: spec_run.induct)
  case (3 api x ops n vs w)
  show ?case
  proof (cases "v \<in> set (spec_put x n vs)")
    case True
    then have "arg_value x = Some v" using "3.prems"(3) by (auto simp: spec_put_def split: option.splits if_splits)
    then show ?thesis by auto
  next
    case False
    then show ?thesis using "3.IH" "3.prems" by auto
  qed
qed (auto split: if_splits prod.splits)

section \<open>The columns of a result\<close>

definition column_areas :: "mysql_bind \<Rightarrow> ((nat \<times> nat) \<times> nat) list" where
  "column_areas b = [(the (mb_buffer b), mb_buffer_length b + 1), (the (mb_is_null b), 1), (the (mb_error b), 1)]"

definition apart :: "(nat \<times> nat) \<times> nat \<Rightarrow> (nat \<times> nat) \<times> nat \<Rightarrow> bool" where
  "apart x y \<longleftrightarrow> region (fst x) (snd x) \<inter> region (fst y) (snd y) = {}"

text \<open>Areas that were allocated between two states.\<close>

definition areas_ok :: "arena \<Rightarrow> ((nat \<times> nat) \<times> nat) list \<Rightarrow> arena \<Rightarrow> bool" where
  "areas_ok a xs a' \<longleftrightarrow> arena_ok a' \<and> arena_le a a' \<and> sorted_wrt apart xs \<and>
     (\<forall>x\<in>set xs. arena_valid (fst x) (snd x) a' \<and> region (fst x) (snd x) \<subseteq> used a' \<and> region (fst x) (snd x) \<inter> used a = {})"

lemma areas_alloc:
  assumes "arena_ok a" and "plenty avail" and "n \<le> 2 ^ 31"
  obtains p a' where "arena_alloc avail n a = (Some p, a')" "areas_ok a [(p, n)] a'"
  by (rule alloc_le [OF assms]) (auto simp: areas_ok_def)

lemma areas_append:
  assumes "areas_ok a xs b" and "areas_ok b ys c"
  shows "areas_ok a (xs @ ys) c"
proof -
  have le: "arena_le b c" "used a \<subseteq> used b" "used b \<subseteq> used c" using assms by (auto simp: areas_ok_def arena_le_def)
  have valid: "arena_valid (fst x) (snd x) c" if "x \<in> set xs" for x using assms(1) le(1) that unfolding areas_ok_def arena_le_def by blast
  have "apart x y" if "x \<in> set xs" "y \<in> set ys" for x y using assms that unfolding areas_ok_def apart_def by blast
  moreover have "region (fst x) (snd x) \<subseteq> used c \<and> region (fst x) (snd x) \<inter> used a = {}" if "x \<in> set xs \<union> set ys" for x
    using assms le that unfolding areas_ok_def by blast
  ultimately show ?thesis using assms valid arena_le_trans [of a b c] by (auto simp: areas_ok_def sorted_wrt_append)
qed

lemma bind_columns_ok:
  "arena_ok a \<Longrightarrow> plenty avail \<Longrightarrow> \<forall>f\<in>set fs. snd f < 2 ^ 31 \<Longrightarrow> bind_columns avail fs a = (bs, a') \<Longrightarrow>
    map (\<lambda>b. (mb_buffer_type b, mb_buffer_length b)) bs = fs \<and> (\<forall>b\<in>set bs. mb_buffer b \<noteq> None \<and> mb_is_null b \<noteq> None \<and> mb_error b \<noteq> None) \<and>
    areas_ok a (concat (map column_areas bs)) a'"
proof (induction avail fs a arbitrary: bs a' rule: bind_columns.induct)
  case (2 avail ty len fs a)
  have len: "(len + 1) mod 2 ^ 32 = len + 1" using "2.prems"(3) by simp
  obtain p a1 where p: "arena_alloc avail (len + 1) a = (Some p, a1)" "areas_ok a [(p, len + 1)] a1"
    by (rule areas_alloc [OF "2.prems"(1,2), of "len + 1"]) (use "2.prems"(3) in simp_all)
  have "arena_ok a1" using p(2) by (simp add: areas_ok_def)
  then obtain q a2 where q: "arena_alloc avail 1 a1 = (Some q, a2)" "areas_ok a1 [(q, 1)] a2" by (rule areas_alloc [OF _ "2.prems"(2), of _ 1]) (simp_all del: One_nat_def)
  have "arena_ok a2" using q(2) by (simp add: areas_ok_def)
  then obtain r a3 where r: "arena_alloc avail 1 a2 = (Some r, a3)" "areas_ok a2 [(r, 1)] a3" by (rule areas_alloc [OF _ "2.prems"(2), of _ 1]) (simp_all del: One_nat_def)
  have ok3: "arena_ok a3" using r(2) by (simp add: areas_ok_def)
  obtain bs' a4 where rest: "bind_columns avail fs a3 = (bs', a4)" by fastforce
  let ?b = "zero_bind\<lparr>mb_buffer_type := ty, mb_buffer_length := len, mb_buffer := Some p, mb_is_null := Some q, mb_error := Some r\<rparr>"
  have bs: "bs = ?b # bs'" "a' = a4" using "2.prems"(4) p(1) q(1) r(1) rest len by simp_all
  have ih: "map (\<lambda>b. (mb_buffer_type b, mb_buffer_length b)) bs' = fs" "\<forall>b\<in>set bs'. mb_buffer b \<noteq> None \<and> mb_is_null b \<noteq> None \<and> mb_error b \<noteq> None"
      "areas_ok a3 (concat (map column_areas bs')) a4"
    using "2.IH" [of "(Some p, a1)" "Some p" a1 "(Some q, a2)" "Some q" a2 "(Some r, a3)" "Some r" a3 bs' a4] p(1) q(1) r(1) rest len ok3 "2.prems"(2,3) by simp_all
  have "areas_ok a (([(p, len + 1)] @ [(q, 1)]) @ [(r, 1)]) a3" using areas_append [OF areas_append [OF p(2) q(2)] r(2)] .
  moreover have "column_areas ?b = ([(p, len + 1)] @ [(q, 1)]) @ [(r, 1)]" by (simp add: column_areas_def)
  ultimately have "areas_ok a (column_areas ?b @ concat (map column_areas bs')) a4" using areas_append [OF _ ih(3)] by metis
  then have "areas_ok a (concat (map column_areas bs)) a'" unfolding bs by simp
  then show ?case unfolding bs using ih(1,2) by simp
qed (simp add: areas_ok_def)

section \<open>Properties\<close>

text \<open>A client library that records the values of every execution, for statements with two parameters.\<close>

definition demo_mysql :: "(nat \<times> nat) list \<Rightarrow> (nat \<times> string) list list mysql_api" where
  "demo_mysql fs = \<lparr>my_stmt_init = (\<lambda>w. (True, w)), my_prepare = (\<lambda>cmd w. (False, w)), my_param_count = (\<lambda>w. 2), my_bind_param = (\<lambda>bs w. (False, w)),
     my_execute = (\<lambda>vs w. (False, w @ [vs])), my_affected_rows = (\<lambda>w. length w), my_result_metadata = (\<lambda>w. Some fs),
     my_bind_result = (\<lambda>bs w. (False, w)), my_store_result = (\<lambda>w. (False, w)), my_fetch = (\<lambda>w. (True, w)), my_avail = (\<lambda>n. True)\<rparr>"

lemma demo_mysql_ok: "plenty (my_avail (demo_mysql fs))" "snd (my_bind_param (demo_mysql fs) bs w) = w"
  by (simp_all add: demo_mysql_def plenty_def)

lemma demo_stmt:
  obtains item where "new_StmtItem (demo_mysql fs) w = (item, w)" "sm_stmt item"
  by (simp add: new_StmtItem_def demo_mysql_def StmtItem_Clear_def)

text \<open>
  C34 (refinement). A new statement used in any order (preparing texts, putting values of all types, executing, any number
  of times) behaves like its abstract machine: execution happens exactly when all parameters have values, and
  MySQL reads exactly these values, with their types, complete and in the order given, none overwritten by
  another; no operation faults.
\<close>

theorem statement_refines:
  assumes "plenty (my_avail api)" and "\<And>bs w. snd (my_bind_param api bs w) = w" and "new_StmtItem api w = (item, w0)" and "sm_stmt item"
    and "list_all small_op ops"
  shows "\<exists>item' vs w'. stmt_run api ops item w0 = Some (item', w') \<and> spec_run api ops 0 [] w0 = (sm_valTotal item', vs, w') \<and>
    those (map (param_value (sm_stuff item')) (take (sm_valIndex item') (binds_of item'))) = Some vs"
proof -
  have ok: "stmt_ok item []" "sm_valTotal item = 0"
    using assms(3) arena_clear_ok [OF new_arena_ok] by (auto simp: new_StmtItem_def StmtItem_Clear_def stmt_ok_def binds_of_def split: prod.splits)
  obtain item' vs w' where r: "stmt_run api ops item w0 = Some (item', w')" "spec_run api ops 0 [] w0 = (sm_valTotal item', vs, w')" "stmt_ok item' vs"
    using stmt_run_refines [OF assms(1,2) ok(1) assms(4,5), where w = w0] ok(2) by auto
  moreover have "sm_valIndex item' = length vs" using r(3) by (simp add: stmt_ok_def)
  ultimately show ?thesis using stmt_values [OF r(3)] by auto
qed

theorem statement_refines_witness:
  "\<exists>item item'. new_StmtItem (demo_mysql []) [] = (item, []) \<and>
    stmt_run (demo_mysql []) [OpPrepare ''INSERT INTO t VALUES (?,?)'', OpPut (ArgString ''ab''), OpPut (ArgShort 258), OpExecute, OpPut (ArgTiny 7), OpExecute] item []
      = Some (item', [[(MYSQL_TYPE_STRING, ''ab''), (MYSQL_TYPE_SHORT, [CHR 0x02, CHR 0x01])]])"
proof -
  let ?ops = "[OpPrepare ''INSERT INTO t VALUES (?,?)'', OpPut (ArgString ''ab''), OpPut (ArgShort 258), OpExecute, OpPut (ArgTiny 7), OpExecute]"
  obtain item where item: "new_StmtItem (demo_mysql []) [] = (item, [])" "sm_stmt item" by (rule demo_stmt)
  have "list_all small_op ?ops" by simp
  from statement_refines [OF demo_mysql_ok item this] obtain item' vs w' where
    r: "stmt_run (demo_mysql []) ?ops item [] = Some (item', w')" "spec_run (demo_mysql []) ?ops 0 [] [] = (sm_valTotal item', vs, w')" by blast
  have "spec_run (demo_mysql []) ?ops 0 [] [] = (2, [(MYSQL_TYPE_TINY, [CHR 0x07])], [[(MYSQL_TYPE_STRING, ''ab''), (MYSQL_TYPE_SHORT, [CHR 0x02, CHR 0x01])]])"
    by code_simp
  then show ?thesis using r item(1) by auto
qed

text \<open>
  C35 (type). Every value that is bound to a statement, after any use of it, has the size of its type: what MySQL reads
  for a parameter of a number type is the number that was put, never bytes of another value.
\<close>

theorem statement_types:
  assumes "plenty (my_avail api)" and "\<And>bs w. snd (my_bind_param api bs w) = w" and "new_StmtItem api w = (item, w0)" and "sm_stmt item"
    and "list_all small_op ops" and "stmt_run api ops item w0 = Some (item', w')" and "i < sm_valIndex item'"
  shows "\<exists>x ty s. OpPut x \<in> set ops \<and> arg_value x = Some (ty, s) \<and> param_value (sm_stuff item') (binds_of item' ! i) = Some (ty, s) \<and>
    (case type_size ty of Some n \<Rightarrow> length s = n | None \<Rightarrow> ty = MYSQL_TYPE_STRING)"
proof -
  have sized: "case type_size ty of Some n \<Rightarrow> length s = n | None \<Rightarrow> ty = MYSQL_TYPE_STRING" if "arg_value x = Some (ty, s)" for x ty s
    using that by (cases x) auto
  have ok: "stmt_ok item []" "sm_valTotal item = 0"
    using assms(3) arena_clear_ok [OF new_arena_ok] by (auto simp: new_StmtItem_def StmtItem_Clear_def stmt_ok_def binds_of_def split: prod.splits)
  obtain vs where r: "spec_run api ops 0 [] w0 = (sm_valTotal item', vs, w')" "stmt_ok item' vs"
    using stmt_run_refines [OF assms(1,2) ok(1) assms(4,5), where w = w0] ok(2) assms(6) by auto
  have i: "i < length vs" "param_value (sm_stuff item') (binds_of item' ! i) = Some (vs ! i)" using r(2) assms(7) by (auto simp: stmt_ok_def value_in_def)
  then obtain x where "OpPut x \<in> set ops" "arg_value x = Some (vs ! i)" using spec_values [OF r(1), of "vs ! i"] nth_mem by fastforce
  then show ?thesis using i(2) sized by (cases "vs ! i") auto
qed

theorem statement_types_witness:
  "\<exists>item item' s. new_StmtItem (demo_mysql []) [] = (item, []) \<and> stmt_run (demo_mysql []) [OpPrepare ''SELECT ?,?'', OpPut (ArgInt 7)] item [] = Some (item', []) \<and>
    param_value (sm_stuff item') (binds_of item' ! 0) = Some (MYSQL_TYPE_LONG, s) \<and> length s = 4"
proof -
  let ?ops = "[OpPrepare ''SELECT ?,?'', OpPut (ArgInt 7)]"
  obtain item where item: "new_StmtItem (demo_mysql []) [] = (item, [])" "sm_stmt item" by (rule demo_stmt)
  have small: "list_all small_op ?ops" by simp
  have ok: "arena_ok (sm_stuff item)" using item(1) by (auto simp: new_StmtItem_def demo_mysql_def StmtItem_Clear_def arena_clear_ok)
  obtain i1 where i1: "Prepare (demo_mysql []) ''SELECT ?,?'' item [] = Some (i1, [])" "sm_valTotal i1 = 2" "stmt_ok i1 []"
    using prepare_ok [OF ok item(2), of "demo_mysql []" "''SELECT ?,?''" "[]" False "[]"] by (auto simp: demo_mysql_def)
  obtain i2 where i2: "stmt_put (my_avail (demo_mysql [])) (ArgInt 7) i1 = Some i2" "stmt_ok i2 (spec_put (ArgInt 7) 2 [])"
    using stmt_put_ok [OF i1(3) demo_mysql_ok(1), of "ArgInt 7"] i1(2) by auto
  have run: "stmt_run (demo_mysql []) ?ops item [] = Some (i2, [])" using i1(1) i2(1) by simp
  have "0 < sm_valIndex i2" using i2(2) by (simp add: stmt_ok_def spec_put_def)
  from statement_types [OF demo_mysql_ok item small run this] show ?thesis using item(1) run by auto
qed



text \<open>
  C37 (error). The buffer for a number is allocated by the display width of the column, which MySQL does not look at: for
  a column declared narrower than its type, the bytes MySQL writes reach the flag behind the buffer.
\<close>

theorem narrow_column_overwritten:
  assumes "my_avail api 32" and "my_avail api 256" and "my_result_metadata api w = Some ((ty, len) # fs)" and "type_size ty = Some n" and "len + 1 < n"
  shows "\<exists>b bs p q. rs_bind (new_StmtRes api w) = Some (b # bs) \<and> mb_buffer b = Some p \<and> mb_is_null b = Some q \<and> q \<in> region p n"
proof -
  have "n \<le> 8" using assms(4) by (auto simp: type_size_def split: if_splits)
  then have len: "len < 8" "(len + 1) mod 2 ^ 32 = len + 1" using assms(5) by simp_all
  have one: "arena_alloc (my_avail api) (len + 1) new_arena = (Some (0, 0), new_arena\<lparr>ar_blocks := [\<lparr>md_size = len + 1, md_bufsize = 256, md_buf = True\<rparr>]\<rparr>)"
    using assms(1,2) len by (simp add: arena_alloc_def new_arena_def memstuff_alloc_def appendbuf_def block_size_def)
  have two: "arena_alloc (my_avail api) 1 (new_arena\<lparr>ar_blocks := [\<lparr>md_size = len + 1, md_bufsize = 256, md_buf = True\<rparr>]\<rparr>)
      = (Some (0, len + 1), new_arena\<lparr>ar_blocks := [\<lparr>md_size = len + 2, md_bufsize = 256, md_buf = True\<rparr>]\<rparr>)"
    using len(1) by (simp add: arena_alloc_def memstuff_alloc_def c_size_t_id Suc_le_eq)
  show ?thesis using assms(3,5) one two len(2) by (auto simp: new_StmtRes_def region_iff split: prod.split)
qed

theorem narrow_column_overwritten_witness:
  "\<exists>b bs p q. rs_bind (new_StmtRes (demo_mysql [(MYSQL_TYPE_LONG, 1)]) []) = Some (b # bs) \<and> mb_buffer b = Some p \<and> mb_is_null b = Some q \<and> q \<in> region p 4"
  by (rule narrow_column_overwritten [where fs = "[]" and len = 1 and ty = MYSQL_TYPE_LONG]) (simp_all add: demo_mysql_def)

end
