(* ===== verification/Redis.thy ===== *)
theory Redis
  imports Async Containers
begin

text \<open>
  The server's connection to Redis: \<open>src/redis/yyredis.h\<close>, the wrapper of an asynchronous context that reconnects
  after a while, and \<open>src/redis/yyredis.cpp\<close>, which registers the events of a context with libevent.

  Contexts live in a store under their addresses; the container \<open>redisLibeventEvents\<close> of a context has the
  address of its context. What the hiredis functions do besides changing the context, they record in order
  (\<^typ>\<open>async_event\<close>): hooks of the event library and callbacks. The wrapper's functions for these, which the
  context never looks at, are applied to the record afterwards. \<open>AsyncSendCommand\<close>, the only operation that fills
  the queue, is a template member that is never instantiated and calls a function that does not exist; it
  is not modelled.
\<close>

section \<open>Events of a context\<close>

record redisLibeventEvents =
  le_rev :: bool
  le_wev :: bool

definition redisLibeventAttach :: "nat \<Rightarrow> redisAsyncContext \<Rightarrow> int \<times> redisAsyncContext" where
  "redisLibeventAttach e ac =
     (if ev_data (ac_ev ac) \<noteq> 0 then (REDIS_ERR, ac)
      else (REDIS_OK, ac\<lparr>ac_ev := \<lparr>ev_data = e, ev_addRead = True, ev_delRead = True, ev_addWrite = True, ev_delWrite = True, ev_cleanup = True\<rparr>\<rparr>))"

section \<open>The wrapper\<close>

definition REDIS_EVENT_FLAG :: char where
  "REDIS_EVENT_FLAG = CHR 0x02"

record QueueItem =
  qi_format :: string
  qi_privdata :: nat

definition new_QueueItem :: QueueItem where
  "new_QueueItem = \<lparr>qi_format = [], qi_privdata = 0\<rparr>"

record YYRedis =
  yr_c :: "nat option"
  yr_base :: bool
  yr_connecting :: bool
  yr_delayConnectTime :: nat
  yr_delayDisconnect :: nat
  yr_ip :: string
  yr_port :: nat
  yr_queue :: "QueueItem LockQueue"
  yr_contexts :: "nat \<rightharpoonup> redisAsyncContext"
  yr_events :: "nat \<rightharpoonup> redisLibeventEvents"
  yr_next :: nat
  yr_calls :: "(nat \<times> nat) list"

definition new_YYRedis :: YYRedis where
  "new_YYRedis = \<lparr>yr_c = None, yr_base = False, yr_connecting = False, yr_delayConnectTime = 0, yr_delayDisconnect = 0, yr_ip = [], yr_port = 0,
     yr_queue = \<lparr>lq_queue = [], lq_def = new_QueueItem\<rparr>, yr_contexts = Map.empty, yr_events = Map.empty, yr_next = 1, yr_calls = []\<rparr>"

text \<open>The functions registered with a context. The owner's method that \<open>getCallback\<close> calls is recorded with its
  arguments, the reply and the pointer given with the command.\<close>

definition getCallback :: "redisAsyncContext \<Rightarrow> nat \<Rightarrow> nat \<Rightarrow> YYRedis \<Rightarrow> YYRedis" where
  "getCallback c r privdata y = (if ac_data c = 0 \<or> r = 0 then y else y\<lparr>yr_calls := yr_calls y @ [(r, privdata)]\<rparr>)"

text \<open>The Windows variant, which has no status.\<close>

definition connectCallback :: "redisAsyncContext \<Rightarrow> nat \<Rightarrow> YYRedis \<Rightarrow> YYRedis" where
  "connectCallback c a y = (if ac_data c = 0 then y else y\<lparr>yr_c := Some a, yr_connecting := False\<rparr>)"

definition disconnectCallback :: "nat \<Rightarrow> redisAsyncContext \<Rightarrow> YYRedis \<Rightarrow> YYRedis" where
  "disconnectCallback tick c y = (if ac_data c = 0 then y else y\<lparr>yr_c := None, yr_delayDisconnect := tick\<rparr>)"

definition set_event :: "nat \<Rightarrow> (redisLibeventEvents \<Rightarrow> redisLibeventEvents) \<Rightarrow> YYRedis \<Rightarrow> YYRedis option" where
  "set_event d f y = do { e \<leftarrow> yr_events y d; Some (y\<lparr>yr_events := (yr_events y)(d \<mapsto> f e)\<rparr>) }"

text \<open>One recorded event of the context \<open>c\<close> at address \<open>a\<close>.\<close>

fun apply_event :: "nat \<Rightarrow> redisAsyncContext \<Rightarrow> nat \<Rightarrow> async_event \<Rightarrow> YYRedis \<Rightarrow> YYRedis option" where
  "apply_event tick c a (AddRead d) y = set_event d (\<lambda>e. e\<lparr>le_rev := True\<rparr>) y"
| "apply_event tick c a (DelRead d) y = set_event d (\<lambda>e. e\<lparr>le_rev := False\<rparr>) y"
| "apply_event tick c a (AddWrite d) y = set_event d (\<lambda>e. e\<lparr>le_wev := True\<rparr>) y"
| "apply_event tick c a (DelWrite d) y = set_event d (\<lambda>e. e\<lparr>le_wev := False\<rparr>) y"
| "apply_event tick c a (Cleanup d) y = do { e \<leftarrow> yr_events y d; Some (y\<lparr>yr_events := (yr_events y)(d := None)\<rparr>) }"
| "apply_event tick c a (Callback f r p) y = Some (getCallback c r p y)"
| "apply_event tick c a (OnConnect f) y = Some (connectCallback c a y)"
| "apply_event tick c a (OnDisconnect f st) y = Some (disconnectCallback tick c y)"

fun apply_events :: "nat \<Rightarrow> redisAsyncContext \<Rightarrow> nat \<Rightarrow> async_event list \<Rightarrow> YYRedis \<Rightarrow> YYRedis option" where
  "apply_events tick c a [] y = Some y"
| "apply_events tick c a (e # es) y = do { y \<leftarrow> apply_event tick c a e y; apply_events tick c a es y }"

text \<open>The addresses of the three functions, for the context's members.\<close>

definition GET_CALLBACK :: nat where "GET_CALLBACK = 1"
definition CONNECT_CALLBACK :: nat where "CONNECT_CALLBACK = 2"
definition DISCONNECT_CALLBACK :: nat where "DISCONNECT_CALLBACK = 3"

text \<open>The system as the wrapper sees it: sockets, the clock, and the text of a number conversion. A state of the
  surroundings carries the reply objects.\<close>

record 'w redis_env =
  re_os :: "'w os_api"
  re_tick :: "'w sys \<Rightarrow> nat"
  re_render :: "string \<Rightarrow> va_args \<Rightarrow> string option"

type_synonym 'w redis_state = "YYRedis \<times> 'w surroundings"

text \<open>After a call of hiredis: the context, or nothing when it was freed, and the new part of the record.\<close>

definition after_call :: "'w redis_env \<Rightarrow> nat \<Rightarrow> redisAsyncContext \<Rightarrow> redisAsyncContext option \<Rightarrow> 'w surroundings \<Rightarrow> YYRedis
    \<Rightarrow> 'w redis_state option" where
  "after_call env a c c' s y = do {
     y \<leftarrow> apply_events (re_tick env (su_sys s)) c a (su_log s) y;
     Some (y\<lparr>yr_contexts := (yr_contexts y)(a := c')\<rparr>, s\<lparr>su_log := []\<rparr>) }"

definition Redis_Init :: "string \<Rightarrow> nat \<Rightarrow> bool \<Rightarrow> nat \<Rightarrow> YYRedis \<Rightarrow> YYRedis" where
  "Redis_Init ip port base delayConnectTime y = y\<lparr>yr_ip := ip, yr_port := port, yr_base := base, yr_delayConnectTime := delayConnectTime\<rparr>"

text \<open>\<open>Connect\<close>; the times are \<open>unsigned int\<close>. A context with an error is not freed.\<close>

definition Redis_Connect :: "'w redis_env \<Rightarrow> YYRedis \<Rightarrow> 'w surroundings \<Rightarrow> (bool \<times> 'w redis_state) option" where
  "Redis_Connect env y s = do {
     closing \<leftarrow> (case yr_c y of
                   None \<Rightarrow> Some False
                 | Some a \<Rightarrow> do { c \<leftarrow> yr_contexts y a; Some (has_flag c (REDIS_DISCONNECTING OR REDIS_FREEING)) });
     if yr_connecting y \<or> closing then Some (True, y, s)
     else do {
       let tick = re_tick env (su_sys s);
       if yr_delayDisconnect y \<noteq> 0 \<and> (int tick - int (yr_delayDisconnect y)) mod 2 ^ 32 < int (yr_delayConnectTime y) then Some (False, y, s)
       else do {
         let y = y\<lparr>yr_delayDisconnect := tick\<rparr>;
         (c, w) \<leftarrow> redisAsyncConnect (re_os env) (yr_ip y) (int (yr_port y)) (su_sys s);
         let s = s\<lparr>su_sys := w\<rparr>;
         if ac_err c \<noteq> 0 then Some (False, y, s)
         else do {
           let a = yr_next y;
           let c = c\<lparr>ac_data := 1\<rparr>;
           let (st, c) = redisLibeventAttach a c;
           let y = y\<lparr>yr_connecting := True, yr_next := a + 1, yr_events := (yr_events y)(a \<mapsto> \<lparr>le_rev = False, le_wev = False\<rparr>)\<rparr>;
           let (st, c, s) = redisAsyncSetConnectCallback c CONNECT_CALLBACK s;
           let (st, c) = redisAsyncSetDisconnectCallback c DISCONNECT_CALLBACK;
           (y, s) \<leftarrow> after_call env a c (Some c) s y;
           Some (True, y, s) } } } }"

text \<open>The callback of all commands; it makes no calls on the context.\<close>

definition redis_user :: user_code where
  "redis_user fn reply privdata h = []"

definition Redis_Close :: "'w redis_env \<Rightarrow> YYRedis \<Rightarrow> 'w surroundings \<Rightarrow> 'w redis_state option" where
  "Redis_Close env y s = do {
     let y = y\<lparr>yr_base := False\<rparr>;
     (case yr_c y of
        None \<Rightarrow> Some (y, s)
      | Some a \<Rightarrow> do {
          c \<leftarrow> yr_contexts y a;
          (c', s) \<leftarrow> redisAsyncDisconnect (re_os env) redis_user c s;
          after_call env a c c' s y }) }"

text \<open>The command waiting in the queue is handed to the context, as a format without arguments.\<close>

definition Redis_queue_receive :: "'w redis_env \<Rightarrow> char \<Rightarrow> YYRedis \<Rightarrow> 'w surroundings \<Rightarrow> 'w redis_state option" where
  "Redis_queue_receive env flag y s =
     (if flag \<noteq> REDIS_EVENT_FLAG then Some (y, s)
      else do {
        (status, y, s) \<leftarrow>
          (case yr_c y of
             Some a \<Rightarrow>
               if yr_base y then do {
                 let (token, q) = LockQueue_pop (yr_queue y);
                 let y = y\<lparr>yr_queue := q\<rparr>;
                 c \<leftarrow> yr_contexts y a;
                 (st, c', s) \<leftarrow> redisvAsyncCommand (re_render env) c (Some GET_CALLBACK) (qi_privdata token) (c_literal (qi_format token)) [] s;
                 (y, s) \<leftarrow> after_call env a c (Some c') s y;
                 Some (st, y, s) }
               else Some (REDIS_ERR, y, s)
           | None \<Rightarrow> Some (REDIS_ERR, y, s));
        if status \<noteq> REDIS_OK \<and> yr_base y then do { (ok, y, s) \<leftarrow> Redis_Connect env y s; Some (y, s) }
        else Some (y, s) })"

section \<open>Events of the socket\<close>

text \<open>libevent calls the function of an event that was added, and removes the event (\<open>EV_PERSIST\<close> is not set).\<close>

definition redisLibeventReadEvent :: "'w redis_env \<Rightarrow> nat \<Rightarrow> YYRedis \<Rightarrow> 'w surroundings \<Rightarrow> 'w redis_state option" where
  "redisLibeventReadEvent env a y s = do {
     y \<leftarrow> set_event a (\<lambda>e. e\<lparr>le_rev := False\<rparr>) y;
     c \<leftarrow> yr_contexts y a;
     (c', s) \<leftarrow> redisAsyncHandleRead (re_os env) redis_user c s;
     after_call env a c c' s y }"

definition redisLibeventWriteEvent :: "'w redis_env \<Rightarrow> nat \<Rightarrow> YYRedis \<Rightarrow> 'w surroundings \<Rightarrow> 'w redis_state option" where
  "redisLibeventWriteEvent env a y s = do {
     y \<leftarrow> set_event a (\<lambda>e. e\<lparr>le_wev := False\<rparr>) y;
     c \<leftarrow> yr_contexts y a;
     (c', s) \<leftarrow> redisAsyncHandleWrite (re_os env) redis_user c s;
     after_call env a c c' s y }"

end
