(* ===== verification/RedisProps.thy ===== *)
theory RedisProps
  imports Redis AsyncDispatch
begin

text \<open>
  The wrapper and its contexts over all orders of calls and events: its pointer to a context is never stale, and
  every connected context listens.
\<close>

section \<open>What hiredis leaves alone\<close>

lemma set_error_flags: "redisSetError os c e t w = Some c' \<Longrightarrow> cx_flags c' = cx_flags c"
  by (auto simp: redisSetError_def bind_eq_Some_conv Let_def split: option.splits if_splits)

lemma create_reader_flags: "redisCreateReplyReader c = Some c' \<Longrightarrow> cx_flags c' = cx_flags c"
  by (auto simp: redisCreateReplyReader_def bind_eq_Some_conv split_def Let_def split: option.splits)

lemma buffer_read_flags: "redisBufferRead os c w = Some (st, c', w') \<Longrightarrow> cx_flags c' = cx_flags c"
  by (auto simp: redisBufferRead_def bind_eq_Some_conv feed_reader_def set_eof_def Let_def
      dest!: set_error_flags create_reader_flags split: prod.splits recv_result.splits if_splits)

lemma buffer_write_flags:
  assumes "redisBufferWrite os c w = Some (st, wdone, c', w')"
  shows "cx_flags c' = cx_flags c"
proof (cases "0 < sdslen (cx_obuf c)")
  case True
  then obtain bytes where b: "obuf_bytes c = Some bytes" using assms by (auto simp: redisBufferWrite_def bind_eq_Some_conv)
  obtain r w1 where r: "os_send os (cx_fd c) bytes w = (r, w1)" by fastforce
  show ?thesis using assms True b r
    by (cases r) (auto simp: redisBufferWrite_def bind_eq_Some_conv Let_def dest!: set_error_flags split: if_splits)
qed (use assms in \<open>simp add: redisBufferWrite_def\<close>)

lemma from_reader_flags: "redisGetReplyFromReader os c h w = Some (st, r, c', h') \<Longrightarrow> cx_flags c' = cx_flags c"
  by (auto simp: redisGetReplyFromReader_def bind_eq_Some_conv Let_def dest!: set_error_flags create_reader_flags split: if_splits)

lemma write_done_flags: "write_until_done os c w = Some r \<Longrightarrow> cx_flags (fst (snd r)) = cx_flags c"
proof (rule write_until_done.raw_induct [where P = "\<lambda>os c w r. cx_flags (fst (snd r)) = cx_flags c"], goal_cases)
  case (1 f os c w r)
  obtain st d c1 w1 where b: "redisBufferWrite os c w = Some (st, d, c1, w1)" using 1(3) by (auto simp: bind_eq_Some_conv)
  show ?case using 1(3) b 1(2) [of os c1 w1 r] buffer_write_flags [OF b] by (auto split: if_splits)
qed

lemma read_reply_flags: "read_until_reply os c h w = Some r \<Longrightarrow> cx_flags (fst (snd (snd r))) = cx_flags c"
proof (rule read_until_reply.raw_induct [where P = "\<lambda>os c h w r. cx_flags (fst (snd (snd r))) = cx_flags c"], goal_cases)
  case (1 f os c h w r)
  obtain st c1 w1 where b: "redisBufferRead os c w = Some (st, c1, w1)" using 1(3) by (auto simp: bind_eq_Some_conv)
  note fl = buffer_read_flags [OF b]
  show ?case
  proof (cases "st = REDIS_ERR")
    case False
    obtain st2 aux c2 h2 where g: "redisGetReplyFromReader os c1 h w1 = Some (st2, aux, c2, h2)" using 1(3) b False by (auto simp: bind_eq_Some_conv)
    show ?thesis using 1(3) b False g 1(2) [of os c2 h2 w1 r] from_reader_flags [OF g] fl by (auto split: if_splits)
  qed (use 1(3) b fl in auto)
qed

lemma get_reply_flags:
  assumes "redisGetReply os c h w = Some (st, r, c', h', w')"
  shows "cx_flags c' = cx_flags c"
proof -
  obtain st1 aux c1 h1 where g: "redisGetReplyFromReader os c h w = Some (st1, aux, c1, h1)" using assms by (auto simp: redisGetReply_def bind_eq_Some_conv)
  note fl = from_reader_flags [OF g]
  show ?thesis
  proof (cases "st1 \<noteq> REDIS_ERR \<and> aux = 0 \<and> cx_flags c1 AND REDIS_BLOCK \<noteq> 0")
    case True
    then obtain st2 c2 w2 where d: "write_until_done os c1 w = Some (st2, c2, w2)" using assms g by (auto simp: redisGetReply_def bind_eq_Some_conv)
    have "cx_flags c2 = cx_flags c1" using write_done_flags [OF d] by simp
    then show ?thesis using assms g d True fl read_reply_flags [of os c2 h1 w2] by (fastforce simp: redisGetReply_def split: if_splits)
  qed (use assms g fl in \<open>auto simp: redisGetReply_def split: if_splits\<close>)
qed

section \<open>How a call of hiredis ends\<close>

definition same :: "redisAsyncContext \<Rightarrow> redisAsyncContext \<Rightarrow> bool" where
  "same c c' \<longleftrightarrow> ac_data c' = ac_data c \<and> ac_ev c' = ac_ev c \<and> ac_onDisconnect c' = ac_onDisconnect c \<and> ac_onConnect c' = ac_onConnect c \<and>
     bit (cx_flags (ac_c c')) 1 = bit (cx_flags (ac_c c)) 1"

lemma same_refl [simp]: "same c c"
  by (simp add: same_def)

lemma same_trans [trans]: "same a b \<Longrightarrow> same b c \<Longrightarrow> same a c"
  by (simp add: same_def)

lemma flag_data [simp]: "ac_data (set_flag f c) = ac_data c" "ac_data (clear_flag f c) = ac_data c"
  by (simp_all add: set_flag_def clear_flag_def)

lemma same_flags:
  "same c (set_flag REDIS_IN_CALLBACK c)" "same c (set_flag REDIS_DISCONNECTING c)" "same c (set_flag REDIS_FREEING c)" "same c (set_flag REDIS_SUBSCRIBED c)"
  "same c (clear_flag REDIS_IN_CALLBACK c)" "same c (clear_flag REDIS_SUBSCRIBED c)"
  by (simp_all add: same_def flag_simps)

text \<open>The events of the container \<open>d\<close> and callbacks of commands.\<close>

fun quiet_event :: "nat \<Rightarrow> async_event \<Rightarrow> bool" where
  "quiet_event d (AddRead x) \<longleftrightarrow> x = d"
| "quiet_event d (AddWrite x) \<longleftrightarrow> x = d"
| "quiet_event d (DelWrite x) \<longleftrightarrow> x = d"
| "quiet_event d (Callback f r p) \<longleftrightarrow> True"
| "quiet_event d e \<longleftrightarrow> False"

definition quietly :: "redisAsyncContext \<Rightarrow> 'w surroundings \<Rightarrow> redisAsyncContext \<Rightarrow> 'w surroundings \<Rightarrow> bool" where
  "quietly c s c' s' \<longleftrightarrow> same c c' \<and> (\<exists>es. su_log s' = su_log s @ es \<and> list_all (quiet_event (ev_data (ac_ev c))) es)"

lemma quietly_refl [simp]: "quietly c s c s"
  by (simp add: quietly_def)

lemma quietly_trans [trans]: "quietly a s b t \<Longrightarrow> quietly b t c u \<Longrightarrow> quietly a s c u"
  unfolding quietly_def by (force dest: same_trans simp: same_def)

lemma quietly_same: "same c c' \<Longrightarrow> su_log s' = su_log s \<Longrightarrow> quietly c s c' s'"
  by (simp add: quietly_def)

text \<open>Freeing: the clean-up hook, and for a connected context the disconnect callback.\<close>

definition freed :: "redisAsyncContext \<Rightarrow> 'w surroundings \<Rightarrow> 'w surroundings \<Rightarrow> bool" where
  "freed c s s' \<longleftrightarrow> (\<exists>es st. list_all (quiet_event (ev_data (ac_ev c))) es \<and>
     su_log s' = su_log s @ es @ (if ev_cleanup (ac_ev c) then [Cleanup (ev_data (ac_ev c))] else []) @
       (case ac_onDisconnect c of Some f \<Rightarrow> if bit (cx_flags (ac_c c)) 1 then [OnDisconnect f st] else [] | None \<Rightarrow> []))"

lemma quietly_freed:
  assumes "quietly c s c' t" and "freed c' t u"
  shows "freed c s u"
proof -
  obtain es where es: "su_log t = su_log s @ es" "list_all (quiet_event (ev_data (ac_ev c))) es" and sm: "same c c'"
    using assms(1) by (auto simp: quietly_def)
  have eqs: "ac_ev c' = ac_ev c" "ac_onDisconnect c' = ac_onDisconnect c" "bit (cx_flags (ac_c c')) 1 = bit (cx_flags (ac_c c)) 1"
    using sm unfolding same_def by blast+
  obtain fs st where fs: "list_all (quiet_event (ev_data (ac_ev c))) fs" "su_log u = su_log t @ fs @ (if ev_cleanup (ac_ev c) then [Cleanup (ev_data (ac_ev c))] else []) @
       (case ac_onDisconnect c of Some f \<Rightarrow> if bit (cx_flags (ac_c c)) 1 then [OnDisconnect f st] else [] | None \<Rightarrow> [])"
    using assms(2) unfolding freed_def eqs by blast
  have "list_all (quiet_event (ev_data (ac_ev c))) (es @ fs)" using es(2) fs(1) by simp
  moreover have "su_log u = su_log s @ (es @ fs) @ (if ev_cleanup (ac_ev c) then [Cleanup (ev_data (ac_ev c))] else []) @
       (case ac_onDisconnect c of Some f \<Rightarrow> if bit (cx_flags (ac_c c)) 1 then [OnDisconnect f st] else [] | None \<Rightarrow> [])"
    unfolding fs(2) es(1) by simp
  ultimately show ?thesis unfolding freed_def by blast
qed

definition ends :: "redisAsyncContext \<Rightarrow> 'w surroundings \<Rightarrow> redisAsyncContext option \<Rightarrow> 'w surroundings \<Rightarrow> bool" where
  "ends c s r s' \<longleftrightarrow> (case r of Some c' \<Rightarrow> quietly c s c' s' | None \<Rightarrow> freed c s s')"

lemma quietly_ends: "quietly c s c' t \<Longrightarrow> ends c' t r u \<Longrightarrow> ends c s r u"
  by (auto simp: ends_def intro: quietly_trans quietly_freed split: option.splits)

lemma hook_log:
  "su_log (call_addRead c s) = su_log s @ (if ev_addRead (ac_ev c) then [AddRead (ev_data (ac_ev c))] else [])"
  "su_log (call_addWrite c s) = su_log s @ (if ev_addWrite (ac_ev c) then [AddWrite (ev_data (ac_ev c))] else [])"
  "su_log (call_delWrite c s) = su_log s @ (if ev_delWrite (ac_ev c) then [DelWrite (ev_data (ac_ev c))] else [])"
  "su_log (call_cleanup c s) = su_log s @ (if ev_cleanup (ac_ev c) then [Cleanup (ev_data (ac_ev c))] else [])"
  by (simp_all add: call_addRead_def call_addWrite_def call_delWrite_def call_cleanup_def record_event_def add_log_def)

lemma quietly_hooks: "quietly c s c (call_addRead c s)" "quietly c s c (call_addWrite c s)" "quietly c s c (call_delWrite c s)"
  by (simp_all add: quietly_def hook_log)

lemma callback_quietly:
  assumes "redisRunCallback redis_user c cb r s = Some (c', s')"
  shows "quietly c s c' s'"
proof (cases "cb_fn cb")
  case (Some f)
  have "c' = clear_flag REDIS_IN_CALLBACK (set_flag REDIS_IN_CALLBACK c)" "s' = record_event (Callback f r (cb_privdata cb)) s"
    using assms Some by (simp_all add: redisRunCallback_def redis_user_def)
  then show ?thesis using same_trans [OF same_flags(1) same_flags(5), of c] by (simp add: quietly_def record_event_def add_log_def)
qed (use assms in \<open>simp add: redisRunCallback_def\<close>)

lemma run_replies_quietly: "run_replies redis_user c s = Some r \<Longrightarrow> quietly c s (fst r) (snd r)"
proof (rule run_replies.raw_induct [where P = "\<lambda>user c s r. user = redis_user \<longrightarrow> quietly c s (fst r) (snd r)", THEN mp], goal_cases)
  case (1 f user c s r)
  show ?case
  proof
    assume u: "user = redis_user"
    obtain t l where t: "redisShiftCallback (ac_replies c) = Some (t, l)" using 1(3) by (auto simp: bind_eq_Some_conv)
    have sm: "quietly c s (c\<lparr>ac_replies := l\<rparr>) s" by (simp add: quietly_def same_def)
    show "quietly c s (fst r) (snd r)"
    proof (cases t)
      case (Some cb)
      then obtain c1 s1 where c1: "redisRunCallback redis_user (c\<lparr>ac_replies := l\<rparr>) cb 0 s = Some (c1, s1)" "f redis_user c1 s1 = Some r"
        using 1(3) t u by (auto simp: bind_eq_Some_conv Let_def)
      show ?thesis using quietly_trans [OF sm callback_quietly [OF c1(1)]] 1(2) [OF c1(2)] quietly_trans by blast
    qed (use 1(3) t sm in auto)
  qed
qed simp_all

lemma run_invalid_quietly: "run_invalid redis_user c s = Some r \<Longrightarrow> quietly c s (fst r) (snd r)"
proof (rule run_invalid.raw_induct [where P = "\<lambda>user c s r. user = redis_user \<longrightarrow> quietly c s (fst r) (snd r)", THEN mp], goal_cases)
  case (1 f user c s r)
  show ?case
  proof
    assume u: "user = redis_user"
    obtain t l where t: "redisShiftCallback (ac_invalid c) = Some (t, l)" using 1(3) by (auto simp: bind_eq_Some_conv)
    have sm: "quietly c s (c\<lparr>ac_invalid := l\<rparr>) s" by (simp add: quietly_def same_def)
    show "quietly c s (fst r) (snd r)"
    proof (cases t)
      case (Some cb)
      then obtain c1 s1 where c1: "redisRunCallback redis_user (c\<lparr>ac_invalid := l\<rparr>) cb 0 s = Some (c1, s1)" "f redis_user c1 s1 = Some r"
        using 1(3) t u by (auto simp: bind_eq_Some_conv Let_def)
      show ?thesis using quietly_trans [OF sm callback_quietly [OF c1(1)]] 1(2) [OF c1(2)] quietly_trans by blast
    qed (use 1(3) t sm in auto)
  qed
qed simp_all

lemma run_dict_quietly: "run_dict redis_user sel it c s = Some r \<Longrightarrow> quietly c s (fst r) (snd r)"
proof (rule run_dict.raw_induct [where P = "\<lambda>user sel it c s r. user = redis_user \<longrightarrow> quietly c s (fst r) (snd r)", THEN mp], goal_cases)
  case (1 f user sel it c s r)
  show ?case
  proof
    assume u: "user = redis_user"
    obtain t it' where t: "dictNext (sel c) it = Some (t, it')" using 1(3) by (auto simp: bind_eq_Some_conv)
    show "quietly c s (fst r) (snd r)"
    proof (cases t)
      case (Some de)
      then obtain c1 s1 where c1: "redisRunCallback redis_user c (snd de) 0 s = Some (c1, s1)" "f redis_user sel it' c1 s1 = Some r"
        using 1(3) t u by (auto simp: bind_eq_Some_conv)
      show ?thesis using callback_quietly [OF c1(1)] 1(2) [OF c1(2)] quietly_trans by blast
    qed (use 1(3) t in auto)
  qed
qed simp_all

lemma async_free_freed:
  assumes "async_free os redis_user c s = Some s'"
  shows "freed c s s'"
proof -
  obtain c1 s1 c2 s2 c3 s3 c4 s4 fr1 fr2 h w where
    r: "run_replies redis_user c s = Some (c1, s1)" "run_invalid redis_user c1 s1 = Some (c2, s2)"
      "run_dict redis_user ac_channels dictGetIterator c2 s2 = Some (c3, s3)" "dictRelease (ac_channels c3) = Some fr1"
      "run_dict redis_user ac_patterns dictGetIterator c3 s3 = Some (c4, s4)" "dictRelease (ac_patterns c4) = Some fr2"
    using assms unfolding async_free_def by (auto simp: bind_eq_Some_conv)
  have q: "quietly c s c4 s4"
    using run_replies_quietly [OF r(1)] run_invalid_quietly [OF r(2)] run_dict_quietly [OF r(3)] run_dict_quietly [OF r(5)]
    by (auto intro: quietly_trans)
  define s5 where "s5 = (case ac_onDisconnect c4 of
                Some f \<Rightarrow>
                  if has_flag c4 REDIS_CONNECTED then
                    if has_flag c4 REDIS_FREEING then record_event (OnDisconnect f REDIS_OK) (call_cleanup c4 s4)
                    else record_event (OnDisconnect f (if ac_err c4 = 0 then REDIS_OK else REDIS_ERR)) (call_cleanup c4 s4)
                  else call_cleanup c4 s4
              | None \<Rightarrow> call_cleanup c4 s4)"
  have "su_log s' = su_log s5"
    using assms unfolding async_free_def s5_def by (auto simp: r bind_eq_Some_conv Let_def)
  moreover have "\<exists>st. su_log s5 = su_log s4 @ (if ev_cleanup (ac_ev c4) then [Cleanup (ev_data (ac_ev c4))] else []) @
       (case ac_onDisconnect c4 of Some f \<Rightarrow> if bit (cx_flags (ac_c c4)) 1 then [OnDisconnect f st] else [] | None \<Rightarrow> [])"
    unfolding s5_def has_flag_bit by (cases "ac_onDisconnect c4") (auto simp: record_event_def add_log_def hook_log)
  ultimately have "freed c4 s4 s'" unfolding freed_def by (intro exI [of _ "[]"]) simp
  with q show ?thesis by (rule quietly_freed)
qed

lemma async_disconnect_freed:
  assumes "async_disconnect os redis_user c s = Some s'"
  shows "freed c s s'"
proof -
  let ?c = "redisAsyncCopyError c"
  obtain c1 where c1: "async_free os redis_user c1 s = Some s'" "same ?c c1"
  proof (cases "ac_err ?c = 0")
    case True
    then obtain t l where "redisShiftCallback (ac_replies ?c) = Some (t, l)" "async_free os redis_user (?c\<lparr>ac_replies := l\<rparr>) s = Some s'"
      using assms by (auto simp: async_disconnect_def bind_eq_Some_conv Let_def)
    then show thesis using that by (simp add: same_def)
  next
    case False
    then show thesis using assms that [of "set_flag REDIS_DISCONNECTING ?c"] same_flags(2) by (simp add: async_disconnect_def Let_def)
  qed
  have "same c ?c" by (simp add: same_def redisAsyncCopyError_def)
  then show ?thesis using quietly_freed [OF quietly_same async_free_freed [OF c1(1)]] same_trans [OF _ c1(2)] by blast
qed

lemma subscribe_same:
  assumes "redisGetSubscribeCallback c r cb h = Some (cb', c')"
  shows "same c c'"
proof -
  obtain x where x: "hp_cells h r = Some x" using assms by (auto simp: redisGetSubscribeCallback_def bind_eq_Some_conv)
  show ?thesis
  proof (cases "rp_type x = REDIS_REPLY_ARRAY")
    case True
    have change: "same c (c\<lparr>ac_patterns := d\<rparr>)" "same c (c\<lparr>ac_channels := d\<rparr>)"
      "same c (clear_flag REDIS_SUBSCRIBED (c\<lparr>ac_patterns := d\<rparr>))" "same c (clear_flag REDIS_SUBSCRIBED (c\<lparr>ac_channels := d\<rparr>))" for d
      by (simp_all add: same_def flag_simps)
    show ?thesis using assms x True unfolding redisGetSubscribeCallback_def Let_def
      by (clarsimp simp: bind_eq_Some_conv split del: if_split split: option.splits) (auto simp: bind_eq_Some_conv change split: if_splits)
  next
    case False
    then show ?thesis using assms x by (auto simp: redisGetSubscribeCallback_def bind_eq_Some_conv same_def)
  qed
qed

lemma process_loop_ends: "process_loop os redis_user cb c s = Some r \<Longrightarrow> ends c s (fst r) (snd r)"
proof (rule process_loop.raw_induct [where P = "\<lambda>os user cb c s r. user = redis_user \<longrightarrow> ends c s (fst r) (snd r)", THEN mp], goal_cases)
  case (1 f os user cb c s r)
  show ?case
  proof
    assume u: "user = redis_user"
    obtain st reply cx h w where g: "redisGetReply os (ac_c c) (su_heap s) (su_sys s) = Some (st, reply, cx, h, w)" using 1(3) by (auto simp: bind_eq_Some_conv)
    let ?c = "c\<lparr>ac_c := cx\<rparr>" and ?s = "s\<lparr>su_heap := h, su_sys := w\<rparr>"
    have q: "quietly c s ?c ?s" using get_reply_flags [OF g] by (simp add: quietly_def same_def)
    note body = 1(3) [unfolded g u Option.bind.bind_lunit prod.case Let_def]
    have gone: "ends ?c ?s (fst r) (snd r)" if "do { s \<leftarrow> async_disconnect os redis_user ?c ?s; Some (None, s) } = Some r"
      using that async_disconnect_freed by (auto simp: bind_eq_Some_conv ends_def)
    have "ends ?c ?s (fst r) (snd r)"
    proof (cases "st = REDIS_OK \<and> reply \<noteq> 0")
      case False
      then show ?thesis using body gone by (auto simp: ends_def split: if_splits)
    next
      case True
      obtain t l where t: "redisShiftCallback (ac_replies ?c) = Some (t, l)" using body True by (auto simp: bind_eq_Some_conv)
      obtain cb1 c1 where c1: "(case t of Some t \<Rightarrow> Some (Some t, ?c\<lparr>ac_replies := l\<rparr>)
            | None \<Rightarrow> do { assert_c (has_flag (?c\<lparr>ac_replies := l\<rparr>) REDIS_SUBSCRIBED);
                redisGetSubscribeCallback (?c\<lparr>ac_replies := l\<rparr>) reply cb (su_heap ?s) }) = Some (Some cb1, c1)"
        using body True t by (auto simp: bind_eq_Some_conv)
      have q1: "quietly ?c ?s c1 ?s" using c1 subscribe_same [of "?c\<lparr>ac_replies := l\<rparr>"]
        by (intro quietly_same) (auto simp: bind_eq_Some_conv same_def split: option.splits)
      have fo: "su_log x = su_log y" if "free_object d reply y = Some x" for d x y using that by (auto simp: free_object_def bind_eq_Some_conv)
      have "ends c1 ?s (fst r) (snd r)"
      proof (cases "cb_fn cb1 = None")
        case True
        then obtain s2 where s2: "free_object c1 reply ?s = Some s2" "f os redis_user (Some cb1) c1 s2 = Some r"
          using body \<open>st = REDIS_OK \<and> reply \<noteq> 0\<close> t c1 by (auto simp: bind_eq_Some_conv)
        have "quietly c1 ?s c1 s2" using fo [OF s2(1)] by (simp add: quietly_def)
        then show ?thesis using 1(2) [OF s2(2)] quietly_ends by blast
      next
        case False
        then obtain c2 s2 s3 where s2: "redisRunCallback redis_user c1 cb1 reply ?s = Some (c2, s2)" "free_object c2 reply s2 = Some s3"
            "(if has_flag c2 REDIS_FREEING then do { s \<leftarrow> async_free os redis_user c2 s3; Some (None, s) } else f os redis_user (Some cb1) c2 s3) = Some r"
          using body \<open>st = REDIS_OK \<and> reply \<noteq> 0\<close> t c1 by (auto simp: bind_eq_Some_conv)
        have "quietly c2 s2 c2 s3" using fo [OF s2(2)] by (simp add: quietly_def)
        then have q2: "quietly c1 ?s c2 s3" using callback_quietly [OF s2(1)] quietly_trans by blast
        have "ends c2 s3 (fst r) (snd r)" using s2(3) 1(2) [of os redis_user "Some cb1" c2 s3 r] async_free_freed
          by (auto simp: bind_eq_Some_conv ends_def split: if_splits)
        with q2 show ?thesis by (rule quietly_ends)
      qed
      with q1 show ?thesis by (rule quietly_ends)
    qed
    with q show "ends c s (fst r) (snd r)" by (rule quietly_ends)
  qed
qed simp_all

lemma handle_read_ends:
  assumes "redisAsyncHandleRead os redis_user c s = Some (r, s')" and "su_log s = []"
  shows "ends c s r s'" "r \<noteq> None \<Longrightarrow> ev_addRead (ac_ev c) \<Longrightarrow> AddRead (ev_data (ac_ev c)) \<in> set (su_log s')"
proof -
  obtain st cx w where b: "redisBufferRead os (ac_c c) (su_sys s) = Some (st, cx, w)" using assms(1) by (auto simp: redisAsyncHandleRead_def bind_eq_Some_conv)
  let ?c = "c\<lparr>ac_c := cx\<rparr>" and ?s = "s\<lparr>su_sys := w\<rparr>"
  have q: "quietly c s ?c ?s" using buffer_read_flags [OF b] by (simp add: quietly_def same_def)
  show "ends c s r s'" "r \<noteq> None \<Longrightarrow> ev_addRead (ac_ev c) \<Longrightarrow> AddRead (ev_data (ac_ev c)) \<in> set (su_log s')"
  proof -
    show "ends c s r s'"
    proof (cases "st = REDIS_ERR")
      case True
      then have "freed ?c ?s s'" "r = None" using assms(1) b async_disconnect_freed by (auto simp: redisAsyncHandleRead_def bind_eq_Some_conv)
      then show ?thesis using quietly_freed [OF q] by (simp add: ends_def)
    next
      case False
      then have "process_loop os redis_user None ?c (call_addRead ?c ?s) = Some (r, s')"
        using assms(1) b by (simp add: redisAsyncHandleRead_def redisProcessCallbacks_def Let_def)
      then show ?thesis using process_loop_ends quietly_ends [OF quietly_trans [OF q quietly_hooks(1)]] by fastforce
    qed
    assume r: "r \<noteq> None" "ev_addRead (ac_ev c)"
    then have "process_loop os redis_user None ?c (call_addRead ?c ?s) = Some (r, s')"
      using assms(1) b by (auto simp: redisAsyncHandleRead_def redisProcessCallbacks_def bind_eq_Some_conv Let_def split: if_splits)
    then obtain c' where "quietly ?c (call_addRead ?c ?s) c' s'" using process_loop_ends r(1) by (fastforce simp: ends_def)
    then show "AddRead (ev_data (ac_ev c)) \<in> set (su_log s')" using r(2) by (auto simp: quietly_def hook_log)
  qed
qed

lemma handle_write_ends:
  assumes "redisAsyncHandleWrite os redis_user c s = Some (r, s')" and "su_log s = []"
  shows "r = None \<and> freed c s s' \<or>
    (\<exists>c' es. r = Some c' \<and> same (set_flag REDIS_CONNECTED c) c' \<and> list_all (quiet_event (ev_data (ac_ev c))) es \<and>
      (ev_addRead (ac_ev c) \<longrightarrow> AddRead (ev_data (ac_ev c)) \<in> set es) \<and>
      su_log s' = es @ (if bit (cx_flags (ac_c c)) 1 then [] else case ac_onConnect c of Some f \<Rightarrow> [OnConnect f] | None \<Rightarrow> []))"
proof -
  obtain st d cx w where b: "redisBufferWrite os (ac_c c) (su_sys s) = Some (st, d, cx, w)" using assms(1) by (auto simp: redisAsyncHandleWrite_def bind_eq_Some_conv)
  let ?c = "c\<lparr>ac_c := cx\<rparr>" and ?s = "s\<lparr>su_sys := w\<rparr>"
  note fl = buffer_write_flags [OF b]
  show ?thesis
  proof (cases "st = REDIS_ERR")
    case True
    have q: "quietly c s ?c ?s" using fl by (simp add: quietly_def same_def)
    have "freed ?c ?s s'" "r = None" using assms(1) b True async_disconnect_freed by (auto simp: redisAsyncHandleWrite_def bind_eq_Some_conv)
    then show ?thesis using quietly_freed [OF q] by simp
  next
    case False
    let ?t = "call_addRead ?c (if \<not> d then call_addWrite ?c ?s else call_delWrite ?c ?s)"
    have log: "list_all (quiet_event (ev_data (ac_ev c))) (su_log ?t)" "ev_addRead (ac_ev c) \<longrightarrow> AddRead (ev_data (ac_ev c)) \<in> set (su_log ?t)"
      using assms(2) by (simp_all add: hook_log)
    have res: "Some (r, s') = (if \<not> bit (cx_flags (ac_c c)) 1
        then Some (Some (set_flag REDIS_CONNECTED ?c), case ac_onConnect c of Some f \<Rightarrow> record_event (OnConnect f) ?t | None \<Rightarrow> ?t) else Some (Some ?c, ?t))"
      using assms(1) b False fl unfolding redisAsyncHandleWrite_def Let_def by (simp split: if_splits)
    have "same (set_flag REDIS_CONNECTED c) (set_flag REDIS_CONNECTED ?c)" "bit (cx_flags (ac_c c)) 1 \<Longrightarrow> same (set_flag REDIS_CONNECTED c) ?c"
      using fl by (simp_all add: same_def flag_simps)
    then show ?thesis using res log by (cases "bit (cx_flags (ac_c c)) 1"; cases "ac_onConnect c") (auto simp: record_event_def add_log_def)
  qed
qed

lemma command_quietly:
  assumes "redisvAsyncCommand render c fn p fmt ap s = Some (st, c', s')"
  shows "quietly c s c' s'"
proof -
  obtain cmd len where raw: "redisAsyncCommandRaw c fn p cmd len s = Some (st, c', s')" using assms by (auto simp: redisvAsyncCommand_def bind_eq_Some_conv)
  show ?thesis
  proof (cases "has_flag c (REDIS_DISCONNECTING OR REDIS_FREEING)")
    case False
    have parts: "same c (set_flag REDIS_SUBSCRIBED c\<lparr>ac_patterns := d\<rparr>)" "same c (set_flag REDIS_SUBSCRIBED c\<lparr>ac_channels := d\<rparr>)"
      "same c (c\<lparr>ac_invalid := l\<rparr>)" "same c (c\<lparr>ac_replies := l\<rparr>)" for d l
      by (simp_all add: same_def flag_simps)
    obtain b yb yc cs yd where sel: "(if yc then do {
            let ac = set_flag REDIS_SUBSCRIBED c;
            d \<leftarrow> subscribe_loop cmd b \<lparr>cb_fn = fn, cb_privdata = p\<rparr> (if yb then ac_patterns ac else ac_channels ac);
            Some (Some (if yb then ac\<lparr>ac_patterns := d\<rparr> else ac\<lparr>ac_channels := d\<rparr>)) }
          else do {
            unsub \<leftarrow> strncase_eq (drop cs cmd) (''unsubscribe'' @ CRLF);
            if unsub then Some (if has_flag c REDIS_SUBSCRIBED then Some c else None)
            else if has_flag c REDIS_SUBSCRIBED then do { l \<leftarrow> redisPushCallback \<lparr>cb_fn = fn, cb_privdata = p\<rparr> (ac_invalid c); Some (Some (c\<lparr>ac_invalid := l\<rparr>)) }
            else do { l \<leftarrow> redisPushCallback \<lparr>cb_fn = fn, cb_privdata = p\<rparr> (ac_replies c); Some (Some (c\<lparr>ac_replies := l\<rparr>)) } }) = Some yd"
        "(case yd of None \<Rightarrow> Some (REDIS_ERR, c, s)
          | Some ac \<Rightarrow> do { cx \<leftarrow> redisAppendCommandRaw (ac_c ac) cmd len; Some (REDIS_OK, ac\<lparr>ac_c := cx\<rparr>, call_addWrite (ac\<lparr>ac_c := cx\<rparr>) s) }) = Some (st, c', s')"
      using raw False unfolding redisAsyncCommandRaw_def Let_def by (clarsimp simp: bind_eq_Some_conv split del: if_split)
    have "same c x" if "yd = Some x" for x
      using sel(1) that parts by (auto simp: bind_eq_Some_conv Let_def split: if_splits)
    then show ?thesis
    proof (cases yd)
      case None
      then show ?thesis using sel(2) by simp
    next
      case (Some x)
      obtain cx where cx: "redisAppendCommandRaw (ac_c x) cmd len = Some cx" "c' = x\<lparr>ac_c := cx\<rparr>" "s' = call_addWrite c' s"
        using sel(2) Some by (auto simp: bind_eq_Some_conv)
      have "cx_flags cx = cx_flags (ac_c x)" using cx(1) by (auto simp: redisAppendCommandRaw_def bind_eq_Some_conv)
      then have "same c c'" using cx(2) \<open>\<And>x. yd = Some x \<Longrightarrow> same c x\<close> [OF Some] by (simp add: same_def)
      then show ?thesis using cx(3) by (simp add: quietly_def hook_log same_def)
    qed
  qed (use raw in \<open>simp add: redisAsyncCommandRaw_def\<close>)
qed

lemma disconnect_ends:
  assumes "redisAsyncDisconnect os redis_user c s = Some (r, s')"
  shows "ends c s r s'"
proof -
  let ?c = "set_flag REDIS_DISCONNECTING c"
  have "quietly c s ?c s" using same_flags(2) by (simp add: quietly_def)
  moreover have "ends ?c s r s'" using assms async_disconnect_freed
    by (auto simp: redisAsyncDisconnect_def Let_def bind_eq_Some_conv ends_def split: if_splits)
  ultimately show ?thesis by (rule quietly_ends)
qed

section \<open>The invariant of the wrapper\<close>

abbreviation connected :: "redisAsyncContext \<Rightarrow> bool" where
  "connected c \<equiv> bit (cx_flags (ac_c c)) 1"

definition managed :: "nat \<Rightarrow> redisAsyncContext \<Rightarrow> bool" where
  "managed a c \<longleftrightarrow> a \<noteq> 0 \<and> ac_data c = 1 \<and> ac_onDisconnect c = Some DISCONNECT_CALLBACK \<and> ac_onConnect c = Some CONNECT_CALLBACK \<and>
     ac_ev c = \<lparr>ev_data = a, ev_addRead = True, ev_delRead = True, ev_addWrite = True, ev_delWrite = True, ev_cleanup = True\<rparr>"

lemma same_managed: "same c c' \<Longrightarrow> managed a c' = managed a c"
  by (simp add: same_def managed_def)

definition listening :: "YYRedis \<Rightarrow> nat \<Rightarrow> bool" where
  "listening y a = (case yr_events y a of None \<Rightarrow> False | Some e \<Rightarrow> le_rev e)"

text \<open>A context that is not connected yet waits for its first write event and has nothing to send.\<close>

definition context_ok :: "YYRedis \<Rightarrow> nat \<Rightarrow> redisAsyncContext \<Rightarrow> bool" where
  "context_ok y a c \<longleftrightarrow> managed a c \<and> a < yr_next y \<and> yr_events y a \<noteq> None \<and>
     (if connected c then listening y a else sdslen (cx_obuf (ac_c c)) = 0 \<and> yr_events y a = Some \<lparr>le_rev = False, le_wev = True\<rparr>)"

text \<open>The pointer to the context is NULL or that of a live, connected context; every live context has its events, a
  connected one waits for input, and no event is left of a context that is gone. While the wrapper waits
  for a connection, there is a context that is not connected yet.\<close>

definition redis_inv :: "YYRedis \<Rightarrow> bool" where
  "redis_inv y \<longleftrightarrow> 0 < yr_next y \<and> (\<forall>a c. yr_contexts y a = Some c \<longrightarrow> context_ok y a c) \<and>
     (\<forall>a. yr_events y a \<noteq> None \<longrightarrow> yr_contexts y a \<noteq> None) \<and>
     (\<forall>a. yr_c y = Some a \<longrightarrow> (\<exists>c. yr_contexts y a = Some c \<and> connected c)) \<and>
     (yr_connecting y \<longrightarrow> (\<exists>a c. yr_contexts y a = Some c \<and> \<not> connected c))"

lemma redis_inv_frame [simp]:
  "redis_inv (y\<lparr>yr_base := b\<rparr>) = redis_inv y" "redis_inv (y\<lparr>yr_queue := q\<rparr>) = redis_inv y" "redis_inv (y\<lparr>yr_delayDisconnect := n\<rparr>) = redis_inv y"
  "redis_inv (Redis_Init ip port base delay y) = redis_inv y"
  by (simp_all add: redis_inv_def context_ok_def listening_def Redis_Init_def)

lemma inv_update:
  assumes "redis_inv y" and "\<And>b. b \<noteq> a \<Longrightarrow> yr_events y' b = yr_events y b \<and> yr_contexts y' b = yr_contexts y b" and "yr_next y \<le> yr_next y'"
    and "\<And>c. yr_contexts y' a = Some c \<Longrightarrow> context_ok y' a c" and "yr_events y' a \<noteq> None \<Longrightarrow> yr_contexts y' a \<noteq> None"
    and "\<And>b. yr_c y' = Some b \<Longrightarrow> b \<noteq> a \<and> yr_c y = Some b \<or> b = a \<and> (\<exists>c. yr_contexts y' a = Some c \<and> connected c)"
    and "yr_connecting y' \<Longrightarrow> yr_connecting y \<and> (\<forall>c. yr_contexts y a = Some c \<longrightarrow> connected c) \<or> (\<exists>c. yr_contexts y' a = Some c \<and> \<not> connected c)"
  shows "redis_inv y'"
proof -
  have "context_ok y' b c" if "yr_contexts y' b = Some c" for b c
  proof (cases "b = a")
    case False
    then have "yr_contexts y b = Some c" "yr_events y' b = yr_events y b" using assms(2) that by simp_all
    moreover from this(1) have "context_ok y b c" using assms(1) unfolding redis_inv_def by blast
    ultimately show ?thesis using assms(3) by (auto simp: context_ok_def listening_def)
  qed (use that assms(4) in simp)
  moreover have "yr_contexts y' b \<noteq> None" if "yr_events y' b \<noteq> None" for b
    using that assms(1,2,5) by (cases "b = a") (auto simp: redis_inv_def)
  moreover have "\<exists>c. yr_contexts y' b = Some c \<and> connected c" if "yr_c y' = Some b" for b
    using assms(6) [OF that] assms(1,2) by (auto simp: redis_inv_def)
  moreover have "0 < yr_next y'" using assms(1,3) by (simp add: redis_inv_def)
  moreover have "\<exists>b c. yr_contexts y' b = Some c \<and> \<not> connected c" if co: "yr_connecting y'"
  proof (cases "\<exists>c. yr_contexts y' a = Some c \<and> \<not> connected c")
    case False
    then obtain b c where b: "yr_contexts y b = Some c" "\<not> connected c" and old: "\<forall>c. yr_contexts y a = Some c \<longrightarrow> connected c"
      using assms(1) assms(7) [OF co] unfolding redis_inv_def by blast
    then have "b \<noteq> a" by blast
    then show ?thesis using assms(2) b by metis
  qed blast
  ultimately show ?thesis unfolding redis_inv_def by blast
qed

lemma apply_append: "apply_events t c a (xs @ ys) y = do { y \<leftarrow> apply_events t c a xs y; apply_events t c a ys y }"
proof (induction xs arbitrary: y)
  case (Cons x xs)
  show ?case using Cons.IH by (cases "apply_event t c a x y") simp_all
qed simp

lemma apply_quiet:
  "list_all (quiet_event a) es \<Longrightarrow> yr_events y a = Some e \<Longrightarrow>
    \<exists>e' calls. apply_events t c a es y = Some (y\<lparr>yr_events := (yr_events y)(a \<mapsto> e'), yr_calls := calls\<rparr>) \<and> le_rev e' = (le_rev e \<or> AddRead a \<in> set es)"
proof (induction es arbitrary: y e)
  case Nil
  then show ?case by (intro exI [of _ e] exI [of _ "yr_calls y"]) (simp add: fun_upd_idem)
next
  case (Cons x es)
  obtain calls1 e1 where one: "apply_event t c a x y = Some (y\<lparr>yr_events := (yr_events y)(a \<mapsto> e1), yr_calls := calls1\<rparr>)" "le_rev e1 = (le_rev e \<or> x = AddRead a)"
  proof (cases x)
    case (Callback f r p)
    then show thesis using that [of "yr_calls (getCallback c r p y)" e] Cons.prems by (simp add: getCallback_def fun_upd_idem)
  next
    case (AddRead d)
    then show thesis using that [of "yr_calls y" "e\<lparr>le_rev := True\<rparr>"] Cons.prems by (simp add: set_event_def)
  next
    case (AddWrite d)
    then show thesis using that [of "yr_calls y" "e\<lparr>le_wev := True\<rparr>"] Cons.prems by (simp add: set_event_def)
  next
    case (DelWrite d)
    then show thesis using that [of "yr_calls y" "e\<lparr>le_wev := False\<rparr>"] Cons.prems by (simp add: set_event_def)
  qed (use Cons.prems(1) in simp_all)
  let ?y = "y\<lparr>yr_events := (yr_events y)(a \<mapsto> e1), yr_calls := calls1\<rparr>"
  have "list_all (quiet_event a) es" "yr_events ?y a = Some e1" using Cons.prems by simp_all
  from Cons.IH [OF this] obtain e' calls where
    "apply_events t c a es ?y = Some (?y\<lparr>yr_events := (yr_events ?y)(a \<mapsto> e'), yr_calls := calls\<rparr>)" "le_rev e' = (le_rev e1 \<or> AddRead a \<in> set es)" by blast
  then have "apply_events t c a (x # es) y = Some (y\<lparr>yr_events := (yr_events y)(a \<mapsto> e'), yr_calls := calls\<rparr>)" using one(1) by simp
  moreover have "le_rev e' = (le_rev e \<or> AddRead a \<in> set (x # es))" using one(2) \<open>le_rev e' = (le_rev e1 \<or> AddRead a \<in> set es)\<close> by auto
  ultimately show ?case by blast
qed

text \<open>After a call that ends as hiredis calls do. The read event may have been removed before.\<close>

lemma after_ends:
  assumes "redis_inv y0" and "yr_contexts y0 a = Some c" and "y = y0\<lparr>yr_events := (yr_events y0)(a \<mapsto> e)\<rparr>"
    and "ends c s r s1" and "su_log s = []" and "after_call env a c r s1 y = Some (y', s')"
    and "r \<noteq> None \<Longrightarrow> le_rev e \<or> AddRead a \<in> set (su_log s1)" and "connected c"
  shows "redis_inv y' \<and> su_log s' = []"
proof -
  have m: "managed a c" "a < yr_next y0" using assms(1,2) by (auto simp: redis_inv_def context_ok_def)
  have d: "ev_data (ac_ev c) = a" "ev_cleanup (ac_ev c)" "ac_onDisconnect c = Some DISCONNECT_CALLBACK" "ac_data c = 1" using m(1) by (simp_all add: managed_def)
  have y: "yr_events y a = Some e" "yr_c y = yr_c y0" "yr_contexts y = yr_contexts y0" "yr_next y = yr_next y0" "\<And>b. b \<noteq> a \<Longrightarrow> yr_events y b = yr_events y0 b"
      "yr_connecting y = yr_connecting y0"
    by (simp_all add: assms(3))
  let ?t = "re_tick env (su_sys s1)"
  obtain y1 where y1: "apply_events ?t c a (su_log s1) y = Some y1" "y' = y1\<lparr>yr_contexts := (yr_contexts y1)(a := r)\<rparr>" "s' = s1\<lparr>su_log := []\<rparr>"
    using assms(6) by (auto simp: after_call_def bind_eq_Some_conv)
  have "redis_inv y'"
  proof (cases r)
    case (Some c')
    then obtain es where es: "su_log s1 = es" "list_all (quiet_event a) es" "same c c'" using assms(4,5) d(1) by (auto simp: ends_def quietly_def)
    obtain e' calls where q: "y1 = y\<lparr>yr_events := (yr_events y)(a \<mapsto> e'), yr_calls := calls\<rparr>" "le_rev e' = (le_rev e \<or> AddRead a \<in> set es)"
      using apply_quiet [OF es(2) y(1)] y1(1) es(1) by (metis option.inject)
    have "connected c'" using es(3) assms(8) by (simp add: same_def)
    then show ?thesis using assms(2,7,8) Some es m same_managed [OF es(3)] q(2)
      unfolding y1(2) q(1) by (intro inv_update [OF assms(1), of a]) (auto simp: y listening_def context_ok_def)
  next
    case None
    then obtain es st where es: "su_log s1 = es @ [Cleanup a] @ [OnDisconnect DISCONNECT_CALLBACK st]" "list_all (quiet_event a) es"
      using assms(4,5,8) unfolding ends_def freed_def d(1,3) using d(2) by auto
    obtain e' calls where q: "apply_events ?t c a es y = Some (y\<lparr>yr_events := (yr_events y)(a \<mapsto> e'), yr_calls := calls\<rparr>)"
      using apply_quiet [OF es(2) y(1)] by blast
    have eff: "yr_events y1 a = None" "\<And>b. b \<noteq> a \<Longrightarrow> yr_events y1 b = yr_events y b" "yr_next y1 = yr_next y" "yr_contexts y1 = yr_contexts y"
        "yr_c y1 = None" "yr_connecting y1 = yr_connecting y"
      using y1(1) q d(4) unfolding es(1) apply_append by (auto simp: disconnectCallback_def)
    show ?thesis using assms(2,8) unfolding y1(2) None by (intro inv_update [OF assms(1), of a]) (auto simp: eff y)
  qed
  then show ?thesis by (simp add: y1(3))
qed

section \<open>Every step keeps the invariant\<close>

lemma context_of:
  assumes "redis_inv y" and "yr_contexts y a = Some c"
  obtains e where "yr_events y a = Some e" "managed a c" "a < yr_next y" "connected c \<longrightarrow> le_rev e"
    "\<not> connected c \<longrightarrow> sdslen (cx_obuf (ac_c c)) = 0 \<and> e = \<lparr>le_rev = False, le_wev = True\<rparr>"
  using assms unfolding redis_inv_def context_ok_def listening_def by (fastforce split: if_splits)

lemma pointer_of:
  assumes "redis_inv y" and "yr_c y = Some a" and "yr_contexts y a = Some c"
  shows "connected c"
  using assms by (auto simp: redis_inv_def)

lemma update_self: "yr_events y a = Some e \<Longrightarrow> y = y\<lparr>yr_events := (yr_events y)(a \<mapsto> e)\<rparr>"
  by (simp add: fun_upd_idem)

lemma read_event_inv:
  assumes "redisLibeventReadEvent env a y s = Some (y', s')" and "redis_inv y" and "su_log s = []" and "yr_events y a = Some e" and "le_rev e"
  shows "redis_inv y' \<and> su_log s' = []"
proof -
  let ?y = "y\<lparr>yr_events := (yr_events y)(a \<mapsto> e\<lparr>le_rev := False\<rparr>)\<rparr>"
  obtain c r s1 where c: "yr_contexts y a = Some c" "redisAsyncHandleRead (re_os env) redis_user c s = Some (r, s1)" "after_call env a c r s1 ?y = Some (y', s')"
    using assms(1,4) by (auto simp: redisLibeventReadEvent_def set_event_def bind_eq_Some_conv)
  obtain e' where e': "yr_events y a = Some e'" "managed a c" "\<not> connected c \<longrightarrow> e' = \<lparr>le_rev = False, le_wev = True\<rparr>"
    using context_of [OF assms(2) c(1)] by blast
  then have co: "connected c" using assms(4,5) by auto
  have ev: "ev_data (ac_ev c) = a" "ev_addRead (ac_ev c)" using e'(2) by (simp_all add: managed_def)
  show ?thesis using after_ends [OF assms(2) c(1) refl handle_read_ends(1) [OF c(2) assms(3)] assms(3) c(3) _ co] handle_read_ends(2) [OF c(2) assms(3)] ev by auto
qed

text \<open>The first write event of a context completes its connection.\<close>

lemma first_write:
  assumes "redis_inv y" and "su_log s = []" and "yr_contexts y a = Some c" and "\<not> connected c"
  shows "\<exists>y' s'. redisLibeventWriteEvent env a y s = Some (y', s') \<and> redis_inv y' \<and> su_log s' = [] \<and> yr_c y' = Some a \<and> \<not> yr_connecting y'"
proof -
  let ?e = "\<lparr>le_rev = False, le_wev = False\<rparr>"
  have m: "yr_events y a = Some \<lparr>le_rev = False, le_wev = True\<rparr>" "managed a c" "a < yr_next y" "sdslen (cx_obuf (ac_c c)) = 0"
    using context_of [OF assms(1,3)] assms(4) by auto
  let ?y = "y\<lparr>yr_events := (yr_events y)(a \<mapsto> ?e)\<rparr>" and ?c = "set_flag REDIS_CONNECTED c"
  have h: "redisAsyncHandleWrite (re_os env) redis_user c s = Some (Some ?c, s\<lparr>su_log := [DelWrite a, AddRead a, OnConnect CONNECT_CALLBACK]\<rparr>)"
    using m(2,4) assms(2,4) unfolding redisAsyncHandleWrite_def
    by (simp add: redisBufferWrite_def call_delWrite_def call_addRead_def record_event_def add_log_def managed_def REDIS_OK_def REDIS_ERR_def)
  let ?y1 = "y\<lparr>yr_events := (yr_events y)(a \<mapsto> \<lparr>le_rev = True, le_wev = False\<rparr>), yr_c := Some a, yr_connecting := False, yr_contexts := (yr_contexts y)(a \<mapsto> ?c)\<rparr>"
  have "after_call env a c (Some ?c) (s\<lparr>su_log := [DelWrite a, AddRead a, OnConnect CONNECT_CALLBACK]\<rparr>) ?y = Some (?y1, s\<lparr>su_log := []\<rparr>)"
    using m(2) by (simp add: after_call_def set_event_def connectCallback_def managed_def)
  then have "redisLibeventWriteEvent env a y s = Some (?y1, s\<lparr>su_log := []\<rparr>)"
    using m(1) assms(3) h by (simp add: redisLibeventWriteEvent_def set_event_def)
  moreover have "connected ?c" "managed a ?c" using m(2) by (simp_all add: flag_simps managed_def)
  then have "redis_inv ?y1" using m(3) by (intro inv_update [OF assms(1), of a]) (auto simp: context_ok_def listening_def)
  ultimately show ?thesis by auto
qed

lemma write_event_inv:
  assumes "redisLibeventWriteEvent env a y s = Some (y', s')" and "redis_inv y" and "su_log s = []" and "yr_events y a = Some e"
  shows "redis_inv y' \<and> su_log s' = []"
proof -
  let ?y = "y\<lparr>yr_events := (yr_events y)(a \<mapsto> e\<lparr>le_wev := False\<rparr>)\<rparr>"
  obtain c r s1 where c: "yr_contexts y a = Some c" "redisAsyncHandleWrite (re_os env) redis_user c s = Some (r, s1)" "after_call env a c r s1 ?y = Some (y', s')"
    using assms(1,4) by (auto simp: redisLibeventWriteEvent_def set_event_def bind_eq_Some_conv)
  show ?thesis
  proof (cases "connected c")
    case True
    have rev: "le_rev e" using context_of [OF assms(2) c(1)] True assms(4) by auto
    have "ends c s r s1"
      using handle_write_ends [OF c(2) assms(3)] True assms(3)
      by (auto simp: ends_def quietly_def same_def flag_simps)
    from after_ends [OF assms(2) c(1) refl this assms(3) c(3) _ True] rev show ?thesis by simp
  next
    case False
    from first_write [OF assms(2,3) c(1) False, of env] assms(1) show ?thesis by auto
  qed
qed

subsection \<open>Connecting\<close>

lemma set_error_obuf: "redisSetError os c e t w = Some c' \<Longrightarrow> cx_obuf c' = cx_obuf c"
  by (auto simp: redisSetError_def bind_eq_Some_conv Let_def split: option.splits if_splits)

lemma set_text_obuf: "set_error_text os c e t w = Some c' \<Longrightarrow> cx_obuf c' = cx_obuf c"
  by (auto simp: set_error_text_def bind_eq_Some_conv dest: set_error_obuf)

lemma connect_obuf:
  assumes "redisContextConnectTcp os c addr port timeout w = Some (st, c', w')"
  shows "cx_obuf c' = cx_obuf c"
proof -
  have cs: "cx_obuf c' = cx_obuf c" if "redisCreateSocket os c AF_INET w = Some (s, c', w')" for s c' w w' and c :: redisContext
    using that by (auto simp: redisCreateSocket_def bind_eq_Some_conv split_def Let_def dest!: set_error_obuf set_text_obuf split: option.splits if_splits)
  have nd: "cx_obuf c' = cx_obuf c" if "redisSetTcpNoDelay os c s w = Some (st, c', w')" for s st c' w w' and c :: redisContext
    using that by (auto simp: redisSetTcpNoDelay_def bind_eq_Some_conv split_def Let_def dest!: set_text_obuf split: if_splits)
  have wr: "cx_obuf c' = cx_obuf c" if "redisContextWaitReady os c s t w = Some (st, c', w')" for s t st c' w w' and c :: redisContext
    using that by (auto simp: redisContextWaitReady_def bind_eq_Some_conv split_def Let_def dest!: set_error_obuf set_text_obuf split: option.splits if_splits)
  have cw: "cx_obuf c' = cx_obuf c" if "connect_wait os c s a p b t w = Some (st, c', w')" for s a p b t st c' w w' and c :: redisContext
    using that by (auto simp: connect_wait_def split_def Let_def dest!: wr split: if_splits)
  obtain s c1 w1 where c1: "redisCreateSocket os c AF_INET w = Some (s, c1, w1)" using assms by (auto simp: redisContextConnectTcp_def bind_eq_Some_conv)
  show ?thesis
  proof (cases "s < 0")
    case False
    obtain st2 c2 w2 where c2: "redisSetTcpNoDelay os c1 s w1 = Some (st2, c2, w2)"
      using assms c1 False by (auto simp: redisContextConnectTcp_def bind_eq_Some_conv)
    obtain ad w3 where ad: "resolve_host os addr w2 = (ad, w3)" by fastforce
    show ?thesis using assms c1 False c2 ad cs [OF c1] nd [OF c2]
      by (cases ad) (auto simp: redisContextConnectTcp_def bind_eq_Some_conv Let_def dest!: set_text_obuf cw split: if_splits)
  qed (use assms c1 cs [OF c1] in \<open>simp add: redisContextConnectTcp_def\<close>)
qed

lemma new_context:
  assumes "redisAsyncConnect os ip port w = Some (c, w')"
  shows "\<not> connected c" "sdslen (cx_obuf (ac_c c)) = 0" "ac_ev c = no_hooks" "ac_onDisconnect c = None" "ac_onConnect c = None"
proof -
  obtain c0 c1 st where c0: "init_mode False = Some c0" "redisContextConnectTcp os c0 ip port None w = Some (st, c1, w')" "c = redisAsyncCopyError (redisAsyncInitialize c1)"
    using assms by (auto simp: redisAsyncConnect_def redisConnectNonBlock_def bind_eq_Some_conv)
  have "cx_obuf c1 = sds_of [] []" using connect_obuf [OF c0(2)] c0(1) by (auto simp: init_mode_def redisContextInit_def sdsempty_eq)
  then show "\<not> connected c" "sdslen (cx_obuf (ac_c c)) = 0" "ac_ev c = no_hooks" "ac_onDisconnect c = None" "ac_onConnect c = None"
    unfolding c0(3) by (simp_all add: redisAsyncCopyError_def redisAsyncInitialize_def flag_simps)
qed

lemma connect_inv:
  assumes "Redis_Connect env y s = Some (ok, y', s')" and "redis_inv y" and "su_log s = []"
  shows "redis_inv y' \<and> su_log s' = []"
proof -
  obtain cl where cl: "(case yr_c y of None \<Rightarrow> Some False | Some a \<Rightarrow> do { c \<leftarrow> yr_contexts y a; Some (has_flag c (REDIS_DISCONNECTING OR REDIS_FREEING)) }) = Some cl"
    using assms(1) by (auto simp: Redis_Connect_def bind_eq_Some_conv)
  let ?t = "re_tick env (su_sys s)" and ?a = "yr_next y"
  show ?thesis
  proof (cases "yr_connecting y \<or> cl \<or> yr_delayDisconnect y \<noteq> 0 \<and> (int ?t - int (yr_delayDisconnect y)) mod 2 ^ 32 < int (yr_delayConnectTime y)")
    case True
    then have "y' = y" "s' = s" using assms(1) cl unfolding Redis_Connect_def Let_def by (auto split: if_splits)
    then show ?thesis using assms(2,3) by simp
  next
    case False
    obtain c w where c: "redisAsyncConnect (re_os env) (yr_ip y) (int (yr_port y)) (su_sys s) = Some (c, w)"
      using assms(1) cl False by (auto simp: Redis_Connect_def bind_eq_Some_conv Let_def)
    show ?thesis
    proof (cases "ac_err c = 0")
      case err: False
      then have "y' = y\<lparr>yr_delayDisconnect := ?t\<rparr>" "s' = s\<lparr>su_sys := w\<rparr>" using assms(1) cl False c unfolding Redis_Connect_def Let_def by (auto split: if_splits)
      then show ?thesis using assms(2,3) by simp
    next
      case ok: True
      note nc = new_context [OF c]
      let ?c = "c\<lparr>ac_data := 1, ac_ev := \<lparr>ev_data = ?a, ev_addRead = True, ev_delRead = True, ev_addWrite = True, ev_delWrite = True, ev_cleanup = True\<rparr>,
        ac_onConnect := Some CONNECT_CALLBACK, ac_onDisconnect := Some DISCONNECT_CALLBACK\<rparr>"
      let ?y = "y\<lparr>yr_delayDisconnect := ?t, yr_connecting := True, yr_next := ?a + 1, yr_events := (yr_events y)(?a \<mapsto> \<lparr>le_rev = False, le_wev = True\<rparr>),
        yr_contexts := (yr_contexts y)(?a \<mapsto> ?c)\<rparr>"
      have res: "y' = ?y" "su_log s' = []"
        using assms(1,3) cl False c ok nc(3-5) unfolding Redis_Connect_def Let_def
        by (auto simp: redisLibeventAttach_def no_hooks_def redisAsyncSetConnectCallback_def redisAsyncSetDisconnectCallback_def call_addWrite_def record_event_def
            add_log_def after_call_def set_event_def split: if_splits)
      have "yr_contexts y ?a = None" using assms(2) unfolding redis_inv_def context_ok_def by (metis less_irrefl not_None_eq)
      moreover have "0 < ?a" "\<not> connected ?c" "sdslen (cx_obuf (ac_c ?c)) = 0" using assms(2) nc(1,2) by (simp_all add: redis_inv_def)
      moreover have "yr_c y \<noteq> Some ?a" using calculation(1) assms(2) by (auto simp: redis_inv_def)
      ultimately have "redis_inv ?y" by (intro inv_update [OF assms(2), of ?a]) (auto simp: context_ok_def managed_def)
      then show ?thesis using res by simp
    qed
  qed
qed

lemma close_inv:
  assumes "Redis_Close env y s = Some (y', s')" and "redis_inv y" and "su_log s = []"
  shows "redis_inv y' \<and> su_log s' = []"
proof (cases "yr_c y")
  case (Some a)
  let ?y = "y\<lparr>yr_base := False\<rparr>"
  obtain c r s1 where c: "yr_contexts y a = Some c" "redisAsyncDisconnect (re_os env) redis_user c s = Some (r, s1)" "after_call env a c r s1 ?y = Some (y', s')"
    using assms(1) Some by (auto simp: Redis_Close_def bind_eq_Some_conv)
  have co: "connected c" using pointer_of [OF assms(2) Some c(1)] .
  obtain e where e: "yr_events y a = Some e" "le_rev e" using context_of [OF assms(2) c(1)] co by blast
  have "?y = ?y\<lparr>yr_events := (yr_events ?y)(a \<mapsto> e)\<rparr>" using e(1) by (intro update_self) simp
  from after_ends [OF _ _ this disconnect_ends [OF c(2)] assms(3) c(3)] show ?thesis using assms(2) c(1) e(2) co by simp
qed (use assms in \<open>auto simp: Redis_Close_def\<close>)

lemma receive_inv:
  assumes "Redis_queue_receive env flag y s = Some (y', s')" and "redis_inv y" and "su_log s = []"
  shows "redis_inv y' \<and> su_log s' = []"
proof (cases "flag = REDIS_EVENT_FLAG")
  case True
  obtain st y1 s1 where one: "(case yr_c y of
             Some a \<Rightarrow>
               if yr_base y then do {
                 let (token, q) = LockQueue_pop (yr_queue y);
                 let y = y\<lparr>yr_queue := q\<rparr>;
                 c \<leftarrow> yr_contexts y a;
                 (st, c', s) \<leftarrow> redisvAsyncCommand (re_render env) c (Some GET_CALLBACK) (qi_privdata token) (c_literal (qi_format token)) [] s;
                 (y, s) \<leftarrow> after_call env a c (Some c') s y;
                 Some (st, y, s) }
               else Some (REDIS_ERR, y, s)
           | None \<Rightarrow> Some (REDIS_ERR, y, s)) = Some (st, y1, s1)"
      "(if st \<noteq> REDIS_OK \<and> yr_base y1 then do { (ok, y, s) \<leftarrow> Redis_Connect env y1 s1; Some (y, s) } else Some (y1, s1)) = Some (y', s')"
    using assms(1) True by (auto simp: Redis_queue_receive_def bind_eq_Some_conv)
  have inv1: "redis_inv y1 \<and> su_log s1 = []"
  proof (cases "yr_c y = None \<or> \<not> yr_base y")
    case True
    then show ?thesis using one(1) assms(2,3) by (auto split: option.splits)
  next
    case False
    then obtain a where a: "yr_c y = Some a" "yr_base y" by auto
    obtain token q where q: "LockQueue_pop (yr_queue y) = (token, q)" by fastforce
    let ?y = "y\<lparr>yr_queue := q\<rparr>"
    obtain c c' s2 where c: "yr_contexts y a = Some c" "redisvAsyncCommand (re_render env) c (Some GET_CALLBACK) (qi_privdata token) (c_literal (qi_format token)) [] s = Some (st, c', s2)"
        "after_call env a c (Some c') s2 ?y = Some (y1, s1)"
      using one(1) a q by (auto simp: bind_eq_Some_conv)
    have co: "connected c" using pointer_of [OF assms(2) a(1) c(1)] .
    obtain e where e: "yr_events y a = Some e" "le_rev e" using context_of [OF assms(2) c(1)] co by blast
    have "?y = ?y\<lparr>yr_events := (yr_events ?y)(a \<mapsto> e)\<rparr>" using e(1) by (intro update_self) simp
    moreover have "ends c s (Some c') s2" using command_quietly [OF c(2)] by (simp add: ends_def)
    ultimately show ?thesis using after_ends [of ?y a c ?y e s "Some c'" s2 env y1 s1] assms(2,3) c(1,3) e(2) co by simp
  qed
  then show ?thesis using one(2) connect_inv [of env y1 s1] by (auto simp: bind_eq_Some_conv split: if_splits)
qed (use assms in \<open>simp add: Redis_queue_receive_def\<close>)

text \<open>What can happen to the wrapper, in any order: its calls, an item put into its queue, the events of its
  contexts that are registered, and changes of the system.\<close>

inductive redis_step :: "'w redis_env \<Rightarrow> 'w redis_state \<Rightarrow> 'w redis_state \<Rightarrow> bool" for env :: "'w redis_env" where
  init: "redis_step env (y, s) (Redis_Init ip port base delay y, s)"
| connect: "Redis_Connect env y s = Some (ok, z) \<Longrightarrow> redis_step env (y, s) z"
| close: "Redis_Close env y s = Some z \<Longrightarrow> redis_step env (y, s) z"
| push: "redis_step env (y, s) (y\<lparr>yr_queue := LockQueue_push item (yr_queue y)\<rparr>, s)"
| receive: "Redis_queue_receive env flag y s = Some z \<Longrightarrow> redis_step env (y, s) z"
| read_event: "yr_events y a = Some e \<Longrightarrow> le_rev e \<Longrightarrow> redisLibeventReadEvent env a y s = Some z \<Longrightarrow> redis_step env (y, s) z"
| write_event: "yr_events y a = Some e \<Longrightarrow> le_wev e \<Longrightarrow> redisLibeventWriteEvent env a y s = Some z \<Longrightarrow> redis_step env (y, s) z"
| world: "redis_step env (y, s) (y, s\<lparr>su_sys := w\<rparr>)"

lemma redis_step_inv: "redis_step env z z' \<Longrightarrow> redis_inv (fst z) \<Longrightarrow> su_log (snd z) = [] \<Longrightarrow> redis_inv (fst z') \<and> su_log (snd z') = []"
proof (induction rule: redis_step.induct)
  case (connect y s ok z)
  then show ?case using connect_inv [of env y s ok "fst z" "snd z"] by simp
next
  case (close y s z)
  then show ?case using close_inv [of env y s "fst z" "snd z"] by simp
next
  case (receive flag y s z)
  then show ?case using receive_inv [of env flag y s "fst z" "snd z"] by simp
next
  case (read_event y a e s z)
  then show ?case using read_event_inv [of env a y s "fst z" "snd z" e] by simp
next
  case (write_event y a e s z)
  then show ?case using write_event_inv [of env a y s "fst z" "snd z" e] by simp
qed simp_all

lemma redis_steps_inv: "(redis_step env)\<^sup>*\<^sup>* z z' \<Longrightarrow> redis_inv (fst z) \<Longrightarrow> su_log (snd z) = [] \<Longrightarrow> redis_inv (fst z') \<and> su_log (snd z') = []"
  by (induction rule: rtranclp_induct) (auto dest: redis_step_inv)

lemma new_redis_inv [simp]: "redis_inv new_YYRedis"
  by (simp add: redis_inv_def new_YYRedis_def)

section \<open>Properties\<close>

text \<open>
  C32 (invariant). In every order of calls and events the wrapper's pointer is NULL or points to a live context that is
  connected; every event that is registered belongs to a live context; and a connected context is
  always registered for input, so that no reply is left unread.
\<close>

theorem redis_pointer_safe:
  assumes "(redis_step env)\<^sup>*\<^sup>* (new_YYRedis, s0) (y, s)" and "su_log s0 = []"
  shows "(\<forall>a. yr_c y = Some a \<longrightarrow> (\<exists>c. yr_contexts y a = Some c \<and> has_flag c REDIS_CONNECTED)) \<and> dom (yr_events y) = dom (yr_contexts y) \<and>
    (\<forall>a c. yr_contexts y a = Some c \<longrightarrow> has_flag c REDIS_CONNECTED \<longrightarrow> (\<exists>e. yr_events y a = Some e \<and> le_rev e))"
proof -
  have inv: "redis_inv y" using redis_steps_inv [OF assms(1)] assms(2) by simp
  have "dom (yr_events y) = dom (yr_contexts y)" using inv unfolding redis_inv_def context_ok_def by blast
  moreover have "\<exists>e. yr_events y a = Some e \<and> le_rev e" if "yr_contexts y a = Some c" "has_flag c REDIS_CONNECTED" for a c
    using context_of [OF inv that(1)] that(2) by (metis has_flag_bit(1))
  ultimately show ?thesis using inv unfolding redis_inv_def has_flag_bit by blast
qed

text \<open>
  C33 (liveness). While the wrapper waits for a connection (and refuses to start another one), the write event that completes
  it is registered, and this event gives the wrapper its context: the wrapper never waits for an event that cannot come.
\<close>

theorem redis_connects:
  assumes "(redis_step env)\<^sup>*\<^sup>* (new_YYRedis, s0) (y, s)" and "su_log s0 = []" and "yr_connecting y"
  shows "\<exists>a e y' s'. yr_events y a = Some e \<and> le_wev e \<and> redisLibeventWriteEvent env a y s = Some (y', s') \<and> yr_c y' = Some a \<and> \<not> yr_connecting y'"
proof -
  have inv: "redis_inv y" "su_log s = []" using redis_steps_inv [OF assms(1)] assms(2) by simp_all
  obtain a c where c: "yr_contexts y a = Some c" "\<not> connected c" using inv(1) assms(3) unfolding redis_inv_def by blast
  have "yr_events y a = Some \<lparr>le_rev = False, le_wev = True\<rparr>" by (rule context_of [OF inv(1) c(1)]) (use c(2) in auto)
  then show ?thesis using first_write [OF inv c, of env] by fastforce
qed

text \<open>A wrapper that has started to connect, on a system where every call succeeds.\<close>

definition demo_redis_env :: "nat list redis_env" where
  "demo_redis_env = \<lparr>re_os = calm_os, re_tick = (\<lambda>w. 5), re_render = (\<lambda>f a. None)\<rparr>"

definition demo_around :: "nat list surroundings" where
  "demo_around = \<lparr>su_heap = empty_heap, su_sys = \<lparr>sy_errno = 0, sy_world = []\<rparr>, su_log = []\<rparr>"

definition calm :: "'w os_api \<Rightarrow> bool" where
  "calm os \<longleftrightarrow> os_socket os = (\<lambda>t w. (Some 100, w)) \<and> os_setsockopt os = (\<lambda>s o' w. (True, w)) \<and> os_inet_addr os = (\<lambda>a. 16777343) \<and>
     os_connect os = (\<lambda>s a p w. (True, w))"

lemma calm_tcp: "calm os \<Longrightarrow> redisContextConnectTcp os c a p None w = Some (REDIS_OK, c\<lparr>cx_fd := 100, cx_flags := cx_flags c OR REDIS_CONNECTED\<rparr>, w)"
  by (simp add: redisContextConnectTcp_def calm_def redisCreateSocket_def redisSetTcpNoDelay_def resolve_host_def INADDR_NONE_def
      INADDR_ANY_def connect_wait_def c_int_id c_size_t_def REDIS_OK_def AF_INET_def)

lemma calm_async: "calm os \<Longrightarrow> \<exists>c. redisAsyncConnect os a p w = Some (c, w) \<and> ac_err c = 0 \<and> ac_ev c = no_hooks \<and> ac_onConnect c = None \<and> ac_onDisconnect c = None"
  by (simp add: redisAsyncConnect_def redisConnectNonBlock_def init_mode_def redisContextInit_def sdsempty_eq calm_tcp
      redisAsyncCopyError_def redisAsyncInitialize_def)

lemma calm_connect:
  assumes "calm (re_os env)" and "yr_c y = None" and "\<not> yr_connecting y" and "yr_delayDisconnect y = 0" and "su_log s = []"
  shows "\<exists>y'. Redis_Connect env y s = Some (True, y', s) \<and> yr_connecting y' \<and> yr_contexts y' (yr_next y) \<noteq> None"
proof -
  obtain c where c: "redisAsyncConnect (re_os env) (yr_ip y) (int (yr_port y)) (su_sys s) = Some (c, su_sys s)" "ac_err c = 0" "ac_ev c = no_hooks"
      "ac_onConnect c = None" "ac_onDisconnect c = None"
    using calm_async [OF assms(1)] by blast
  have s: "s\<lparr>su_log := []\<rparr> = s" using assms(5) by simp
  show ?thesis using c assms(2-5) s unfolding Redis_Connect_def
    by (simp add: redisLibeventAttach_def redisAsyncSetConnectCallback_def redisAsyncSetDisconnectCallback_def no_hooks_def call_addWrite_def
        record_event_def add_log_def after_call_def set_event_def Let_def)
qed

lemma demo_connecting:
  obtains y s where "(redis_step demo_redis_env)\<^sup>*\<^sup>* (new_YYRedis, demo_around) (y, s)" "yr_connecting y" "yr_contexts y 1 \<noteq> None"
proof -
  obtain y where r: "Redis_Connect demo_redis_env new_YYRedis demo_around = Some (True, y, demo_around)" "yr_connecting y" "yr_contexts y 1 \<noteq> None"
    using calm_connect [of demo_redis_env new_YYRedis demo_around]
    by (auto simp: demo_redis_env_def demo_around_def new_YYRedis_def calm_def calm_os_def)
  have "redis_step demo_redis_env (new_YYRedis, demo_around) (y, demo_around)" using redis_step.connect [OF r(1)] by simp
  then show thesis using that r(2,3) by blast
qed

theorem redis_connects_witness:
  "\<exists>a y y' s s'. yr_connecting y \<and> redisLibeventWriteEvent demo_redis_env a y s = Some (y', s') \<and> yr_c y' = Some a \<and> \<not> yr_connecting y'"
proof -
  obtain y s where "(redis_step demo_redis_env)\<^sup>*\<^sup>* (new_YYRedis, demo_around) (y, s)" "yr_connecting y" by (rule demo_connecting)
  moreover from redis_connects [OF this(1) _ this(2)]
  obtain a e y' s' where "redisLibeventWriteEvent demo_redis_env a y s = Some (y', s')" "yr_c y' = Some a" "\<not> yr_connecting y'"
    by (auto simp: demo_around_def)
  ultimately show ?thesis by blast
qed

theorem redis_pointer_safe_witness:
  "\<exists>y s. (redis_step demo_redis_env)\<^sup>*\<^sup>* (new_YYRedis, demo_around) (y, s) \<and> yr_contexts y 1 \<noteq> None \<and> yr_events y 1 \<noteq> None"
proof -
  obtain y s where r: "(redis_step demo_redis_env)\<^sup>*\<^sup>* (new_YYRedis, demo_around) (y, s)" "yr_contexts y 1 \<noteq> None" by (rule demo_connecting)
  have "dom (yr_events y) = dom (yr_contexts y)" using redis_pointer_safe [OF r(1)] by (simp add: demo_around_def)
  then have "yr_events y 1 \<noteq> None" using r(2) by (auto simp: dom_def set_eq_iff)
  then show ?thesis using r by blast
qed

end
