(* ===== verification/Server.thy ===== *)
theory Server
  imports EventProps JsonProps Mysql Redis
begin

text \<open>
  The message server: \<open>src/yymm_svr/yymms_svr.cpp\<close> (set-up, handing of received data to workers),
  \<open>src/yymm_svr/cmdproc.cpp\<close> (the commands of the clients) and \<open>src/yymm_svr/mmsexecmag.cpp\<close> (the helper
  processes that play the media).

  The state of the server is the owner's state of the event loop. The data of a logged-in client is a shared
  object: the map by connection and the map by user refer to it by its address. Releasing these objects when the
  last reference goes is not modelled. The wrapper of the connection to Redis is a member; reply objects live in a
  store of their own. OpenSSL, the JSON library, MySQL, the clock, random bytes and starting a
  process are parameters.
\<close>

section \<open>Data\<close>

record 'key Item_data =
  it_fd :: int
  it_readbuffer :: "fastbuffer option"
  it_yyID :: nat
  it_uid :: nat
  it_account :: string
  it_pwd :: string
  it_loginTime :: nat
  it_channelID :: nat
  it_subChannelID :: nat
  it_url :: string
  it_shellClient_fd :: int
  it_aes :: 'key
  it_token :: string
  it_rsaStr :: string
  it_rsa :: "'key option"

record thread_data =
  td_sem :: nat
  td_exitflag :: bool
  td_index :: int

record BossInfo =
  bi_buf :: "fastbuffer option"
  bi_fd :: int
  bi_port :: nat

record 'key MmsServer =
  sv_threadnum :: int
  sv_items :: "nat \<rightharpoonup> 'key Item_data"
  sv_next :: nat
  sv_states :: "(int, nat option) hash_map_lock"
  sv_userData :: "(nat, nat option) hash_map_lock"
  sv_jobs :: "(BossInfo, nat option) Bossmultiworker"
  sv_threads :: "nat \<rightharpoonup> thread_data"
  sv_parent :: bool
  sv_redis :: YYRedis
  sv_heap :: reply_heap

type_synonym ('key, 'w) server = "('key MmsServer, 'w) yylibevent"

record ('key, 'w) svr_env =
  se_os :: "'w os_api"
  se_accept :: "int \<Rightarrow> 'w sys \<Rightarrow> int \<times> 'w sys"
  se_listen :: "bool \<Rightarrow> nat \<Rightarrow> 'w sys \<Rightarrow> int \<times> bool \<times> bool \<times> 'w sys"
  se_socketpair :: "'w sys \<Rightarrow> (int \<times> int) option \<times> 'w sys"
  se_base :: bool
  se_avail :: "nat \<Rightarrow> bool"
  se_events :: "'w sys \<Rightarrow> bool \<times> bool"
  se_lib :: "'key crypto_lib"
  se_json :: json_lib
  se_rsa_key :: "string \<Rightarrow> 'key option"
  se_aes_key :: "string \<Rightarrow> 'key"
  se_zero_key :: 'key
  se_rand :: "nat \<Rightarrow> 'w sys \<Rightarrow> string \<times> 'w sys"
  se_tick :: "'w sys \<Rightarrow> nat"
  se_block :: string
  se_mysql :: "'w sys mysql_api"
  se_module :: string
  se_exec :: "string \<Rightarrow> string \<Rightarrow> 'w sys \<Rightarrow> 'w sys"
  se_port :: nat
  se_mangport :: nat
  se_redis_IP :: string
  se_redis_Port :: nat
  se_render :: "string \<Rightarrow> va_args \<Rightarrow> string option"

text \<open>The connections of the constructors.\<close>

definition new_Item_data :: "('key, 'w) svr_env \<Rightarrow> 'key Item_data" where
  "new_Item_data env =
     \<lparr>it_fd = 0, it_readbuffer = None, it_yyID = 0, it_uid = 0, it_account = [], it_pwd = [], it_loginTime = 0, it_channelID = 0,
      it_subChannelID = 0, it_url = [], it_shellClient_fd = 0, it_aes = se_zero_key env, it_token = [], it_rsaStr = [], it_rsa = None\<rparr>"

definition isConnectShellClient :: "'key Item_data \<Rightarrow> bool" where
  "isConnectShellClient state \<longleftrightarrow> it_shellClient_fd state \<noteq> 0"

definition new_thread_data :: thread_data where
  "new_thread_data = \<lparr>td_sem = 0, td_exitflag = False, td_index = - 1\<rparr>"

definition new_BossInfo :: BossInfo where
  "new_BossInfo = \<lparr>bi_buf = None, bi_fd = 0, bi_port = 0\<rparr>"

definition new_MmsServer :: "'key MmsServer" where
  "new_MmsServer = \<lparr>sv_threadnum = 0, sv_items = Map.empty, sv_next = 1, sv_states = new_hash_map None, sv_userData = new_hash_map None,
     sv_jobs = \<lparr>bw_workers = [], bw_def = new_BossInfo, bw_touch = None\<rparr>, sv_threads = Map.empty, sv_parent = False,
     sv_redis = new_YYRedis, sv_heap = \<lparr>hp_cells = (\<lambda>a. None), hp_next = 1\<rparr>\<rparr>"

section \<open>Handing data to the workers\<close>

text \<open>The remainder in C, which has the sign of the dividend; dividing by 0 is a fault.\<close>

definition c_rem :: "int \<Rightarrow> int \<Rightarrow> int option" where
  "c_rem a b = (if b = 0 then None else Some (if 0 \<le> a then a mod \<bar>b\<bar> else - (- a mod \<bar>b\<bar>)))"

text \<open>\<open>data_receive\<close>: the job is put into the queue of the connection's worker, then the worker is woken.\<close>

definition receive_push :: "int \<Rightarrow> fastbuffer \<Rightarrow> nat \<Rightarrow> 'key MmsServer \<Rightarrow> (int \<times> 'key MmsServer) option" where
  "receive_push fd readbuffer listen_port s = do {
     let info = \<lparr>bi_buf = Some readbuffer, bi_fd = fd, bi_port = listen_port\<rparr>;
     threadid \<leftarrow> c_rem fd (sv_threadnum s);
     assert_c (0 \<le> threadid \<and> threadid < sv_threadnum s);
     jobs \<leftarrow> PushJob threadid info (sv_jobs s);
     Some (threadid, s\<lparr>sv_jobs := jobs\<rparr>) }"

definition sem_post :: "nat \<Rightarrow> 'key MmsServer \<Rightarrow> 'key MmsServer option" where
  "sem_post i s = do {
     d \<leftarrow> sv_threads s i;
     Some (s\<lparr>sv_threads := (sv_threads s)(i \<mapsto> d\<lparr>td_sem := td_sem d + 1\<rparr>)\<rparr>) }"

definition receive_post :: "int \<Rightarrow> 'key MmsServer \<Rightarrow> 'key MmsServer option" where
  "receive_post threadid s = do {
     data \<leftarrow> GetWorkerTouch threadid (sv_jobs s);
     (case data of None \<Rightarrow> Some s | Some i \<Rightarrow> sem_post i s) }"

definition data_receive :: "int \<Rightarrow> fastbuffer option \<Rightarrow> nat \<Rightarrow> 'key MmsServer \<Rightarrow> (bool \<times> 'key MmsServer) option" where
  "data_receive fd readbuffer listen_port s =
     (case readbuffer of
        None \<Rightarrow> Some (True, s)
      | Some rb \<Rightarrow> do {
          (threadid, s) \<leftarrow> receive_push fd rb listen_port s;
          s \<leftarrow> receive_post threadid s;
          Some (False, s) })"

text \<open>A client that closes its connection without logging out is logged out by a command made up for it.\<close>

definition fd_close :: "('key, 'w) svr_env \<Rightarrow> int \<Rightarrow> 'key MmsServer \<Rightarrow> 'key MmsServer option" where
  "fd_close env fd s =
     (case get_state fd (sv_states s) of
        None \<Rightarrow> Some s
      | Some a \<Rightarrow> do {
          state \<leftarrow> sv_items s a;
          str \<leftarrow> FormatCmd (se_lib env) (Logout \<lparr>lo_yyID = Some (it_yyID state)\<rparr>) [];
          (n, b) \<leftarrow> fastbuffer_append (se_avail env) (Some (c_literal str)) (length str) new_fastbuffer;
          (keep, s) \<leftarrow> data_receive fd (Some b) (se_port env) s;
          Some s })"

text \<open>A call of the wrapper of Redis, which is also a handler of queue events.\<close>

definition svr_redis :: "('key, 'w) svr_env \<Rightarrow> 'w redis_env" where
  "svr_redis env = \<lparr>re_os = se_os env, re_tick = se_tick env, re_render = se_render env\<rparr>"

definition with_redis :: "(YYRedis \<Rightarrow> 'w surroundings \<Rightarrow> 'w redis_state option) \<Rightarrow> 'key MmsServer \<Rightarrow> 'w sys \<Rightarrow> ('key MmsServer \<times> 'w sys) option" where
  "with_redis f s w = do {
     (y, su) \<leftarrow> f (sv_redis s) \<lparr>su_heap = sv_heap s, su_sys = w, su_log = []\<rparr>;
     Some (s\<lparr>sv_redis := y, sv_heap := su_heap su\<rparr>, su_sys su) }"

definition svr_queue_receive :: "('key, 'w) svr_env \<Rightarrow> char \<Rightarrow> 'key MmsServer \<Rightarrow> 'w sys \<Rightarrow> ('key MmsServer \<times> 'w sys) option" where
  "svr_queue_receive env flag = with_redis (Redis_queue_receive (svr_redis env) flag)"

text \<open>The server as the owner of the event loop.\<close>

definition svr_events :: "('key, 'w) svr_env \<Rightarrow> ('key MmsServer, 'w) ev_env" where
  "svr_events env =
     \<lparr>en_os = se_os env, en_accept = se_accept env, en_listen = se_listen env, en_socketpair = se_socketpair env, en_base = se_base env,
      en_avail = se_avail env, en_events = se_events env,
      en_data_receive = (\<lambda>fd rb port s. data_receive fd (Some rb) port s), en_fd_close = fd_close env, en_queue_receive = (\<lambda>i. svr_queue_receive env)\<rparr>"

section \<open>Commands\<close>

definition get_item :: "nat \<Rightarrow> ('key, 'w) server \<Rightarrow> 'key Item_data option" where
  "get_item a e = sv_items (ev_client e) a"

definition set_item :: "nat \<Rightarrow> 'key Item_data \<Rightarrow> ('key, 'w) server \<Rightarrow> ('key, 'w) server" where
  "set_item a state e = e\<lparr>ev_client := (ev_client e)\<lparr>sv_items := (sv_items (ev_client e))(a \<mapsto> state)\<rparr>\<rparr>"

definition sendCmd :: "('key, 'w) svr_env \<Rightarrow> int \<Rightarrow> YYJ \<Rightarrow> ('key, 'w) server \<Rightarrow> (bool \<times> ('key, 'w) server) option" where
  "sendCmd env fd cmd e = do {
     str \<leftarrow> FormatCmd (se_lib env) cmd [];
     if length str = 0 then Some (False, e)
     else do {
       (n, b) \<leftarrow> fastbuffer_append (se_avail env) (Some (c_literal str)) (length str) new_fastbuffer;
       Some (True, data_send (svr_events env) fd (Some b) WRITE_EVENT_FLAG e) } }"

subsection \<open>Helper processes\<close>

text \<open>The directory of the program: the path up to its last backslash.\<close>

fun strip_name :: "string \<Rightarrow> nat \<Rightarrow> string" where
  "strip_name s p = (if p = 0 \<or> CHR 0x5C \<in> set (drop p s) then take p s else strip_name s (p - 1))"

declare strip_name.simps [simp del]

definition ShellExec :: "('key, 'w) svr_env \<Rightarrow> nat \<Rightarrow> ('key, 'w) server \<Rightarrow> (bool \<times> ('key, 'w) server) option" where
  "ShellExec env a e = do {
     state \<leftarrow> get_item a e;
     if it_shellClient_fd state \<noteq> 0 then Some (False, e)
     else do {
       let path = strip_name (se_module env) (length (se_module env)) @ ''/release/shellclient.exe'';
       let paramt = show_nat (it_yyID state) @ ''&127.0.0.1&'' @ show_nat (se_mangport env);
       Some (True, e\<lparr>ev_sys := se_exec env path paramt (ev_sys e)\<rparr>) } }"

definition openURL :: "('key, 'w) svr_env \<Rightarrow> int \<Rightarrow> nat \<Rightarrow> ('key, 'w) server \<Rightarrow> ('key, 'w) server option" where
  "openURL env fd a e = do {
     state \<leftarrow> get_item a e;
     let resp = \<lparr>mo_uid = it_uid state, mo_yyID = it_yyID state, mo_channelID = it_channelID state,
       mo_subChannelID = it_subChannelID state, mo_url = it_url state, mo_user = it_account state, mo_tick = it_pwd state\<rparr>;
     (ok, e) \<leftarrow> sendCmd env fd (MMS_OpenUrl resp) e;
     Some e }"

definition ShellExit :: "('key, 'w) svr_env \<Rightarrow> nat \<Rightarrow> ('key, 'w) server \<Rightarrow> ('key, 'w) server option" where
  "ShellExit env a e = do {
     state \<leftarrow> get_item a e;
     if it_shellClient_fd state = 0 then Some e
     else do {
       (ok, e) \<leftarrow> sendCmd env (it_shellClient_fd state) (MMS_Exit \<lparr>me_yyID = it_yyID state\<rparr>) e;
       Some e } }"

subsection \<open>Logging in\<close>

text \<open>The rows of the white list are fetched, and their columns read, but nothing is done with them.\<close>

definition read_row :: "StmtRes \<Rightarrow> unit option" where
  "read_row res = do {
     bs \<leftarrow> rs_bind res;
     assert_c (list_all (\<lambda>b. mb_buffer_type b = MYSQL_TYPE_LONG \<longrightarrow> (case mb_buffer b of None \<Rightarrow> False | Some p \<Rightarrow> arena_valid p 4 (rs_stuff res))) bs) }"

partial_function (option) fetch_rows :: "'w mysql_api \<Rightarrow> StmtRes \<Rightarrow> 'w \<Rightarrow> 'w option" where
  "fetch_rows api res w =
     (case my_fetch api w of (ended, w) \<Rightarrow>
        if ended then Some w else do { read_row res; fetch_rows api res w })"

definition query_whitelist :: "'w mysql_api \<Rightarrow> nat \<Rightarrow> 'w \<Rightarrow> 'w option" where
  "query_whitelist api uid w = do {
     let (item, w) = new_StmtItem api w;
     (item, w) \<leftarrow> Prepare api (''SELECT * FROM mms_whitelist WHERE mms_whitelist_uid='' @ show_nat uid) item w;
     (item, w) \<leftarrow> stmt_execute api item w;
     res \<leftarrow> GetRes api item w;
     let (bound, w) = BindResult api res w;
     if bound then fetch_rows api res w else Some w }"

definition CheckWhiteList :: "('key, 'w) svr_env \<Rightarrow> nat \<Rightarrow> bool \<Rightarrow> ('key, 'w) server \<Rightarrow> (bool \<times> ('key, 'w) server) option" where
  "CheckWhiteList env uid mysql e =
     (if \<not> mysql then Some (False, e)
      else do {
        w \<leftarrow> query_whitelist (se_mysql env) uid (ev_sys e);
        Some (True, e\<lparr>ev_sys := w\<rparr>) })"

definition LoginCmd :: "('key, 'w) svr_env \<Rightarrow> int \<Rightarrow> nat \<Rightarrow> bool \<Rightarrow> ('key, 'w) server \<Rightarrow> ('key, 'w) server option" where
  "LoginCmd env fd a mysql e = do {
     state \<leftarrow> get_item a e;
     (loginOK, e) \<leftarrow> CheckWhiteList env (it_uid state) mysql e;
     if \<not> loginOK then do {
       (ok, e) \<leftarrow> sendCmd env fd (Login_res (new_Login_res\<lparr>lr_bTokenSucc := loginOK\<rparr>)) e;
       Some (closefd (svr_events env) fd e) }
     else do {
       let (aesString, w) = se_rand env (AES_BLOCK_SIZE * 2) (ev_sys e);
       let e = e\<lparr>ev_sys := w\<rparr>;
       let e = set_item a (state\<lparr>it_aes := se_aes_key env aesString\<rparr>) e;
       let resp = new_Login_res\<lparr>lr_bTokenSucc := loginOK, lr_aeskey := aesString\<rparr>;
       comp \<leftarrow> Comp_RSA_Format (se_lib env) (it_rsa state) (Login_res resp) new_Comp_RSA;
       (case comp of
          None \<Rightarrow> Some e
        | Some c \<Rightarrow> do { (ok, e) \<leftarrow> sendCmd env fd (Comp_RSA c) e; Some e }) } }"

text \<open>The first login on a connection creates the client's object and enters it into both maps.\<close>

definition enter_login :: "('key, 'w) svr_env \<Rightarrow> int \<Rightarrow> YYJson_Login \<Rightarrow> nat option \<Rightarrow> fastbuffer \<Rightarrow> ('key, 'w) server
    \<Rightarrow> nat \<times> ('key, 'w) server" where
  "enter_login env fd login state buf e =
     (case state of
        Some a \<Rightarrow> (a, e)
      | None \<Rightarrow>
          (let s = ev_client e; a = sv_next s; it = (new_Item_data env)\<lparr>it_fd := fd, it_readbuffer := Some buf\<rparr>
           in (a, e\<lparr>ev_client := s\<lparr>sv_items := (sv_items s)(a \<mapsto> it), sv_next := a + 1, sv_states := add_state fd (Some a) (sv_states s),
                     sv_userData := add_state (li_yyID login) (Some a) (sv_userData s)\<rparr>\<rparr>)))"

definition set_login :: "('key, 'w) svr_env \<Rightarrow> YYJson_Login \<Rightarrow> nat \<Rightarrow> ('key, 'w) server \<Rightarrow> ('key, 'w) server option" where
  "set_login env login a e = do {
     state \<leftarrow> get_item a e;
     let pub = (if li_rsakey login = [] then None else se_rsa_key env (li_rsakey login));
     Some (set_item a (state\<lparr>it_yyID := li_yyID login, it_token := li_token login, it_rsaStr := li_rsakey login,
       it_rsa := (case pub of None \<Rightarrow> it_rsa state | Some k \<Rightarrow> Some k), it_loginTime := se_tick env (ev_sys e)\<rparr>) e) }"

subsection \<open>The commands of a client that is logged in\<close>

text \<open>The commands from the label \<open>NextRun\<close> on; an encrypted command is decrypted and run in its place.\<close>

definition run_Login1 :: "('key, 'w) svr_env \<Rightarrow> int \<Rightarrow> nat \<Rightarrow> YYJson_Login1 \<Rightarrow> ('key, 'w) server \<Rightarrow> ('key, 'w) server option" where
  "run_Login1 env fd a cmd e = do {
     state \<leftarrow> get_item a e;
     let e = set_item a (state\<lparr>it_uid := l1_uid cmd, it_account := l1_user cmd, it_pwd := l1_pwd cmd\<rparr>) e;
     (ok, e) \<leftarrow> sendCmd env fd (Login1_res \<lparr>l1r_bSucc = True\<rparr>) e;
     Some e }"

definition run_Logout :: "('key, 'w) svr_env \<Rightarrow> int \<Rightarrow> nat \<Rightarrow> ('key, 'w) server \<Rightarrow> ('key, 'w) server option" where
  "run_Logout env fd a e = do {
     state \<leftarrow> get_item a e;
     (ok, e) \<leftarrow> sendCmd env fd (Logout_res \<lparr>lo_yyID = Some (it_yyID state)\<rparr>) e;
     e \<leftarrow> ShellExit env a e;
     let s = ev_client e;
     Some (e\<lparr>ev_client := s\<lparr>sv_userData := del_state (it_yyID state) (sv_userData s), sv_states := del_state fd (sv_states s)\<rparr>\<rparr>) }"

definition run_OpenUrl :: "('key, 'w) svr_env \<Rightarrow> int \<Rightarrow> nat \<Rightarrow> YYJson_OpenUrl \<Rightarrow> ('key, 'w) server \<Rightarrow> ('key, 'w) server option" where
  "run_OpenUrl env fd a cmd e = do {
     state \<leftarrow> get_item a e;
     channelID \<leftarrow> ou_channelID cmd;
     subChannelID \<leftarrow> ou_subChannelID cmd;
     let e = set_item a (state\<lparr>it_channelID := channelID, it_subChannelID := subChannelID, it_url := ou_url cmd\<rparr>) e;
     (bSucc, e) \<leftarrow> (if isConnectShellClient state then do { e \<leftarrow> openURL env (it_shellClient_fd state) a e; Some (True, e) }
                     else ShellExec env a e);
     (ok, e) \<leftarrow> sendCmd env fd (OpenUrl_res (new_OpenUrl_res\<lparr>our_bSucc := bSucc\<rparr>)) e;
     Some e }"

partial_function (option) run_cmd :: "('key, 'w) svr_env \<Rightarrow> int \<Rightarrow> nat \<Rightarrow> YYJ \<Rightarrow> ('key, 'w) server \<Rightarrow> ('key, 'w) server option" where
  "run_cmd env fd a jobj e =
     (case jobj of
        Comp_RSA m \<Rightarrow> None
      | Comp_AES cmd \<Rightarrow> do {
          state \<leftarrow> get_item a e;
          r \<leftarrow> Comp_AES_UnFormat (se_lib env) (se_json env) (it_aes state) (se_block env) cmd;
          (case r of None \<Rightarrow> Some e | Some realobj \<Rightarrow> run_cmd env fd a realobj e) }
      | Login1 cmd \<Rightarrow> run_Login1 env fd a cmd e
      | Logout cmd \<Rightarrow> run_Logout env fd a e
      | OpenUrl cmd \<Rightarrow> run_OpenUrl env fd a cmd e
      | r \<Rightarrow> Some e)"

subsection \<open>Received data\<close>

text \<open>One round of the loop over the buffer: the client's object, the buffer and the server after it. A command
  of a client that is not logged in leaves the \<open>switch\<close> before the command is removed from the buffer.\<close>

definition json_step :: "('key, 'w) svr_env \<Rightarrow> int \<Rightarrow> bool \<Rightarrow> nat option \<Rightarrow> fastbuffer \<Rightarrow> ('key, 'w) server
    \<Rightarrow> (nat option \<times> fastbuffer \<times> ('key, 'w) server) option" where
  "json_step env fd mysql state buf e = do {
     (err, offset, jobj) \<leftarrow> ParseCmd (se_lib env) (se_json env) (fb_buf buf) (c_int (int (fb_size buf))) 0;
     if err = ERROR_SUCCESS then do {
       jobj \<leftarrow> jobj;
       (case jobj of
          Login login \<Rightarrow> do {
            let (a, e) = enter_login env fd login state buf e;
            e \<leftarrow> set_login env login a e;
            e \<leftarrow> LoginCmd env fd a mysql e;
            (n, out, buf) \<leftarrow> fastbuffer_read False (nat offset) buf;
            Some (Some a, buf, e) }
        | jobj \<Rightarrow>
            (case state of
               None \<Rightarrow> Some (None, buf, e)
             | Some a \<Rightarrow> do {
                 e \<leftarrow> run_cmd env fd a jobj e;
                 (n, out, buf) \<leftarrow> fastbuffer_read False (nat offset) buf;
                 Some (Some a, buf, e) })) }
     else Some (state, fastbuffer_clear buf, closefd (svr_events env) fd e) }"

text \<open>\<open>do { \<dots> } while (buf->size() > 0)\<close>\<close>

partial_function (option) json_loop :: "('key, 'w) svr_env \<Rightarrow> int \<Rightarrow> bool \<Rightarrow> nat option \<Rightarrow> fastbuffer \<Rightarrow> ('key, 'w) server
    \<Rightarrow> (nat option \<times> fastbuffer \<times> ('key, 'w) server) option" where
  "json_loop env fd mysql state buf e = do {
     (state, buf, e) \<leftarrow> json_step env fd mysql state buf e;
     if 0 < fb_size buf then json_loop env fd mysql state buf e else Some (state, buf, e) }"

text \<open>The buffer of a client's object takes the new data; the object keeps the buffer at the end.\<close>

definition JsonProcess :: "('key, 'w) svr_env \<Rightarrow> int \<Rightarrow> fastbuffer option \<Rightarrow> bool \<Rightarrow> ('key, 'w) server \<Rightarrow> ('key, 'w) server option" where
  "JsonProcess env fd readbuffer mysql e =
     (case readbuffer of
        None \<Rightarrow> Some e
      | Some rb \<Rightarrow>
          if fd \<le> 0 then Some e
          else do {
            let state = get_state fd (sv_states (ev_client e));
            buf \<leftarrow> (case state of
                       None \<Rightarrow> Some rb
                     | Some a \<Rightarrow> do {
                         st \<leftarrow> get_item a e;
                         (case it_readbuffer st of
                            Some b \<Rightarrow> do { (n, b) \<leftarrow> fastbuffer_append (se_avail env) (fb_buf rb) (fb_size rb) b; Some b }
                          | None \<Rightarrow> Some rb) });
            (state, buf, e) \<leftarrow> json_loop env fd mysql state buf e;
            (case state of
               None \<Rightarrow> Some e
             | Some a \<Rightarrow> do { st \<leftarrow> get_item a e; Some (set_item a (st\<lparr>it_readbuffer := Some buf\<rparr>) e) }) })"

section \<open>Data of the helper processes\<close>

definition exec_step :: "('key, 'w) svr_env \<Rightarrow> int \<Rightarrow> fastbuffer \<Rightarrow> ('key, 'w) server \<Rightarrow> (fastbuffer \<times> ('key, 'w) server) option" where
  "exec_step env fd buf e = do {
     (err, offset, jobj) \<leftarrow> ParseCmd (se_lib env) (se_json env) (fb_buf buf) (c_int (int (fb_size buf))) 0;
     if err = ERROR_SUCCESS then do {
       jobj \<leftarrow> jobj;
       e \<leftarrow> (case jobj of
               Svr_Init cmd \<Rightarrow>
                 (case get_state (si_yyID cmd) (sv_userData (ev_client e)) of
                    None \<Rightarrow> Some e
                  | Some a \<Rightarrow> do {
                      state \<leftarrow> get_item a e;
                      openURL env fd a (set_item a (state\<lparr>it_shellClient_fd := fd\<rparr>) e) })
             | r \<Rightarrow> Some e);
       (n, out, buf) \<leftarrow> fastbuffer_read False (nat offset) buf;
       Some (buf, e) }
     else Some (fastbuffer_clear buf, e) }"

partial_function (option) exec_loop :: "('key, 'w) svr_env \<Rightarrow> int \<Rightarrow> fastbuffer \<Rightarrow> ('key, 'w) server
    \<Rightarrow> (fastbuffer \<times> ('key, 'w) server) option" where
  "exec_loop env fd buf e = do {
     (buf, e) \<leftarrow> exec_step env fd buf e;
     if 0 < fb_size buf then exec_loop env fd buf e else Some (buf, e) }"

definition ProcessMmsExecData :: "('key, 'w) svr_env \<Rightarrow> int \<Rightarrow> fastbuffer \<Rightarrow> ('key, 'w) server \<Rightarrow> ('key, 'w) server option" where
  "ProcessMmsExecData env fd readbuffer e =
     (if \<not> sv_parent (ev_client e) then Some e
      else do { (buf, e) \<leftarrow> exec_loop env fd readbuffer e; Some e })"

section \<open>The workers\<close>

definition process_data :: "('key, 'w) svr_env \<Rightarrow> BossInfo \<Rightarrow> bool \<Rightarrow> ('key, 'w) server \<Rightarrow> ('key, 'w) server option" where
  "process_data env info mysql e =
     (case bi_buf info of
        None \<Rightarrow> Some e
      | Some buf \<Rightarrow>
          if bi_port info = se_mangport env then ProcessMmsExecData env (bi_fd info) buf e
          else JsonProcess env (bi_fd info) (Some buf) mysql e)"

text \<open>A worker waits for its semaphore (\<^const>\<open>None\<close> inside while the count is 0), then takes a job.\<close>

definition worker_wait :: "nat \<Rightarrow> 'key MmsServer \<Rightarrow> (bool \<times> 'key MmsServer) option option" where
  "worker_wait i s = do {
     data \<leftarrow> sv_threads s i;
     Some (if td_sem data = 0 then None
           else Some (td_exitflag data, s\<lparr>sv_threads := (sv_threads s)(i \<mapsto> data\<lparr>td_sem := td_sem data - 1\<rparr>)\<rparr>)) }"

definition worker_take :: "nat \<Rightarrow> 'key MmsServer \<Rightarrow> (BossInfo option \<times> 'key MmsServer) option" where
  "worker_take i s = do {
     data \<leftarrow> sv_threads s i;
     (info, jobs) \<leftarrow> PopJob (td_index data) (sv_jobs s);
     Some (if bi_fd info = 0 \<or> bi_buf info = None then None else Some info, s\<lparr>sv_jobs := jobs\<rparr>) }"

section \<open>Starting\<close>

fun set_workers :: "nat \<Rightarrow> nat \<Rightarrow> 'key MmsServer \<Rightarrow> 'key MmsServer option" where
  "set_workers i 0 s = Some s"
| "set_workers i (Suc n) s = do {
     jobs \<leftarrow> SetWorker (int i) (Some i) (sv_jobs s);
     set_workers (i + 1) n (s\<lparr>sv_jobs := jobs, sv_threads := (sv_threads s)(i \<mapsto> new_thread_data\<lparr>td_index := int i\<rparr>)\<rparr>) }"

definition InitMmsExec :: "('key, 'w) svr_env \<Rightarrow> ('key, 'w) server \<Rightarrow> bool \<times> ('key, 'w) server" where
  "InitMmsExec env e = Bind (svr_events env) False (se_mangport env) (e\<lparr>ev_client := (ev_client e)\<lparr>sv_parent := True\<rparr>\<rparr>)"

text \<open>The connection to Redis, whose result \<open>init\<close> ignores; \<open>Init\<close> registers the wrapper for its queue events.\<close>

definition init_redis :: "('key, 'w) svr_env \<Rightarrow> ('key, 'w) server \<Rightarrow> ('key, 'w) server option" where
  "init_redis env e = do {
     let e = AddQueueEvent REDIS_EVENT_FLAG (Some (OtherHandler 0)) e;
     let s = ev_client e;
     let s = s\<lparr>sv_redis := Redis_Init (se_redis_IP env) (se_redis_Port env) (se_base env) 10000 (sv_redis s)\<rparr>;
     (s, w) \<leftarrow> with_redis (\<lambda>y su. map_option snd (Redis_Connect (svr_redis env) y su)) s (ev_sys e);
     Some (e\<lparr>ev_client := s, ev_sys := w\<rparr>) }"

text \<open>A negative number of threads makes the allocation of the queues fail.\<close>

definition Server_init :: "('key, 'w) svr_env \<Rightarrow> int \<Rightarrow> ('key, 'w) server \<Rightarrow> (bool \<times> ('key, 'w) server) option" where
  "Server_init env ThreadNum e = do {
     let e = e\<lparr>ev_client := (ev_client e)\<lparr>sv_threadnum := ThreadNum\<rparr>\<rparr>;
     let (ok, e) = Event_Init (svr_events env) True e;
     if \<not> ok then Some (False, e)
     else do {
       let (ok, e) = Bind (svr_events env) True (se_port env) e;
       if \<not> ok then Some (False, e)
       else do {
         let (ok, e) = InitMmsExec env e;
         if \<not> ok then Some (False, e)
         else do {
           e \<leftarrow> init_redis env e;
           assert_c (0 \<le> ThreadNum);
           let s = ev_client e;
           s \<leftarrow> set_workers 0 (nat ThreadNum) (s\<lparr>sv_jobs := Boss_Init (nat ThreadNum) (sv_jobs s)\<rparr>);
           Some (True, e\<lparr>ev_client := s\<rparr>) } } } }"

section \<open>Replies of Redis\<close>

text \<open>A reply is sent to the connection that asked, as the texts of its elements one after the other, each with the
  zero byte at its end. The members \<open>str\<close> and \<open>len\<close> of an object that is not a text are not initialised.\<close>

fun append_elements :: "(nat \<Rightarrow> bool) \<Rightarrow> reply_heap \<Rightarrow> nat list \<Rightarrow> fastbuffer \<Rightarrow> fastbuffer option" where
  "append_elements avail h [] b = Some b"
| "append_elements avail h (p # ps) b = do {
     r \<leftarrow> hp_cells h p;
     len \<leftarrow> rp_len r;
     str \<leftarrow> rp_str r;
     (n, b) \<leftarrow> fastbuffer_append avail (Some str) (c_size_t (c_int (len + 1))) b;
     append_elements avail h ps b }"

definition redis_cb :: "('key, 'w) svr_env \<Rightarrow> nat \<Rightarrow> int \<Rightarrow> reply_heap \<Rightarrow> ('key, 'w) server \<Rightarrow> ('key, 'w) server option" where
  "redis_cb env reply fd h e =
     (if reply = 0 then Some e
      else do {
        r \<leftarrow> hp_cells h reply;
        if rp_type r = REDIS_REPLY_ARRAY then do {
          (n, echostr) \<leftarrow> fastbuffer_append (se_avail env) (Some (c_literal (''reply is:'' @ CRLF))) 11 new_fastbuffer;
          elements \<leftarrow> rp_elements r;
          element \<leftarrow> rp_element r;
          assert_c (elements \<le> length element);
          echostr \<leftarrow> append_elements (se_avail env) h (take elements element) echostr;
          Some (if 0 < fb_size echostr then data_send (svr_events env) fd (Some echostr) WRITE_EVENT_FLAG e else e) }
        else Some e })"

section \<open>Stopping\<close>

text \<open>The end of \<open>run\<close>: every worker is told to exit and woken.\<close>

fun stop_workers :: "nat \<Rightarrow> nat \<Rightarrow> 'key MmsServer \<Rightarrow> 'key MmsServer option" where
  "stop_workers i 0 s = Some s"
| "stop_workers i (Suc n) s = do {
     data \<leftarrow> GetWorkerTouch (int i) (sv_jobs s);
     s \<leftarrow> (case data of
             None \<Rightarrow> Some s
           | Some k \<Rightarrow> do {
               d \<leftarrow> sv_threads s k;
               sem_post k (s\<lparr>sv_threads := (sv_threads s)(k \<mapsto> d\<lparr>td_exitflag := True\<rparr>)\<rparr>) });
     stop_workers (i + 1) n s }"

end
