(* ===== verification/ServerProps.thy ===== *)
theory ServerProps
  imports Server
begin

text \<open>
  The server as the owner of the event loop, the processing of received commands, and the composition of both:
  what a read event receives becomes one job of the connection's worker, what the workers send reaches the
  write buffers in order, and the commands of one buffer are run in order.
\<close>

section \<open>The server owns the event loop\<close>

text \<open>The workers are set up, and both maps refer to existing objects.\<close>

definition workers_ok :: "'key MmsServer \<Rightarrow> bool" where
  "workers_ok s \<longleftrightarrow> 0 < sv_threadnum s \<and> int (length (bw_workers (sv_jobs s))) = sv_threadnum s \<and>
     (\<forall>i < length (bw_workers (sv_jobs s)). snd (bw_workers (sv_jobs s) ! i) = Some i \<and>
        (\<exists>d. sv_threads s i = Some d \<and> td_index d = int i))"

definition svr_ok :: "'key MmsServer \<Rightarrow> bool" where
  "svr_ok s \<longleftrightarrow> workers_ok s \<and> (\<forall>a st. sv_items s a = Some st \<longrightarrow> it_yyID st < 2 ^ 32) \<and>
     (\<forall>fd a. get_state fd (sv_states s) = Some a \<longrightarrow> sv_items s a \<noteq> None)"

text \<open>The worker of a connection.\<close>

definition worker_of :: "int \<Rightarrow> 'key MmsServer \<Rightarrow> nat" where
  "worker_of fd s = nat (fd mod sv_threadnum s)"

definition jobs_of :: "nat \<Rightarrow> 'key MmsServer \<Rightarrow> BossInfo list" where
  "jobs_of i s = fst (bw_workers (sv_jobs s) ! i)"

definition sem_of :: "nat \<Rightarrow> 'key MmsServer \<Rightarrow> nat" where
  "sem_of i s = (case sv_threads s i of None \<Rightarrow> 0 | Some d \<Rightarrow> td_sem d)"

definition pushed :: "nat \<Rightarrow> BossInfo \<Rightarrow> 'key MmsServer \<Rightarrow> 'key MmsServer" where
  "pushed i info s = s\<lparr>sv_jobs := (sv_jobs s)\<lparr>bw_workers := (bw_workers (sv_jobs s))[i := (jobs_of i s @ [info], snd (bw_workers (sv_jobs s) ! i))]\<rparr>\<rparr>"

definition posted :: "nat \<Rightarrow> 'key MmsServer \<Rightarrow> 'key MmsServer" where
  "posted i s = s\<lparr>sv_threads := (sv_threads s)(i := map_option (\<lambda>d. d\<lparr>td_sem := td_sem d + 1\<rparr>) (sv_threads s i))\<rparr>"

lemma worker_of_less: "workers_ok s \<Longrightarrow> 0 \<le> fd \<Longrightarrow> worker_of fd s < length (bw_workers (sv_jobs s)) \<and> int (worker_of fd s) = fd mod sv_threadnum s"
  by (simp add: workers_ok_def worker_of_def nat_less_iff)

lemma receive_push_eq:
  assumes "workers_ok s" and "0 \<le> fd"
  shows "receive_push fd rb port s = Some (int (worker_of fd s), pushed (worker_of fd s) \<lparr>bi_buf = Some rb, bi_fd = fd, bi_port = port\<rparr> s)"
proof -
  have n: "0 < sv_threadnum s" "int (length (bw_workers (sv_jobs s))) = sv_threadnum s" using assms(1) by (simp_all add: workers_ok_def)
  have "c_rem fd (sv_threadnum s) = Some (int (worker_of fd s))" using n(1) assms worker_of_less [OF assms] by (simp add: c_rem_def)
  moreover have "int (worker_of fd s) < sv_threadnum s" using worker_of_less [OF assms] n(1) by simp
  ultimately show ?thesis using n
    by (simp add: receive_push_def PushJob_def is_worker_def pushed_def jobs_of_def split: prod.split)
qed

lemma pushed_ok: "workers_ok s \<Longrightarrow> workers_ok (pushed i info s)"
proof -
  assume w: "workers_ok s"
  have "snd ((bw_workers (sv_jobs s))[i := (jobs_of i s @ [info], snd (bw_workers (sv_jobs s) ! i))] ! j) = snd (bw_workers (sv_jobs s) ! j)" for j
    by (cases "j = i"; cases "i < length (bw_workers (sv_jobs s))") (simp_all add: not_less list_update_beyond)
  then show ?thesis using w by (simp add: workers_ok_def pushed_def)
qed

lemma receive_post_eq: "workers_ok s \<Longrightarrow> i < length (bw_workers (sv_jobs s)) \<Longrightarrow> receive_post (int i) s = Some (posted i s)"
  unfolding workers_ok_def receive_post_def posted_def sem_post_def GetWorkerTouch_def is_worker_def by fastforce

lemma posted_ok: "workers_ok s \<Longrightarrow> workers_ok (posted i s)"
  unfolding workers_ok_def posted_def by auto

lemma pushed_length [simp]: "length (bw_workers (sv_jobs (pushed i info s))) = length (bw_workers (sv_jobs s))"
  by (simp add: pushed_def)

lemma data_receive_eq:
  assumes "workers_ok s" and "0 \<le> fd"
  shows "data_receive fd (Some rb) port s
    = Some (False, posted (worker_of fd s) (pushed (worker_of fd s) \<lparr>bi_buf = Some rb, bi_fd = fd, bi_port = port\<rparr> s))"
proof -
  have "receive_post (int (worker_of fd s)) (pushed (worker_of fd s) info s) = Some (posted (worker_of fd s) (pushed (worker_of fd s) info s))" for info
    by (rule receive_post_eq [OF pushed_ok [OF assms(1)]]) (simp add: worker_of_less [OF assms])
  then show ?thesis using receive_push_eq [OF assms] by (simp add: data_receive_def)
qed

lemma svr_ok_job: "svr_ok s \<Longrightarrow> svr_ok (posted i (pushed i info s))"
  using posted_ok [OF pushed_ok] by (auto simp: svr_ok_def posted_def pushed_def)

section \<open>Commands the server makes\<close>

lemma command_fits:
  assumes "determined m" and "length (json_text (envelope lib m)) + 3 \<le> P" and "4 * P < 2 ^ 63" and "\<And>n. n \<le> 4 * P \<Longrightarrow> avail n"
  shows "\<exists>t b. FormatCmd lib m [] = Some t \<and> length t = length (json_text (envelope lib m)) + 3 \<and>
    fastbuffer_append avail (Some (c_literal t)) (length t) new_fastbuffer = Some (length t, b) \<and> fb_holds P b t"
proof -
  obtain t where t: "FormatCmd lib m [] = Some t" "length t = length (json_text (envelope lib m)) + 3"
    using format_text [OF assms(1), of lib "[]"] by (simp add: word_bytes_def)
  show ?thesis using append_holds [OF new_holds, of t P avail "[Some NUL]"] assms(2-4) t by (auto simp: c_literal_def)
qed

lemma logout_length: "n < 2 ^ 32 \<Longrightarrow> length (json_text (envelope lib (Logout \<lparr>lo_yyID = Some n\<rparr>))) \<le> 100"
proof -
  assume "n < 2 ^ 32"
  then have "length (show_nat n) \<le> 10" using show_nat_length_pow [of n 9] by simp
  moreover have "length (show_nat 1015) = 4" by code_simp
  ultimately show ?thesis by (simp add: envelope_def show_int_def cmd_numbers)
qed

text \<open>A system with enough memory.\<close>

definition ample :: "('key, 'w) svr_env \<Rightarrow> ('key, 'w) svr_env" where
  "ample env = env\<lparr>se_avail := (\<lambda>n. n \<le> 2 ^ 31)\<rparr>"

lemma fd_close_eq:
  assumes "svr_ok s" and "0 \<le> fd"
  shows "\<exists>s'. fd_close (ample env) fd s = Some s' \<and> svr_ok s'"
proof (cases "get_state fd (sv_states s)")
  case None
  then show ?thesis using assms by (simp add: fd_close_def)
next
  case (Some a)
  obtain st where st: "sv_items s a = Some st" "it_yyID st < 2 ^ 32" using assms(1) Some unfolding svr_ok_def by fastforce
  let ?m = "Logout \<lparr>lo_yyID = Some (it_yyID st)\<rparr>"
  obtain t b where t: "FormatCmd (se_lib env) ?m [] = Some t"
      "fastbuffer_append (\<lambda>n. n \<le> 2 ^ 31) (Some (c_literal t)) (length t) new_fastbuffer = Some (length t, b)"
    using command_fits [of ?m "se_lib env" "2 ^ 29" "\<lambda>n. n \<le> 2 ^ 31"] logout_length [OF st(2), of "se_lib env"] by auto
  have "workers_ok s" using assms(1) by (simp add: svr_ok_def)
  then show ?thesis using Some st(1) t data_receive_eq [OF _ assms(2), of s b "se_port env"] svr_ok_job [OF assms(1)]
    by (simp add: fd_close_def ample_def)
qed

interpretation srv: event_owner "svr_events (ample env)" svr_ok "2 ^ 29" for env
proof unfold_locales
  fix c :: "'a MmsServer" and fd :: int and b s port
  assume "svr_ok c" "0 \<le> fd"
  then show "\<exists>c'. en_fd_close (svr_events (ample env)) fd c = Some c' \<and> svr_ok c'" using fd_close_eq by (simp add: svr_events_def)
  show "\<exists>keep c'. en_data_receive (svr_events (ample env)) fd b port c = Some (keep, c') \<and> svr_ok c'"
    using data_receive_eq [OF _ \<open>0 \<le> fd\<close>, of c b port] svr_ok_job [OF \<open>svr_ok c\<close>] \<open>svr_ok c\<close> by (auto simp: svr_events_def svr_ok_def)
qed (simp_all add: svr_events_def ample_def)


section \<open>Input and output\<close>

lemma pushed_jobs: "i < length (bw_workers (sv_jobs s)) \<Longrightarrow> jobs_of j (posted k (pushed i info s)) = (if j = i then jobs_of i s @ [info] else jobs_of j s)"
  by (simp add: jobs_of_def posted_def pushed_def)

lemma pushed_sem: "workers_ok s \<Longrightarrow> i < length (bw_workers (sv_jobs s)) \<Longrightarrow>
    sem_of j (posted i (pushed i info s)) = (if j = i then sem_of i s + 1 else sem_of j s)"
  unfolding workers_ok_def by (fastforce simp: sem_of_def posted_def pushed_def)

lemma svr_events_simps [simp]: "en_os (svr_events (ample env)) = se_os env" "en_data_receive (svr_events env') fd b port c = data_receive fd (Some b) port c"
    "en_fd_close (svr_events env') = fd_close env'"
  by (simp_all add: svr_events_def ample_def)

text \<open>A server with one worker and one connection, on a system that hands out the pieces of a list and takes three
  bytes at a time.\<close>

definition demo_os :: "string list os_api" where
  "demo_os = \<lparr>os_socket = (\<lambda>t w. (Some 100, w)), os_setsockopt = (\<lambda>s o' w. (True, w)), os_ioctlsocket = (\<lambda>s b w. (True, w)),
     os_closesocket = (\<lambda>s w. w), os_inet_addr = (\<lambda>a. 16777343), os_gethostbyname = (\<lambda>a w. (None, w)),
     os_connect = (\<lambda>s a p w. (True, w)), os_select = (\<lambda>s t w. ((True, True), w)), os_sockerr = (\<lambda>s w. (Some 0, w)),
     os_recv = (\<lambda>s n w. case sy_world w of [] \<Rightarrow> (RecvError, w) | x # xs \<Rightarrow> (RecvData x, w\<lparr>sy_world := xs\<rparr>)),
     os_send = (\<lambda>s x w. (Sent (min 3 (length x)), w)), os_lasterror = (\<lambda>w. WSAEWOULDBLOCK), os_strerror = (\<lambda>e. ''error'')\<rparr>"

definition closing_os :: "string list os_api" where
  "closing_os = demo_os\<lparr>os_recv := (\<lambda>s n w. case sy_world w of [] \<Rightarrow> (RecvClosed, w) | x # xs \<Rightarrow> (RecvData x, w\<lparr>sy_world := xs\<rparr>))\<rparr>"

definition quiet_mysql :: "'w mysql_api" where
  "quiet_mysql = \<lparr>my_stmt_init = (\<lambda>w. (True, w)), my_prepare = (\<lambda>cmd w. (False, w)), my_param_count = (\<lambda>w. 0), my_bind_param = (\<lambda>bs w. (False, w)),
     my_execute = (\<lambda>vs w. (False, w)), my_affected_rows = (\<lambda>w. 0), my_result_metadata = (\<lambda>w. None), my_bind_result = (\<lambda>bs w. (False, w)),
     my_store_result = (\<lambda>w. (False, w)), my_fetch = (\<lambda>w. (True, w)), my_avail = (\<lambda>n. True)\<rparr>"

definition demo_env :: "'w os_api \<Rightarrow> (unit, 'w) svr_env" where
  "demo_env os = \<lparr>se_os = os, se_accept = (\<lambda>l w. (- 1, w)), se_listen = (\<lambda>any p w. (3, True, True, w)), se_socketpair = (\<lambda>w. (Some (8, 9), w)),
     se_base = True, se_avail = (\<lambda>n. True), se_events = (\<lambda>w. (True, True)), se_lib = rev_lib,
     se_json = one_text_lib (envelope rev_lib a_login), se_rsa_key = (\<lambda>s. Some ()), se_aes_key = (\<lambda>s. ()), se_zero_key = (), se_rand = (\<lambda>n w. (replicate n CR, w)),
     se_tick = (\<lambda>w. 0), se_block = replicate 16 NUL, se_mysql = quiet_mysql, se_module = ''server.exe'', se_exec = (\<lambda>p a w. w),
     se_port = 80, se_mangport = 81, se_redis_IP = ''127.0.0.1'', se_redis_Port = 6379, se_render = (\<lambda>f a. None)\<rparr>"

definition demo_svr :: "unit MmsServer" where
  "demo_svr = new_MmsServer\<lparr>sv_threadnum := 1, sv_jobs := \<lparr>bw_workers = [([], Some 0)], bw_def = new_BossInfo, bw_touch = None\<rparr>,
     sv_threads := [0 \<mapsto> new_thread_data\<lparr>td_index := 0\<rparr>]\<rparr>"

definition demo_buffer :: "string \<Rightarrow> fastbuffer" where
  "demo_buffer s = \<lparr>fb_fd = 0, fb_size = length s, fb_bufsize = length s, fb_buf = Some (map Some s)\<rparr>"

definition demo_loop :: "fastbuffer \<Rightarrow> string list \<Rightarrow> (unit, string list) server" where
  "demo_loop b cs = (new_yylibevent demo_svr \<lparr>sy_errno = 0, sy_world = cs\<rparr>)\<lparr>ev_states := add_state 5 (Some 1) (new_hash_map None),
     ev_heap := [1 \<mapsto> \<lparr>fs_writebuffer = b, fs_reading = True, fs_writing = True, fs_listen_port = 80\<rparr>], ev_next := 2, ev_callback := True\<rparr>"

lemma demo_conn: "conn (demo_loop b cs) fd = (if fd = 5 then Some 1 else None)"
  by (simp add: demo_loop_def hm.get_add new_hash_map_def) (simp add: get_state_def)

lemma demo_wf: "ev_wf (demo_loop b cs)"
  using demo_conn [where b = b and cs = cs] by (simp add: ev_wf_def) (simp add: demo_loop_def new_yylibevent_def new_hash_map_def new_queue_map_def hm.dflt_add)

lemma demo_ok: "svr_ok (ev_client (demo_loop b cs))"
  by (simp add: demo_loop_def demo_svr_def new_MmsServer_def svr_ok_def workers_ok_def get_state_def new_hash_map_def new_yylibevent_def)

lemma demo_holds: "length s \<le> P \<Longrightarrow> fb_holds P (demo_buffer s) s"
  by (simp add: fb_holds_def demo_buffer_def)

lemma demo_rel: "loop_rel (2 ^ 29) (demo_loop (demo_buffer ''hello'') cs) [5 \<mapsto> ''hello''] []"
  using demo_wf demo_conn [where b = "demo_buffer ''hello''" and cs = cs] demo_holds [of "''hello''" "2 ^ 29"]
  by (simp add: loop_rel_def waiting_out_def) (simp add: demo_loop_def new_yylibevent_def queue_of_def new_queue_map_def)



text \<open>
  When the client closes the connection right after its data, so that one read event sees both, the
  data is dropped: no worker gets a job from it. (The client is not logged in; for one that is,
  only the made-up logout is queued.)
\<close>

lemma input_before_close_lost:
  assumes "ev_wf e" and "svr_ok (ev_client e)" and "conn e fd = Some a" and "ev_callback e"
    and "received (se_os env) fd (ev_sys e) cs w" and "cs \<noteq> []" and "length (concat cs) \<le> 2 ^ 29"
    and "sock_recv (se_os env) fd 1024 w = (RecvClosed, w')" and "get_state fd (sv_states (ev_client e)) = None"
  shows "\<exists>e'. do_read (svr_events (ample env)) fd (Some a) e = Some e' \<and> conn e' fd = None \<and> ev_client e' = ev_client e"
proof -
  obtain st where st: "ev_heap e a = Some st" using live_object [OF assms(1,3)] by blast
  have "do_read (svr_events (ample env)) fd (Some a) e = free_fd_state (svr_events (ample env)) fd a (e\<lparr>ev_sys := w'\<rparr>)"
    using srv.do_read_law [where env = env, OF assms(3) st, of cs w RecvClosed w'] assms(5-8) by auto
  also have "\<dots> = Some (dropped fd a (ev_client e) (svr_events (ample env)) (e\<lparr>ev_sys := w'\<rparr>))"
    using st assms(4,9) by (simp add: free_eq fd_close_def)
  finally show ?thesis using dropped_conn [where e = "e\<lparr>ev_sys := w'\<rparr>" and fd = fd and a = a and c = "ev_client e" and env = "svr_events (ample env)" and f = fd] assms(1)
    by (simp add: dropped_def)
qed

text \<open>
  C3 (refinement). What the workers hand to the loop with \<open>data_send\<close>, followed by one queue event per buffer,
  implements the abstract delivery: every buffer is appended to the output of its connection in the order of
  sending, an empty one closes the connection, and buffers for connections that are gone disappear.
\<close>

theorem output_delivered:
  assumes "loop_rel (2 ^ 29) e out []" and "svr_ok (ev_client e)"
    and "list_all2 (\<lambda>x m. fst x = fst m \<and> fb_holds (2 ^ 29) (snd x) (snd m)) bs ms"
    and "\<forall>fd t. out fd = Some t \<longrightarrow> length t + length (concat (map snd ms)) \<le> 2 ^ 29"
  shows "\<exists>e'. receive_all (svr_events (ample env)) (length ms)
      (fold (\<lambda>x. data_send (svr_events (ample env)) (fst x) (Some (snd x)) WRITE_EVENT_FLAG) bs e) = Some e' \<and>
    loop_rel (2 ^ 29) e' (fold deliver ms out) [] \<and> svr_ok (ev_client e')"
proof -
  have client: "ev_client (fold (\<lambda>x. data_send env' (fst x) (Some (snd x)) WRITE_EVENT_FLAG) bs e) = ev_client e" for env' bs and e :: "('a, 'b) server"
    by (induction bs arbitrary: e) (simp_all add: data_send_def flag_send_def msg_send_def Let_def split: prod.split send_result.split)
  have "loop_rel (2 ^ 29) e out q \<Longrightarrow> loop_rel (2 ^ 29) (fold (\<lambda>x. data_send (svr_events (ample env)) (fst x) (Some (snd x)) WRITE_EVENT_FLAG) bs e) out (q @ ms)"
    for q and e :: "('a, 'b) server" using assms(3)
  proof (induction bs ms arbitrary: e q rule: list_all2_induct)
    case (Cons x bs m ms)
    then show ?case using data_send_rel [OF Cons.prems, of "snd x" "snd m" "svr_events (ample env)" "fst x"] by (cases m) force
  qed simp
  from this [of e "[]"] show ?thesis using srv.receive_all_law [of _ out ms env] assms(1,2,4) client by simp
qed

theorem output_delivered_witness:
  "\<exists>e'. receive_all (svr_events (ample (demo_env demo_os))) (Suc (Suc 0))
      (data_send (svr_events (ample (demo_env demo_os))) 7 (Some (demo_buffer ''x'')) WRITE_EVENT_FLAG
        (data_send (svr_events (ample (demo_env demo_os))) 5 (Some (demo_buffer '' you'')) WRITE_EVENT_FLAG (demo_loop (demo_buffer ''hello'') []))) = Some e' \<and>
    loop_rel (2 ^ 29) e' [5 \<mapsto> ''hello you''] []"
proof -
  let ?bs = "[(5, demo_buffer '' you''), (7, demo_buffer ''x'')]" and ?ms = "[(5, '' you''), (7, ''x'')] :: (int \<times> string) list"
  have bs: "list_all2 (\<lambda>x m. fst x = fst m \<and> fb_holds (2 ^ 29) (snd x) (snd m)) ?bs ?ms" by (simp add: demo_holds)
  have room: "\<forall>fd t. [5 \<mapsto> ''hello''] fd = Some t \<longrightarrow> length t + length (concat (map snd ?ms)) \<le> 2 ^ 29" by simp
  have out: "fold deliver ?ms [5 \<mapsto> ''hello''] = [5 \<mapsto> ''hello you'']" by (simp add: deliver_def)
  obtain e' where "receive_all (svr_events (ample (demo_env demo_os))) (length ?ms)
      (fold (\<lambda>x. data_send (svr_events (ample (demo_env demo_os))) (fst x) (Some (snd x)) WRITE_EVENT_FLAG) ?bs (demo_loop (demo_buffer ''hello'') [])) = Some e'"
    "loop_rel (2 ^ 29) e' [5 \<mapsto> ''hello you''] []"
    using output_delivered [OF demo_rel [of "[]"] demo_ok bs room, where env = "demo_env demo_os"] unfolding out by blast
  then show ?thesis by (intro exI [of _ e']) (simp del: receive_all.simps)
qed

text \<open>
  C40 (error). When the system accepts only a part of the waiting output, the handler removes all of it: the rest
  is never sent, although the connection stays open.
\<close>

theorem partial_write_loses:
  assumes "loop_rel (2 ^ 29) e out ms" and "svr_ok (ev_client e)" and "out fd = Some t" and "conn e fd = Some a"
    and "sock_send (se_os env) fd t (ev_sys e) = (Sent n, w)" and "0 < n" and "n < length t"
  shows "\<exists>e'. do_write (svr_events (ample env)) fd (Some a) e = Some e' \<and> loop_rel (2 ^ 29) e' (out(fd \<mapsto> [])) ms"
proof -
  have "t \<noteq> []" using assms(7) by auto
  then show ?thesis using srv.do_write_law [OF assms(1-3) _ assms(4), where env = env] assms(5,6) by (auto simp: after_write_def)
qed

theorem partial_write_loses_witness:
  "\<exists>e'. do_write (svr_events (ample (demo_env demo_os))) 5 (Some 1) (demo_loop (demo_buffer ''hello'') []) = Some e' \<and>
    loop_rel (2 ^ 29) e' [5 \<mapsto> []] []"
proof -
  let ?e = "demo_loop (demo_buffer ''hello'') []" and ?w = "\<lparr>sy_errno = 0, sy_world = []\<rparr> :: string list sys"
  have "ev_sys ?e = ?w" "se_os (demo_env demo_os) = demo_os" by (simp_all add: demo_loop_def demo_env_def new_yylibevent_def)
  then have "sock_send (se_os (demo_env demo_os)) 5 ''hello'' (ev_sys ?e) = (Sent 3, ?w)" by (simp add: sock_send_def demo_os_def)
  from partial_write_loses [OF demo_rel demo_ok _ _ this] show ?thesis by (simp add: demo_conn)
qed



end
