(* ===== verification/CommandProps.thy ===== *)
theory CommandProps
  imports ServerProps
begin

text \<open>
  The loop over a buffer of received commands (\<open>JsonProcess\<close> of \<open>src/yymm_svr/cmdproc.cpp\<close>): it ends, it runs
  the commands of one buffer in their order, it closes the connection when a command is not complete, and
  it never ends for a command that comes before the login.
\<close>

section \<open>One round\<close>

lemma holds_block:
  assumes "fb_holds P b (t @ s)" and "t \<noteq> []"
  obtains junk where "fb_buf b = Some (map Some t @ junk)" "fb_size b = length t + length s"
proof -
  obtain m where m: "fb_buf b = Some m" "take (length t + length s) m = map Some (t @ s)" "length t + length s \<le> length m"
    using assms by (auto simp: fb_holds_def split: option.splits)
  then have "m = map Some t @ map Some s @ drop (length t + length s) m" by (metis append.assoc append_take_drop_id map_append)
  then show thesis using that [of "map Some s @ drop (length t + length s) m"] m(1) assms(1) by (simp add: fb_holds_def)
qed

definition is_login :: "YYJ \<Rightarrow> bool" where
  "is_login m \<longleftrightarrow> (\<exists>l. m = Login l)"

lemma json_step_cases:
  assumes "json_step env fd mysql state buf e = Some (state', buf', e')"
  obtains (closed) "state' = state" "buf' = fastbuffer_clear buf" "e' = closefd (svr_events env) fd e"
  | (ignored) "state = None" "state' = None" "buf' = buf" "e' = e"
  | (consumed) n k out a where "3 \<le> n" "fastbuffer_read False n buf = Some (k, out, buf')" "state' = Some a" "state = None \<or> state = state'"
proof -
  obtain err off j where p: "ParseCmd (se_lib env) (se_json env) (fb_buf buf) (c_int (int (fb_size buf))) 0 = Some (err, off, j)"
    using assms by (auto simp: json_step_def bind_eq_Some_conv)
  show thesis
  proof (cases "err = ERROR_SUCCESS")
    case False
    then show thesis using assms p closed by (simp add: json_step_def)
  next
    case True
    obtain n m where n: "3 \<le> n" "off = int n" "j = Some m" using p unfolding True by (elim parse_success) auto
    note r = assms [unfolded json_step_def p True n(3) Option.bind.bind_lunit]
    show thesis
    proof (cases "is_login m")
      case True
      then obtain l where "m = Login l" by (auto simp: is_login_def)
      then show thesis using r n consumed [of n]
        by (cases state) (auto simp: bind_eq_Some_conv enter_login_def Let_def)
    next
      case nl: False
      have "state = None \<and> state' = None \<and> buf' = buf \<and> e' = e \<or> (\<exists>a k out. state = Some a \<and> state' = Some a \<and> fastbuffer_read False n buf = Some (k, out, buf'))"
        using r n nl by (cases m; cases state) (auto simp: bind_eq_Some_conv is_login_def)
      then show thesis using ignored consumed [of n] n(1) by auto
    qed
  qed
qed

text \<open>A round of a client that is logged in shortens the buffer or empties it.\<close>

lemma json_step_shrinks:
  assumes "json_step env fd mysql (Some a) buf e = Some (state', buf', e')" and "fb_holds P buf s"
  shows "state' = Some a \<and> (\<exists>s'. fb_holds P buf' s' \<and> (length s' < length s \<or> s' = []))"
  using assms(1)
proof (cases rule: json_step_cases)
  case closed
  then show ?thesis using clear_holds [OF assms(2)] by blast
next
  case (consumed n k out b)
  then have "fb_holds P buf' (drop n s)" using read_holds [OF assms(2), of False n] by auto
  moreover have "length (drop n s) < length s \<or> drop n s = []" using consumed(1) by auto
  ultimately show ?thesis using consumed by blast
qed simp

section \<open>The loop ends\<close>

text \<open>The rounds of the loop.\<close>

inductive json_rounds :: "('key, 'w) svr_env \<Rightarrow> int \<Rightarrow> bool \<Rightarrow> nat option \<times> fastbuffer \<times> ('key, 'w) server
    \<Rightarrow> nat option \<times> fastbuffer \<times> ('key, 'w) server \<Rightarrow> bool" for env fd mysql where
  start: "json_rounds env fd mysql x x"
| round: "json_step env fd mysql state buf e = Some (state', buf', e') \<Longrightarrow> 0 < fb_size buf' \<Longrightarrow>
    json_rounds env fd mysql (state', buf', e') y \<Longrightarrow> json_rounds env fd mysql (state, buf, e) y"

lemma json_loop_returns:
  "fb_holds P buf s \<Longrightarrow> (\<And>state' buf' e'. json_rounds env fd mysql (Some a, buf, e) (state', buf', e') \<Longrightarrow> json_step env fd mysql state' buf' e' \<noteq> None) \<Longrightarrow>
    \<exists>buf' e'. json_loop env fd mysql (Some a) buf e = Some (Some a, buf', e') \<and> fb_size buf' = 0"
proof (induction "length s" arbitrary: s buf e rule: less_induct)
  case less
  obtain st b e1 where st: "json_step env fd mysql (Some a) buf e = Some (st, b, e1)"
    using less.prems(2) [OF json_rounds.start] by (metis not_None_eq prod_cases3)
  obtain s' where s': "st = Some a" "fb_holds P b s'" "length s' < length s \<or> s' = []" using json_step_shrinks [OF st less.prems(1)] by blast
  have size: "fb_size b = length s'" using s'(2) by (simp add: fb_holds_def)
  show ?case
  proof (cases "s' = []")
    case True
    then show ?thesis using st s'(1) size by (subst json_loop.simps) simp
  next
    case False
    then have "json_step env fd mysql state' buf' e' \<noteq> None" if "json_rounds env fd mysql (Some a, b, e1) (state', buf', e')" for state' buf' e'
      using less.prems(2) json_rounds.round [OF st [unfolded s'(1)] _ that] size by simp
    then obtain b2 e2 where "json_loop env fd mysql (Some a) b e1 = Some (Some a, b2, e2)" "fb_size b2 = 0"
      using less.hyps [OF _ s'(2)] s'(3) False by blast
    then show ?thesis using st s'(1) size False by (subst json_loop.simps) simp
  qed
qed

section \<open>The commands of a buffer\<close>

text \<open>A printed command that the receiver can read.\<close>

definition readable :: "('key, 'w) svr_env \<Rightarrow> YYJ \<Rightarrow> string \<Rightarrow> bool" where
  "readable env m t \<longleftrightarrow> msg_ok (se_lib env) m \<and> json_lib_ok (se_json env) \<and> FormatCmd (se_lib env) m [] = Some t \<and> length t < 65536 \<and>
     js_parse (se_json env) (json_text (envelope (se_lib env) m)) = Some (envelope (se_lib env) m)"

lemma readable_nonempty: "readable env m t \<Longrightarrow> 3 \<le> length t"
  using format_frame [of "se_lib env" m t] by (force simp: readable_def)

lemma parse_readable:
  assumes "readable env m t" and "fb_holds P buf (t @ s)" and "P < 2 ^ 31"
  shows "ParseCmd (se_lib env) (se_json env) (fb_buf buf) (c_int (int (fb_size buf))) 0 = Some (ERROR_SUCCESS, int (length t), Some m)"
proof -
  have "t \<noteq> []" using readable_nonempty [OF assms(1)] by auto
  then obtain junk where j: "fb_buf buf = Some (map Some t @ junk)" "fb_size buf = length t + length s" by (rule holds_block [OF assms(2)])
  have "length t + length s \<le> P" using assms(2) by (simp add: fb_holds_def)
  then have "c_int (int (fb_size buf)) = int (length t + length s)" using assms(3) j(2) by (simp add: c_int_id)
  then show ?thesis using parse_formatted [of "se_lib env" m "se_json env" t "int (length t + length s)" junk 0] assms(1) j(1) by (simp add: readable_def)
qed

lemma json_step_readable:
  assumes "readable env m t" and "fb_holds P buf (t @ s)" and "P < 2 ^ 31" and "\<not> is_login m"
  shows "json_step env fd mysql None buf e = Some (None, buf, e)"
    and "\<exists>buf'. fb_holds P buf' s \<and> json_step env fd mysql (Some a) buf e = map_option (\<lambda>e'. (Some a, buf', e')) (run_cmd env fd a m e)"
proof -
  note p = parse_readable [OF assms(1-3)]
  show "json_step env fd mysql None buf e = Some (None, buf, e)"
    using p assms(4) by (cases m) (simp_all add: json_step_def is_login_def)
  obtain buf' where b: "fastbuffer_read False (length t) buf = Some (length t, [], buf')" "fb_holds P buf' s"
    using read_holds [OF assms(2), of False "length t"] by auto
  have "json_step env fd mysql (Some a) buf e = do { e \<leftarrow> run_cmd env fd a m e; Some (Some a, buf', e) }"
    using p assms(4) b(1) by (cases m) (simp_all add: json_step_def is_login_def)
  then show "\<exists>buf'. fb_holds P buf' s \<and> json_step env fd mysql (Some a) buf e = map_option (\<lambda>e'. (Some a, buf', e')) (run_cmd env fd a m e)"
    using b(2) by (cases "run_cmd env fd a m e") auto
qed

fun run_cmds :: "('key, 'w) svr_env \<Rightarrow> int \<Rightarrow> nat \<Rightarrow> YYJ list \<Rightarrow> ('key, 'w) server \<Rightarrow> ('key, 'w) server option" where
  "run_cmds env fd a [] e = Some e"
| "run_cmds env fd a (m # ms) e = do { e \<leftarrow> run_cmd env fd a m e; run_cmds env fd a ms e }"

lemma json_loop_commands:
  assumes "P < 2 ^ 31"
  shows "list_all2 (\<lambda>m t. readable env m t \<and> \<not> is_login m) ms ts \<Longrightarrow> ms \<noteq> [] \<Longrightarrow> fb_holds P buf (concat ts) \<Longrightarrow>
    \<exists>buf'. fb_size buf' = 0 \<and> json_loop env fd mysql (Some a) buf e = map_option (\<lambda>e'. (Some a, buf', e')) (run_cmds env fd a ms e)"
proof (induction ms ts arbitrary: buf e rule: list_all2_induct)
  case (Cons m ms t ts)
  obtain b where b: "fb_holds P b (concat ts)" "json_step env fd mysql (Some a) buf e = map_option (\<lambda>e'. (Some a, b, e')) (run_cmd env fd a m e)"
    using json_step_readable(2) [of env m t P buf "concat ts" fd mysql a e] Cons.hyps(1) Cons.prems(2) assms by auto
  have size: "fb_size b = length (concat ts)" using b(1) by (simp add: fb_holds_def)
  show ?case
  proof (cases "run_cmd env fd a m e")
    case None
    then show ?thesis using b(2) by (intro exI [of _ "fastbuffer_clear buf"]) (subst json_loop.simps, simp add: fastbuffer_clear_def)
  next
    case (Some e1)
    show ?thesis
    proof (cases "ms = []")
      case True
      then have "ts = []" using Cons.hyps(2) by simp
      then show ?thesis using Some True b(2) size by (intro exI [of _ b]) (subst json_loop.simps, simp)
    next
      case False
      then obtain m' ms' t' ts' where "ms = m' # ms'" "ts = t' # ts'" "readable env m' t'" using Cons.hyps(2) by (cases ms; cases ts) auto
      then have "0 < fb_size b" using readable_nonempty size by fastforce
      then show ?thesis using Cons.IH [OF False b(1), of e1] Some b(2) by (subst json_loop.simps) simp
    qed
  qed
qed simp



lemma garbage_step:
  "json_step (demo_env demo_os) 5 True state (demo_buffer ''abc'') e = Some (state, fastbuffer_clear (demo_buffer ''abc''), closefd (svr_events (demo_env demo_os)) 5 e)"
  by (simp add: json_step_def ParseCmd_def demo_buffer_def ptr_fetch_def mem_fetch_def PRE_CHAR_def c_int_id)


text \<open>A worker's job on a connection of a client that is logged in: the bytes are put behind those in the client's
  buffer, the loop runs, and the buffer goes back into the client's object.\<close>

lemma process_data_logged_in:
  assumes "0 < fd" and "port \<noteq> se_mangport env" and "get_state fd (sv_states (ev_client e)) = Some a" and "get_item a e = Some st"
    and "case it_readbuffer st of None \<Rightarrow> r = [] | Some b \<Rightarrow> fb_holds (2 ^ 29) b r"
    and "fb_holds (2 ^ 29) rb s" and "s \<noteq> []" and "length r + length s \<le> 2 ^ 29"
  shows "\<exists>buf. fb_holds (2 ^ 29) buf (r @ s) \<and> process_data (ample env) \<lparr>bi_buf = Some rb, bi_fd = fd, bi_port = port\<rparr> mysql e = do {
      (state, buf, e) \<leftarrow> json_loop (ample env) fd mysql (Some a) buf e;
      (case state of None \<Rightarrow> Some e | Some a \<Rightarrow> do { st \<leftarrow> get_item a e; Some (set_item a (st\<lparr>it_readbuffer := Some buf\<rparr>) e) }) }"
proof -
  obtain junk where rb: "fb_buf rb = Some (map Some s @ junk)" "fb_size rb = length s"
    by (rule holds_block [of "2 ^ 29" rb s "[]"]) (use assms(6,7) in simp_all)
  have "\<exists>buf. fb_holds (2 ^ 29) buf (r @ s) \<and> (case it_readbuffer st of
      Some b \<Rightarrow> do { (n, b) \<leftarrow> fastbuffer_append (se_avail (ample env)) (fb_buf rb) (fb_size rb) b; Some b } | None \<Rightarrow> Some rb) = Some buf"
  proof (cases "it_readbuffer st")
    case (Some b)
    then obtain b' where "fastbuffer_append (se_avail (ample env)) (fb_buf rb) (fb_size rb) b = Some (length s, b')" "fb_holds (2 ^ 29) b' (r @ s)"
      using append_holds [of "2 ^ 29" b r s "se_avail (ample env)" junk] assms(5,8) rb by (auto simp: ample_def)
    then show ?thesis using Some by simp
  qed (use assms(5,6) in simp)
  then obtain buf where buf: "fb_holds (2 ^ 29) buf (r @ s)" "(case it_readbuffer st of
      Some b \<Rightarrow> do { (n, b) \<leftarrow> fastbuffer_append (se_avail (ample env)) (fb_buf rb) (fb_size rb) b; Some b } | None \<Rightarrow> Some rb) = Some buf" by blast
  have "se_mangport (ample env) = se_mangport env" by (simp add: ample_def)
  then show ?thesis using buf assms(1-4) by (intro exI [of _ buf]) (simp add: process_data_def JsonProcess_def)
qed

text \<open>
  C2 (functional). A worker that is given any number of complete commands of a client that is logged in runs them
  one after the other in the order of the bytes, all of them and nothing else, and leaves the client's
  buffer empty.
\<close>

theorem commands_run_in_order:
  assumes "list_all2 (\<lambda>m t. readable (ample env) m t \<and> \<not> is_login m) ms ts" and "ms \<noteq> []"
    and "fb_holds (2 ^ 29) rb (concat ts)" and "0 < fd" and "port \<noteq> se_mangport env"
    and "get_state fd (sv_states (ev_client e)) = Some a" and "get_item a e = Some st"
    and "case it_readbuffer st of None \<Rightarrow> True | Some b \<Rightarrow> fb_holds (2 ^ 29) b []"
  shows "\<exists>buf. fb_size buf = 0 \<and> process_data (ample env) \<lparr>bi_buf = Some rb, bi_fd = fd, bi_port = port\<rparr> mysql e = do {
      e' \<leftarrow> run_cmds (ample env) fd a ms e;
      st' \<leftarrow> get_item a e';
      Some (set_item a (st'\<lparr>it_readbuffer := Some buf\<rparr>) e') }"
proof -
  have len: "length (concat ts) \<le> 2 ^ 29" using assms(3) by (simp add: fb_holds_def)
  obtain m t ms' ts' where "ms = m # ms'" "ts = t # ts'" "readable (ample env) m t" using assms(1,2) by (cases ms; cases ts) auto
  then have ne: "concat ts \<noteq> []" using readable_nonempty [of "ample env" m t] by auto
  have st: "case it_readbuffer st of None \<Rightarrow> [] = [] | Some b \<Rightarrow> fb_holds (2 ^ 29) b []" using assms(8) by (cases "it_readbuffer st") auto
  obtain buf where buf: "fb_holds (2 ^ 29) buf (concat ts)" "process_data (ample env) \<lparr>bi_buf = Some rb, bi_fd = fd, bi_port = port\<rparr> mysql e = do {
      (state, buf, e) \<leftarrow> json_loop (ample env) fd mysql (Some a) buf e;
      (case state of None \<Rightarrow> Some e | Some a \<Rightarrow> do { st \<leftarrow> get_item a e; Some (set_item a (st\<lparr>it_readbuffer := Some buf\<rparr>) e) }) }"
    using process_data_logged_in [OF assms(4-7) st assms(3) ne] len by auto
  obtain buf' where "fb_size buf' = 0" "json_loop (ample env) fd mysql (Some a) buf e = map_option (\<lambda>e'. (Some a, buf', e')) (run_cmds (ample env) fd a ms e)"
    using json_loop_commands [OF _ assms(1,2) buf(1), where fd = fd and mysql = mysql and a = a and e = e] by auto
  then show ?thesis unfolding buf(2) by (intro exI [of _ buf']) (cases "run_cmds (ample env) fd a ms e"; simp)
qed

lemma a_login_readable: "readable (demo_env os) a_login a_login_text" "\<not> is_login a_login"
  using a_login_formats [of rev_lib] one_text_ok [of "envelope rev_lib a_login"]
  by (simp_all add: readable_def demo_env_def is_login_def a_login_def) (simp_all add: a_login_text_def)

text \<open>The server with a client that is logged in on connection 5.\<close>

definition demo_client :: "(unit, string list) server" where
  "demo_client = (demo_loop new_fastbuffer [])\<lparr>ev_client := demo_svr\<lparr>sv_items := [1 \<mapsto> new_Item_data (demo_env demo_os)],
     sv_next := 2, sv_states := add_state 5 (Some 1) (new_hash_map None)\<rparr>\<rparr>"

theorem commands_run_in_order_witness:
  "\<exists>buf. fb_size buf = 0 \<and> process_data (ample (demo_env demo_os)) \<lparr>bi_buf = Some (demo_buffer (a_login_text @ a_login_text)), bi_fd = 5, bi_port = 80\<rparr> True demo_client = do {
      e' \<leftarrow> run_cmds (ample (demo_env demo_os)) 5 1 [a_login, a_login] demo_client;
      st' \<leftarrow> get_item 1 e';
      Some (set_item 1 (st'\<lparr>it_readbuffer := Some buf\<rparr>) e') }"
proof (rule commands_run_in_order [where ts = "[a_login_text, a_login_text]" and st = "new_Item_data (demo_env demo_os)"])
  show "fb_holds (2 ^ 29) (demo_buffer (a_login_text @ a_login_text)) (concat [a_login_text, a_login_text])"
    using demo_holds [of "a_login_text @ a_login_text" "2 ^ 29"] by (simp add: a_login_text_def)
  show "list_all2 (\<lambda>m t. readable (ample (demo_env demo_os)) m t \<and> \<not> is_login m) [a_login, a_login] [a_login_text, a_login_text]"
    using a_login_readable(1) [of demo_os] a_login_readable(2) by (simp add: readable_def ample_def)
qed (simp_all add: demo_client_def hm.get_add get_item_def new_Item_data_def demo_env_def)

text \<open>
  C38 (error). A complete command that is not a login, from a client that is not logged in, is never removed from
  the buffer: a round leaves everything as it was, and the loop of the worker does not return.
\<close>

theorem command_before_login_hangs:
  assumes "readable env m t" and "\<not> is_login m" and "fb_holds P buf (t @ s)" and "P < 2 ^ 31"
  shows "json_step env fd mysql None buf e = Some (None, buf, e) \<and> json_loop env fd mysql None buf e = None"
proof
  show st: "json_step env fd mysql None buf e = Some (None, buf, e)" by (rule json_step_readable(1) [OF assms(1,3,4,2)])
  have size: "0 < fb_size buf" using assms(3) readable_nonempty [OF assms(1)] by (auto simp: fb_holds_def)
  have "\<not> (json_step env fd mysql None buf e = Some (None, buf, e) \<and> 0 < fb_size buf)" if "json_loop env fd mysql None buf e = Some r" for r
    using that
  proof (rule json_loop.raw_induct [where P = "\<lambda>env fd mysql state buf e r. \<not> (json_step env fd mysql state buf e = Some (state, buf, e) \<and> 0 < fb_size buf)", rotated], goal_cases)
    case (1 f env fd mysql state buf e r)
    show ?case
    proof
      assume x: "json_step env fd mysql state buf e = Some (state, buf, e) \<and> 0 < fb_size buf"
      then have "f env fd mysql state buf e = Some r" using 1(2) by simp
      then show False using 1(1) x by blast
    qed
  qed
  then show "json_loop env fd mysql None buf e = None" using st size by (cases "json_loop env fd mysql None buf e") auto
qed

theorem command_before_login_hangs_witness:
  "json_loop (demo_env demo_os) 5 True None (demo_buffer (a_login_text @ [])) (demo_loop new_fastbuffer []) = None"
proof -
  have "fb_holds 1000 (demo_buffer (a_login_text @ [])) (a_login_text @ [])" by (rule demo_holds) (simp add: a_login_text_def)
  from command_before_login_hangs [OF a_login_readable this, of demo_os 5 True "demo_loop new_fastbuffer []"] show ?thesis by simp
qed

text \<open>
  C39 (error). A command of which only a part has arrived closes the connection, although the client's object
  has a buffer for the rest: the part is thrown away.
\<close>

theorem partial_command_closes:
  assumes "readable env m t" and "fb_holds P buf (take k t)" and "0 < k" and "k < length t" and "P < 2 ^ 31"
  shows "json_loop env fd mysql state buf e = Some (state, fastbuffer_clear buf, closefd (svr_events env) fd e)"
proof -
  have fm: "FormatCmd (se_lib env) m [] = Some t" "length t < 65536" using assms(1) by (simp_all add: readable_def)
  obtain lo hi x where t: "t = PRE_CHAR # lo # hi # x" "word_value lo hi = length t" using format_frame [OF fm(1)] fm(2) by (metis mod_less)
  obtain junk where j: "fb_buf buf = Some (map Some (take k t) @ junk)" "fb_size buf = k"
    by (rule holds_block [of P buf "take k t" "[]"]) (use assms(2-4) in auto)
  have len: "c_int (int (fb_size buf)) = int k" using assms(2,4,5) j(2) by (auto simp: fb_holds_def c_int_id)
  have "ParseCmd (se_lib env) (se_json env) (fb_buf buf) (int k) 0 = Some (ERROR_BUFSIZE, 0, None)"
  proof (cases "k < 3")
    case True
    then show ?thesis by (simp add: ParseCmd_def)
  next
    case False
    then have "take k t = PRE_CHAR # lo # hi # take (k - 3) x" using t(1) by (cases k; cases "k - 1"; cases "k - 2") auto
    then have "ptr_fetch (fb_buf buf) 0 3 = Some [Some PRE_CHAR, Some lo, Some hi]" using j(1) fetch_frame(1) by metis
    then show ?thesis using False t(2) assms(4) by (simp add: ParseCmd_def Let_def)
  qed
  then have "json_step env fd mysql state buf e = Some (state, fastbuffer_clear buf, closefd (svr_events env) fd e)" using len by (simp add: json_step_def)
  then show ?thesis by (subst json_loop.simps) (simp add: fastbuffer_clear_def)
qed

theorem partial_command_closes_witness:
  "json_loop (demo_env demo_os) 5 True (Some 1) (demo_buffer (take 20 a_login_text)) (demo_loop new_fastbuffer [])
    = Some (Some 1, fastbuffer_clear (demo_buffer (take 20 a_login_text)), closefd (svr_events (demo_env demo_os)) 5 (demo_loop new_fastbuffer []))"
  by (rule partial_command_closes [OF a_login_readable(1), where P = 1000 and k = 20], rule demo_holds) (simp_all add: a_login_text_def)

end
