(* ===== verification/WorkerPool.thy ===== *)
theory WorkerPool
  imports ServerProps RedisProps
begin

text \<open>
  The workers (\<open>work_thread\<close> of \<open>src/yymm_svr/yymms_svr.cpp\<close>) and the event loop that feeds them, as one
  transition system: every step is one call that holds a mutex or uses a semaphore, and the threads take their
  steps in any order. The comment in \<open>data_receive\<close> promises that no two threads process the same socket.
\<close>

section \<open>Processing leaves the queues alone\<close>

definition queues_kept :: "('key, 'w) server \<Rightarrow> ('key, 'w) server \<Rightarrow> bool" where
  "queues_kept e e' \<longleftrightarrow> sv_jobs (ev_client e') = sv_jobs (ev_client e) \<and> sv_threads (ev_client e') = sv_threads (ev_client e) \<and>
     sv_threadnum (ev_client e') = sv_threadnum (ev_client e)"

lemma queues_kept_refl [simp]: "queues_kept e e"
  by (simp add: queues_kept_def)

lemma queues_kept_trans [trans]: "queues_kept e e' \<Longrightarrow> queues_kept e' e'' \<Longrightarrow> queues_kept e e''"
  by (simp add: queues_kept_def)

lemma queues_kept_client: "ev_client e' = ev_client e \<Longrightarrow> queues_kept e e'"
  by (simp add: queues_kept_def)

lemma queues_kept_set_item [simp]: "queues_kept e (set_item a st e') = queues_kept e e'" "queues_kept (set_item a st e) e' = queues_kept e e'"
  by (simp_all add: queues_kept_def set_item_def)

lemma queues_kept_sys [simp]: "queues_kept e (e'\<lparr>ev_sys := w\<rparr>) = queues_kept e e'" "queues_kept (e\<lparr>ev_sys := w\<rparr>) e' = queues_kept e e'"
  by (simp_all add: queues_kept_def)

lemma data_send_client [simp]: "ev_client (data_send env fd b flag e) = ev_client e"
  by (simp add: data_send_def flag_send_def msg_send_def Let_def split: option.split prod.split send_result.split)

lemma closefd_kept [simp]: "queues_kept e (closefd env fd e') = queues_kept e e'"
  by (simp add: queues_kept_def closefd_def)

lemma sendCmd_kept: "sendCmd env fd m e = Some (ok, e') \<Longrightarrow> queues_kept e e'"
  by (auto simp: sendCmd_def bind_eq_Some_conv queues_kept_def split: if_splits)

lemma openURL_kept: "openURL env fd a e = Some e' \<Longrightarrow> queues_kept e e'"
  by (auto simp: openURL_def bind_eq_Some_conv Let_def dest: sendCmd_kept)

lemma ShellExit_kept: "ShellExit env a e = Some e' \<Longrightarrow> queues_kept e e'"
  by (auto simp: ShellExit_def bind_eq_Some_conv dest: sendCmd_kept split: if_splits)

lemma ShellExec_kept: "ShellExec env a e = Some (ok, e') \<Longrightarrow> queues_kept e e'"
  by (auto simp: ShellExec_def bind_eq_Some_conv Let_def split: if_splits)

lemma LoginCmd_kept: "LoginCmd env fd a mysql e = Some e' \<Longrightarrow> queues_kept e e'"
proof -
  assume l: "LoginCmd env fd a mysql e = Some e'"
  then obtain st ok e1 where c: "get_item a e = Some st" "CheckWhiteList env (it_uid st) mysql e = Some (ok, e1)"
    by (auto simp: LoginCmd_def bind_eq_Some_conv)
  have "queues_kept e e1" using c(2) by (auto simp: CheckWhiteList_def bind_eq_Some_conv split: if_splits)
  moreover have "queues_kept e1 e'" using l c
    by (auto simp: LoginCmd_def bind_eq_Some_conv Let_def dest!: sendCmd_kept split: if_splits option.splits prod.splits)
  ultimately show ?thesis by (rule queues_kept_trans)
qed

lemma enter_login_kept: "enter_login env fd l st buf e = (a, e') \<Longrightarrow> queues_kept e e'"
  by (auto simp: enter_login_def queues_kept_def Let_def split: option.splits)

lemma set_login_kept: "set_login env l a e = Some e' \<Longrightarrow> queues_kept e e'"
  by (auto simp: set_login_def bind_eq_Some_conv Let_def)

lemma run_Login1_kept: "run_Login1 env fd a cmd e = Some e' \<Longrightarrow> queues_kept e e'"
  using sendCmd_kept by (fastforce simp: run_Login1_def bind_eq_Some_conv Let_def queues_kept_def set_item_def)

lemma run_Logout_kept: "run_Logout env fd a e = Some e' \<Longrightarrow> queues_kept e e'"
  using sendCmd_kept ShellExit_kept by (fastforce simp: run_Logout_def bind_eq_Some_conv Let_def queues_kept_def)

lemma run_OpenUrl_kept: "run_OpenUrl env fd a cmd e = Some e' \<Longrightarrow> queues_kept e e'"
proof -
  assume r: "run_OpenUrl env fd a cmd e = Some e'"
  obtain st c sc where st: "get_item a e = Some st" "ou_channelID cmd = Some c" "ou_subChannelID cmd = Some sc"
    using r by (auto simp: run_OpenUrl_def bind_eq_Some_conv)
  let ?e = "set_item a (st\<lparr>it_channelID := c, it_subChannelID := sc, it_url := ou_url cmd\<rparr>) e"
  obtain b e1 ok where e1: "(if isConnectShellClient st then do { e \<leftarrow> openURL env (it_shellClient_fd st) a ?e; Some (True, e) } else ShellExec env a ?e) = Some (b, e1)"
      "sendCmd env fd (OpenUrl_res (new_OpenUrl_res\<lparr>our_bSucc := b\<rparr>)) e1 = Some (ok, e')"
    using r st unfolding run_OpenUrl_def Let_def by (auto simp: bind_eq_Some_conv split del: if_split)
  have "queues_kept ?e e1" using e1(1) openURL_kept ShellExec_kept by (fastforce simp: bind_eq_Some_conv split: if_splits)
  then have "queues_kept e e1" by (simp add: queues_kept_def set_item_def)
  then show ?thesis using sendCmd_kept [OF e1(2)] by (rule queues_kept_trans)
qed

lemma run_cmd_kept: "run_cmd env fd a m e = Some e' \<Longrightarrow> queues_kept e e'"
proof (rule run_cmd.raw_induct [where P = "\<lambda>env fd a m e e'. queues_kept e e'"], goal_cases)
  case (1 f env fd a m e e')
  then show ?case using run_Login1_kept run_Logout_kept run_OpenUrl_kept
    by (cases m) (auto simp: bind_eq_Some_conv split: option.splits)
qed

lemma json_step_kept:
  assumes "json_step env fd mysql state buf e = Some (state', buf', e')"
  shows "queues_kept e e'"
proof -
  obtain err off j where p: "ParseCmd (se_lib env) (se_json env) (fb_buf buf) (c_int (int (fb_size buf))) 0 = Some (err, off, j)"
    using assms by (auto simp: json_step_def bind_eq_Some_conv)
  show ?thesis
  proof (cases "err = ERROR_SUCCESS")
    case True
    then obtain m where m: "j = Some m" using assms p by (auto simp: json_step_def bind_eq_Some_conv)
    note r = assms [unfolded json_step_def p True m Option.bind.bind_lunit]
    have other: "queues_kept e e'" if "(case state of None \<Rightarrow> Some (None, buf, e) | Some a \<Rightarrow> do {
        e \<leftarrow> run_cmd env fd a m e; (n, out, buf) \<leftarrow> fastbuffer_read False (nat off) buf; Some (Some a, buf, e) }) = Some (state', buf', e')"
      using that run_cmd_kept by (auto simp: bind_eq_Some_conv split: option.splits)
    show ?thesis
    proof (cases m)
      case (Login l)
      obtain a e1 where e1: "enter_login env fd l state buf e = (a, e1)" by fastforce
      obtain e2 where e2: "set_login env l a e1 = Some e2" "LoginCmd env fd a mysql e2 = Some e'"
        using r Login e1 by (auto simp: bind_eq_Some_conv)
      show ?thesis using enter_login_kept [OF e1] set_login_kept [OF e2(1)] LoginCmd_kept [OF e2(2)] queues_kept_trans by blast
    qed (use r other in auto)
  qed (use assms p in \<open>auto simp: json_step_def\<close>)
qed

lemma json_loop_kept: "json_loop env fd mysql state buf e = Some r \<Longrightarrow> queues_kept e (snd (snd r))"
proof (rule json_loop.raw_induct [where P = "\<lambda>env fd mysql state buf e r. queues_kept e (snd (snd r))"], goal_cases)
  case (1 f env fd mysql state buf e r)
  obtain st b e1 where st: "json_step env fd mysql state buf e = Some (st, b, e1)" using 1(3) by (auto simp: bind_eq_Some_conv)
  have "queues_kept e1 (snd (snd r))" using 1(3) st 1(2) [of env fd mysql st b e1 r] by (auto split: if_splits)
  with json_step_kept [OF st] show ?case by (rule queues_kept_trans)
qed

lemma JsonProcess_kept: "JsonProcess env fd rb mysql e = Some e' \<Longrightarrow> queues_kept e e'"
  by (auto simp: JsonProcess_def bind_eq_Some_conv Let_def dest!: json_loop_kept split: option.splits if_splits)

lemma exec_step_kept:
  assumes "exec_step env fd buf e = Some (buf', e')"
  shows "queues_kept e e'"
proof -
  obtain err off j where p: "ParseCmd (se_lib env) (se_json env) (fb_buf buf) (c_int (int (fb_size buf))) 0 = Some (err, off, j)"
    using assms by (auto simp: exec_step_def bind_eq_Some_conv)
  show ?thesis
  proof (cases "err = ERROR_SUCCESS")
    case True
    then obtain m where m: "j = Some m" using assms p by (auto simp: exec_step_def bind_eq_Some_conv)
    have "queues_kept e e1" if "openURL env fd a (set_item a st e) = Some e1" for a st e1
      using openURL_kept [OF that] by (simp add: queues_kept_def set_item_def)
    then show ?thesis using assms p True m by (cases m) (auto simp: exec_step_def bind_eq_Some_conv split: option.splits)
  qed (use assms p in \<open>auto simp: exec_step_def\<close>)
qed

lemma exec_loop_kept: "exec_loop env fd buf e = Some r \<Longrightarrow> queues_kept e (snd r)"
proof (rule exec_loop.raw_induct [where P = "\<lambda>env fd buf e r. queues_kept e (snd r)"], goal_cases)
  case (1 f env fd buf e r)
  obtain b e1 where st: "exec_step env fd buf e = Some (b, e1)" using 1(3) by (auto simp: bind_eq_Some_conv)
  have "queues_kept e1 (snd r)" using 1(3) st 1(2) [of env fd b e1 r] by (auto split: if_splits)
  with exec_step_kept [OF st] show ?case by (rule queues_kept_trans)
qed

lemma process_data_kept: "process_data env info mysql e = Some e' \<Longrightarrow> queues_kept e e'"
  by (auto simp: process_data_def ProcessMmsExecData_def bind_eq_Some_conv dest: JsonProcess_kept dest!: exec_loop_kept split: option.splits if_splits)

section \<open>The threads\<close>

abbreviation pool_size :: "'key MmsServer \<Rightarrow> nat" where
  "pool_size s \<equiv> length (bw_workers (sv_jobs s))"

datatype worker_pc = Waiting | Woken | Busy BossInfo | Stopped
datatype producer_pc = Ready | Posting nat

text \<open>The server with the place of every thread; \<open>pl_received\<close> and \<open>pl_taken\<close> record the jobs in the order in
  which they were queued and taken. The workers are the threads that \<open>init\<close> created.\<close>

record 'key pool =
  pl_svr :: "'key MmsServer"
  pl_worker :: "nat \<Rightarrow> worker_pc"
  pl_producer :: producer_pc
  pl_stopping :: bool
  pl_received :: "BossInfo list"
  pl_taken :: "nat \<Rightarrow> BossInfo list"

definition new_pool :: "'key MmsServer \<Rightarrow> 'key pool" where
  "new_pool s = \<lparr>pl_svr = s, pl_worker = (\<lambda>i. Waiting), pl_producer = Ready, pl_stopping = False, pl_received = [], pl_taken = (\<lambda>i. [])\<rparr>"

inductive pool_step :: "('key, 'w) svr_env \<Rightarrow> 'key pool \<Rightarrow> 'key pool \<Rightarrow> bool" for env :: "('key, 'w) svr_env" where
  push: "pl_producer p = Ready \<Longrightarrow> 0 < fd \<Longrightarrow> receive_push fd rb port (pl_svr p) = Some (int i, s) \<Longrightarrow>
    pool_step env p (p\<lparr>pl_svr := s, pl_producer := Posting i, pl_received := pl_received p @ [\<lparr>bi_buf = Some rb, bi_fd = fd, bi_port = port\<rparr>]\<rparr>)"
| post: "pl_producer p = Posting i \<Longrightarrow> receive_post (int i) (pl_svr p) = Some s \<Longrightarrow> pool_step env p (p\<lparr>pl_svr := s, pl_producer := Ready\<rparr>)"
| wait: "i < pool_size (pl_svr p) \<Longrightarrow> pl_worker p i = Waiting \<Longrightarrow> worker_wait i (pl_svr p) = Some (Some (False, s)) \<Longrightarrow>
    pool_step env p (p\<lparr>pl_svr := s, pl_worker := (pl_worker p)(i := Woken)\<rparr>)"
| leave: "i < pool_size (pl_svr p) \<Longrightarrow> pl_worker p i = Waiting \<Longrightarrow> worker_wait i (pl_svr p) = Some (Some (True, s)) \<Longrightarrow>
    pool_step env p (p\<lparr>pl_svr := s, pl_worker := (pl_worker p)(i := Stopped)\<rparr>)"
| take: "pl_worker p i = Woken \<Longrightarrow> worker_take i (pl_svr p) = Some (Some info, s) \<Longrightarrow>
    pool_step env p (p\<lparr>pl_svr := s, pl_worker := (pl_worker p)(i := Busy info), pl_taken := (pl_taken p)(i := pl_taken p i @ [info])\<rparr>)"
| empty: "pl_worker p i = Woken \<Longrightarrow> worker_take i (pl_svr p) = Some (None, s) \<Longrightarrow>
    pool_step env p (p\<lparr>pl_svr := s, pl_worker := (pl_worker p)(i := Waiting)\<rparr>)"
| finish: "pl_worker p i = Busy info \<Longrightarrow> ev_client e = pl_svr p \<Longrightarrow> process_data env info mysql e = Some e' \<Longrightarrow>
    pool_step env p (p\<lparr>pl_svr := ev_client e', pl_worker := (pl_worker p)(i := Waiting)\<rparr>)"
| stop: "\<not> pl_stopping p \<Longrightarrow> stop_workers 0 (nat (sv_threadnum (pl_svr p))) (pl_svr p) = Some s \<Longrightarrow> pool_step env p (p\<lparr>pl_svr := s, pl_stopping := True\<rparr>)"

section \<open>The invariant\<close>

definition is_job :: "BossInfo \<Rightarrow> bool" where
  "is_job x \<longleftrightarrow> 0 < bi_fd x \<and> bi_buf x \<noteq> None"

definition mine :: "'key MmsServer \<Rightarrow> nat \<Rightarrow> BossInfo \<Rightarrow> bool" where
  "mine s i x \<longleftrightarrow> worker_of (bi_fd x) s = i"

text \<open>What is outside the queue: a worker that was woken, and a wake-up that is still to come.\<close>

definition in_flight :: "'key pool \<Rightarrow> nat \<Rightarrow> nat" where
  "in_flight p i = (if pl_worker p i = Woken then 1 else 0) + (if pl_producer p = Posting i then 1 else 0)"

definition exit_of :: "nat \<Rightarrow> 'key MmsServer \<Rightarrow> bool" where
  "exit_of i s = (case sv_threads s i of None \<Rightarrow> False | Some d \<Rightarrow> td_exitflag d)"

text \<open>The jobs a worker has taken and those in its queue are the jobs received for its connections, in order; as
  long as nobody stops the server, there is exactly one wake-up per queued job.\<close>

definition worker_inv :: "'key pool \<Rightarrow> nat \<Rightarrow> bool" where
  "worker_inv p i \<longleftrightarrow> pl_taken p i @ jobs_of i (pl_svr p) = filter (mine (pl_svr p) i) (pl_received p) \<and>
     (\<forall>x. pl_worker p i = Busy x \<longrightarrow> x \<in> set (pl_taken p i)) \<and>
     (\<not> pl_stopping p \<longrightarrow> \<not> exit_of i (pl_svr p) \<and> length (jobs_of i (pl_svr p)) = sem_of i (pl_svr p) + in_flight p i)"

definition pool_inv :: "'key pool \<Rightarrow> bool" where
  "pool_inv p \<longleftrightarrow> workers_ok (pl_svr p) \<and> bw_def (sv_jobs (pl_svr p)) = new_BossInfo \<and> (\<forall>x\<in>set (pl_received p). is_job x) \<and>
     (\<forall>i < pool_size (pl_svr p). worker_inv p i) \<and> (\<forall>i. pl_worker p i \<noteq> Waiting \<longrightarrow> i < pool_size (pl_svr p)) \<and>
     (\<forall>i. pl_producer p = Posting i \<longrightarrow> i < pool_size (pl_svr p))"

subsection \<open>What each call does to the queues\<close>

text \<open>The set-up of the workers stays.\<close>

definition same_pool :: "'key MmsServer \<Rightarrow> 'key MmsServer \<Rightarrow> bool" where
  "same_pool s s' \<longleftrightarrow> workers_ok s' \<and> sv_threadnum s' = sv_threadnum s \<and> pool_size s' = pool_size s \<and> bw_def (sv_jobs s') = bw_def (sv_jobs s)"

lemma same_mine: "same_pool s s' \<Longrightarrow> mine s' = mine s"
  by (simp add: same_pool_def mine_def worker_of_def fun_eq_iff)

lemma push_effect:
  assumes "workers_ok s" and "0 \<le> fd" and "receive_push fd rb port s = Some (int i, s')"
  shows "same_pool s s'" "i = worker_of fd s" "i < pool_size s" "sem_of j s' = sem_of j s" "exit_of j s' = exit_of j s"
    "jobs_of j s' = (if j = i then jobs_of j s @ [\<lparr>bi_buf = Some rb, bi_fd = fd, bi_port = port\<rparr>] else jobs_of j s)"
proof -
  have s': "i = worker_of fd s" "s' = pushed i \<lparr>bi_buf = Some rb, bi_fd = fd, bi_port = port\<rparr> s"
    using assms(3) receive_push_eq [OF assms(1,2), of rb port] by auto
  have i: "i < pool_size s" using worker_of_less [OF assms(1,2)] s'(1) by simp
  show "i = worker_of fd s" "i < pool_size s" by fact+
  show "same_pool s s'" using pushed_ok [OF assms(1)] unfolding s' same_pool_def by (simp add: pushed_def)
  show "sem_of j s' = sem_of j s" "exit_of j s' = exit_of j s" "jobs_of j s' = (if j = i then jobs_of j s @ [\<lparr>bi_buf = Some rb, bi_fd = fd, bi_port = port\<rparr>] else jobs_of j s)"
    using i s'(2) by (simp_all add: sem_of_def exit_of_def jobs_of_def pushed_def)
qed

lemma post_effect:
  assumes "workers_ok s" and "i < pool_size s" and "receive_post (int i) s = Some s'"
  shows "same_pool s s'" "jobs_of j s' = jobs_of j s" "sem_of j s' = (if j = i then sem_of j s + 1 else sem_of j s)" "exit_of j s' = exit_of j s"
proof -
  have s': "s' = posted i s" using receive_post_eq [OF assms(1,2)] assms(3) by simp
  show "same_pool s s'" using posted_ok [OF assms(1)] unfolding s' same_pool_def by (simp add: posted_def)
  show "jobs_of j s' = jobs_of j s" by (simp add: s' jobs_of_def posted_def)
  obtain d where "sv_threads s i = Some d" using assms(1,2) by (auto simp: workers_ok_def)
  then show "sem_of j s' = (if j = i then sem_of j s + 1 else sem_of j s)" "exit_of j s' = exit_of j s" by (simp_all add: s' sem_of_def exit_of_def posted_def)
qed

lemma wait_effect:
  assumes "workers_ok s" and "worker_wait i s = Some (Some (x, s'))"
  shows "same_pool s s'" "jobs_of j s' = jobs_of j s" "sem_of j s = (if j = i then sem_of j s' + 1 else sem_of j s')" "exit_of j s' = exit_of j s"
    "x = exit_of i s"
proof -
  obtain d where d: "sv_threads s i = Some d" "0 < td_sem d" "x = td_exitflag d" "s' = s\<lparr>sv_threads := (sv_threads s)(i \<mapsto> d\<lparr>td_sem := td_sem d - 1\<rparr>)\<rparr>"
    using assms(2) by (auto simp: worker_wait_def bind_eq_Some_conv split: if_splits)
  show "same_pool s s'" using assms(1) d(1) unfolding d(4) same_pool_def workers_ok_def by auto
  show "jobs_of j s' = jobs_of j s" "sem_of j s = (if j = i then sem_of j s' + 1 else sem_of j s')" "exit_of j s' = exit_of j s" "x = exit_of i s"
    using d by (simp_all add: jobs_of_def sem_of_def exit_of_def)
qed

lemma take_effect:
  assumes "workers_ok s" and "i < pool_size s" and "bw_def (sv_jobs s) = new_BossInfo" and "worker_take i s = Some (r, s')"
  shows "same_pool s s'" "sem_of j s' = sem_of j s" "exit_of j s' = exit_of j s" "jobs_of j s' = (if j = i then tl (jobs_of j s) else jobs_of j s)"
    "r = (if jobs_of i s = [] \<or> bi_fd (hd (jobs_of i s)) = 0 \<or> bi_buf (hd (jobs_of i s)) = None then None else Some (hd (jobs_of i s)))"
proof -
  obtain d where d: "sv_threads s i = Some d" "td_index d = int i" using assms(1,2) by (auto simp: workers_ok_def)
  obtain q t where qt: "bw_workers (sv_jobs s) ! i = (q, t)" by fastforce
  have q: "jobs_of i s = q" by (simp add: jobs_of_def qt)
  have same: "q = [] \<Longrightarrow> (bw_workers (sv_jobs s))[i := ([], t)] = bw_workers (sv_jobs s)" using qt list_update_id [of "bw_workers (sv_jobs s)" i] by simp
  have s': "s' = s\<lparr>sv_jobs := (sv_jobs s)\<lparr>bw_workers := (bw_workers (sv_jobs s))[i := (tl q, t)]\<rparr>\<rparr>"
    using assms(2-4) d qt same by (cases q) (simp_all add: worker_take_def PopJob_def is_worker_def new_BossInfo_def)
  have r: "r = (if q = [] \<or> bi_fd (hd q) = 0 \<or> bi_buf (hd q) = None then None else Some (hd q))"
    using assms(2-4) d qt by (cases q) (auto simp: worker_take_def PopJob_def is_worker_def new_BossInfo_def)
  show "r = (if jobs_of i s = [] \<or> bi_fd (hd (jobs_of i s)) = 0 \<or> bi_buf (hd (jobs_of i s)) = None then None else Some (hd (jobs_of i s)))"
    using r q by simp
  show "sem_of j s' = sem_of j s" "exit_of j s' = exit_of j s" by (simp_all add: s' sem_of_def exit_of_def)
  show "jobs_of j s' = (if j = i then tl (jobs_of j s) else jobs_of j s)" using assms(2) q by (simp add: s' jobs_of_def)
  have "snd ((bw_workers (sv_jobs s))[i := (tl q, t)] ! k) = snd (bw_workers (sv_jobs s) ! k)" for k
    using assms(2) qt by (cases "k = i") simp_all
  then show "same_pool s s'" using assms(1) unfolding s' same_pool_def workers_ok_def by simp
qed

lemma sem_post_kept: "workers_ok s \<Longrightarrow> sem_post i s = Some s' \<Longrightarrow> workers_ok s' \<and> sv_jobs s' = sv_jobs s \<and> sv_threadnum s' = sv_threadnum s"
  unfolding workers_ok_def sem_post_def by (fastforce simp: bind_eq_Some_conv)

lemma stop_effect: "workers_ok s \<Longrightarrow> stop_workers i n s = Some s' \<Longrightarrow> workers_ok s' \<and> sv_jobs s' = sv_jobs s \<and> sv_threadnum s' = sv_threadnum s"
proof (induction i n s rule: stop_workers.induct)
  case (2 i n s)
  obtain r s1 where r: "GetWorkerTouch (int i) (sv_jobs s) = Some r"
      "(case r of None \<Rightarrow> Some s | Some k \<Rightarrow> do { d \<leftarrow> sv_threads s k; sem_post k (s\<lparr>sv_threads := (sv_threads s)(k \<mapsto> d\<lparr>td_exitflag := True\<rparr>)\<rparr>) }) = Some s1"
      "stop_workers (i + 1) n s1 = Some s'" using "2.prems"(2) by (auto simp: bind_eq_Some_conv)
  have "workers_ok s1 \<and> sv_jobs s1 = sv_jobs s \<and> sv_threadnum s1 = sv_threadnum s"
  proof (cases r)
    case (Some k)
    then obtain d where d: "sv_threads s k = Some d" "sem_post k (s\<lparr>sv_threads := (sv_threads s)(k \<mapsto> d\<lparr>td_exitflag := True\<rparr>)\<rparr>) = Some s1"
      using r(2) by (auto simp: bind_eq_Some_conv)
    have "workers_ok (s\<lparr>sv_threads := (sv_threads s)(k \<mapsto> d\<lparr>td_exitflag := True\<rparr>)\<rparr>)" using "2.prems"(1) d(1) by (auto simp: workers_ok_def)
    from sem_post_kept [OF this d(2)] show ?thesis by simp
  qed (use r(2) "2.prems"(1) in simp)
  then show ?case using "2.IH" [OF r(1) r(2)] r(3) by auto
qed auto


subsection \<open>Every step keeps the invariant\<close>

lemma pool_inv_update:
  assumes "pool_inv p" and "same_pool (pl_svr p) (pl_svr p')" and "\<And>i. i < pool_size (pl_svr p) \<Longrightarrow> worker_inv p i \<Longrightarrow> worker_inv p' i"
    and "\<And>i. pl_worker p' i \<noteq> Waiting \<Longrightarrow> i < pool_size (pl_svr p)" and "\<And>i. pl_producer p' = Posting i \<Longrightarrow> i < pool_size (pl_svr p)"
    and "\<And>x. x \<in> set (pl_received p') \<Longrightarrow> is_job x"
  shows "pool_inv p'"
  using assms by (auto simp: pool_inv_def same_pool_def)

lemma inv_worker: "pool_inv p \<Longrightarrow> pl_worker p i \<noteq> Waiting \<Longrightarrow> i < pool_size (pl_svr p)"
  and inv_producer: "pool_inv p \<Longrightarrow> pl_producer p = Posting i \<Longrightarrow> i < pool_size (pl_svr p)"
  and inv_job: "pool_inv p \<Longrightarrow> x \<in> set (pl_received p) \<Longrightarrow> is_job x"
  and inv_ok: "pool_inv p \<Longrightarrow> workers_ok (pl_svr p)" "pool_inv p \<Longrightarrow> bw_def (sv_jobs (pl_svr p)) = new_BossInfo"
  and inv_each: "pool_inv p \<Longrightarrow> i < pool_size (pl_svr p) \<Longrightarrow> worker_inv p i"
  by (simp_all add: pool_inv_def)

lemma jobs_are_jobs: "pool_inv p \<Longrightarrow> i < pool_size (pl_svr p) \<Longrightarrow> x \<in> set (jobs_of i (pl_svr p)) \<Longrightarrow> is_job x"
proof -
  assume a: "pool_inv p" "i < pool_size (pl_svr p)" "x \<in> set (jobs_of i (pl_svr p))"
  have "set (jobs_of i (pl_svr p)) \<subseteq> set (filter (mine (pl_svr p) i) (pl_received p))"
    using inv_each [OF a(1,2)] unfolding worker_inv_def by (metis Un_upper2 set_append)
  then show ?thesis using inv_job [OF a(1)] a(3) by auto
qed

lemma pool_step_inv:
  assumes "pool_step env p p'" and "pool_inv p"
  shows "pool_inv p'"
  using assms(1)
proof (cases rule: pool_step.cases)
  case (push fd rb port i s)
  note eff = push_effect [OF inv_ok(1) [OF assms(2)] less_imp_le [OF push(3)] push(4)]
  show ?thesis unfolding push(1)
    using assms(2) eff push(2,3) same_mine [OF eff(1)] inv_worker [OF assms(2)] inv_job [OF assms(2)]
    by (intro pool_inv_update [OF assms(2)]) (auto simp: worker_inv_def mine_def in_flight_def is_job_def)
next
  case (post i s)
  note eff = post_effect [OF inv_ok(1) [OF assms(2)] inv_producer [OF assms(2) post(2)] post(3)]
  show ?thesis unfolding post(1)
    using eff post(2) same_mine [OF eff(1)] inv_worker [OF assms(2)] inv_job [OF assms(2)]
    by (intro pool_inv_update [OF assms(2)]) (auto simp: worker_inv_def in_flight_def)
next
  case (wait i s)
  note eff = wait_effect [OF inv_ok(1) [OF assms(2)] wait(4)]
  show ?thesis unfolding wait(1)
    using eff wait(2,3) same_mine [OF eff(1)] inv_worker [OF assms(2)] inv_job [OF assms(2)] inv_producer [OF assms(2)]
    by (intro pool_inv_update [OF assms(2)]) (auto simp: worker_inv_def in_flight_def split: if_splits)
next
  case (leave i s)
  note eff = wait_effect [OF inv_ok(1) [OF assms(2)] leave(4)]
  have "pl_stopping p" using inv_each [OF assms(2) leave(2)] eff(5) by (auto simp: worker_inv_def)
  then show ?thesis unfolding leave(1)
    using eff leave(2,3) same_mine [OF eff(1)] inv_worker [OF assms(2)] inv_job [OF assms(2)] inv_producer [OF assms(2)]
    by (intro pool_inv_update [OF assms(2)]) (auto simp: worker_inv_def in_flight_def split: if_splits)
next
  case (take i info s)
  have i: "i < pool_size (pl_svr p)" using inv_worker [OF assms(2), of i] take(2) by simp
  note eff = take_effect [OF inv_ok(1) [OF assms(2)] i inv_ok(2) [OF assms(2)] take(3)]
  have "jobs_of i (pl_svr p) = info # tl (jobs_of i (pl_svr p))" using eff(5) by (auto split: if_splits)
  then show ?thesis unfolding take(1)
    using eff(1-4) i take(2) same_mine [OF eff(1)] inv_worker [OF assms(2)] inv_job [OF assms(2)] inv_producer [OF assms(2)]
    by (intro pool_inv_update [OF assms(2)]) (auto simp: worker_inv_def in_flight_def split: if_splits)
next
  case (empty i s)
  have i: "i < pool_size (pl_svr p)" using inv_worker [OF assms(2), of i] empty(2) by simp
  note eff = take_effect [OF inv_ok(1) [OF assms(2)] i inv_ok(2) [OF assms(2)] empty(3)]
  have "jobs_of i (pl_svr p) = []" using eff(5) jobs_are_jobs [OF assms(2) i, of "hd (jobs_of i (pl_svr p))"]
    by (cases "jobs_of i (pl_svr p)") (auto simp: is_job_def)
  then show ?thesis unfolding empty(1)
    using eff(1-4) i empty(2) same_mine [OF eff(1)] inv_worker [OF assms(2)] inv_job [OF assms(2)] inv_producer [OF assms(2)]
    by (intro pool_inv_update [OF assms(2)]) (auto simp: worker_inv_def in_flight_def split: if_splits)
next
  case (finish i info e mysql e')
  have k: "sv_jobs (ev_client e') = sv_jobs (pl_svr p)" "sv_threads (ev_client e') = sv_threads (pl_svr p)" "sv_threadnum (ev_client e') = sv_threadnum (pl_svr p)"
    using process_data_kept [OF finish(4)] finish(3) by (simp_all add: queues_kept_def)
  then have eff: "same_pool (pl_svr p) (ev_client e')" "jobs_of j (ev_client e') = jobs_of j (pl_svr p)" "sem_of j (ev_client e') = sem_of j (pl_svr p)"
      "exit_of j (ev_client e') = exit_of j (pl_svr p)" for j
    using inv_ok(1) [OF assms(2)] by (simp_all add: same_pool_def workers_ok_def jobs_of_def sem_of_def exit_of_def)
  show ?thesis unfolding finish(1)
    using eff finish(2) same_mine [OF eff(1)] inv_worker [OF assms(2)] inv_job [OF assms(2)] inv_producer [OF assms(2)]
    by (intro pool_inv_update [OF assms(2)]) (auto simp: worker_inv_def in_flight_def split: if_splits)
next
  case (stop s)
  note k = stop_effect [OF inv_ok(1) [OF assms(2)] stop(3)]
  then have eff: "same_pool (pl_svr p) s" "jobs_of j s = jobs_of j (pl_svr p)" for j by (simp_all add: same_pool_def jobs_of_def)
  show ?thesis unfolding stop(1)
    using eff same_mine [OF eff(1)] inv_worker [OF assms(2)] inv_job [OF assms(2)] inv_producer [OF assms(2)]
    by (intro pool_inv_update [OF assms(2)]) (auto simp: worker_inv_def in_flight_def split: if_splits)
qed


section \<open>The server starts with this invariant\<close>

lemma set_workers_effect:
  "i + n \<le> pool_size s \<Longrightarrow> \<exists>s'. set_workers i n s = Some s' \<and> pool_size s' = pool_size s \<and> sv_threadnum s' = sv_threadnum s \<and>
    bw_def (sv_jobs s') = bw_def (sv_jobs s) \<and>
    (\<forall>j < pool_size s. bw_workers (sv_jobs s') ! j = (fst (bw_workers (sv_jobs s) ! j), if i \<le> j \<and> j < i + n then Some j else snd (bw_workers (sv_jobs s) ! j))) \<and>
    (\<forall>j. sv_threads s' j = (if i \<le> j \<and> j < i + n then Some (new_thread_data\<lparr>td_index := int j\<rparr>) else sv_threads s j))"
proof (induction n arbitrary: i s)
  case (Suc n)
  let ?s = "s\<lparr>sv_jobs := (sv_jobs s)\<lparr>bw_workers := (bw_workers (sv_jobs s))[i := (fst (bw_workers (sv_jobs s) ! i), Some i)]\<rparr>,
    sv_threads := (sv_threads s)(i \<mapsto> new_thread_data\<lparr>td_index := int i\<rparr>)\<rparr>"
  have i: "i < pool_size s" using Suc.prems by simp
  have st: "set_workers i (Suc n) s = set_workers (i + 1) n ?s" using i by (simp add: SetWorker_def is_worker_def)
  obtain s' where s': "set_workers (i + 1) n ?s = Some s'" "pool_size s' = pool_size s" "sv_threadnum s' = sv_threadnum s" "bw_def (sv_jobs s') = bw_def (sv_jobs s)"
      "\<forall>j < pool_size s. bw_workers (sv_jobs s') ! j = (fst (bw_workers (sv_jobs ?s) ! j), if i + 1 \<le> j \<and> j < i + 1 + n then Some j else snd (bw_workers (sv_jobs ?s) ! j))"
      "\<forall>j. sv_threads s' j = (if i + 1 \<le> j \<and> j < i + 1 + n then Some (new_thread_data\<lparr>td_index := int j\<rparr>) else sv_threads ?s j)"
    using Suc.IH [of "i + 1" ?s] Suc.prems by auto
  have "bw_workers (sv_jobs s') ! j = (fst (bw_workers (sv_jobs s) ! j), if i \<le> j \<and> j < i + Suc n then Some j else snd (bw_workers (sv_jobs s) ! j))" if "j < pool_size s" for j
    using s'(5) that i by (cases "j = i") auto
  moreover have "sv_threads s' j = (if i \<le> j \<and> j < i + Suc n then Some (new_thread_data\<lparr>td_index := int j\<rparr>) else sv_threads s j)" for j
    using s'(6) by (cases "j = i") auto
  ultimately show ?case unfolding st using s'(1-4) by simp
qed (auto simp: prod_eq_iff)

lemma init_redis_frame: "init_redis env e = Some e' \<Longrightarrow> \<exists>y h. ev_client e' = (ev_client e)\<lparr>sv_redis := y, sv_heap := h\<rparr>"
  by (clarsimp simp: init_redis_def with_redis_def AddQueueEvent_def Let_def bind_eq_Some_conv) blast

lemma started_inv:
  assumes "Server_init env n e = Some (True, e')" and "0 < n" and "ev_client e = new_MmsServer"
  shows "pool_inv (new_pool (ev_client e'))"
proof -
  obtain s where s: "set_workers 0 (nat n) (s\<lparr>sv_jobs := Boss_Init (nat n) (sv_jobs s)\<rparr>) = Some (ev_client e')"
      "sv_threadnum s = n" "sv_jobs s = sv_jobs (new_MmsServer :: 'a MmsServer)"
  proof -
    obtain ok1 e1 where e1: "Event_Init (svr_events env) True (e\<lparr>ev_client := (ev_client e)\<lparr>sv_threadnum := n\<rparr>\<rparr>) = (ok1, e1)" by fastforce
    obtain ok2 e2 where e2: "Bind (svr_events env) True (se_port env) e1 = (ok2, e2)" by fastforce
    obtain ok3 e3 where e3: "InitMmsExec env e2 = (ok3, e3)" by fastforce
    have c: "ev_client e3 = (ev_client e)\<lparr>sv_threadnum := n, sv_parent := True\<rparr>"
      using e1 e2 e3 by (auto simp: Event_Init_def initqueue_def AddQueueEvent_def Bind_def InitMmsExec_def Let_def split: if_splits option.splits prod.splits)
    obtain e4 where e4: "init_redis env e3 = Some e4"
        "set_workers 0 (nat n) ((ev_client e4)\<lparr>sv_jobs := Boss_Init (nat n) (sv_jobs (ev_client e4))\<rparr>) = Some (ev_client e')"
      using assms(1,2) e1 e2 e3 by (auto simp: Server_init_def Let_def bind_eq_Some_conv split: if_splits)
    show thesis using that [of "ev_client e4"] e4(2) init_redis_frame [OF e4(1)] c assms(3) by auto
  qed
  let ?s = "s\<lparr>sv_jobs := Boss_Init (nat n) (sv_jobs s)\<rparr>" and ?s' = "ev_client e'"
  have len: "pool_size ?s = nat n" by (simp add: Boss_Init_def)
  have eff: "pool_size ?s' = nat n" "sv_threadnum ?s' = n" "bw_def (sv_jobs ?s') = new_BossInfo"
      "\<forall>j < nat n. bw_workers (sv_jobs ?s') ! j = ([], Some j)" "\<forall>j < nat n. sv_threads ?s' j = Some (new_thread_data\<lparr>td_index := int j\<rparr>)"
    using set_workers_effect [of 0 "nat n" ?s] s by (auto simp: Boss_Init_def new_MmsServer_def)
  have "workers_ok ?s'" using eff assms(2) by (simp add: workers_ok_def)
  then show ?thesis using eff by (simp add: pool_inv_def new_pool_def worker_inv_def jobs_of_def sem_of_def exit_of_def in_flight_def new_thread_data_def)
qed

lemma pool_steps_inv: "(pool_step env)\<^sup>*\<^sup>* p p' \<Longrightarrow> pool_inv p \<Longrightarrow> pool_inv p'"
  by (induction rule: rtranclp_induct) (auto intro: pool_step_inv)

section \<open>Properties\<close>

text \<open>The server just started with one worker, and after the first data from connection 5.\<close>

definition demo_job :: BossInfo where
  "demo_job = \<lparr>bi_buf = Some (demo_buffer ''hello''), bi_fd = 5, bi_port = 80\<rparr>"

definition demo_started :: "(unit, string list) server" where
  "demo_started = snd (the (Server_init (demo_env demo_os) 1 (new_yylibevent new_MmsServer \<lparr>sy_errno = 0, sy_world = []\<rparr>)))"

definition demo_pool :: "unit pool" where
  "demo_pool = (new_pool (pushed 0 demo_job (ev_client demo_started)))\<lparr>pl_producer := Posting 0, pl_received := [demo_job]\<rparr>"

lemma demo_redis:
  assumes "sv_redis (ev_client e) = new_YYRedis"
  shows "\<exists>y. init_redis (demo_env demo_os) e = Some (AddQueueEvent REDIS_EVENT_FLAG (Some (OtherHandler 0)) (e\<lparr>ev_client := (ev_client e)\<lparr>sv_redis := y\<rparr>\<rparr>))"
proof -
  let ?y = "Redis_Init ''127.0.0.1'' 6379 True 10000 new_YYRedis" and ?su = "\<lparr>su_heap = sv_heap (ev_client e), su_sys = ev_sys e, su_log = []\<rparr>"
  obtain y where "Redis_Connect (svr_redis (demo_env demo_os)) ?y ?su = Some (True, y, ?su)"
    using calm_connect [of "svr_redis (demo_env demo_os)" ?y ?su]
    by (auto simp: svr_redis_def demo_env_def calm_def demo_os_def Redis_Init_def new_YYRedis_def)
  then show ?thesis using assms by (intro exI [of _ y]) (simp add: init_redis_def with_redis_def AddQueueEvent_def demo_env_def)
qed

lemma demo_start:
  "Server_init (demo_env demo_os) 1 (new_yylibevent new_MmsServer \<lparr>sy_errno = 0, sy_world = []\<rparr>) = Some (True, demo_started)"
  "\<exists>y. ev_client demo_started = demo_svr\<lparr>sv_parent := True, sv_redis := y\<rparr>"
proof -
  let ?e = "new_yylibevent new_MmsServer \<lparr>sy_errno = 0, sy_world = []\<rparr> :: (unit, string list) server"
  let ?e1 = "?e\<lparr>ev_client := (new_MmsServer :: unit MmsServer)\<lparr>sv_threadnum := 1, sv_parent := True\<rparr>, ev_callback := True, ev_queueback := [(WRITE_EVENT_FLAG, Some ThisLoop)],
      ev_queuefd := Some 9, ev_msgfd := 8, ev_listeners := [(3, 80), (3, 81)]\<rparr>"
  obtain y where y: "init_redis (demo_env demo_os) ?e1 = Some (AddQueueEvent REDIS_EVENT_FLAG (Some (OtherHandler 0)) (?e1\<lparr>ev_client := (ev_client ?e1)\<lparr>sv_redis := y\<rparr>\<rparr>))"
    using demo_redis [of ?e1] by (auto simp: new_MmsServer_def)
  have "Server_init (demo_env demo_os) 1 ?e = do {
      e \<leftarrow> init_redis (demo_env demo_os) ?e1;
      s \<leftarrow> set_workers 0 1 ((ev_client e)\<lparr>sv_jobs := Boss_Init 1 (sv_jobs (ev_client e))\<rparr>);
      Some (True, e\<lparr>ev_client := s\<rparr>) }"
    by (simp add: Server_init_def Event_Init_def initqueue_def AddQueueEvent_def Bind_def InitMmsExec_def Let_def demo_env_def svr_events_def new_yylibevent_def)
  then have "\<exists>e. Server_init (demo_env demo_os) 1 ?e = Some (True, e) \<and> ev_client e = demo_svr\<lparr>sv_parent := True, sv_redis := y\<rparr>"
    unfolding y by (simp add: AddQueueEvent_def Boss_Init_def SetWorker_def is_worker_def new_MmsServer_def demo_svr_def)
  then show "Server_init (demo_env demo_os) 1 ?e = Some (True, demo_started)" "\<exists>y. ev_client demo_started = demo_svr\<lparr>sv_parent := True, sv_redis := y\<rparr>"
    unfolding demo_started_def by auto
qed

lemma demo_reached: "(pool_step env)\<^sup>*\<^sup>* (new_pool (ev_client demo_started)) demo_pool"
proof (rule r_into_rtranclp)
  let ?s = "ev_client demo_started"
  obtain y where y: "?s = demo_svr\<lparr>sv_parent := True, sv_redis := y\<rparr>" using demo_start(2) by blast
  have "workers_ok ?s" by (simp add: y workers_ok_def demo_svr_def)
  from receive_push_eq [OF this, of 5 "demo_buffer ''hello''" 80]
  have "receive_push 5 (demo_buffer ''hello'') 80 ?s = Some (int 0, pushed 0 demo_job ?s)" by (simp add: y demo_job_def worker_of_def demo_svr_def)
  then show "pool_step env (new_pool ?s) demo_pool"
    using pool_step.push [of "new_pool ?s" 5 "demo_buffer ''hello''" 80 0 "pushed 0 demo_job ?s" env]
    by (simp add: new_pool_def demo_pool_def demo_job_def)
qed

text \<open>
  C1 (safety). From the start of the server on, in every interleaving of the event loop and the workers: the jobs
  of a connection are taken in the order in which they were received, none twice and none lost (those not yet
  taken are in one queue), always by the same worker; so two workers never process the same connection
  at a time.
\<close>

theorem jobs_in_order_exclusive:
  assumes "Server_init env n e0 = Some (True, e1)" and "0 < n" and "ev_client e0 = new_MmsServer"
    and "(pool_step env)\<^sup>*\<^sup>* (new_pool (ev_client e1)) p" and "0 < fd"
  shows "filter (\<lambda>x. bi_fd x = fd) (pl_taken p (worker_of fd (pl_svr p))) @ filter (\<lambda>x. bi_fd x = fd) (jobs_of (worker_of fd (pl_svr p)) (pl_svr p))
      = filter (\<lambda>x. bi_fd x = fd) (pl_received p) \<and>
    (pl_worker p i = Busy x \<longrightarrow> pl_worker p j = Busy y \<longrightarrow> bi_fd x = bi_fd y \<longrightarrow> i = j)"
proof -
  have inv: "pool_inv p" using pool_steps_inv [OF assms(4) started_inv [OF assms(1-3)]] .
  let ?w = "worker_of fd (pl_svr p)"
  have "?w < pool_size (pl_svr p)" using worker_of_less [OF inv_ok(1) [OF inv]] assms(5) by simp
  then have "pl_taken p ?w @ jobs_of ?w (pl_svr p) = filter (mine (pl_svr p) ?w) (pl_received p)" using inv_each [OF inv] by (simp add: worker_inv_def)
  then have "filter (\<lambda>x. bi_fd x = fd) (pl_taken p ?w @ jobs_of ?w (pl_svr p)) = filter (\<lambda>x. bi_fd x = fd) (filter (mine (pl_svr p) ?w) (pl_received p))"
    by simp
  also have "\<dots> = filter (\<lambda>x. bi_fd x = fd) (pl_received p)" by (auto simp: mine_def intro!: filter_cong)
  finally have order: "filter (\<lambda>x. bi_fd x = fd) (pl_taken p ?w) @ filter (\<lambda>x. bi_fd x = fd) (jobs_of ?w (pl_svr p)) = filter (\<lambda>x. bi_fd x = fd) (pl_received p)"
    by simp
  have owner: "worker_of (bi_fd x) (pl_svr p) = i" if "pl_worker p i = Busy x" for i x
  proof -
    have "worker_inv p i" using inv_each [OF inv] inv_worker [OF inv, of i] that by simp
    then have "x \<in> set (filter (mine (pl_svr p) i) (pl_received p))" using that unfolding worker_inv_def by (metis Un_iff set_append)
    then show ?thesis by (simp add: mine_def)
  qed
  show ?thesis using order owner by metis
qed

theorem jobs_in_order_exclusive_witness:
  "filter (\<lambda>x. bi_fd x = 5) (pl_taken demo_pool (worker_of 5 (pl_svr demo_pool))) @ filter (\<lambda>x. bi_fd x = 5) (jobs_of (worker_of 5 (pl_svr demo_pool)) (pl_svr demo_pool))
    = [demo_job]"
proof -
  have p: "filter (\<lambda>x. bi_fd x = 5) (pl_received demo_pool) = [demo_job]" by (simp add: demo_pool_def demo_job_def)
  show ?thesis using jobs_in_order_exclusive [OF demo_start(1), of demo_pool 5] demo_reached [of "demo_env demo_os"] p by (simp add: new_yylibevent_def)
qed

text \<open>
  C4 (liveness). No wake-up is lost: until the server is stopped, a worker that is woken finds a job, and a worker
  that waits while its queue has jobs can go on, at the latest after the event loop's pending wake-up.
\<close>

theorem no_lost_wakeup:
  assumes "Server_init env n e0 = Some (True, e1)" and "0 < n" and "ev_client e0 = new_MmsServer"
    and "(pool_step env)\<^sup>*\<^sup>* (new_pool (ev_client e1)) p" and "\<not> pl_stopping p" and "i < pool_size (pl_svr p)"
  shows "(pl_worker p i = Woken \<longrightarrow> (\<exists>info s. worker_take i (pl_svr p) = Some (Some info, s) \<and> info = hd (jobs_of i (pl_svr p)))) \<and>
    (pl_worker p i = Waiting \<longrightarrow> jobs_of i (pl_svr p) \<noteq> [] \<longrightarrow>
      pl_producer p = Posting i \<or> (\<exists>s. worker_wait i (pl_svr p) = Some (Some (False, s))))"
proof -
  have inv: "pool_inv p" using pool_steps_inv [OF assms(4) started_inv [OF assms(1-3)]] .
  note w = inv_each [OF inv assms(6), unfolded worker_inv_def]
  obtain d where d: "sv_threads (pl_svr p) i = Some d" "td_index d = int i" using inv_ok(1) [OF inv] assms(6) by (auto simp: workers_ok_def)
  have "\<exists>info s. worker_take i (pl_svr p) = Some (Some info, s) \<and> info = hd (jobs_of i (pl_svr p))" if "pl_worker p i = Woken"
  proof -
    have ne: "jobs_of i (pl_svr p) \<noteq> []" using w assms(5) that by (auto simp: in_flight_def)
    then have j: "is_job (hd (jobs_of i (pl_svr p)))" using jobs_are_jobs [OF inv assms(6)] by simp
    obtain q t where q: "bw_workers (sv_jobs (pl_svr p)) ! i = (q, t)" by fastforce
    have "\<exists>r. worker_take i (pl_svr p) = Some r" using d q assms(6)
      by (cases q) (simp_all add: worker_take_def PopJob_def is_worker_def)
    then obtain r s where r: "worker_take i (pl_svr p) = Some (r, s)" by auto
    show ?thesis using take_effect(5) [OF inv_ok(1) [OF inv] assms(6) inv_ok(2) [OF inv] r] ne j r by (auto simp: is_job_def)
  qed
  moreover have "pl_producer p = Posting i \<or> (\<exists>s. worker_wait i (pl_svr p) = Some (Some (False, s)))"
    if "pl_worker p i = Waiting" "jobs_of i (pl_svr p) \<noteq> []"
    using w assms(5) that d by (cases "jobs_of i (pl_svr p)") (auto simp: in_flight_def sem_of_def exit_of_def worker_wait_def split: if_splits)
  ultimately show ?thesis by blast
qed

theorem no_lost_wakeup_witness:
  "pl_worker demo_pool 0 = Waiting \<and> jobs_of 0 (pl_svr demo_pool) = [demo_job] \<and>
    (pl_producer demo_pool = Posting 0 \<or> (\<exists>s. worker_wait 0 (pl_svr demo_pool) = Some (Some (False, s))))"
proof -
  have p: "\<not> pl_stopping demo_pool" "0 < pool_size (pl_svr demo_pool)" "pl_worker demo_pool 0 = Waiting" "jobs_of 0 (pl_svr demo_pool) = [demo_job]"
    using demo_start(2) by (auto simp: demo_pool_def new_pool_def pushed_def demo_svr_def jobs_of_def)
  show ?thesis using no_lost_wakeup [OF demo_start(1) _ _ _ p(1,2)] demo_reached [of "demo_env demo_os"] p by (simp add: new_yylibevent_def)
qed

end
