(* ===== verification/RedisServer.thy ===== *)
theory RedisServer
  imports WorkerPool ReaderProps
begin

text \<open>
  Redis in the server: what the server does with its connection is among the steps of \<open>RedisProps\<close>, so its invariant
  holds there; and the way of a reply from the bytes that arrive to the answer for the client.
\<close>

section \<open>The server's use of the wrapper\<close>

abbreviation around :: "'key MmsServer \<Rightarrow> 'w sys \<Rightarrow> 'w surroundings" where
  "around s w \<equiv> \<lparr>su_heap = sv_heap s, su_sys = w, su_log = []\<rparr>"

lemma queue_event_is_step:
  assumes "svr_queue_receive env flag s w = Some (s', w')" and "redis_inv (sv_redis s)"
  shows "redis_step (svr_redis env) (sv_redis s, around s w) (sv_redis s', around s' w')"
proof -
  obtain y su where r: "Redis_queue_receive (svr_redis env) flag (sv_redis s) (around s w) = Some (y, su)"
      "s' = s\<lparr>sv_redis := y, sv_heap := su_heap su\<rparr>" "w' = su_sys su"
    using assms(1) by (auto simp: svr_queue_receive_def with_redis_def bind_eq_Some_conv)
  have "su_log su = []" using receive_inv [OF r(1) assms(2)] by simp
  then have "su = around s' w'" using r(2,3) by simp
  then show ?thesis using redis_step.receive [OF r(1)] r(2) by simp
qed

lemma init_redis_steps:
  assumes "init_redis env e = Some e'" and "redis_inv (sv_redis (ev_client e))"
  shows "(redis_step (svr_redis env))\<^sup>*\<^sup>* (sv_redis (ev_client e), around (ev_client e) (ev_sys e)) (sv_redis (ev_client e'), around (ev_client e') (ev_sys e'))"
proof -
  let ?s = "ev_client e" and ?w = "ev_sys e"
  let ?y = "Redis_Init (se_redis_IP env) (se_redis_Port env) (se_base env) 10000 (sv_redis ?s)"
  obtain ok y su where r: "Redis_Connect (svr_redis env) ?y (around ?s ?w) = Some (ok, y, su)"
      "ev_client e' = ?s\<lparr>sv_redis := y, sv_heap := su_heap su\<rparr>" "ev_sys e' = su_sys su"
    using assms(1) by (auto simp: init_redis_def with_redis_def AddQueueEvent_def Let_def bind_eq_Some_conv)
  have "su_log su = []" using connect_inv [OF r(1)] assms(2) by simp
  then have "su = around (ev_client e') (ev_sys e')" using r(2,3) by simp
  then have "redis_step (svr_redis env) (?y, around ?s ?w) (sv_redis (ev_client e'), around (ev_client e') (ev_sys e'))"
    using redis_step.connect [OF r(1)] r(2) by simp
  moreover have "redis_step (svr_redis env) (sv_redis ?s, around ?s ?w) (?y, around ?s ?w)" by (rule redis_step.init)
  ultimately show ?thesis by (meson converse_rtranclp_into_rtranclp rtranclp.rtrancl_refl)
qed

section \<open>Replies\<close>

text \<open>The text of a reply that has one.\<close>

fun text_of :: "reply \<Rightarrow> string option" where
  "text_of (RStatus s) = Some s"
| "text_of (RError s) = Some s"
| "text_of (RString s) = Some s"
| "text_of v = None"

definition echo_text :: "reply list \<Rightarrow> string" where
  "echo_text vs = concat (map (\<lambda>v. the (text_of v) @ [NUL]) vs)"

lemma text_cell:
  assumes "reply_in c n v"
  shows "text_of v = Some s \<Longrightarrow> \<exists>r. c n = Some r \<and> rp_len r = Some (int (length s)) \<and> rp_str r = Some (c_literal s)"
    and "text_of v = None \<Longrightarrow> \<exists>r. c n = Some r \<and> rp_len r = None"
proof -
  show "text_of v = Some s \<Longrightarrow> \<exists>r. c n = Some r \<and> rp_len r = Some (int (length s)) \<and> rp_str r = Some (c_literal s)"
    using assms by (cases v) (simp_all add: str_cell_def c_literal_def)
  show "text_of v = None \<Longrightarrow> \<exists>r. c n = Some r \<and> rp_len r = None"
    using assms by (cases v) (simp_all add: int_cell_def blank_cell_def arr_cell_def)
qed

lemma echo_append:
  assumes "replies_in (hp_cells h) n vs" and "\<forall>v\<in>set vs. text_of v \<noteq> None" and "fb_holds (2 ^ 29) b s"
    and "length s + length (echo_text vs) \<le> 2 ^ 29" and "\<And>k. k \<le> 2 ^ 31 \<Longrightarrow> avail k"
  shows "\<exists>b'. append_elements avail h (addrs n vs) b = Some b' \<and> fb_holds (2 ^ 29) b' (s @ echo_text vs)"
  using assms(1-4)
proof (induction vs arbitrary: n b s)
  case (Cons v vs)
  obtain t where t: "text_of v = Some t" using Cons.prems(2) by auto
  obtain r where r: "hp_cells h n = Some r" "rp_len r = Some (int (length t))" "rp_str r = Some (c_literal t)"
    using text_cell(1) [OF _ t] Cons.prems(1) by auto
  have len: "length s + (length t + 1) + length (echo_text vs) \<le> 2 ^ 29" using Cons.prems(4) t by (simp add: echo_text_def)
  have n: "c_size_t (c_int (int (length t) + 1)) = length (t @ [NUL])"
    using len c_size_t_of_nat [of "length t + 1"] by (simp add: c_int_id add.commute)
  have "length s + length (t @ [NUL]) \<le> 2 ^ 29" using len by simp
  then obtain b1 where b1: "fastbuffer_append avail (Some (c_literal t)) (length (t @ [NUL])) b = Some (length (t @ [NUL]), b1)" "fb_holds (2 ^ 29) b1 (s @ t @ [NUL])"
    using append_holds [OF Cons.prems(3), of "t @ [NUL]" avail "[]"] assms(5) by (auto simp: c_literal_def)
  from Cons.IH [OF _ _ b1(2), of "n + nodes v"] Cons.prems(1,2) len
  show ?case using r n b1(1) t by (simp add: echo_text_def)
qed (simp add: echo_text_def)

lemma echo_stuck: "replies_in (hp_cells h) n vs \<Longrightarrow> v \<in> set vs \<Longrightarrow> text_of v = None \<Longrightarrow> append_elements avail h (addrs n vs) b = None"
proof (induction vs arbitrary: n b)
  case (Cons x vs)
  show ?case
  proof (cases "text_of x")
    case None
    then show ?thesis using text_cell(2) [of "hp_cells h" n x] Cons.prems(1) by auto
  next
    case (Some t)
    then have "v \<in> set vs" using Cons.prems(2,3) by auto
    then have "append_elements avail h (addrs (n + nodes x) vs) b = None" for b using Cons by simp
    then have "\<nexists>y. append_elements avail h (addrs n (x # vs)) b = Some y" by (auto simp: bind_eq_Some_conv)
    then show ?thesis by (cases "append_elements avail h (addrs n (x # vs)) b") simp_all
  qed
qed simp

section \<open>Properties\<close>

lemma array_cell: "reply_added h h' (RArray vs) \<Longrightarrow> hp_cells h' (hp_next h) = Some (arr_cell (addrs (hp_next h + 1) vs)) \<and> replies_in (hp_cells h') (hp_next h + 1) vs"
  by (simp add: reply_added_def)

text \<open>
  C31 (functional). From the bytes of Redis to the client: an array of texts that arrives in any pieces is read as one reply, and the
  callback hands one buffer to the event loop for the connection that asked: the heading and every text
  with a zero byte, in order.
\<close>

theorem redis_reply_echoed:
  assumes "idle r" and "rest r = []" and "sendable 8 (RArray vs)" and "concat xs = enc (RArray vs)" and "\<forall>x\<in>set xs. x \<noteq> []"
    and "(length (sds_str (rd_buf r)) + length (enc (RArray vs))) * 2 \<le> nat INT_MAX" and "0 < hp_next h"
    and "\<forall>v\<in>set vs. text_of v \<noteq> None" and "11 + length (echo_text vs) \<le> 2 ^ 29"
  shows "\<exists>r' h' b. feed_chunks r h xs = Some (replicate (length xs - 1) (REDIS_OK, 0) @ [(REDIS_OK, hp_next h)], r', h') \<and>
    redis_cb (ample env) (hp_next h) fd h' e = Some (data_send (svr_events (ample env)) fd (Some b) WRITE_EVENT_FLAG e) \<and>
    fb_holds (2 ^ 29) b (''reply is:'' @ CRLF @ echo_text vs)"
proof -
  obtain r' h' where f: "feed_chunks r h xs = Some (replicate (length xs - 1) (REDIS_OK, 0) @ [(REDIS_OK, hp_next h)], r', h')" "reply_added h h' (RArray vs)"
    using chunks_decode [OF assms(1-6)] by blast
  note c = array_cell [OF f(2)]
  let ?t = "''reply is:'' @ CRLF"
  have a: "\<And>k. k \<le> 2 ^ 31 \<Longrightarrow> se_avail (ample env) k" by (simp add: ample_def)
  have l: "length ?t = 11" "length [] + length ?t \<le> 2 ^ 29" by simp_all
  obtain b0 where b0: "fastbuffer_append (se_avail (ample env)) (Some (c_literal ?t)) 11 new_fastbuffer = Some (11, b0)" "fb_holds (2 ^ 29) b0 ?t"
    using append_holds [OF new_holds [of "2 ^ 29"] l(2), of "se_avail (ample env)" "[Some NUL]"] a unfolding l(1) c_literal_def by auto
  obtain b where b: "append_elements (se_avail (ample env)) h' (addrs (hp_next h + 1) vs) b0 = Some b" "fb_holds (2 ^ 29) b (?t @ echo_text vs)"
    using echo_append [OF conjunct2 [OF c] assms(8) b0(2), of "se_avail (ample env)"] a assms(9) by auto
  have "0 < fb_size b" using b(2) by (simp add: fb_holds_def)
  then have "redis_cb (ample env) (hp_next h) fd h' e = Some (data_send (svr_events (ample env)) fd (Some b) WRITE_EVENT_FLAG e)"
    using c assms(7) b0(1) b(1) by (simp add: redis_cb_def arr_cell_def blank_cell_def)
  then show ?thesis using f(1) b(2) by auto
qed

theorem redis_reply_echoed_witness:
  "\<exists>r' h' b. feed_chunks fresh_reader empty_heap [''*1'' @ CRLF @ ''$2'', CRLF @ ''ab'' @ CRLF] = Some ([(REDIS_OK, 0), (REDIS_OK, 16)], r', h') \<and>
    redis_cb (ample (demo_env demo_os)) 16 5 h' demo_started = Some (data_send (svr_events (ample (demo_env demo_os))) 5 (Some b) WRITE_EVENT_FLAG demo_started) \<and>
    fb_holds (2 ^ 29) b (''reply is:'' @ CRLF @ ''ab'' @ [NUL])"
proof -
  let ?vs = "[RString ''ab'']" and ?xs = "[''*1'' @ CRLF @ ''$2'', CRLF @ ''ab'' @ CRLF]"
  have e: "concat ?xs = enc (RArray ?vs)" by code_simp
  have s: "sendable 8 (RArray ?vs)" by (simp add: eval_nat_numeral)
  have l: "(length (sds_str (rd_buf fresh_reader)) + length (enc (RArray ?vs))) * 2 \<le> nat INT_MAX"
    unfolding e [symmetric] by (simp add: fresh_reader(4) INT_MAX_def)
  have t: "echo_text ?vs = ''ab'' @ [NUL]" by (simp add: echo_text_def)
  have n: "hp_next empty_heap = 16" "replicate (length ?xs - 1) (REDIS_OK, 0) @ [(REDIS_OK, 16)] = [(REDIS_OK, 0), (REDIS_OK, 16 :: nat)]"
    by (simp_all add: empty_heap_def)
  show ?thesis
    using redis_reply_echoed [OF fresh_reader(2,3) s e _ l, of empty_heap "demo_env demo_os" 5 demo_started] unfolding t n by simp
qed

text \<open>
  The callback reads the text of every element without looking at its type: a nil element (a key that does not
  exist), a number or a nested array, whose text was never initialised, is a fault of the server.
\<close>

lemma redis_reply_faults:
  assumes "reply_added h h' (RArray vs)" and "0 < hp_next h" and "v \<in> set vs" and "text_of v = None"
  shows "redis_cb env (hp_next h) fd h' e = None"
proof -
  note c = array_cell [OF assms(1)]
  have "append_elements (se_avail env) h' (addrs (hp_next h + 1) vs) b = None" for b using echo_stuck [OF _ assms(3,4)] c by blast
  then have "\<nexists>y. redis_cb env (hp_next h) fd h' e = Some y"
    using c assms(2) by (auto simp: redis_cb_def arr_cell_def blank_cell_def bind_eq_Some_conv)
  then show ?thesis by (cases "redis_cb env (hp_next h) fd h' e") simp_all
qed

end
