(* ===== verification/Xml.thy ===== *)
theory Xml
  imports MmsPrelude
begin

text \<open>
  The XML library that is built with the server, \<open>src/tinyxml2\<close>: reading a file into a tree of nodes, and the
  accessors on the tree.

  The parser works in the buffer of the file. A \<open>char*\<close> of the sources into the buffer is the list of the bytes from
  there up to the terminating zero byte, beyond which nothing is read; NULL is \<^const>\<open>None\<close>. A \<open>StrPair\<close>
  keeps a section of the buffer and decodes it in place when it is first read (\<open>GetStr\<close>), with a zero byte
  written behind it. While the document is parsed, only names are read, so that the zero byte replaces
  a byte that the parser has left behind; sections do not overlap. Errors of the document are values of
  \<open>XMLError\<close>; outer \<^const>\<open>None\<close> is a fault.
\<close>

section \<open>Characters\<close>

definition IsUTF8Continuation :: "char \<Rightarrow> bool" where
  "IsUTF8Continuation c \<longleftrightarrow> 128 \<le> (of_char c :: nat)"

definition IsWhiteSpace :: "char \<Rightarrow> bool" where
  "IsWhiteSpace c \<longleftrightarrow> \<not> IsUTF8Continuation c \<and> is_space c"

definition SkipWhiteSpace :: "string \<Rightarrow> string" where
  "SkipWhiteSpace p = dropWhile IsWhiteSpace p"

definition IsAlpha :: "char \<Rightarrow> bool" where
  "IsAlpha c \<longleftrightarrow> (let n = of_char c :: nat in 65 \<le> n \<and> n \<le> 90 \<or> 97 \<le> n \<and> n \<le> 122 \<or> 128 \<le> n)"

definition IsAlphaNum :: "char \<Rightarrow> bool" where
  "IsAlphaNum c \<longleftrightarrow> IsAlpha c \<or> is_digit c"

text \<open>The loop compares at most \<open>nChar\<close> bytes: it succeeds when so many agree, or when both texts end.\<close>

definition StringEqual :: "string \<Rightarrow> string \<Rightarrow> nat \<Rightarrow> bool" where
  "StringEqual p q nChar \<longleftrightarrow> p = q \<or> nChar \<le> length p \<and> nChar \<le> length q \<and> take nChar p = take nChar q"

abbreviation Same :: "string \<Rightarrow> string \<Rightarrow> bool" where
  "Same p q \<equiv> StringEqual p q (nat INT_MAX)"

definition ReadBOM :: "string \<Rightarrow> bool \<times> string" where
  "ReadBOM p = (if take 3 p = [CHR 0xEF, CHR 0xBB, CHR 0xBF] then (True, drop 3 p) else (False, p))"

section \<open>Character references\<close>

definition utf8_tail :: "nat \<Rightarrow> char" where
  "utf8_tail x = char_of ((x OR 0x80) AND 0xBF)"

definition ConvertUTF32ToUTF8 :: "nat \<Rightarrow> string" where
  "ConvertUTF32ToUTF8 x =
     (if x < 0x80 then [char_of x]
      else if x < 0x800 then [char_of (drop_bit 6 x OR 0xC0), utf8_tail x]
      else if x < 0x10000 then [char_of (drop_bit 12 x OR 0xE0), utf8_tail (drop_bit 6 x), utf8_tail x]
      else if x < 0x200000 then [char_of (drop_bit 18 x OR 0xF0), utf8_tail (drop_bit 12 x), utf8_tail (drop_bit 6 x), utf8_tail x]
      else [])"

definition hex_digit_value :: "char \<Rightarrow> nat option" where
  "hex_digit_value c = (let n = of_char c :: nat in
     if 48 \<le> n \<and> n \<le> 57 then Some (n - 48) else if 97 \<le> n \<and> n \<le> 102 then Some (n - 87) else if 65 \<le> n \<and> n \<le> 70 then Some (n - 55) else None)"

definition dec_digit_value :: "char \<Rightarrow> nat option" where
  "dec_digit_value c = (if is_digit c then Some (of_char c - 48) else None)"

text \<open>The digits are read backwards up to the letter that introduced them; \<open>mult\<close> and \<open>ucs\<close> have 32 bits.\<close>

fun ref_value :: "(char \<Rightarrow> nat option) \<Rightarrow> nat \<Rightarrow> char \<Rightarrow> string \<Rightarrow> nat \<Rightarrow> nat \<Rightarrow> nat option" where
  "ref_value dig base stop [] mult ucs = None"
| "ref_value dig base stop (c # q) mult ucs =
     (if c = stop then Some ucs
      else do {
        d \<leftarrow> dig c;
        ref_value dig base stop q (mult * base mod 2 ^ 32) ((ucs + mult * d mod 2 ^ 32) mod 2 ^ 32) })"

text \<open>\<open>GetCharacterRef\<close> at an ampersand: the bytes and the length of the reference, or \<^const>\<open>None\<close> for NULL.\<close>

definition read_ref :: "(char \<Rightarrow> nat option) \<Rightarrow> nat \<Rightarrow> char \<Rightarrow> nat \<Rightarrow> string \<Rightarrow> (string \<times> nat) option" where
  "read_ref dig base stop n s =
     (let ds = takeWhile (\<lambda>c. c \<noteq> CHR '';'') s
      in if length ds = length s then None
         else do {
           ucs \<leftarrow> ref_value dig base stop (rev (stop # ds)) 1 0;
           Some (ConvertUTF32ToUTF8 ucs, n + length ds + 1) })"

definition GetCharacterRef :: "string \<Rightarrow> (string \<times> nat) option" where
  "GetCharacterRef p =
     (case drop 2 p of
        [] \<Rightarrow> Some ([], 1)
      | c # s \<Rightarrow>
          if c = CHR ''x'' then (if s = [] then None else read_ref hex_digit_value 16 (CHR ''x'') 3 s)
          else read_ref dec_digit_value 10 (CHR ''#'') 2 (c # s))"

definition entities :: "(string \<times> char) list" where
  "entities = [(''quot'', CHR 0x22), (''amp'', CHR ''&''), (''apos'', CHR 0x27), (''lt'', CHR ''<''), (''gt'', CHR ''>'')]"

fun find_entity :: "(string \<times> char) list \<Rightarrow> string \<Rightarrow> (char \<times> nat) option" where
  "find_entity [] s = None"
| "find_entity ((n, v) # es) s = (if take (length n + 1) s = n @ '';'' then Some (v, length n) else find_entity es s)"

section \<open>Sections of the buffer\<close>

record StrPair =
  sp_str :: string
  sp_flush :: bool
  sp_entities :: bool
  sp_newlines :: bool
  sp_collapse :: bool

definition empty_pair :: StrPair where
  "empty_pair = \<lparr>sp_str = [], sp_flush = False, sp_entities = False, sp_newlines = False, sp_collapse = False\<rparr>"

definition SetStr :: "string \<Rightarrow> StrPair" where
  "SetStr s = empty_pair\<lparr>sp_str := s\<rparr>"

definition Set_pair :: "string \<Rightarrow> bool \<Rightarrow> bool \<Rightarrow> bool \<Rightarrow> StrPair" where
  "Set_pair s ent nl col = \<lparr>sp_str = s, sp_flush = True, sp_entities = ent, sp_newlines = nl, sp_collapse = col\<rparr>"

definition StrPair_Empty :: "StrPair \<Rightarrow> bool" where
  "StrPair_Empty sp \<longleftrightarrow> sp_str sp = []"

text \<open>Up to the end tag: the section and what follows the tag.\<close>

fun ParseText :: "string \<Rightarrow> string \<Rightarrow> (string \<times> string) option" where
  "ParseText endTag [] = None"
| "ParseText endTag (c # p) =
     (if take (length endTag) (c # p) = endTag then Some ([], drop (length endTag) (c # p))
      else map_option (\<lambda>(s, r). (c # s, r)) (ParseText endTag p))"

definition name_char :: "bool \<Rightarrow> char \<Rightarrow> bool" where
  "name_char first c \<longleftrightarrow> IsAlphaNum c \<or> c = CHR ''_'' \<or> c = CHR '':'' \<or> \<not> first \<and> (c = CHR ''-'' \<or> c = CHR ''.'')"

definition ParseName :: "string \<Rightarrow> (string \<times> string) option" where
  "ParseName p =
     (case p of
        [] \<Rightarrow> None
      | c # t \<Rightarrow> if name_char True c then Some (c # takeWhile (name_char False) t, dropWhile (name_char False) t) else None)"

text \<open>Decoding in place: \<open>p\<close> reads and \<open>q\<close> writes. After a malformed reference \<open>p\<close> is NULL and the loop goes on
  from there, a fault. For an unknown entity \<open>q\<close> moves on without a byte being written.\<close>

definition byte_at :: "string \<Rightarrow> nat \<Rightarrow> char" where
  "byte_at buf i = (if i < length buf then buf ! i else NUL)"

fun write_bytes :: "string \<Rightarrow> nat \<Rightarrow> string \<Rightarrow> string" where
  "write_bytes buf q [] = buf"
| "write_bytes buf q (c # v) = write_bytes (buf[q := c]) (q + 1) v"

lemma length_write_bytes [simp]: "length (write_bytes buf q v) = length buf"
  by (induction buf q v rule: write_bytes.induct) simp_all

lemma ref_consumes: "GetCharacterRef p = Some (v, n) \<Longrightarrow> 0 < n"
  by (auto simp: GetCharacterRef_def read_ref_def Let_def bind_eq_Some_conv split: list.splits if_splits)

function (sequential) flush_loop :: "bool \<Rightarrow> bool \<Rightarrow> string \<Rightarrow> nat \<Rightarrow> nat \<Rightarrow> (string \<times> nat) option" where
  "flush_loop nl ent buf p q =
     (if p < length buf then
        if nl \<and> buf ! p = CR then flush_loop nl ent (buf[q := LF]) (if byte_at buf (p + 1) = LF then p + 2 else p + 1) (q + 1)
        else if nl \<and> buf ! p = LF then flush_loop nl ent (buf[q := LF]) (if byte_at buf (p + 1) = CR then p + 2 else p + 1) (q + 1)
        else if ent \<and> buf ! p = CHR ''&'' then
          if byte_at buf (p + 1) = CHR ''#'' then
            (case GetCharacterRef (drop p buf) of
               None \<Rightarrow> None
             | Some (v, n) \<Rightarrow> flush_loop nl ent (write_bytes buf q v) (p + n) (q + length v))
          else
            (case find_entity entities (drop (p + 1) buf) of
               Some (v, n) \<Rightarrow> flush_loop nl ent (buf[q := v]) (p + n + 2) (q + 1)
             | None \<Rightarrow> flush_loop nl ent buf (p + 1) (q + 1))
        else flush_loop nl ent (buf[q := buf ! p]) (p + 1) (q + 1)
      else Some (buf, q))"
  by pat_completeness auto

termination
  by (relation "measure (\<lambda>(nl, ent, buf, p, q). length buf - p)") (auto dest: ref_consumes)

declare flush_loop.simps [simp del]

lemma length_SkipWhiteSpace: "length (SkipWhiteSpace p) \<le> length p"
  unfolding SkipWhiteSpace_def by (rule length_dropWhile_le)

function collapse :: "string \<Rightarrow> string" where
  "collapse s =
     (case s of
        [] \<Rightarrow> []
      | c # t \<Rightarrow>
          if IsWhiteSpace c then (case SkipWhiteSpace t of [] \<Rightarrow> [] | d # r \<Rightarrow> CHR 0x20 # d # collapse r)
          else c # collapse t)"
  by pat_completeness auto

termination
proof (relation "measure length")
  show "(r, s) \<in> measure length" if "s = c # t" "IsWhiteSpace c" "SkipWhiteSpace t = d # r" for s c t d r
    using length_SkipWhiteSpace [of t] that by simp
qed simp_all

declare collapse.simps [simp del]

definition CollapseWhitespace :: "string \<Rightarrow> string" where
  "CollapseWhitespace s = collapse (SkipWhiteSpace s)"

text \<open>The text of a section, a C string: a zero byte from a reference ends it.\<close>

definition GetStr :: "StrPair \<Rightarrow> string option" where
  "GetStr sp =
     (if \<not> sp_flush sp then Some (sp_str sp)
      else do {
        s \<leftarrow> (if sp_entities sp \<or> sp_newlines sp \<or> sp_collapse sp
              then map_option (\<lambda>(buf, q). take q buf) (flush_loop (sp_newlines sp) (sp_entities sp) (sp_str sp) 0 0)
              else Some (sp_str sp));
        let s = takeWhile (\<lambda>c. c \<noteq> NUL) s;
        Some (if sp_collapse sp then CollapseWhitespace s else s) })"

section \<open>Nodes\<close>

datatype XMLError = XML_NO_ERROR | XML_NO_ATTRIBUTE | XML_WRONG_ATTRIBUTE_TYPE | XML_ERROR_FILE_NOT_FOUND | XML_ERROR_FILE_COULD_NOT_BE_OPENED
  | XML_ERROR_FILE_READ_ERROR | XML_ERROR_ELEMENT_MISMATCH | XML_ERROR_PARSING_ELEMENT | XML_ERROR_PARSING_ATTRIBUTE | XML_ERROR_IDENTIFYING_TAG
  | XML_ERROR_PARSING_TEXT | XML_ERROR_PARSING_CDATA | XML_ERROR_PARSING_COMMENT | XML_ERROR_PARSING_DECLARATION | XML_ERROR_PARSING_UNKNOWN
  | XML_ERROR_EMPTY_DOCUMENT | XML_ERROR_MISMATCHED_ELEMENT | XML_ERROR_PARSING | XML_CAN_NOT_CONVERT_TEXT | XML_NO_TEXT_NODE

type_synonym XMLAttribute = "StrPair \<times> StrPair"

datatype XMLNode =
    XMLElement StrPair "XMLAttribute list" "XMLNode list"
  | XMLText StrPair bool
  | XMLComment StrPair
  | XMLDeclaration StrPair
  | XMLUnknown StrPair

datatype node_kind = KDeclaration | KComment | KCData | KUnknown | KElement | KText

datatype closing_type = OPEN | CLOSED | CLOSING

text \<open>The settings of a document.\<close>

record xml_settings =
  xs_processEntities :: bool
  xs_collapse :: bool

definition default_settings :: xml_settings where
  "default_settings = \<lparr>xs_processEntities = True, xs_collapse = False\<rparr>"

definition Identify :: "string \<Rightarrow> node_kind option \<times> string" where
  "Identify p =
     (let start = p; p = SkipWhiteSpace p
      in if p = [] then (None, p)
         else if StringEqual p ''<?'' 2 then (Some KDeclaration, drop 2 p)
         else if StringEqual p ''<!--'' 4 then (Some KComment, drop 4 p)
         else if StringEqual p ''<![CDATA['' 9 then (Some KCData, drop 9 p)
         else if StringEqual p ''<!'' 2 then (Some KUnknown, drop 2 p)
         else if StringEqual p ''<'' 1 then (Some KElement, drop 1 p)
         else (Some KText, start))"

section \<open>Parsing\<close>

text \<open>The nodes without children; the section of a plain text ends before the next tag, which has to exist.\<close>

definition XMLText_ParseDeep :: "xml_settings \<Rightarrow> bool \<Rightarrow> string \<Rightarrow> XMLError \<Rightarrow> (XMLNode \<times> string) option \<times> XMLError" where
  "XMLText_ParseDeep opts cdata p err =
     (if cdata then
        (case ParseText '']]>'' p of
           None \<Rightarrow> (None, XML_ERROR_PARSING_CDATA)
         | Some (s, r) \<Rightarrow> (Some (XMLText (Set_pair s False True False) True, r), err))
      else
        (case ParseText ''<'' p of
           None \<Rightarrow> (None, XML_ERROR_PARSING_TEXT)
         | Some (s, r) \<Rightarrow>
             if r = [] then (None, err)
             else (Some (XMLText (Set_pair s (xs_processEntities opts) True (xs_collapse opts)) False, CHR ''<'' # r), err)))"

definition XMLComment_ParseDeep :: "string \<Rightarrow> XMLError \<Rightarrow> (XMLNode \<times> string) option \<times> XMLError" where
  "XMLComment_ParseDeep p err =
     (case ParseText ''-->'' p of
        None \<Rightarrow> (None, XML_ERROR_PARSING_COMMENT)
      | Some (s, r) \<Rightarrow> (Some (XMLComment (Set_pair s False True False), r), err))"

definition XMLDeclaration_ParseDeep :: "string \<Rightarrow> XMLError \<Rightarrow> (XMLNode \<times> string) option \<times> XMLError" where
  "XMLDeclaration_ParseDeep p err =
     (case ParseText ''?>'' p of
        None \<Rightarrow> (None, XML_ERROR_PARSING_DECLARATION)
      | Some (s, r) \<Rightarrow> (Some (XMLDeclaration (Set_pair s False True False), r), err))"

definition XMLUnknown_ParseDeep :: "string \<Rightarrow> XMLError \<Rightarrow> (XMLNode \<times> string) option \<times> XMLError" where
  "XMLUnknown_ParseDeep p err =
     (case ParseText ''>'' p of
        None \<Rightarrow> (None, XML_ERROR_PARSING_UNKNOWN)
      | Some (s, r) \<Rightarrow> (Some (XMLUnknown (Set_pair s False True False), r), err))"

definition leaf_ParseDeep :: "xml_settings \<Rightarrow> node_kind \<Rightarrow> string \<Rightarrow> XMLError \<Rightarrow> (XMLNode \<times> string) option \<times> XMLError" where
  "leaf_ParseDeep opts k p err =
     (case k of
        KDeclaration \<Rightarrow> XMLDeclaration_ParseDeep p err
      | KComment \<Rightarrow> XMLComment_ParseDeep p err
      | KCData \<Rightarrow> XMLText_ParseDeep opts True p err
      | KUnknown \<Rightarrow> XMLUnknown_ParseDeep p err
      | KText \<Rightarrow> XMLText_ParseDeep opts False p err
      | KElement \<Rightarrow> (None, err))"

subsection \<open>Attributes\<close>

definition XMLAttribute_ParseDeep :: "xml_settings \<Rightarrow> string \<Rightarrow> (XMLAttribute \<times> string) option" where
  "XMLAttribute_ParseDeep opts p = do {
     (name, p) \<leftarrow> ParseName p;
     (case SkipWhiteSpace p of
        [] \<Rightarrow> None
      | c # p \<Rightarrow>
          if c \<noteq> CHR ''='' then None
          else
            (case SkipWhiteSpace p of
               [] \<Rightarrow> None
             | quote # p \<Rightarrow>
                 if quote \<noteq> CHR 0x22 \<and> quote \<noteq> CHR 0x27 then None
                 else do {
                   (s, r) \<leftarrow> ParseText [quote] p;
                   Some ((Set_pair name False False False, Set_pair s (xs_processEntities opts) True False), r) })) }"

fun FindAttribute :: "string \<Rightarrow> XMLAttribute list \<Rightarrow> XMLAttribute option" where
  "FindAttribute name [] = None"
| "FindAttribute name (a # as) = (if Same (sp_str (fst a)) name then Some a else FindAttribute name as)"

text \<open>\<open>Attribute(name)\<close>: the inner \<^const>\<open>None\<close> is NULL. Names are sections without decoding.\<close>

definition Attribute :: "string \<Rightarrow> XMLAttribute list \<Rightarrow> string option option" where
  "Attribute name as = (case FindAttribute name as of None \<Rightarrow> Some None | Some a \<Rightarrow> map_option Some (GetStr (snd a)))"

lemma length_ParseText: "ParseText e p = Some (s, r) \<Longrightarrow> length r \<le> length p"
  by (induction p arbitrary: s r) (auto split: if_splits)

lemma length_ParseName: "ParseName p = Some (n, r) \<Longrightarrow> length r < length p"
  using length_dropWhile_le by (auto simp: ParseName_def less_Suc_eq_le split: list.splits if_splits)

lemma SkipWhiteSpace_Cons: "SkipWhiteSpace p = c # t \<Longrightarrow> length t < length p"
  using length_SkipWhiteSpace [of p] by simp

lemma length_XMLAttribute:
  assumes "XMLAttribute_ParseDeep opts p = Some (a, r)"
  shows "length r < length p"
proof -
  obtain n p1 where n: "ParseName p = Some (n, p1)" using assms by (auto simp: XMLAttribute_ParseDeep_def bind_eq_Some_conv)
  obtain c p2 where c: "SkipWhiteSpace p1 = c # p2" using assms n by (cases "SkipWhiteSpace p1") (simp_all add: XMLAttribute_ParseDeep_def)
  obtain d p3 where d: "SkipWhiteSpace p2 = d # p3" using assms n c by (cases "SkipWhiteSpace p2") (simp_all add: XMLAttribute_ParseDeep_def split: if_splits)
  obtain s where s: "ParseText [d] p3 = Some (s, r)" using assms n c d by (auto simp: XMLAttribute_ParseDeep_def bind_eq_Some_conv split: if_splits)
  show ?thesis using length_ParseName [OF n] SkipWhiteSpace_Cons [OF c] SkipWhiteSpace_Cons [OF d] length_ParseText [OF s] by simp
qed

function ParseAttributes :: "xml_settings \<Rightarrow> string \<Rightarrow> XMLAttribute list \<Rightarrow> closing_type \<Rightarrow> XMLError
    \<Rightarrow> (string option \<times> XMLAttribute list \<times> closing_type \<times> XMLError) option" where
  "ParseAttributes opts p as ct err =
     (case SkipWhiteSpace p of
        [] \<Rightarrow> Some (None, as, ct, XML_ERROR_PARSING_ELEMENT)
      | c # t \<Rightarrow>
          if IsAlpha c then
            (case XMLAttribute_ParseDeep opts (c # t) of
               None \<Rightarrow> Some (None, as, ct, XML_ERROR_PARSING_ATTRIBUTE)
             | Some (a, r) \<Rightarrow> do {
                 found \<leftarrow> Attribute (sp_str (fst a)) as;
                 if found \<noteq> None then Some (None, as, ct, XML_ERROR_PARSING_ATTRIBUTE)
                 else ParseAttributes opts r (as @ [a]) ct err })
          else if c = CHR ''/'' \<and> take 1 t = ''>'' then Some (Some (drop 1 t), as, CLOSED, err)
          else if c = CHR ''>'' then Some (Some t, as, ct, err)
          else Some (None, as, ct, XML_ERROR_PARSING_ELEMENT))"
  by pat_completeness auto

termination
  by (relation "measure (\<lambda>(opts, p, as, ct, err). length p)") (auto dest!: length_XMLAttribute SkipWhiteSpace_Cons)

declare ParseAttributes.simps [simp del]

subsection \<open>Elements and documents\<close>

definition parsing_error :: "XMLError \<Rightarrow> XMLError" where
  "parsing_error err = (if err = XML_NO_ERROR then XML_ERROR_PARSING else err)"

text \<open>\<open>XMLNode::ParseDeep\<close> with \<open>XMLElement::ParseDeep\<close>, which calls it for the children: the position returned, the end
  tag handed to the parent, the children and the error.\<close>

partial_function (option) ParseDeep :: "xml_settings \<Rightarrow> string \<Rightarrow> XMLNode list \<Rightarrow> XMLError
    \<Rightarrow> (string option \<times> StrPair \<times> XMLNode list \<times> XMLError) option" where
  "ParseDeep opts p kids err =
     (if p = [] then Some (None, empty_pair, kids, err)
      else
        (case Identify p of
           (None, p) \<Rightarrow> Some (None, empty_pair, kids, err)
         | (Some k, p) \<Rightarrow>
             if k = KElement then do {
               let p = SkipWhiteSpace p;
               let (ct, p) = (if take 1 p = ''/'' then (CLOSING, drop 1 p) else (OPEN, p));
               (case ParseName p of
                  None \<Rightarrow> Some (None, empty_pair, kids, parsing_error err)
                | Some (name, p) \<Rightarrow> do {
                    (r, as, ct, err) \<leftarrow> ParseAttributes opts p [] ct err;
                    (r, endTag, inner, err) \<leftarrow>
                      (case r of
                         None \<Rightarrow> Some (None, empty_pair, [], err)
                       | Some p \<Rightarrow> if p = [] \<or> ct \<noteq> OPEN then Some (Some p, empty_pair, [], err) else ParseDeep opts p [] err);
                    (case r of
                       None \<Rightarrow> Some (None, empty_pair, kids, parsing_error err)
                     | Some p \<Rightarrow>
                         if ct = CLOSING then Some (Some p, Set_pair name False False False, kids, err)
                         else if StrPair_Empty endTag \<and> ct = OPEN \<or> \<not> StrPair_Empty endTag \<and> ct \<noteq> OPEN \<or>
                             \<not> StrPair_Empty endTag \<and> \<not> Same (sp_str endTag) name
                         then Some (None, empty_pair, kids, XML_ERROR_MISMATCHED_ELEMENT)
                         else ParseDeep opts p (kids @ [XMLElement (Set_pair name False False False) as inner]) err) }) }
             else
               (case leaf_ParseDeep opts k p err of
                  (None, err) \<Rightarrow> Some (None, empty_pair, kids, parsing_error err)
                | (Some (node, p), err) \<Rightarrow> ParseDeep opts p (kids @ [node]) err)))"

text \<open>A file: \<^const>\<open>None\<close> when it cannot be opened, otherwise its bytes and whether all of them could be read. The result
  is the error, whether there was a byte order mark, and the nodes.\<close>

definition LoadFile :: "xml_settings \<Rightarrow> (string \<times> bool) option \<Rightarrow> (XMLError \<times> bool \<times> XMLNode list) option" where
  "LoadFile opts file =
     (case file of
        None \<Rightarrow> Some (XML_ERROR_FILE_NOT_FOUND, False, [])
      | Some (bytes, complete) \<Rightarrow>
          if bytes = [] then Some (XML_NO_ERROR, False, [])
          else if \<not> complete then Some (XML_ERROR_FILE_READ_ERROR, False, [])
          else
            (case ReadBOM (SkipWhiteSpace (takeWhile (\<lambda>c. c \<noteq> NUL) bytes)) of
               (bom, p) \<Rightarrow>
                 if p = [] then Some (XML_ERROR_EMPTY_DOCUMENT, bom, [])
                 else do {
                   (r, endTag, kids, err) \<leftarrow> ParseDeep opts p [] XML_NO_ERROR;
                   Some (err, bom, kids) }))"

text \<open>A document in memory; here the parser starts at the beginning of the buffer, before a byte order mark.\<close>

definition XMLDocument_Parse :: "xml_settings \<Rightarrow> string option \<Rightarrow> (XMLError \<times> bool \<times> XMLNode list) option" where
  "XMLDocument_Parse opts p =
     (case p of
        None \<Rightarrow> Some (XML_ERROR_EMPTY_DOCUMENT, False, [])
      | Some s \<Rightarrow>
          if s = [] then Some (XML_ERROR_EMPTY_DOCUMENT, False, [])
          else
            (case ReadBOM (SkipWhiteSpace s) of
               (bom, p) \<Rightarrow>
                 if p = [] then Some (XML_ERROR_EMPTY_DOCUMENT, bom, [])
                 else do {
                   (r, endTag, kids, err) \<leftarrow> ParseDeep opts s [] XML_NO_ERROR;
                   Some (err, bom, kids) }))"

section \<open>Reading the tree\<close>

fun FirstChildElement :: "string \<Rightarrow> XMLNode list \<Rightarrow> (XMLAttribute list \<times> XMLNode list) option" where
  "FirstChildElement name [] = None"
| "FirstChildElement name (XMLElement n as kids # ns) = (if Same (sp_str n) name then Some (as, kids) else FirstChildElement name ns)"
| "FirstChildElement name (x # ns) = FirstChildElement name ns"

text \<open>\<open>GetText\<close>: the inner \<^const>\<open>None\<close> is NULL.\<close>

fun GetText :: "XMLNode list \<Rightarrow> string option option" where
  "GetText (XMLText t c # ns) = map_option Some (GetStr t)"
| "GetText ns = Some None"

text \<open>\<open>sscanf\<close> with one integer conversion: the number, or nothing when the text does not begin with one. A number that
  does not fit is undefined behaviour.\<close>

definition scan_digits :: "string \<Rightarrow> int option" where
  "scan_digits s = (let ds = takeWhile is_digit s in if ds = [] then None else Some (int (foldl (\<lambda>v c. v * 10 + (of_char c - 48)) 0 ds)))"

definition scan_number :: "string \<Rightarrow> int option" where
  "scan_number s =
     (case dropWhile is_space s of
        [] \<Rightarrow> None
      | c # t \<Rightarrow> if c = CHR ''-'' then map_option uminus (scan_digits t) else if c = CHR ''+'' then scan_digits t else scan_digits (c # t))"

definition ToInt :: "string \<Rightarrow> int option option" where
  "ToInt s =
     (case scan_number s of
        None \<Rightarrow> Some None
      | Some v \<Rightarrow> do { assert_c (- 2147483648 \<le> v \<and> v \<le> 2147483647); Some (Some v) })"

definition ToUnsigned :: "string \<Rightarrow> nat option option" where
  "ToUnsigned s =
     (case scan_number s of
        None \<Rightarrow> Some None
      | Some v \<Rightarrow> do { assert_c (\<bar>v\<bar> < 4294967296); Some (Some (nat (v mod 4294967296))) })"

definition ToBool :: "string \<Rightarrow> bool option option" where
  "ToBool s = do {
     v \<leftarrow> ToInt s;
     Some (case v of
             Some i \<Rightarrow> Some (i \<noteq> 0)
           | None \<Rightarrow> if Same s ''true'' then Some True else if Same s ''false'' then Some False else None) }"

text \<open>\<open>Query\<dots>Text\<close> and \<open>Query\<dots>Value\<close>: the error, and the value when there is none.\<close>

definition query_text :: "(string \<Rightarrow> 'a option option) \<Rightarrow> XMLNode list \<Rightarrow> (XMLError \<times> 'a option) option" where
  "query_text conv kids = do {
     t \<leftarrow> GetText kids;
     (case t of
        None \<Rightarrow> Some (XML_NO_TEXT_NODE, None)
      | Some s \<Rightarrow> do { v \<leftarrow> conv s; Some (if v = None then XML_CAN_NOT_CONVERT_TEXT else XML_NO_ERROR, v) }) }"

definition QueryIntText :: "XMLNode list \<Rightarrow> (XMLError \<times> int option) option" where "QueryIntText = query_text ToInt"
definition QueryUnsignedText :: "XMLNode list \<Rightarrow> (XMLError \<times> nat option) option" where "QueryUnsignedText = query_text ToUnsigned"
definition QueryBoolText :: "XMLNode list \<Rightarrow> (XMLError \<times> bool option) option" where "QueryBoolText = query_text ToBool"

definition query_value :: "(string \<Rightarrow> 'a option option) \<Rightarrow> XMLAttribute \<Rightarrow> (XMLError \<times> 'a option) option" where
  "query_value conv a = do {
     s \<leftarrow> GetStr (snd a);
     v \<leftarrow> conv s;
     Some (if v = None then XML_WRONG_ATTRIBUTE_TYPE else XML_NO_ERROR, v) }"

definition QueryIntValue :: "XMLAttribute \<Rightarrow> (XMLError \<times> int option) option" where "QueryIntValue = query_value ToInt"
definition QueryUnsignedValue :: "XMLAttribute \<Rightarrow> (XMLError \<times> nat option) option" where "QueryUnsignedValue = query_value ToUnsigned"
definition QueryBoolValue :: "XMLAttribute \<Rightarrow> (XMLError \<times> bool option) option" where "QueryBoolValue = query_value ToBool"

end
