(* ===== verification/XmlProps.thy ===== *)
theory XmlProps
  imports Xml "HOL-Library.Sublist"
begin

text \<open>
  The XML parser returns for every file and its tree can be read, as long as no numeric character reference occurs;
  what goes wrong with such references and with unknown entities; and the documents it reads as the tree
  they are written for.
\<close>

section \<open>Decoding\<close>

abbreviation no_refs :: "string \<Rightarrow> bool" where
  "no_refs s \<equiv> \<not> sublist ''&#'' s"

lemma no_refs_sub: "sublist t s \<Longrightarrow> no_refs s \<Longrightarrow> no_refs t"
  using sublist_order.order_trans by blast

lemma no_refs_drop: "no_refs (drop p buf) \<Longrightarrow> p \<le> p' \<Longrightarrow> no_refs (drop p' buf)"
proof (erule no_refs_sub [rotated])
  assume "p \<le> p'"
  then have "drop p' buf = drop (p' - p) (drop p buf)" by simp
  then show "sublist (drop p' buf) (drop p buf)" by (metis sublist_drop)
qed

lemma drop_write_bytes: "q + length v \<le> n \<Longrightarrow> drop n (write_bytes buf q v) = drop n buf"
  by (induction buf q v rule: write_bytes.induct) simp_all

lemma ref_start: "p < length buf \<Longrightarrow> buf ! p = CHR ''&'' \<Longrightarrow> byte_at buf (p + 1) = CHR ''#'' \<Longrightarrow> \<not> no_refs (drop p buf)"
proof -
  assume p: "p < length buf" "buf ! p = CHR ''&''" "byte_at buf (p + 1) = CHR ''#''"
  then have "p + 1 < length buf" by (auto simp: byte_at_def split: if_splits)
  then have "drop p buf = ''&#'' @ drop (p + 2) buf" using p by (simp add: byte_at_def Cons_nth_drop_Suc [symmetric])
  then show ?thesis by (metis append_Nil sublist_appendI)
qed

lemma flush_total:
  assumes "ent \<longrightarrow> no_refs (drop p buf)" and "q \<le> p"
  shows "\<exists>r. flush_loop nl ent buf p q = Some r"
  using assms
proof (induction nl ent buf p q rule: flush_loop.induct)
  case (1 nl ent buf p q)
  have d: "drop n (buf[q := x]) = drop n buf" if "p < n" for n x using that "1.prems"(2) by simp
  have later: "ent \<longrightarrow> no_refs (drop n (buf[q := x]))" if "p < n" for n x
    using no_refs_drop [of p buf n] "1.prems"(1) that d by auto
  consider "\<not> p < length buf" | "p < length buf" "nl \<and> buf ! p = CR" | "p < length buf" "\<not> (nl \<and> buf ! p = CR)" "nl \<and> buf ! p = LF"
    | "p < length buf" "\<not> (nl \<and> buf ! p = CR)" "\<not> (nl \<and> buf ! p = LF)" "ent \<and> buf ! p = CHR ''&''"
    | "p < length buf" "\<not> (nl \<and> buf ! p = CR)" "\<not> (nl \<and> buf ! p = LF)" "\<not> (ent \<and> buf ! p = CHR ''&'')" by blast
  then show ?case
  proof cases
    case 2
    then show ?thesis using "1.IH"(1) later "1.prems"(2) by (subst flush_loop.simps) auto
  next
    case 3
    then show ?thesis using "1.IH"(2) later "1.prems"(2) by (subst flush_loop.simps) auto
  next
    case 4
    then have b: "byte_at buf (p + 1) \<noteq> CHR ''#''" using ref_start "1.prems"(1) by blast
    show ?thesis
    proof (cases "find_entity entities (drop (p + 1) buf)")
      case None
      then have "\<exists>r. flush_loop nl ent buf (p + 1) (q + 1) = Some r"
        using 4 b None "1.IH"(4) no_refs_drop [of p buf "p + 1"] "1.prems" by auto
      then show ?thesis using 4 b None by (subst flush_loop.simps) simp
    next
      case (Some r)
      then show ?thesis using 4 b "1.IH"(5) [of r "fst r" "snd r"] later [of "p + snd r + 2"] "1.prems" by (subst flush_loop.simps) (cases r, simp)
    qed
  next
    case 5
    then show ?thesis using "1.IH"(6) later "1.prems"(2) by (subst flush_loop.simps) auto
  qed (subst flush_loop.simps, simp)
qed

lemma GetStr_total: "(sp_flush sp \<and> sp_entities sp \<longrightarrow> no_refs (sp_str sp)) \<Longrightarrow> \<exists>s. GetStr sp = Some s"
  using flush_total [of "sp_entities sp" 0 "sp_str sp" 0 "sp_newlines sp"] by (auto simp: GetStr_def Let_def)

section \<open>What the parts of the parser consume\<close>

lemma suffix_no_refs: "suffix t s \<Longrightarrow> no_refs s \<Longrightarrow> no_refs t"
  using no_refs_sub suffix_imp_sublist by blast

lemma suffix_SkipWhiteSpace: "suffix (SkipWhiteSpace p) p"
  by (simp add: SkipWhiteSpace_def suffix_dropWhile)

lemma ParseText_splits: "ParseText e p = Some (s, r) \<Longrightarrow> p = s @ e @ r"
  by (induction p arbitrary: s r) (auto split: if_splits dest: arg_cong [of _ _ "\<lambda>x. x @ drop (length e) p"], metis append_Cons append_take_drop_id)

lemma ParseName_splits: "ParseName p = Some (n, r) \<Longrightarrow> p = n @ r \<and> n \<noteq> []"
  by (auto simp: ParseName_def split: list.splits if_splits)

lemma Identify_consumes:
  assumes "Identify p = (Some k, p')" and "p \<noteq> []"
  shows "suffix p' p" "k \<noteq> KText \<Longrightarrow> length p' < length p" "k = KText \<Longrightarrow> p' = p \<and> hd p \<noteq> CHR ''<''"
proof -
  let ?s = "SkipWhiteSpace p"
  have ne: "?s \<noteq> []" using assms(1) by (auto simp: Identify_def Let_def)
  have d: "suffix (drop n ?s) p" for n using suffix_SkipWhiteSpace [of p] by (metis suffix_drop suffix_order.order_trans)
  have l: "0 < n \<Longrightarrow> length (drop n ?s) < length p" for n using length_SkipWhiteSpace [of p] ne by (cases ?s) auto
  show "suffix p' p" using assms(1) ne d by (auto simp: Identify_def Let_def split: if_splits)
  show "length p' < length p" if "k \<noteq> KText"
    using assms(1) ne l that by (auto simp: Identify_def Let_def simp del: length_drop split: if_splits)
  show "p' = p \<and> hd p \<noteq> CHR ''<''" if "k = KText"
  proof
    show "p' = p" using assms(1) ne that by (auto simp: Identify_def Let_def split: if_splits)
    have "hd ?s \<noteq> CHR ''<''" using assms(1) ne that by (cases ?s) (auto simp: Identify_def Let_def StringEqual_def split: if_splits)
    moreover have "hd ?s = hd p" if "hd p = CHR ''<''"
      using assms(2) that by (cases p) (auto simp: SkipWhiteSpace_def IsWhiteSpace_def is_space_def)
    ultimately show "hd p \<noteq> CHR ''<''" by metis
  qed
qed

text \<open>A section that can be read, and a tree all of whose sections can.\<close>

definition readable_pair :: "StrPair \<Rightarrow> bool" where
  "readable_pair sp \<longleftrightarrow> GetStr sp \<noteq> None"

fun readable_node :: "XMLNode \<Rightarrow> bool" where
  "readable_node (XMLElement n as kids) \<longleftrightarrow> readable_pair n \<and> list_all (\<lambda>a. readable_pair (fst a) \<and> readable_pair (snd a)) as \<and> list_all readable_node kids"
| "readable_node (XMLText t c) \<longleftrightarrow> readable_pair t"
| "readable_node (XMLComment t) \<longleftrightarrow> readable_pair t"
| "readable_node (XMLDeclaration t) \<longleftrightarrow> readable_pair t"
| "readable_node (XMLUnknown t) \<longleftrightarrow> readable_pair t"

lemma readable_Set [simp]: "(ent \<longrightarrow> no_refs s) \<Longrightarrow> readable_pair (Set_pair s ent nl col)"
  using GetStr_total [of "Set_pair s ent nl col"] by (auto simp: readable_pair_def Set_pair_def)

lemma section_no_refs: "no_refs (s @ r) \<Longrightarrow> no_refs s"
  using no_refs_sub by blast

lemma attribute_consumes:
  assumes "XMLAttribute_ParseDeep opts p = Some (a, r)" and "xs_processEntities opts \<longrightarrow> no_refs p"
  shows "suffix r p" "readable_pair (fst a)" "readable_pair (snd a)"
proof -
  obtain n p1 where n: "ParseName p = Some (n, p1)" using assms(1) by (auto simp: XMLAttribute_ParseDeep_def bind_eq_Some_conv)
  obtain c p2 where c: "SkipWhiteSpace p1 = c # p2" using assms(1) n by (cases "SkipWhiteSpace p1") (simp_all add: XMLAttribute_ParseDeep_def)
  obtain d p3 where d: "SkipWhiteSpace p2 = d # p3" using assms(1) n c by (cases "SkipWhiteSpace p2") (simp_all add: XMLAttribute_ParseDeep_def split: if_splits)
  obtain s where s: "ParseText [d] p3 = Some (s, r)" "a = (Set_pair n False False False, Set_pair s (xs_processEntities opts) True False)"
    using assms(1) n c d by (auto simp: XMLAttribute_ParseDeep_def bind_eq_Some_conv split: if_splits)
  have "suffix p1 p" using ParseName_splits [OF n] by (simp add: suffix_def)
  moreover have "suffix p2 p1" using suffix_SkipWhiteSpace [of p1] c by (metis suffix_ConsD suffix_order.order_trans suffix_order.order_refl)
  moreover have "suffix p3 p2" using suffix_SkipWhiteSpace [of p2] d by (metis suffix_ConsD suffix_order.order_trans suffix_order.order_refl)
  ultimately have p3: "suffix p3 p" by (meson suffix_order.order_trans)
  have sp: "p3 = s @ [d] @ r" using ParseText_splits [OF s(1)] .
  then have "suffix r p3" by (auto simp: suffix_def)
  then show "suffix r p" using p3 by (meson suffix_order.order_trans)
  show "readable_pair (fst a)" using s(2) by simp
  show "readable_pair (snd a)" using s(2) sp section_no_refs suffix_no_refs [OF p3] assms(2) by auto
qed

lemma Attribute_total: "list_all (\<lambda>a. readable_pair (fst a) \<and> readable_pair (snd a)) as \<Longrightarrow> \<exists>r. Attribute name as = Some r"
proof (induction as)
  case (Cons a as)
  then show ?case by (cases "GetStr (snd a)") (auto simp: Attribute_def readable_pair_def)
qed (simp add: Attribute_def)

lemma attributes_total:
  assumes "xs_processEntities opts \<longrightarrow> no_refs p" and "list_all (\<lambda>a. readable_pair (fst a) \<and> readable_pair (snd a)) as"
  shows "\<exists>r as' ct' err'. ParseAttributes opts p as ct err = Some (r, as', ct', err') \<and> (\<forall>p'. r = Some p' \<longrightarrow> suffix p' p) \<and>
    list_all (\<lambda>a. readable_pair (fst a) \<and> readable_pair (snd a)) as'"
  using assms
proof (induction opts p as ct err rule: ParseAttributes.induct)
  case (1 opts p as ct err)
  show ?case
  proof (cases "SkipWhiteSpace p")
    case Nil
    then show ?thesis using "1.prems"(2) by (simp add: ParseAttributes.simps [of opts p])
  next
    case (Cons c t)
    have ct: "suffix (c # t) p" using suffix_SkipWhiteSpace [of p] Cons by simp
    then have t: "suffix t p" by (meson suffix_ConsD)
    have d: "suffix (drop n t) p" for n using t by (metis suffix_drop suffix_order.order_trans)
    have nr: "xs_processEntities opts \<longrightarrow> no_refs (c # t)" using "1.prems"(1) suffix_no_refs [OF ct] by blast
    show ?thesis
    proof (cases "IsAlpha c \<and> XMLAttribute_ParseDeep opts (c # t) \<noteq> None")
      case True
      then obtain a r where a: "XMLAttribute_ParseDeep opts (c # t) = Some (a, r)" by auto
      note ac = attribute_consumes [OF a nr]
      obtain found where f: "Attribute (sp_str (fst a)) as = Some found" using Attribute_total [OF "1.prems"(2)] by blast
      have rp: "suffix r p" using ac(1) ct by (meson suffix_order.order_trans)
      have "xs_processEntities opts \<longrightarrow> no_refs r" using "1.prems"(1) suffix_no_refs [OF rp] by blast
      then show ?thesis using "1.IH" [OF Cons _ a refl] True Cons a f ac "1.prems"(2) rp
        by (cases found) (fastforce simp: ParseAttributes.simps [of opts p] intro: suffix_order.order_trans)+
    next
      case False
      then show ?thesis using Cons t d "1.prems"(2)
        by (cases "XMLAttribute_ParseDeep opts (c # t)") (auto simp: ParseAttributes.simps [of opts p])
    qed
  qed
qed

lemma leaf_consumes:
  assumes "leaf_ParseDeep opts k p err = (Some (node, r), err')" and "xs_processEntities opts \<longrightarrow> no_refs p"
  shows "suffix r p" "readable_node node" "k = KText \<Longrightarrow> hd p \<noteq> CHR ''<'' \<Longrightarrow> length r < length p" "err' = err"
proof -
  have k: "k \<noteq> KElement" using assms(1) by (cases k) (simp_all add: leaf_ParseDeep_def)
  define e where "e = (case k of KDeclaration \<Rightarrow> ''?>'' | KComment \<Rightarrow> ''-->'' | KCData \<Rightarrow> '']]>'' | KUnknown \<Rightarrow> ''>'' | KText \<Rightarrow> ''<'' | KElement \<Rightarrow> [])"
  note defs = leaf_ParseDeep_def XMLDeclaration_ParseDeep_def XMLComment_ParseDeep_def XMLText_ParseDeep_def XMLUnknown_ParseDeep_def
  obtain s r' where s: "ParseText e p = Some (s, r')" "r = (if k = KText then CHR ''<'' # r' else r')"
    using assms(1) k by (cases k) (auto simp: defs e_def split: option.splits prod.splits if_splits)
  have p: "p = s @ e @ r'" using ParseText_splits [OF s(1)] .
  have "r = r' \<or> k = KText \<and> r = e @ r'" using s(2) by (auto simp: e_def)
  then show "suffix r p" using p by (auto simp: suffix_def)
  have ns: "xs_processEntities opts \<longrightarrow> no_refs s" using assms(2) section_no_refs unfolding p by blast
  show "readable_node node" using assms(1) k s(1) ns by (cases k) (auto simp: defs e_def split: if_splits)
  show "length r < length p" if "k = KText" "hd p \<noteq> CHR ''<''"
  proof -
    have "s \<noteq> []" using that p by (auto simp: e_def)
    then show ?thesis using p that s(2) by (simp add: e_def)
  qed
  show "err' = err" using assms(1) by (cases k) (auto simp: defs split: option.splits prod.splits if_splits)
qed

text \<open>The parser returns at a position, with what is behind it and a tree that can be read.\<close>

definition deep_total :: "xml_settings \<Rightarrow> string \<Rightarrow> XMLNode list \<Rightarrow> XMLError \<Rightarrow> bool" where
  "deep_total opts p kids err \<longleftrightarrow> (\<exists>r e kids' err'. ParseDeep opts p kids err = Some (r, e, kids', err') \<and>
     (\<forall>p'. r = Some p' \<longrightarrow> suffix p' p) \<and> list_all readable_node kids')"

lemma deep_total_step: "ParseDeep opts p kids err = ParseDeep opts p1 kids1 err1 \<Longrightarrow> suffix p1 p \<Longrightarrow> deep_total opts p1 kids1 err1 \<Longrightarrow> deep_total opts p kids err"
  unfolding deep_total_def by (metis suffix_order.order_trans)

text \<open>An element, when what is shorter is parsed: first its tag and its content, then what is done with them.\<close>

definition element_result :: "xml_settings \<Rightarrow> string \<Rightarrow> XMLAttribute list \<Rightarrow> closing_type \<Rightarrow> XMLNode list
    \<Rightarrow> string option \<times> StrPair \<times> XMLNode list \<times> XMLError \<Rightarrow> (string option \<times> StrPair \<times> XMLNode list \<times> XMLError) option" where
  "element_result opts name as ct kids x =
     (case x of (r, e, kids', err) \<Rightarrow>
        (case r of
           None \<Rightarrow> Some (None, empty_pair, kids, parsing_error err)
         | Some p \<Rightarrow>
             if ct = CLOSING then Some (Some p, Set_pair name False False False, kids, err)
             else if StrPair_Empty e \<and> ct = OPEN \<or> \<not> StrPair_Empty e \<and> ct \<noteq> OPEN \<or> \<not> StrPair_Empty e \<and> \<not> Same (sp_str e) name
             then Some (None, empty_pair, kids, XML_ERROR_MISMATCHED_ELEMENT)
             else ParseDeep opts p (kids @ [XMLElement (Set_pair name False False False) as kids']) err))"

lemma content_total:
  assumes "xs_processEntities opts \<longrightarrow> no_refs p4" and "suffix p4 p" and "length p4 < length p"
    and "\<And>p1 err1. length p1 < length p \<Longrightarrow> suffix p1 p \<Longrightarrow> deep_total opts p1 [] err1"
  obtains r as ct' err1 r' e kids' err2 where "ParseAttributes opts p4 [] ct err = Some (r, as, ct', err1)"
    "(case r of None \<Rightarrow> Some (None, empty_pair, [], err1)
       | Some p \<Rightarrow> if p = [] \<or> ct' \<noteq> OPEN then Some (Some p, empty_pair, [], err1) else ParseDeep opts p [] err1) = Some (r', e, kids', err2)"
    "\<forall>p'. r' = Some p' \<longrightarrow> suffix p' p4" "list_all readable_node kids'" "list_all (\<lambda>a. readable_pair (fst a) \<and> readable_pair (snd a)) as"
proof -
  obtain r as ct' err1 where a: "ParseAttributes opts p4 [] ct err = Some (r, as, ct', err1)" "\<forall>p'. r = Some p' \<longrightarrow> suffix p' p4"
      "list_all (\<lambda>a. readable_pair (fst a) \<and> readable_pair (snd a)) as"
    using attributes_total [OF assms(1), of "[]" ct err] by auto
  have "\<exists>r' e kids' err2. (case r of None \<Rightarrow> Some (None, empty_pair, [], err1)
       | Some p \<Rightarrow> if p = [] \<or> ct' \<noteq> OPEN then Some (Some p, empty_pair, [], err1) else ParseDeep opts p [] err1) = Some (r', e, kids', err2) \<and>
    (\<forall>p'. r' = Some p' \<longrightarrow> suffix p' p4) \<and> list_all readable_node kids'"
  proof (cases r)
    case (Some p5)
    then have p5: "suffix p5 p4" using a(2) by simp
    then have "length p5 < length p" "suffix p5 p" using suffix_length_le [OF p5] assms(2,3) by (auto intro: suffix_order.order_trans)
    from assms(4) [OF this, of err1] show ?thesis using Some p5 by (auto simp: deep_total_def intro: suffix_order.order_trans)
  qed simp
  then show thesis using that a(1,3) by blast
qed

lemma element_total:
  assumes "Identify p = (Some KElement, p1)" and "p \<noteq> []" and "xs_processEntities opts \<longrightarrow> no_refs p" and "list_all readable_node kids"
    and "\<And>p1 kids1 err1. length p1 < length p \<Longrightarrow> suffix p1 p \<Longrightarrow> list_all readable_node kids1 \<Longrightarrow> deep_total opts p1 kids1 err1"
  shows "deep_total opts p kids err"
proof -
  note id = Identify_consumes [OF assms(1,2)]
  define p2 where "p2 = SkipWhiteSpace p1"
  define ct where "ct = (if take 1 p2 = ''/'' then CLOSING else OPEN)"
  define p3 where "p3 = (if take 1 p2 = ''/'' then drop 1 p2 else p2)"
  have s3: "suffix p3 p1" using suffix_SkipWhiteSpace [of p1] suffix_order.order_trans [OF suffix_drop [of 1 p2], of p1] by (simp add: p3_def p2_def)
  show ?thesis
  proof (cases "ParseName p3")
    case None
    then have "ParseDeep opts p kids err = Some (None, empty_pair, kids, parsing_error err)"
      using assms(1,2) unfolding p3_def p2_def by (subst ParseDeep.simps) (auto simp: Let_def split: if_splits)
    then show ?thesis using assms(4) by (simp add: deep_total_def)
  next
    case (Some n)
    then obtain name p4 where n: "ParseName p3 = Some (name, p4)" by (cases n) auto
    have s4: "suffix p4 p" "length p4 < length p"
      using ParseName_splits [OF n] s3 id(1,2) suffix_length_le [OF s3] by (auto simp: suffix_def)
    have nr4: "xs_processEntities opts \<longrightarrow> no_refs p4" using assms(3) suffix_no_refs [OF s4(1)] by blast
    obtain r as ct' err1 r' e kids' err2 where c: "ParseAttributes opts p4 [] ct err = Some (r, as, ct', err1)"
        "(case r of None \<Rightarrow> Some (None, empty_pair, [], err1)
           | Some p \<Rightarrow> if p = [] \<or> ct' \<noteq> OPEN then Some (Some p, empty_pair, [], err1) else ParseDeep opts p [] err1) = Some (r', e, kids', err2)"
        "\<forall>p'. r' = Some p' \<longrightarrow> suffix p' p4" "list_all readable_node kids'" "list_all (\<lambda>a. readable_pair (fst a) \<and> readable_pair (snd a)) as"
      by (rule content_total [OF nr4 s4, of ct err]) (simp_all add: assms(5))
    have step: "ParseDeep opts p kids err = element_result opts name as ct' kids (r', e, kids', err2)"
      using assms(1,2) n c(1,2) unfolding p3_def ct_def p2_def element_result_def by (subst ParseDeep.simps) (auto simp: Let_def split: if_splits)
    show ?thesis
    proof (cases r')
      case (Some p6)
      then have p6: "suffix p6 p4" using c(3) by simp
      then have short: "length p6 < length p" "suffix p6 p" using suffix_length_le [OF p6] s4 by (auto intro: suffix_order.order_trans)
      have "deep_total opts p6 (kids @ [XMLElement (Set_pair name False False False) as kids']) err2"
        using assms(4) c(4,5) by (intro assms(5) short) simp
      then show ?thesis using Some step short(2) assms(4) by (auto simp: element_result_def deep_total_def intro: suffix_order.order_trans)
    qed (use step assms(4) in \<open>simp add: element_result_def deep_total_def\<close>)
  qed
qed

lemma parse_deep_total:
  assumes "xs_processEntities opts \<longrightarrow> no_refs p" and "list_all readable_node kids"
  shows "deep_total opts p kids err"
  using assms
proof (induction "length p" arbitrary: p kids err rule: less_induct)
  case (less p kids err)
  have later: "deep_total opts p1 kids1 err1" if "length p1 < length p" "suffix p1 p" "list_all readable_node kids1" for p1 kids1 err1
    using less.hyps [OF that(1) _ that(3)] less.prems(1) suffix_no_refs [OF that(2)] by blast
  show ?case
  proof (cases "p = [] \<or> fst (Identify p) = None")
    case True
    then show ?thesis using less.prems(2) unfolding deep_total_def by (subst ParseDeep.simps) (auto split: prod.splits)
  next
    case False
    then obtain k p1 where k: "Identify p = (Some k, p1)" "p \<noteq> []" by (cases "Identify p") auto
    note id = Identify_consumes [OF k]
    have nr: "xs_processEntities opts \<longrightarrow> no_refs p1" using less.prems(1) suffix_no_refs [OF id(1)] by blast
    show ?thesis
    proof (cases "k = KElement")
      case True
      then show ?thesis using element_total [of p p1] k less.prems later by blast
    next
      case leaf: False
      obtain x err1 where x: "leaf_ParseDeep opts k p1 err = (x, err1)" by fastforce
      show ?thesis
      proof (cases x)
        case None
        then have "ParseDeep opts p kids err = Some (None, empty_pair, kids, parsing_error err1)" using k leaf x by (subst ParseDeep.simps) simp
        then show ?thesis using less.prems(2) by (simp add: deep_total_def)
      next
        case (Some y)
        then obtain node p2 where y: "leaf_ParseDeep opts k p1 err = (Some (node, p2), err1)" using x by (cases y) auto
        note lf = leaf_consumes [OF y nr]
        have shorter: "length p2 < length p" using lf(1,3) id(2,3) suffix_length_le [OF lf(1)] by (cases "k = KText") auto
        have rest: "suffix p2 p" by (rule suffix_order.order_trans [OF lf(1) id(1)])
        have step: "ParseDeep opts p kids err = ParseDeep opts p2 (kids @ [node]) err1" using k leaf y by (subst ParseDeep.simps) simp
        show ?thesis using lf(2) less.prems(2) by (intro deep_total_step [OF step rest] later [OF shorter rest]) simp
      qed
    qed
  qed
qed

text \<open> C28 (termination). Loading a file ends without a fault, for every content and every setting, and every name, attribute, text and
  comment of the resulting tree can be read, provided that entities are not processed or no numeric character reference occurs.
  (With one that is malformed, reading the text is a fault.) \<close>

theorem file_parse_returns:
  assumes "\<not> xs_processEntities opts \<or> no_refs bytes"
  shows "\<exists>err bom ns. LoadFile opts (Some (bytes, complete)) = Some (err, bom, ns) \<and> list_all readable_node ns"
proof -
  let ?t = "takeWhile (\<lambda>c. c \<noteq> NUL) bytes"
  obtain bom p where p: "ReadBOM (SkipWhiteSpace ?t) = (bom, p)" by fastforce
  have "suffix p (SkipWhiteSpace ?t)" using p by (auto simp: ReadBOM_def suffix_drop split: if_splits)
  then have "suffix p ?t" using suffix_SkipWhiteSpace suffix_order.order_trans by blast
  then have "no_refs bytes \<Longrightarrow> no_refs p" using suffix_no_refs no_refs_sub prefix_imp_sublist takeWhile_is_prefix by metis
  then have "xs_processEntities opts \<longrightarrow> no_refs p" using assms by blast
  from parse_deep_total [OF this, of "[]" XML_NO_ERROR] show ?thesis using p by (auto simp: LoadFile_def deep_total_def)
qed

theorem file_parse_returns_witness:
  "\<exists>err bom ns. LoadFile default_settings (Some (''<a k=&>x&amp;&</b>'', True)) = Some (err, bom, ns) \<and> list_all readable_node ns"
  by (rule file_parse_returns) code_simp

section \<open>Decoding of escaped text\<close>

text \<open>In the buffer: what is written, bytes left over from what was read, and what is still to be read.\<close>

lemma write_front: "(w @ junk @ c # s)[length w := x] = (w @ [x]) @ tl (junk @ [c]) @ s"
  by (cases junk) (simp_all add: list_update_append)

lemma nth_read: "(w @ junk @ c # s) ! (length w + length junk) = c"
  by (simp add: nth_append)

lemma byte_read: "byte_at (w @ junk @ c # s) (length w + length junk + 1) = (case s of [] \<Rightarrow> NUL | d # t \<Rightarrow> d)"
  by (cases s) (simp_all add: byte_at_def nth_append)

lemma flush_char:
  assumes "ent \<longrightarrow> c \<noteq> CHR ''&''" and "nl \<longrightarrow> CR \<notin> set (c # s)"
  shows "flush_loop nl ent (w @ junk @ c # s) (length w + length junk) (length w)
    = flush_loop nl ent ((w @ [c]) @ tl (junk @ [c]) @ s) (length (w @ [c]) + length (tl (junk @ [c]))) (length (w @ [c]))"
proof -
  have l: "length w + length junk < length (w @ junk @ c # s)" by simp
  have n: "byte_at (w @ junk @ c # s) (length w + length junk + 1) = CR \<Longrightarrow> \<not> nl"
    using assms(2) unfolding byte_read by (cases s) auto
  have p: "length w + length junk + 1 = length (w @ [c]) + length (tl (junk @ [c]))" by (cases junk) simp_all
  show ?thesis
    using assms l n p by (subst flush_loop.simps) (auto simp: nth_read write_front)
qed

lemma flush_entity:
  assumes "find_entity entities (n @ CHR '';'' # s) = Some (v, length n)" and "take 1 n \<noteq> ''#''" and "n \<noteq> []"
  shows "flush_loop nl True (w @ junk @ CHR ''&'' # n @ CHR '';'' # s) (length w + length junk) (length w)
    = flush_loop nl True ((w @ [v]) @ (tl (junk @ ''&'') @ n @ '';'') @ s) (length (w @ [v]) + length (tl (junk @ ''&'') @ n @ '';'')) (length (w @ [v]))"
proof -
  let ?b = "w @ junk @ CHR ''&'' # n @ CHR '';'' # s"
  have l: "length w + length junk < length ?b" by simp
  have h: "byte_at ?b (length w + length junk + 1) \<noteq> CHR ''#''" using assms(2,3) unfolding byte_read by (cases n) auto
  have f: "find_entity entities (drop (length w + length junk + 1) ?b) = Some (v, length n)" using assms(1) by simp
  have p: "length w + length junk + length n + 2 = length (w @ [v]) + length (tl (junk @ ''&'') @ n @ '';'')" by (cases junk) simp_all
  have u: "?b[length w := v] = (w @ [v]) @ (tl (junk @ ''&'') @ n @ '';'') @ s" using write_front [of w junk "CHR ''&''"] by simp
  have "flush_loop nl True ?b (length w + length junk) (length w) = flush_loop nl True (?b[length w := v]) (length w + length junk + length n + 2) (length w + 1)"
    by (subst flush_loop.simps) (use l h f in \<open>simp only: nth_read if_True if_False simp_thms option.case prod.case, simp\<close>)
  then show ?thesis unfolding u p by simp
qed

definition escape :: "(char \<Rightarrow> bool) \<Rightarrow> string \<Rightarrow> string" where
  "escape flag s = concat (map (\<lambda>c. if flag c then CHR ''&'' # fst (hd (filter (\<lambda>e. snd e = c) entities)) @ '';'' else [c]) s)"

definition special_flag :: "(char \<Rightarrow> bool) \<Rightarrow> bool" where
  "special_flag flag \<longleftrightarrow> flag (CHR ''&'') \<and> (\<forall>c. flag c \<longrightarrow> c \<in> snd ` set entities)"

lemma escape_simps [simp]: "escape flag [] = []" "escape flag (c # s) = (if flag c then CHR ''&'' # fst (hd (filter (\<lambda>e. snd e = c) entities)) @ '';'' else [c]) @ escape flag s"
  by (simp_all add: escape_def)

lemma entity_found:
  assumes "c \<in> snd ` set entities"
  shows "find_entity entities (fst (hd (filter (\<lambda>e. snd e = c) entities)) @ CHR '';'' # s) = Some (c, length (fst (hd (filter (\<lambda>e. snd e = c) entities))))"
    "take 1 (fst (hd (filter (\<lambda>e. snd e = c) entities))) \<noteq> ''#''" "fst (hd (filter (\<lambda>e. snd e = c) entities)) \<noteq> []" "CR \<notin> set (fst (hd (filter (\<lambda>e. snd e = c) entities)))"
  using assms by (auto simp: entities_def)

lemma escape_no_CR: "special_flag flag \<Longrightarrow> CR \<notin> set s \<Longrightarrow> CR \<notin> set (escape flag s)"
  using entity_found(4) by (induction s) (auto simp: special_flag_def)

lemma flush_escaped:
  assumes "special_flag flag" and "CR \<notin> set s"
  shows "\<exists>junk'. flush_loop nl True (w @ junk @ escape flag s) (length w + length junk) (length w) = Some ((w @ s) @ junk', length (w @ s))"
  using assms(2)
proof (induction s arbitrary: w junk)
  case Nil
  then show ?case by (subst flush_loop.simps) simp
next
  case (Cons c s)
  show ?case
  proof (cases "flag c")
    case True
    then have c: "c \<in> snd ` set entities" using assms(1) by (simp add: special_flag_def)
    let ?n = "fst (hd (filter (\<lambda>e. snd e = c) entities))"
    from flush_entity [OF entity_found(1-3) [OF c], of nl w junk "escape flag s"] Cons.IH [of "w @ [c]" "tl (junk @ ''&'') @ ?n @ '';''"] Cons.prems True
    show ?thesis by simp
  next
    case False
    then have "c \<noteq> CHR ''&''" using assms(1) by (auto simp: special_flag_def)
    moreover have "CR \<notin> set (c # escape flag s)" using escape_no_CR [OF assms(1), of s] Cons.prems by simp
    ultimately show ?thesis using flush_char [of True c nl "escape flag s" w junk] Cons.IH [of "w @ [c]" "tl (junk @ [c])"] Cons.prems False by simp
  qed
qed

text \<open>Sections that hold their text in one of the ways the printer writes it.\<close>

lemma GetStr_escaped: "special_flag flag \<Longrightarrow> CR \<notin> set s \<Longrightarrow> NUL \<notin> set s \<Longrightarrow> GetStr (Set_pair (escape flag s) True nl False) = Some s"
  using flush_escaped [of flag s nl "[]" "[]"] by (auto simp: GetStr_def Set_pair_def takeWhile_eq_all_conv)

lemma flush_plain:
  assumes "CR \<notin> set s"
  shows "\<exists>junk'. flush_loop nl False (w @ junk @ s) (length w + length junk) (length w) = Some ((w @ s) @ junk', length (w @ s))"
  using assms
proof (induction s arbitrary: w junk)
  case (Cons c s)
  then show ?case using flush_char [of False c nl s w junk] Cons.IH [of "w @ [c]" "tl (junk @ [c])"] by simp
qed (subst flush_loop.simps, simp)

lemma GetStr_plain: "CR \<notin> set s \<Longrightarrow> NUL \<notin> set s \<Longrightarrow> GetStr (Set_pair s False nl False) = Some s"
  using flush_plain [of s nl "[]" "[]"] by (auto simp: GetStr_def Set_pair_def takeWhile_eq_all_conv)

section \<open>References and entities that go wrong\<close>

lemma unknown_entity_garbled:
  assumes "find_entity entities s = None" and "take 1 s \<noteq> ''#''" and "CHR ''&'' \<notin> set s" and "CR \<notin> set s" and "NUL \<notin> set s"
  shows "GetStr (Set_pair (''&lt;&'' @ s) True True False) = Some (''<l'' @ s)"
proof -
  let ?b = "''<lt;&'' @ s"
  have e: "find_entity entities (''lt'' @ CHR '';'' # CHR ''&'' # s) = Some (CHR ''<'', length ''lt'')" by (simp add: entities_def)
  have 1: "flush_loop True True (''&lt;&'' @ s) 0 0 = flush_loop True True ?b 4 1"
    using flush_entity [OF e, of True "[]" "[]"] by (simp add: numeral_eq_Suc)
  have 2: "flush_loop True True ?b 4 1 = flush_loop True True ?b 5 2"
  proof -
    have b: "byte_at ?b 5 \<noteq> CHR ''#''" using assms(2) by (cases s) (simp_all add: byte_at_def)
    have d: "drop 5 ?b = s" by simp
    have "?b ! 4 = CHR ''&''" by simp
    then show ?thesis using b d assms(1) by (subst flush_loop.simps) (simp add: numeral_2_eq_2)
  qed
  obtain junk where "flush_loop True True ?b 5 2 = Some ((''<l'' @ s) @ junk, length (''<l'' @ s))"
  proof -
    have "escape (\<lambda>c. c = CHR ''&'') s = s" using assms(3) by (induction s) auto
    moreover have "special_flag (\<lambda>c. c = CHR ''&'')" by (simp add: special_flag_def entities_def)
    ultimately show ?thesis using flush_escaped [of "\<lambda>c. c = CHR ''&''" s True "''<l''" "''t;&''"] assms(4) that by (auto simp: numeral_eq_Suc)
  qed
  with 1 2 show ?thesis using assms(5) by (auto simp: GetStr_def Set_pair_def takeWhile_eq_all_conv)
qed

lemma malformed_reference_faults:
  assumes "GetCharacterRef (''&#'' @ s) = None" and "CHR ''&'' \<notin> set t" and "CR \<notin> set (t @ s)"
  shows "GetStr (Set_pair (t @ ''&#'' @ s) True nl False) = None"
proof -
  have "flush_loop nl True (w @ junk @ t @ ''&#'' @ s) (length w + length junk) (length w) = None" for w junk
    using assms(2,3)
  proof (induction t arbitrary: w junk)
    case Nil
    have b: "byte_at (w @ junk @ CHR ''&'' # ''#'' @ s) (length w + length junk + 1) = CHR ''#''" unfolding byte_read by simp
    then show ?case using assms(1) nth_read [of w junk "CHR ''&''" "''#'' @ s"] by (subst flush_loop.simps) simp
  next
    case (Cons c t)
    then have "c \<noteq> CHR ''&''" "CR \<notin> set (c # t @ ''&#'' @ s)" by auto
    then have "flush_loop nl True (w @ junk @ c # (t @ ''&#'' @ s)) (length w + length junk) (length w)
        = flush_loop nl True ((w @ [c]) @ tl (junk @ [c]) @ t @ ''&#'' @ s) (length (w @ [c]) + length (tl (junk @ [c]))) (length (w @ [c]))"
      by (intro flush_char) (auto simp del: append_assoc)
    also have "\<dots> = None" using Cons.prems by (intro Cons.IH) simp_all
    finally show ?case by (simp only: append_Cons)
  qed
  from this [of "[]" "[]"] show ?thesis by (simp add: GetStr_def Set_pair_def)
qed

end
