(* ===== verification/XmlLayout.thy ===== *)
theory XmlLayout
  imports XmlProps
begin

text \<open>
  The documents as a grammar: the trees of values a document is written for, the ways to lay such a tree out as
  text, and the proof that the parser reads every layout as its tree, with the values of texts and attributes decoded.
\<close>

section \<open>Trees and their layouts\<close>

datatype xml = Elem string "(string \<times> string) list" "xml list" | Plain string | CData string | Comment string | Decl string | Unk string

text \<open>What a node of the parser stands for. Names need no decoding.\<close>

abbreviation name_pair :: "string \<Rightarrow> StrPair" where
  "name_pair m \<equiv> Set_pair m False False False"

definition attribute_pair :: "XMLAttribute \<Rightarrow> string \<times> string \<Rightarrow> bool" where
  "attribute_pair a b \<longleftrightarrow> fst a = name_pair (fst b) \<and> GetStr (snd a) = Some (snd b)"

fun represents :: "XMLNode \<Rightarrow> xml \<Rightarrow> bool" where
  "represents (XMLElement n as kids) (Elem m bs ks) \<longleftrightarrow>
     n = name_pair m \<and> list_all2 attribute_pair as bs \<and> list_all2 represents kids ks"
| "represents (XMLText t c) x \<longleftrightarrow> (\<exists>v. GetStr t = Some v \<and> x = (if c then CData v else Plain v))"
| "represents (XMLComment t) x \<longleftrightarrow> (\<exists>v. GetStr t = Some v \<and> x = Comment v)"
| "represents (XMLDeclaration t) x \<longleftrightarrow> (\<exists>v. GetStr t = Some v \<and> x = Decl v)"
| "represents (XMLUnknown t) x \<longleftrightarrow> (\<exists>v. GetStr t = Some v \<and> x = Unk v)"
| "represents x y \<longleftrightarrow> False"

fun is_plain :: "xml \<Rightarrow> bool" where
  "is_plain (Plain v) \<longleftrightarrow> True"
| "is_plain x \<longleftrightarrow> False"

definition blank :: "string \<Rightarrow> bool" where
  "blank ws \<longleftrightarrow> list_all IsWhiteSpace ws"

text \<open>A section between its delimiters, and a name.\<close>

definition section_ok :: "string \<Rightarrow> string \<Rightarrow> bool" where
  "section_ok e r \<longleftrightarrow> ParseText e (r @ e) = Some (r, [])"

definition name_ok :: "string \<Rightarrow> bool" where
  "name_ok n \<longleftrightarrow> ParseName n = Some (n, []) \<and> length n < nat INT_MAX"

inductive attributes_text :: "xml_settings \<Rightarrow> (string \<times> string) list \<Rightarrow> string \<Rightarrow> bool" for opts where
  no_attribute: "attributes_text opts [] []"
| attribute: "\<lbrakk>attributes_text opts as s; ws \<noteq> []; blank ws; blank ws1; blank ws2; name_ok n; IsAlpha (hd n); n \<notin> fst ` set as;
    q = CHR 0x22 \<or> q = CHR 0x27; q \<notin> set r; GetStr (Set_pair r (xs_processEntities opts) True False) = Some v\<rbrakk>
    \<Longrightarrow> attributes_text opts ((n, v) # as) (ws @ n @ ws1 @ ''='' @ ws2 @ q # r @ q # s)"

inductive markup :: "xml_settings \<Rightarrow> xml \<Rightarrow> string \<Rightarrow> bool" and layout :: "xml_settings \<Rightarrow> xml list \<Rightarrow> string \<Rightarrow> bool" for opts where
  m_comment: "\<lbrakk>section_ok ''-->'' r; GetStr (Set_pair r False True False) = Some v\<rbrakk> \<Longrightarrow> markup opts (Comment v) (''<!--'' @ r @ ''-->'')"
| m_declaration: "\<lbrakk>section_ok ''?>'' r; GetStr (Set_pair r False True False) = Some v\<rbrakk> \<Longrightarrow> markup opts (Decl v) (''<?'' @ r @ ''?>'')"
| m_cdata: "\<lbrakk>section_ok '']]>'' r; GetStr (Set_pair r False True False) = Some v\<rbrakk> \<Longrightarrow> markup opts (CData v) (''<![CDATA['' @ r @ '']]>'')"
| m_unknown: "\<lbrakk>section_ok ''>'' r; GetStr (Set_pair r False True False) = Some v; take 2 r \<noteq> ''--''; take 7 r \<noteq> ''[CDATA[''\<rbrakk>
    \<Longrightarrow> markup opts (Unk v) (''<!'' @ r @ ''>'')"
| m_empty: "\<lbrakk>name_ok n; attributes_text opts as a; blank ws; blank ws1\<rbrakk> \<Longrightarrow> markup opts (Elem n as []) (''<'' @ ws @ n @ a @ ws1 @ ''/>'')"
| m_element: "\<lbrakk>name_ok n; attributes_text opts as a; blank ws; blank ws1; blank ws2; blank ws3; layout opts ns s\<rbrakk>
    \<Longrightarrow> markup opts (Elem n as ns) (''<'' @ ws @ n @ a @ ws1 @ ''>'' @ s @ ''<'' @ ws2 @ ''/'' @ n @ ws3 @ ''>'')"
| l_end: "blank ws \<Longrightarrow> layout opts [] ws"
| l_markup: "\<lbrakk>blank ws; markup opts n m; layout opts ns s\<rbrakk> \<Longrightarrow> layout opts (n # ns) (ws @ m @ s)"
| l_text: "\<lbrakk>CHR ''<'' \<notin> set r; \<not> blank r; GetStr (Set_pair r (xs_processEntities opts) True (xs_collapse opts)) = Some v; layout opts ns s; take 1 s \<in> {[], ''<''}\<rbrakk>
    \<Longrightarrow> layout opts (Plain v # ns) (r @ s)"

text \<open>A file: a document, with a byte order mark or without; there is no plain text outside of the elements.\<close>

definition BOM :: string where
  "BOM = [CHR 0xEF, CHR 0xBB, CHR 0xBF]"

definition file_layout :: "xml_settings \<Rightarrow> xml list \<Rightarrow> string \<Rightarrow> bool" where
  "file_layout opts ns bytes \<longleftrightarrow> ns \<noteq> [] \<and> (\<forall>n \<in> set ns. \<not> is_plain n) \<and> NUL \<notin> set bytes \<and>
     (\<exists>s. layout opts ns s \<and> (bytes = s \<or> bytes = BOM @ s))"

section \<open>The parts of the parser on their text\<close>

lemma blank_simps [simp]: "blank []" "blank (c # ws) \<longleftrightarrow> IsWhiteSpace c \<and> blank ws"
  by (simp_all add: blank_def)

lemma skip_blank [simp]: "blank ws \<Longrightarrow> SkipWhiteSpace (ws @ s) = SkipWhiteSpace s"
  by (induction ws) (simp_all add: SkipWhiteSpace_def)

lemma skip_all [simp]: "blank ws \<Longrightarrow> SkipWhiteSpace ws = []"
  by (induction ws) (simp_all add: SkipWhiteSpace_def)

lemma skip_stop [simp]: "\<not> IsWhiteSpace c \<Longrightarrow> SkipWhiteSpace (c # s) = c # s"
  by (simp add: SkipWhiteSpace_def)

lemma markup_chars [simp]: "\<not> IsWhiteSpace (CHR ''<'')" "\<not> IsWhiteSpace (CHR ''>'')" "\<not> IsWhiteSpace (CHR ''/'')" "\<not> IsWhiteSpace (CHR ''='')"
  "\<not> IsWhiteSpace (CHR 0x22)" "\<not> IsWhiteSpace (CHR 0x27)"
  by (simp_all add: IsWhiteSpace_def is_space_def)

lemma alpha_no_space: "IsAlpha c \<Longrightarrow> \<not> IsWhiteSpace c"
  by (auto simp: IsAlpha_def IsWhiteSpace_def is_space_def IsUTF8Continuation_def Let_def)

lemma name_no_space: "name_char b c \<Longrightarrow> \<not> IsWhiteSpace c"
  by (auto simp: name_char_def IsAlphaNum_def IsWhiteSpace_def is_space_def is_digit_def dest: alpha_no_space)

lemma ParseText_append: "ParseText e p = Some (s, r) \<Longrightarrow> ParseText e (p @ q) = Some (s, r @ q)"
proof (induction p arbitrary: s r)
  case (Cons c p)
  show ?case
  proof (cases "take (length e) (c # p) = e")
    case True
    then have "length e \<le> length (c # p)" by (metis length_take min.absorb_iff2 min.commute)
    then have "take (length e) ((c # p) @ q) = take (length e) (c # p)" "drop (length e) ((c # p) @ q) = drop (length e) (c # p) @ q" by (simp_all only: take_append drop_append, simp_all)
    then show ?thesis using Cons.prems True by simp
  next
    case False
    then obtain s' where s': "ParseText e p = Some (s', r)" "s = c # s'" using Cons.prems by auto
    have l: "length e \<le> length (c # p)" using ParseText_splits [OF s'(1)] by simp
    have "take (length e) ((c # p) @ q) = take (length e) (c # p)" using l by (simp only: take_append) simp
    then show ?thesis using Cons.IH [OF s'(1)] False s'(2) by simp
  qed
qed simp

lemma section_read: "section_ok e r \<Longrightarrow> ParseText e (r @ e @ s) = Some (r, s)"
  using ParseText_append [of e "r @ e" r "[]" s] by (simp add: section_ok_def)

lemma section_char: "c \<notin> set r \<Longrightarrow> ParseText [c] (r @ c # s) = Some (r, s)"
  by (induction r) auto

lemma name_read:
  assumes "name_ok n" and "\<And>c t. s = c # t \<Longrightarrow> \<not> name_char False c"
  shows "ParseName (n @ s) = Some (n, s)"
proof -
  obtain c t where n: "n = c # t" "name_char True c" "dropWhile (name_char False) t = []"
    using assms(1) by (auto simp: name_ok_def ParseName_def split: list.splits if_splits)
  have t: "\<forall>x \<in> set t. name_char False x" using n(3) by (simp add: dropWhile_eq_Nil_conv)
  have s: "takeWhile (name_char False) s = []" "dropWhile (name_char False) s = s" using assms(2) by (cases s; simp)+
  show ?thesis using n(1,2) t s by (simp add: ParseName_def)
qed

lemma name_nonempty: "name_ok n \<Longrightarrow> n \<noteq> []"
  by (auto simp: name_ok_def ParseName_def)

lemma blank_no_name: "blank ws \<Longrightarrow> ws @ s = c # t \<Longrightarrow> (\<And>d u. s = d # u \<Longrightarrow> \<not> name_char False d) \<Longrightarrow> \<not> name_char False c"
  using name_no_space by (cases ws) auto

lemma delimiters [simp]: "\<not> name_char b (CHR ''='')" "\<not> name_char b (CHR ''>'')" "\<not> name_char b (CHR ''/'')"
  "\<not> name_char b (CHR ''?'')" "\<not> name_char b (CHR ''!'')"
  by (simp_all add: name_char_def IsAlphaNum_def IsAlpha_def is_digit_def)

lemma Same_short: "length q < nat INT_MAX \<Longrightarrow> Same p q \<longleftrightarrow> p = q"
  by (auto simp: StringEqual_def)

lemma attribute_read:
  assumes "name_ok n" and "blank ws1" and "blank ws2" and "q = CHR 0x22 \<or> q = CHR 0x27" and "q \<notin> set r"
  shows "XMLAttribute_ParseDeep opts (n @ ws1 @ ''='' @ ws2 @ q # r @ q # s) = Some ((name_pair n, Set_pair r (xs_processEntities opts) True False), s)"
proof -
  have "\<not> name_char False c" if "ws1 @ ''='' @ ws2 @ q # r @ q # s = c # t" for c t
    using blank_no_name [OF assms(2) that] by auto
  then have "ParseName (n @ ws1 @ ''='' @ ws2 @ q # r @ q # s) = Some (n, ws1 @ ''='' @ ws2 @ q # r @ q # s)" by (rule name_read [OF assms(1)])
  moreover have "SkipWhiteSpace (q # r @ q # s) = q # r @ q # s" using assms(4) by auto
  ultimately show ?thesis using assms by (auto simp: XMLAttribute_ParseDeep_def section_char)
qed

lemma attribute_new: "list_all2 attribute_pair acc bs \<Longrightarrow> length n < nat INT_MAX \<Longrightarrow> n \<notin> fst ` set bs \<Longrightarrow> Attribute n acc = Some None"
proof -
  assume a: "list_all2 attribute_pair acc bs" "length n < nat INT_MAX" "n \<notin> fst ` set bs"
  from a(1,3) have "FindAttribute n acc = None"
    by (induction rule: list_all2_induct) (auto simp: attribute_pair_def Set_pair_def Same_short [OF a(2)])
  then show ?thesis by (simp add: Attribute_def)
qed

lemma attributes_read:
  assumes "attributes_text opts as a"
  shows "\<exists>xs. list_all2 attribute_pair xs as \<and>
    (\<forall>acc bs t ct err. list_all2 attribute_pair acc bs \<longrightarrow> fst ` set bs \<inter> fst ` set as = {} \<longrightarrow> ParseAttributes opts (a @ t) acc ct err = ParseAttributes opts t (acc @ xs) ct err)"
  using assms
proof induction
  case no_attribute
  then show ?case by (intro exI [of _ "[]"]) simp
next
  case (attribute as s ws ws1 ws2 n q r v)
  then obtain xs where xs: "list_all2 attribute_pair xs as"
    "\<And>acc bs t ct err. list_all2 attribute_pair acc bs \<Longrightarrow> fst ` set bs \<inter> fst ` set as = {} \<Longrightarrow> ParseAttributes opts (s @ t) acc ct err = ParseAttributes opts t (acc @ xs) ct err"
    by blast
  let ?x = "(name_pair n, Set_pair r (xs_processEntities opts) True False)"
  have x: "attribute_pair ?x (n, v)" using attribute.hyps by (simp add: attribute_pair_def)
  have l: "length n < nat INT_MAX" using attribute.hyps by (simp add: name_ok_def)
  show ?case
  proof (intro exI [of _ "?x # xs"] conjI allI impI)
    show "list_all2 attribute_pair (?x # xs) ((n, v) # as)" using x xs(1) by simp
    fix acc bs t ct err
    assume acc: "list_all2 attribute_pair acc bs" "fst ` set bs \<inter> fst ` set ((n, v) # as) = {}"
    obtain c n' where n: "n = c # n'" using attribute.hyps name_nonempty by (cases n) auto
    let ?t = "n @ ws1 @ ''='' @ ws2 @ q # r @ q # (s @ t)"
    have c: "IsAlpha c" using attribute.hyps n by simp
    have "SkipWhiteSpace (ws @ ?t) = ?t" using attribute.hyps alpha_no_space [OF c] n by simp
    moreover have "XMLAttribute_ParseDeep opts ?t = Some (?x, s @ t)" using attribute.hyps by (intro attribute_read) auto
    moreover have "Attribute n acc = Some None" using attribute_new [OF acc(1) l] acc(2) by auto
    ultimately have "ParseAttributes opts (ws @ ?t) acc ct err = ParseAttributes opts (s @ t) (acc @ [?x]) ct err"
      using c n by (subst ParseAttributes.simps) (simp add: Set_pair_def)
    also have "\<dots> = ParseAttributes opts t ((acc @ [?x]) @ xs) ct err"
      using acc x attribute.hyps by (intro xs(2) [of _ "bs @ [(n, v)]"]) (auto intro: list_all2_appendI)
    finally show "ParseAttributes opts ((ws @ n @ ws1 @ ''='' @ ws2 @ q # r @ q # s) @ t) acc ct err = ParseAttributes opts t (acc @ ?x # xs) ct err" by simp
  qed
qed

lemma attributes_end:
  "blank ws \<Longrightarrow> ParseAttributes opts (ws @ ''>'' @ s) as ct err = Some (Some s, as, ct, err)"
  "blank ws \<Longrightarrow> ParseAttributes opts (ws @ ''/>'' @ s) as ct err = Some (Some s, as, CLOSED, err)"
  by (subst ParseAttributes.simps, simp add: IsAlpha_def)+

section \<open>Every layout is parsed to its tree\<close>

lemma identify_text:
  assumes "blank ws"
  shows "Identify (ws @ ''<!--'' @ s) = (Some KComment, s)"
    "Identify (ws @ ''<?'' @ s) = (Some KDeclaration, s)"
    "Identify (ws @ ''<![CDATA['' @ s) = (Some KCData, s)"
    "take 2 s \<noteq> ''--'' \<Longrightarrow> take 7 s \<noteq> ''[CDATA['' \<Longrightarrow> Identify (ws @ ''<!'' @ s) = (Some KUnknown, s)"
    "take 1 s \<notin> {[], ''?'', ''!''} \<Longrightarrow> Identify (ws @ ''<'' @ s) = (Some KElement, s)"
  using assms by (auto simp: Identify_def Let_def StringEqual_def numeral_eq_Suc take_Suc_conv_app_nth hd_append split: list.splits)

lemma identify_skips: "blank ws \<Longrightarrow> take 1 s = ''<'' \<Longrightarrow> Identify (ws @ s) = Identify s"
  by (cases s) (auto simp: Identify_def Let_def StringEqual_def)

lemma identify_plain:
  assumes "\<not> blank r" and "CHR ''<'' \<notin> set r"
  shows "Identify (r @ s) = (Some KText, r @ s)"
proof -
  obtain c t where c: "SkipWhiteSpace r = c # t" "c \<in> set r" "\<not> IsWhiteSpace c"
  proof -
    have ne: "SkipWhiteSpace r \<noteq> []" using assms(1) by (simp add: SkipWhiteSpace_def blank_def list_all_iff dropWhile_eq_Nil_conv)
    then have "hd (SkipWhiteSpace r) \<in> set r" "\<not> IsWhiteSpace (hd (SkipWhiteSpace r))"
      using hd_dropWhile [of IsWhiteSpace r] set_dropWhileD [of "hd (dropWhile IsWhiteSpace r)" IsWhiteSpace r] by (simp_all add: SkipWhiteSpace_def)
    then show ?thesis using that [of "hd (SkipWhiteSpace r)" "tl (SkipWhiteSpace r)"] ne by simp
  qed
  then have "SkipWhiteSpace (r @ s) = c # t @ s" unfolding SkipWhiteSpace_def by (metis append_Cons dropWhile_append1)
  then show ?thesis using c(2) assms(2) by (auto simp: Identify_def Let_def StringEqual_def)
qed

lemma parse_blank: "blank ws \<Longrightarrow> rest = [] \<or> take 1 rest = ''<'' \<Longrightarrow> ParseDeep opts (ws @ rest) kids err = ParseDeep opts rest kids err"
proof (cases "rest = []")
  case True
  then show "blank ws \<Longrightarrow> ?thesis" by (subst (1 2) ParseDeep.simps) (simp add: Identify_def)
next
  case False
  then show "blank ws \<Longrightarrow> rest = [] \<or> take 1 rest = ''<'' \<Longrightarrow> ?thesis" by (subst (1 2) ParseDeep.simps) (simp add: identify_skips)
qed

lemma parse_leaf: "Identify p = (Some k, p1) \<Longrightarrow> p \<noteq> [] \<Longrightarrow> k \<noteq> KElement \<Longrightarrow> leaf_ParseDeep opts k p1 err = (Some (node, rest), err) \<Longrightarrow>
    ParseDeep opts p kids err = ParseDeep opts rest (kids @ [node]) err"
  by (subst ParseDeep.simps) simp

text \<open>A tag: what follows the opening angle bracket, up to the attributes.\<close>

lemma name_start: "name_ok n \<Longrightarrow> \<exists>c t. n = c # t \<and> name_char True c"
  by (auto simp: name_ok_def ParseName_def split: list.splits if_splits)

lemma tag_start:
  assumes "name_ok n" and "blank ws"
  shows "take 1 (ws @ n @ s) \<notin> {[], ''?'', ''!''}" "take 1 (SkipWhiteSpace (ws @ n @ s)) \<noteq> ''/''" "SkipWhiteSpace (ws @ n @ s) = n @ s"
    "take 1 (ws @ CHR ''/'' # s) \<notin> {[], ''?'', ''!''}"
proof -
  obtain c t where n: "n = c # t" "name_char True c" using name_start [OF assms(1)] by blast
  have c: "\<not> IsWhiteSpace c" "c \<noteq> CHR ''/''" "c \<noteq> CHR ''?''" "c \<noteq> CHR ''!''"
    using n(2) name_no_space [OF n(2)] by fastforce+
  then show "SkipWhiteSpace (ws @ n @ s) = n @ s" "take 1 (SkipWhiteSpace (ws @ n @ s)) \<noteq> ''/''" using assms(2) n(1) by simp_all
  have w: "IsWhiteSpace d \<Longrightarrow> d \<noteq> CHR ''?'' \<and> d \<noteq> CHR ''!''" for d by (auto simp: IsWhiteSpace_def is_space_def)
  have first: "take 1 (ws @ d # u) \<notin> {[], ''?'', ''!''}" if "d \<noteq> CHR ''?''" "d \<noteq> CHR ''!''" for d u
    using assms(2) that w by (cases ws) simp_all
  show "take 1 (ws @ n @ s) \<notin> {[], ''?'', ''!''}" using first [OF c(3,4), of "t @ s"] n(1) by simp
  show "take 1 (ws @ CHR ''/'' # s) \<notin> {[], ''?'', ''!''}" by (rule first) simp_all
qed

lemma attributes_no_name: "attributes_text opts as a \<Longrightarrow> blank ws \<Longrightarrow> \<not> name_char False d \<Longrightarrow> a @ ws @ d # s = c # t \<Longrightarrow> \<not> name_char False c"
proof (induction rule: attributes_text.induct)
  case no_attribute
  then show ?case using blank_no_name [of ws "d # s" c t] by auto
next
  case (attribute as a' ws0 ws1 ws2 n q r v)
  then obtain e w where "ws0 = e # w" "IsWhiteSpace e" by (cases ws0) auto
  then show ?case using attribute.prems name_no_space by auto
qed

lemma closing_tag:
  assumes "name_ok n" and "blank ws" and "blank ws1"
  shows "ParseDeep opts (''<'' @ ws @ ''/'' @ n @ ws1 @ ''>'' @ rest) kids err = Some (Some rest, name_pair n, kids, err)"
proof -
  have i: "Identify (''<'' @ ws @ ''/'' @ n @ ws1 @ ''>'' @ rest) = (Some KElement, ws @ ''/'' @ n @ ws1 @ ''>'' @ rest)"
    using identify_text(5) [of "[]" "ws @ ''/'' @ n @ ws1 @ ''>'' @ rest"] tag_start(4) [OF assms(1,2)] by simp
  have "\<not> name_char False c" if "ws1 @ ''>'' @ rest = c # t" for c t using blank_no_name [OF assms(3) that] by auto
  then have n: "ParseName (n @ ws1 @ ''>'' @ rest) = Some (n, ws1 @ ''>'' @ rest)" by (rule name_read [OF assms(1)])
  note a = attributes_end(1) [OF assms(3), of opts rest "[]" CLOSING err]
  show ?thesis using i assms(2) n a by (subst ParseDeep.simps) simp
qed

lemma open_tag:
  assumes "name_ok n" and "attributes_text opts as a" and "blank ws" and "blank ws1"
  obtains xs where "list_all2 attribute_pair xs as" "\<And>w rest kids err. blank w \<Longrightarrow>
     ParseDeep opts (w @ ''<'' @ ws @ n @ a @ ws1 @ ''/>'' @ rest) kids err = ParseDeep opts rest (kids @ [XMLElement (name_pair n) xs []]) err"
    "\<And>w rest kids err p inner. blank w \<Longrightarrow> rest \<noteq> [] \<Longrightarrow> ParseDeep opts rest [] err = Some (Some p, name_pair n, inner, err) \<Longrightarrow>
       ParseDeep opts (w @ ''<'' @ ws @ n @ a @ ws1 @ ''>'' @ rest) kids err = ParseDeep opts p (kids @ [XMLElement (name_pair n) xs inner]) err"
proof -
  obtain xs where xs: "list_all2 attribute_pair xs as" "\<And>t ct err. ParseAttributes opts (a @ t) [] ct err = ParseAttributes opts t xs ct err"
    using attributes_read [OF assms(2)] by force
  have i: "Identify (w @ ''<'' @ ws @ n @ u) = (Some KElement, ws @ n @ u)" if "blank w" for w u
    using identify_text(5) [OF that] tag_start(1) [OF assms(1,3)] by blast
  have n: "ParseName (n @ a @ ws1 @ d # u) = Some (n, a @ ws1 @ d # u)" if "\<not> name_char False d" for d u
    using name_read [OF assms(1), of "a @ ws1 @ d # u"] attributes_no_name [OF assms(2,4) that] by blast
  note at = attributes_end [OF assms(4)]
  have ne: "name_pair n \<noteq> empty_pair" "\<not> StrPair_Empty (name_pair n)" "StrPair_Empty empty_pair" "sp_str (name_pair n) = n" "Same n n"
    using name_nonempty [OF assms(1)] by (simp_all add: Set_pair_def empty_pair_def StrPair_Empty_def StringEqual_def)
  show ?thesis
  proof
    fix w rest :: string and kids err
    assume w: "blank w"
    show "ParseDeep opts (w @ ''<'' @ ws @ n @ a @ ws1 @ ''/>'' @ rest) kids err = ParseDeep opts rest (kids @ [XMLElement (name_pair n) xs []]) err"
      using i [OF w, of "a @ ws1 @ ''/>'' @ rest"] tag_start(2,3) [OF assms(1,3), of "a @ ws1 @ ''/>'' @ rest"] n [of "CHR ''/''" "CHR ''>'' # rest"]
        xs(2) [of "ws1 @ ''/>'' @ rest" OPEN err] at(2) [of opts rest xs OPEN err] ne
      by (subst ParseDeep.simps) simp
    fix p inner
    assume "rest \<noteq> []" "ParseDeep opts rest [] err = Some (Some p, name_pair n, inner, err)"
    then show "ParseDeep opts (w @ ''<'' @ ws @ n @ a @ ws1 @ ''>'' @ rest) kids err = ParseDeep opts p (kids @ [XMLElement (name_pair n) xs inner]) err"
      using i [OF w, of "a @ ws1 @ ''>'' @ rest"] tag_start(2,3) [OF assms(1,3), of "a @ ws1 @ ''>'' @ rest"] n [of "CHR ''>''" rest]
        xs(2) [of "ws1 @ ''>'' @ rest" OPEN err] at(1) [of opts rest xs OPEN err] ne
      by (subst ParseDeep.simps) simp
  qed (rule xs(1))
qed

definition continues :: "xml list \<Rightarrow> string \<Rightarrow> bool" where
  "continues ns rest \<longleftrightarrow> rest = [] \<and> (ns = [] \<or> \<not> is_plain (last ns)) \<or> take 1 rest = ''<'' \<and> 2 \<le> length rest"

lemma markup_shape: "markup opts n m \<Longrightarrow> take 1 m = ''<'' \<and> 2 \<le> length m \<and> \<not> is_plain n"
  by (cases rule: markup.cases) (auto dest: name_nonempty simp: Suc_le_eq)

lemma layout_nonempty:
  assumes "layout opts ns s" and "take 1 s = ''<''"
  shows "ns \<noteq> [] \<and> 2 \<le> length s"
  using assms
proof cases
  case (l_markup w n m ks t)
  then show ?thesis using markup_shape [of opts n m] by auto
next
  case (l_text r v ks t)
  then show ?thesis using assms(2) by (cases r) (auto split: if_splits)
next
  case l_end
  then show ?thesis using assms(2) by (cases s) auto
qed

lemma layout_empty: "layout opts ns [] \<Longrightarrow> ns = []"
  by (cases rule: layout.cases) (auto dest: markup_shape)

lemma leaf_text_read:
  "section_ok ''-->'' r \<Longrightarrow> leaf_ParseDeep opts KComment (r @ ''-->'' @ rest) err = (Some (XMLComment (Set_pair r False True False), rest), err)"
  "section_ok ''?>'' r \<Longrightarrow> leaf_ParseDeep opts KDeclaration (r @ ''?>'' @ rest) err = (Some (XMLDeclaration (Set_pair r False True False), rest), err)"
  "section_ok '']]>'' r \<Longrightarrow> leaf_ParseDeep opts KCData (r @ '']]>'' @ rest) err = (Some (XMLText (Set_pair r False True False) True, rest), err)"
  "section_ok ''>'' r \<Longrightarrow> leaf_ParseDeep opts KUnknown (r @ ''>'' @ rest) err = (Some (XMLUnknown (Set_pair r False True False), rest), err)"
  "CHR ''<'' \<notin> set r \<Longrightarrow> rest \<noteq> [] \<Longrightarrow> leaf_ParseDeep opts KText (r @ CHR ''<'' # rest) err
     = (Some (XMLText (Set_pair r (xs_processEntities opts) True (xs_collapse opts)) False, CHR ''<'' # rest), err)"
  by (simp_all only: leaf_ParseDeep_def XMLComment_ParseDeep_def XMLDeclaration_ParseDeep_def XMLText_ParseDeep_def XMLUnknown_ParseDeep_def
      section_read section_char node_kind.case option.case prod.case if_True if_False not_False_eq_True)

lemma parse_leaf_markup:
  assumes "\<And>ws s. blank ws \<Longrightarrow> pre s \<Longrightarrow> Identify (ws @ d @ s) = (Some k, s)" and "\<And>rest err. leaf_ParseDeep opts k (r @ e @ rest) err = (Some (node, rest), err)"
    and "\<And>rest. pre (r @ e @ rest)" and "d \<noteq> []" and "k \<noteq> KElement" and "blank ws"
  shows "ParseDeep opts (ws @ (d @ r @ e) @ rest) kids err = ParseDeep opts rest (kids @ [node]) err"
  using parse_leaf [OF assms(1) [OF assms(6,3)] _ assms(5,2), of rest kids err] assms(4) by simp

lemma unknown_start:
  assumes "take 2 r \<noteq> ''--''" and "take 7 r \<noteq> ''[CDATA[''"
  shows "take 2 (r @ ''>'' @ s) \<noteq> ''--'' \<and> take 7 (r @ ''>'' @ s) \<noteq> ''[CDATA[''"
proof -
  have p: "take (length w) (r @ CHR ''>'' # s) = w \<Longrightarrow> CHR ''>'' \<notin> set w \<Longrightarrow> take (length w) r = w" for w
  proof (cases "length w \<le> length r")
    case False
    assume w: "take (length w) (r @ CHR ''>'' # s) = w" "CHR ''>'' \<notin> set w"
    then have "CHR ''>'' \<in> set (take (length w) (r @ CHR ''>'' # s))" using False by (cases "length w - length r") auto
    then have "CHR ''>'' \<in> set w" unfolding w(1) .
    then show ?thesis using w(2) by blast
  qed simp
  from p [of "''--''"] p [of "''[CDATA[''"] assms show ?thesis by (fastforce simp: numeral_eq_Suc)
qed

text \<open>What the parser does with a node and with a list of nodes.\<close>

definition node_parses :: "xml_settings \<Rightarrow> xml \<Rightarrow> string \<Rightarrow> bool" where
  "node_parses opts n m \<longleftrightarrow> (\<exists>node. represents node n \<and>
     (\<forall>ws rest kids err. blank ws \<longrightarrow> ParseDeep opts (ws @ m @ rest) kids err = ParseDeep opts rest (kids @ [node]) err))"

definition list_parses :: "xml_settings \<Rightarrow> xml list \<Rightarrow> string \<Rightarrow> bool" where
  "list_parses opts ns s \<longleftrightarrow> (\<exists>nodes. list_all2 represents nodes ns \<and>
     (\<forall>rest kids err. continues ns rest \<longrightarrow> ParseDeep opts (s @ rest) kids err = ParseDeep opts rest (kids @ nodes) err))"

lemma leaf_parses:
  assumes "\<And>ws s. blank ws \<Longrightarrow> pre s \<Longrightarrow> Identify (ws @ d @ s) = (Some k, s)" and "\<And>rest err. leaf_ParseDeep opts k (r @ e @ rest) err = (Some (node, rest), err)"
    and "\<And>rest. pre (r @ e @ rest)" and "d \<noteq> []" and "k \<noteq> KElement" and "represents node n"
  shows "node_parses opts n (d @ r @ e)"
  using parse_leaf_markup [where pre = pre, OF assms(1-5)] assms(6) unfolding node_parses_def by blast

lemma empty_element_parses:
  assumes "name_ok n" and "attributes_text opts as a" and "blank ws" and "blank ws1"
  shows "node_parses opts (Elem n as []) (''<'' @ ws @ n @ a @ ws1 @ ''/>'')"
proof -
  obtain xs where xs: "list_all2 attribute_pair xs as" "\<And>w rest kids err. blank w \<Longrightarrow>
      ParseDeep opts (w @ ''<'' @ ws @ n @ a @ ws1 @ ''/>'' @ rest) kids err = ParseDeep opts rest (kids @ [XMLElement (name_pair n) xs []]) err"
    using open_tag [OF assms, of thesis] by blast
  show ?thesis unfolding node_parses_def
  proof (intro exI conjI allI impI)
    show "represents (XMLElement (name_pair n) xs []) (Elem n as [])" using xs(1) by simp
    show "ParseDeep opts (w @ (''<'' @ ws @ n @ a @ ws1 @ ''/>'') @ rest) kids err = ParseDeep opts rest (kids @ [XMLElement (name_pair n) xs []]) err"
      if "blank w" for w rest kids err using xs(2) [OF that, of rest kids err] by simp
  qed
qed

lemma element_parses:
  assumes "name_ok n" and "attributes_text opts as a" and "blank ws" and "blank ws1" and "blank ws2" and "blank ws3" and "list_parses opts ns s"
  shows "node_parses opts (Elem n as ns) (''<'' @ ws @ n @ a @ ws1 @ ''>'' @ s @ ''<'' @ ws2 @ ''/'' @ n @ ws3 @ ''>'')"
proof -
  obtain nodes where nodes: "list_all2 represents nodes ns"
    "\<And>rest kids err. continues ns rest \<Longrightarrow> ParseDeep opts (s @ rest) kids err = ParseDeep opts rest (kids @ nodes) err"
    using assms(7) unfolding list_parses_def by blast
  obtain xs where xs: "list_all2 attribute_pair xs as"
    "\<And>w rest kids err p inner. blank w \<Longrightarrow> rest \<noteq> [] \<Longrightarrow> ParseDeep opts rest [] err = Some (Some p, name_pair n, inner, err) \<Longrightarrow>
       ParseDeep opts (w @ ''<'' @ ws @ n @ a @ ws1 @ ''>'' @ rest) kids err = ParseDeep opts p (kids @ [XMLElement (name_pair n) xs inner]) err"
    using open_tag [OF assms(1-4), of thesis] by blast
  show ?thesis unfolding node_parses_def
  proof (intro exI conjI allI impI)
    show "represents (XMLElement (name_pair n) xs nodes) (Elem n as ns)" using xs(1) nodes(1) by simp
    fix w rest kids err
    assume w: "blank w"
    let ?close = "''<'' @ ws2 @ ''/'' @ n @ ws3 @ ''>'' @ rest"
    have "ParseDeep opts (s @ ?close) [] err = ParseDeep opts ?close ([] @ nodes) err" by (rule nodes(2)) (simp add: continues_def)
    then have "ParseDeep opts (s @ ?close) [] err = Some (Some rest, name_pair n, nodes, err)"
      using closing_tag [OF assms(1,5,6), of opts rest nodes err] by simp
    from xs(2) [OF w _ this, of kids] show "ParseDeep opts (w @ (''<'' @ ws @ n @ a @ ws1 @ ''>'' @ s @ ''<'' @ ws2 @ ''/'' @ n @ ws3 @ ''>'') @ rest) kids err
        = ParseDeep opts rest (kids @ [XMLElement (name_pair n) xs nodes]) err" by simp
  qed
qed

lemma blank_parses: "blank ws \<Longrightarrow> list_parses opts [] ws"
proof -
  assume "blank ws"
  then have "ParseDeep opts (ws @ rest) kids err = ParseDeep opts rest kids err" if "continues [] rest" for rest kids err
    using parse_blank [of ws rest opts kids err] that by (auto simp: continues_def)
  then show ?thesis unfolding list_parses_def by (intro exI [of _ "[]"]) simp
qed

lemma markup_then_list:
  assumes "blank ws" and "node_parses opts n m" and "list_parses opts ns s"
  shows "list_parses opts (n # ns) (ws @ m @ s)"
proof -
  obtain node nodes where n: "represents node n" "list_all2 represents nodes ns"
    "\<And>ws rest kids err. blank ws \<Longrightarrow> ParseDeep opts (ws @ m @ rest) kids err = ParseDeep opts rest (kids @ [node]) err"
    "\<And>rest kids err. continues ns rest \<Longrightarrow> ParseDeep opts (s @ rest) kids err = ParseDeep opts rest (kids @ nodes) err"
    using assms(2,3) unfolding node_parses_def list_parses_def by blast
  have "continues ns rest" if "continues (n # ns) rest" for rest using that by (auto simp: continues_def split: if_splits)
  then have "ParseDeep opts ((ws @ m @ s) @ rest) kids err = ParseDeep opts rest (kids @ node # nodes) err" if "continues (n # ns) rest" for rest kids err
    using n(3) [OF assms(1), of "s @ rest" kids err] n(4) [of rest "kids @ [node]" err] that by simp
  then show ?thesis using n(1,2) unfolding list_parses_def by (intro exI [of _ "node # nodes"]) simp
qed

lemma text_then_list:
  assumes "CHR ''<'' \<notin> set r" and "\<not> blank r" and "GetStr (Set_pair r (xs_processEntities opts) True (xs_collapse opts)) = Some v"
    and "layout opts ns s" and "take 1 s \<in> {[], ''<''}" and "list_parses opts ns s"
  shows "list_parses opts (Plain v # ns) (r @ s)"
proof -
  obtain nodes where n: "list_all2 represents nodes ns"
    "\<And>rest kids err. continues ns rest \<Longrightarrow> ParseDeep opts (s @ rest) kids err = ParseDeep opts rest (kids @ nodes) err"
    using assms(6) unfolding list_parses_def by blast
  let ?x = "XMLText (Set_pair r (xs_processEntities opts) True (xs_collapse opts)) False"
  have step: "ParseDeep opts ((r @ s) @ rest) kids err = ParseDeep opts rest (kids @ ?x # nodes) err" if c: "continues (Plain v # ns) rest" for rest kids err
  proof -
    have "take 1 (s @ rest) = ''<'' \<and> 2 \<le> length (s @ rest) \<and> continues ns rest"
    proof (cases "s = []")
      case True
      then have "ns = []" using assms(4) layout_empty by blast
      then show ?thesis using c True by (auto simp: continues_def split: if_splits)
    next
      case False
      then have "take 1 s = ''<''" using assms(5) by (cases s) auto
      then show ?thesis using layout_nonempty [OF assms(4)] c by (cases s) (auto simp: continues_def split: if_splits)
    qed
    then obtain u where u: "s @ rest = CHR ''<'' # u" "u \<noteq> []" "continues ns rest" by (cases "s @ rest") (auto simp: Suc_le_eq)
    have "ParseDeep opts (r @ CHR ''<'' # u) kids err = ParseDeep opts (CHR ''<'' # u) (kids @ [?x]) err"
      using parse_leaf [OF identify_plain [OF assms(2,1)] _ _ leaf_text_read(5) [OF assms(1) u(2)]] by simp
    also have "\<dots> = ParseDeep opts rest ((kids @ [?x]) @ nodes) err" using n(2) [OF u(3)] u(1) by metis
    finally show ?thesis using u(1) by simp
  qed
  show ?thesis unfolding list_parses_def using n(1) assms(3) step by (intro exI [of _ "?x # nodes"]) simp
qed

lemma layouts_parse: "markup opts n m \<Longrightarrow> node_parses opts n m" "layout opts ns s \<Longrightarrow> list_parses opts ns s"
proof (induction rule: markup_layout.inducts)
  case (m_comment r v)
  show ?case by (rule leaf_parses [where pre = "\<lambda>s. True", OF identify_text(1) leaf_text_read(1) [OF m_comment(1)]]) (simp_all add: m_comment(2))
next
  case (m_declaration r v)
  show ?case by (rule leaf_parses [where pre = "\<lambda>s. True", OF identify_text(2) leaf_text_read(2) [OF m_declaration(1)]]) (simp_all add: m_declaration(2))
next
  case (m_cdata r v)
  show ?case by (rule leaf_parses [where pre = "\<lambda>s. True", OF identify_text(3) leaf_text_read(3) [OF m_cdata(1)]]) (simp_all add: m_cdata(2))
next
  case (m_unknown r v)
  have "Identify (ws @ ''<!'' @ s) = (Some KUnknown, s)" if "blank ws" "take 2 s \<noteq> ''--'' \<and> take 7 s \<noteq> ''[CDATA[''" for ws s
    using identify_text(4) that by blast
  from leaf_parses [where pre = "\<lambda>s. take 2 s \<noteq> ''--'' \<and> take 7 s \<noteq> ''[CDATA[''", OF this leaf_text_read(4) [OF m_unknown(1)] unknown_start [OF m_unknown(3,4)]]
  show ?case using m_unknown(2) by simp
next
  case (m_empty n as a ws ws1)
  then show ?case by (intro empty_element_parses) blast+
next
  case (m_element n as a ws ws1 ws2 ws3 ns s)
  then show ?case by (intro element_parses) blast+
next
  case (l_end ws)
  then show ?case by (rule blank_parses)
next
  case (l_markup ws n m ns s)
  then show ?case by (intro markup_then_list) blast+
next
  case (l_text r v ns s)
  then show ?case by (intro text_then_list) blast+
qed

lemma load_parsed:
  assumes "NUL \<notin> set bytes" and "bytes \<noteq> []" and "ReadBOM (SkipWhiteSpace bytes) = (bom, p)" and "p \<noteq> []"
    and "ParseDeep opts p [] XML_NO_ERROR = Some (r, e, kids, err)"
  shows "LoadFile opts (Some (bytes, True)) = Some (err, bom, kids)"
proof -
  have t: "takeWhile (\<lambda>c. c \<noteq> NUL) bytes = bytes" using assms(1) by (auto simp: takeWhile_eq_all_conv)
  show ?thesis using assms(2-5) by (simp add: LoadFile_def t)
qed

lemma layout_parsed:
  assumes "file_layout opts ns bytes"
  shows "\<exists>bom nodes. LoadFile opts (Some (bytes, True)) = Some (XML_NO_ERROR, bom, nodes) \<and> list_all2 represents nodes ns"
proof -
  obtain s where s: "layout opts ns s" "bytes = s \<or> bytes = BOM @ s" "ns \<noteq> []" "\<forall>n \<in> set ns. \<not> is_plain n" "NUL \<notin> set bytes"
    using assms by (auto simp: file_layout_def)
  obtain w m where m: "s = w @ CHR ''<'' # m" "blank w"
    using s(1)
  proof cases
    case (l_markup w n t ks u)
    moreover obtain t' where "t = CHR ''<'' # t'" using markup_shape [OF l_markup(4)] by (cases t) auto
    ultimately show ?thesis using that [of w "t' @ u"] by simp
  qed (use s(3,4) in auto)
  obtain nodes where nodes: "list_all2 represents nodes ns" "\<And>rest kids err. continues ns rest \<Longrightarrow> ParseDeep opts (s @ rest) kids err = ParseDeep opts rest (kids @ nodes) err"
    using layouts_parse(2) [OF s(1)] unfolding list_parses_def by blast
  have "continues ns []" using s(3,4) by (simp add: continues_def)
  from nodes(2) [OF this, of "[]" XML_NO_ERROR]
  have parse: "ParseDeep opts s [] XML_NO_ERROR = Some (None, empty_pair, nodes, XML_NO_ERROR)" by (simp add: ParseDeep.simps [of opts "[]"])
  have skip: "SkipWhiteSpace s = CHR ''<'' # m" "\<not> IsWhiteSpace (CHR 0xEF)" using m by (simp, simp add: IsWhiteSpace_def IsUTF8Continuation_def)
  show ?thesis
  proof (cases "bytes = s")
    case True
    have "ParseDeep opts (CHR ''<'' # m) [] XML_NO_ERROR = Some (None, empty_pair, nodes, XML_NO_ERROR)"
      using parse parse_blank [OF m(2), of "CHR ''<'' # m"] m(1) by simp
    moreover have "ReadBOM (SkipWhiteSpace bytes) = (False, CHR ''<'' # m)" unfolding True skip(1) by (simp add: ReadBOM_def)
    ultimately have "LoadFile opts (Some (bytes, True)) = Some (XML_NO_ERROR, False, nodes)" using load_parsed [OF s(5), of False "CHR ''<'' # m"] True m(1) by simp
    then show ?thesis using nodes(1) by blast
  next
    case False
    then have "bytes = BOM @ s" using s(2) by blast
    moreover from this have "ReadBOM (SkipWhiteSpace bytes) = (True, s)" using skip(2) by (simp add: ReadBOM_def BOM_def)
    ultimately have "LoadFile opts (Some (bytes, True)) = Some (XML_NO_ERROR, True, nodes)" using load_parsed [OF s(5), of True s] parse m(1) by (simp add: BOM_def)
    then show ?thesis using nodes(1) by blast
  qed
qed

text \<open> C26 (equivalence). The parser agrees with the grammar: every file that lays out a document, with any blanks in and between the tags,
  comments, declarations, CDATA sections, attributes in either quotes and a byte order mark or none, is loaded without an error, and the
  nodes are those of the document, with their names, attribute values and texts decoded. \<close>

theorem layout_parses:
  assumes "file_layout opts ns bytes"
  shows "\<exists>bom nodes. LoadFile opts (Some (bytes, True)) = Some (XML_NO_ERROR, bom, nodes) \<and> list_all2 represents nodes ns"
  using assms by (rule layout_parsed)

definition short_file :: string where
  "short_file = ''<a k = '' @ CHR 0x27 # ''&lt;'' @ CHR 0x27 # ''/>''"

theorem layout_parses_witness:
  "\<exists>bom nodes. LoadFile default_settings (Some (short_file, True)) = Some (XML_NO_ERROR, bom, nodes) \<and> list_all2 represents nodes [Elem ''a'' [(''k'', ''<'')] []]"
proof (rule layout_parses)
  have n: "name_ok ''a''" "name_ok ''k''"
    by (simp_all add: name_ok_def ParseName_def name_char_def IsAlphaNum_def IsAlpha_def INT_MAX_def)
  have f: "special_flag (\<lambda>c. c = CHR ''&'' \<or> c = CHR ''<'')" by (auto simp: special_flag_def entities_def)
  have g: "GetStr (Set_pair ''&lt;'' True True False) = Some ''<''"
    using GetStr_escaped [OF f, of "''<''" True] by (simp add: entities_def)
  have b: "blank '' ''" by (simp add: IsWhiteSpace_def IsUTF8Continuation_def is_space_def)
  have a: "attributes_text default_settings [(''k'', ''<'')] ('' '' @ ''k'' @ '' '' @ ''='' @ '' '' @ CHR 0x27 # ''&lt;'' @ CHR 0x27 # [])"
    using g b n(2) by (intro attribute no_attribute) (simp_all add: IsAlpha_def default_settings_def)
  have m: "markup default_settings (Elem ''a'' [(''k'', ''<'')] []) (''<'' @ [] @ ''a'' @ ('' '' @ ''k'' @ '' '' @ ''='' @ '' '' @ CHR 0x27 # ''&lt;'' @ CHR 0x27 # []) @ [] @ ''/>'')"
    by (rule m_empty [OF n(1) a]) simp_all
  have "layout default_settings [Elem ''a'' [(''k'', ''<'')] []] short_file"
    using l_markup [OF blank_simps(1) m l_end [OF blank_simps(1)]] by (simp add: short_file_def)
  then show "file_layout default_settings [Elem ''a'' [(''k'', ''<'')] []] short_file" by (auto simp: file_layout_def short_file_def)
qed

end
