(* ===== verification/Config.thy ===== *)
theory Config
  imports Server AsyncCommand XmlLayout
begin

text \<open>
  The configuration, \<open>src/yymm_svr/cfg.cpp\<close>, and the entry of the program, \<open>src/yymm_svr/main.cpp\<close>, in their Windows
  variants, over the model of the bundled \<open>src/tinyxml2\<close>. A file is \<^const>\<open>None\<close> when it cannot be opened, otherwise
  its bytes and whether all of them could be read.
\<close>

section \<open>The configuration\<close>

record CFG =
  cf_server_name :: string
  cf_port :: nat
  cf_mangport :: nat
  cf_workthreads :: int
  cf_redis_IP :: string
  cf_redis_Port :: nat
  cf_mysql_IP :: string
  cf_mysql_Port :: nat
  cf_mysql_user :: string
  cf_mysql_pwd :: string
  cf_mysql_DB :: string

text \<open>The object \<open>g_CFG\<close> has static storage.\<close>

definition zero_CFG :: CFG where
  "zero_CFG = \<lparr>cf_server_name = [], cf_port = 0, cf_mangport = 0, cf_workthreads = 0, cf_redis_IP = [], cf_redis_Port = 0, cf_mysql_IP = [],
     cf_mysql_Port = 0, cf_mysql_user = [], cf_mysql_pwd = [], cf_mysql_DB = []\<rparr>"

definition GetCfg :: "string \<Rightarrow> string" where
  "GetCfg module = strip_name module (length module) @ ''/config/cfg.xml''"

text \<open>\<open>e->FirstChildElement(name)->GetText()\<close> assigned to a string: a missing element or text is NULL, a fault. What the
  queries return is not looked at: without a number the member keeps its value.\<close>

definition child_text :: "string \<Rightarrow> XMLNode list \<Rightarrow> string option" where
  "child_text name e = do { (as, k) \<leftarrow> FirstChildElement name e; t \<leftarrow> GetText k; t }"

definition child_unsigned :: "string \<Rightarrow> XMLNode list \<Rightarrow> nat \<Rightarrow> nat option" where
  "child_unsigned name e old = do {
     (as, k) \<leftarrow> FirstChildElement name e;
     (err, v) \<leftarrow> QueryUnsignedText k;
     Some (case v of None \<Rightarrow> old | Some n \<Rightarrow> n) }"

definition child_int :: "string \<Rightarrow> XMLNode list \<Rightarrow> int \<Rightarrow> int option" where
  "child_int name e old = do {
     (as, k) \<leftarrow> FirstChildElement name e;
     (err, v) \<leftarrow> QueryIntText k;
     Some (case v of None \<Rightarrow> old | Some n \<Rightarrow> n) }"

definition parse_mms :: "XMLNode list \<Rightarrow> CFG \<Rightarrow> CFG option" where
  "parse_mms e cfg = do {
     name \<leftarrow> child_text ''name'' e;
     port \<leftarrow> child_unsigned ''port'' e (cf_port cfg);
     mangport \<leftarrow> child_unsigned ''mangport'' e (cf_mangport cfg);
     workthreads \<leftarrow> child_int ''workthreads'' e (cf_workthreads cfg);
     Some (cfg\<lparr>cf_server_name := name, cf_port := port, cf_mangport := mangport, cf_workthreads := workthreads\<rparr>) }"

definition parse_redis :: "XMLNode list \<Rightarrow> CFG \<Rightarrow> CFG option" where
  "parse_redis e cfg = do {
     ip \<leftarrow> child_text ''redis_Ip'' e;
     port \<leftarrow> child_unsigned ''redis_Port'' e (cf_redis_Port cfg);
     Some (cfg\<lparr>cf_redis_IP := ip, cf_redis_Port := port\<rparr>) }"

definition parse_mysql :: "XMLNode list \<Rightarrow> CFG \<Rightarrow> CFG option" where
  "parse_mysql e cfg = do {
     ip \<leftarrow> child_text ''ip'' e;
     port \<leftarrow> child_unsigned ''port'' e (cf_mysql_Port cfg);
     user \<leftarrow> child_text ''user'' e;
     pwd \<leftarrow> child_text ''pwd'' e;
     db \<leftarrow> child_text ''db'' e;
     Some (cfg\<lparr>cf_mysql_IP := ip, cf_mysql_Port := port, cf_mysql_user := user, cf_mysql_pwd := pwd, cf_mysql_DB := db\<rparr>) }"

definition optional_part :: "string \<Rightarrow> (XMLNode list \<Rightarrow> CFG \<Rightarrow> CFG option) \<Rightarrow> XMLNode list \<Rightarrow> CFG \<Rightarrow> CFG option" where
  "optional_part name f e cfg = (case FirstChildElement name e of None \<Rightarrow> Some cfg | Some (as, k) \<Rightarrow> f k cfg)"

definition ParseCfg :: "(string \<times> bool) option \<Rightarrow> CFG \<Rightarrow> (bool \<times> CFG) option" where
  "ParseCfg file cfg = do {
     (err, bom, doc) \<leftarrow> LoadFile default_settings file;
     if err \<noteq> XML_NO_ERROR then Some (False, cfg)
     else
       (case FirstChildElement ''conf'' doc of
          None \<Rightarrow> Some (False, cfg)
        | Some (as, conf) \<Rightarrow>
            (case FirstChildElement ''servers'' conf of
               None \<Rightarrow> Some (False, cfg)
             | Some (as, servers) \<Rightarrow> do {
                 cfg \<leftarrow> optional_part ''mms_service'' parse_mms servers cfg;
                 cfg \<leftarrow> optional_part ''redis'' parse_redis servers cfg;
                 cfg \<leftarrow> optional_part ''mysql'' parse_mysql servers cfg;
                 Some (True, cfg) })) }"

section \<open>The program\<close>

definition configured :: "CFG \<Rightarrow> ('key, 'w) svr_env \<Rightarrow> ('key, 'w) svr_env" where
  "configured cfg env = env\<lparr>se_port := cf_port cfg, se_mangport := cf_mangport cfg, se_redis_IP := cf_redis_IP cfg, se_redis_Port := cf_redis_Port cfg\<rparr>"

text \<open>Up to the call of \<open>run\<close>, the event loop: whether it is reached, and the server.\<close>

definition main_start :: "(string \<Rightarrow> (string \<times> bool) option) \<Rightarrow> ('key, 'w) svr_env \<Rightarrow> ('key, 'w) server \<Rightarrow> (bool \<times> ('key, 'w) server) option" where
  "main_start load env e = do {
     (ok, cfg) \<leftarrow> ParseCfg (load (GetCfg (se_module env))) zero_CFG;
     if \<not> ok then Some (False, e)
     else Server_init (configured cfg env) (cf_workthreads cfg) e }"

section \<open>Reading a configuration\<close>

text \<open>What a document says, on the tree of values: the first element of each name on a path, and its text.\<close>

fun child_of :: "string \<Rightarrow> xml list \<Rightarrow> xml list option" where
  "child_of name [] = None"
| "child_of name (Elem n as ks # ns) = (if n = name then Some ks else child_of name ns)"
| "child_of name (x # ns) = child_of name ns"

fun tree_at :: "string list \<Rightarrow> xml list \<Rightarrow> xml list option" where
  "tree_at [] ns = Some ns"
| "tree_at (name # path) ns = do { ks \<leftarrow> child_of name ns; tree_at path ks }"

definition text_at :: "string list \<Rightarrow> xml list \<Rightarrow> string option" where
  "text_at path ns = (case tree_at path ns of Some (Plain t # ks) \<Rightarrow> Some t | Some (CData t # ks) \<Rightarrow> Some t | x \<Rightarrow> None)"

definition members :: "CFG \<Rightarrow> (string \<times> string \<times> string) set" where
  "members cfg =
     {(''mms_service'', ''name'', cf_server_name cfg), (''mms_service'', ''port'', show_nat (cf_port cfg)),
      (''mms_service'', ''mangport'', show_nat (cf_mangport cfg)), (''mms_service'', ''workthreads'', show_int (cf_workthreads cfg)),
      (''redis'', ''redis_Ip'', cf_redis_IP cfg), (''redis'', ''redis_Port'', show_nat (cf_redis_Port cfg)),
      (''mysql'', ''ip'', cf_mysql_IP cfg), (''mysql'', ''port'', show_nat (cf_mysql_Port cfg)), (''mysql'', ''user'', cf_mysql_user cfg),
      (''mysql'', ''pwd'', cf_mysql_pwd cfg), (''mysql'', ''db'', cf_mysql_DB cfg)}"

definition configures :: "xml list \<Rightarrow> CFG \<Rightarrow> bool" where
  "configures ns cfg \<longleftrightarrow> (\<forall>(part, name, t) \<in> members cfg. text_at [''conf'', ''servers'', part, name] ns = Some t)"

lemma scan_shown: "scan_number (show_nat n) = Some (int n)" "scan_number (show_int i) = Some i"
proof -
  have d: "scan_digits (show_nat n) = Some (int n)" for n
  proof -
    have t: "takeWhile is_digit (show_nat n) = show_nat n" by (auto simp: takeWhile_eq_all_conv show_nat_digits)
    show ?thesis unfolding scan_digits_def t by (simp add: show_nat_nonempty show_nat_value)
  qed
  show n: "scan_number (show_nat n) = Some (int n)" for n
  proof (cases "show_nat n")
    case (Cons c t)
    then have "is_digit c" using show_nat_digits [of c n] by simp
    then have "\<not> is_space c" "c \<noteq> CHR ''-''" "c \<noteq> CHR ''+''" by (auto simp: is_digit_def is_space_def)
    then show ?thesis using d [of n] Cons by (simp add: scan_number_def)
  qed (simp add: show_nat_nonempty)
  show "scan_number (show_int i) = Some i"
  proof (cases "i < 0")
    case True
    then have "scan_number (show_int i) = map_option uminus (scan_digits (show_nat (nat (- i))))" by (simp add: show_int_def scan_number_def is_space_def)
    then show ?thesis using True d by simp
  qed (simp add: show_int_def n)
qed

text \<open>The values in the range of their members.\<close>

definition cfg_ok :: "CFG \<Rightarrow> bool" where
  "cfg_ok cfg \<longleftrightarrow> cf_port cfg < 2 ^ 32 \<and> cf_mangport cfg < 2 ^ 32 \<and> cf_redis_Port cfg < 2 ^ 32 \<and> cf_mysql_Port cfg < 2 ^ 32 \<and>
     - 2147483648 \<le> cf_workthreads cfg \<and> cf_workthreads cfg \<le> 2147483647"

lemma child_represented:
  assumes "list_all2 represents tr ns" and "length name < nat INT_MAX" and "child_of name ns = Some ks"
  obtains as k where "FirstChildElement name tr = Some (as, k)" "list_all2 represents k ks"
proof -
  have "\<exists>as k. FirstChildElement name tr = Some (as, k) \<and> list_all2 represents k ks"
    using assms(1,3)
  proof (induction rule: list_all2_induct)
    case (Cons x xs y ys)
    then show ?case using Same_short [OF assms(2)] by (cases x; cases y) (auto simp: Set_pair_def split: if_splits)
  qed simp
  then show thesis using that by blast
qed

lemma text_represented: "list_all2 represents k ks \<Longrightarrow> text_at [] ks = Some t \<Longrightarrow> GetText k = Some (Some t)"
  by (cases ks; cases k; cases "hd ks"; cases "hd k") (auto simp: text_at_def split: if_splits)

lemma child_text_read:
  assumes "list_all2 represents tr ns" and "length name < nat INT_MAX" and "text_at [name] ns = Some t"
  shows "child_text name tr = Some t"
    "scan_number t = Some (int n) \<Longrightarrow> n < 2 ^ 32 \<Longrightarrow> child_unsigned name tr old = Some n"
    "scan_number t = Some i \<Longrightarrow> - 2147483648 \<le> i \<Longrightarrow> i \<le> 2147483647 \<Longrightarrow> child_int name tr oldi = Some i"
proof -
  obtain ks where ks: "child_of name ns = Some ks" "text_at [] ks = Some t" using assms(3) by (cases "child_of name ns") (auto simp: text_at_def)
  obtain as k where k: "FirstChildElement name tr = Some (as, k)" "GetText k = Some (Some t)"
    using child_represented [OF assms(1,2) ks(1)] text_represented ks(2) by metis
  then show "child_text name tr = Some t"
    "scan_number t = Some (int n) \<Longrightarrow> n < 2 ^ 32 \<Longrightarrow> child_unsigned name tr old = Some n"
    "scan_number t = Some i \<Longrightarrow> - 2147483648 \<le> i \<Longrightarrow> i \<le> 2147483647 \<Longrightarrow> child_int name tr oldi = Some i"
    by (simp_all add: child_text_def child_unsigned_def child_int_def QueryUnsignedText_def QueryIntText_def query_text_def ToUnsigned_def ToInt_def)
qed

lemma part_read:
  assumes "list_all2 represents tr ns" and "length part < nat INT_MAX" and "text_at [part, name] ns = Some t"
  obtains as k ks where "FirstChildElement part tr = Some (as, k)" "list_all2 represents k ks" "\<And>path. tree_at (part # path) ns = tree_at path ks"
proof -
  obtain ks where "child_of part ns = Some ks" using assms(3) by (cases "child_of part ns") (auto simp: text_at_def)
  then show thesis using child_represented [OF assms(1,2)] that by (metis bind.bind_lunit tree_at.simps(2))
qed

end
