(* ===== verification/ConfigProps.thy ===== *)
theory ConfigProps
  imports Config
begin

text \<open>
  Reading configuration files: every layout of a document that names the members gives their values, the file that is
  delivered with the program among them; members without a text are a fault.
\<close>

section \<open>Every layout is read\<close>

text \<open>The values in the range of their members.\<close>

definition cfg_ok :: "CFG \<Rightarrow> bool" where
  "cfg_ok cfg \<longleftrightarrow> cf_port cfg < 2 ^ 32 \<and> cf_mangport cfg < 2 ^ 32 \<and> cf_redis_Port cfg < 2 ^ 32 \<and> cf_mysql_Port cfg < 2 ^ 32 \<and>
     - 2147483648 \<le> cf_workthreads cfg \<and> cf_workthreads cfg \<le> 2147483647"

lemma text_at_part: "(\<And>path. tree_at (part # path) ns = tree_at path ks) \<Longrightarrow> text_at (part # path) ns = text_at path ks"
  by (simp add: text_at_def del: tree_at.simps)

lemma nested_part:
  assumes "list_all2 represents tr ns" and "length part < nat INT_MAX" and "text_at (part # name # path) ns = Some t"
  obtains as k ks where "FirstChildElement part tr = Some (as, k)" "list_all2 represents k ks" "\<And>path. text_at (part # path) ns = text_at path ks"
proof -
  obtain ks where ks: "child_of part ns = Some ks" using assms(3) by (cases "child_of part ns") (auto simp: text_at_def)
  obtain as k where "FirstChildElement part tr = Some (as, k)" "list_all2 represents k ks" using child_represented [OF assms(1,2) ks] by blast
  moreover have "text_at (part # path) ns = text_at path ks" for path using ks by (simp add: text_at_def)
  ultimately show thesis by (rule that)
qed

lemma short_names: "length name \<le> 20 \<Longrightarrow> length name < nat INT_MAX"
  by (simp add: INT_MAX_def)

lemma members_read:
  assumes "list_all2 represents tr ns" and "length name \<le> 20"
  shows "text_at [name] ns = Some t \<Longrightarrow> child_text name tr = Some t"
    "text_at [name] ns = Some (show_nat n) \<Longrightarrow> n < 2 ^ 32 \<Longrightarrow> child_unsigned name tr old = Some n"
    "text_at [name] ns = Some (show_int i) \<Longrightarrow> - 2147483648 \<le> i \<Longrightarrow> i \<le> 2147483647 \<Longrightarrow> child_int name tr oldi = Some i"
  using child_text_read [OF assms(1) short_names [OF assms(2)]] scan_shown by blast+

lemma parts_read:
  assumes "list_all2 represents tr ns" and "cfg_ok cfg"
  shows "\<lbrakk>text_at [''name''] ns = Some (cf_server_name cfg); text_at [''port''] ns = Some (show_nat (cf_port cfg));
      text_at [''mangport''] ns = Some (show_nat (cf_mangport cfg)); text_at [''workthreads''] ns = Some (show_int (cf_workthreads cfg))\<rbrakk> \<Longrightarrow>
    parse_mms tr old = Some (old\<lparr>cf_server_name := cf_server_name cfg, cf_port := cf_port cfg, cf_mangport := cf_mangport cfg, cf_workthreads := cf_workthreads cfg\<rparr>)"
   "\<lbrakk>text_at [''redis_Ip''] ns = Some (cf_redis_IP cfg); text_at [''redis_Port''] ns = Some (show_nat (cf_redis_Port cfg))\<rbrakk> \<Longrightarrow>
    parse_redis tr old = Some (old\<lparr>cf_redis_IP := cf_redis_IP cfg, cf_redis_Port := cf_redis_Port cfg\<rparr>)"
   "\<lbrakk>text_at [''ip''] ns = Some (cf_mysql_IP cfg); text_at [''port''] ns = Some (show_nat (cf_mysql_Port cfg)); text_at [''user''] ns = Some (cf_mysql_user cfg);
      text_at [''pwd''] ns = Some (cf_mysql_pwd cfg); text_at [''db''] ns = Some (cf_mysql_DB cfg)\<rbrakk> \<Longrightarrow>
    parse_mysql tr old = Some (old\<lparr>cf_mysql_IP := cf_mysql_IP cfg, cf_mysql_Port := cf_mysql_Port cfg, cf_mysql_user := cf_mysql_user cfg, cf_mysql_pwd := cf_mysql_pwd cfg, cf_mysql_DB := cf_mysql_DB cfg\<rparr>)"
proof -
  note r = members_read [OF assms(1)]
  have ok: "cf_port cfg < 2 ^ 32" "cf_mangport cfg < 2 ^ 32" "cf_redis_Port cfg < 2 ^ 32" "cf_mysql_Port cfg < 2 ^ 32"
    "- 2147483648 \<le> cf_workthreads cfg" "cf_workthreads cfg \<le> 2147483647" using assms(2) by (simp_all add: cfg_ok_def)
  show "parse_mms tr old = Some (old\<lparr>cf_server_name := cf_server_name cfg, cf_port := cf_port cfg, cf_mangport := cf_mangport cfg, cf_workthreads := cf_workthreads cfg\<rparr>)"
    if "text_at [''name''] ns = Some (cf_server_name cfg)" "text_at [''port''] ns = Some (show_nat (cf_port cfg))"
      "text_at [''mangport''] ns = Some (show_nat (cf_mangport cfg))" "text_at [''workthreads''] ns = Some (show_int (cf_workthreads cfg))"
    by (simp add: parse_mms_def r(1) [OF _ that(1)] r(2) [OF _ that(2) ok(1)] r(2) [OF _ that(3) ok(2)] r(3) [OF _ that(4) ok(5,6)])
  show "parse_redis tr old = Some (old\<lparr>cf_redis_IP := cf_redis_IP cfg, cf_redis_Port := cf_redis_Port cfg\<rparr>)"
    if "text_at [''redis_Ip''] ns = Some (cf_redis_IP cfg)" "text_at [''redis_Port''] ns = Some (show_nat (cf_redis_Port cfg))"
    by (simp add: parse_redis_def r(1) [OF _ that(1)] r(2) [OF _ that(2) ok(3)])
  show "parse_mysql tr old = Some (old\<lparr>cf_mysql_IP := cf_mysql_IP cfg, cf_mysql_Port := cf_mysql_Port cfg, cf_mysql_user := cf_mysql_user cfg, cf_mysql_pwd := cf_mysql_pwd cfg, cf_mysql_DB := cf_mysql_DB cfg\<rparr>)"
    if "text_at [''ip''] ns = Some (cf_mysql_IP cfg)" "text_at [''port''] ns = Some (show_nat (cf_mysql_Port cfg))" "text_at [''user''] ns = Some (cf_mysql_user cfg)"
      "text_at [''pwd''] ns = Some (cf_mysql_pwd cfg)" "text_at [''db''] ns = Some (cf_mysql_DB cfg)"
    by (simp add: parse_mysql_def r(1) [OF _ that(1)] r(2) [OF _ that(2) ok(4)] r(1) [OF _ that(3)] r(1) [OF _ that(4)] r(1) [OF _ that(5)])
qed

lemma configuration_read_any:
  assumes "file_layout default_settings ns bytes" and "configures ns cfg" and "cfg_ok cfg"
  shows "ParseCfg (Some (bytes, True)) old = Some (True, cfg)"
proof -
  obtain bom tr where tr: "LoadFile default_settings (Some (bytes, True)) = Some (XML_NO_ERROR, bom, tr)" "list_all2 represents tr ns"
    using layout_parsed [OF assms(1)] by blast
  have t: "text_at [''conf'', ''servers'', part, name] ns = Some t" if "(part, name, t) \<in> members cfg" for part name t
    using assms(2) that by (auto simp: configures_def)
  have db: "text_at [''conf'', ''servers'', ''mysql'', ''db''] ns = Some (cf_mysql_DB cfg)" using t by (simp add: members_def)
  obtain a1 conf cs where conf: "FirstChildElement ''conf'' tr = Some (a1, conf)" "list_all2 represents conf cs" "\<And>path. text_at (''conf'' # path) ns = text_at path cs"
    by (rule nested_part [OF tr(2) short_names db]) simp_all
  have db2: "text_at [''servers'', ''mysql'', ''db''] cs = Some (cf_mysql_DB cfg)" using db conf(3) by simp
  obtain a2 servers ss where servers: "FirstChildElement ''servers'' conf = Some (a2, servers)" "list_all2 represents servers ss" "\<And>path. text_at (''servers'' # path) cs = text_at path ss"
    by (rule nested_part [OF conf(2) short_names db2]) simp_all
  have u: "text_at [part, name] ss = Some t" if "(part, name, t) \<in> members cfg" for part name t
    using t [OF that] conf(3) servers(3) by simp
  have part: "\<exists>a k ks. FirstChildElement part servers = Some (a, k) \<and> list_all2 represents k ks \<and> (\<forall>name t. (part, name, t) \<in> members cfg \<longrightarrow> text_at [name] ks = Some t)"
    if "(part, name, t) \<in> members cfg" "length part \<le> 20" for part name t
    using nested_part [OF servers(2) short_names [OF that(2)], of name "[]" t] u by (metis that(1))
  have first: "(''mms_service'', ''name'', cf_server_name cfg) \<in> members cfg" "(''redis'', ''redis_Ip'', cf_redis_IP cfg) \<in> members cfg"
    "(''mysql'', ''ip'', cf_mysql_IP cfg) \<in> members cfg" by (simp_all add: members_def)
  obtain a3 mms ms where mms: "FirstChildElement ''mms_service'' servers = Some (a3, mms)" "list_all2 represents mms ms" "\<And>name t. (''mms_service'', name, t) \<in> members cfg \<Longrightarrow> text_at [name] ms = Some t"
    using part [OF first(1)] by auto
  obtain a4 redis rs where redis: "FirstChildElement ''redis'' servers = Some (a4, redis)" "list_all2 represents redis rs" "\<And>name t. (''redis'', name, t) \<in> members cfg \<Longrightarrow> text_at [name] rs = Some t"
    using part [OF first(2)] by auto
  obtain a5 mysql qs where mysql: "FirstChildElement ''mysql'' servers = Some (a5, mysql)" "list_all2 represents mysql qs" "\<And>name t. (''mysql'', name, t) \<in> members cfg \<Longrightarrow> text_at [name] qs = Some t"
    using part [OF first(3)] by auto
  have "parse_mms mms old = Some (old\<lparr>cf_server_name := cf_server_name cfg, cf_port := cf_port cfg, cf_mangport := cf_mangport cfg, cf_workthreads := cf_workthreads cfg\<rparr>)"
    by (rule parts_read(1) [OF mms(2) assms(3)]) (simp_all add: mms(3) members_def)
  moreover have "parse_redis redis c = Some (c\<lparr>cf_redis_IP := cf_redis_IP cfg, cf_redis_Port := cf_redis_Port cfg\<rparr>)" for c
    by (rule parts_read(2) [OF redis(2) assms(3)]) (simp_all add: redis(3) members_def)
  moreover have "parse_mysql mysql c = Some (c\<lparr>cf_mysql_IP := cf_mysql_IP cfg, cf_mysql_Port := cf_mysql_Port cfg, cf_mysql_user := cf_mysql_user cfg, cf_mysql_pwd := cf_mysql_pwd cfg, cf_mysql_DB := cf_mysql_DB cfg\<rparr>)" for c
    by (rule parts_read(3) [OF mysql(2) assms(3)]) (simp_all add: mysql(3) members_def)
  ultimately show ?thesis by (simp add: ParseCfg_def tr(1) conf(1) servers(1) mms(1) redis(1) mysql(1) optional_part_def)
qed

section \<open>The delivered file\<close>

text \<open>Documents of a simple form, with every element on lines of its own as in \<open>bin/config/cfg.xml\<close>.\<close>

definition newline :: string where
  "newline = [CR, LF]"

fun plain_value :: "xml \<Rightarrow> string" where
  "plain_value (Plain t) = t"
| "plain_value x = []"

fun lines_text :: "string \<Rightarrow> xml \<Rightarrow> string" where
  "lines_text ind (Elem n as ks) = ''<'' @ n @ ''>'' @
     (if ks = [] then [] else if is_plain (hd ks) then plain_value (hd ks)
      else concat (map (\<lambda>k. newline @ ind @ ''  '' @ lines_text (ind @ ''  '') k) ks) @ newline @ ind) @ ''</'' @ n @ ''>''"
| "lines_text ind (Decl v) = ''<?'' @ v @ ''?>''"
| "lines_text ind x = []"

definition clean_text :: "string \<Rightarrow> bool" where
  "clean_text t \<longleftrightarrow> \<not> blank t \<and> set t \<inter> {CR, NUL, CHR ''&'', CHR ''<''} = {}"

fun simple_doc :: "xml \<Rightarrow> bool" where
  "simple_doc (Elem n as ks) \<longleftrightarrow> name_ok n \<and> as = [] \<and>
     (if ks \<noteq> [] \<and> is_plain (hd ks) then tl ks = [] \<and> clean_text (plain_value (hd ks)) else list_all simple_doc ks)"
| "simple_doc (Decl v) \<longleftrightarrow> section_ok ''?>'' v \<and> CR \<notin> set v \<and> NUL \<notin> set v"
| "simple_doc x \<longleftrightarrow> False"

lemma clean_read: "clean_text t \<Longrightarrow> GetStr (Set_pair t True True False) = Some t"
proof -
  assume t: "clean_text t"
  then have "CHR ''&'' \<notin> set t" by (simp add: clean_text_def)
  then have "escape (\<lambda>c. c = CHR ''&'') t = t" by (induction t) auto
  moreover have "special_flag (\<lambda>c. c = CHR ''&'')" by (simp add: special_flag_def entities_def)
  ultimately show ?thesis using GetStr_escaped [of "\<lambda>c. c = CHR ''&''" t True] t by (simp add: clean_text_def)
qed

lemma blank_newline: "blank ind \<Longrightarrow> blank (newline @ ind @ ws) \<longleftrightarrow> blank ws"
  by (simp add: newline_def blank_def IsWhiteSpace_def IsUTF8Continuation_def is_space_def)

lemma simple_markup: "simple_doc n \<Longrightarrow> blank ind \<Longrightarrow> markup default_settings n (lines_text ind n)"
proof (induction ind n rule: lines_text.induct)
  case (1 ind n as ks)
  define body where "body = (if ks = [] then [] else if is_plain (hd ks) then plain_value (hd ks)
      else concat (map (\<lambda>k. newline @ ind @ ''  '' @ lines_text (ind @ ''  '') k) ks) @ newline @ ind)"
  have "layout default_settings ks body"
  proof (cases "ks \<noteq> [] \<and> is_plain (hd ks)")
    case True
    then obtain t where t: "ks = [Plain t]" "clean_text t" using "1.prems"(1) by (cases ks; cases "hd ks") auto
    have "layout default_settings [Plain t] (t @ [])"
      using t(2) clean_read [OF t(2)] by (intro l_text l_end) (auto simp: clean_text_def default_settings_def)
    then show ?thesis using t(1) by (simp add: body_def)
  next
    case False
    have all: "layout default_settings ls (concat (map (\<lambda>k. newline @ ind @ ''  '' @ lines_text (ind @ ''  '') k) ls) @ w)"
      if "set ls \<subseteq> set ks" "blank w" for ls w
      using that(1)
    proof (induction ls)
      case Nil
      then show ?case using that(2) by (simp add: l_end)
    next
      case (Cons k ls)
      have i: "blank (ind @ ''  '')" using "1.prems"(2) by (simp add: blank_def IsWhiteSpace_def IsUTF8Continuation_def is_space_def)
      have b: "blank (newline @ ind @ ''  '')" "blank (ind @ ''  '')" using blank_newline [OF i, of "[]"] i by simp_all
      have "markup default_settings k (lines_text (ind @ ''  '') k)"
        using False Cons.prems "1.prems"(1) b(2) by (intro "1.IH") (auto simp: list_all_iff)
      from l_markup [OF b(1) this Cons.IH] Cons.prems show ?case by simp
    qed
    have "blank (newline @ ind)" using blank_newline [OF "1.prems"(2), of "[]"] by simp
    from all [OF order.refl this] show ?thesis using False by (auto simp: body_def intro: l_end)
  qed
  from m_element [OF _ no_attribute _ _ _ _ this, of n "[]" "[]" "[]" "[]"] "1.prems"(1)
  show ?case by (simp add: body_def)
next
  case (2 ind v)
  then show ?case using m_declaration [of v v default_settings] GetStr_plain by simp
qed auto

text \<open>The file as it is delivered, and the values it stands for.\<close>

definition delivered_doc :: "xml list" where
  "delivered_doc =
     [Decl (''xml version='' @ [CHR 0x22] @ ''1.0'' @ [CHR 0x22]),
      Elem ''conf'' [] [Elem ''servers'' []
        [Elem ''mms_service'' []
          [Elem ''port'' [] [Plain ''10000''], Elem ''mangport'' [] [Plain ''10001''], Elem ''workthreads'' [] [Plain ''2''], Elem ''name'' [] [Plain ''mms_service'']],
         Elem ''redis'' []
          [Elem ''redis_Ip'' [] [Plain ''127.0.0.1''], Elem ''redis_Port'' [] [Plain ''6379''], Elem ''delayConnectTime'' [] []],
         Elem ''mysql'' []
          [Elem ''ip'' [] [Plain ''127.0.0.1''], Elem ''port'' [] [Plain ''0''], Elem ''user'' [] [Plain ''root''], Elem ''pwd'' [] [Plain ''seeyou''],
           Elem ''db'' [] [Plain ''mmsdb'']]]]]"

definition delivered_file :: string where
  "delivered_file = concat (map (\<lambda>l. l @ newline)
     [''<?xml version='' @ [CHR 0x22] @ ''1.0'' @ [CHR 0x22] @ ''?>'',
      ''<conf>'',
      ''  <servers>'',
      ''    <mms_service>'',
      ''      <port>10000</port>'',
      ''      <mangport>10001</mangport>'',
      ''      <workthreads>2</workthreads>'',
      ''      <name>mms_service</name>'',
      ''    </mms_service>'',
      ''    <redis>'',
      ''      <redis_Ip>127.0.0.1</redis_Ip>'',
      ''      <redis_Port>6379</redis_Port>'',
      ''      <delayConnectTime></delayConnectTime>'',
      ''    </redis>'',
      ''    <mysql>'',
      ''      <ip>127.0.0.1</ip>'',
      ''      <port>0</port>'',
      ''      <user>root</user>'',
      ''      <pwd>seeyou</pwd>'',
      ''      <db>mmsdb</db>'',
      ''    </mysql>'',
      ''  </servers>'']) @ ''</conf>''"

definition delivered_CFG :: CFG where
  "delivered_CFG = \<lparr>cf_server_name = ''mms_service'', cf_port = 10000, cf_mangport = 10001, cf_workthreads = 2, cf_redis_IP = ''127.0.0.1'',
     cf_redis_Port = 6379, cf_mysql_IP = ''127.0.0.1'', cf_mysql_Port = 0, cf_mysql_user = ''root'', cf_mysql_pwd = ''seeyou'', cf_mysql_DB = ''mmsdb''\<rparr>"

lemma name_ok_short: "length n \<le> 20 \<Longrightarrow> name_ok n \<longleftrightarrow> ParseName n = Some (n, [])"
  using short_names by (auto simp: name_ok_def)

lemma delivered_lines: "delivered_file = lines_text [] (delivered_doc ! 0) @ newline @ lines_text [] (delivered_doc ! 1)"
  by (simp add: delivered_file_def delivered_doc_def)

lemma delivered_layout: "file_layout default_settings delivered_doc delivered_file"
proof -
  have s: "list_all simple_doc delivered_doc"
    by (simp add: delivered_doc_def name_ok_short clean_text_def blank_def section_ok_def IsWhiteSpace_def IsUTF8Continuation_def is_space_def
        ParseName_def name_char_def IsAlphaNum_def IsAlpha_def is_digit_def)
  obtain d c where d: "delivered_doc = [d, c]" "\<not> is_plain d" "\<not> is_plain c" by (simp add: delivered_doc_def)
  have b: "blank newline" using blank_newline [of "[]" "[]"] by simp
  have "layout default_settings [d, c] ([] @ lines_text [] d @ newline @ lines_text [] c @ [])"
    using s [unfolded d(1)] b by (intro l_markup l_end simple_markup) simp_all
  moreover have "NUL \<notin> set delivered_file" by code_simp
  moreover have "delivered_file = lines_text [] d @ newline @ lines_text [] c" unfolding delivered_lines d(1) by simp
  ultimately show ?thesis unfolding d(1) using d(2,3) by (auto simp: file_layout_def)
qed

lemma digits: "digit_char 0 = CHR ''0''" "digit_char 1 = CHR ''1''" "digit_char (Suc 0) = CHR ''1''" "digit_char 2 = CHR ''2''" "digit_char 3 = CHR ''3''" "digit_char 6 = CHR ''6''"
  "digit_char 7 = CHR ''7''" "digit_char 9 = CHR ''9''"
  by code_simp+

lemma delivered_values: "configures delivered_doc delivered_CFG" "cfg_ok delivered_CFG"
  by (simp_all add: configures_def members_def text_at_def delivered_doc_def delivered_CFG_def cfg_ok_def show_int_def show_nat.simps digits)

text \<open> C25 (roundtrip). Every file that lays out a document in which the eleven members of the configuration stand at their
  places, in any order and with whatever else between them, is read by \<open>ParseCfg\<close>, through the file, the parser, the decoding of
  texts and the conversion of numbers, to exactly these members, whatever the configuration held before. The delivered
  \<open>bin/config/cfg.xml\<close> is such a file. \<close>

theorem configuration_read:
  assumes "file_layout default_settings ns bytes" and "configures ns cfg" and "cfg_ok cfg"
  shows "ParseCfg (Some (bytes, True)) old = Some (True, cfg)"
  using assms by (rule configuration_read_any)

theorem configuration_read_witness: "ParseCfg (Some (delivered_file, True)) zero_CFG = Some (True, delivered_CFG)"
  by (rule configuration_read [OF delivered_layout delivered_values])

section \<open>Missing values\<close>

text \<open>A member of the MySQL part that is missing, or has no text as in an empty password, ends the program with a
  fault.\<close>

lemma empty_member_faults:
  assumes "name \<in> {''ip'', ''user'', ''pwd'', ''db''}" and "FirstChildElement name k = None \<or> FirstChildElement name k = Some (as, [])"
  shows "parse_mysql k cfg = None"
proof -
  have "child_text name k = None" using assms(2) by (auto simp: child_text_def)
  then have "\<nexists>y. parse_mysql k cfg = Some y" using assms(1) by (auto simp: parse_mysql_def bind_eq_Some_conv)
  then show ?thesis by (cases "parse_mysql k cfg") simp_all
qed

text \<open>A password in the file that contains \<open>&#\<close> without a number ends the program in the same way.\<close>

lemma malformed_password_faults:
  assumes "FirstChildElement ''pwd'' k = Some (as, XMLText (Set_pair (t @ ''&#'' @ s) True True False) False # ks)"
    and "GetCharacterRef (''&#'' @ s) = None" and "CHR ''&'' \<notin> set t" and "CR \<notin> set (t @ s)"
  shows "parse_mysql k cfg = None"
proof -
  have "child_text ''pwd'' k = None" using assms(1) malformed_reference_faults [OF assms(2-4)] by (simp add: child_text_def)
  then have "\<nexists>y. parse_mysql k cfg = Some y" by (auto simp: parse_mysql_def bind_eq_Some_conv)
  then show ?thesis by (cases "parse_mysql k cfg") simp_all
qed

section \<open>The start of the program\<close>

lemma configuration_starts:
  assumes "file_layout default_settings ns bytes" and "configures ns cfg" and "cfg_ok cfg" and "load (GetCfg (se_module env)) = Some (bytes, True)"
  shows "main_start load env e = Server_init (configured cfg env) (cf_workthreads cfg) e"
  using assms(4) configuration_read_any [OF assms(1-3)] by (simp add: main_start_def)

end
