(* ===== verification/XmlPrint.thy ===== *)
theory XmlPrint
  imports Xml
begin

text \<open>
  Writing a tree as text with the printer of \<open>src/tinyxml2\<close>: the streaming interface (\<open>OpenElement\<close>,
  \<open>PushAttribute\<close>, \<open>PushText\<close>, \<dots>, \<open>CloseElement\<close>) and the visitor that drives it for a document. What is printed
  is appended to one text, which stands for the file or for the buffer in memory. The texts of the integer variants
  are those of the decimal conversions.
\<close>

section \<open>The printer\<close>

record XMLPrinter =
  pr_elementJustOpened :: bool
  pr_firstElement :: bool
  pr_out :: string
  pr_depth :: int
  pr_textDepth :: int
  pr_processEntities :: bool
  pr_compactMode :: bool
  pr_stack :: "string list"

definition new_XMLPrinter :: "bool \<Rightarrow> XMLPrinter" where
  "new_XMLPrinter compact = \<lparr>pr_elementJustOpened = False, pr_firstElement = True, pr_out = [], pr_depth = 0, pr_textDepth = - 1,
     pr_processEntities = True, pr_compactMode = compact, pr_stack = []\<rparr>"

definition entityFlag :: "char \<Rightarrow> bool" where
  "entityFlag c \<longleftrightarrow> c \<in> snd ` set entities"

definition restrictedEntityFlag :: "char \<Rightarrow> bool" where
  "restrictedEntityFlag c \<longleftrightarrow> c = CHR ''&'' \<or> c = CHR ''<'' \<or> c = CHR ''>''"

definition Print :: "string \<Rightarrow> XMLPrinter \<Rightarrow> XMLPrinter" where
  "Print s p = p\<lparr>pr_out := pr_out p @ s\<rparr>"

definition PrintSpace :: "int \<Rightarrow> XMLPrinter \<Rightarrow> XMLPrinter" where
  "PrintSpace depth p = Print (concat (replicate (nat depth) (replicate 4 (CHR 0x20)))) p"

text \<open>The loop of \<open>PrintString\<close>: the bytes from \<open>p\<close> up to \<open>q\<close>, which are still to be printed, and those from \<open>q\<close>.\<close>

fun entity_pattern :: "(string \<times> char) list \<Rightarrow> char \<Rightarrow> string" where
  "entity_pattern [] c = []"
| "entity_pattern ((n, v) # es) c = (if v = c then CHR ''&'' # n @ '';'' else entity_pattern es c)"

fun print_string_loop :: "(char \<Rightarrow> bool) \<Rightarrow> string \<Rightarrow> string \<Rightarrow> XMLPrinter \<Rightarrow> XMLPrinter" where
  "print_string_loop flag run [] p = (if run \<noteq> [] then Print run p else p)"
| "print_string_loop flag run (c # q) p =
     (if 0 < (of_char c :: nat) \<and> (of_char c :: nat) < 64 \<and> flag c
      then print_string_loop flag [] q (Print (entity_pattern entities c) (Print run p))
      else print_string_loop flag (run @ [c]) q p)"

definition PrintString :: "string \<Rightarrow> bool \<Rightarrow> XMLPrinter \<Rightarrow> XMLPrinter" where
  "PrintString s restricted p =
     (if pr_processEntities p then print_string_loop (if restricted then restrictedEntityFlag else entityFlag) [] s p
      else Print s p)"

definition SealElement :: "XMLPrinter \<Rightarrow> XMLPrinter" where
  "SealElement p = Print ''>'' (p\<lparr>pr_elementJustOpened := False\<rparr>)"

definition seal_open :: "XMLPrinter \<Rightarrow> XMLPrinter" where
  "seal_open p = (if pr_elementJustOpened p then SealElement p else p)"

text \<open>A node that is not text begins on a line of its own.\<close>

definition begin_line :: "XMLPrinter \<Rightarrow> XMLPrinter" where
  "begin_line p =
     (if pr_textDepth p < 0 \<and> \<not> pr_firstElement p \<and> \<not> pr_compactMode p then PrintSpace (pr_depth p) (Print [LF] p) else p)"

definition OpenElement :: "string \<Rightarrow> XMLPrinter \<Rightarrow> XMLPrinter" where
  "OpenElement name p =
     (let p = seal_open p;
          p = p\<lparr>pr_stack := name # pr_stack p\<rparr>;
          p = Print (''<'' @ name) (begin_line p)
      in p\<lparr>pr_elementJustOpened := True, pr_firstElement := False, pr_depth := pr_depth p + 1\<rparr>)"

definition PushAttribute :: "string \<Rightarrow> string \<Rightarrow> XMLPrinter \<Rightarrow> XMLPrinter option" where
  "PushAttribute name v p = do {
     assert_c (pr_elementJustOpened p);
     let p = Print (CHR 0x20 # name @ ''='' @ [CHR 0x22]) p;
     Some (Print [CHR 0x22] (PrintString v False p)) }"

text \<open>\<open>Pop\<close> of an empty stack fails its assertion.\<close>

definition CloseElement :: "XMLPrinter \<Rightarrow> XMLPrinter option" where
  "CloseElement p =
     (let p = p\<lparr>pr_depth := pr_depth p - 1\<rparr>
      in case pr_stack p of
           [] \<Rightarrow> None
         | name # st \<Rightarrow>
             let p = p\<lparr>pr_stack := st\<rparr>;
                 p = (if pr_elementJustOpened p then Print ''/>'' p
                      else Print (''</'' @ name @ ''>'')
                             (if pr_textDepth p < 0 \<and> \<not> pr_compactMode p then PrintSpace (pr_depth p) (Print [LF] p) else p));
                 p = (if pr_textDepth p = pr_depth p then p\<lparr>pr_textDepth := - 1\<rparr> else p);
                 p = (if pr_depth p = 0 \<and> \<not> pr_compactMode p then Print [LF] p else p)
             in Some (p\<lparr>pr_elementJustOpened := False\<rparr>))"

definition PushText :: "string \<Rightarrow> bool \<Rightarrow> XMLPrinter \<Rightarrow> XMLPrinter" where
  "PushText s cdata p =
     (let p = seal_open (p\<lparr>pr_textDepth := pr_depth p - 1\<rparr>)
      in if cdata then Print '']]>'' (Print s (Print ''<![CDATA['' p)) else PrintString s True p)"

definition push_markup :: "string \<Rightarrow> string \<Rightarrow> string \<Rightarrow> XMLPrinter \<Rightarrow> XMLPrinter" where
  "push_markup before s after p =
     (let p = begin_line (seal_open p)
      in Print (before @ s @ after) (p\<lparr>pr_firstElement := False\<rparr>))"

definition PushComment :: "string \<Rightarrow> XMLPrinter \<Rightarrow> XMLPrinter" where
  "PushComment s = push_markup ''<!--'' s ''-->''"

definition PushDeclaration :: "string \<Rightarrow> XMLPrinter \<Rightarrow> XMLPrinter" where
  "PushDeclaration s = push_markup ''<?'' s ''?>''"

definition PushUnknown :: "string \<Rightarrow> XMLPrinter \<Rightarrow> XMLPrinter" where
  "PushUnknown s = push_markup ''<!'' s ''>''"

definition PushHeader :: "bool \<Rightarrow> bool \<Rightarrow> XMLPrinter \<Rightarrow> XMLPrinter" where
  "PushHeader writeBOM writeDec p =
     (let p = (if writeBOM then Print [CHR 0xEF, CHR 0xBB, CHR 0xBF] p else p)
      in if writeDec then PushDeclaration (''xml version='' @ [CHR 0x22] @ ''1.0'' @ [CHR 0x22]) p else p)"

text \<open>The integer and boolean variants.\<close>

definition ToStr_int :: "int \<Rightarrow> string" where "ToStr_int v = show_int v"
definition ToStr_unsigned :: "nat \<Rightarrow> string" where "ToStr_unsigned v = show_nat v"
definition ToStr_bool :: "bool \<Rightarrow> string" where "ToStr_bool v = show_int (if v then 1 else 0)"

definition PushAttribute_int :: "string \<Rightarrow> int \<Rightarrow> XMLPrinter \<Rightarrow> XMLPrinter option" where "PushAttribute_int name v = PushAttribute name (ToStr_int v)"
definition PushAttribute_unsigned :: "string \<Rightarrow> nat \<Rightarrow> XMLPrinter \<Rightarrow> XMLPrinter option" where "PushAttribute_unsigned name v = PushAttribute name (ToStr_unsigned v)"
definition PushAttribute_bool :: "string \<Rightarrow> bool \<Rightarrow> XMLPrinter \<Rightarrow> XMLPrinter option" where "PushAttribute_bool name v = PushAttribute name (ToStr_bool v)"
definition PushText_int :: "int \<Rightarrow> XMLPrinter \<Rightarrow> XMLPrinter" where "PushText_int v = PushText (ToStr_int v) False"
definition PushText_unsigned :: "nat \<Rightarrow> XMLPrinter \<Rightarrow> XMLPrinter" where "PushText_unsigned v = PushText (ToStr_unsigned v) False"
definition PushText_bool :: "bool \<Rightarrow> XMLPrinter \<Rightarrow> XMLPrinter" where "PushText_bool v = PushText (ToStr_bool v) False"

section \<open>Visiting a document\<close>

fun push_attributes :: "XMLAttribute list \<Rightarrow> XMLPrinter \<Rightarrow> XMLPrinter option" where
  "push_attributes [] p = Some p"
| "push_attributes (a # as) p = do {
     name \<leftarrow> GetStr (fst a);
     v \<leftarrow> GetStr (snd a);
     p \<leftarrow> PushAttribute name v p;
     push_attributes as p }"

definition VisitEnter :: "StrPair \<Rightarrow> XMLAttribute list \<Rightarrow> XMLPrinter \<Rightarrow> XMLPrinter option" where
  "VisitEnter n as p = do { name \<leftarrow> GetStr n; push_attributes as (OpenElement name p) }"

fun Accept :: "XMLNode \<Rightarrow> XMLPrinter \<Rightarrow> XMLPrinter option"
  and Accept_all :: "XMLNode list \<Rightarrow> XMLPrinter \<Rightarrow> XMLPrinter option" where
  "Accept (XMLElement n as kids) p = do { p \<leftarrow> VisitEnter n as p; p \<leftarrow> Accept_all kids p; CloseElement p }"
| "Accept (XMLText t c) p = do { s \<leftarrow> GetStr t; Some (PushText s c p) }"
| "Accept (XMLComment t) p = do { s \<leftarrow> GetStr t; Some (PushComment s p) }"
| "Accept (XMLDeclaration t) p = do { s \<leftarrow> GetStr t; Some (PushDeclaration s p) }"
| "Accept (XMLUnknown t) p = do { s \<leftarrow> GetStr t; Some (PushUnknown s p) }"
| "Accept_all [] p = Some p"
| "Accept_all (n # ns) p = do { p \<leftarrow> Accept n p; Accept_all ns p }"

definition XMLDocument_Accept :: "xml_settings \<Rightarrow> bool \<Rightarrow> XMLNode list \<Rightarrow> XMLPrinter \<Rightarrow> XMLPrinter option" where
  "XMLDocument_Accept opts bom ns p = do {
     let p = p\<lparr>pr_processEntities := xs_processEntities opts\<rparr>;
     Accept_all ns (if bom then PushHeader True False p else p) }"

text \<open>\<open>SaveFile\<close> to a file that could be opened: what is written to the stream.\<close>

definition SaveFile :: "xml_settings \<Rightarrow> bool \<Rightarrow> XMLNode list \<Rightarrow> bool \<Rightarrow> string option" where
  "SaveFile opts bom ns compact = map_option pr_out (XMLDocument_Accept opts bom ns (new_XMLPrinter compact))"

end
