(* ===== verification/XmlPrintProps.thy ===== *)
theory XmlPrintProps
  imports XmlPrint XmlLayout
begin

text \<open>
  What the printer writes for a tree is a layout of the tree in the sense of \<open>XmlLayout\<close>, in both modes and with
  entities processed or not; so that a saved document is loaded as the same document.
\<close>

section \<open>Texts that can be printed\<close>

definition clean :: "string \<Rightarrow> bool" where
  "clean s \<longleftrightarrow> CR \<notin> set s \<and> NUL \<notin> set s"

fun printable :: "bool \<Rightarrow> xml \<Rightarrow> bool" where
  "printable ent (Elem n as ks) \<longleftrightarrow> name_ok n \<and> distinct (map fst as) \<and>
     list_all (\<lambda>a. name_ok (fst a) \<and> IsAlpha (hd (fst a)) \<and> clean (snd a) \<and> (ent \<or> CHR 0x22 \<notin> set (snd a))) as \<and>
     list_all (printable ent) ks \<and> successively (\<lambda>x y. \<not> (is_plain x \<and> is_plain y)) ks"
| "printable ent (Plain v) \<longleftrightarrow> clean v \<and> \<not> blank v \<and> (ent \<or> CHR ''<'' \<notin> set v)"
| "printable ent (CData v) \<longleftrightarrow> clean v \<and> section_ok '']]>'' v"
| "printable ent (Comment v) \<longleftrightarrow> clean v \<and> section_ok ''-->'' v"
| "printable ent (Decl v) \<longleftrightarrow> clean v \<and> section_ok ''?>'' v"
| "printable ent (Unk v) \<longleftrightarrow> clean v \<and> section_ok ''>'' v \<and> take 2 v \<noteq> ''--'' \<and> take 7 v \<noteq> ''[CDATA[''"

definition printed_text :: "bool \<Rightarrow> (char \<Rightarrow> bool) \<Rightarrow> string \<Rightarrow> string" where
  "printed_text ent flag s = (if ent then escape flag s else s)"

lemma flags [simp]: "special_flag entityFlag" "special_flag restrictedEntityFlag"
  by (auto simp: special_flag_def entityFlag_def restrictedEntityFlag_def entities_def)

abbreviation entity_name :: "char \<Rightarrow> string" where
  "entity_name c \<equiv> fst (hd (filter (\<lambda>e. snd e = c) entities))"

lemma entity_char:
  assumes "c \<in> snd ` set entities"
  shows "0 < (of_char c :: nat) \<and> (of_char c :: nat) < 64" "entity_pattern entities c = CHR ''&'' # entity_name c @ '';''"
    "set (entity_name c) \<subseteq> set ''quotamposlg''"
proof -
  have "c = CHR 0x22 \<or> c = CHR ''&'' \<or> c = CHR 0x27 \<or> c = CHR ''<'' \<or> c = CHR ''>''" using assms by (auto simp: entities_def)
  then show "0 < (of_char c :: nat) \<and> (of_char c :: nat) < 64" "entity_pattern entities c = CHR ''&'' # entity_name c @ '';''"
    "set (entity_name c) \<subseteq> set ''quotamposlg''"
    by (elim disjE; simp add: entities_def)+
qed

lemma flagged_entity: "special_flag flag \<Longrightarrow> flag c \<Longrightarrow> c \<in> snd ` set entities"
  by (simp add: special_flag_def)

lemma Print_simps [simp]: "Print [] p = p" "Print t (Print s p) = Print (s @ t) p"
  by (simp_all add: Print_def)

lemma print_loop: "special_flag flag \<Longrightarrow> print_string_loop flag run s p = Print (run @ escape flag s) p"
proof (induction flag run s p rule: print_string_loop.induct)
  case (2 flag run c q p)
  show ?case
  proof (cases "flag c")
    case True
    then show ?thesis using entity_char [OF flagged_entity [OF "2.prems" True]] "2.IH"(1) "2.prems" by simp
  next
    case False
    then show ?thesis using 2 by simp
  qed
qed simp

lemma PrintString_eq: "PrintString s r p = Print (printed_text (pr_processEntities p) (if r then restrictedEntityFlag else entityFlag) s) p"
  by (simp add: PrintString_def printed_text_def print_loop)

text \<open>What a printed text contains, and what it is read as.\<close>

definition printed :: "bool \<Rightarrow> bool \<Rightarrow> string \<Rightarrow> string" where
  "printed ent r s = printed_text ent (if r then restrictedEntityFlag else entityFlag) s"

lemma escape_chars:
  assumes "special_flag flag" and "c \<in> set (escape flag s)" and "c \<notin> set ''&;quotamposlg''"
  shows "c \<in> set s \<and> \<not> flag c"
  using assms(2)
proof (induction s)
  case (Cons d s)
  show ?case
  proof (cases "flag d")
    case True
    have "c \<notin> set ''quotamposlg''" "c \<noteq> CHR ''&''" "c \<noteq> CHR '';''" using assms(3) by simp_all
    moreover from this have "c \<notin> set (entity_name d)" using entity_char(3) [OF flagged_entity [OF assms(1) True]] by blast
    ultimately have "c \<in> set (escape flag s)" using Cons.prems True by simp
    then show ?thesis using Cons.IH by simp
  next
    case False
    then show ?thesis using Cons by auto
  qed
qed simp

lemma printed_read: "clean s \<Longrightarrow> GetStr (Set_pair (printed ent r s) ent True False) = Some s"
  by (cases ent; cases r) (simp_all add: printed_def printed_text_def clean_def GetStr_escaped GetStr_plain)

lemma printed_no:
  assumes "c \<in> {CHR ''<'', CHR 0x22, NUL}" and "c = CHR ''<'' \<Longrightarrow> r" and "c = CHR 0x22 \<Longrightarrow> \<not> r" and "clean s" and "c = NUL \<or> ent \<or> c \<notin> set s"
  shows "c \<notin> set (printed ent r s)"
proof
  assume c: "c \<in> set (printed ent r s)"
  have f: "c \<noteq> NUL \<Longrightarrow> (if r then restrictedEntityFlag else entityFlag) c"
    using assms(1-3) by (auto simp: entityFlag_def restrictedEntityFlag_def entities_def)
  have n: "c \<notin> set ''&;quotamposlg''" using assms(1) by auto
  show False
  proof (cases ent)
    case True
    then have "c \<in> set s \<and> \<not> (if r then restrictedEntityFlag else entityFlag) c"
      using c n by (intro escape_chars) (auto simp: printed_def printed_text_def)
    then show ?thesis using f assms(4) by (cases "c = NUL") (simp_all add: clean_def)
  next
    case False
    then show ?thesis using c assms(4,5) by (cases "c = NUL") (simp_all add: printed_def printed_text_def clean_def)
  qed
qed

lemma printed_not_blank: "\<not> blank s \<Longrightarrow> \<not> blank (printed ent r s)"
proof (induction s)
  case (Cons c s)
  have amp: "\<not> IsWhiteSpace (CHR ''&'')" by (simp add: IsWhiteSpace_def is_space_def)
  show ?case using Cons amp by (auto simp: printed_def printed_text_def blank_def split: if_splits)
qed simp

lemma printed_no_NUL: "clean s \<Longrightarrow> NUL \<notin> set (printed ent r s)"
  using printed_no [of NUL r s ent] by simp

lemma name_no_NUL: "name_ok n \<Longrightarrow> NUL \<notin> set n"
proof -
  have n: "\<not> name_char b NUL" for b by (simp add: name_char_def IsAlphaNum_def IsAlpha_def is_digit_def)
  assume "name_ok n"
  then obtain c t where "n = c # t" "name_char True c" "dropWhile (name_char False) t = []"
    by (auto simp: name_ok_def ParseName_def split: list.splits if_splits)
  then show ?thesis using n by (auto simp: dropWhile_eq_Nil_conv)
qed

lemma name_read_back: "name_ok n \<Longrightarrow> GetStr (name_pair n) = Some n"
  using name_no_NUL by (auto simp: GetStr_def Set_pair_def takeWhile_eq_all_conv)

section \<open>Attributes\<close>

lemma blank_space [simp]: "IsWhiteSpace (CHR 0x20)" "IsWhiteSpace LF"
  by (simp_all add: IsWhiteSpace_def IsUTF8Continuation_def is_space_def)

lemma Print_sel [simp]: "pr_elementJustOpened (Print s p) = pr_elementJustOpened p" "pr_processEntities (Print s p) = pr_processEntities p"
  "pr_out (Print s p) = pr_out p @ s" "pr_depth (Print s p) = pr_depth p" "pr_textDepth (Print s p) = pr_textDepth p"
  "pr_compactMode (Print s p) = pr_compactMode p" "pr_stack (Print s p) = pr_stack p" "pr_firstElement (Print s p) = pr_firstElement p"
  by (simp_all add: Print_def)

lemma PrintString_printed: "PrintString s r p = Print (printed (pr_processEntities p) r s) p"
  by (simp add: PrintString_eq printed_def)

lemma attributes_printed:
  assumes "list_all2 attribute_pair xs as" and "distinct (map fst as)" and "pr_elementJustOpened p" and "pr_processEntities p = xs_processEntities opts"
    and "list_all (\<lambda>a. name_ok (fst a) \<and> IsAlpha (hd (fst a)) \<and> clean (snd a) \<and> (xs_processEntities opts \<or> CHR 0x22 \<notin> set (snd a))) as"
  shows "\<exists>t. push_attributes xs p = Some (Print t p) \<and> attributes_text opts as t \<and> NUL \<notin> set t"
  using assms
proof (induction xs as arbitrary: p rule: list_all2_induct)
  case Nil
  then show ?case by (intro exI [of _ "[]"]) (simp add: no_attribute)
next
  case (Cons x xs a as)
  obtain n v where a: "a = (n, v)" by (cases a)
  let ?r = "printed (xs_processEntities opts) False v"
  let ?t = "CHR 0x20 # n @ ''='' @ CHR 0x22 # ?r @ [CHR 0x22]"
  have x: "GetStr (fst x) = Some n" "GetStr (snd x) = Some v" using Cons.hyps Cons.prems a by (simp_all add: attribute_pair_def name_read_back)
  have push: "PushAttribute n v p = Some (Print ?t p)" using Cons.prems by (simp add: PushAttribute_def PrintString_printed)
  obtain t where t: "push_attributes xs (Print ?t p) = Some (Print t (Print ?t p))" "attributes_text opts as t" "NUL \<notin> set t"
    using Cons.IH [of "Print ?t p"] Cons.prems by auto
  have ok: "name_ok n" "IsAlpha (hd n)" "clean v" "xs_processEntities opts \<or> CHR 0x22 \<notin> set v" "n \<notin> fst ` set as" using Cons.prems a by auto
  have "attributes_text opts ((n, v) # as) ([CHR 0x20] @ n @ [] @ ''='' @ [] @ CHR 0x22 # ?r @ CHR 0x22 # t)"
    using t(2) ok printed_no [of "CHR 0x22" False v "xs_processEntities opts"] printed_read [OF ok(3), of "xs_processEntities opts" False] by (intro attribute) auto
  then show ?case using x push t a name_no_NUL [OF ok(1)] printed_no_NUL [OF ok(3)] by (intro exI [of _ "?t @ t"]) auto
qed

section \<open>Nodes\<close>

text \<open>What does not change between the beginning and the end of a node.\<close>

definition same_place :: "XMLPrinter \<Rightarrow> XMLPrinter \<Rightarrow> bool" where
  "same_place p q \<longleftrightarrow> pr_depth q = pr_depth p \<and> pr_stack q = pr_stack p \<and> pr_compactMode q = pr_compactMode p \<and> pr_processEntities q = pr_processEntities p"

lemma same_place_trans: "same_place p q \<Longrightarrow> same_place q r \<Longrightarrow> same_place p r"
  by (simp add: same_place_def)

text \<open>The pending end of a start tag, and the layout of one node.\<close>

definition pending :: "XMLPrinter \<Rightarrow> string" where
  "pending p = (if pr_elementJustOpened p then ''>'' else [])"

fun piece :: "xml_settings \<Rightarrow> xml \<Rightarrow> string \<Rightarrow> bool" where
  "piece opts (Plain v) r \<longleftrightarrow> CHR ''<'' \<notin> set r \<and> \<not> blank r \<and> GetStr (Set_pair r (xs_processEntities opts) True (xs_collapse opts)) = Some v"
| "piece opts n m \<longleftrightarrow> markup opts n m"

definition usable :: "xml_settings \<Rightarrow> XMLPrinter \<Rightarrow> bool" where
  "usable opts p \<longleftrightarrow> pr_processEntities p = xs_processEntities opts \<and> \<not> xs_collapse opts \<and> 0 \<le> pr_depth p \<and> - 1 \<le> pr_textDepth p"

definition writes :: "xml_settings \<Rightarrow> XMLPrinter \<Rightarrow> xml \<Rightarrow> XMLPrinter \<Rightarrow> bool" where
  "writes opts p n q \<longleftrightarrow>
     same_place p q \<and> usable opts q \<and> \<not> pr_elementJustOpened q \<and>
     (\<exists>w m e. pr_out q = pr_out p @ pending p @ w @ m @ e \<and> blank w \<and> blank e \<and> (0 \<le> pr_textDepth p \<longrightarrow> w = []) \<and> (1 \<le> pr_depth p \<longrightarrow> e = []) \<and>
        piece opts n m \<and> NUL \<notin> set (w @ m @ e) \<and> (is_plain n \<longrightarrow> w = [] \<and> 0 \<le> pr_textDepth q))"

lemma writesI: "\<lbrakk>same_place p q; usable opts q; \<not> pr_elementJustOpened q; pr_out q = pr_out p @ pending p @ w @ m @ e; blank w; blank e;
    0 \<le> pr_textDepth p \<longrightarrow> w = []; 1 \<le> pr_depth p \<longrightarrow> e = []; piece opts n m; NUL \<notin> set (w @ m @ e); is_plain n \<longrightarrow> w = [] \<and> 0 \<le> pr_textDepth q\<rbrakk> \<Longrightarrow> writes opts p n q"
  unfolding writes_def by blast

definition node_printed :: "xml_settings \<Rightarrow> XMLNode \<Rightarrow> XMLPrinter \<Rightarrow> bool" where
  "node_printed opts node p \<longleftrightarrow>
     (\<forall>n. represents node n \<longrightarrow> printable (xs_processEntities opts) n \<longrightarrow> usable opts p \<longrightarrow> (is_plain n \<longrightarrow> 1 \<le> pr_depth p) \<longrightarrow>
       (\<exists>q. Accept node p = Some q \<and> writes opts p n q))"

text \<open>A list of nodes: what is written for it can stand in front of every layout of further nodes, unless that would
  extend a text.\<close>

definition extends_layout :: "xml_settings \<Rightarrow> bool \<Rightarrow> xml list \<Rightarrow> string \<Rightarrow> bool" where
  "extends_layout opts outer ns t \<longleftrightarrow>
     (\<forall>us u. layout opts us u \<longrightarrow> (ns \<noteq> [] \<and> is_plain (last ns) \<longrightarrow> take 1 u \<in> {[], ''<''}) \<longrightarrow>
        (outer \<and> us \<noteq> [] \<longrightarrow> \<not> is_plain (hd us)) \<longrightarrow> layout opts (ns @ us) (t @ u))"

definition writes_all :: "xml_settings \<Rightarrow> XMLPrinter \<Rightarrow> xml list \<Rightarrow> XMLPrinter \<Rightarrow> bool" where
  "writes_all opts p ns q \<longleftrightarrow>
     same_place p q \<and> usable opts q \<and> (ns = [] \<longrightarrow> q = p) \<and> (ns \<noteq> [] \<longrightarrow> \<not> pr_elementJustOpened q) \<and>
     (ns \<noteq> [] \<and> is_plain (last ns) \<longrightarrow> 0 \<le> pr_textDepth q) \<and>
     (\<exists>t. (ns \<noteq> [] \<longrightarrow> pr_out q = pr_out p @ pending p @ t) \<and> (ns = [] \<longrightarrow> t = []) \<and> NUL \<notin> set t \<and>
        (ns \<noteq> [] \<and> 0 \<le> pr_textDepth p \<and> \<not> is_plain (hd ns) \<longrightarrow> take 1 t = ''<'') \<and> extends_layout opts (pr_depth p = 0) ns t)"

definition printable_list :: "xml_settings \<Rightarrow> bool \<Rightarrow> xml list \<Rightarrow> bool" where
  "printable_list opts outer ns \<longleftrightarrow> list_all (printable (xs_processEntities opts)) ns \<and> successively (\<lambda>x y. \<not> (is_plain x \<and> is_plain y)) ns \<and>
     (outer \<longrightarrow> (\<forall>n \<in> set ns. \<not> is_plain n))"

definition list_printed :: "xml_settings \<Rightarrow> XMLNode list \<Rightarrow> XMLPrinter \<Rightarrow> bool" where
  "list_printed opts tr p \<longleftrightarrow>
     (\<forall>ns. list_all2 represents tr ns \<longrightarrow> printable_list opts (pr_depth p = 0) ns \<longrightarrow> usable opts p \<longrightarrow>
       (\<exists>q. Accept_all tr p = Some q \<and> writes_all opts p ns q))"

lemma blank_prefix:
  assumes "layout opts ns u" and "blank w" and "ns \<noteq> [] \<longrightarrow> \<not> is_plain (hd ns)"
  shows "layout opts ns (w @ u)"
  using assms(1)
proof cases
  case (l_markup w2 n m ks t)
  then show ?thesis using assms(2) markup_layout.l_markup [of "w @ w2" opts n m ks t] by (simp add: blank_def)
next
  case l_end
  then show ?thesis using assms(2) markup_layout.l_end [of "w @ u"] by (simp add: blank_def)
next
  case l_text
  then show ?thesis using assms(3) by simp
qed

text \<open>The beginning of a node.\<close>

lemma seal_open_simps [simp]: "pr_elementJustOpened (seal_open p) = False" "pr_out (seal_open p) = pr_out p @ pending p"
  "pr_depth (seal_open p) = pr_depth p" "pr_textDepth (seal_open p) = pr_textDepth p" "pr_stack (seal_open p) = pr_stack p"
  "pr_compactMode (seal_open p) = pr_compactMode p" "pr_processEntities (seal_open p) = pr_processEntities p" "pr_firstElement (seal_open p) = pr_firstElement p"
  by (simp_all add: seal_open_def SealElement_def pending_def)

definition indent :: "XMLPrinter \<Rightarrow> string" where
  "indent p = (if pr_textDepth p < 0 \<and> \<not> pr_compactMode p then LF # concat (replicate (nat (pr_depth p)) (replicate 4 (CHR 0x20))) else [])"

lemma indent_simps [simp]: "blank (indent p)" "0 \<le> pr_textDepth p \<Longrightarrow> indent p = []" "NUL \<notin> set (indent p)"
  by (auto simp: indent_def blank_def list_all_iff)

lemma begin_line_eq: "begin_line p = Print (if pr_firstElement p then [] else indent p) p"
  by (simp add: begin_line_def indent_def PrintSpace_def)

lemma markup_written:
  assumes "usable opts p" and "markup opts n (b @ s @ a)" and "NUL \<notin> set (b @ s @ a)"
  shows "writes opts p n (push_markup b s a p)"
proof (rule writesI [where w = "if pr_firstElement p then [] else indent (seal_open p)" and m = "b @ s @ a" and e = "[]"])
  show "same_place p (push_markup b s a p)" "\<not> pr_elementJustOpened (push_markup b s a p)"
    "pr_out (push_markup b s a p) = pr_out p @ pending p @ (if pr_firstElement p then [] else indent (seal_open p)) @ (b @ s @ a) @ []"
    by (simp_all add: push_markup_def begin_line_eq same_place_def Let_def Print_def)
  show "usable opts (push_markup b s a p)" using assms(1) by (simp add: push_markup_def begin_line_eq usable_def Let_def Print_def)
  show "piece opts n (b @ s @ a)" "is_plain n \<longrightarrow> (if pr_firstElement p then [] else indent (seal_open p)) = [] \<and> 0 \<le> pr_textDepth (push_markup b s a p)"
    using assms(2) markup_shape [OF assms(2)] by (cases n; simp)+
qed (use assms(3) in auto)

lemma text_written:
  assumes "usable opts p" and "printable (xs_processEntities opts) (Plain v)" and "1 \<le> pr_depth p"
  shows "writes opts p (Plain v) (PushText v False p)"
proof (rule writesI [where w = "[]" and m = "printed (xs_processEntities opts) True v" and e = "[]"])
  have v: "clean v" "\<not> blank v" "xs_processEntities opts \<or> CHR ''<'' \<notin> set v" using assms(2) by simp_all
  show "piece opts (Plain v) (printed (xs_processEntities opts) True v)"
    using printed_no [of "CHR ''<''" True v "xs_processEntities opts"] v printed_read [OF v(1)] printed_not_blank [OF v(2)] assms(1) by (auto simp: usable_def)
  show "NUL \<notin> set ([] @ printed (xs_processEntities opts) True v @ [])" using printed_no_NUL [OF v(1)] by simp
qed (use assms(1,3) in \<open>simp_all add: PushText_def PrintString_printed same_place_def usable_def Let_def pending_def\<close>)

lemma cdata_written:
  assumes "usable opts p" and "printable (xs_processEntities opts) (CData v)"
  shows "writes opts p (CData v) (PushText v True p)"
proof (rule writesI [where w = "[]" and m = "''<![CDATA['' @ v @ '']]>''" and e = "[]"])
  have "markup opts (CData v) (''<![CDATA['' @ v @ '']]>'')" using assms(2) GetStr_plain by (intro m_cdata) (simp_all add: clean_def)
  then show "piece opts (CData v) (''<![CDATA['' @ v @ '']]>'')" by simp
qed (use assms in \<open>simp_all add: PushText_def same_place_def usable_def Let_def pending_def clean_def\<close>)

lemma leaves_printed:
  "node_printed opts (XMLText t c) p" "node_printed opts (XMLComment t) p" "node_printed opts (XMLDeclaration t) p" "node_printed opts (XMLUnknown t) p"
proof -
  have r: "clean v \<Longrightarrow> GetStr (Set_pair v False True False) = Some v" for v using GetStr_plain by (simp add: clean_def)
  show "node_printed opts (XMLText t c) p" using text_written [of opts p] cdata_written [of opts p] by (auto simp: node_printed_def)
  have c: "writes opts p (Comment v) (PushComment v p)" if "usable opts p" "printable (xs_processEntities opts) (Comment v)" for v
    unfolding PushComment_def using that r by (intro markup_written m_comment) (auto simp: clean_def)
  show "node_printed opts (XMLComment t) p" using c by (auto simp: node_printed_def)
  have d: "writes opts p (Decl v) (PushDeclaration v p)" if "usable opts p" "printable (xs_processEntities opts) (Decl v)" for v
    unfolding PushDeclaration_def using that r by (intro markup_written m_declaration) (auto simp: clean_def)
  show "node_printed opts (XMLDeclaration t) p" using d by (auto simp: node_printed_def)
  have u: "writes opts p (Unk v) (PushUnknown v p)" if "usable opts p" "printable (xs_processEntities opts) (Unk v)" for v
    unfolding PushUnknown_def using that r by (intro markup_written m_unknown) (auto simp: clean_def)
  show "node_printed opts (XMLUnknown t) p" using u by (auto simp: node_printed_def)
qed

section \<open>Lists of nodes\<close>

lemma nothing_written: "usable opts p \<Longrightarrow> writes_all opts p [] p"
  by (simp add: writes_all_def same_place_def extends_layout_def)

lemma piece_extends:
  assumes "piece opts n m" and "blank w" and "blank e" and "is_plain n \<longrightarrow> w = []" and "\<not> outer \<longrightarrow> e = []" and "extends_layout opts outer ns t"
    and "printable_list opts outer (n # ns)" and "is_plain n \<Longrightarrow> ns \<noteq> [] \<Longrightarrow> take 1 t = ''<''" and "ns = [] \<longrightarrow> t = []"
  shows "extends_layout opts outer (n # ns) ((w @ m @ e) @ t)"
  unfolding extends_layout_def
proof (intro allI impI)
  fix us u
  assume u: "layout opts us u" "n # ns \<noteq> [] \<and> is_plain (last (n # ns)) \<longrightarrow> take 1 u \<in> {[], ''<''}" "outer \<and> us \<noteq> [] \<longrightarrow> \<not> is_plain (hd us)"
  have rest: "layout opts (ns @ us) (t @ u)" using assms(6) u unfolding extends_layout_def by auto
  show "layout opts ((n # ns) @ us) (((w @ m @ e) @ t) @ u)"
  proof (cases "is_plain n")
    case True
    then obtain v where v: "n = Plain v" by (cases n) auto
    have "\<not> outer" using assms(7) True by (auto simp: printable_list_def)
    then have e: "e = []" "w = []" using assms(4,5) True by simp_all
    have "take 1 (t @ u) \<in> {[], ''<''}"
    proof (cases "ns = []")
      case True
      then show ?thesis using assms(9) u(2) \<open>is_plain n\<close> by simp
    next
      case False
      then have "take 1 t = ''<''" using assms(8) \<open>is_plain n\<close> by blast
      then show ?thesis by (cases t) simp_all
    qed
    then show ?thesis using l_text [of m opts v "ns @ us" "t @ u"] rest assms(1) v e by simp
  next
    case False
    then have m: "markup opts n m" using assms(1) by (cases n) simp_all
    have "layout opts (ns @ us) (e @ t @ u)"
    proof (cases outer)
      case True
      then have "ns @ us \<noteq> [] \<longrightarrow> \<not> is_plain (hd (ns @ us))" using assms(7) u(3) by (cases ns) (auto simp: printable_list_def)
      then show ?thesis using blank_prefix [OF rest assms(3)] by simp
    next
      case False
      then show ?thesis using assms(5) rest by simp
    qed
    from l_markup [OF assms(2) m this] show ?thesis by simp
  qed
qed

lemma node_then_list:
  assumes "writes opts p n q" and "writes_all opts q ns r" and "printable_list opts (pr_depth p = 0) (n # ns)" and "usable opts p"
  shows "writes_all opts p (n # ns) r"
proof -
  have d: "pr_depth q = pr_depth p" using assms(1) by (simp add: writes_def same_place_def)
  obtain w m e where n: "pr_out q = pr_out p @ pending p @ w @ m @ e" "blank w" "blank e" "0 \<le> pr_textDepth p \<longrightarrow> w = []" "1 \<le> pr_depth p \<longrightarrow> e = []"
      "piece opts n m" "NUL \<notin> set (w @ m @ e)" "is_plain n \<longrightarrow> w = [] \<and> 0 \<le> pr_textDepth q"
    using assms(1) by (auto simp: writes_def)
  obtain t where t: "ns \<noteq> [] \<longrightarrow> pr_out r = pr_out q @ pending q @ t" "ns = [] \<longrightarrow> t = []" "NUL \<notin> set t"
      "ns \<noteq> [] \<and> 0 \<le> pr_textDepth q \<and> \<not> is_plain (hd ns) \<longrightarrow> take 1 t = ''<''" "extends_layout opts (pr_depth p = 0) ns t"
    using assms(2) d by (auto simp: writes_all_def)
  have open_q: "pending q = []" using assms(1) by (simp add: writes_def pending_def)
  have "is_plain n \<Longrightarrow> ns \<noteq> [] \<Longrightarrow> \<not> is_plain (hd ns)" using assms(3) by (cases ns) (auto simp: printable_list_def)
  then have first: "is_plain n \<Longrightarrow> ns \<noteq> [] \<Longrightarrow> take 1 t = ''<''" using t(4) n(8) by blast
  have ext: "extends_layout opts (pr_depth p = 0) (n # ns) ((w @ m @ e) @ t)"
    using n(8) n(5) assms(4) by (intro piece_extends [OF n(6,2,3) _ _ t(5) assms(3) first t(2)]) (auto simp: usable_def)
  have start: "take 1 ((w @ m @ e) @ t) = ''<''" if "0 \<le> pr_textDepth p" "\<not> is_plain n"
  proof -
    have "markup opts n m" using n(6) that(2) by (cases n) simp_all
    then have "take 1 m = ''<''" using markup_shape by blast
    then show ?thesis using n(4) that(1) by (cases m) simp_all
  qed
  have out: "pr_out r = pr_out p @ pending p @ (w @ m @ e) @ t"
    using n(1) t(1,2) open_q assms(2) by (cases "ns = []") (simp_all add: writes_all_def)
  have rest: "same_place p r" "usable opts r" "\<not> pr_elementJustOpened r" "is_plain (last (n # ns)) \<longrightarrow> 0 \<le> pr_textDepth r"
    using assms(1,2) n(8) by (auto simp: writes_def writes_all_def dest: same_place_trans)
  show ?thesis unfolding writes_all_def
    using rest out ext start n(7) t(3) by (intro conjI exI [of _ "(w @ m @ e) @ t"]) auto
qed

lemma list_step: "node_printed opts x p \<Longrightarrow> (\<And>q. Accept x p = Some q \<Longrightarrow> list_printed opts xs q) \<Longrightarrow> list_printed opts (x # xs) p"
proof -
  assume x: "node_printed opts x p" and xs: "\<And>q. Accept x p = Some q \<Longrightarrow> list_printed opts xs q"
  show ?thesis unfolding list_printed_def
  proof (intro allI impI)
    fix ns
    assume a: "list_all2 represents (x # xs) ns" "printable_list opts (pr_depth p = 0) ns" "usable opts p"
    then obtain n ks where n: "ns = n # ks" "represents x n" "list_all2 represents xs ks" by (auto simp: list_all2_Cons1)
    have "is_plain n \<longrightarrow> 1 \<le> pr_depth p" using a(2,3) n(1) by (auto simp: printable_list_def usable_def)
    then obtain q where q: "Accept x p = Some q" "writes opts p n q" using x n(1,2) a(2,3) by (auto simp: node_printed_def printable_list_def)
    have d: "pr_depth q = pr_depth p" "usable opts q" using q(2) by (simp_all add: writes_def same_place_def)
    have "printable_list opts (pr_depth q = 0) ks" using a(2) n(1) d(1) by (cases ks) (auto simp: printable_list_def)
    then obtain r where "Accept_all xs q = Some r" "writes_all opts q ks r" using xs [OF q(1)] n(3) d(2) by (auto simp: list_printed_def)
    then show "\<exists>r. Accept_all (x # xs) p = Some r \<and> writes_all opts p ns r" using q node_then_list [OF q(2), of ks r] a(2,3) n(1) by auto
  qed
qed

section \<open>Elements and documents\<close>

definition before_end :: "XMLPrinter \<Rightarrow> string" where
  "before_end p = indent (p\<lparr>pr_depth := pr_depth p - 1\<rparr>)"

definition after_end :: "XMLPrinter \<Rightarrow> string" where
  "after_end p = (if pr_depth p = 1 \<and> \<not> pr_compactMode p then [LF] else [])"

lemma ends_blank [simp]: "blank (before_end p)" "blank (after_end p)" "NUL \<notin> set (before_end p)" "NUL \<notin> set (after_end p)"
    "0 \<le> pr_textDepth p \<Longrightarrow> before_end p = []"
  by (auto simp: before_end_def after_end_def)

lemma extends_end: "extends_layout opts outer ns t \<Longrightarrow> layout opts [] u \<Longrightarrow> (ns \<noteq> [] \<and> is_plain (last ns) \<longrightarrow> take 1 u \<in> {[], ''<''}) \<Longrightarrow> layout opts ns (t @ u)"
  unfolding extends_layout_def by (drule spec [of _ "[]"], drule spec [of _ u]) simp

lemma close_printed:
  assumes "pr_stack p = name # st" and "usable opts p" and "1 \<le> pr_depth p"
  shows "\<exists>q. CloseElement p = Some q \<and> pr_out q = pr_out p @ (if pr_elementJustOpened p then ''/>'' else before_end p @ ''</'' @ name @ ''>'') @ after_end p \<and>
    pr_depth q = pr_depth p - 1 \<and> pr_stack q = st \<and> pr_compactMode q = pr_compactMode p \<and> pr_processEntities q = pr_processEntities p \<and>
    \<not> pr_elementJustOpened q \<and> usable opts q"
  using assms by (simp add: CloseElement_def Let_def before_end_def after_end_def indent_def PrintSpace_def usable_def Print_def)

lemma open_printed:
  "pr_out (OpenElement name p) = pr_out p @ pending p @ (if pr_firstElement p then [] else indent (seal_open p)) @ ''<'' @ name"
  "pr_elementJustOpened (OpenElement name p)" "pr_depth (OpenElement name p) = pr_depth p + 1" "pr_stack (OpenElement name p) = name # pr_stack p"
  "pr_compactMode (OpenElement name p) = pr_compactMode p" "pr_processEntities (OpenElement name p) = pr_processEntities p"
  "pr_textDepth (OpenElement name p) = pr_textDepth p"
  by (simp_all add: OpenElement_def begin_line_eq Let_def indent_def)

lemma element_printed:
  assumes "\<And>q. VisitEnter n as p = Some q \<Longrightarrow> list_printed opts kids q"
  shows "node_printed opts (XMLElement n as kids) p"
  unfolding node_printed_def
proof (intro allI impI)
  fix x
  assume a: "represents (XMLElement n as kids) x" "printable (xs_processEntities opts) x" "usable opts p"
  then obtain m bs ks where x: "x = Elem m bs ks" "n = name_pair m" "list_all2 attribute_pair as bs" "list_all2 represents kids ks"
    by (cases x) auto
  have ok: "name_ok m" using a(2) x(1) by simp
  define w where "w = (if pr_firstElement p then [] else indent (seal_open p))"
  let ?q0 = "OpenElement m p"
  obtain t where t: "push_attributes as ?q0 = Some (Print t ?q0)" "attributes_text opts bs t" "NUL \<notin> set t"
    using attributes_printed [OF x(3), of ?q0 opts] a(2,3) x(1) by (auto simp: open_printed usable_def)
  define q1 where "q1 = Print t ?q0"
  have enter: "VisitEnter n as p = Some q1" using t(1) x(2) name_read_back [OF ok] by (simp add: VisitEnter_def q1_def)
  have q1: "pr_out q1 = pr_out p @ pending p @ w @ ''<'' @ m @ t" "pending q1 = ''>''" "pr_elementJustOpened q1" "pr_depth q1 = pr_depth p + 1"
      "pr_stack q1 = m # pr_stack p" "usable opts q1"
    using a(3) by (simp_all add: q1_def open_printed w_def pending_def usable_def)
  have "printable_list opts (pr_depth q1 = 0) ks" using a(2,3) x(1) q1(4) by (simp add: printable_list_def usable_def)
  then obtain q2 where q2: "Accept_all kids q1 = Some q2" "writes_all opts q1 ks q2" using assms [OF enter] x(4) q1(6) by (auto simp: list_printed_def)
  have same: "same_place q1 q2" "usable opts q2" using q2(2) by (simp_all add: writes_all_def)
  have st: "pr_stack q2 = m # pr_stack p" "1 \<le> pr_depth q2" "pr_depth q2 = pr_depth p + 1" using same(1) q1(4,5) a(3) by (simp_all add: same_place_def usable_def)
  obtain q3 where q3: "CloseElement q2 = Some q3"
      "pr_out q3 = pr_out q2 @ (if pr_elementJustOpened q2 then ''/>'' else before_end q2 @ ''</'' @ m @ ''>'') @ after_end q2"
      "pr_depth q3 = pr_depth p" "pr_stack q3 = pr_stack p" "pr_compactMode q3 = pr_compactMode q2" "pr_processEntities q3 = pr_processEntities q2"
      "\<not> pr_elementJustOpened q3" "usable opts q3"
    using close_printed [OF st(1) same(2) st(2)] st(3) by auto
  have acc: "Accept (XMLElement n as kids) p = Some q3" using enter q2(1) q3(1) by simp
  have place: "same_place p q3" using q3(3-6) same(1) by (simp add: same_place_def q1_def open_printed)
  have e: "1 \<le> pr_depth p \<longrightarrow> after_end q2 = []" using st(3) by (simp add: after_end_def)
  have w: "blank w" "0 \<le> pr_textDepth p \<longrightarrow> w = []" "NUL \<notin> set w" by (simp_all add: w_def)
  have "\<exists>mk. pr_out q3 = pr_out p @ pending p @ w @ mk @ after_end q2 \<and> markup opts x mk \<and> NUL \<notin> set mk"
  proof (cases "ks = []")
    case True
    then have "q2 = q1" using q2(2) by (simp add: writes_all_def)
    then have "pr_out q3 = pr_out p @ pending p @ w @ (''<'' @ [] @ m @ t @ [] @ ''/>'') @ after_end q2" using q3(2) q1(1,3) by simp
    moreover have "markup opts x (''<'' @ [] @ m @ t @ [] @ ''/>'')" unfolding x(1) True using ok t(2) by (intro m_empty) simp_all
    ultimately show ?thesis using name_no_NUL [OF ok] t(3) by (intro exI [of _ "''<'' @ [] @ m @ t @ [] @ ''/>''"]) simp
  next
    case False
    obtain u where u: "pr_out q2 = pr_out q1 @ pending q1 @ u" "NUL \<notin> set u" "extends_layout opts False ks u"
      using q2(2) False q1(4) a(3) by (auto simp: writes_all_def usable_def)
    have "take 1 (before_end q2) \<in> {[], ''<''}" if "is_plain (last ks)" using q2(2) False that by (auto simp: writes_all_def)
    then have body: "layout opts ks (u @ before_end q2)" by (intro extends_end [OF u(3) l_end]) auto
    have closed: "\<not> pr_elementJustOpened q2" using q2(2) False by (simp add: writes_all_def)
    let ?mk = "''<'' @ [] @ m @ t @ [] @ ''>'' @ (u @ before_end q2) @ ''<'' @ [] @ ''/'' @ m @ [] @ ''>''"
    have "pr_out q3 = pr_out p @ pending p @ w @ ?mk @ after_end q2" using q3(2) u(1) q1(1,2) closed by simp
    moreover have "markup opts x ?mk" unfolding x(1) using ok t(2) body by (intro m_element) simp_all
    ultimately show ?thesis using name_no_NUL [OF ok] t(3) u(2) by (intro exI [of _ ?mk]) simp
  qed
  then obtain mk where mk: "pr_out q3 = pr_out p @ pending p @ w @ mk @ after_end q2" "markup opts x mk" "NUL \<notin> set mk" by blast
  have "writes opts p x q3"
    using place q3(7,8) mk w e x(1) by (intro writesI [where w = w and m = mk and e = "after_end q2"]) auto
  then show "\<exists>q. Accept (XMLElement n as kids) p = Some q \<and> writes opts p x q" using acc by blast
qed

lemma tree_printed: "node_printed opts node p" "list_printed opts tr p"
proof (induction node p and tr p rule: Accept_Accept_all.induct)
  case (1 n as kids p)
  then show ?case by (rule element_printed)
next
  case (6 p)
  then show ?case by (auto simp: list_printed_def intro: nothing_written)
next
  case (7 n ns p)
  then show ?case by (intro list_step) auto
qed (rule leaves_printed)+

text \<open>A document that can be printed: no plain text outside of the elements.\<close>

definition printable_doc :: "xml_settings \<Rightarrow> xml list \<Rightarrow> bool" where
  "printable_doc opts ns \<longleftrightarrow> ns \<noteq> [] \<and> printable_list opts True ns \<and> \<not> xs_collapse opts"

lemma document_printed:
  assumes "printable_doc opts ns" and "list_all2 represents tr ns"
  shows "\<exists>bytes. SaveFile opts bom tr compact = Some bytes \<and> file_layout opts ns bytes"
proof -
  define p where "p = (new_XMLPrinter compact)\<lparr>pr_processEntities := xs_processEntities opts\<rparr>"
  define p1 where "p1 = (if bom then PushHeader True False p else p)"
  have p1: "usable opts p1" "pr_depth p1 = 0" "pending p1 = []" "pr_out p1 = (if bom then BOM else [])"
    using assms(1) by (simp_all add: p1_def p_def new_XMLPrinter_def usable_def printable_doc_def pending_def PushHeader_def BOM_def)
  obtain q where q: "Accept_all tr p1 = Some q" "writes_all opts p1 ns q"
    using tree_printed(2) [of opts tr p1] assms p1(1,2) by (auto simp: list_printed_def printable_doc_def)
  have ne: "ns \<noteq> []" "\<forall>n \<in> set ns. \<not> is_plain n" using assms(1) by (simp_all add: printable_doc_def printable_list_def)
  obtain t where t: "pr_out q = pr_out p1 @ t" "NUL \<notin> set t" "extends_layout opts True ns t" using q(2) ne(1) p1(2,3) by (auto simp: writes_all_def)
  have "layout opts ns t" using extends_end [OF t(3) l_end [of "[]"]] by simp
  then have "file_layout opts ns (pr_out q)" using ne t(1,2) p1(4) by (auto simp: file_layout_def BOM_def)
  moreover have "SaveFile opts bom tr compact = Some (pr_out q)" using q(1) unfolding p1_def p_def by (cases bom) (auto simp: SaveFile_def XMLDocument_Accept_def Let_def)
  ultimately show ?thesis by blast
qed



end
