(* ===== verification/CryptoKeys.thy ===== *)
theory CryptoKeys
  imports Crypto "HOL-Library.Signed_Division"
begin

text \<open>
  The RSA keys of \<open>include/yyssl.h\<close>: generating and converting them, and the pair of keys that an object \<open>YYRSA\<close> owns;
  the sizes of the buffers for base64.
  The objects of OpenSSL live in a store; its functions on them are parameters.
\<close>

section \<open>Keys of OpenSSL\<close>

record 'key rsa_lib =
  RSA_check_key :: "'key \<Rightarrow> bool"
  RSAPrivateKey_dup :: "'key \<Rightarrow> 'key option"
  RSAPublicKey_dup :: "'key \<Rightarrow> 'key option"
  i2d_RSAPublicKey :: "'key \<Rightarrow> string option"
  i2d_RSAPrivateKey :: "'key \<Rightarrow> string option"
  d2i_RSAPublicKey :: "string \<Rightarrow> 'key option"
  d2i_RSAPrivateKey :: "string \<Rightarrow> 'key option"

text \<open>A pointer is an address or \<^const>\<open>None\<close> for NULL; freeing an address that is not live is a fault.\<close>

record 'key rsa_store =
  rs_key :: "nat \<Rightarrow> 'key option"
  rs_next :: nat

definition store_ok :: "'key rsa_store \<Rightarrow> bool" where
  "store_ok st \<longleftrightarrow> (\<forall>a k. rs_key st a = Some k \<longrightarrow> a < rs_next st)"

definition new_key :: "'key option \<Rightarrow> 'key rsa_store \<Rightarrow> nat option \<times> 'key rsa_store" where
  "new_key k st =
     (case k of
        None \<Rightarrow> (None, st)
      | Some k \<Rightarrow> (Some (rs_next st), \<lparr>rs_key = (rs_key st)(rs_next st := Some k), rs_next = rs_next st + 1\<rparr>))"

definition RSA_free :: "nat \<Rightarrow> 'key rsa_store \<Rightarrow> 'key rsa_store option" where
  "RSA_free a st = do { assert_c (rs_key st a \<noteq> None); Some (st\<lparr>rs_key := (rs_key st)(a := None)\<rparr>) }"

definition free_pointer :: "nat option \<Rightarrow> 'key rsa_store \<Rightarrow> 'key rsa_store option" where
  "free_pointer p st = (case p of None \<Rightarrow> Some st | Some a \<Rightarrow> RSA_free a st)"

section \<open>Generating and converting\<close>

definition kBits :: nat where
  "kBits = 1024"

text \<open>\<open>gen\<close> is what \<open>RSA_generate_key\<close> delivers. A key that fails its check is not freed.\<close>

definition GenRSAKey :: "'key rsa_lib \<Rightarrow> 'key option \<Rightarrow> nat option \<times> nat option \<Rightarrow> 'key rsa_store \<Rightarrow> (bool \<times> (nat option \<times> nat option) \<times> 'key rsa_store) option" where
  "GenRSAKey lib gen keys st =
     (case new_key gen st of
        (None, st) \<Rightarrow> Some (False, keys, st)
      | (Some rsa, st) \<Rightarrow> do {
          k \<leftarrow> rs_key st rsa;
          if \<not> RSA_check_key lib k then Some (False, keys, st)
          else do {
            let (privatekey, st) = new_key (RSAPrivateKey_dup lib k) st;
            let (publickey, st) = new_key (RSAPublicKey_dup lib k) st;
            st \<leftarrow> RSA_free rsa st;
            Some (True, (publickey, privatekey), st) } })"

definition RSAStringToPubKey :: "'key rsa_lib \<Rightarrow> string \<Rightarrow> 'key rsa_store \<Rightarrow> nat option \<times> 'key rsa_store" where
  "RSAStringToPubKey lib buf st = new_key (d2i_RSAPublicKey lib buf) st"

definition RSAStringToPrivKey :: "'key rsa_lib \<Rightarrow> string \<Rightarrow> 'key rsa_store \<Rightarrow> nat option \<times> 'key rsa_store" where
  "RSAStringToPrivKey lib buf st = new_key (d2i_RSAPrivateKey lib buf) st"

text \<open>The encoded key is written into \<open>temp\<close>, an array of \<open>kBits\<close> bytes.\<close>

definition key_to_string :: "('key \<Rightarrow> string option) \<Rightarrow> nat option \<Rightarrow> 'key rsa_store \<Rightarrow> string \<Rightarrow> (bool \<times> string) option" where
  "key_to_string i2d key st buf =
     (case key of
        None \<Rightarrow> Some (False, buf)
      | Some a \<Rightarrow> do {
          k \<leftarrow> rs_key st a;
          (case i2d k of
             None \<Rightarrow> Some (False, buf)
           | Some der \<Rightarrow> do {
               assert_c (length der \<le> kBits);
               if der = [] then Some (False, buf) else Some (True, buf @ der) }) })"

definition RSAPubKeyToString :: "'key rsa_lib \<Rightarrow> nat option \<Rightarrow> 'key rsa_store \<Rightarrow> string \<Rightarrow> (bool \<times> string) option" where
  "RSAPubKeyToString lib = key_to_string (i2d_RSAPublicKey lib)"

definition RSAPrivKeyToString :: "'key rsa_lib \<Rightarrow> nat option \<Rightarrow> 'key rsa_store \<Rightarrow> string \<Rightarrow> (bool \<times> string) option" where
  "RSAPrivKeyToString lib = key_to_string (i2d_RSAPrivateKey lib)"

section \<open>The object that owns a pair of keys\<close>

record YYRSA =
  ry_publicKey :: "nat option"
  ry_privateKey :: "nat option"

definition new_YYRSA :: YYRSA where
  "new_YYRSA = \<lparr>ry_publicKey = None, ry_privateKey = None\<rparr>"

definition delete_YYRSA :: "YYRSA \<Rightarrow> 'key rsa_store \<Rightarrow> 'key rsa_store option" where
  "delete_YYRSA r st = do { st \<leftarrow> free_pointer (ry_publicKey r) st; free_pointer (ry_privateKey r) st }"

definition replace_key :: "nat option \<Rightarrow> nat option \<Rightarrow> 'key rsa_store \<Rightarrow> (nat option \<times> 'key rsa_store) option" where
  "replace_key old key st =
     (case key of None \<Rightarrow> Some (old, st) | Some a \<Rightarrow> do { st \<leftarrow> free_pointer old st; Some (Some a, st) })"

definition SetRSAKey :: "nat option \<Rightarrow> nat option \<Rightarrow> YYRSA \<Rightarrow> 'key rsa_store \<Rightarrow> (YYRSA \<times> 'key rsa_store) option" where
  "SetRSAKey publickey privatekey r st = do {
     (p, st) \<leftarrow> replace_key (ry_publicKey r) publickey st;
     (q, st) \<leftarrow> replace_key (ry_privateKey r) privatekey st;
     Some (\<lparr>ry_publicKey = p, ry_privateKey = q\<rparr>, st) }"

definition SetRSAKey_strings :: "'key rsa_lib \<Rightarrow> string \<Rightarrow> string \<Rightarrow> YYRSA \<Rightarrow> 'key rsa_store \<Rightarrow> (YYRSA \<times> 'key rsa_store) option" where
  "SetRSAKey_strings lib publickey privatekey r st =
     (let (pubkey, st) = (if publickey \<noteq> [] then RSAStringToPubKey lib publickey st else (None, st));
          (prikey, st) = (if privatekey \<noteq> [] then RSAStringToPrivKey lib privatekey st else (None, st))
      in SetRSAKey pubkey prikey r st)"

text \<open>Encrypting and decrypting with the keys of the object.\<close>

definition YYRSA_encrypt :: "'key crypto_lib \<Rightarrow> YYRSA \<Rightarrow> 'key rsa_store \<Rightarrow> string \<Rightarrow> string option option" where
  "YYRSA_encrypt lib r st inbuf =
     (case ry_publicKey r of
        None \<Rightarrow> Some None
      | Some a \<Rightarrow> do { k \<leftarrow> rs_key st a; Some (RSAPublicEncrypt lib (Some k) inbuf) })"

definition YYRSA_decrypt :: "'key crypto_lib \<Rightarrow> YYRSA \<Rightarrow> 'key rsa_store \<Rightarrow> string \<Rightarrow> string \<Rightarrow> string option option" where
  "YYRSA_decrypt lib r st junk inbuf =
     (case ry_privateKey r of
        None \<Rightarrow> Some None
      | Some a \<Rightarrow> do { k \<leftarrow> rs_key st a; RSAPrivateDecrypt lib (Some k) junk inbuf })"

section \<open>Ownership\<close>

definition owned :: "YYRSA \<Rightarrow> nat set" where
  "owned r = set_option (ry_publicKey r) \<union> set_option (ry_privateKey r)"

text \<open>The live keys are those of others and the two of the object, which are different.\<close>

definition owns :: "nat set \<Rightarrow> YYRSA \<Rightarrow> 'key rsa_store \<Rightarrow> bool" where
  "owns others r st \<longleftrightarrow> store_ok st \<and> dom (rs_key st) = others \<union> owned r \<and> others \<inter> owned r = {} \<and>
     (\<forall>a. ry_publicKey r = Some a \<longrightarrow> ry_privateKey r \<noteq> Some a)"

definition key_of :: "nat option \<Rightarrow> 'key rsa_store \<Rightarrow> 'key option" where
  "key_of p st = Option.bind p (rs_key st)"

lemma next_free: "store_ok st \<Longrightarrow> rs_key st (rs_next st) = None"
  unfolding store_ok_def by (metis less_irrefl not_Some_eq)

lemma new_key_ok:
  assumes "store_ok st" and "new_key k st = (p, st')"
  shows "store_ok st'" "set_option p \<inter> dom (rs_key st) = {}" "dom (rs_key st') = dom (rs_key st) \<union> set_option p"
    "key_of p st' = k" "rs_key st a = Some x \<Longrightarrow> rs_key st' a = Some x" "p = None \<longleftrightarrow> k = None"
  using assms next_free [OF assms(1)]
  by (cases k; force simp: new_key_def key_of_def store_ok_def less_Suc_eq split: if_splits)+

lemma free_ok:
  assumes "set_option p \<subseteq> dom (rs_key st)" and "store_ok st"
  shows "\<exists>st'. free_pointer p st = Some st' \<and> store_ok st' \<and> dom (rs_key st') = dom (rs_key st) - set_option p \<and>
    (\<forall>a. a \<notin> set_option p \<longrightarrow> rs_key st' a = rs_key st a)"
proof (cases p)
  case None
  then show ?thesis using assms(2) by (simp add: free_pointer_def)
next
  case (Some a)
  then have "rs_key st a \<noteq> None" using assms(1) by auto
  then have "free_pointer p st = Some (st\<lparr>rs_key := (rs_key st)(a := None)\<rparr>)" using Some by (simp add: free_pointer_def RSA_free_def)
  then show ?thesis using assms(2) Some by (auto simp: store_ok_def split: if_splits)
qed

lemma replace_key_ok:
  assumes "set_option old \<subseteq> dom (rs_key st)" and "store_ok st"
  shows "\<exists>st'. replace_key old p st = Some (if p = None then old else p, st') \<and> store_ok st' \<and>
    dom (rs_key st') = dom (rs_key st) - (if p = None then {} else set_option old) \<and>
    (\<forall>a. a \<notin> set_option old \<longrightarrow> rs_key st' a = rs_key st a) \<and> (p = None \<longrightarrow> st' = st)"
proof (cases p)
  case None
  then show ?thesis using assms(2) by (simp add: replace_key_def)
next
  case (Some a)
  obtain st' where "free_pointer old st = Some st'" "store_ok st'" "dom (rs_key st') = dom (rs_key st) - set_option old"
      "\<forall>a. a \<notin> set_option old \<longrightarrow> rs_key st' a = rs_key st a" using free_ok [OF assms] by blast
  then show ?thesis using Some by (simp add: replace_key_def)
qed

text \<open>Setting keys that nobody else has.\<close>

lemma SetRSAKey_ok:
  assumes "store_ok st" and "dom (rs_key st) = others \<union> owned r \<union> set_option p \<union> set_option q" and "others \<inter> (owned r \<union> set_option p \<union> set_option q) = {}"
    and "\<forall>a. ry_publicKey r = Some a \<longrightarrow> ry_privateKey r \<noteq> Some a" and "set_option p \<inter> owned r = {}" and "set_option q \<inter> owned r = {}" and "\<forall>a. p = Some a \<longrightarrow> q \<noteq> Some a"
  shows "\<exists>r' st'. SetRSAKey p q r st = Some (r', st') \<and> owns others r' st' \<and>
    key_of (ry_publicKey r') st' = (if p = None then key_of (ry_publicKey r) st else key_of p st) \<and>
    key_of (ry_privateKey r') st' = (if q = None then key_of (ry_privateKey r) st else key_of q st)"
proof -
  have pub: "set_option (ry_publicKey r) \<subseteq> dom (rs_key st)" using assms(2) by (auto simp: owned_def)
  obtain s1 where s1: "replace_key (ry_publicKey r) p st = Some (if p = None then ry_publicKey r else p, s1)" "store_ok s1"
      "dom (rs_key s1) = dom (rs_key st) - (if p = None then {} else set_option (ry_publicKey r))"
      "\<forall>a. a \<notin> set_option (ry_publicKey r) \<longrightarrow> rs_key s1 a = rs_key st a" "p = None \<longrightarrow> s1 = st"
    using replace_key_ok [OF pub assms(1), of p] by blast
  have pri: "set_option (ry_privateKey r) \<subseteq> dom (rs_key s1)" using assms(2,4) s1(3) by (auto simp: owned_def)
  obtain s2 where s2: "replace_key (ry_privateKey r) q s1 = Some (if q = None then ry_privateKey r else q, s2)" "store_ok s2"
      "dom (rs_key s2) = dom (rs_key s1) - (if q = None then {} else set_option (ry_privateKey r))"
      "\<forall>a. a \<notin> set_option (ry_privateKey r) \<longrightarrow> rs_key s2 a = rs_key s1 a" "q = None \<longrightarrow> s2 = s1"
    using replace_key_ok [OF pri s1(2), of q] by blast
  let ?r = "\<lparr>ry_publicKey = if p = None then ry_publicKey r else p, ry_privateKey = if q = None then ry_privateKey r else q\<rparr>"
  have res: "SetRSAKey p q r st = Some (?r, s2)" using s1(1) s2(1) by (simp add: SetRSAKey_def)
  have d: "set_option (ry_publicKey r) \<inter> set_option (ry_privateKey r) = {}" using assms(4) by auto
  have pq: "set_option p \<inter> set_option q = {}" using assms(7) by auto
  have dom: "dom (rs_key s2) = others \<union> owned ?r"
    unfolding s2(3) s1(3) assms(2) using assms(3,5,6) d pq by (cases "p = None"; cases "q = None"; simp add: owned_def; blast)
  have "\<forall>a. ry_publicKey ?r = Some a \<longrightarrow> ry_privateKey ?r \<noteq> Some a"
    using assms(4-7) by (cases p; cases q) (auto simp: owned_def)
  then have "owns others ?r s2" unfolding owns_def
    using dom s2(2) assms(3) by (auto simp: owned_def)
  moreover have "key_of (ry_publicKey ?r) s2 = (if p = None then key_of (ry_publicKey r) st else key_of p st)"
    using s1(4,5) s2(4) assms(4,5) by (cases p; cases "ry_publicKey r") (auto simp: key_of_def owned_def)
  moreover have "key_of (ry_privateKey ?r) s2 = (if q = None then key_of (ry_privateKey r) st else key_of q st)"
    using s1(4,5) s2(4,5) assms(4,6) by (cases q; cases "ry_privateKey r") (auto simp: key_of_def owned_def)
  ultimately show ?thesis using res by blast
qed

lemma set_strings_ok:
  assumes "owns others r st"
  shows "\<exists>r' st'. SetRSAKey_strings lib publickey privatekey r st = Some (r', st') \<and> owns others r' st' \<and>
    key_of (ry_publicKey r') st' = (if publickey = [] \<or> d2i_RSAPublicKey lib publickey = None then key_of (ry_publicKey r) st else d2i_RSAPublicKey lib publickey) \<and>
    key_of (ry_privateKey r') st' = (if privatekey = [] \<or> d2i_RSAPrivateKey lib privatekey = None then key_of (ry_privateKey r) st else d2i_RSAPrivateKey lib privatekey)"
proof -
  define k1 where "k1 = (if publickey = [] then None else d2i_RSAPublicKey lib publickey)"
  define k2 where "k2 = (if privatekey = [] then None else d2i_RSAPrivateKey lib privatekey)"
  obtain p s1 where p: "new_key k1 st = (p, s1)" by fastforce
  obtain q s2 where q: "new_key k2 s1 = (q, s2)" by fastforce
  have ok: "store_ok st" "dom (rs_key st) = others \<union> owned r" "others \<inter> owned r = {}" "\<forall>a. ry_publicKey r = Some a \<longrightarrow> ry_privateKey r \<noteq> Some a"
    using assms by (simp_all add: owns_def)
  note n1 = new_key_ok [OF ok(1) p]
  note n2 = new_key_ok [OF n1(1) q]
  have dom: "dom (rs_key s2) = others \<union> owned r \<union> set_option p \<union> set_option q" using n1(3) n2(3) ok(2) by simp
  have new: "set_option p \<inter> (others \<union> owned r) = {}" "set_option q \<inter> (others \<union> owned r \<union> set_option p) = {}"
    using n1(2,3) n2(2) ok(2) by auto
  have kept: "key_of x s2 = key_of x st" if "set_option x \<subseteq> owned r" for x
  proof (cases x)
    case (Some a)
    then have "a \<in> dom (rs_key st)" using that ok(2) by auto
    then show ?thesis using Some n1(5) n2(5) by (auto simp: key_of_def)
  qed (simp add: key_of_def)
  have "key_of p s2 = k1"
  proof (cases p)
    case None
    then show ?thesis using n1(6) by (simp add: key_of_def)
  next
    case (Some a)
    then obtain x where "k1 = Some x" using n1(6) by (cases k1) simp_all
    then have "rs_key s1 a = Some x" using n1(4) Some by (simp add: key_of_def)
    then show ?thesis using n2(5) Some \<open>k1 = Some x\<close> by (simp add: key_of_def)
  qed
  moreover have "\<exists>r' st'. SetRSAKey p q r s2 = Some (r', st') \<and> owns others r' st' \<and>
      key_of (ry_publicKey r') st' = (if p = None then key_of (ry_publicKey r) s2 else key_of p s2) \<and>
      key_of (ry_privateKey r') st' = (if q = None then key_of (ry_privateKey r) s2 else key_of q s2)"
    using new ok(3) by (intro SetRSAKey_ok [OF n2(1) dom _ ok(4)]) auto
  moreover have "SetRSAKey_strings lib publickey privatekey r st = SetRSAKey p q r s2"
    using p q by (auto simp: SetRSAKey_strings_def RSAStringToPubKey_def RSAStringToPrivKey_def k1_def k2_def new_key_def)
  ultimately show ?thesis using n1(6) n2(4,6) kept [of "ry_publicKey r"] kept [of "ry_privateKey r"] by (auto simp: owned_def k1_def k2_def split: if_splits)
qed

text \<open>Any number of logins on a connection, and the end of its object.\<close>

fun set_all :: "'key rsa_lib \<Rightarrow> (string \<times> string) list \<Rightarrow> YYRSA \<Rightarrow> 'key rsa_store \<Rightarrow> (YYRSA \<times> 'key rsa_store) option" where
  "set_all lib [] r st = Some (r, st)"
| "set_all lib ((p, q) # ks) r st = do { (r, st) \<leftarrow> SetRSAKey_strings lib p q r st; set_all lib ks r st }"

lemma set_all_ok: "owns others r st \<Longrightarrow> \<exists>r' st'. set_all lib ks r st = Some (r', st') \<and> owns others r' st'"
proof (induction ks arbitrary: r st)
  case (Cons k ks)
  obtain p q where k: "k = (p, q)" by (cases k)
  obtain r1 s1 where "SetRSAKey_strings lib p q r st = Some (r1, s1)" "owns others r1 s1" using set_strings_ok [OF Cons.prems] by blast
  then show ?case using Cons.IH k by simp
qed simp

lemma delete_YYRSA_ok:
  assumes "owns others r st"
  shows "\<exists>st'. delete_YYRSA r st = Some st' \<and> dom (rs_key st') = others"
proof -
  have st: "store_ok st" "dom (rs_key st) = others \<union> owned r" "others \<inter> owned r = {}" "set_option (ry_publicKey r) \<inter> set_option (ry_privateKey r) = {}"
    using assms by (auto simp: owns_def)
  have p: "set_option (ry_publicKey r) \<subseteq> dom (rs_key st)" using st(2) by (auto simp: owned_def)
  obtain s1 where s1: "free_pointer (ry_publicKey r) st = Some s1" "store_ok s1" "dom (rs_key s1) = dom (rs_key st) - set_option (ry_publicKey r)"
    using free_ok [OF p st(1)] by blast
  have q: "set_option (ry_privateKey r) \<subseteq> dom (rs_key s1)" using st(2,4) s1(3) by (auto simp: owned_def)
  obtain s2 where "free_pointer (ry_privateKey r) s1 = Some s2" "dom (rs_key s2) = dom (rs_key s1) - set_option (ry_privateKey r)"
    using free_ok [OF q s1(2)] by blast
  then show ?thesis using s1(1,3) st(2-4) by (auto simp: delete_YYRSA_def owned_def)
qed

lemma keys_owned:
  assumes "store_ok st"
  shows "\<exists>r st1 st2. set_all lib ks new_YYRSA st = Some (r, st1) \<and> delete_YYRSA r st1 = Some st2 \<and> dom (rs_key st2) = dom (rs_key st)"
proof -
  have "owns (dom (rs_key st)) new_YYRSA st" using assms by (simp add: owns_def owned_def new_YYRSA_def)
  then show ?thesis using set_all_ok delete_YYRSA_ok by blast
qed

section \<open>Exchanging keys\<close>

text \<open>A public key that was sent as a string is the one that is used for encryption, when decoding inverts encoding.\<close>

lemma public_key_exchanged:
  assumes "owns others r st" and "key_of (Some a) st = Some k" and "i2d_RSAPublicKey lib k = Some der" and "der \<noteq> []" and "length der \<le> kBits"
    and "d2i_RSAPublicKey lib der = Some k"
  shows "RSAPubKeyToString lib (Some a) st [] = Some (True, der)"
    "\<exists>r' st'. SetRSAKey_strings lib der [] r st = Some (r', st') \<and> YYRSA_encrypt clib r' st' s = Some (RSAPublicEncrypt clib (Some k) s)"
proof -
  show "RSAPubKeyToString lib (Some a) st [] = Some (True, der)" using assms(2-5) by (simp add: RSAPubKeyToString_def key_to_string_def key_of_def)
  obtain r' st' where r: "SetRSAKey_strings lib der [] r st = Some (r', st')" "key_of (ry_publicKey r') st' = Some k"
    using set_strings_ok [OF assms(1), of lib der "[]"] assms(4,6) by auto
  then have "YYRSA_encrypt clib r' st' s = Some (RSAPublicEncrypt clib (Some k) s)" by (cases "ry_publicKey r'") (auto simp: YYRSA_encrypt_def key_of_def)
  then show "\<exists>r' st'. SetRSAKey_strings lib der [] r st = Some (r', st') \<and> YYRSA_encrypt clib r' st' s = Some (RSAPublicEncrypt clib (Some k) s)" using r(1) by blast
qed

section \<open>What goes wrong\<close>

text \<open>A key whose encoding is longer than the array, a generated key that fails its check, and a key that is set again.\<close>

lemma long_key_overflows: "key_of (Some a) st = Some k \<Longrightarrow> i2d_RSAPrivateKey lib k = Some der \<Longrightarrow> kBits < length der \<Longrightarrow> RSAPrivKeyToString lib (Some a) st buf = None"
  by (simp add: RSAPrivKeyToString_def key_to_string_def key_of_def)

lemma failed_check_leaks: "\<not> RSA_check_key lib k \<Longrightarrow> \<exists>st'. GenRSAKey lib (Some k) keys st = Some (False, keys, st') \<and> dom (rs_key st') = dom (rs_key st) \<union> {rs_next st}"
  by (auto simp: GenRSAKey_def new_key_def)

lemma same_key_dangles:
  assumes "owns others r st" and "ry_publicKey r = Some a"
  shows "\<exists>st'. SetRSAKey (Some a) None r st = Some (r, st') \<and> delete_YYRSA r st' = None"
proof -
  have "rs_key st a \<noteq> None" using assms by (auto simp: owns_def owned_def dom_def)
  then show ?thesis using assms(2) by (cases r) (simp add: SetRSAKey_def replace_key_def free_pointer_def RSA_free_def delete_YYRSA_def)
qed

section \<open>Base64 buffers\<close>

text \<open>The sizes to which the result is set before the coder writes into it.\<close>

definition base64Len :: "nat \<Rightarrow> int" where
  "base64Len n = c_int (int ((n + 2) div 3 * 4 + 1))"

definition pemLen :: "nat \<Rightarrow> int" where
  "pemLen n = c_int (base64Len n + base64Len n sdiv 64)"

definition orgLen :: "nat \<Rightarrow> int" where
  "orgLen n = c_int (int ((n + 2) div 4 * 3 + 1))"

text \<open>What the coder is documented to write: lines of 64 characters for 48 bytes, each with its newline; three bytes for four characters.\<close>

definition evp_encoded_length :: "nat \<Rightarrow> nat" where
  "evp_encoded_length n = n div 48 * 65 + (if n mod 48 = 0 then 0 else (n mod 48 + 2) div 3 * 4 + 1)"

lemma base64_fits:
  assumes "n < 2 ^ 29"
  shows "int (evp_encoded_length n) \<le> pemLen n" "int (n div 4 * 3) \<le> orgLen n"
proof -
  have b: "base64Len n = int ((n + 2) div 3 * 4 + 1)" unfolding base64Len_def using assms by (intro c_int_id) auto
  have "(n + 2) div 3 * 4 + 1 + ((n + 2) div 3 * 4 + 1) div 64 < (2147483648 :: nat)" using assms by simp
  then have "pemLen n = int ((n + 2) div 3 * 4 + 1 + ((n + 2) div 3 * 4 + 1) div 64)"
    unfolding pemLen_def b by (subst c_int_id) (auto simp: signed_divide_int_def)
  moreover have "evp_encoded_length n \<le> (n + 2) div 3 * 4 + 1 + ((n + 2) div 3 * 4 + 1) div 64"
  proof -
    define q r where "q = n div 48" and "r = n mod 48"
    have n: "n + 2 = (r + 2) + 3 * (16 * q)" unfolding q_def r_def using mult_div_mod_eq [of 48 n] by simp
    have "(n + 2) div 3 = 16 * q + (r + 2) div 3" unfolding n by (subst div_mult_self2) simp_all
    then have e: "(n + 2) div 3 * 4 + 1 = ((r + 2) div 3 * 4 + 1) + 64 * q" by simp
    have "((r + 2) div 3 * 4 + 1 + 64 * q) div 64 = q + ((r + 2) div 3 * 4 + 1) div 64" by (subst div_mult_self2) simp_all
    then show ?thesis unfolding e by (simp add: evp_encoded_length_def q_def [symmetric] r_def [symmetric])
  qed
  ultimately show "int (evp_encoded_length n) \<le> pemLen n" by simp
  have "orgLen n = int ((n + 2) div 4 * 3 + 1)" unfolding orgLen_def using assms by (intro c_int_id) auto
  moreover have "n div 4 \<le> (n + 2) div 4" by (simp add: div_le_mono)
  ultimately show "int (n div 4 * 3) \<le> orgLen n" by simp
qed

end
