(* ===== verification/Spec2Isabelle.thy ===== *)
theory Spec2Isabelle
  imports MmsPrelude Sds SdsText Dict CallbackDict Reader ReaderBytes ReaderParse ReaderStream ReaderProps
    Format FormatProps Net NetProps Context ContextProps Fifo CallbackQueue Async AsyncClose AsyncCommand AsyncDispatch
    Buffers Containers Crypto JsonProtocol JsonProps EventLoop EventProps Mysql MysqlProps
    Redis RedisProps Server ServerProps CommandProps WorkerPool RedisServer
    Xml XmlProps XmlLayout Config ConfigProps XmlPrint XmlPrintProps CryptoKeys
begin

text \<open>
  A verification library for the message server \<open>yymms_svr\<close> and the Redis client library (hiredis, in its
  Windows port) that is part of its sources. Paths below are relative to \<open>src/\<close>.

  \<^bold>\<open>The program.\<close> One thread runs an event loop over the connections (\<open>src/event\<close>). What a read event finds
  becomes a job in the queue of the worker that owns the connection (\<open>src/yymm_svr/yymms_svr.cpp\<close>). Workers cut
  the bytes into framed JSON commands (\<open>src/yymm_svr/jsonprotocol.h\<close>), decrypt them where necessary
  (\<open>include/yyssl.h\<close>), and run them (\<open>src/yymm_svr/cmdproc.cpp\<close>, \<open>mmsexecmag.cpp\<close>); their answers go back to
  the loop through a queue with a wake-up socket. Logins are looked up in MySQL (\<open>src/mysql\<close>), and a wrapper keeps
  a connection to Redis (\<open>src/redis\<close>). The Redis client parses replies, formats commands and
  drives a connection synchronously or from events (\<open>win32/hiredis\<close>). At its start the program reads its configuration
  (\<open>src/yymm_svr/cfg.cpp\<close>) with a bundled XML library (\<open>src/tinyxml2\<close>).

  \<^bold>\<open>Conventions.\<close> A C computation that may fault (access outside a block, a failed assertion, a NULL pointer) is a
  function into \<^typ>\<open>'a option\<close> with \<^const>\<open>None\<close> for the fault. A loop that may run for ever is a
  \<open>partial_function\<close> of the option monad, where not returning is \<^const>\<open>None\<close> as well; the theorems about such
  loops therefore state that they return. A block of memory is a list of optional bytes (\<^const>\<open>None\<close>: not
  initialised). Integers are \<^typ>\<open>int\<close> and \<^typ>\<open>nat\<close> with the conversions of C written out
  (\<^const>\<open>c_int\<close>, \<^const>\<open>c_size_t\<close>, \<^const>\<open>c_llong\<close>). Objects that the code shares through pointers
  (replies, callbacks, connections, client data) live in explicit stores. The operating system, OpenSSL,
  the JSON library, the MySQL client, malloc and the clock are parameters; what a theorem needs of them
  is a named hypothesis with a concrete instance in its witness.

  \<^bold>\<open>Theories and sources.\<close>

  \<^item> \<open>MmsPrelude\<close>: C integers, memory blocks, C string functions, decimal numbers, assertions.
  \<^item> \<open>Sds\<close>, \<open>SdsText\<close>: \<open>win32/hiredis/sds.c\<close>, dynamic strings; their use as a byte queue, splitting, quoting and
    reading quoted arguments, comparison, decimal conversion.
  \<^item> \<open>Dict\<close>, \<open>CallbackDict\<close>: \<open>win32/hiredis/dict.c\<close>, the chained hash table with its growth, its locale of map laws,
    and the interpretation for the subscriptions of \<open>async.c\<close>.
  \<^item> \<open>Reader\<close>, \<open>ReaderBytes\<close>, \<open>ReaderParse\<close>, \<open>ReaderStream\<close>, \<open>ReaderProps\<close>: the incremental reply parser of
    \<open>win32/hiredis/hiredis.c\<close> with its task stack and reply objects. It decodes every encoded reply however the
    bytes are cut, and behaves the same for every cut of arbitrary bytes.
  \<^item> \<open>Format\<close>, \<open>FormatProps\<close>: \<open>redisvFormatCommand\<close>, \<open>redisFormatCommandArgv\<close>; interpolated data cannot change the
    arguments of a command, and formatted commands read back.
  \<^item> \<open>Net\<close>, \<open>NetProps\<close>: \<open>win32/hiredis/net.c\<close>, the socket layer over a record of system calls.
  \<^item> \<open>Context\<close>, \<open>ContextProps\<close>: the connection context of \<open>hiredis.c\<close>; a command on a blocking context completes
    with its reply for every way the network splits the bytes.
  \<^item> \<open>Fifo\<close>, \<open>CallbackQueue\<close>: the contract of a first-in first-out queue as a locale, and the linked list of
    callbacks of \<open>async.c\<close> that implements it.
  \<^item> \<open>Async\<close>, \<open>AsyncClose\<close>, \<open>AsyncCommand\<close>, \<open>AsyncDispatch\<close>: \<open>win32/hiredis/async.c\<close>; commands and
    subscriptions, dispatch of replies to callbacks that may themselves issue commands, disconnecting and
    freeing. A user's callback is a list of calls it makes.
  \<^item> \<open>Buffers\<close>, \<open>Containers\<close>: \<open>include/fastbuffer.h\<close>, \<open>include/memstuff.h\<close>, \<open>include/event_hash.h\<close>,
    \<open>src/event/lockqueue.h\<close>, \<open>src/event/lockqueuemap.h\<close>, \<open>include/util.h\<close>; each operation that holds a mutex is
    one atomic step.
  \<^item> \<open>Crypto\<close>, \<open>CryptoKeys\<close>: \<open>include/yyssl.h\<close>, the handling of blocks; the generation, conversion and ownership of RSA
    keys in a store of OpenSSL's objects, with the invariant that an object owns two different live keys.
  \<^item> \<open>JsonProtocol\<close>, \<open>JsonProps\<close>: \<open>src/yymm_svr/jsonprotocol.h\<close>, \<open>include/yyjson.h\<close>; the fifteen commands, framing,
    encrypted commands, and their round trips.
  \<^item> \<open>EventLoop\<close>, \<open>EventProps\<close>: \<open>src/event/yylibevent.cpp\<close>, \<open>event_msgqueue.h\<close>; the handlers over a store of
    connection objects, a step relation over all orders of events with its invariant, and the locale
    \<open>event_owner\<close>: what the loop needs of the object it serves and what it then guarantees about input and
    output.
  \<^item> \<open>Mysql\<close>, \<open>MysqlProps\<close>: \<open>src/mysql/yylibmysql.cpp\<close>; prepared statements whose values and result columns live in
    the allocator of \<open>Buffers\<close>. MySQL reads exactly the values given, with their types; a column narrower than its
    type is written beyond its buffer.
  \<^item> \<open>Redis\<close>, \<open>RedisProps\<close>: \<open>src/redis/yyredis.h\<close>, \<open>src/redis/yyredis.cpp\<close>; the wrapper of the asynchronous context
    with its events, a step relation over all orders of its calls and events, and the invariant of its
    pointer.
  \<^item> \<open>Server\<close>: \<open>yymms_svr.cpp\<close>, \<open>cmdproc.cpp\<close>, \<open>mmsexecmag.cpp\<close>, the server as such an owner.
  \<^item> \<open>ServerProps\<close>: the interpretation of \<open>event_owner\<close> for the server and what follows for data read and sent.
  \<^item> \<open>CommandProps\<close>: the loop over received commands ends, and runs the commands of a buffer in order; the
    inputs on which it hangs or closes the connection.
  \<^item> \<open>WorkerPool\<close>: event loop and workers as one transition system whose steps are the calls under a mutex or on a
    semaphore, in any order; jobs of a connection are processed in order and by one worker at a time,
    and no wake-up is lost.
  \<^item> \<open>RedisServer\<close>: the server's calls of the wrapper are steps of \<open>RedisProps\<close>; the way of a reply from the bytes of
    Redis to the client.
  \<^item> \<open>Xml\<close>: \<open>src/tinyxml2\<close>, loading a file into a tree with the decoding of its sections in place, and the accessors.
  \<^item> \<open>XmlProps\<close>: loading returns for every file; decoding of escaped texts, and the texts on which it fails.
  \<^item> \<open>XmlLayout\<close>: a grammar of documents as inductive relations, and the proof that the parser reads every layout of a
    document as its tree.
  \<^item> \<open>XmlPrint\<close>, \<open>XmlPrintProps\<close>: the printer of \<open>src/tinyxml2\<close>; what it writes is a layout of the tree, so that a saved
    document is loaded as the same document.
  \<^item> \<open>Config\<close>, \<open>ConfigProps\<close>: \<open>src/yymm_svr/cfg.cpp\<close>, \<open>main.cpp\<close>; every layout of a configuration is read to its values,
    with the delivered \<open>bin/config/cfg.xml\<close> as the instance, and the program starts with them.

  \<^bold>\<open>Bounds.\<close> The theorems about the event loop take buffers of at most \<open>2 ^ 29\<close> bytes and a memory that grants requests
  up to \<open>2 ^ 31\<close> bytes (\<^const>\<open>ample\<close>): \<open>fastbuffer\<close> doubles its block, so four times the content is enough.
  Statements take values below \<open>2 ^ 31\<close> bytes and a memory that grants requests below \<open>2 ^ 33\<close> (\<^const>\<open>plenty\<close>). Names of
  elements and attributes in the XML grammar are shorter than the limit of the comparison of strings, \<open>2 ^ 31 - 1\<close>. The
  recursive release of replies and the walk along callback lists have bounds that are proved sufficient.

  \<^bold>\<open>Not modelled.\<close> \<open>AsyncSendCommand\<close> of \<open>yyredis.h\<close>, a template member that is never instantiated and calls a
  function that does not exist; the server therefore never sends a command to Redis, and the callback \<open>redis_cb\<close> is
  modelled on the store of replies as it is when a callback runs. \<open>yylibmysqlpp.cpp\<close>, which is not built; of
  \<open>src/tinyxml2\<close> building and changing trees, handles, visitors other than the printer, the memory pools and the
  conversions of floating-point numbers, none of which the server uses, and the translation of line ends by the text
  mode of a saved file; the adapters of hiredis for other event libraries, which do not fit its \<open>async.h\<close>; the headers of libraries (third-party); the POSIX variants of \<open>net.c\<close>, which this port does not compile; logging; the
  test programs. Steps of a worker inside one job are one step of \<open>WorkerPool\<close>: the client maps it uses are locked
  per call, and its other state belongs to the connection, whose jobs only this worker processes.
\<close>

end
